(* ===== verification/Prelude.thy ===== *)
theory Prelude
  imports Main "HOL-Library.Word" "HOL-Library.Monad_Syntax"
begin

text \<open>
  Shared vocabulary of the development: the machine integer types of the C
  sources, the collections the component proofs use, and generic facts on
  lists, options and words.

  Conventions.  A C buffer is a list of bytes, and every access to it is
  checked: an access outside the buffer is the value \<^const>\<open>None\<close>.  For a buffer of
  its own size that is undefined behaviour of the C program; for a command payload, which
  lies in a larger scratch buffer, it can also be a read of bytes of an earlier command.  A handler is a
  function from the system state to an optional pair of status and state, so
  "the handler never reads outside its payload" is the statement that its
  value is never \<^const>\<open>None\<close>.
\<close>

type_synonym u8 = "8 word"
type_synonym u16 = "16 word"
type_synonym u32 = "32 word"
type_synonym u64 = "64 word"
type_synonym bytes = "8 word list"

text \<open>The status codes of the library's interface.\<close>

datatype lagfx_status =
    LAGFX_OK
  | LAGFX_ERR_INVALID_ARG
  | LAGFX_ERR_OUT_OF_MEMORY
  | LAGFX_ERR_VULKAN_INIT
  | LAGFX_ERR_PROTOCOL
  | LAGFX_ERR_INTERNAL
  | LAGFX_ERR_NO_FRAME
  | LAGFX_ERR_BACKEND
  | LAGFX_ERR_NOT_FOUND

named_theorems geom_simps \<open>which state changes keep the ring geometry\<close>
named_theorems chk_simps \<open>checked accesses that are in bounds\<close>
named_theorems wd_simps \<open>word arithmetic of the address computations\<close>

text \<open>The first index of a table whose entry satisfies a test: the loop
  "for i in 0..n: if test(t[i]) return &t[i]; return NULL".\<close>

fun find_index :: "('a \<Rightarrow> bool) \<Rightarrow> 'a list \<Rightarrow> nat option" where
  "find_index P [] = None"
| "find_index P (x # xs) = (if P x then Some 0 else map_option Suc (find_index P xs))"

lemma find_index_None_iff: "find_index P xs = None \<longleftrightarrow> (\<forall>x\<in>set xs. \<not> P x)"
  by (induction xs) auto

lemma find_index_SomeD_all:
  "find_index P xs = Some i \<Longrightarrow> i < length xs \<and> P (xs ! i) \<and> (\<forall>j<i. \<not> P (xs ! j))"
proof (induction xs arbitrary: i)
  case (Cons x xs)
  show ?case
  proof (cases "P x")
    case False
    with Cons.prems obtain k where "find_index P xs = Some k" "i = Suc k" by auto
    with Cons.IH[of k] False show ?thesis by (auto simp: less_Suc_eq_0_disj)
  qed (use Cons.prems in simp)
qed simp

lemma find_index_SomeD:
  assumes "find_index P xs = Some i"
  shows "i < length xs" "P (xs ! i)" "\<And>j. j < i \<Longrightarrow> \<not> P (xs ! j)"
  using find_index_SomeD_all[OF assms] by auto

lemma find_index_SomeI:
  "i < length xs \<Longrightarrow> P (xs ! i) \<Longrightarrow> (\<And>j. j < i \<Longrightarrow> \<not> P (xs ! j)) \<Longrightarrow> find_index P xs = Some i"
proof (induction xs arbitrary: i)
  case (Cons x xs)
  show ?case
  proof (cases i)
    case 0 with Cons.prems show ?thesis by simp
  next
    case (Suc k)
    have "find_index P xs = Some k"
    proof (rule Cons.IH)
      show "k < length xs" "P (xs ! k)" using Cons.prems(1,2) Suc by auto
      show "\<not> P (xs ! j)" if "j < k" for j
        using Cons.prems(3)[of "Suc j"] Suc that by simp
    qed
    moreover have "\<not> P x" using Cons.prems(3)[of 0] Suc by simp
    ultimately show ?thesis using Suc by simp
  qed
qed simp

lemma find_index_bound: "find_index P xs = Some i \<Longrightarrow> i < length xs"
  by (rule find_index_SomeD)

lemma find_index_map: "find_index P (map f xs) = find_index (\<lambda>x. P (f x)) xs"
  by (induction xs) auto

lemma find_index_cong:
  "length xs = length ys \<Longrightarrow> (\<And>i. i < length xs \<Longrightarrow> P (xs ! i) = Q (ys ! i)) \<Longrightarrow>
   find_index P xs = find_index Q ys"
proof (induction xs arbitrary: ys)
  case (Cons x xs)
  then obtain y zs where ys: "ys = y # zs" by (cases ys) auto
  have "P x = Q y" using Cons.prems(2)[of 0] ys by simp
  moreover have "find_index P xs = find_index Q zs"
    using Cons.prems(1) ys Cons.prems(2)[of "Suc _"] by (intro Cons.IH) auto
  ultimately show ?case using ys by simp
qed auto

text \<open>Tables with a liveness flag: live entries carry distinct identifiers.\<close>

definition uniq_by :: "('a \<Rightarrow> bool) \<Rightarrow> ('a \<Rightarrow> 'b) \<Rightarrow> 'a list \<Rightarrow> bool" where
  "uniq_by P f xs \<longleftrightarrow>
     (\<forall>i < length xs. \<forall>j < length xs. P (xs ! i) \<longrightarrow> P (xs ! j) \<longrightarrow> f (xs ! i) = f (xs ! j) \<longrightarrow> i = j)"

lemma uniq_by_update:
  assumes "uniq_by P f xs"
    and "\<And>j. P v \<Longrightarrow> j < length xs \<Longrightarrow> j \<noteq> i \<Longrightarrow> P (xs ! j) \<Longrightarrow> f (xs ! j) \<noteq> f v"
  shows "uniq_by P f (xs[i := v])"
  unfolding uniq_by_def
proof (intro allI impI)
  fix a b
  assume h: "a < length (xs[i := v])" "b < length (xs[i := v])" "P (xs[i := v] ! a)" "P (xs[i := v] ! b)"
    "f (xs[i := v] ! a) = f (xs[i := v] ! b)"
  show "a = b"
  proof (cases "a = i \<or> b = i")
    case True
    then show ?thesis using h assms(2)[of a] assms(2)[of b] by (auto simp: nth_list_update split: if_splits)
  next
    case False
    then show ?thesis using h assms(1) by (auto simp: uniq_by_def nth_list_update)
  qed
qed

lemma uniq_by_update_same:
  "uniq_by P f xs \<Longrightarrow> P (xs ! i) \<Longrightarrow> f v = f (xs ! i) \<Longrightarrow> i < length xs \<Longrightarrow> uniq_by P f (xs[i := v])"
  by (rule uniq_by_update) (auto simp: uniq_by_def)

lemma uniq_by_update_dead: "uniq_by P f xs \<Longrightarrow> \<not> P v \<Longrightarrow> uniq_by P f (xs[i := v])"
  by (rule uniq_by_update) auto

lemma uniq_by_update_fresh:
  "uniq_by P f xs \<Longrightarrow> find_index (\<lambda>x. P x \<and> f x = f v) xs = None \<Longrightarrow> uniq_by P f (xs[i := v])"
  by (rule uniq_by_update) (auto simp: find_index_None_iff)

lemma uniq_by_find:
  "uniq_by P f xs \<Longrightarrow> i < length xs \<Longrightarrow> P (xs ! i) \<Longrightarrow> find_index (\<lambda>x. P x \<and> f x = f (xs ! i)) xs = Some i"
  by (rule find_index_SomeI) (auto simp: uniq_by_def dest: less_trans)

lemma uniq_by_replicate_dead: "\<not> P z \<Longrightarrow> uniq_by P f (replicate n z)"
  by (simp add: uniq_by_def)

text \<open>Option-valued computations: unfolding a bind that succeeded, and the
  total case.\<close>

lemma bind_eq_SomeE:
  assumes "Option.bind m f = Some y"
  obtains x where "m = Some x" "f x = Some y"
  using assms by (cases m) auto

lemma bind_not_None_iff:
  "Option.bind m f \<noteq> None \<longleftrightarrow> (\<exists>x. m = Some x \<and> f x \<noteq> None)"
  by (cases m) auto


lemma unat_inc: "(w :: 'a::len word) \<noteq> - 1 \<Longrightarrow> unat (w + 1) = unat w + 1"
  using unatSuc[of w] by (metis add.commute add_eq_0_iff2 Suc_eq_plus1)

lemma unat_ucast_small:
  "unat w < 2 ^ LENGTH('b) \<Longrightarrow> unat (ucast (w :: 'a::len word) :: 'b::len word) = unat w"
  by (simp add: unsigned_ucast_eq take_bit_nat_eq_self)

lemma unat_bound: "unat (w :: 'a::len word) < 2 ^ LENGTH('a)"
  by (rule unsigned_less)

lemma unat_add_small:
  "unat a + unat b < 2 ^ LENGTH('a) \<Longrightarrow> unat (a + b :: 'a::len word) = unat a + unat b"
  by (simp add: unat_plus_if_size word_size)

lemma unat_of_nat_small: "n < 2 ^ LENGTH('a) \<Longrightarrow> unat (of_nat n :: 'a::len word) = n"
  by (simp add: unat_of_nat)

lemma unat_drop_bit: "unat (drop_bit n (w :: 'a::len word)) = unat w div 2 ^ n"
  by (simp only: unsigned_drop_bit_eq)
     (simp add: drop_bit_eq_div take_bit_nat_eq_self unat_bound)

text \<open>Reassembling a word from a low part and the next bits above it.\<close>

unbundle bit_operations_syntax

lemma take_bit_concat:
  "take_bit n v OR push_bit n (take_bit m (drop_bit n v)) = take_bit (n + m) (v :: 'a::len word)"
  by (rule bit_eqI) (auto simp: bit_simps)

lemma ucast_ucast8: "ucast (ucast (v :: 'a::len word) :: u8) = take_bit 8 v"
  by (rule bit_eqI) (auto simp: bit_simps)

lemma and_ff: "v AND 0xff = take_bit 8 (v :: 'a::len word)"
  by (simp add: take_bit_eq_mask mask_eq_exp_minus_1)

lemma ucast_take_bit8 [simp]: "(ucast (take_bit 8 (v :: 'a::len word)) :: u8) = ucast v"
  by (rule bit_eqI) (auto simp: bit_simps)

lemma word_and_fff: "unat (w AND 0xfff) = unat (w :: 'a::len word) mod 4096"
proof -
  have "w AND 0xfff = take_bit 12 w" by (simp add: take_bit_eq_mask mask_eq_exp_minus_1)
  then show ?thesis by (simp only: unsigned_take_bit_eq) (simp add: take_bit_eq_mod)
qed

lemma unat_ucast_up:
  "LENGTH('a) \<le> LENGTH('b) \<Longrightarrow> unat (ucast (w :: 'a::len word) :: 'b::len word) = unat w"
  by (rule unat_ucast_small) (rule order.strict_trans2[OF unat_bound], simp)

text \<open>Sequencing a list of optional results, and arithmetic within a page of 4096.\<close>

lemma those_append: "those (xs @ ys) = Option.bind (those xs) (\<lambda>a. map_option ((@) a) (those ys))"
proof (induction xs)
  case Nil
  show ?case by (cases "those ys") auto
next
  case (Cons x xs)
  then show ?case by (cases x; cases "those xs"; cases "those ys") auto
qed

lemma append_fun: "(@) (a @ b) = (\<lambda>x. a @ b @ x)"
  by (rule ext) simp

lemma those_map_Some: "those (map (\<lambda>x. Some (f x)) xs) = Some (map f xs)"
  by (induction xs) auto

lemma those_length: "those xs = Some ys \<Longrightarrow> length ys = length xs"
  by (induction xs arbitrary: ys) (auto split: option.splits)

lemma those_NoneI: "None \<in> set xs \<Longrightarrow> those xs = None"
  by (induction xs) (auto split: option.splits)

lemma mod_add_in_page:
  fixes x r i :: nat
  assumes "4096 dvd r" "0 < r" "x mod 4096 + i < 4096"
  shows "(x + i) mod r = x mod r + i"
proof -
  obtain k where k: "r = 4096 * k" using assms(1) by blast
  have m: "x mod r mod 4096 = x mod 4096" using assms(1) by (simp add: mod_mod_cancel)
  have q: "x mod r div 4096 < k" using assms(2) k by (simp add: less_mult_imp_div_less mult.commute)
  have "x mod r = x mod r div 4096 * 4096 + x mod 4096" using m by (metis div_mult_mod_eq)
  moreover have "x mod r div 4096 * 4096 + 4096 \<le> r" using q k by (metis Suc_leI mult.commute mult_Suc mult_le_mono2 add.commute)
  ultimately have "x mod r + i < r" using assms(3) by linarith
  then show ?thesis by (metis mod_add_left_eq mod_less)
qed

lemma div_add_in_page: "(x :: nat) mod 4096 + i < 4096 \<Longrightarrow> (x + i) div 4096 = x div 4096"
  by (simp add: div_add1_eq[of x i])

text \<open>A chunked loop makes progress: after a non-empty chunk that fits in what remains, the
  count is larger, still at most the length, and did not wrap.\<close>

lemma word_progress:
  fixes don len c :: "'a::len word"
  assumes "don < len"
    and c: "0 < unat c" "unat c \<le> unat (len - don)"
  shows "unat len - unat (don + c) < unat len - unat don" "unat (don + c) = unat don + unat c" "don + c \<le> len"
proof -
  have lt: "unat don < unat len" using assms by (simp add: word_less_nat_alt)
  have "unat (len - don) = unat len - unat don"
    using assms by (simp add: unat_sub word_le_nat_alt word_less_nat_alt)
  note sub = this
  show add: "unat (don + c) = unat don + unat c"
    using sub c lt unat_bound[of len] by (intro unat_add_small) linarith
  show "unat len - unat (don + c) < unat len - unat don" "don + c \<le> len"
    using add sub c lt by (auto simp only: word_le_nat_alt)
qed

end
