(* ===== verification/LittleEndian.thy ===== *)
theory LittleEndian
  imports Prelude
begin

text \<open>
  The little-endian readers and writers of \<^verbatim>\<open>src/common/le.h\<close>.  A pointer
  \<^verbatim>\<open>b + off\<close> into a buffer is the pair of the buffer and the offset; reading
  or writing outside the buffer gives \<^const>\<open>None\<close>.  The theory shows that the
  readers invert the writers, that a writer changes only its own bytes, and
  exactly when an access is in bounds.
\<close>

unbundle bit_operations_syntax

definition rd8 :: "bytes \<Rightarrow> nat \<Rightarrow> u8 option" where
  "rd8 b i = (if i < length b then Some (b ! i) else None)"

definition wr8 :: "bytes \<Rightarrow> nat \<Rightarrow> u8 \<Rightarrow> bytes option" where
  "wr8 b i v = (if i < length b then Some (b[i := v]) else None)"

definition lagfx_le16 :: "bytes \<Rightarrow> nat \<Rightarrow> u16 option" where
  "lagfx_le16 b off = do {
     b0 \<leftarrow> rd8 b off; b1 \<leftarrow> rd8 b (off + 1);
     Some (ucast b0 OR push_bit 8 (ucast b1)) }"

definition lagfx_le32 :: "bytes \<Rightarrow> nat \<Rightarrow> u32 option" where
  "lagfx_le32 b off = do {
     b0 \<leftarrow> rd8 b off; b1 \<leftarrow> rd8 b (off + 1); b2 \<leftarrow> rd8 b (off + 2); b3 \<leftarrow> rd8 b (off + 3);
     Some (ucast b0 OR push_bit 8 (ucast b1) OR push_bit 16 (ucast b2)
           OR push_bit 24 (ucast b3)) }"

definition lagfx_le64 :: "bytes \<Rightarrow> nat \<Rightarrow> u64 option" where
  "lagfx_le64 b off = do {
     b0 \<leftarrow> rd8 b off; b1 \<leftarrow> rd8 b (off + 1); b2 \<leftarrow> rd8 b (off + 2); b3 \<leftarrow> rd8 b (off + 3);
     b4 \<leftarrow> rd8 b (off + 4); b5 \<leftarrow> rd8 b (off + 5); b6 \<leftarrow> rd8 b (off + 6); b7 \<leftarrow> rd8 b (off + 7);
     Some (ucast b0 OR push_bit 8 (ucast b1) OR push_bit 16 (ucast b2)
           OR push_bit 24 (ucast b3) OR push_bit 32 (ucast b4) OR push_bit 40 (ucast b5)
           OR push_bit 48 (ucast b6) OR push_bit 56 (ucast b7)) }"

text \<open>\<^verbatim>\<open>lagfx_lef32\<close> reinterprets the bits; the model keeps a float as its bit
  pattern.\<close>

definition lagfx_lef32 :: "bytes \<Rightarrow> nat \<Rightarrow> u32 option" where
  "lagfx_lef32 b off = lagfx_le32 b off"

text \<open>The bytes a writer stores, lowest first.\<close>

definition le_bytes16 :: "u16 \<Rightarrow> bytes" where
  "le_bytes16 v = [ucast (v AND 0xff), ucast (drop_bit 8 v AND 0xff)]"

definition le_bytes32 :: "u32 \<Rightarrow> bytes" where
  "le_bytes32 v = [ucast (v AND 0xff), ucast (drop_bit 8 v AND 0xff),
                   ucast (drop_bit 16 v AND 0xff), ucast (drop_bit 24 v AND 0xff)]"

definition le_bytes64 :: "u64 \<Rightarrow> bytes" where
  "le_bytes64 v = [ucast (v AND 0xff), ucast (drop_bit 8 v AND 0xff),
                   ucast (drop_bit 16 v AND 0xff), ucast (drop_bit 24 v AND 0xff),
                   ucast (drop_bit 32 v AND 0xff), ucast (drop_bit 40 v AND 0xff),
                   ucast (drop_bit 48 v AND 0xff), ucast (drop_bit 56 v AND 0xff)]"

fun wr_list :: "bytes \<Rightarrow> nat \<Rightarrow> bytes \<Rightarrow> bytes option" where
  "wr_list b off [] = Some b"
| "wr_list b off (v # vs) = do { b' \<leftarrow> wr8 b off v; wr_list b' (off + 1) vs }"

definition lagfx_put_le16 :: "bytes \<Rightarrow> nat \<Rightarrow> u16 \<Rightarrow> bytes option" where
  "lagfx_put_le16 b off v = wr_list b off (le_bytes16 v)"

definition lagfx_put_le32 :: "bytes \<Rightarrow> nat \<Rightarrow> u32 \<Rightarrow> bytes option" where
  "lagfx_put_le32 b off v = wr_list b off (le_bytes32 v)"

definition lagfx_put_le64 :: "bytes \<Rightarrow> nat \<Rightarrow> u64 \<Rightarrow> bytes option" where
  "lagfx_put_le64 b off v = wr_list b off (le_bytes64 v)"

text \<open>\<^verbatim>\<open>memcpy(b + off, src, n)\<close> with a source read out of another buffer.\<close>

definition rd_list :: "bytes \<Rightarrow> nat \<Rightarrow> nat \<Rightarrow> bytes option" where
  "rd_list b off n = (if off + n \<le> length b then Some (take n (drop off b)) else None)"

subsection \<open>Bounds\<close>

lemma rd8_eq_None_iff [simp]: "rd8 b i = None \<longleftrightarrow> length b \<le> i"
  by (simp add: rd8_def)

lemma rd8_in [simp]: "i < length b \<Longrightarrow> rd8 b i = Some (b ! i)"
  by (simp add: rd8_def)

lemma rd8_out [simp]: "length b \<le> i \<Longrightarrow> rd8 b i = None"
  by simp

lemma bind_rd8_None_iff:
  "(rd8 b i \<bind> f = None) \<longleftrightarrow> length b \<le> i \<or> f (b ! i) = None"
  by (cases "i < length b") auto

lemma le16_None_iff: "lagfx_le16 b off = None \<longleftrightarrow> length b < off + 2"
  by (auto simp: lagfx_le16_def bind_rd8_None_iff)

lemma le32_None_iff: "lagfx_le32 b off = None \<longleftrightarrow> length b < off + 4"
  by (auto simp: lagfx_le32_def bind_rd8_None_iff)

lemma le64_None_iff: "lagfx_le64 b off = None \<longleftrightarrow> length b < off + 8"
  by (auto simp: lagfx_le64_def bind_rd8_None_iff)

text \<open>The value read when the access is in bounds; the handlers' proofs use it to
  step over a checked read.\<close>

definition le16_at :: "bytes \<Rightarrow> nat \<Rightarrow> u16" where "le16_at b off = the (lagfx_le16 b off)"
definition le32_at :: "bytes \<Rightarrow> nat \<Rightarrow> u32" where "le32_at b off = the (lagfx_le32 b off)"
definition le64_at :: "bytes \<Rightarrow> nat \<Rightarrow> u64" where "le64_at b off = the (lagfx_le64 b off)"

lemma le16_in [chk_simps]: "off + 2 \<le> length b \<Longrightarrow> lagfx_le16 b off = Some (le16_at b off)"
  using le16_None_iff[of b off] by (cases "lagfx_le16 b off") (auto simp: le16_at_def)

lemma le32_in [chk_simps]: "off + 4 \<le> length b \<Longrightarrow> lagfx_le32 b off = Some (le32_at b off)"
  using le32_None_iff[of b off] by (cases "lagfx_le32 b off") (auto simp: le32_at_def)

lemma le64_in [chk_simps]: "off + 8 \<le> length b \<Longrightarrow> lagfx_le64 b off = Some (le64_at b off)"
  using le64_None_iff[of b off] by (cases "lagfx_le64 b off") (auto simp: le64_at_def)

lemma lef32_in [chk_simps]: "off + 4 \<le> length b \<Longrightarrow> lagfx_lef32 b off = Some (le32_at b off)"
  by (simp add: lagfx_lef32_def le32_in)

lemma rd_list_in [chk_simps]: "off + n \<le> length b \<Longrightarrow> rd_list b off n = Some (take n (drop off b))"
  by (simp add: rd_list_def)

subsection \<open>The writers\<close>

lemma wr_list_eq:
  "wr_list b off vs =
     (if vs = [] \<or> off + length vs \<le> length b
      then Some (take off b @ vs @ drop (off + length vs) b) else None)"
proof (induction vs arbitrary: b off)
  case (Cons v vs)
  show ?case
    by (auto simp: wr8_def Cons.IH upd_conv_take_nth_drop add.commute)
qed simp

lemma le_bytes_length [simp]:
  "length (le_bytes16 v) = 2" "length (le_bytes32 w) = 4" "length (le_bytes64 x) = 8"
  by (simp_all add: le_bytes16_def le_bytes32_def le_bytes64_def)

lemma put_le32_eq:
  "lagfx_put_le32 b off v =
     (if off + 4 \<le> length b then Some (take off b @ le_bytes32 v @ drop (off + 4) b) else None)"
  by (auto simp: lagfx_put_le32_def wr_list_eq) (simp add: le_bytes32_def)

lemma put_le16_eq:
  "lagfx_put_le16 b off v =
     (if off + 2 \<le> length b then Some (take off b @ le_bytes16 v @ drop (off + 2) b) else None)"
  by (auto simp: lagfx_put_le16_def wr_list_eq) (simp add: le_bytes16_def)

lemma put_le64_eq:
  "lagfx_put_le64 b off v =
     (if off + 8 \<le> length b then Some (take off b @ le_bytes64 v @ drop (off + 8) b) else None)"
  by (auto simp: lagfx_put_le64_def wr_list_eq) (simp add: le_bytes64_def)

lemma put_le_length:
  "lagfx_put_le16 b off v16 = Some b' \<Longrightarrow> length b' = length b"
  "lagfx_put_le32 b off v32 = Some b' \<Longrightarrow> length b' = length b"
  "lagfx_put_le64 b off v64 = Some b' \<Longrightarrow> length b' = length b"
  by (auto simp: put_le16_eq put_le32_eq put_le64_eq split: if_splits)

subsection \<open>Round trips\<close>

lemma le16_split: "v = take_bit 8 v OR push_bit 8 (take_bit 8 (drop_bit 8 (v :: u16)))"
  by (simp add: take_bit_concat take_bit_word_eq_self)

lemma le32_split:
  "v = take_bit 8 v OR push_bit 8 (take_bit 8 (drop_bit 8 v))
     OR push_bit 16 (take_bit 8 (drop_bit 16 v)) OR push_bit 24 (take_bit 8 (drop_bit 24 (v :: u32)))"
  by (simp add: take_bit_concat take_bit_word_eq_self flip: or.assoc)

lemma le64_split:
  "v = take_bit 8 v OR push_bit 8 (take_bit 8 (drop_bit 8 v))
     OR push_bit 16 (take_bit 8 (drop_bit 16 v)) OR push_bit 24 (take_bit 8 (drop_bit 24 v))
     OR push_bit 32 (take_bit 8 (drop_bit 32 v)) OR push_bit 40 (take_bit 8 (drop_bit 40 v))
     OR push_bit 48 (take_bit 8 (drop_bit 48 v)) OR push_bit 56 (take_bit 8 (drop_bit 56 (v :: u64)))"
  by (simp add: take_bit_concat take_bit_word_eq_self flip: or.assoc)

lemma le16_bytes [simp]: "off = length p \<Longrightarrow> lagfx_le16 (p @ le_bytes16 v @ s) off = Some v"
  using le16_split[of v]
  by (simp add: lagfx_le16_def rd8_def le_bytes16_def nth_append and_ff ucast_ucast8)

lemma le32_bytes [simp]: "off = length p \<Longrightarrow> lagfx_le32 (p @ le_bytes32 v @ s) off = Some v"
  using le32_split[of v]
  by (simp add: lagfx_le32_def rd8_def le_bytes32_def nth_append and_ff ucast_ucast8)

lemma le64_bytes [simp]: "off = length p \<Longrightarrow> lagfx_le64 (p @ le_bytes64 v @ s) off = Some v"
  using le64_split[of v]
  by (simp add: lagfx_le64_def rd8_def le_bytes64_def nth_append and_ff ucast_ucast8)

text \<open>Conversely, storing back what was read leaves the buffer unchanged.\<close>

lemma bytes_le32:
  assumes "lagfx_le32 b off = Some v"
  shows "le_bytes32 v = take 4 (drop off b)"
proof -
  have len: "off + 4 \<le> length b" using assms le32_None_iff[of b off] by (cases "length b < off + 4") auto
  have v: "v = ucast (b ! off) OR push_bit 8 (ucast (b ! (off + 1))) OR push_bit 16 (ucast (b ! (off + 2)))
           OR push_bit 24 (ucast (b ! (off + 3)))"
    using assms len by (simp add: lagfx_le32_def)
  have "take 4 (drop off b) = [b ! off, b ! (off + 1), b ! (off + 2), b ! (off + 3)]"
    using len by (simp add: list_eq_iff_nth_eq numeral_eq_Suc less_Suc_eq)
  moreover have "le_bytes32 v = [b ! off, b ! (off + 1), b ! (off + 2), b ! (off + 3)]"
    unfolding v le_bytes32_def and_ff
    by (auto simp: bit_eq_iff bit_simps dest: bit_imp_le_length)
  ultimately show ?thesis by simp
qed

text \<open>Reading in a concatenation.\<close>

lemma rd8_append:
  "i < length xs \<Longrightarrow> rd8 (xs @ ys) i = rd8 xs i"
  "length xs \<le> i \<Longrightarrow> rd8 (xs @ ys) i = rd8 ys (i - length xs)"
  by (auto simp: rd8_def nth_append)

lemma le_append_left:
  "n + 2 \<le> length xs \<Longrightarrow> lagfx_le16 (xs @ ys) n = lagfx_le16 xs n"
  "n + 4 \<le> length xs \<Longrightarrow> lagfx_le32 (xs @ ys) n = lagfx_le32 xs n"
  "n + 8 \<le> length xs \<Longrightarrow> lagfx_le64 (xs @ ys) n = lagfx_le64 xs n"
  by (simp_all add: lagfx_le16_def lagfx_le32_def lagfx_le64_def rd8_append del: rd8_in rd8_out)

lemma le_append_right:
  "length xs \<le> n \<Longrightarrow> lagfx_le16 (xs @ ys) n = lagfx_le16 ys (n - length xs)"
  "length xs \<le> n \<Longrightarrow> lagfx_le32 (xs @ ys) n = lagfx_le32 ys (n - length xs)"
  "length xs \<le> n \<Longrightarrow> lagfx_le64 (xs @ ys) n = lagfx_le64 ys (n - length xs)"
  by (simp_all add: lagfx_le16_def lagfx_le32_def lagfx_le64_def rd8_append Suc_diff_le del: rd8_in rd8_out)

lemma le_bytes_read:
  "lagfx_le16 (le_bytes16 v16 @ ys) 0 = Some v16"
  "lagfx_le32 (le_bytes32 v32 @ ys) 0 = Some v32"
  "lagfx_le64 (le_bytes64 v64 @ ys) 0 = Some v64"
  "lagfx_le16 (le_bytes16 v16) 0 = Some v16"
  "lagfx_le32 (le_bytes32 v32) 0 = Some v32"
  "lagfx_le64 (le_bytes64 v64) 0 = Some v64"
  using le16_bytes[of 0 "[]"] le32_bytes[of 0 "[]"] le64_bytes[of 0 "[]"]
    le16_bytes[of 0 "[]" v16 "[]"] le32_bytes[of 0 "[]" v32 "[]"] le64_bytes[of 0 "[]" v64 "[]"]
  by simp_all

lemmas concat_read = le_append_left le_append_right le_bytes_read

subsection \<open>Buffers built field by field\<close>

definition patch :: "bytes \<Rightarrow> nat \<Rightarrow> bytes \<Rightarrow> bytes" where
  "patch b off vs = take off b @ vs @ drop (off + length vs) b"

lemma length_patch [simp]: "off + length vs \<le> length b \<Longrightarrow> length (patch b off vs) = length b"
  by (simp add: patch_def)

lemma wr_patch:
  "off + length vs \<le> length b \<Longrightarrow> wr_list b off vs = Some (patch b off vs)"
  "off + 2 \<le> length b \<Longrightarrow> lagfx_put_le16 b off v16 = Some (patch b off (le_bytes16 v16))"
  "off + 4 \<le> length b \<Longrightarrow> lagfx_put_le32 b off v32 = Some (patch b off (le_bytes32 v32))"
  "off + 8 \<le> length b \<Longrightarrow> lagfx_put_le64 b off v64 = Some (patch b off (le_bytes64 v64))"
  "off < length b \<Longrightarrow> wr8 b off v8 = Some (patch b off [v8])"
  by (auto simp: patch_def wr_list_eq put_le16_eq put_le32_eq put_le64_eq wr8_def upd_conv_take_nth_drop)

lemma rd8_patch:
  "off + length vs \<le> length b \<Longrightarrow>
   rd8 (patch b off vs) i = (if off \<le> i \<and> i < off + length vs then Some (vs ! (i - off)) else rd8 b i)"
  by (auto simp: patch_def rd8_def nth_append)

lemma rd8_patch_other:
  "off + length vs \<le> length b \<Longrightarrow> i < off \<or> off + length vs \<le> i \<Longrightarrow> rd8 (patch b off vs) i = rd8 b i"
  by (auto simp: rd8_patch)

lemma le_patch_other:
  assumes "off + length vs \<le> length b"
  shows "n + 2 \<le> off \<or> off + length vs \<le> n \<Longrightarrow> lagfx_le16 (patch b off vs) n = lagfx_le16 b n"
    and "n + 4 \<le> off \<or> off + length vs \<le> n \<Longrightarrow> lagfx_le32 (patch b off vs) n = lagfx_le32 b n"
    and "n + 8 \<le> off \<or> off + length vs \<le> n \<Longrightarrow> lagfx_le64 (patch b off vs) n = lagfx_le64 b n"
  using assms
  by (elim disjE; simp add: lagfx_le16_def lagfx_le32_def lagfx_le64_def rd8_patch_other del: rd8_in rd8_out)+

lemma le_patch_same:
  "off + 2 \<le> length b \<Longrightarrow> lagfx_le16 (patch b off (le_bytes16 v16)) off = Some v16"
  "off + 4 \<le> length b \<Longrightarrow> lagfx_le32 (patch b off (le_bytes32 v32)) off = Some v32"
  "off + 8 \<le> length b \<Longrightarrow> lagfx_le64 (patch b off (le_bytes64 v64)) off = Some v64"
  by (simp_all add: patch_def)

lemmas patch_simps = wr_patch le_patch_other le_patch_same

text \<open>A buffer filled by a sequence of stores, each at an offset: it keeps its length,
  and a field survives when the later stores do not overlap it.\<close>

fun blob_writes :: "bytes \<Rightarrow> (nat \<times> bytes) list \<Rightarrow> bytes option" where
  "blob_writes b [] = Some b"
| "blob_writes b ((off, vs) # ws) = do { b' \<leftarrow> wr_list b off vs; blob_writes b' ws }"

definition apart :: "nat \<Rightarrow> nat \<Rightarrow> nat \<times> bytes \<Rightarrow> bool" where
  "apart off n w \<longleftrightarrow> off + n \<le> fst w \<or> fst w + length (snd w) \<le> off"

definition inside :: "nat \<Rightarrow> nat \<times> bytes \<Rightarrow> bool" where
  "inside n w \<longleftrightarrow> fst w + length (snd w) \<le> n"

lemma blob_writes_total:
  "list_all (inside (length b)) ws \<Longrightarrow> \<exists>b'. blob_writes b ws = Some b' \<and> length b' = length b"
proof (induction ws arbitrary: b)
  case (Cons w ws)
  obtain off vs where w: "w = (off, vs)" by (cases w)
  have "off + length vs \<le> length b" using Cons.prems by (simp add: w inside_def)
  moreover have "\<exists>b'. blob_writes (patch b off vs) ws = Some b' \<and> length b' = length (patch b off vs)"
    using Cons.prems calculation by (intro Cons.IH) simp
  ultimately show ?case by (simp add: w wr_patch)
qed simp

lemma blob_writes_keep:
  assumes "blob_writes b ws = Some b'" "list_all (inside (length b)) ws"
  shows "list_all (apart off 2) ws \<Longrightarrow> lagfx_le16 b' off = lagfx_le16 b off"
    and "list_all (apart off 4) ws \<Longrightarrow> lagfx_le32 b' off = lagfx_le32 b off"
  using assms
proof (induction ws arbitrary: b)
  case (Cons w ws)
  obtain o1 vs where w: "w = (o1, vs)" by (cases w)
  { case 1
    then have i: "o1 + length vs \<le> length b" by (simp add: w inside_def)
    then show ?case using 1 Cons.IH(1)[of "patch b o1 vs"] by (simp add: w wr_patch apart_def le_patch_other) }
  { case 2
    then have i: "o1 + length vs \<le> length b" by (simp add: w inside_def)
    then show ?case using 2 Cons.IH(2)[of "patch b o1 vs"] by (simp add: w wr_patch apart_def le_patch_other) }
qed auto

lemma blob_writes_split:
  "blob_writes b (us @ ws) = Option.bind (blob_writes b us) (\<lambda>b'. blob_writes b' ws)"
  by (induction us arbitrary: b) (auto simp: Option.bind_assoc)

lemma blob_writes_field:
  assumes "blob_writes b ws = Some b'" "list_all (inside (length b)) ws" "k < length ws"
  shows "ws ! k = (off, le_bytes16 v16) \<Longrightarrow> list_all (apart off 2) (drop (Suc k) ws) \<Longrightarrow> lagfx_le16 b' off = Some v16"
    and "ws ! k = (off, le_bytes32 v32) \<Longrightarrow> list_all (apart off 4) (drop (Suc k) ws) \<Longrightarrow> lagfx_le32 b' off = Some v32"
proof -
  have split: "ws = take k ws @ ws ! k # drop (Suc k) ws" using assms(3) by (simp add: id_take_nth_drop)
  have in1: "list_all (inside (length b)) (take k ws)" "inside (length b) (ws ! k)"
      "list_all (inside (length b)) (drop (Suc k) ws)"
    using assms(2,3) by (auto simp: list_all_iff dest: in_set_takeD in_set_dropD)
  obtain c where c: "blob_writes b (take k ws) = Some c" "length c = length b"
    using blob_writes_total[OF in1(1)] by blast
  have w: "blob_writes b (take k ws @ ws ! k # drop (Suc k) ws) = Some b'"
    using assms(1) split by simp
  { assume e: "ws ! k = (off, le_bytes16 v16)" "list_all (apart off 2) (drop (Suc k) ws)"
    then have i: "off + 2 \<le> length c" using in1(2) c by (simp add: inside_def)
    then have "blob_writes (patch c off (le_bytes16 v16)) (drop (Suc k) ws) = Some b'"
      using w c e by (simp add: blob_writes_split wr_patch)
    then show "lagfx_le16 b' off = Some v16"
      using blob_writes_keep(1)[of _ "drop (Suc k) ws" b' off] e(2) in1(3) i c by (simp add: le_patch_same) }
  { assume e: "ws ! k = (off, le_bytes32 v32)" "list_all (apart off 4) (drop (Suc k) ws)"
    then have i: "off + 4 \<le> length c" using in1(2) c by (simp add: inside_def)
    then have "blob_writes (patch c off (le_bytes32 v32)) (drop (Suc k) ws) = Some b'"
      using w c e by (simp add: blob_writes_split wr_patch)
    then show "lagfx_le32 b' off = Some v32"
      using blob_writes_keep(2)[of _ "drop (Suc k) ws" b' off] e(2) in1(3) i c by (simp add: le_patch_same) }
qed

lemma put_get_le32:
  "(lagfx_put_le32 b off v = None \<longleftrightarrow> length b < off + 4) \<and>
   (\<forall>b'. lagfx_put_le32 b off v = Some b' \<longrightarrow> lagfx_le32 b' off = Some v \<and> length b' = length b \<and>
      (\<forall>i. i < off \<or> off + 4 \<le> i \<longrightarrow> rd8 b' i = rd8 b i)) \<and>
   (\<forall>w. lagfx_le32 b off = Some w \<longrightarrow> lagfx_put_le32 b off w = Some b)"
proof (cases "off + 4 \<le> length b")
  case True
  have "patch b off (le_bytes32 w) = b" if "lagfx_le32 b off = Some w" for w
  proof -
    have "patch b off (le_bytes32 w) = take off b @ (le_bytes32 w @ drop (off + 4) b)" by (simp add: patch_def)
    also have "le_bytes32 w @ drop (off + 4) b = drop off b"
      unfolding bytes_le32[OF that] using append_take_drop_id[of 4 "drop off b"] by (simp add: add.commute)
    finally show ?thesis by simp
  qed
  moreover have "rd8 (patch b off (le_bytes32 v)) i = rd8 b i" if "i < off \<or> off + 4 \<le> i" for i
    using rd8_patch_other[of off "le_bytes32 v" b i] True that by simp
  ultimately show ?thesis
    using True by (simp add: wr_patch le_patch_same del: rd8_in rd8_out)
next
  case False
  then have "lagfx_put_le32 b off x = None" for x by (simp add: put_le32_eq)
  moreover have "lagfx_le32 b off = None" using False by (simp add: le32_None_iff)
  ultimately show ?thesis using False by simp
qed

end
