(* ===== verification/Shell.thy ===== *)
theory Shell
  imports LittleEndian
begin

text \<open>
  The boundary to the code outside the library: the memory and interrupt
  callbacks \<^verbatim>\<open>lagfx_shell_callbacks_t\<close> and the per-display callbacks
  \<^verbatim>\<open>lagfx_display_callbacks_t\<close> of \<^verbatim>\<open>include/libapplegfx-vulkan.h\<close>, which the QEMU
  device supplies.  They are parameters of the model: a record of optional
  functions (\<^const>\<open>None\<close> is a NULL function pointer) over a state
  \<^typ>\<open>'g\<close> of the outside world that the model never inspects.

  A DMA read that succeeds fills the whole destination buffer, one that fails
  leaves it untouched.  What the library relies on beyond that, namely that
  guest memory remembers what was written, is the named predicate
  \<open>ram_law\<close>; \<open>ram_shell\<close> is a concrete shell that satisfies it.
\<close>

record 'g display_callbacks =
  cb_frame_ready :: "('g \<Rightarrow> 'g) option"
  cb_cursor_glyph :: "('g \<Rightarrow> u32 \<Rightarrow> u32 \<Rightarrow> u16 \<times> u16 \<Rightarrow> 'g) option"
  cb_cursor_moved :: "('g \<Rightarrow> 'g) option"
  cb_cursor_show :: "('g \<Rightarrow> bool \<Rightarrow> 'g) option"

record 'g shell =
  create_task :: "('g \<Rightarrow> u64 \<Rightarrow> u64 \<times> u64 \<times> 'g) option"
  destroy_task :: "('g \<Rightarrow> u64 \<Rightarrow> 'g) option"
  map_memory :: "('g \<Rightarrow> u64 \<Rightarrow> u64 \<Rightarrow> (u64 \<times> u64) list \<Rightarrow> bool \<Rightarrow> bool \<times> 'g) option"
  unmap_memory :: "('g \<Rightarrow> u64 \<Rightarrow> u64 \<Rightarrow> u64 \<Rightarrow> bool \<times> 'g) option"
  read_memory :: "('g \<Rightarrow> u64 \<Rightarrow> nat \<Rightarrow> (nat \<Rightarrow> u8) option) option"
  write_memory :: "('g \<Rightarrow> u64 \<Rightarrow> bytes \<Rightarrow> bool \<times> 'g) option"
  raise_interrupt :: "('g \<Rightarrow> u32 \<Rightarrow> 'g) option"
  display_cbs :: "nat \<Rightarrow> 'g display_callbacks"

text \<open>A DMA read into a fresh buffer of \<open>len\<close> bytes; \<^const>\<open>None\<close> when there is no
  callback or the callback reports failure.\<close>

definition dma_read :: "'g shell \<Rightarrow> 'g \<Rightarrow> u64 \<Rightarrow> nat \<Rightarrow> bytes option" where
  "dma_read sh g gpa len =
     (case read_memory sh of None \<Rightarrow> None
      | Some rd \<Rightarrow> (case rd g gpa len of None \<Rightarrow> None | Some f \<Rightarrow> Some (map f [0..<len])))"

definition dma_write :: "'g shell \<Rightarrow> 'g \<Rightarrow> u64 \<Rightarrow> bytes \<Rightarrow> bool \<times> 'g" where
  "dma_write sh g gpa bs = (case write_memory sh of None \<Rightarrow> (False, g) | Some wr \<Rightarrow> wr g gpa bs)"

lemma dma_read_length: "dma_read sh g gpa len = Some b \<Longrightarrow> length b = len"
  by (auto simp: dma_read_def split: option.splits)

text \<open>Guest memory as the shell's DMA callbacks document it: both callbacks exist
  and always succeed, a read observes the last write at every address, and an
  interrupt does not change memory.  \<open>ram g a\<close> is the byte at guest physical
  address \<open>a\<close>.\<close>

definition ram_law :: "'g shell \<Rightarrow> ('g \<Rightarrow> u64 \<Rightarrow> u8) \<Rightarrow> bool" where
  "ram_law sh ram \<longleftrightarrow>
     (\<forall>g gpa len. dma_read sh g gpa len = Some (map (\<lambda>i. ram g (gpa + of_nat i)) [0..<len])) \<and>
     write_memory sh \<noteq> None \<and>
     (\<forall>g gpa bs. length bs < 2 ^ 64 \<longrightarrow>
        fst (dma_write sh g gpa bs) \<and>
        (\<forall>a. ram (snd (dma_write sh g gpa bs)) a =
              (if unat (a - gpa) < length bs then bs ! unat (a - gpa) else ram g a))) \<and>
     (\<forall>irq g v. raise_interrupt sh = Some irq \<longrightarrow> ram (irq g v) = ram g)"

text \<open>A shell over a flat guest memory and a log of raised interrupt vectors.\<close>

type_synonym ram_state = "(u64 \<Rightarrow> u8) \<times> u32 list"

definition ram_shell :: "ram_state shell" where
  "ram_shell = \<lparr>
     create_task = Some (\<lambda>g len. (0x1000, 0x7f0000000000, g)),
     destroy_task = Some (\<lambda>g t. g),
     map_memory = Some (\<lambda>g t off rs ro. (True, g)),
     unmap_memory = Some (\<lambda>g t off len. (True, g)),
     read_memory = Some (\<lambda>g gpa len. Some (\<lambda>i. fst g (gpa + of_nat i))),
     write_memory = Some (\<lambda>g gpa bs. (True,
       (\<lambda>a. if unat (a - gpa) < length bs then bs ! unat (a - gpa) else fst g a, snd g))),
     raise_interrupt = Some (\<lambda>g v. (fst g, v # snd g)),
     display_cbs = (\<lambda>i. \<lparr>cb_frame_ready = None, cb_cursor_glyph = None,
                         cb_cursor_moved = None, cb_cursor_show = None\<rparr>) \<rparr>"

lemma ram_shell_law: "ram_law ram_shell fst"
  by (auto simp: ram_law_def ram_shell_def dma_read_def dma_write_def)

subsection \<open>Consequences of the memory law\<close>

lemma ram_law_read:
  "ram_law sh ram \<Longrightarrow> dma_read sh g gpa len = Some (map (\<lambda>i. ram g (gpa + of_nat i)) [0..<len])"
  by (simp add: ram_law_def)

lemma ram_law_write_ok: "ram_law sh ram \<Longrightarrow> length bs < 2 ^ 64 \<Longrightarrow> fst (dma_write sh g gpa bs)"
  by (simp add: ram_law_def)

lemma ram_law_write:
  "ram_law sh ram \<Longrightarrow> length bs < 2 ^ 64 \<Longrightarrow>
   ram (snd (dma_write sh g gpa bs)) a =
     (if unat (a - gpa) < length bs then bs ! unat (a - gpa) else ram g a)"
  by (simp add: ram_law_def)

lemma ram_law_irq:
  "ram_law sh ram \<Longrightarrow> raise_interrupt sh = Some irq \<Longrightarrow> ram (irq g v) = ram g"
  by (simp add: ram_law_def)

lemma ram_law_has_write: "ram_law sh ram \<Longrightarrow> \<exists>wr. write_memory sh = Some wr"
  by (auto simp: ram_law_def)

lemma ram_law_has_read: "ram_law sh ram \<Longrightarrow> \<exists>rd. read_memory sh = Some rd"
  by (cases "read_memory sh") (auto simp: ram_law_def dma_read_def)

text \<open>Reading back a buffer that was written at the same address.\<close>

lemma ram_law_read_back:
  assumes "ram_law sh ram" "length bs < 2 ^ 64"
  shows "dma_read sh (snd (dma_write sh g gpa bs)) gpa (length bs) = Some bs"
proof -
  have "ram (snd (dma_write sh g gpa bs)) (gpa + of_nat i) = bs ! i" if "i < length bs" for i
  proof -
    have "unat (of_nat i :: u64) = i" using that assms(2) by (simp add: unat_of_nat)
    then show ?thesis using that ram_law_write[OF assms, of g gpa "gpa + of_nat i"] by simp
  qed
  then have "map (\<lambda>i. ram (snd (dma_write sh g gpa bs)) (gpa + of_nat i)) [0..<length bs] = bs"
    by (intro nth_equalityI) simp_all
  then show ?thesis using ram_law_read[OF assms(1)] by metis
qed

end
