(* ===== verification/ProtoState.thy ===== *)
theory ProtoState
  imports Shell
begin

text \<open>
  The protocol state of \<^verbatim>\<open>src/protocol/state.h\<close>, the command header and status
  codes of \<^verbatim>\<open>src/protocol/opcodes.h\<close>, and the parts of
  \<^verbatim>\<open>struct lagfx_device\<close> and \<^verbatim>\<open>struct lagfx_display\<close> the command handlers touch.

  A fixed-size C array is a list whose length the well-formedness predicate
  \<open>wf_proto\<close> fixes.  A \<^verbatim>\<open>void *\<close> handle is a 64-bit word, NULL being 0.  A float is
  its bit pattern.  Left out are the fields that exist only in Vulkan builds,
  the scratch buffers (every use overwrites the bytes it reads) and the one-shot
  dump flags of the diagnostics.
\<close>

subsection \<open>Statuses and command headers\<close>

datatype handler_status =
  LAGFX_HANDLER_OK | LAGFX_HANDLER_ERR_SIZE | LAGFX_HANDLER_ERR_STATE
| LAGFX_HANDLER_ERR_INTERNAL | LAGFX_HANDLER_ERR_NOT_IMPLEMENTED

text \<open>\<^verbatim>\<open>lagfx_cmd_header_t\<close>.  \<open>payload = None\<close> is the NULL payload pointer; otherwise the
  list holds the bytes from the payload pointer to the end of the command.\<close>

record cmd_header =
  hdr_opcode :: u16
  hdr_arg_count_8b :: u16
  hdr_length :: u32
  hdr_stamp :: u32
  hdr_payload_size :: u16
  hdr_payload :: "bytes option"

text \<open>The guard \<^verbatim>\<open>!hdr->payload || hdr->payload_size < n\<close> that opens the handlers: the
  payload when it passes.\<close>

definition payload_at_least :: "cmd_header \<Rightarrow> nat \<Rightarrow> bytes option" where
  "payload_at_least hdr n =
     (case hdr_payload hdr of None \<Rightarrow> None
      | Some b \<Rightarrow> if unat (hdr_payload_size hdr) < n then None else Some b)"

text \<open>What the drain loops guarantee of the headers they build.\<close>

definition wf_hdr :: "cmd_header \<Rightarrow> bool" where
  "wf_hdr hdr \<longleftrightarrow> (\<forall>b. hdr_payload hdr = Some b \<longrightarrow> length b = unat (hdr_payload_size hdr))"

subsection \<open>Resource registry data\<close>

datatype resource_type =
  LAGFX_RESOURCE_TYPE_UNKNOWN | LAGFX_RESOURCE_TYPE_BUFFER | LAGFX_RESOURCE_TYPE_TEXTURE
| LAGFX_RESOURCE_TYPE_PIPELINE | LAGFX_RESOURCE_TYPE_SAMPLER | LAGFX_RESOURCE_TYPE_HEAP
| LAGFX_RESOURCE_TYPE_DEPTH_STENCIL_STATE

record resource_entry =
  re_ref :: u32
  re_type :: resource_type
  re_task_id :: u32
  re_host_handle :: u64
  re_image :: u64
  re_gpu_addr :: u64
  re_size :: u64
  re_realize_rich :: u16
  re_realize_seen :: u16
  re_backing_dirty :: u8

definition zero_resource :: resource_entry where
  "zero_resource = \<lparr>re_ref = 0, re_type = LAGFX_RESOURCE_TYPE_UNKNOWN, re_task_id = 0,
     re_host_handle = 0, re_image = 0, re_gpu_addr = 0, re_size = 0, re_realize_rich = 0,
     re_realize_seen = 0, re_backing_dirty = 0\<rparr>"

abbreviation (input) LAGFX_MAX_RESOURCES :: nat where "LAGFX_MAX_RESOURCES \<equiv> 256"

record resource_registry =
  entries :: "resource_entry list"
  rcount :: nat

subsection \<open>Task, FIFO and display tables\<close>

record render_pass_desc =
  rpd_valid :: bool
  rpd_color_format :: u32
  rpd_depth_format :: u32
  rpd_clear_color :: "u32 list"
  rpd_clear_depth :: u32
  rpd_render_area :: "u32 \<times> u32 \<times> u32 \<times> u32"
  rpd_view_count :: u32
  rpd_target_ref :: u32

record pending_draw =
  pd_valid :: bool
  pd_primitive_type :: u32
  pd_index_count :: u32
  pd_instance_count :: u32
  pd_base_vertex :: u32
  pd_first_instance :: u32
  pd_index_buffer_ref :: u32
  pd_index_buffer_offset :: u32
  pd_index_type :: u32
  pd_indexed :: bool
  pd_pixel_texcoords :: bool

abbreviation (input) LAGFX_MAX_BINDING_SLOTS :: nat where "LAGFX_MAX_BINDING_SLOTS \<equiv> 32"

record binding_slot =
  bs_ref :: u32
  bs_offset :: u64
  bs_valid :: bool

record bindings =
  vertex_buffers :: "binding_slot list"
  fragment_buffers :: "binding_slot list"
  vertex_textures :: "binding_slot list"
  fragment_textures :: "binding_slot list"

record task_entry =
  t_id :: u32
  t_root_page_pfn :: u64
  t_base_va :: u64
  t_length :: u32
  t_shell_task :: u64
  t_heap_pfn :: u32
  t_heap_size :: u32
  t_live :: bool
  t_render_pass_desc :: render_pass_desc
  t_scissor_w :: u32
  t_scissor_h :: u32
  t_sc :: "u32 \<times> u32 \<times> u32 \<times> u32"
  t_sc_have :: u8
  t_vp :: "u32 \<times> u32 \<times> u32 \<times> u32"
  t_vp_valid :: u8
  t_vp_current :: u8
  t_pending_draw :: pending_draw
  t_bindings :: bindings
  t_active_objects :: "u32 list"

abbreviation (input) LAGFX_MAX_TASKS :: nat where "LAGFX_MAX_TASKS \<equiv> 64"
abbreviation (input) LAGFX_MAX_FIFOS :: nat where "LAGFX_MAX_FIFOS \<equiv> 32"
abbreviation (input) LAGFX_MAX_DISPLAYS :: nat where "LAGFX_MAX_DISPLAYS \<equiv> 4"
abbreviation (input) LAGFX_MAX_CHANNELS :: nat where "LAGFX_MAX_CHANNELS \<equiv> 16"

definition zero_render_pass_desc :: render_pass_desc where
  "zero_render_pass_desc = \<lparr>rpd_valid = False, rpd_color_format = 0, rpd_depth_format = 0,
     rpd_clear_color = [0, 0, 0, 0], rpd_clear_depth = 0, rpd_render_area = (0, 0, 0, 0),
     rpd_view_count = 0, rpd_target_ref = 0\<rparr>"

definition zero_pending_draw :: pending_draw where
  "zero_pending_draw = \<lparr>pd_valid = False, pd_primitive_type = 0, pd_index_count = 0,
     pd_instance_count = 0, pd_base_vertex = 0, pd_first_instance = 0, pd_index_buffer_ref = 0,
     pd_index_buffer_offset = 0, pd_index_type = 0, pd_indexed = False, pd_pixel_texcoords = False\<rparr>"

definition zero_binding_slot :: binding_slot where
  "zero_binding_slot = \<lparr>bs_ref = 0, bs_offset = 0, bs_valid = False\<rparr>"

definition zero_bindings :: bindings where
  "zero_bindings = (let z = replicate LAGFX_MAX_BINDING_SLOTS zero_binding_slot in
     \<lparr>vertex_buffers = z, fragment_buffers = z, vertex_textures = z, fragment_textures = z\<rparr>)"

definition zero_task :: task_entry where
  "zero_task = \<lparr>t_id = 0, t_root_page_pfn = 0, t_base_va = 0, t_length = 0, t_shell_task = 0,
     t_heap_pfn = 0, t_heap_size = 0, t_live = False, t_render_pass_desc = zero_render_pass_desc,
     t_scissor_w = 0, t_scissor_h = 0, t_sc = (0, 0, 0, 0), t_sc_have = 0, t_vp = (0, 0, 0, 0),
     t_vp_valid = 0, t_vp_current = 0, t_pending_draw = zero_pending_draw,
     t_bindings = zero_bindings, t_active_objects = []\<rparr>"

record fifo_entry =
  f_id :: u32
  f_ring_base_gpa :: u64
  f_ring_size :: u32
  f_entry_count :: u32
  f_live :: bool

definition zero_fifo :: fifo_entry where
  "zero_fifo = \<lparr>f_id = 0, f_ring_base_gpa = 0, f_ring_size = 0, f_entry_count = 0, f_live = False\<rparr>"

record display_child_ring =
  dcr_ring_base_gpa :: u64
  dcr_ring_size :: u32
  dcr_entry_count :: u32
  dcr_live :: bool

definition zero_child_ring :: display_child_ring where
  "zero_child_ring = \<lparr>dcr_ring_base_gpa = 0, dcr_ring_size = 0, dcr_entry_count = 0, dcr_live = False\<rparr>"

record backing_update =
  bu_ref :: u32
  bu_addr :: u64
  bu_valid :: u8

text \<open>The diagnostic counters of \<^verbatim>\<open>p->diag\<close> that commands advance.\<close>

record diag =
  unknown_blit_ops :: u32
  unknown_render_ops :: u32
  submit_probe_count :: u32

record protocol =
  magic :: u32
  reg :: "u32 list"
  ring_base_pfn :: u64
  ring_base_gpa :: u64
  ring_size :: u32
  ring_start_offset :: u32
  ring_shared_page_pfn :: u64
  page_size :: u32
  read_ptr :: u32
  write_ptr :: u32
  current_chan_id :: u8
  ring_armed :: bool
  pending_stamps_bitmask :: u32
  last_completed_stamp :: u32
  pending_displays_bitmask :: u32
  tasks :: "task_entry list"
  fifos :: "fifo_entry list"
  display_child_rings :: "display_child_ring list"
  resources :: resource_registry
  backing_updates :: "backing_update list"
  big_maps :: "(u64 \<times> u64) list"
  p_diag :: diag
  total_cmds_seen :: u64
  total_cmds_completed :: u64
  unknown_opcode_count :: u64

subsection \<open>Device and displays\<close>

record cursor_show_state =
  cs_valid :: bool
  cs_display_id :: u32
  cs_x :: u16
  cs_y :: u16
  cs_visible :: u32
  cs_hot_x :: u16
  cs_hot_y :: u16

record cursor_glyph_state =
  cg_valid :: bool
  cg_display_id :: u32
  cg_glyph_va :: u64
  cg_width :: u32
  cg_height :: u32
  cg_bytes_per_row :: u32
  cg_hot_x :: u32
  cg_hot_y :: u32
  cg_captured_len :: nat

record display =
  d_magic :: u32
  d_rt_ready :: bool
  d_rt_width :: u32
  d_rt_height :: u32
  d_new_frame_ready :: bool
  d_scanout_gpa :: u64
  d_scanout_length :: u64
  d_scanout_width :: u32
  d_scanout_height :: u32
  d_scanout_valid :: bool

record device =
  dev_magic :: u32
  displays :: "display option list"
  display_ss_gpa :: "u64 list"
  display_ss_installed :: u32
  display_ss_enabled :: u32
  cursor_show :: cursor_show_state
  cursor_glyph :: cursor_glyph_state

text \<open>The whole system: the protocol state, the device it points back to
  (\<^verbatim>\<open>p->dev\<close>, absent when NULL) and the state of the world outside.\<close>

record 'g sys =
  proto :: protocol
  dev :: "device option"
  ext :: 'g

type_synonym 'g handler_result = "(handler_status \<times> 'g sys) option"
type_synonym 'g handler = "'g shell \<Rightarrow> cmd_header \<Rightarrow> 'g sys \<Rightarrow> 'g handler_result"

subsection \<open>Lifecycle and table lookups\<close>

definition LAGFX_PROTOCOL_MAGIC :: u32 where "LAGFX_PROTOCOL_MAGIC = 0x4C414758"

definition lagfx_protocol_is_valid :: "protocol \<Rightarrow> bool" where
  "lagfx_protocol_is_valid p \<longleftrightarrow> magic p = LAGFX_PROTOCOL_MAGIC"

definition lagfx_protocol_last_completed_stamp :: "protocol \<Rightarrow> u32" where
  "lagfx_protocol_last_completed_stamp p =
     (if lagfx_protocol_is_valid p then last_completed_stamp p else 0)"

definition zero_registry :: resource_registry where
  "zero_registry = \<lparr>entries = replicate LAGFX_MAX_RESOURCES zero_resource, rcount = 0\<rparr>"

definition lagfx_protocol_new :: protocol where
  "lagfx_protocol_new = \<lparr>magic = LAGFX_PROTOCOL_MAGIC, reg = (replicate 16 0)[0 := 3],
     ring_base_pfn = 0, ring_base_gpa = 0, ring_size = 0, ring_start_offset = 0,
     ring_shared_page_pfn = 0, page_size = 0, read_ptr = 0, write_ptr = 0, current_chan_id = 0,
     ring_armed = False, pending_stamps_bitmask = 0, last_completed_stamp = 0,
     pending_displays_bitmask = 0, tasks = replicate LAGFX_MAX_TASKS zero_task,
     fifos = replicate LAGFX_MAX_FIFOS zero_fifo,
     display_child_rings = replicate 16 zero_child_ring, resources = zero_registry,
     backing_updates = [], big_maps = [],
     p_diag = \<lparr>unknown_blit_ops = 0, unknown_render_ops = 0, submit_probe_count = 0\<rparr>,
     total_cmds_seen = 0, total_cmds_completed = 0, unknown_opcode_count = 0\<rparr>"

definition lagfx_protocol_reset :: "protocol \<Rightarrow> protocol" where
  "lagfx_protocol_reset p =
     (if \<not> lagfx_protocol_is_valid p then p
      else p\<lparr>tasks := replicate LAGFX_MAX_TASKS zero_task,
             fifos := replicate LAGFX_MAX_FIFOS zero_fifo,
             display_child_rings := replicate 16 zero_child_ring,
             total_cmds_seen := 0, total_cmds_completed := 0, unknown_opcode_count := 0,
             write_ptr := 0, read_ptr := 0,
             pending_stamps_bitmask := 0, pending_displays_bitmask := 0\<rparr>)"

text \<open>A table lookup returns the slot's index, the model of the pointer into the
  table.\<close>

definition lagfx_protocol_find_task :: "protocol \<Rightarrow> u32 \<Rightarrow> nat option" where
  "lagfx_protocol_find_task p task_id =
     (if \<not> lagfx_protocol_is_valid p then None
      else find_index (\<lambda>t. t_live t \<and> t_id t = task_id) (tasks p))"

text \<open>Allocation zeroes the slot it returns; the caller makes it live.\<close>

definition lagfx_protocol_alloc_task_slot :: "protocol \<Rightarrow> (nat \<times> protocol) option" where
  "lagfx_protocol_alloc_task_slot p =
     (if \<not> lagfx_protocol_is_valid p then None
      else case find_index (\<lambda>t. \<not> t_live t) (tasks p) of
             None \<Rightarrow> None
           | Some i \<Rightarrow> Some (i, p\<lparr>tasks := (tasks p)[i := zero_task]\<rparr>))"

definition lagfx_protocol_find_fifo :: "protocol \<Rightarrow> u32 \<Rightarrow> nat option" where
  "lagfx_protocol_find_fifo p fifo_id =
     (if \<not> lagfx_protocol_is_valid p then None
      else find_index (\<lambda>f. f_live f \<and> f_id f = fifo_id) (fifos p))"

definition lagfx_protocol_alloc_fifo_slot :: "protocol \<Rightarrow> (nat \<times> protocol) option" where
  "lagfx_protocol_alloc_fifo_slot p =
     (if \<not> lagfx_protocol_is_valid p then None
      else case find_index (\<lambda>f. \<not> f_live f) (fifos p) of
             None \<Rightarrow> None
           | Some i \<Rightarrow> Some (i, p\<lparr>fifos := (fifos p)[i := zero_fifo]\<rparr>))"

subsection \<open>Guest memory through the device\<close>

text \<open>\<^verbatim>\<open>dev && dev->desc.shell.read_memory && dev->desc.shell.read_memory(...)\<close> and its
  write counterpart.\<close>

definition has_read :: "'g shell \<Rightarrow> 'g sys \<Rightarrow> bool" where
  "has_read sh s \<longleftrightarrow> dev s \<noteq> None \<and> read_memory sh \<noteq> None"

definition has_write :: "'g shell \<Rightarrow> 'g sys \<Rightarrow> bool" where
  "has_write sh s \<longleftrightarrow> dev s \<noteq> None \<and> write_memory sh \<noteq> None"

definition guest_read :: "'g shell \<Rightarrow> 'g sys \<Rightarrow> u64 \<Rightarrow> nat \<Rightarrow> bytes option" where
  "guest_read sh s gpa len = (if dev s = None then None else dma_read sh (ext s) gpa len)"

definition guest_write :: "'g shell \<Rightarrow> 'g sys \<Rightarrow> u64 \<Rightarrow> bytes \<Rightarrow> bool \<times> 'g sys" where
  "guest_write sh s gpa bs =
     (if dev s = None then (False, s)
      else let (ok, g) = dma_write sh (ext s) gpa bs in (ok, s\<lparr>ext := g\<rparr>))"

lemma guest_read_length: "guest_read sh s gpa len = Some b \<Longrightarrow> length b = len"
  by (auto simp: guest_read_def dma_read_length split: if_splits)

lemma guest_write_keeps [simp]:
  "proto (snd (guest_write sh s gpa bs)) = proto s"
  "dev (snd (guest_write sh s gpa bs)) = dev s"
  by (simp_all add: guest_write_def split: prod.splits)

lemma wf_hdr_payload:
  "wf_hdr hdr \<Longrightarrow> payload_at_least hdr n = Some b \<Longrightarrow>
   n \<le> length b \<and> length b = unat (hdr_payload_size hdr)"
  by (auto simp: wf_hdr_def payload_at_least_def split: option.splits if_splits)

text \<open>The ring geometry and the ring pointers: the fields no command handler may
  change, and on which the drain loops rely.\<close>

definition geometry :: "protocol \<Rightarrow>
  u32 \<times> u32 list \<times> u64 \<times> u64 \<times> u32 \<times> u32 \<times> u64 \<times> u32 \<times> u32 \<times> u32 \<times> u8 \<times> bool" where
  "geometry p = (magic p, reg p, ring_base_pfn p, ring_base_gpa p, ring_size p, ring_start_offset p,
     ring_shared_page_pfn p, page_size p, read_ptr p, write_ptr p, current_chan_id p, ring_armed p)"

lemma geometry_eqD:
  "geometry p = geometry q \<Longrightarrow> magic p = magic q \<and> reg p = reg q \<and> ring_base_pfn p = ring_base_pfn q \<and>
     ring_base_gpa p = ring_base_gpa q \<and> ring_size p = ring_size q \<and>
     ring_start_offset p = ring_start_offset q \<and> ring_shared_page_pfn p = ring_shared_page_pfn q \<and>
     page_size p = page_size q \<and> read_ptr p = read_ptr q \<and> write_ptr p = write_ptr q \<and>
     current_chan_id p = current_chan_id q \<and> ring_armed p = ring_armed q"
  by (simp add: geometry_def)

lemma valid_geometry: "geometry p = geometry q \<Longrightarrow> lagfx_protocol_is_valid p = lagfx_protocol_is_valid q"
  by (simp add: geometry_def lagfx_protocol_is_valid_def)

lemma geometry_upd [geom_simps]:
  "geometry (p\<lparr>tasks := a\<rparr>) = geometry p"
  "geometry (p\<lparr>fifos := b\<rparr>) = geometry p"
  "geometry (p\<lparr>resources := c\<rparr>) = geometry p"
  "geometry (p\<lparr>backing_updates := d\<rparr>) = geometry p"
  "geometry (p\<lparr>big_maps := e\<rparr>) = geometry p"
  "geometry (p\<lparr>p_diag := f\<rparr>) = geometry p"
  "geometry (p\<lparr>pending_stamps_bitmask := h\<rparr>) = geometry p"
  "geometry (p\<lparr>pending_displays_bitmask := i\<rparr>) = geometry p"
  "geometry (p\<lparr>last_completed_stamp := h\<rparr>) = geometry p"
  "geometry (p\<lparr>total_cmds_seen := j\<rparr>) = geometry p"
  "geometry (p\<lparr>total_cmds_completed := j\<rparr>) = geometry p"
  "geometry (p\<lparr>unknown_opcode_count := j\<rparr>) = geometry p"
  "geometry (p\<lparr>display_child_rings := k\<rparr>) = geometry p"
  by (simp_all add: geometry_def)

subsection \<open>Well-formed states\<close>

definition wf_bindings :: "bindings \<Rightarrow> bool" where
  "wf_bindings b \<longleftrightarrow> length (vertex_buffers b) = LAGFX_MAX_BINDING_SLOTS \<and>
     length (fragment_buffers b) = LAGFX_MAX_BINDING_SLOTS \<and>
     length (vertex_textures b) = LAGFX_MAX_BINDING_SLOTS \<and>
     length (fragment_textures b) = LAGFX_MAX_BINDING_SLOTS"

definition wf_task :: "task_entry \<Rightarrow> bool" where
  "wf_task t \<longleftrightarrow> wf_bindings (t_bindings t) \<and> length (t_active_objects t) \<le> 64 \<and>
     distinct (t_active_objects t) \<and> length (rpd_clear_color (t_render_pass_desc t)) = 4"

definition wf_tables :: "protocol \<Rightarrow> bool" where
  "wf_tables p \<longleftrightarrow> length (reg p) = 16 \<and>
     length (tasks p) = LAGFX_MAX_TASKS \<and> uniq_by t_live t_id (tasks p) \<and> (\<forall>t\<in>set (tasks p). wf_task t) \<and>
     length (fifos p) = LAGFX_MAX_FIFOS \<and> uniq_by f_live f_id (fifos p) \<and>
     length (display_child_rings p) = 16 \<and>
     length (backing_updates p) \<le> 64 \<and> length (big_maps p) \<le> 16"

definition wf_device :: "device \<Rightarrow> bool" where
  "wf_device d \<longleftrightarrow> length (displays d) = LAGFX_MAX_DISPLAYS \<and> length (display_ss_gpa d) = 16"

lemma wf_zero_task [simp]: "wf_task zero_task"
  by (simp add: wf_task_def wf_bindings_def zero_task_def zero_bindings_def Let_def
      zero_render_pass_desc_def)

lemma zero_dead [simp]: "\<not> t_live zero_task" "\<not> f_live zero_fifo"
  by (simp_all add: zero_task_def zero_fifo_def)

lemma find_task_SomeD:
  assumes "lagfx_protocol_find_task p task_id = Some i"
  shows "lagfx_protocol_is_valid p" "i < length (tasks p)" "t_live (tasks p ! i)" "t_id (tasks p ! i) = task_id"
  using assms by (auto simp: lagfx_protocol_find_task_def split: if_splits dest: find_index_SomeD)

lemma find_task_uniq:
  "lagfx_protocol_is_valid p \<Longrightarrow> uniq_by t_live t_id (tasks p) \<Longrightarrow> i < length (tasks p) \<Longrightarrow>
   t_live (tasks p ! i) \<Longrightarrow> t_id (tasks p ! i) = k \<Longrightarrow> lagfx_protocol_find_task p k = Some i"
  using uniq_by_find[of t_live t_id "tasks p" i] by (simp add: lagfx_protocol_find_task_def)

lemma find_fifo_SomeD:
  assumes "lagfx_protocol_find_fifo p k = Some i"
  shows "lagfx_protocol_is_valid p" "i < length (fifos p)" "f_live (fifos p ! i)" "f_id (fifos p ! i) = k"
  using assms by (auto simp: lagfx_protocol_find_fifo_def split: if_splits dest: find_index_SomeD)

lemma alloc_task_SomeD:
  assumes "lagfx_protocol_alloc_task_slot p = Some (i, p')"
  shows "lagfx_protocol_is_valid p" "i < length (tasks p)" "\<not> t_live (tasks p ! i)"
    "p' = p\<lparr>tasks := (tasks p)[i := zero_task]\<rparr>"
  using assms by (auto simp: lagfx_protocol_alloc_task_slot_def split: if_splits option.splits
      dest: find_index_SomeD)

lemma alloc_fifo_SomeD:
  assumes "lagfx_protocol_alloc_fifo_slot p = Some (i, p')"
  shows "lagfx_protocol_is_valid p" "i < length (fifos p)" "\<not> f_live (fifos p ! i)"
    "p' = p\<lparr>fifos := (fifos p)[i := zero_fifo]\<rparr>"
  using assms by (auto simp: lagfx_protocol_alloc_fifo_slot_def split: if_splits option.splits
      dest: find_index_SomeD)

text \<open>Look a task up, or take a fresh slot for it: the opening of the handlers that
  define tasks.\<close>

definition find_or_alloc_task :: "protocol \<Rightarrow> u32 \<Rightarrow> (nat \<times> protocol) option" where
  "find_or_alloc_task p task_id =
     (case lagfx_protocol_find_task p task_id of
        Some i \<Rightarrow> Some (i, p) | None \<Rightarrow> lagfx_protocol_alloc_task_slot p)"

definition upd_task :: "nat \<Rightarrow> (task_entry \<Rightarrow> task_entry) \<Rightarrow> protocol \<Rightarrow> protocol" where
  "upd_task i f p = p\<lparr>tasks := (tasks p)[i := f (tasks p ! i)]\<rparr>"

lemma upd_task_keeps [simp]:
  "geometry (upd_task i f p) = geometry p" "resources (upd_task i f p) = resources p"
  "fifos (upd_task i f p) = fifos p" "total_cmds_seen (upd_task i f p) = total_cmds_seen p"
  "lagfx_protocol_is_valid (upd_task i f p) = lagfx_protocol_is_valid p"
  by (simp_all add: upd_task_def geometry_def lagfx_protocol_is_valid_def)

text \<open>An update that keeps a slot's identity keeps the tables well formed; so does one
  that fills the slot \<^const>\<open>find_or_alloc_task\<close> returned.\<close>

lemma wf_tables_upd_task:
  assumes "wf_tables p" "i < length (tasks p)" "wf_task (f (tasks p ! i))"
    and "t_live (f (tasks p ! i)) = t_live (tasks p ! i)" "t_id (f (tasks p ! i)) = t_id (tasks p ! i)"
  shows "wf_tables (upd_task i f p)"
proof (cases "t_live (tasks p ! i)")
  case True
  then show ?thesis
    using assms by (auto simp: wf_tables_def upd_task_def uniq_by_update_same dest: set_update_subset_insert[THEN subsetD])
next
  case False
  then show ?thesis
    using assms by (auto simp: wf_tables_def upd_task_def uniq_by_update_dead dest: set_update_subset_insert[THEN subsetD])
qed

lemma find_or_alloc_bound:
  assumes "find_or_alloc_task p k = Some (i, p')"
  shows "i < length (tasks p)" "length (tasks p') = length (tasks p)" "geometry p' = geometry p"
    "resources p' = resources p" "fifos p' = fifos p" "total_cmds_seen p' = total_cmds_seen p"
  using assms
  by (auto simp: find_or_alloc_task_def geom_simps split: option.splits
      dest: alloc_task_SomeD(2) alloc_task_SomeD(4) find_task_SomeD(2))

lemma wf_tables_define_task:
  assumes "wf_tables p" "find_or_alloc_task p k = Some (i, p')"
    and "\<And>t. wf_task t \<Longrightarrow> wf_task (f t)" "\<And>t. t_id (f t) = k"
  shows "wf_tables (upd_task i f p')"
proof (cases "lagfx_protocol_find_task p k")
  case (Some j)
  then have "j = i" "p' = p" using assms(2) by (auto simp: find_or_alloc_task_def)
  then show ?thesis
    using assms find_task_SomeD[OF Some]
    by (auto simp: wf_tables_def upd_task_def uniq_by_update_same dest!: set_update_subset_insert[THEN subsetD])
next
  case None
  then have a: "lagfx_protocol_alloc_task_slot p = Some (i, p')"
    using assms(2) by (simp add: find_or_alloc_task_def)
  note a = alloc_task_SomeD[OF a]
  have "uniq_by t_live t_id ((tasks p)[i := f zero_task])"
    using assms(1,4) None a(1)
    by (intro uniq_by_update_fresh) (auto simp: wf_tables_def lagfx_protocol_find_task_def)
  then show ?thesis
    using assms(1,3) a
    by (auto simp: wf_tables_def upd_task_def dest!: set_update_subset_insert[THEN subsetD])
qed

end
