(* ===== verification/Registry.thy ===== *)
theory Registry
  imports ProtoState "HOL-Library.Multiset"
begin

text \<open>
  The resource reference registry of \<^verbatim>\<open>src/protocol/resource_registry.c\<close>: a table of
  256 entries with a fill count, keyed by the pair of resource reference and
  task.  The operations work on the table the way the C code does (update in
  place or append, swap with the last entry on removal, compaction of a task's
  entries).  The locale \<open>resource_map\<close> states what the handlers rely on, a
  bounded map from keys to entries; the interpretation at the end shows that the
  table operations provide it.
\<close>

subsection \<open>The table operations\<close>

definition res_match :: "u32 \<Rightarrow> u32 \<Rightarrow> resource_entry \<Rightarrow> bool" where
  "res_match ref task_id e \<longleftrightarrow> re_ref e = ref \<and> re_task_id e = task_id"

definition lagfx_resource_lookup :: "resource_registry \<Rightarrow> u32 \<Rightarrow> u32 \<Rightarrow> nat option" where
  "lagfx_resource_lookup r ref task_id =
     find_index (res_match ref task_id) (take (rcount r) (entries r))"

definition lagfx_resource_lookup_texture :: "resource_registry \<Rightarrow> u32 \<Rightarrow> nat option" where
  "lagfx_resource_lookup_texture r ref =
     find_index (\<lambda>e. re_ref e = ref \<and> re_type e = LAGFX_RESOURCE_TYPE_TEXTURE)
       (take (rcount r) (entries r))"

definition lagfx_resource_register ::
  "resource_registry \<Rightarrow> u32 \<Rightarrow> resource_type \<Rightarrow> u32 \<Rightarrow> u64 \<Rightarrow> u64 \<Rightarrow> resource_registry" where
  "lagfx_resource_register r ref ty task_id gpu_addr sz =
     (case lagfx_resource_lookup r ref task_id of
        Some i \<Rightarrow> r\<lparr>entries := (entries r)[i :=
                    (entries r ! i)\<lparr>re_type := ty, re_gpu_addr := gpu_addr, re_size := sz\<rparr>]\<rparr>
      | None \<Rightarrow>
          if rcount r \<ge> LAGFX_MAX_RESOURCES then r
          else r\<lparr>entries := (entries r)[rcount r :=
                    (entries r ! rcount r)\<lparr>re_ref := ref, re_type := ty, re_task_id := task_id,
                       re_host_handle := 0, re_image := 0, re_gpu_addr := gpu_addr, re_size := sz\<rparr>],
                 rcount := rcount r + 1\<rparr>)"

definition lagfx_resource_unregister :: "resource_registry \<Rightarrow> u32 \<Rightarrow> u32 \<Rightarrow> resource_registry" where
  "lagfx_resource_unregister r ref task_id =
     (case lagfx_resource_lookup r ref task_id of
        None \<Rightarrow> r
      | Some i \<Rightarrow>
          let es = (if i + 1 < rcount r then (entries r)[i := entries r ! (rcount r - 1)] else entries r)
          in r\<lparr>entries := es[rcount r - 1 := zero_resource], rcount := rcount r - 1\<rparr>)"

text \<open>The compaction loop: entries of other tasks move down to the write index.\<close>

function clear_loop :: "u32 \<Rightarrow> nat \<Rightarrow> nat \<Rightarrow> nat \<Rightarrow> resource_entry list \<Rightarrow> nat \<times> resource_entry list" where
  "clear_loop task_id n read_idx write_idx es =
     (if read_idx < n then
        if re_task_id (es ! read_idx) \<noteq> task_id
        then clear_loop task_id n (read_idx + 1) (write_idx + 1)
               (if write_idx \<noteq> read_idx then es[write_idx := es ! read_idx] else es)
        else clear_loop task_id n (read_idx + 1) write_idx es
      else (write_idx, es))"
  by pat_completeness auto
termination by (relation "measure (\<lambda>(_, n, read_idx, _, _). n - read_idx)") auto

declare clear_loop.simps [simp del]

definition lagfx_resource_clear_task :: "resource_registry \<Rightarrow> u32 \<Rightarrow> resource_registry" where
  "lagfx_resource_clear_task r task_id =
     (let (write_idx, es) = clear_loop task_id (rcount r) 0 0 (entries r);
          removed = rcount r - write_idx
      in r\<lparr>entries := take write_idx es @ replicate removed zero_resource @ drop (write_idx + removed) es,
           rcount := write_idx\<rparr>)"

subsection \<open>The live entries and the invariant\<close>

definition res_key :: "resource_entry \<Rightarrow> u32 \<times> u32" where
  "res_key e = (re_ref e, re_task_id e)"

definition live :: "resource_registry \<Rightarrow> resource_entry list" where
  "live r = take (rcount r) (entries r)"

text \<open>The table keeps its size, keys occur once, and the unused slots are zero, so
  that a slot handed out again carries no stale content-tracking fields.\<close>

definition wf_registry :: "resource_registry \<Rightarrow> bool" where
  "wf_registry r \<longleftrightarrow> length (entries r) = LAGFX_MAX_RESOURCES \<and> rcount r \<le> LAGFX_MAX_RESOURCES \<and>
     distinct (map res_key (live r)) \<and>
     drop (rcount r) (entries r) = replicate (LAGFX_MAX_RESOURCES - rcount r) zero_resource"

definition reg_get :: "resource_registry \<Rightarrow> u32 \<times> u32 \<Rightarrow> resource_entry option" where
  "reg_get r k = map_option (\<lambda>i. entries r ! i) (lagfx_resource_lookup r (fst k) (snd k))"

definition reg_full :: "resource_registry \<Rightarrow> bool" where
  "reg_full r \<longleftrightarrow> rcount r = LAGFX_MAX_RESOURCES"

text \<open>The entry a registration leaves for its key.\<close>

definition reg_entry :: "u32 \<times> u32 \<Rightarrow> resource_type \<times> u64 \<times> u64 \<Rightarrow> resource_entry option \<Rightarrow> resource_entry"
where
  "reg_entry k v old = (case old of
     Some e \<Rightarrow> e\<lparr>re_type := fst v, re_gpu_addr := fst (snd v), re_size := snd (snd v)\<rparr>
   | None \<Rightarrow> zero_resource\<lparr>re_ref := fst k, re_type := fst v, re_task_id := snd k,
               re_gpu_addr := fst (snd v), re_size := snd (snd v)\<rparr>)"

lemma res_match_key: "res_match ref t = (\<lambda>e. res_key e = (ref, t))"
  by (auto simp: res_match_def res_key_def)

lemma length_live: "wf_registry r \<Longrightarrow> length (live r) = rcount r"
  by (simp add: wf_registry_def live_def)

lemma nth_live: "i < rcount r \<Longrightarrow> live r ! i = entries r ! i"
  by (simp add: live_def)

lemma lookup_live: "lagfx_resource_lookup r ref t = find_index (\<lambda>e. res_key e = (ref, t)) (live r)"
  by (simp add: lagfx_resource_lookup_def live_def res_match_key)

lemma lookup_SomeD:
  assumes "lagfx_resource_lookup r ref t = Some i"
  shows "i < rcount r" "i < length (entries r)" "i < length (live r)"
    "res_key (entries r ! i) = (ref, t)" "res_key (live r ! i) = (ref, t)"
  using find_index_SomeD[OF assms[unfolded lookup_live]] by (auto simp: live_def)

text \<open>Lookup through the table agrees with membership of the live entries.\<close>

lemma reg_get_Some_iff:
  assumes "wf_registry r"
  shows "reg_get r k = Some e \<longleftrightarrow> e \<in> set (live r) \<and> res_key e = k"
proof
  assume "reg_get r k = Some e"
  then obtain i where i: "lagfx_resource_lookup r (fst k) (snd k) = Some i" "e = entries r ! i"
    by (auto simp: reg_get_def)
  then show "e \<in> set (live r) \<and> res_key e = k"
    using lookup_SomeD[OF i(1)] nth_live[of i r] by (metis nth_mem prod.collapse)
next
  assume e: "e \<in> set (live r) \<and> res_key e = k"
  then have "lagfx_resource_lookup r (fst k) (snd k) \<noteq> None"
    by (auto simp: lookup_live find_index_None_iff)
  then obtain i where i: "lagfx_resource_lookup r (fst k) (snd k) = Some i" by auto
  have "live r ! i = e"
    using e lookup_SomeD(3,5)[OF i] assms unfolding wf_registry_def
    by (metis (no_types, lifting) distinct_map inj_onD nth_mem prod.collapse)
  then show "reg_get r k = Some e"
    using i lookup_SomeD(1)[OF i] nth_live[of i r] by (simp add: reg_get_def)
qed

lemma reg_get_None_iff: "reg_get r k = None \<longleftrightarrow> k \<notin> res_key ` set (live r)"
  by (cases k) (force simp: reg_get_def lookup_live find_index_None_iff)

lemma reg_get_eqI:
  assumes "wf_registry r" "wf_registry r'"
    and "\<And>e. res_key e = k \<Longrightarrow> e \<in> set (live r') \<longleftrightarrow> e \<in> set (live r)"
  shows "reg_get r' k = reg_get r k"
  using reg_get_Some_iff[OF assms(1), of k] reg_get_Some_iff[OF assms(2), of k] assms(3)
  by (metis not_None_eq)

subsection \<open>Registering\<close>

lemma register_cases:
  fixes k :: "u32 \<times> u32" and v :: "resource_type \<times> u64 \<times> u64"
  assumes wf: "wf_registry r"
  defines "r' \<equiv> lagfx_resource_register r (fst k) (fst v) (snd k) (fst (snd v)) (snd (snd v))"
  obtains (upd) i where "lagfx_resource_lookup r (fst k) (snd k) = Some i"
      "live r' = (live r)[i := reg_entry k v (Some (live r ! i))]" "rcount r' = rcount r"
      "drop (rcount r') (entries r') = drop (rcount r) (entries r)" "length (entries r') = length (entries r)"
  | (full) "lagfx_resource_lookup r (fst k) (snd k) = None" "reg_full r" "r' = r"
  | (new) "lagfx_resource_lookup r (fst k) (snd k) = None" "\<not> reg_full r"
      "live r' = live r @ [reg_entry k v None]" "rcount r' = rcount r + 1"
      "drop (rcount r') (entries r') = drop (rcount r + 1) (entries r)"
      "length (entries r') = length (entries r)"
proof (cases "lagfx_resource_lookup r (fst k) (snd k)")
  case (Some i)
  show thesis
    by (rule upd[OF Some])
       (use Some lookup_SomeD[OF Some] in \<open>auto simp: r'_def lagfx_resource_register_def reg_entry_def
          live_def take_update_swap\<close>)
next
  case None
  show thesis
  proof (cases "reg_full r")
    case True
    then show thesis using None by (intro full) (auto simp: r'_def lagfx_resource_register_def reg_full_def)
  next
    case False
    then have lt: "rcount r < 256" using wf by (auto simp: wf_registry_def reg_full_def)
    then have z: "entries r ! rcount r = zero_resource"
      using wf unfolding wf_registry_def
      by (metis add.right_neutral diff_is_0_eq leD le_refl nth_drop nth_replicate zero_less_diff)
    show thesis
      by (rule new[OF None False])
         (use None lt wf z in \<open>auto simp: r'_def lagfx_resource_register_def live_def reg_entry_def
            wf_registry_def take_Suc_conv_app_nth zero_resource_def\<close>)
  qed
qed

lemma res_key_reg_entry [simp]:
  "res_key (reg_entry k v None) = k" "res_key (reg_entry k v (Some e)) = res_key e"
  by (simp_all add: reg_entry_def res_key_def)

lemma register_wf:
  assumes wf: "wf_registry r"
  shows "wf_registry (lagfx_resource_register r ref ty t a s)"
proof (cases rule: register_cases[OF wf, of "(ref, t)" "(ty, a, s)", case_names upd full new])
  case (upd i)
  let ?e = "reg_entry (ref, t) (ty, a, s) (Some (live r ! i))"
  have "map res_key ((live r)[i := ?e]) = map res_key (live r)"
    using lookup_SomeD(3)[OF upd(1)[simplified]] by (simp add: map_update list_update_same_conv)
  with upd wf show ?thesis by (simp add: wf_registry_def)
next
  case full
  then show ?thesis using wf by simp
next
  case new
  have "(ref, t) \<notin> res_key ` set (live r)"
    using new(1) reg_get_None_iff[of r "(ref, t)"] by (simp add: reg_get_def)
  moreover have "drop (rcount r + 1) (entries r) = replicate (256 - (rcount r + 1)) zero_resource"
    using wf unfolding wf_registry_def
    by (metis add.commute diff_diff_left drop_drop drop_replicate)
  moreover have "rcount r + 1 \<le> 256" using new(2) wf by (auto simp: reg_full_def wf_registry_def)
  ultimately show ?thesis using new wf by (auto simp: wf_registry_def)
qed

lemma register_get:
  assumes wf: "wf_registry r"
  shows "reg_get (lagfx_resource_register r (fst k) (fst v) (snd k) (fst (snd v)) (snd (snd v))) k' =
    (if k' = k \<and> (reg_get r k \<noteq> None \<or> \<not> reg_full r) then Some (reg_entry k v (reg_get r k))
     else reg_get r k')"
proof (cases rule: register_cases[OF wf, of k v, case_names upd full new])
  case (upd i)
  let ?r' = "lagfx_resource_register r (fst k) (fst v) (snd k) (fst (snd v)) (snd (snd v))"
  note i = lookup_SomeD[OF upd(1)]
  have wf': "wf_registry ?r'" by (rule register_wf[OF wf])
  have old: "reg_get r k = Some (live r ! i)"
    using upd(1) i(1) by (simp add: reg_get_def nth_live)
  show ?thesis
  proof (cases "k' = k")
    case True
    have "reg_entry k v (Some (live r ! i)) \<in> set (live ?r')"
      using i(3) by (simp add: upd(2) set_update_memI)
    then show ?thesis using True old reg_get_Some_iff[OF wf'] i(5) by simp
  next
    case False
    have "reg_get ?r' k' = reg_get r k'"
    proof (rule reg_get_eqI[OF wf wf'])
      fix e assume e: "res_key e = k'"
      have "e \<noteq> live r ! i" "e \<noteq> reg_entry k v (Some (live r ! i))" using False e i(5) by auto
      then show "e \<in> set (live ?r') \<longleftrightarrow> e \<in> set (live r)"
        unfolding upd(2) using i(3) by (auto simp: in_set_conv_nth nth_list_update)
    qed
    then show ?thesis using False by simp
  qed
next
  case full
  then show ?thesis by (simp add: reg_get_def)
next
  case new
  let ?r' = "lagfx_resource_register r (fst k) (fst v) (snd k) (fst (snd v)) (snd (snd v))"
  have wf': "wf_registry ?r'" by (rule register_wf[OF wf])
  have none: "reg_get r k = None" using new(1) by (simp add: reg_get_def)
  show ?thesis
  proof (cases "k' = k")
    case True
    then show ?thesis using new none reg_get_Some_iff[OF wf'] by simp
  next
    case False
    have "reg_get ?r' k' = reg_get r k'"
      by (rule reg_get_eqI[OF wf wf']) (use False new(3) in auto)
    then show ?thesis using False by simp
  qed
qed

subsection \<open>Unregistering\<close>

lemma mset_swap_remove:
  assumes "i < length xs"
  shows "mset (take (length xs - 1) (xs[i := last xs])) = mset xs - {#xs ! i#}"
proof -
  let ?ys = "xs[i := last xs]"
  have ne: "?ys \<noteq> []" "xs \<noteq> []" using assms by auto
  have last: "last ?ys = last xs"
    using assms ne by (auto simp: last_list_update)
  have "mset (take (length xs - 1) ?ys) = mset (butlast ?ys)" by (simp add: butlast_conv_take)
  also have "\<dots> = mset ?ys - {#last xs#}"
    using last ne append_butlast_last_id[OF ne(1)]
    by (metis add_mset_remove_trivial mset.simps(1) mset.simps(2) mset_append union_mset_add_mset_right add.right_neutral)
  also have "\<dots> = mset xs - {#xs ! i#}" using assms by (simp add: mset_update)
  finally show ?thesis .
qed

lemma unregister_live:
  assumes wf: "wf_registry r" and l: "lagfx_resource_lookup r ref t = Some i"
  defines "r' \<equiv> lagfx_resource_unregister r ref t"
  shows "live r' = take (length (live r) - 1) ((live r)[i := last (live r)])"
    and "rcount r' = rcount r - 1" and "length (entries r') = length (entries r)"
    and "drop (rcount r') (entries r') = zero_resource # drop (rcount r) (entries r)"
proof -
  note i = lookup_SomeD[OF l]
  have n: "rcount r \<le> length (entries r)" "0 < rcount r" "live r \<noteq> []"
    using wf i by (auto simp: wf_registry_def)
  have last: "last (live r) = entries r ! (rcount r - 1)"
    using n by (simp add: last_conv_nth length_live[OF wf] nth_live)
  have upd: "i + 1 = rcount r \<Longrightarrow> (entries r)[i := entries r ! (rcount r - 1)] = entries r"
    by (metis add_diff_cancel_right' list_update_id)
  have es: "entries r' = ((entries r)[i := entries r ! (rcount r - 1)])[rcount r - 1 := zero_resource]"
    using upd i(1) l by (auto simp: r'_def lagfx_resource_unregister_def Let_def)
  show rc: "rcount r' = rcount r - 1" using l by (simp add: r'_def lagfx_resource_unregister_def Let_def)
  show "length (entries r') = length (entries r)" by (simp add: es)
  show "live r' = take (length (live r) - 1) ((live r)[i := last (live r)])"
    using n i by (simp add: live_def rc es last[unfolded live_def] take_update_swap min_def
        list_update_beyond)
  have "drop (rcount r - 1) (entries r') = entries r' ! (rcount r - 1) # drop (rcount r) (entries r')"
    using n Cons_nth_drop_Suc[of "rcount r - 1" "entries r'"] by (simp add: es)
  then show "drop (rcount r') (entries r') = zero_resource # drop (rcount r) (entries r)"
    using n i by (simp add: rc es)
qed

lemma unregister_mset:
  assumes "wf_registry r" "lagfx_resource_lookup r ref t = Some i"
  shows "mset (live r ! i # live (lagfx_resource_unregister r ref t)) = mset (live r)"
  using mset_swap_remove[OF lookup_SomeD(3)[OF assms(2)]] unregister_live(1)[OF assms]
    lookup_SomeD(3)[OF assms(2)]
  by simp

lemma unregister_wf:
  assumes wf: "wf_registry r"
  shows "wf_registry (lagfx_resource_unregister r ref t)"
proof (cases "lagfx_resource_lookup r ref t")
  case None
  then show ?thesis using wf by (simp add: lagfx_resource_unregister_def)
next
  case (Some i)
  note i = lookup_SomeD[OF Some] and L = unregister_live[OF wf Some]
  have "mset (map res_key (live r ! i # live (lagfx_resource_unregister r ref t))) =
        mset (map res_key (live r))"
    using unregister_mset[OF wf Some] by (metis mset_map)
  moreover have "distinct (map res_key (live r))" using wf by (simp add: wf_registry_def)
  ultimately have "distinct (map res_key (live r ! i # live (lagfx_resource_unregister r ref t)))"
    by (metis mset_eq_imp_distinct_iff)
  then have d: "distinct (map res_key (live (lagfx_resource_unregister r ref t)))" by simp
  have "256 - (rcount r - 1) = Suc (256 - rcount r)" using i(1) wf by (auto simp: wf_registry_def)
  then show ?thesis using d L wf by (simp add: wf_registry_def)
qed

lemma unregister_set:
  assumes wf: "wf_registry r" and l: "lagfx_resource_lookup r ref t = Some i"
  shows "set (live (lagfx_resource_unregister r ref t)) = set (live r) - {live r ! i}"
proof -
  have "distinct (live r)" using wf by (auto simp: wf_registry_def distinct_map)
  then have "distinct (live r ! i # live (lagfx_resource_unregister r ref t))"
    using unregister_mset[OF wf l] mset_eq_imp_distinct_iff by metis
  moreover have "set (live r ! i # live (lagfx_resource_unregister r ref t)) = set (live r)"
    using unregister_mset[OF wf l] by (rule mset_eq_setD)
  ultimately show ?thesis by auto
qed

lemma unregister_get:
  assumes wf: "wf_registry r"
  shows "reg_get (lagfx_resource_unregister r (fst k) (snd k)) k' = (if k' = k then None else reg_get r k')"
proof (cases "lagfx_resource_lookup r (fst k) (snd k)")
  case None
  then show ?thesis by (auto simp: lagfx_resource_unregister_def reg_get_def)
next
  case (Some i)
  let ?r' = "lagfx_resource_unregister r (fst k) (snd k)"
  note i = lookup_SomeD[OF Some]
  have wf': "wf_registry ?r'" by (rule unregister_wf[OF wf])
  have set': "set (live ?r') = set (live r) - {live r ! i}" by (rule unregister_set[OF wf Some])
  have uniq: "e = live r ! i" if "e \<in> set (live r)" "res_key e = k" for e
    using that i(3,5) wf unfolding wf_registry_def
    by (metis (no_types, lifting) distinct_map inj_onD nth_mem prod.collapse)
  show ?thesis
  proof (cases "k' = k")
    case True
    then show ?thesis using set' uniq by (auto simp: reg_get_None_iff)
  next
    case False
    then have "reg_get ?r' k' = reg_get r k'"
      by (intro reg_get_eqI[OF wf wf']) (use set' i(5) in auto)
    then show ?thesis using False by simp
  qed
qed

subsection \<open>Clearing a task\<close>

lemma clear_loop_filter:
  assumes "write_idx \<le> read_idx" "read_idx \<le> n" "n \<le> length es"
    and "clear_loop task_id n read_idx write_idx es = (w, es')"
  shows "w \<le> n \<and> length es' = length es \<and> drop n es' = drop n es \<and>
    take w es' = take write_idx es @ filter (\<lambda>e. re_task_id e \<noteq> task_id) (take (n - read_idx) (drop read_idx es))"
  using assms
proof (induction task_id n read_idx write_idx es arbitrary: w es' rule: clear_loop.induct)
  case (1 task_id n read_idx write_idx es)
  show ?case
  proof (cases "read_idx < n")
    case False
    then show ?thesis using "1.prems" by (simp add: clear_loop.simps)
  next
    case True
    have hd: "take (n - read_idx) (drop read_idx es) =
              es ! read_idx # take (n - (read_idx + 1)) (drop (read_idx + 1) es)"
      using True "1.prems"(3)
      by (metis Cons_nth_drop_Suc Suc_diff_Suc Suc_eq_plus1 less_le_trans take_Suc_Cons)
    show ?thesis
    proof (cases "re_task_id (es ! read_idx) \<noteq> task_id")
      case keep: True
      let ?es = "if write_idx \<noteq> read_idx then es[write_idx := es ! read_idx] else es"
      have len: "length ?es = length es" by simp
      have up: "drop n ?es = drop n es" "drop (read_idx + 1) ?es = drop (read_idx + 1) es"
        using "1.prems"(1) True by auto
      have tk: "take (write_idx + 1) ?es = take write_idx es @ [es ! read_idx]"
        using "1.prems"(1,3) True by (auto simp: take_Suc_conv_app_nth)
      show ?thesis
        using "1.IH"(1)[OF True keep, of w es'] "1.prems" True keep
        by (simp only: clear_loop.simps[of task_id n read_idx write_idx es] if_True hd len up tk) simp
    next
      case drop: False
      then show ?thesis
        using "1.IH"(2)[OF True drop, of w es'] "1.prems" True
        by (simp only: clear_loop.simps[of task_id n read_idx write_idx es] if_True if_False hd) simp
    qed
  qed
qed

lemma clear_task_live:
  assumes wf: "wf_registry r"
  shows "live (lagfx_resource_clear_task r t) = filter (\<lambda>e. re_task_id e \<noteq> t) (live r)"
    and "length (entries (lagfx_resource_clear_task r t)) = LAGFX_MAX_RESOURCES"
    and "rcount (lagfx_resource_clear_task r t) \<le> rcount r"
    and "drop (rcount (lagfx_resource_clear_task r t)) (entries (lagfx_resource_clear_task r t)) =
         replicate (LAGFX_MAX_RESOURCES - rcount (lagfx_resource_clear_task r t)) zero_resource"
proof -
  obtain w es where c: "clear_loop t (rcount r) 0 0 (entries r) = (w, es)" by fastforce
  have "rcount r \<le> length (entries r)" using wf by (simp add: wf_registry_def)
  from clear_loop_filter[OF _ _ this c]
  have w: "w \<le> rcount r" "length es = length (entries r)" "drop (rcount r) es = drop (rcount r) (entries r)"
    "take w es = filter (\<lambda>e. re_task_id e \<noteq> t) (live r)"
    by (simp_all add: live_def)
  have len: "length (entries r) = 256" "rcount r \<le> 256" using wf by (auto simp: wf_registry_def)
  have r': "lagfx_resource_clear_task r t =
     r\<lparr>entries := take w es @ replicate (rcount r - w) zero_resource @ drop (rcount r) es, rcount := w\<rparr>"
    using w(1) by (simp add: lagfx_resource_clear_task_def c)
  show "live (lagfx_resource_clear_task r t) = filter (\<lambda>e. re_task_id e \<noteq> t) (live r)"
  proof -
    have "w \<le> length es" using w(1,2) len by simp
    then show ?thesis unfolding r' live_def[of "_\<lparr>entries := _, rcount := _\<rparr>"] w(4)[symmetric] by simp
  qed
  show "length (entries (lagfx_resource_clear_task r t)) = 256" using w(1,2) len by (simp add: r')
  show "rcount (lagfx_resource_clear_task r t) \<le> rcount r" using w by (simp add: r')
  show "drop (rcount (lagfx_resource_clear_task r t)) (entries (lagfx_resource_clear_task r t)) =
         replicate (256 - rcount (lagfx_resource_clear_task r t)) zero_resource"
    using w(1-3) len wf by (simp add: r' wf_registry_def flip: replicate_add)
qed

lemma clear_task_wf: "wf_registry r \<Longrightarrow> wf_registry (lagfx_resource_clear_task r t)"
  using clear_task_live[of r t] by (auto simp: wf_registry_def distinct_map_filter)

lemma clear_task_get:
  assumes wf: "wf_registry r"
  shows "reg_get (lagfx_resource_clear_task r t) k = (if snd k = t then None else reg_get r k)"
proof (cases "snd k = t")
  case True
  then show ?thesis by (auto simp: reg_get_None_iff clear_task_live[OF wf] res_key_def)
next
  case False
  have "reg_get (lagfx_resource_clear_task r t) k = reg_get r k"
    by (rule reg_get_eqI[OF wf clear_task_wf[OF wf]])
       (use False in \<open>auto simp: clear_task_live[OF wf] res_key_def\<close>)
  then show ?thesis using False by simp
qed

subsection \<open>The registry as a bounded map\<close>

text \<open>What the command handlers rely on: registering adds or refreshes a key unless
  the store is full, unregistering removes exactly one key, clearing removes
  exactly the keys of a group, and every operation keeps the invariant.\<close>

locale resource_map =
  fixes empty :: 's
    and put :: "'k \<Rightarrow> 'v \<Rightarrow> 's \<Rightarrow> 's"
    and get :: "'s \<Rightarrow> 'k \<Rightarrow> 'w option"
    and del :: "'k \<Rightarrow> 's \<Rightarrow> 's"
    and clear :: "'t \<Rightarrow> 's \<Rightarrow> 's"
    and grp :: "'k \<Rightarrow> 't"
    and full :: "'s \<Rightarrow> bool"
    and merge :: "'k \<Rightarrow> 'v \<Rightarrow> 'w option \<Rightarrow> 'w"
    and inv :: "'s \<Rightarrow> bool"
  assumes inv_empty: "inv empty"
    and inv_put: "inv s \<Longrightarrow> inv (put k v s)"
    and inv_del: "inv s \<Longrightarrow> inv (del k s)"
    and inv_clear: "inv s \<Longrightarrow> inv (clear t s)"
    and get_empty: "get empty k = None"
    and get_put: "inv s \<Longrightarrow> get (put k v s) k' =
      (if k' = k \<and> (get s k \<noteq> None \<or> \<not> full s) then Some (merge k v (get s k)) else get s k')"
    and get_del: "inv s \<Longrightarrow> get (del k s) k' = (if k' = k then None else get s k')"
    and get_clear: "inv s \<Longrightarrow> get (clear t s) k' = (if grp k' = t then None else get s k')"
begin

lemma del_put: "inv s \<Longrightarrow> get (del k (put k v s)) k' = get (del k s) k'"
  by (simp add: get_del get_put inv_put)

lemma del_del: "inv s \<Longrightarrow> get (del k (del j s)) k' = get (del j (del k s)) k'"
  by (simp add: get_del inv_del)

lemma clear_del: "inv s \<Longrightarrow> grp k = t \<Longrightarrow> get (clear t (del k s)) k' = get (clear t s) k'"
  by (simp add: get_del get_clear inv_del)

text \<open>A refresh of a present key never fails and never disturbs the others.\<close>

lemma refresh:
  "inv s \<Longrightarrow> get s k = Some w \<Longrightarrow> get (put k v s) = (get s)(k \<mapsto> merge k v (Some w))"
  by (rule ext) (simp add: get_put)

text \<open>Operations on other keys leave a key alone, however many there are.\<close>

lemma puts_other:
  "inv s \<Longrightarrow> k \<notin> fst ` set kvs \<Longrightarrow>
   inv (foldl (\<lambda>s kv. put (fst kv) (snd kv) s) s kvs) \<and>
   get (foldl (\<lambda>s kv. put (fst kv) (snd kv) s) s kvs) k = get s k"
  by (induction kvs arbitrary: s) (simp_all add: inv_put get_put)

end

lemma wf_zero_registry: "wf_registry zero_registry"
  by (simp add: wf_registry_def zero_registry_def live_def)

interpretation rr: resource_map zero_registry
  "\<lambda>k v r. lagfx_resource_register r (fst k) (fst v) (snd k) (fst (snd v)) (snd (snd v))"
  reg_get
  "\<lambda>k r. lagfx_resource_unregister r (fst k) (snd k)"
  "\<lambda>t r. lagfx_resource_clear_task r t"
  snd reg_full reg_entry wf_registry
proof unfold_locales
  show "wf_registry zero_registry" by (rule wf_zero_registry)
  show "reg_get zero_registry k = None" for k
    by (simp add: reg_get_None_iff zero_registry_def live_def)
qed (auto simp: register_wf unregister_wf clear_task_wf register_get unregister_get clear_task_get)

subsection \<open>The task-agnostic texture lookup\<close>

lemma lookup_texture_spec:
  assumes "lagfx_resource_lookup_texture r ref = Some i"
  shows "i < rcount r" "i < length (entries r)" "re_ref (entries r ! i) = ref"
    "re_type (entries r ! i) = LAGFX_RESOURCE_TYPE_TEXTURE"
  using find_index_SomeD[OF assms[unfolded lagfx_resource_lookup_texture_def]] by auto

end
