(* ===== verification/HandlerSpec.thy ===== *)
theory HandlerSpec
  imports Registry Stamp
begin

text \<open>
  The contract between the dispatchers and the command handlers.  A handler gets
  a header whose payload has the length the header states and a well-formed
  system; it must leave the system well formed and may change neither the ring
  geometry nor the ring pointers nor the count of commands seen.  The locale
  \<open>command_handler\<close> is this contract for a handler that may still run outside its
  payload; \<open>safe_handler\<close> adds that it never does.  Each handler of the library is an
  interpretation of one of the two in its own theory.
\<close>

definition wf_sys :: "'g sys \<Rightarrow> bool" where
  "wf_sys s \<longleftrightarrow> wf_tables (proto s) \<and> wf_registry (resources (proto s)) \<and>
     (\<forall>d. dev s = Some d \<longrightarrow> wf_device d)"

definition frame :: "'g sys \<Rightarrow> 'g sys \<Rightarrow> bool" where
  "frame s s' \<longleftrightarrow> geometry (proto s') = geometry (proto s) \<and>
     total_cmds_seen (proto s') = total_cmds_seen (proto s) \<and> (dev s' = None \<longleftrightarrow> dev s = None)"

lemma frame_refl [simp]: "frame s s"
  by (simp add: frame_def)

lemma frame_trans: "frame a b \<Longrightarrow> frame b c \<Longrightarrow> frame a c"
  by (simp add: frame_def)

lemma frame_valid: "frame s s' \<Longrightarrow> lagfx_protocol_is_valid (proto s') = lagfx_protocol_is_valid (proto s)"
  by (auto simp: frame_def dest: valid_geometry)

text \<open>A dispatcher arm runs the handler and ignores the status it returns.\<close>

definition arm :: "('g shell \<Rightarrow> cmd_header \<Rightarrow> 'g sys \<Rightarrow> (handler_status \<times> 'g sys) option) \<Rightarrow>
    'g shell \<Rightarrow> cmd_header \<Rightarrow> 'g sys \<Rightarrow> 'g sys option" where
  "arm h sh hdr s = map_option snd (h sh hdr s)"

locale command_handler =
  fixes h :: "'g shell \<Rightarrow> cmd_header \<Rightarrow> 'g sys \<Rightarrow> (handler_status \<times> 'g sys) option"
  assumes keeps: "wf_hdr hdr \<Longrightarrow> wf_sys s \<Longrightarrow> h sh hdr s = Some (st, s') \<Longrightarrow> wf_sys s' \<and> frame s s'"
begin

lemma arm_keeps: "wf_hdr hdr \<Longrightarrow> wf_sys s \<Longrightarrow> arm h sh hdr s = Some s' \<Longrightarrow> wf_sys s' \<and> frame s s'"
  using keeps by (auto simp: arm_def)

end

locale safe_handler = command_handler +
  assumes total: "wf_hdr hdr \<Longrightarrow> wf_sys s \<Longrightarrow> h sh hdr s \<noteq> None"
begin

lemma arm_total:
  "wf_hdr hdr \<Longrightarrow> wf_sys s \<Longrightarrow> \<exists>s'. arm h sh hdr s = Some s' \<and> wf_sys s' \<and> frame s s'"
  using total[of hdr s sh] keeps by (fastforce simp: arm_def)

end

text \<open>Guest writes and state changes outside the tables keep the contract.\<close>

lemma wf_sys_ext [simp]: "wf_sys (s\<lparr>ext := g\<rparr>) = wf_sys s"
  by (simp add: wf_sys_def)

lemma frame_ext [simp]: "frame s (s'\<lparr>ext := g\<rparr>) = frame s s'"
  by (simp add: frame_def)

lemma wf_sys_guest_write [simp]: "wf_sys (snd (guest_write sh s a bs)) = wf_sys s"
  by (simp add: wf_sys_def)

lemma frame_guest_write [simp]: "frame s (snd (guest_write sh s' a bs)) = frame s s'"
  by (simp add: frame_def)

lemma wf_sys_proto:
  "wf_sys s \<Longrightarrow> wf_tables p \<Longrightarrow> wf_registry (resources p) \<Longrightarrow> wf_sys (s\<lparr>proto := p\<rparr>)"
  by (simp add: wf_sys_def)

lemma frame_proto:
  "geometry p = geometry (proto s) \<Longrightarrow> total_cmds_seen p = total_cmds_seen (proto s) \<Longrightarrow>
   frame s (s\<lparr>proto := p\<rparr>)"
  by (simp add: frame_def)

lemma wf_sys_reg_upd:
  "wf_sys s \<Longrightarrow> wf_registry r \<Longrightarrow> wf_sys (s\<lparr>proto := (proto s)\<lparr>resources := r\<rparr>\<rparr>)"
  by (simp add: wf_sys_def wf_tables_def)

lemma frame_reg_upd: "frame s (s\<lparr>proto := (proto s)\<lparr>resources := r\<rparr>\<rparr>)"
  by (simp add: frame_def geom_simps)

lemma wf_complete_slot: "wf_sys s \<Longrightarrow> wf_sys (lagfx_protocol_complete_stamp_slot sh slot stamp s)"
  by (cases "lagfx_protocol_is_valid (proto s)")
     (simp_all add: wf_sys_def wf_tables_def complete_slot_proto complete_slot_invalid)

lemma frame_complete_slot: "frame s (lagfx_protocol_complete_stamp_slot sh slot stamp s)"
  by (simp add: frame_def geom_simps)

end
