(* ===== verification/Ring.thy ===== *)
theory Ring
  imports Stamp
begin

text \<open>
  The per-channel ring helpers of \<^verbatim>\<open>src/dispatchers/ring_common.c\<close> (descriptor read,
  page-array resolution, chunked read, read-pointer publication) and the 12-byte
  command header that all three drain loops decode.  The chunked read is shown to
  return exactly the bytes a byte-at-a-time walk of the ring's page array finds,
  whatever way the command straddles pages and the ring end.
\<close>

unbundle bit_operations_syntax

subsection \<open>Ring access\<close>

definition LAGFX_RING_FIFO_DESC_BYTES :: nat where "LAGFX_RING_FIFO_DESC_BYTES = 20"

definition ring_desc_gpa :: "protocol \<Rightarrow> u32 \<Rightarrow> u64" where
  "ring_desc_gpa p chan_id = push_bit 12 (ring_shared_page_pfn p) + 0x400 + ucast (chan_id - 1) * 20"

text \<open>The results are descriptor address, write pointer, read pointer and the address of
  the ring's page array.\<close>

definition lagfx_ring_fifo_descriptor_read ::
  "'g shell \<Rightarrow> u32 \<Rightarrow> 'g sys \<Rightarrow> (u64 \<times> u32 \<times> u32 \<times> u64) option" where
  "lagfx_ring_fifo_descriptor_read sh chan_id s =
     (if \<not> has_read sh s then None
      else if ring_shared_page_pfn (proto s) = 0 then None
      else if chan_id = 0 then None
      else
        let desc_gpa = ring_desc_gpa (proto s) chan_id in
        case guest_read sh s desc_gpa LAGFX_RING_FIFO_DESC_BYTES of
          None \<Rightarrow> None
        | Some desc \<Rightarrow> do {
            wp \<leftarrow> lagfx_le32 desc 0;
            rp \<leftarrow> lagfx_le32 desc 4;
            desc_chan \<leftarrow> lagfx_le32 desc 0xc;
            ring_pfn \<leftarrow> lagfx_le32 desc 0x10;
            if ring_pfn = 0 then None
            else Some (desc_gpa, wp, rp, push_bit 12 (ucast ring_pfn)) })"

definition lagfx_ring_resolve_data_gpa ::
  "'g shell \<Rightarrow> u64 \<Rightarrow> u32 \<Rightarrow> u32 \<Rightarrow> 'g sys \<Rightarrow> u64 option" where
  "lagfx_ring_resolve_data_gpa sh page0_gpa rsize offset s =
     (let off_mod = (if rsize \<noteq> 0 then offset mod rsize else offset);
          page_idx = drop_bit 12 off_mod
      in case guest_read sh s (page0_gpa + ucast (page_idx * 4)) 4 of
           None \<Rightarrow> None
         | Some pfn_buf \<Rightarrow> do {
             data_pfn \<leftarrow> lagfx_le32 pfn_buf 0;
             if data_pfn = 0 then None
             else Some (push_bit 12 (ucast data_pfn) + ucast (off_mod AND 0xfff)) })"

definition lagfx_ring_publish_read_ptr :: "'g shell \<Rightarrow> u64 \<Rightarrow> u32 \<Rightarrow> 'g sys \<Rightarrow> 'g sys" where
  "lagfx_ring_publish_read_ptr sh desc_gpa rp s = snd (guest_write sh s (desc_gpa + 4) (le_bytes32 rp))"

definition chunk_len :: "u64 \<Rightarrow> u32 \<Rightarrow> u32" where
  "chunk_len chunk_gpa remaining =
     (let chunk_off_in_page = ucast (chunk_gpa AND 0xfff); cl = 0x1000 - chunk_off_in_page
      in if cl > remaining then remaining else cl)"

lemma unat_page_rest:
  "unat (0x1000 - ucast (gpa AND 0xfff :: u64) :: u32) = 4096 - unat gpa mod 4096"
proof -
  have lt: "unat (gpa AND 0xfff) < 4096" by (simp add: word_and_fff)
  then have "unat (ucast (gpa AND 0xfff) :: u32) = unat (gpa AND 0xfff)"
    by (intro unat_ucast_small) simp
  then show ?thesis using lt by (simp add: unat_sub word_le_nat_alt word_and_fff)
qed

lemma unat_chunk_len: "unat (chunk_len gpa rem) = min (4096 - unat gpa mod 4096) (unat rem)"
  using unat_page_rest[of gpa] by (auto simp: chunk_len_def Let_def word_less_nat_alt min_def)

lemma chunk_len_pos: "0 < rem \<Longrightarrow> 0 < unat (chunk_len gpa rem)"
  by (simp add: unat_chunk_len word_less_nat_alt)

function ring_read_loop ::
  "'g shell \<Rightarrow> 'g sys \<Rightarrow> u64 \<Rightarrow> u32 \<Rightarrow> u32 \<Rightarrow> u32 \<Rightarrow> u32 \<Rightarrow> bytes \<Rightarrow> bytes option" where
  "ring_read_loop sh s page0_gpa rsize offset len don out =
     (if don < len then
        case lagfx_ring_resolve_data_gpa sh page0_gpa rsize (offset + don) s of
          None \<Rightarrow> None
        | Some chunk_gpa \<Rightarrow>
            let cl = chunk_len chunk_gpa (len - don) in
            (case guest_read sh s chunk_gpa (unat cl) of
               None \<Rightarrow> None
             | Some b \<Rightarrow> ring_read_loop sh s page0_gpa rsize offset len (don + cl) (out @ b))
      else Some out)"
  by pat_completeness auto
termination
proof (relation "measure (\<lambda>(_, _, _, _, _, len, don, _). unat len - unat don)", goal_cases)
  case (2 sh s page0_gpa rsize offset len don out gpa cl b)
  have "0 < unat cl" "unat cl \<le> unat (len - don)"
    using 2 chunk_len_pos[of "len - don" gpa] by (auto simp: unat_chunk_len word_gt_0)
  from word_progress(1)[OF 2(1) this] show ?case by simp
qed simp

declare ring_read_loop.simps [simp del]

definition lagfx_ring_read_bytes ::
  "'g shell \<Rightarrow> u64 \<Rightarrow> u32 \<Rightarrow> u32 \<Rightarrow> u32 \<Rightarrow> 'g sys \<Rightarrow> bytes option" where
  "lagfx_ring_read_bytes sh page0_gpa rsize offset len s =
     (if len = 0 \<or> \<not> has_read sh s then None
      else ring_read_loop sh s page0_gpa rsize offset len 0 [])"

subsection \<open>The command header\<close>

definition LAGFX_CMD_HEADER_BYTES :: u32 where "LAGFX_CMD_HEADER_BYTES = 12"

record wire_header =
  w_opcode :: u16
  w_arg_count_8b :: u16
  w_length :: u32
  w_stamp :: u32

definition parse_header :: "bytes \<Rightarrow> wire_header option" where
  "parse_header hdr_buf = do {
     opcode \<leftarrow> lagfx_le16 hdr_buf 0;
     argc \<leftarrow> lagfx_le16 hdr_buf 2;
     len \<leftarrow> lagfx_le32 hdr_buf 4;
     stamp \<leftarrow> lagfx_le32 hdr_buf 8;
     Some \<lparr>w_opcode = opcode, w_arg_count_8b = argc, w_length = len, w_stamp = stamp\<rparr> }"

definition bad_length :: "u32 \<Rightarrow> u32 \<Rightarrow> bool" where
  "bad_length len rsize \<longleftrightarrow> len < LAGFX_CMD_HEADER_BYTES \<or> len > 4096 \<or> len > rsize"

text \<open>The derived header the handlers see: payload size and payload pointer.\<close>

definition derive_header :: "wire_header \<Rightarrow> bytes \<Rightarrow> cmd_header" where
  "derive_header w cmd_buf =
     (let psz = (ucast (if w_length w > LAGFX_CMD_HEADER_BYTES
                        then w_length w - LAGFX_CMD_HEADER_BYTES else 0) :: u16)
      in \<lparr>hdr_opcode = w_opcode w, hdr_arg_count_8b = w_arg_count_8b w, hdr_length = w_length w,
          hdr_stamp = w_stamp w, hdr_payload_size = psz,
          hdr_payload = (if psz > 0 then Some (drop 12 cmd_buf) else None)\<rparr>)"

text \<open>The wire form of a command, for the round trip.\<close>

definition encode_command :: "u16 \<Rightarrow> u16 \<Rightarrow> u32 \<Rightarrow> bytes \<Rightarrow> bytes" where
  "encode_command opcode argc stamp payload =
     le_bytes16 opcode @ le_bytes16 argc @ le_bytes32 (of_nat (12 + length payload)) @
     le_bytes32 stamp @ payload"

lemma parse_header_in: "12 \<le> length b \<Longrightarrow> \<exists>w. parse_header b = Some w"
  by (simp add: parse_header_def chk_simps)

lemma parse_encode:
  "parse_header (take 12 (encode_command opcode argc stamp payload)) =
     Some \<lparr>w_opcode = opcode, w_arg_count_8b = argc, w_length = of_nat (12 + length payload), w_stamp = stamp\<rparr>"
proof -
  let ?l = "le_bytes32 (of_nat (12 + length payload))"
  have h: "take 12 (encode_command opcode argc stamp payload) =
      le_bytes16 opcode @ le_bytes16 argc @ ?l @ le_bytes32 stamp"
    by (simp add: encode_command_def)
  have "lagfx_le16 (le_bytes16 opcode @ le_bytes16 argc @ ?l @ le_bytes32 stamp) 0 = Some opcode"
    using le16_bytes[of 0 "[]"] by simp
  moreover have "lagfx_le16 (le_bytes16 opcode @ le_bytes16 argc @ ?l @ le_bytes32 stamp) 2 = Some argc"
    using le16_bytes[of 2 "le_bytes16 opcode"] by simp
  moreover have "lagfx_le32 ((le_bytes16 opcode @ le_bytes16 argc) @ ?l @ le_bytes32 stamp) 4 =
      Some (of_nat (12 + length payload))"
    by (rule le32_bytes) simp
  moreover have "lagfx_le32 ((le_bytes16 opcode @ le_bytes16 argc @ ?l) @ le_bytes32 stamp @ []) 8 = Some stamp"
    by (rule le32_bytes) simp
  ultimately show ?thesis unfolding h by (simp add: parse_header_def)
qed

lemma derive_header_wf:
  assumes "\<not> bad_length (w_length w) rsize" "length cmd_buf = unat (w_length w)"
  shows "wf_hdr (derive_header w cmd_buf)"
proof -
  have r: "12 \<le> unat (w_length w)" "unat (w_length w) \<le> 4096"
    using assms(1) by (auto simp: bad_length_def LAGFX_CMD_HEADER_BYTES_def word_less_nat_alt)
  have "unat (w_length w - 12) = unat (w_length w) - 12"
    using r by (simp add: unat_sub word_le_nat_alt)
  then have "unat (ucast (w_length w - 12) :: u16) = unat (w_length w) - 12"
    using r by (simp add: unat_ucast_small)
  then show ?thesis
    using assms(2) by (auto simp: wf_hdr_def derive_header_def Let_def LAGFX_CMD_HEADER_BYTES_def)
qed

subsection \<open>The ring as the guest sees it\<close>

text \<open>Where the page array puts the byte at a ring offset, and the run of bytes from an
  offset on, one byte at a time.\<close>

definition ring_addr :: "('g \<Rightarrow> u64 \<Rightarrow> u8) \<Rightarrow> 'g \<Rightarrow> u64 \<Rightarrow> u32 \<Rightarrow> u32 \<Rightarrow> u64 option" where
  "ring_addr ram g page0_gpa rsize off =
     (let om = off mod rsize; pfn = ram32 ram g (page0_gpa + ucast (drop_bit 12 om * 4))
      in if pfn = 0 then None else Some (push_bit 12 (ucast pfn) + ucast (om AND 0xfff)))"

definition ring_bytes :: "('g \<Rightarrow> u64 \<Rightarrow> u8) \<Rightarrow> 'g \<Rightarrow> u64 \<Rightarrow> u32 \<Rightarrow> u32 \<Rightarrow> nat \<Rightarrow> bytes option" where
  "ring_bytes ram g page0_gpa rsize off n =
     those (map (\<lambda>i. map_option (ram g) (ring_addr ram g page0_gpa rsize (off + of_nat i))) [0..<n])"

lemma resolve_ram:
  assumes "ram_law sh ram" "dev s \<noteq> None" "rsize \<noteq> 0"
  shows "lagfx_ring_resolve_data_gpa sh page0_gpa rsize off s = ring_addr ram (ext s) page0_gpa rsize off"
proof -
  have "lagfx_le32 (map (\<lambda>i. ram (ext s) (a + of_nat i)) [0..<4]) 0 = Some (ram32 ram (ext s) a)" for a
    by (simp add: ram32_def chk_simps)
  then show ?thesis
    using assms
    by (auto simp: lagfx_ring_resolve_data_gpa_def ring_addr_def guest_read_def ram_law_read Let_def)
qed

text \<open>Within a page, consecutive offsets have consecutive addresses.\<close>

lemma ring_addr_page:
  assumes "ring_addr ram g page0_gpa rsize off = Some gpa"
  shows "unat gpa mod 4096 = unat (off mod rsize) mod 4096"
proof -
  let ?o = "off mod rsize"
  obtain pfn :: u32 where gpa: "gpa = push_bit 12 (ucast pfn) + ucast (?o AND 0xfff)"
    using assms by (auto simp: ring_addr_def Let_def split: if_splits)
  have p: "unat (push_bit 12 (ucast pfn :: u64)) = unat pfn * 4096"
    using unat_bound[of pfn]
    by (simp only: unsigned_push_bit_eq) (simp add: unat_ucast_small push_bit_eq_mult take_bit_nat_eq_self)
  have uo: "unat (ucast (?o AND 0xfff) :: u64) = unat ?o mod 4096"
    by (simp add: unat_ucast_small word_and_fff)
  have "unat gpa = unat pfn * 4096 + unat ?o mod 4096"
    unfolding gpa using p uo unat_bound[of pfn] by (subst unat_add_small) auto
  then show ?thesis by simp
qed

lemma ring_addr_step:
  assumes "ring_addr ram g page0_gpa rsize off = Some gpa" "4096 dvd unat rsize" "rsize \<noteq> 0"
    and i: "i < 4096 - unat gpa mod 4096"
  shows "ring_addr ram g page0_gpa rsize (off + of_nat i) = Some (gpa + of_nat i)"
proof -
  let ?o = "off mod rsize"
  have pos: "0 < unat rsize" using assms(3) by (simp add: word_gt_0 flip: word_less_nat_alt unat_gt_0)
  have om: "unat ?o mod 4096 = unat off mod 4096"
    using assms(2) by (simp add: unat_mod mod_mod_cancel)
  then have lt: "unat off mod 4096 + i < 4096"
    using i ring_addr_page[OF assms(1)] by simp
  have ui: "unat (of_nat i :: u32) = i" using lt by (intro unat_of_nat_small) simp
  have "unat off + i < 2 ^ 32"
  proof -
    have "unat off div 4096 < 1048576" using unat_bound[of off] by (simp add: less_mult_imp_div_less)
    moreover have "unat off = unat off div 4096 * 4096 + unat off mod 4096" by simp
    ultimately have "unat off + i < 4294967296" using lt by linarith
    then show ?thesis by simp
  qed
  then have uo: "unat (off + of_nat i) = unat off + i" using ui by (subst unat_add_small) auto
  have o': "unat ((off + of_nat i) mod rsize) = unat ?o + i"
    using mod_add_in_page[OF assms(2) pos lt] by (simp add: unat_mod uo)
  have dd: "drop_bit 12 ((off + of_nat i) mod rsize) = drop_bit 12 ?o"
  proof -
    have "unat (drop_bit 12 ((off + of_nat i) mod rsize)) = unat (drop_bit 12 ?o)"
      unfolding unat_drop_bit o' using div_add_in_page[of "unat ?o" i] om lt by simp
    then show ?thesis by (simp only: word_unat_eq_iff)
  qed
  have aa: "(ucast ((off + of_nat i) mod rsize AND 0xfff) :: u64) = ucast (?o AND 0xfff) + of_nat i"
  proof -
    have l: "unat (ucast ((off + of_nat i) mod rsize AND 0xfff) :: u64) = unat ?o mod 4096 + i"
      using mod_add_in_page[of 4096 "unat ?o" i] om lt by (simp add: unat_ucast_small word_and_fff o')
    have "unat (ucast (?o AND 0xfff) :: u64) = unat ?o mod 4096" "unat (of_nat i :: u64) = i"
      using lt by (simp_all add: unat_ucast_small word_and_fff unat_of_nat_small)
    then have "unat (ucast (?o AND 0xfff) + of_nat i :: u64) = unat ?o mod 4096 + i"
      using om lt by (subst unat_add_small) auto
    with l show ?thesis by (simp only: word_unat_eq_iff)
  qed
  let ?pfn = "ram32 ram g (page0_gpa + ucast (drop_bit 12 ?o * 4))"
  have a: "?pfn \<noteq> 0" "gpa = push_bit 12 (ucast ?pfn) + ucast (?o AND 0xfff)"
    using assms(1) unfolding ring_addr_def Let_def by (metis option.distinct(1), metis option.distinct(1) option.inject)
  show ?thesis unfolding ring_addr_def Let_def dd aa using a by (simp only: if_False add.assoc)
qed

lemma ring_bytes_split:
  "ring_bytes ram g page0_gpa rsize off (c + n) =
     Option.bind (ring_bytes ram g page0_gpa rsize off c)
       (\<lambda>a. map_option ((@) a) (ring_bytes ram g page0_gpa rsize (off + of_nat c) n))"
proof -
  have "[0..<c + n] = [0..<c] @ map (\<lambda>i. c + i) [0..<n]"
    using upt_add_eq_append[of 0 c n] map_add_upt[of c n] by (simp add: add.commute)
  then show ?thesis by (simp add: ring_bytes_def those_append comp_def add.assoc)
qed

lemma ring_bytes_chunk:
  assumes "ring_addr ram g page0_gpa rsize off = Some gpa" "4096 dvd unat rsize" "rsize \<noteq> 0"
    and "c \<le> 4096 - unat gpa mod 4096"
  shows "ring_bytes ram g page0_gpa rsize off c = Some (map (\<lambda>i. ram g (gpa + of_nat i)) [0..<c])"
proof -
  have "map (\<lambda>i. map_option (ram g) (ring_addr ram g page0_gpa rsize (off + of_nat i))) [0..<c] =
        map (\<lambda>i. Some (ram g (gpa + of_nat i))) [0..<c]"
    using ring_addr_step[OF assms(1-3)] assms(4) by simp
  then show ?thesis unfolding ring_bytes_def by (simp only: those_map_Some)
qed

lemma ring_bytes_None:
  "ring_addr ram g page0_gpa rsize off = None \<Longrightarrow> 0 < n \<Longrightarrow> ring_bytes ram g page0_gpa rsize off n = None"
  unfolding ring_bytes_def by (rule those_NoneI) (auto simp: image_iff intro!: bexI[of _ 0])

lemma ring_read_loop_ram:
  assumes "ram_law sh ram" "dev s \<noteq> None" "4096 dvd unat rsize" "rsize \<noteq> 0" "don \<le> len"
  shows "ring_read_loop sh s page0_gpa rsize off len don out =
    map_option ((@) out) (ring_bytes ram (ext s) page0_gpa rsize (off + don) (unat len - unat don))"
  using assms
proof (induction sh s page0_gpa rsize off len don out rule: ring_read_loop.induct)
  case (1 sh s page0_gpa rsize off len don out)
  note unfold = ring_read_loop.simps[of sh s page0_gpa rsize off len don out]
  show ?case
  proof (cases "don < len")
    case False
    then have "unat len - unat don = 0" by (simp add: word_less_nat_alt)
    then show ?thesis using False by (subst unfold) (simp add: ring_bytes_def)
  next
    case True
    have rem: "0 < unat len - unat don" "unat (len - don) = unat len - unat don"
      using True by (simp_all add: word_less_nat_alt unat_sub word_le_nat_alt)
    note res = resolve_ram[OF "1.prems"(1,2,4), of page0_gpa "off + don"]
    show ?thesis
    proof (cases "ring_addr ram (ext s) page0_gpa rsize (off + don)")
      case None
      then show ?thesis using True rem by (simp add: unfold res ring_bytes_None)
    next
      case (Some gpa)
      let ?cl = "chunk_len gpa (len - don)"
      let ?b = "map (\<lambda>i. ram (ext s) (gpa + of_nat i)) [0..<unat ?cl]"
      have rd: "guest_read sh s gpa (unat ?cl) = Some ?b"
        using "1.prems"(1,2) by (simp add: guest_read_def ram_law_read)
      have cl: "unat ?cl \<le> unat len - unat don" "unat ?cl \<le> 4096 - unat gpa mod 4096"
        by (simp_all add: unat_chunk_len rem)
      have dcl: "unat (don + ?cl) = unat don + unat ?cl" and le: "don + ?cl \<le> len"
        using word_progress[OF True, of ?cl] cl(1) rem chunk_len_pos[of "len - don" gpa]
        by (simp_all add: word_less_nat_alt)
      have IH: "ring_read_loop sh s page0_gpa rsize off len (don + ?cl) (out @ ?b) =
          map_option ((@) (out @ ?b)) (ring_bytes ram (ext s) page0_gpa rsize (off + (don + ?cl))
             (unat len - unat (don + ?cl)))"
        by (rule "1.IH"[OF True _ refl rd "1.prems"(1-4) le]) (simp add: res Some)
      have n: "unat len - unat don = unat ?cl + (unat len - unat (don + ?cl))" using dcl cl(1) by simp
      show ?thesis
        unfolding unfold n ring_bytes_split ring_bytes_chunk[OF Some "1.prems"(3,4) cl(2)]
        using True by (simp add: res Some rd Let_def IH append_fun add.assoc option.map_comp comp_def)
    qed
  qed
qed

lemma ring_read_bytes_ram:
  assumes "ram_law sh ram" "dev s \<noteq> None" "4096 dvd unat rsize" "rsize \<noteq> 0" "len \<noteq> 0"
  shows "lagfx_ring_read_bytes sh page0_gpa rsize off len s =
         ring_bytes ram (ext s) page0_gpa rsize off (unat len)"
proof -
  have "has_read sh s" using assms(2) ram_law_has_read[OF assms(1)] by (auto simp: has_read_def)
  then show ?thesis
    using ring_read_loop_ram[OF assms(1-4), of 0 len page0_gpa off "[]"] assms(5)
    by (cases "ring_bytes ram (ext s) page0_gpa rsize off (unat len)")
       (simp_all add: lagfx_ring_read_bytes_def)
qed

text \<open>Independently of the memory law, a successful read has the requested length.\<close>

lemma ring_read_loop_length:
  "don \<le> len \<Longrightarrow> ring_read_loop sh s page0_gpa rsize off len don out = Some b \<Longrightarrow>
   length b = length out + (unat len - unat don)"
proof (induction sh s page0_gpa rsize off len don out rule: ring_read_loop.induct)
  case (1 sh s page0_gpa rsize off len don out)
  note unfold = ring_read_loop.simps[of sh s page0_gpa rsize off len don out]
  show ?case
  proof (cases "don < len")
    case False
    then have "unat len - unat don = 0" by (simp add: word_less_nat_alt)
    then show ?thesis using False "1.prems"(2) by (subst (asm) unfold) simp
  next
    case True
    then obtain gpa c where g: "lagfx_ring_resolve_data_gpa sh page0_gpa rsize (off + don) s = Some gpa"
      "guest_read sh s gpa (unat (chunk_len gpa (len - don))) = Some c"
      "ring_read_loop sh s page0_gpa rsize off len (don + chunk_len gpa (len - don)) (out @ c) = Some b"
      using "1.prems"(2) by (auto simp: unfold Let_def split: option.splits)
    let ?cl = "chunk_len gpa (len - don)"
    have cl: "unat ?cl \<le> unat len - unat don"
      using True by (simp add: unat_chunk_len unat_sub word_le_nat_alt word_less_nat_alt)
    have dcl: "unat (don + ?cl) = unat don + unat ?cl"
      using cl True unat_bound[of len] by (intro unat_add_small) (auto simp: word_less_nat_alt)
    have le: "don + ?cl \<le> len"
      using cl True dcl by (simp add: word_le_nat_alt word_less_nat_alt)
    have "length b = length (out @ c) + (unat len - unat (don + ?cl))"
      by (rule "1.IH"[OF True g(1) refl g(2) le g(3)])
    then show ?thesis using guest_read_length[OF g(2)] dcl cl by simp
  qed
qed

lemma ring_read_bytes_length:
  "lagfx_ring_read_bytes sh page0_gpa rsize off len s = Some b \<Longrightarrow> length b = unat len"
  using ring_read_loop_length[of 0 len sh s page0_gpa rsize off "[]" b]
  by (auto simp: lagfx_ring_read_bytes_def split: if_splits)

end
