(* ===== verification/Drain.thy ===== *)
theory Drain
  imports HandlerSpec Ring
begin

text \<open>
  What the three channel dispatchers have in common.  A dispatcher is a function from
  a command header to a state change; the locale \<open>dispatcher\<close> is what the drain loops
  rely on.  The compute and display channels share the loop over a page-array ring
  (\<open>vchan_drain\<close>); the root channel's ring is flat and keeps its read pointer in the
  protocol state (\<open>ch0_loop\<close>).
\<close>

unbundle bit_operations_syntax

type_synonym 'g dispatch = "'g shell \<Rightarrow> cmd_header \<Rightarrow> 'g sys \<Rightarrow> 'g sys option"

definition DRAIN_MAX_CMDS :: nat where "DRAIN_MAX_CMDS = 128"

text \<open>The bookkeeping after a command: \<^verbatim>\<open>p->total_cmds_seen++\<close>.\<close>

definition count_cmd :: "'g sys \<Rightarrow> 'g sys" where
  "count_cmd s = s\<lparr>proto := (proto s)\<lparr>total_cmds_seen := total_cmds_seen (proto s) + 1\<rparr>\<rparr>"

subsection \<open>The page-array ring of the virtual channels\<close>

text \<open>The loop returns the read pointer, the number of commands and the state; \<open>n\<close> is the
  number of rounds left.\<close>

fun vchan_loop ::
  "'g dispatch \<Rightarrow> u32 \<Rightarrow> 'g shell \<Rightarrow> u32 \<Rightarrow> u64 \<Rightarrow> u32 \<Rightarrow> nat \<Rightarrow> u32 \<Rightarrow> nat \<Rightarrow> 'g sys \<Rightarrow> (u32 \<times> nat \<times> 'g sys) option" where
  "vchan_loop d rsize sh chan_id page0_gpa wp 0 rp cmds s = Some (rp, cmds, s)"
| "vchan_loop d rsize sh chan_id page0_gpa wp (Suc n) rp cmds s =
     (if rp = wp then Some (rp, cmds, s)
      else case lagfx_ring_read_bytes sh page0_gpa rsize rp LAGFX_CMD_HEADER_BYTES s of
             None \<Rightarrow> Some (rp, cmds, s)
           | Some hdr_buf \<Rightarrow> do {
               w \<leftarrow> parse_header hdr_buf;
               if bad_length (w_length w) rsize then Some (rp, cmds, s)
               else case lagfx_ring_read_bytes sh page0_gpa rsize rp (w_length w) s of
                      None \<Rightarrow> Some (rp, cmds, s)
                    | Some cmd_buf \<Rightarrow> do {
                        s1 \<leftarrow> d sh (derive_header w cmd_buf) s;
                        vchan_loop d rsize sh chan_id page0_gpa wp n (rp + w_length w) (cmds + 1)
                          (count_cmd (lagfx_protocol_complete_stamp_slot sh chan_id (w_stamp w) s1)) } })"

definition vchan_drain :: "'g dispatch \<Rightarrow> u32 \<Rightarrow> 'g shell \<Rightarrow> u32 \<Rightarrow> 'g sys \<Rightarrow> (nat \<times> 'g sys) option" where
  "vchan_drain d rsize sh chan_id s =
     (if \<not> lagfx_protocol_is_valid (proto s) then Some (0, s)
      else case lagfx_ring_fifo_descriptor_read sh chan_id s of
             None \<Rightarrow> Some (0, s)
           | Some (desc_gpa, wp, rp, page0_gpa) \<Rightarrow>
               if wp = rp then Some (0, s)
               else if \<not> has_read sh s then Some (0, s)
               else do {
                 (rp', cmds, s') \<leftarrow> vchan_loop d rsize sh chan_id page0_gpa wp DRAIN_MAX_CMDS rp 0 s;
                 Some (cmds, lagfx_ring_publish_read_ptr sh desc_gpa rp' s') })"

subsection \<open>The flat ring of the root channel\<close>

definition ch0_read :: "'g shell \<Rightarrow> 'g sys \<Rightarrow> u64 \<Rightarrow> u32 \<Rightarrow> u32 \<Rightarrow> u32 \<Rightarrow> bytes option" where
  "ch0_read sh s base rsize rp len =
     (let head_len = rsize - rp; gpa = base + ucast rp in
      if head_len \<ge> len then guest_read sh s gpa (unat len)
      else case guest_read sh s gpa (unat head_len) of None \<Rightarrow> None
           | Some a \<Rightarrow> (case guest_read sh s base (unat (len - head_len)) of None \<Rightarrow> None | Some b \<Rightarrow> Some (a @ b)))"

fun ch0_loop ::
  "'g dispatch \<Rightarrow> 'g shell \<Rightarrow> u64 \<Rightarrow> u32 \<Rightarrow> u32 \<Rightarrow> nat \<Rightarrow> nat \<Rightarrow> 'g sys \<Rightarrow> (nat \<times> 'g sys) option" where
  "ch0_loop d sh base rsize wp 0 cmds s = Some (cmds, s)"
| "ch0_loop d sh base rsize wp (Suc n) cmds s =
     (if read_ptr (proto s) = wp then Some (cmds, s)
      else let rp = read_ptr (proto s) mod rsize in
      case ch0_read sh s base rsize rp LAGFX_CMD_HEADER_BYTES of
        None \<Rightarrow> Some (cmds, s)
      | Some hdr_buf \<Rightarrow> do {
          w \<leftarrow> parse_header hdr_buf;
          if bad_length (w_length w) rsize then Some (cmds, s)
          else case ch0_read sh s base rsize rp (w_length w) of
                 None \<Rightarrow> Some (cmds, s)
               | Some cmd_buf \<Rightarrow> do {
                   s1 \<leftarrow> d sh (derive_header w cmd_buf) s;
                   let s2 = count_cmd (lagfx_protocol_complete_stamp sh (w_stamp w) s1);
                   ch0_loop d sh base rsize wp n (cmds + 1)
                     (s2\<lparr>proto := (proto s2)\<lparr>read_ptr := (rp + w_length w) mod rsize\<rparr>\<rparr>) } })"

definition ch0_drain :: "'g dispatch \<Rightarrow> 'g shell \<Rightarrow> 'g sys \<Rightarrow> (nat \<times> 'g sys) option" where
  "ch0_drain d sh s =
     (let p = proto s in
      if \<not> lagfx_protocol_is_valid p then Some (0, s)
      else if \<not> ring_armed p \<or> ring_size p = 0 \<or> ring_base_gpa p = 0 then Some (0, s)
      else if \<not> has_read sh s then Some (0, s)
      else if read_ptr p = write_ptr p then Some (0, s)
      else ch0_loop d sh (ring_base_gpa p) (ring_size p) (write_ptr p) DRAIN_MAX_CMDS 0 s)"

subsection \<open>What a round reads\<close>

text \<open>The header the handlers see for a command on the wire.\<close>

definition command_header :: "u16 \<Rightarrow> u16 \<Rightarrow> u32 \<Rightarrow> bytes \<Rightarrow> cmd_header" where
  "command_header opcode argc stamp payload =
     \<lparr>hdr_opcode = opcode, hdr_arg_count_8b = argc, hdr_length = of_nat (12 + length payload), hdr_stamp = stamp,
      hdr_payload_size = of_nat (length payload), hdr_payload = (if payload = [] then None else Some payload)\<rparr>"

lemma drop_encode [simp]: "drop 12 (encode_command opcode argc stamp payload) = payload"
  by (simp add: encode_command_def)

lemma length_encode [simp]: "length (encode_command opcode argc stamp payload) = 12 + length payload"
  by (simp add: encode_command_def)

lemma derive_encode:
  assumes "length payload \<le> 4084"
  shows "derive_header \<lparr>w_opcode = opcode, w_arg_count_8b = argc, w_length = of_nat (12 + length payload), w_stamp = stamp\<rparr>
           (encode_command opcode argc stamp payload) = command_header opcode argc stamp payload"
proof -
  have gt: "(of_nat (12 + length payload) > (12 :: u32)) = (payload \<noteq> [])"
    unfolding word_less_nat_alt using assms by (subst unat_of_nat_small) auto
  have sub: "(of_nat (12 + length payload) - 12 :: u32) = of_nat (length payload)" by simp
  have uc: "(ucast (of_nat (length payload) :: u32) :: u16) = of_nat (length payload)"
    using assms by (simp add: word_unat_eq_iff unat_ucast_small unat_of_nat_small)
  have pos: "((of_nat (length payload) :: u16) > 0) = (payload \<noteq> [])"
    using assms by (auto simp: word_less_nat_alt unat_of_nat_small)
  show ?thesis
    unfolding derive_header_def Let_def command_header_def LAGFX_CMD_HEADER_BYTES_def
    using gt sub uc pos by (auto simp: word_less_nat_alt)
qed

lemma encode_length_ok:
  assumes "length payload \<le> 4084" "12 + length payload \<le> unat rsize"
  shows "\<not> bad_length (of_nat (12 + length payload)) rsize" "unat (of_nat (12 + length payload) :: u32) = 12 + length payload"
proof -
  show u: "unat (of_nat (12 + length payload) :: u32) = 12 + length payload"
    using assms(1) by (intro unat_of_nat_small) simp
  show "\<not> bad_length (of_nat (12 + length payload)) rsize"
    unfolding bad_length_def LAGFX_CMD_HEADER_BYTES_def word_less_nat_alt u using assms by simp
qed

lemma ring_bytes_take:
  assumes "ring_bytes ram g page0_gpa rsize rp (c + n) = Some x"
  shows "ring_bytes ram g page0_gpa rsize rp c = Some (take c x)"
proof -
  obtain h t where h: "ring_bytes ram g page0_gpa rsize rp c = Some h" "x = h @ t"
    using assms unfolding ring_bytes_split by (auto elim!: bind_eq_SomeE)
  then have "length h = c" by (auto simp: ring_bytes_def dest: those_length)
  then show ?thesis using h by simp
qed

text \<open>A round on a ring that holds an encoded command dispatches exactly that command,
  completes its stamp and moves on by its length.\<close>

lemma vchan_loop_command:
  assumes "ram_law sh ram" "dev s \<noteq> None" "4096 dvd unat rsize" "rsize \<noteq> 0" "rp \<noteq> wp"
    and "length payload \<le> 4084" "12 + length payload \<le> unat rsize"
    and "ring_bytes ram (ext s) page0_gpa rsize rp (12 + length payload) = Some (encode_command opcode argc stamp payload)"
  shows "vchan_loop d rsize sh chan page0_gpa wp (Suc n) rp cmds s =
     Option.bind (d sh (command_header opcode argc stamp payload) s)
       (\<lambda>s1. vchan_loop d rsize sh chan page0_gpa wp n (rp + of_nat (12 + length payload)) (cmds + 1)
                (count_cmd (lagfx_protocol_complete_stamp_slot sh chan stamp s1)))"
proof -
  let ?c = "encode_command opcode argc stamp payload"
  note ok = encode_length_ok[OF assms(6,7)]
  have nz: "(of_nat (12 + length payload) :: u32) \<noteq> 0" using ok(2) by (metis add_is_0 unat_0 zero_neq_numeral)
  have body: "lagfx_ring_read_bytes sh page0_gpa rsize rp (of_nat (12 + length payload)) s = Some ?c"
    unfolding ring_read_bytes_ram[OF assms(1-4) nz] ok(2) by (rule assms(8))
  have "ring_bytes ram (ext s) page0_gpa rsize rp 12 = Some (take 12 ?c)" by (rule ring_bytes_take[OF assms(8)])
  then have hdr: "lagfx_ring_read_bytes sh page0_gpa rsize rp LAGFX_CMD_HEADER_BYTES s = Some (take 12 ?c)"
    using ring_read_bytes_ram[OF assms(1-4), of 12 page0_gpa rp] by (simp add: LAGFX_CMD_HEADER_BYTES_def)
  show ?thesis
    using assms(5) hdr body ok(1) by (simp add: parse_encode derive_encode[OF assms(6)] del: of_nat_add)
qed

text \<open>The flat ring is read cyclically.\<close>

definition cyclic_bytes :: "('g \<Rightarrow> u64 \<Rightarrow> u8) \<Rightarrow> 'g \<Rightarrow> u64 \<Rightarrow> u32 \<Rightarrow> u32 \<Rightarrow> nat \<Rightarrow> bytes" where
  "cyclic_bytes ram g base rsize rp n = map (\<lambda>i. ram g (base + of_nat ((unat rp + i) mod unat rsize))) [0..<n]"

lemma ch0_read_ram:
  assumes "ram_law sh ram" "dev s \<noteq> None" "rp < rsize" "unat len \<le> unat rsize"
  shows "ch0_read sh s base rsize rp len = Some (cyclic_bytes ram (ext s) base rsize rp (unat len))"
proof -
  have rd: "guest_read sh s a n = Some (map (\<lambda>i. ram (ext s) (a + of_nat i)) [0..<n])" for a n
    using assms(1,2) by (simp add: guest_read_def ram_law_read)
  have lt: "unat rp < unat rsize" using assms(3) by (simp add: word_less_nat_alt)
  have hl: "unat (rsize - rp) = unat rsize - unat rp"
    using lt by (simp add: unat_sub word_le_nat_alt)
  have rpc: "(ucast rp :: u64) = of_nat (unat rp)" by simp
  have head: "map (\<lambda>i. ram (ext s) (base + ucast rp + of_nat i)) [0..<n] = cyclic_bytes ram (ext s) base rsize rp n"
    if "n \<le> unat rsize - unat rp" for n
    unfolding cyclic_bytes_def rpc using that by (intro map_cong) (auto simp: add.assoc)
  show ?thesis
  proof (cases "len \<le> rsize - rp")
    case True
    then have "unat len \<le> unat rsize - unat rp" using hl by (simp add: word_le_nat_alt)
    then show ?thesis using True head by (simp add: ch0_read_def Let_def rd)
  next
    case False
    let ?h = "unat rsize - unat rp"
    have l: "?h < unat len" using False hl by (simp add: word_le_nat_alt)
    have t: "unat (len - (rsize - rp)) = unat len - ?h"
      using False hl by (simp add: unat_sub word_le_nat_alt)
    have tail: "map (\<lambda>i. ram (ext s) (base + of_nat i)) [0..<unat len - ?h] =
        map (\<lambda>i. ram (ext s) (base + of_nat ((unat rp + i) mod unat rsize))) [?h..<unat len]"
      using l lt assms(4) by (intro nth_equalityI) (auto simp: mod_if)
    have "[0..<unat len] = [0..<?h] @ [?h..<unat len]"
      using upt_add_eq_append[of 0 ?h "unat len - ?h"] l by simp
    then have "cyclic_bytes ram (ext s) base rsize rp (unat len) =
        cyclic_bytes ram (ext s) base rsize rp ?h @ map (\<lambda>i. ram (ext s) (base + of_nat i)) [0..<unat len - ?h]"
      unfolding tail by (simp add: cyclic_bytes_def)
    then show ?thesis using False head[of ?h] by (simp add: ch0_read_def Let_def rd hl t)
  qed
qed

lemma ch0_loop_command:
  assumes "ram_law sh ram" "dev s \<noteq> None" "read_ptr (proto s) < rsize" "read_ptr (proto s) \<noteq> wp"
    and "length payload \<le> 4084" "12 + length payload \<le> unat rsize"
    and "cyclic_bytes ram (ext s) base rsize (read_ptr (proto s)) (12 + length payload) = encode_command opcode argc stamp payload"
  shows "ch0_loop d sh base rsize wp (Suc n) cmds s =
     Option.bind (d sh (command_header opcode argc stamp payload) s)
       (\<lambda>s1. let s2 = count_cmd (lagfx_protocol_complete_stamp sh stamp s1) in
          ch0_loop d sh base rsize wp n (cmds + 1) (s2\<lparr>proto := (proto s2)
            \<lparr>read_ptr := (read_ptr (proto s) + of_nat (12 + length payload)) mod rsize\<rparr>\<rparr>))"
proof -
  let ?c = "encode_command opcode argc stamp payload" and ?rp = "read_ptr (proto s)"
  note ok = encode_length_ok[OF assms(5,6)]
  have m: "?rp mod rsize = ?rp" using assms(3) by (simp add: word_unat_eq_iff unat_mod word_less_nat_alt)
  have body: "ch0_read sh s base rsize ?rp (of_nat (12 + length payload)) = Some ?c"
    using ch0_read_ram[OF assms(1-3), of "of_nat (12 + length payload)" base] assms(6,7) unfolding ok(2) by simp
  have "take 12 ?c = cyclic_bytes ram (ext s) base rsize ?rp 12"
    unfolding assms(7)[symmetric] by (simp add: cyclic_bytes_def take_map)
  then have hdr: "ch0_read sh s base rsize ?rp LAGFX_CMD_HEADER_BYTES = Some (take 12 ?c)"
    using ch0_read_ram[OF assms(1-3), of 12 base] assms(6) by (simp add: LAGFX_CMD_HEADER_BYTES_def)
  show ?thesis
    using assms(4) hdr body ok(1) m by (simp add: parse_encode derive_encode[OF assms(5)] Let_def del: of_nat_add)
qed

text \<open>A ring that holds one command.\<close>

lemma ch0_loop_caught_up: "read_ptr (proto s) = wp \<Longrightarrow> ch0_loop d sh base rsize wp n cmds s = Some (cmds, s)"
  by (cases n) simp_all

lemma vchan_loop_caught_up: "vchan_loop d rsize sh chan page0 wp n wp cmds s = Some (wp, cmds, s)"
  by (cases n) simp_all

lemma ch0_drain_single:
  assumes "ram_law sh ram" "dev s \<noteq> None" "lagfx_protocol_is_valid (proto s)" "ring_armed (proto s)"
    and "ring_base_gpa (proto s) \<noteq> 0" "read_ptr (proto s) < ring_size (proto s)"
    and "length payload \<le> 4084" "12 + length payload \<le> unat (ring_size (proto s))"
    and "write_ptr (proto s) = (read_ptr (proto s) + of_nat (12 + length payload)) mod ring_size (proto s)"
    and "write_ptr (proto s) \<noteq> read_ptr (proto s)"
    and "cyclic_bytes ram (ext s) (ring_base_gpa (proto s)) (ring_size (proto s)) (read_ptr (proto s)) (12 + length payload)
           = encode_command opcode argc stamp payload"
  shows "ch0_drain d sh s =
     map_option (\<lambda>s1. let s2 = count_cmd (lagfx_protocol_complete_stamp sh stamp s1)
                      in (1, s2\<lparr>proto := (proto s2)\<lparr>read_ptr := write_ptr (proto s)\<rparr>\<rparr>))
       (d sh (command_header opcode argc stamp payload) s)"
proof -
  let ?wp = "write_ptr (proto s)"
  have g: "has_read sh s" "ring_size (proto s) \<noteq> 0"
    using assms ram_law_has_read[OF assms(1)] by (auto simp: has_read_def)
  have "ch0_loop d sh (ring_base_gpa (proto s)) (ring_size (proto s)) ?wp (Suc 127) 0 s =
     Option.bind (d sh (command_header opcode argc stamp payload) s)
       (\<lambda>s1. let s2 = count_cmd (lagfx_protocol_complete_stamp sh stamp s1) in Some (1, s2\<lparr>proto := (proto s2)\<lparr>read_ptr := ?wp\<rparr>\<rparr>))"
    using ch0_loop_command[OF assms(1,2,6) _ assms(7,8,11), of ?wp d 127 0] assms(9,10)
    by (simp add: Let_def ch0_loop_caught_up)
  then show ?thesis
    using assms(3-6,10) g
    by (simp add: ch0_drain_def Let_def DRAIN_MAX_CMDS_def numeral_eq_Suc split: Option.bind_splits option.split)
qed

lemma vchan_drain_single:
  assumes "ram_law sh ram" "dev s \<noteq> None" "lagfx_protocol_is_valid (proto s)" "4096 dvd unat rsize" "rsize \<noteq> 0"
    and "lagfx_ring_fifo_descriptor_read sh chan s = Some (desc_gpa, rp + of_nat (12 + length payload), rp, page0_gpa)"
    and "length payload \<le> 4084" "12 + length payload \<le> unat rsize"
    and "ring_bytes ram (ext s) page0_gpa rsize rp (12 + length payload) = Some (encode_command opcode argc stamp payload)"
  shows "vchan_drain d rsize sh chan s =
     map_option (\<lambda>s1. (1, lagfx_ring_publish_read_ptr sh desc_gpa (rp + of_nat (12 + length payload))
                             (count_cmd (lagfx_protocol_complete_stamp_slot sh chan stamp s1))))
       (d sh (command_header opcode argc stamp payload) s)"
proof -
  let ?wp = "rp + of_nat (12 + length payload)"
  have g: "has_read sh s" using assms(2) ram_law_has_read[OF assms(1)] by (auto simp: has_read_def)
  have ne: "rp \<noteq> ?wp" using encode_length_ok(2)[OF assms(7,8)] by (metis add_cancel_right_right add_is_0 unat_0 zero_neq_numeral)
  have "vchan_loop d rsize sh chan page0_gpa ?wp (Suc 127) rp 0 s =
     Option.bind (d sh (command_header opcode argc stamp payload) s)
       (\<lambda>s1. Some (?wp, 1, count_cmd (lagfx_protocol_complete_stamp_slot sh chan stamp s1)))"
    unfolding vchan_loop_command[OF assms(1,2,4,5) ne assms(7,8,9)] by (simp add: vchan_loop_caught_up)
  then show ?thesis
    using assms(3,6) g ne
    by (simp add: vchan_drain_def DRAIN_MAX_CMDS_def numeral_eq_Suc split: Option.bind_splits option.split)
qed

subsection \<open>What draining keeps\<close>

text \<open>After \<open>n\<close> commands: the system is well formed, only the read pointer of the ring
  moved, and the counter of commands seen advanced by \<open>n\<close>.\<close>

definition set_rp :: "u32 \<Rightarrow> protocol \<Rightarrow> protocol" where "set_rp r p = p\<lparr>read_ptr := r\<rparr>"

definition drained :: "'g sys \<Rightarrow> nat \<Rightarrow> 'g sys \<Rightarrow> bool" where
  "drained s n s' \<longleftrightarrow> wf_sys s' \<and> geometry (set_rp 0 (proto s')) = geometry (set_rp 0 (proto s)) \<and>
     total_cmds_seen (proto s') = total_cmds_seen (proto s) + of_nat n \<and> (dev s' = None \<longleftrightarrow> dev s = None)"

lemma drained_refl: "wf_sys s \<Longrightarrow> drained s 0 s"
  by (simp add: drained_def)

lemma drained_trans: "drained a n b \<Longrightarrow> drained b m c \<Longrightarrow> drained a (n + m) c"
  by (simp add: drained_def add.assoc)

lemma wf_sys_read_ptr [simp]: "wf_sys (s\<lparr>proto := (proto s)\<lparr>read_ptr := r\<rparr>\<rparr>) = wf_sys s"
  by (simp add: wf_sys_def wf_tables_def)

lemma count_cmd_simps [simp]:
  "wf_sys (count_cmd s) = wf_sys s" "dev (count_cmd s) = dev s" "ext (count_cmd s) = ext s"
  "geometry (proto (count_cmd s)) = geometry (proto s)"
  "total_cmds_seen (proto (count_cmd s)) = total_cmds_seen (proto s) + 1"
  by (simp_all add: count_cmd_def wf_sys_def wf_tables_def geom_simps)

lemma geometry_set_rp: "geometry p = geometry q \<Longrightarrow> geometry (set_rp 0 p) = geometry (set_rp 0 q)"
  by (simp add: geometry_def set_rp_def)

lemma drained_step:
  assumes "wf_sys s1" "frame s s1"
  shows "drained s 1 (count_cmd (lagfx_protocol_complete_stamp_slot sh slot stamp s1))"
    and "drained s 1 ((count_cmd (lagfx_protocol_complete_stamp_slot sh slot stamp s1))
           \<lparr>proto := (proto (count_cmd (lagfx_protocol_complete_stamp_slot sh slot stamp s1)))\<lparr>read_ptr := r\<rparr>\<rparr>)"
proof -
  let ?c = "count_cmd (lagfx_protocol_complete_stamp_slot sh slot stamp s1)"
  show a: "drained s 1 ?c"
    using assms by (auto simp: drained_def frame_def geom_simps wf_complete_slot intro!: geometry_set_rp)
  show "drained s 1 (?c\<lparr>proto := (proto ?c)\<lparr>read_ptr := r\<rparr>\<rparr>)"
    using a by (simp add: drained_def set_rp_def)
qed

locale dispatcher =
  fixes d :: "'g shell \<Rightarrow> cmd_header \<Rightarrow> 'g sys \<Rightarrow> 'g sys option"
  assumes d_keeps: "wf_hdr hdr \<Longrightarrow> wf_sys s \<Longrightarrow> d sh hdr s = Some s' \<Longrightarrow> wf_sys s' \<and> frame s s'"
begin

lemma vchan_loop_drained:
  "wf_sys s \<Longrightarrow> vchan_loop d rsize sh chan page0 wp n rp cmds s = Some (rp', cmds', s') \<Longrightarrow>
   cmds \<le> cmds' \<and> cmds' \<le> cmds + n \<and> drained s (cmds' - cmds) s'"
proof (induction n arbitrary: rp cmds s)
  case 0
  then show ?case by (simp add: drained_refl)
next
  case (Suc n)
  show ?case
  proof (cases "rp' = rp \<and> cmds' = cmds \<and> s' = s")
    case True
    then show ?thesis using Suc.prems(1) by (simp add: drained_refl)
  next
    case False
    then obtain hb w cb s1 where h: "parse_header hb = Some w" "\<not> bad_length (w_length w) rsize"
      "lagfx_ring_read_bytes sh page0 rsize rp (w_length w) s = Some cb"
      "d sh (derive_header w cb) s = Some s1"
      "vchan_loop d rsize sh chan page0 wp n (rp + w_length w) (cmds + 1)
         (count_cmd (lagfx_protocol_complete_stamp_slot sh chan (w_stamp w) s1)) = Some (rp', cmds', s')"
      using Suc.prems(2) by (auto split: if_splits option.splits elim!: bind_eq_SomeE)
    have "wf_hdr (derive_header w cb)"
      using h(2) ring_read_bytes_length[OF h(3)] by (rule derive_header_wf)
    note k = d_keeps[OF this Suc.prems(1) h(4)]
    let ?s2 = "count_cmd (lagfx_protocol_complete_stamp_slot sh chan (w_stamp w) s1)"
    have st: "drained s 1 ?s2" using k by (intro drained_step) auto
    then have r: "cmds + 1 \<le> cmds' \<and> cmds' \<le> cmds + 1 + n \<and> drained ?s2 (cmds' - (cmds + 1)) s'"
      using h(5) by (intro Suc.IH) (auto simp: drained_def)
    moreover have "1 + (cmds' - (cmds + 1)) = cmds' - cmds" using r by linarith
    ultimately show ?thesis using drained_trans[OF st, of "cmds' - (cmds + 1)" s'] by simp
  qed
qed

lemma vchan_drain_drained:
  assumes "wf_sys s" "vchan_drain d rsize sh chan s = Some (n, s')"
  shows "n \<le> 128 \<and> drained s n s'"
proof (cases "n = 0 \<and> s' = s")
  case True
  then show ?thesis using assms(1) by (simp add: drained_refl)
next
  case False
  then obtain page0 wp rp dg rp' s1 where "vchan_loop d rsize sh chan page0 wp 128 rp 0 s = Some (rp', n, s1)"
    "s' = lagfx_ring_publish_read_ptr sh dg rp' s1"
    using assms(2) by (auto simp: vchan_drain_def DRAIN_MAX_CMDS_def split: if_splits option.splits elim!: bind_eq_SomeE)
  then show ?thesis
    using vchan_loop_drained[OF assms(1)] by (fastforce simp: lagfx_ring_publish_read_ptr_def drained_def)
qed

lemma ch0_loop_drained:
  "wf_sys s \<Longrightarrow> rsize \<noteq> 0 \<Longrightarrow> ch0_loop d sh base rsize wp n cmds s = Some (cmds', s') \<Longrightarrow>
   cmds \<le> cmds' \<and> cmds' \<le> cmds + n \<and> drained s (cmds' - cmds) s' \<and>
   (if cmds' = cmds then s' = s else read_ptr (proto s') < rsize)"
proof (induction n arbitrary: cmds s)
  case 0
  then show ?case by (simp add: drained_refl)
next
  case (Suc n)
  show ?case
  proof (cases "cmds' = cmds \<and> s' = s")
    case True
    then show ?thesis using Suc.prems(1) by (simp add: drained_refl)
  next
    case False
    let ?rp = "read_ptr (proto s) mod rsize"
    obtain hb w cb s1 where h: "parse_header hb = Some w" "\<not> bad_length (w_length w) rsize"
      "ch0_read sh s base rsize ?rp (w_length w) = Some cb"
      "d sh (derive_header w cb) s = Some s1"
      "ch0_loop d sh base rsize wp n (cmds + 1)
         ((count_cmd (lagfx_protocol_complete_stamp sh (w_stamp w) s1))\<lparr>proto :=
           (proto (count_cmd (lagfx_protocol_complete_stamp sh (w_stamp w) s1)))
             \<lparr>read_ptr := (?rp + w_length w) mod rsize\<rparr>\<rparr>) = Some (cmds', s')"
      using False Suc.prems(3) by (auto simp: Let_def split: if_splits option.splits elim!: bind_eq_SomeE)
    have "length cb = unat (w_length w)"
      using h(3) by (auto simp: ch0_read_def Let_def unat_sub word_le_nat_alt word_less_nat_alt
          split: if_splits option.splits dest!: guest_read_length)
    with h(2) have "wf_hdr (derive_header w cb)" by (rule derive_header_wf)
    note k = d_keeps[OF this Suc.prems(1) h(4)]
    let ?r = "(?rp + w_length w) mod rsize"
    let ?c = "count_cmd (lagfx_protocol_complete_stamp sh (w_stamp w) s1)"
    let ?s2 = "?c\<lparr>proto := (proto ?c)\<lparr>read_ptr := ?r\<rparr>\<rparr>"
    have st: "drained s 1 ?s2"
      unfolding lagfx_protocol_complete_stamp_def using k by (intro drained_step(2)) auto
    then have r: "cmds + 1 \<le> cmds' \<and> cmds' \<le> cmds + 1 + n \<and> drained ?s2 (cmds' - (cmds + 1)) s' \<and>
        (if cmds' = cmds + 1 then s' = ?s2 else read_ptr (proto s') < rsize)"
      using h(5) Suc.prems(2) by (intro Suc.IH) (auto simp: drained_def)
    moreover have "?r < rsize" using Suc.prems(2) by (simp add: word_less_nat_alt unat_mod word_neq_0_conv)
    moreover have "1 + (cmds' - (cmds + 1)) = cmds' - cmds" using r by linarith
    ultimately show ?thesis using drained_trans[OF st, of "cmds' - (cmds + 1)" s'] by (auto split: if_splits)
  qed
qed

lemma ch0_drain_drained:
  assumes "wf_sys s" "ch0_drain d sh s = Some (n, s')"
  shows "n \<le> 128 \<and> drained s n s' \<and> (if n = 0 then s' = s else read_ptr (proto s') < ring_size (proto s))"
proof (cases "n = 0 \<and> s' = s")
  case True
  then show ?thesis using assms(1) by (simp add: drained_refl)
next
  case False
  then have "ch0_loop d sh (ring_base_gpa (proto s)) (ring_size (proto s)) (write_ptr (proto s)) 128 0 s = Some (n, s')"
    "ring_size (proto s) \<noteq> 0"
    using assms(2) by (auto simp: ch0_drain_def Let_def DRAIN_MAX_CMDS_def split: if_splits)
  from ch0_loop_drained[OF assms(1) this(2,1)] show ?thesis by (auto split: if_splits)
qed

end

text \<open>A dispatcher that never leaves its payload, whatever the command, gives a drain that
  always returns.\<close>

locale total_dispatcher = dispatcher +
  assumes d_total: "wf_hdr hdr \<Longrightarrow> wf_sys s \<Longrightarrow> d sh hdr s \<noteq> None"
begin

lemma vchan_loop_total: "wf_sys s \<Longrightarrow> vchan_loop d rsize sh chan page0 wp n rp cmds s \<noteq> None"
proof (induction n arbitrary: rp cmds s)
  case (Suc n)
  show ?case
  proof (cases "rp = wp \<or> lagfx_ring_read_bytes sh page0 rsize rp LAGFX_CMD_HEADER_BYTES s = None")
    case True
    then show ?thesis by auto
  next
    case False
    then obtain hb where hb: "rp \<noteq> wp" "lagfx_ring_read_bytes sh page0 rsize rp LAGFX_CMD_HEADER_BYTES s = Some hb"
      by auto
    have "length hb = 12" using ring_read_bytes_length[OF hb(2)] by (simp add: LAGFX_CMD_HEADER_BYTES_def)
    then obtain w where w: "parse_header hb = Some w" using parse_header_in[of hb] by auto
    show ?thesis
    proof (cases "bad_length (w_length w) rsize \<or> lagfx_ring_read_bytes sh page0 rsize rp (w_length w) s = None")
      case True
      then show ?thesis using hb w by auto
    next
      case False
      then obtain cb where cb: "\<not> bad_length (w_length w) rsize"
        "lagfx_ring_read_bytes sh page0 rsize rp (w_length w) s = Some cb" by auto
      have wf: "wf_hdr (derive_header w cb)"
        using cb(1) ring_read_bytes_length[OF cb(2)] by (rule derive_header_wf)
      obtain s1 where s1: "d sh (derive_header w cb) s = Some s1" using d_total[OF wf Suc.prems, of sh] by auto
      have "wf_sys (count_cmd (lagfx_protocol_complete_stamp_slot sh chan (w_stamp w) s1))"
        using d_keeps[OF wf Suc.prems s1] by (simp add: wf_complete_slot)
      from Suc.IH[OF this] show ?thesis using hb w cb s1 by simp
    qed
  qed
qed simp

lemma vchan_drain_total:
  assumes "wf_sys s"
  shows "\<exists>n s'. vchan_drain d rsize sh chan s = Some (n, s')"
proof (cases "vchan_drain d rsize sh chan s = Some (0, s)")
  case False
  then obtain q where q: "lagfx_ring_fifo_descriptor_read sh chan s = Some q" "lagfx_protocol_is_valid (proto s)"
    by (auto simp: vchan_drain_def split: option.splits if_splits)
  obtain dg wp rp page0 where "q = (dg, wp, rp, page0)" by (cases q) auto
  moreover obtain rp' n s' where "vchan_loop d rsize sh chan page0 wp DRAIN_MAX_CMDS rp 0 s = Some (rp', n, s')"
    using vchan_loop_total[OF assms, of rsize sh chan page0 wp DRAIN_MAX_CMDS rp 0] by auto
  ultimately show ?thesis using False q by (simp add: vchan_drain_def split: if_splits)
qed auto

end

end
