(* ===== verification/TaskMemory.thy ===== *)
theory TaskMemory
  imports HandlerSpec
begin

text \<open>
  The task, memory-mapping and synchronisation handlers:
  \<^verbatim>\<open>src/handlers/task/task.c\<close>, \<^verbatim>\<open>src/handlers/memory/memory.c\<close>, the first half of
  \<^verbatim>\<open>src/handlers/sync/sync.c\<close> and \<^verbatim>\<open>src/handlers/util/util.c\<close>.  Each is shown to stay
  inside its payload and to keep the tables well formed; a task that was defined
  is found under its identifier, a deleted one is gone together with exactly its
  resources.
\<close>

unbundle bit_operations_syntax

subsection \<open>Defining and deleting tasks\<close>

text \<open>The result of the shell's task creation: handle, base address, new outside state.\<close>

definition shell_create_task :: "'g shell \<Rightarrow> 'g sys \<Rightarrow> u64 \<Rightarrow> u64 \<times> u64 \<times> 'g" where
  "shell_create_task sh s len =
     (if len > 0 \<and> dev s \<noteq> None
      then (case create_task sh of Some ct \<Rightarrow> ct (ext s) len | None \<Rightarrow> (0, 0, ext s))
      else (0, 0, ext s))"

definition lagfx_task_define_task2 :: "'g handler" where
  "lagfx_task_define_task2 sh hdr s =
     (case payload_at_least hdr 24 of
        None \<Rightarrow> Some (LAGFX_HANDLER_ERR_SIZE, s)
      | Some b \<Rightarrow> do {
          task_id \<leftarrow> lagfx_le32 b 0;
          root_va \<leftarrow> lagfx_le64 b 4;
          len \<leftarrow> lagfx_le64 b 12;
          reserved \<leftarrow> lagfx_le32 b 20;
          (case find_or_alloc_task (proto s) task_id of
             None \<Rightarrow> Some (LAGFX_HANDLER_ERR_STATE, s)
           | Some (i, p) \<Rightarrow>
               let (shell_task, base_ptr, g) = shell_create_task sh s len in
               Some (LAGFX_HANDLER_OK, s\<lparr>ext := g, proto :=
                 upd_task i (\<lambda>t. t\<lparr>t_id := task_id, t_shell_task := shell_task,
                   t_base_va := (if root_va \<noteq> 0 then root_va else base_ptr),
                   t_length := ucast len, t_live := True\<rparr>) p\<rparr>)) })"

definition shell_destroy_task :: "'g shell \<Rightarrow> 'g sys \<Rightarrow> u64 \<Rightarrow> 'g" where
  "shell_destroy_task sh s shell_task =
     (if shell_task \<noteq> 0 \<and> dev s \<noteq> None
      then (case destroy_task sh of Some dt \<Rightarrow> dt (ext s) shell_task | None \<Rightarrow> ext s)
      else ext s)"

definition lagfx_task_delete_task :: "'g handler" where
  "lagfx_task_delete_task sh hdr s =
     (case payload_at_least hdr 4 of
        None \<Rightarrow> Some (LAGFX_HANDLER_ERR_SIZE, s)
      | Some b \<Rightarrow> do {
          task_id \<leftarrow> lagfx_le32 b 0;
          (case lagfx_protocol_find_task (proto s) task_id of
             None \<Rightarrow> Some (LAGFX_HANDLER_OK, s)
           | Some i \<Rightarrow>
               let g = shell_destroy_task sh s (t_shell_task (tasks (proto s) ! i));
                   p = (proto s)\<lparr>resources := lagfx_resource_clear_task (resources (proto s)) task_id\<rparr>
               in Some (LAGFX_HANDLER_OK, s\<lparr>ext := g, proto := upd_task i (\<lambda>t. zero_task) p\<rparr>)) })"

subsection \<open>Mapping and unmapping guest memory\<close>

fun read_ranges :: "bytes \<Rightarrow> nat \<Rightarrow> nat \<Rightarrow> (u64 \<times> u64) list option" where
  "read_ranges b i 0 = Some []"
| "read_ranges b i (Suc n) = do {
     gpa \<leftarrow> lagfx_le64 b (20 + 16 * i + 0);
     len \<leftarrow> lagfx_le64 b (20 + 16 * i + 8);
     rest \<leftarrow> read_ranges b (i + 1) n;
     Some ((gpa, len) # rest) }"

definition task_shell_handle :: "protocol \<Rightarrow> u32 \<Rightarrow> u64" where
  "task_shell_handle p task_id =
     (case lagfx_protocol_find_task p task_id of None \<Rightarrow> 0 | Some i \<Rightarrow> t_shell_task (tasks p ! i))"

definition lagfx_memory_map_memory2 :: "'g handler" where
  "lagfx_memory_map_memory2 sh hdr s =
     (case payload_at_least hdr 20 of
        None \<Rightarrow> Some (LAGFX_HANDLER_ERR_SIZE, s)
      | Some b \<Rightarrow> do {
          task_id \<leftarrow> lagfx_le32 b 0;
          virtual_off \<leftarrow> lagfx_le64 b 4;
          read_only \<leftarrow> lagfx_le32 b 12;
          range_count \<leftarrow> lagfx_le32 b 16;
          if range_count > (ucast (hdr_payload_size hdr) - 20) div 16
          then Some (LAGFX_HANDLER_ERR_SIZE, s)
          else if range_count = 0 then Some (LAGFX_HANDLER_OK, s)
          else if range_count > 64 then Some (LAGFX_HANDLER_ERR_SIZE, s)
          else do {
            ranges \<leftarrow> read_ranges b 0 (unat range_count);
            let (ok, g) = (case (dev s, map_memory sh) of
                (Some _, Some mm) \<Rightarrow>
                  mm (ext s) (task_shell_handle (proto s) task_id) virtual_off ranges (read_only AND 1 \<noteq> 0)
              | _ \<Rightarrow> (True, ext s));
            Some (if ok then LAGFX_HANDLER_OK else LAGFX_HANDLER_ERR_STATE, s\<lparr>ext := g\<rparr>) } })"

definition lagfx_memory_unmap_memory :: "'g handler" where
  "lagfx_memory_unmap_memory sh hdr s =
     (case payload_at_least hdr 20 of
        None \<Rightarrow> Some (LAGFX_HANDLER_ERR_SIZE, s)
      | Some b \<Rightarrow> do {
          task_id \<leftarrow> lagfx_le32 b 0;
          virtual_off \<leftarrow> lagfx_le64 b 4;
          len \<leftarrow> lagfx_le64 b 12;
          let (ok, g) = (case (dev s, unmap_memory sh) of
              (Some _, Some um) \<Rightarrow> um (ext s) (task_shell_handle (proto s) task_id) virtual_off len
            | _ \<Rightarrow> (True, ext s));
          Some (if ok then LAGFX_HANDLER_OK else LAGFX_HANDLER_ERR_STATE, s\<lparr>ext := g\<rparr>) })"

subsection \<open>Synchronisation and no-ops\<close>

definition lagfx_sync_synchronize_resources :: "'g handler" where
  "lagfx_sync_synchronize_resources sh hdr s =
     (case payload_at_least hdr 8 of
        None \<Rightarrow> Some (LAGFX_HANDLER_ERR_SIZE, s)
      | Some b \<Rightarrow> do {
          task_id \<leftarrow> lagfx_le32 b 0;
          range_count \<leftarrow> lagfx_le32 b 4;
          if range_count > (ucast (hdr_payload_size hdr) - 8) div 8
          then Some (LAGFX_HANDLER_ERR_SIZE, s)
          else Some (LAGFX_HANDLER_ERR_NOT_IMPLEMENTED, s) })"

definition lagfx_util_nop :: "'g handler" where
  "lagfx_util_nop sh hdr s = Some (LAGFX_HANDLER_OK, s)"

definition lagfx_util_device_info :: "'g handler" where
  "lagfx_util_device_info sh hdr s = Some (LAGFX_HANDLER_ERR_NOT_IMPLEMENTED, s)"

subsection \<open>The contract\<close>

lemma shell_create_split: "(case x of (a, b, c) \<Rightarrow> P a b c) \<longleftrightarrow> P (fst x) (fst (snd x)) (snd (snd x))"
  by (simp split: prod.splits)

lemma wf_task_define [simp]:
  "wf_task (t\<lparr>t_id := a, t_shell_task := b, t_base_va := c, t_length := d, t_live := e\<rparr>) = wf_task t"
  by (simp add: wf_task_def)

lemma define_task2_cases:
  assumes "lagfx_task_define_task2 sh hdr s = Some (st, s')"
  obtains (err) "s' = s" | (ok) i p k f g where "find_or_alloc_task (proto s) k = Some (i, p)"
     "s' = s\<lparr>ext := g, proto := upd_task i f p\<rparr>" "\<And>t. wf_task t \<Longrightarrow> wf_task (f t)" "\<And>t. t_id (f t) = k"
  using assms
  by (fastforce simp: lagfx_task_define_task2_def Let_def split: option.splits prod.splits
      elim!: bind_eq_SomeE)

interpretation define_task2: safe_handler lagfx_task_define_task2
proof
  fix hdr sh and s s' :: "'g sys" and st
  assume h: "wf_sys s" "lagfx_task_define_task2 sh hdr s = Some (st, s')"
  from h(2) show "wf_sys s' \<and> frame s s'"
  proof (cases rule: define_task2_cases)
    case err
    then show ?thesis using h by simp
  next
    case (ok i p k f g)
    have "wf_tables (upd_task i f p)"
      using h(1) ok by (intro wf_tables_define_task) (auto simp: wf_sys_def)
    then show ?thesis
      using h(1) ok find_or_alloc_bound[OF ok(1)] by (simp add: wf_sys_def frame_def)
  qed
next
  fix hdr sh and s :: "'g sys"
  assume "wf_hdr hdr"
  then show "lagfx_task_define_task2 sh hdr s \<noteq> None"
    by (cases "payload_at_least hdr 24")
       (auto simp: lagfx_task_define_task2_def Let_def chk_simps dest!: wf_hdr_payload
         split: option.splits prod.splits)
qed

interpretation delete_task: safe_handler lagfx_task_delete_task
proof
  fix hdr sh and s s' :: "'g sys" and st
  assume h: "wf_sys s" "lagfx_task_delete_task sh hdr s = Some (st, s')"
  show "wf_sys s' \<and> frame s s'"
    using h clear_task_wf[of "resources (proto s)"]
    by (auto simp: lagfx_task_delete_task_def Let_def wf_sys_def frame_def upd_task_def wf_tables_def
        geom_simps intro!: uniq_by_update_dead dest!: set_update_subset_insert[THEN subsetD]
        split: option.splits elim!: bind_eq_SomeE)
next
  fix hdr sh and s :: "'g sys"
  assume "wf_hdr hdr"
  then show "lagfx_task_delete_task sh hdr s \<noteq> None"
    by (cases "payload_at_least hdr 4")
       (auto simp: lagfx_task_delete_task_def Let_def chk_simps dest!: wf_hdr_payload split: option.splits)
qed

text \<open>The count guards bound the array the handler walks.\<close>

lemma count_guard:
  assumes "unat (c :: u32) \<le> unat ((ucast (ps :: u16) - of_nat base :: u32) div of_nat stride)"
    and "base \<le> unat ps" "0 < stride" "stride < 2 ^ 16"
  shows "base + stride * unat c \<le> unat ps"
proof -
  have ps: "unat (ucast ps :: u32) = unat ps" "unat ps < 65536"
    using unat_bound[of ps] by (simp_all add: unat_ucast_small)
  have b: "unat (of_nat base :: u32) = base" "unat (of_nat stride :: u32) = stride"
    using assms(2,4) ps by (simp_all add: unat_of_nat_small)
  have "unat (ucast ps - of_nat base :: u32) = unat ps - base"
    using assms(2) ps b by (simp add: unat_sub word_le_nat_alt)
  then have "unat c \<le> (unat ps - base) div stride"
    using assms(1) b by (simp add: unat_div)
  then have "unat c * stride \<le> unat ps - base"
    using assms(3) by (simp add: less_eq_div_iff_mult_less_eq)
  then show ?thesis using assms(2) by (simp add: mult.commute)
qed

lemma read_ranges_total: "20 + 16 * (i + n) \<le> length b \<Longrightarrow> \<exists>rs. read_ranges b i n = Some rs \<and> length rs = n"
proof (induction n arbitrary: i)
  case (Suc n)
  then have "20 + 16 * ((i + 1) + n) \<le> length b" by simp
  from Suc.IH[OF this] obtain rs where "read_ranges b (i + 1) n = Some rs" "length rs = n" by blast
  then show ?case using Suc.prems by (simp add: chk_simps)
qed simp

lemma read_ranges_nth:
  "read_ranges b i n = Some rs \<Longrightarrow> k < n \<Longrightarrow>
   length rs = n \<and> lagfx_le64 b (20 + 16 * (i + k)) = Some (fst (rs ! k)) \<and>
   lagfx_le64 b (20 + 16 * (i + k) + 8) = Some (snd (rs ! k))"
proof (induction n arbitrary: i k rs)
  case (Suc n)
  from Suc.prems(1) obtain gpa len rest where
    h: "lagfx_le64 b (20 + 16 * i) = Some gpa" "lagfx_le64 b (20 + 16 * i + 8) = Some len"
      "read_ranges b (i + 1) n = Some rest" "rs = (gpa, len) # rest"
    by (auto elim!: bind_eq_SomeE)
  have len: "length rest = n"
    using h(3) Suc.IH[of "i + 1" rest 0] by (cases n) auto
  show ?case
  proof (cases k)
    case 0
    then show ?thesis using h len by simp
  next
    case (Suc j)
    then show ?thesis using Suc.IH[OF h(3), of j] Suc.prems(2) h(4) by (simp add: algebra_simps)
  qed
qed simp

interpretation map_memory2: safe_handler lagfx_memory_map_memory2
proof
  fix hdr sh and s s' :: "'g sys" and st
  assume h: "wf_sys s" "lagfx_memory_map_memory2 sh hdr s = Some (st, s')"
  then show "wf_sys s' \<and> frame s s'"
    by (auto simp: lagfx_memory_map_memory2_def Let_def split: option.splits prod.splits if_splits
        elim!: bind_eq_SomeE)
next
  fix hdr sh and s :: "'g sys"
  assume wf: "wf_hdr hdr"
  show "lagfx_memory_map_memory2 sh hdr s \<noteq> None"
  proof (cases "payload_at_least hdr 20")
    case (Some b)
    note b = wf_hdr_payload[OF wf Some]
    let ?c = "le32_at b 16"
    have "\<exists>rs. read_ranges b 0 (unat ?c) = Some rs"
      if "\<not> ?c > (ucast (hdr_payload_size hdr) - 20) div 16"
      using count_guard[of ?c "hdr_payload_size hdr" 20 16] that b read_ranges_total[of 0 "unat ?c" b]
      by (auto simp: word_less_nat_alt not_less)
    then show ?thesis
      using Some b by (auto simp: lagfx_memory_map_memory2_def Let_def chk_simps split: prod.splits)
  qed (simp add: lagfx_memory_map_memory2_def)
qed

interpretation unmap_memory: safe_handler lagfx_memory_unmap_memory
proof
  fix hdr sh and s s' :: "'g sys" and st
  assume h: "wf_sys s" "lagfx_memory_unmap_memory sh hdr s = Some (st, s')"
  then show "wf_sys s' \<and> frame s s'"
    by (auto simp: lagfx_memory_unmap_memory_def Let_def split: option.splits prod.splits if_splits
        elim!: bind_eq_SomeE)
next
  fix hdr sh and s :: "'g sys"
  assume "wf_hdr hdr"
  then show "lagfx_memory_unmap_memory sh hdr s \<noteq> None"
    by (cases "payload_at_least hdr 20")
       (auto simp: lagfx_memory_unmap_memory_def Let_def chk_simps dest!: wf_hdr_payload split: prod.splits)
qed

interpretation sync_resources: safe_handler lagfx_sync_synchronize_resources
proof
  fix hdr sh and s s' :: "'g sys" and st
  assume h: "wf_sys s" "lagfx_sync_synchronize_resources sh hdr s = Some (st, s')"
  then have "s' = s"
    by (auto simp: lagfx_sync_synchronize_resources_def split: option.splits if_splits elim!: bind_eq_SomeE)
  then show "wf_sys s' \<and> frame s s'" using h(1) by auto
next
  fix hdr sh and s :: "'g sys"
  assume "wf_hdr hdr"
  then show "lagfx_sync_synchronize_resources sh hdr s \<noteq> None"
    by (cases "payload_at_least hdr 8")
       (auto simp: lagfx_sync_synchronize_resources_def chk_simps dest!: wf_hdr_payload)
qed

interpretation util_nop: safe_handler lagfx_util_nop
  by unfold_locales (auto simp: lagfx_util_nop_def)

interpretation util_device_info: safe_handler lagfx_util_device_info
  by unfold_locales (auto simp: lagfx_util_device_info_def)

subsection \<open>Functional behaviour\<close>

lemma upd_task_nth: "i < length (tasks p) \<Longrightarrow> tasks (upd_task i f p) ! i = f (tasks p ! i)"
  by (simp add: upd_task_def)

lemma define_task2_found:
  assumes wf: "wf_sys s" "wf_hdr hdr" and v: "lagfx_protocol_is_valid (proto s)"
    and b: "payload_at_least hdr 24 = Some b"
    and ok: "lagfx_task_define_task2 sh hdr s = Some (LAGFX_HANDLER_OK, s')"
  shows "\<exists>i. lagfx_protocol_find_task (proto s') (le32_at b 0) = Some i \<and>
           t_length (tasks (proto s') ! i) = ucast (le64_at b 12) \<and>
           (le64_at b 4 \<noteq> 0 \<longrightarrow> t_base_va (tasks (proto s') ! i) = le64_at b 4)"
proof -
  note len = wf_hdr_payload[OF wf(2) b]
  obtain i p where f: "find_or_alloc_task (proto s) (le32_at b 0) = Some (i, p)"
    using ok b len by (auto simp: lagfx_task_define_task2_def chk_simps split: option.splits)
  obtain st bp g where sc: "shell_create_task sh s (le64_at b 12) = (st, bp, g)" by (cases "shell_create_task sh s (le64_at b 12)") auto
  let ?f = "\<lambda>t. t\<lparr>t_id := le32_at b 0, t_shell_task := st,
      t_base_va := (if le64_at b 4 \<noteq> 0 then le64_at b 4 else bp), t_length := ucast (le64_at b 12), t_live := True\<rparr>"
  have s': "proto s' = upd_task i ?f p"
    using ok b len f sc by (auto simp: lagfx_task_define_task2_def chk_simps)
  have i: "i < length (tasks p)" using find_or_alloc_bound[OF f] by simp
  have w: "wf_tables (upd_task i ?f p)"
    using wf(1) by (intro wf_tables_define_task[OF _ f]) (auto simp: wf_sys_def)
  have "lagfx_protocol_is_valid p"
    using v valid_geometry[OF find_or_alloc_bound(3)[OF f]] by simp
  then have "lagfx_protocol_find_task (upd_task i ?f p) (le32_at b 0) = Some i"
    using w i by (intro find_task_uniq) (auto simp: wf_tables_def upd_task_nth, simp add: upd_task_def)
  then show ?thesis using i by (auto simp: s' upd_task_nth)
qed

lemma delete_task_gone:
  assumes wf: "wf_sys s" "wf_hdr hdr"
    and b: "payload_at_least hdr 4 = Some b"
    and d: "lagfx_task_delete_task sh hdr s = Some (st, s')"
  shows "lagfx_protocol_find_task (proto s') (le32_at b 0) = None"
proof (cases "lagfx_protocol_find_task (proto s) (le32_at b 0)")
  case None
  then show ?thesis
    using d b wf_hdr_payload[OF wf(2) b] by (auto simp: lagfx_task_delete_task_def chk_simps)
next
  case (Some i)
  note i = find_task_SomeD[OF Some]
  have s': "tasks (proto s') = (tasks (proto s))[i := zero_task]"
    using d b wf_hdr_payload[OF wf(2) b] Some
    by (auto simp: lagfx_task_delete_task_def chk_simps upd_task_def Let_def)
  have "\<not> (t_live t \<and> t_id t = le32_at b 0)" if "t \<in> set (tasks (proto s'))" for t
  proof -
    obtain j where j: "j < length (tasks (proto s))" "t = (tasks (proto s))[i := zero_task] ! j"
      using \<open>t \<in> _\<close> by (auto simp: s' in_set_conv_nth)
    show ?thesis
      using j i wf(1) by (cases "j = i") (auto simp: wf_sys_def wf_tables_def uniq_by_def)
  qed
  then show ?thesis by (auto simp: lagfx_protocol_find_task_def find_index_None_iff)
qed

lemma delete_task_resources:
  assumes wf: "wf_sys s" "wf_hdr hdr"
    and b: "payload_at_least hdr 4 = Some b"
    and d: "lagfx_task_delete_task sh hdr s = Some (st, s')"
    and f: "lagfx_protocol_find_task (proto s) (le32_at b 0) \<noteq> None"
  shows "reg_get (resources (proto s')) k =
           (if snd k = le32_at b 0 then None else reg_get (resources (proto s)) k)"
proof -
  have "resources (proto s') = lagfx_resource_clear_task (resources (proto s)) (le32_at b 0)"
    using d b wf_hdr_payload[OF wf(2) b] f by (auto simp: lagfx_task_delete_task_def chk_simps Let_def)
  then show ?thesis using wf(1) by (simp add: rr.get_clear wf_sys_def)
qed

end
