(* ===== verification/DeviceInfo.thy ===== *)
theory DeviceInfo
  imports HandlerSpec
begin

text \<open>
  The miscellaneous root-channel handlers of \<^verbatim>\<open>src/protocol/ops_misc.c\<close>: no-op, debug,
  the legacy single-value device query and the tag/value device-info reply the
  guest driver reads its capabilities from.  The reply is shown to be decodable:
  walking it the way its documentation describes yields the table the handler
  carries, provided the guest's buffer has room for all of it.
\<close>

unbundle bit_operations_syntax

definition lagfx_op_nop :: "'g handler" where
  "lagfx_op_nop sh hdr s = Some (LAGFX_HANDLER_OK, s)"

text \<open>The debug command logs up to 16 payload bytes; the read is kept, the log is not.\<close>

definition lagfx_op_debug :: "'g handler" where
  "lagfx_op_debug sh hdr s =
     (case hdr_payload hdr of
        None \<Rightarrow> Some (LAGFX_HANDLER_OK, s)
      | Some b \<Rightarrow>
          if hdr_payload_size hdr > 0
          then do { hex \<leftarrow> rd_list b 0 (min (unat (hdr_payload_size hdr)) 16); Some (LAGFX_HANDLER_OK, s) }
          else Some (LAGFX_HANDLER_OK, s))"

definition device_info_value :: "u32 \<Rightarrow> u32" where
  "device_info_value key =
     (if key = 0 then 1 else if key = 1 then of_nat LAGFX_MAX_TASKS
      else if key = 2 then of_nat LAGFX_MAX_FIFOS else 0)"

definition lagfx_op_get_device_info :: "'g handler" where
  "lagfx_op_get_device_info sh hdr s =
     (case payload_at_least hdr 16 of
        None \<Rightarrow> Some (LAGFX_HANDLER_ERR_SIZE, s)
      | Some b \<Rightarrow> do {
          key \<leftarrow> lagfx_le32 b 0;
          lo \<leftarrow> lagfx_le32 b 4;
          hi \<leftarrow> lagfx_le32 b 8;
          flags \<leftarrow> lagfx_le32 b 12;
          let out_offset = (ucast lo :: u64) OR push_bit 32 (ucast hi);
          Some (LAGFX_HANDLER_OK,
            if has_write sh s \<and> out_offset \<noteq> 0
            then snd (guest_write sh s out_offset (le_bytes32 (device_info_value key))) else s) })"

definition device_info_pairs :: "(u32 \<times> u32) list" where
  "device_info_pairs = [
     (0x01, 4), (0x02, 1), (0x03, 1024), (0x04, 1024), (0x05, 1024), (0x06, 32768), (0x07, 1),
     (0x08, 1), (0x09, 0), (0x0a, 0x00020008), (0x0b, 0x7f), (0x0c, 0), (0x0d, 256), (0x0e, 1),
     (0x0f, 256), (0x10, 1), (0x11, 1), (0x12, 0x00020008), (0x13, 0), (0x14, 1), (0x15, 0),
     (0x16, 0), (0x17, 0), (0x18, 0), (0x19, 0), (0x1a, 0), (0x1b, 0), (0x1c, 0), (0x1d, 1024),
     (0x1e, 32768), (0x1f, 32768), (0x20, 256), (0x21, 0), (0x22, 1), (0x23, 2048), (0x24, 0),
     (0x25, 0x10005), (0x26, 1), (0x27, 1024), (0x28, 256), (0x29, 0), (0x00, 0)]"

definition pair_bytes :: "u32 \<times> u32 \<Rightarrow> bytes" where
  "pair_bytes kv = le_bytes32 (fst kv) @ le_bytes32 (snd kv)"

definition device_info_reply :: "u32 \<Rightarrow> bytes" where
  "device_info_reply resp_qwords =
     (let n_pairs = length device_info_pairs;
          emit_pairs = (if n_pairs \<le> unat resp_qwords then n_pairs else unat resp_qwords)
      in concat (map pair_bytes (take emit_pairs device_info_pairs)))"

definition lagfx_op_get_device_info_2 :: "'g handler" where
  "lagfx_op_get_device_info_2 sh hdr s =
     (case payload_at_least hdr 12 of
        None \<Rightarrow> Some (LAGFX_HANDLER_ERR_SIZE, s)
      | Some b \<Rightarrow> do {
          kind \<leftarrow> lagfx_le32 b 0;
          resp_qwords \<leftarrow> lagfx_le32 b 4;
          resp_pfn \<leftarrow> lagfx_le32 b 8;
          let resp_gpa = push_bit 12 (ucast resp_pfn :: u64);
          if \<not> has_write sh s \<or> resp_pfn = 0 then Some (LAGFX_HANDLER_OK, s)
          else let (ok, s') = guest_write sh s resp_gpa (device_info_reply resp_qwords)
               in Some (if ok then LAGFX_HANDLER_OK else LAGFX_HANDLER_ERR_INTERNAL, s') })"

subsection \<open>The contract\<close>

lemma guest_write_pair:
  "guest_write sh s a bs = (ok, s') \<Longrightarrow> wf_sys s' = wf_sys s \<and> frame s s'"
  using wf_sys_guest_write[of sh s a bs] frame_guest_write[of s sh s a bs] by simp

interpretation op_nop: safe_handler lagfx_op_nop
  by unfold_locales (auto simp: lagfx_op_nop_def)

interpretation op_debug: safe_handler lagfx_op_debug
  by unfold_locales
     (auto simp: lagfx_op_debug_def wf_hdr_def rd_list_def split: option.splits if_splits elim!: bind_eq_SomeE)

interpretation op_device_info: safe_handler lagfx_op_get_device_info
proof
  fix hdr sh and s s' :: "'g sys" and st
  assume "wf_sys s" "lagfx_op_get_device_info sh hdr s = Some (st, s')"
  then show "wf_sys s' \<and> frame s s'"
    by (auto simp: lagfx_op_get_device_info_def Let_def split: option.splits if_splits elim!: bind_eq_SomeE)
next
  fix hdr sh and s :: "'g sys"
  assume "wf_hdr hdr"
  then show "lagfx_op_get_device_info sh hdr s \<noteq> None"
    by (cases "payload_at_least hdr 16")
       (auto simp: lagfx_op_get_device_info_def Let_def chk_simps dest!: wf_hdr_payload)
qed

interpretation op_device_info_2: safe_handler lagfx_op_get_device_info_2
proof
  fix hdr sh and s s' :: "'g sys" and st
  assume "wf_sys s" "lagfx_op_get_device_info_2 sh hdr s = Some (st, s')"
  then show "wf_sys s' \<and> frame s s'"
    by (auto simp: lagfx_op_get_device_info_2_def Let_def dest!: guest_write_pair
        split: option.splits if_splits prod.splits elim!: bind_eq_SomeE)
next
  fix hdr sh and s :: "'g sys"
  assume "wf_hdr hdr"
  then show "lagfx_op_get_device_info_2 sh hdr s \<noteq> None"
    by (cases "payload_at_least hdr 12")
       (auto simp: lagfx_op_get_device_info_2_def Let_def chk_simps dest!: wf_hdr_payload split: prod.splits)
qed

subsection \<open>Decoding the reply\<close>

text \<open>The documented walk: pairs of 32-bit words, ending at the first zero key or at
  the capacity.\<close>

fun tlv_parse :: "nat \<Rightarrow> bytes \<Rightarrow> (u32 \<times> u32) list" where
  "tlv_parse 0 b = []"
| "tlv_parse (Suc n) b =
     (case (lagfx_le32 b 0, lagfx_le32 b 4) of
        (Some k, Some v) \<Rightarrow> if k = 0 then [] else (k, v) # tlv_parse n (drop 8 b)
      | _ \<Rightarrow> [])"

lemma tlv_parse_pair:
  "tlv_parse (Suc n) (pair_bytes (k, v) @ r) = (if k = 0 then [] else (k, v) # tlv_parse n r)"
proof -
  have "lagfx_le32 (pair_bytes (k, v) @ r) 0 = Some k"
    using le32_bytes[of 0 "[]" k "le_bytes32 v @ r"] by (simp add: pair_bytes_def)
  moreover have "lagfx_le32 (pair_bytes (k, v) @ r) 4 = Some v"
    using le32_bytes[of 4 "le_bytes32 k" v r] by (simp add: pair_bytes_def)
  moreover have "drop 8 (pair_bytes (k, v) @ r) = r" by (simp add: pair_bytes_def)
  ultimately show ?thesis by simp
qed

lemma tlv_parse_pairs:
  "\<forall>kv\<in>set ps. fst kv \<noteq> 0 \<Longrightarrow> length ps < n \<Longrightarrow>
   tlv_parse n (concat (map pair_bytes (ps @ [(0, v)])) @ r) = ps"
proof (induction ps arbitrary: n)
  case Nil
  then obtain m where "n = Suc m" by (cases n) auto
  then show ?case using tlv_parse_pair[of m 0 v r] by simp
next
  case (Cons kv ps)
  then obtain m where n: "n = Suc m" by (cases n) auto
  show ?case
    using Cons.IH[of m] Cons.prems n
      tlv_parse_pair[of m "fst kv" "snd kv" "concat (map pair_bytes (ps @ [(0, v)])) @ r"]
    by simp
qed

lemma device_info_pairs_shape:
  "device_info_pairs = butlast device_info_pairs @ [(0, 0)]"
  "length device_info_pairs = 42" "length (butlast device_info_pairs) = 41"
  "\<forall>kv\<in>set (butlast device_info_pairs). fst kv \<noteq> 0"
  by (simp_all add: device_info_pairs_def)

lemma device_info_2_guest:
  assumes "ram_law sh ram" "dev s \<noteq> None" "wf_hdr hdr" "payload_at_least hdr 12 = Some b"
    and "le32_at b 8 \<noteq> 0" "42 \<le> unat (le32_at b 4)" "42 \<le> n"
  shows "\<exists>s'. lagfx_op_get_device_info_2 sh hdr s = Some (LAGFX_HANDLER_OK, s') \<and>
     tlv_parse n (map (\<lambda>i. ram (ext s') (push_bit 12 (ucast (le32_at b 8)) + of_nat i)) [0..<336])
       = butlast device_info_pairs"
proof -
  let ?gpa = "push_bit 12 (ucast (le32_at b 8)) :: u64"
  let ?r = "concat (map pair_bytes device_info_pairs)"
  have r: "device_info_reply (le32_at b 4) = ?r"
    using assms(6) device_info_pairs_shape(2) by (simp add: device_info_reply_def)
  have len: "length ?r = 336" by (simp add: device_info_pairs_def pair_bytes_def)
  let ?w = "dma_write sh (ext s) ?gpa ?r"
  have hw: "has_write sh s" using assms(2) ram_law_has_write[OF assms(1)] by (auto simp: has_write_def)
  have ok: "fst ?w" using ram_law_write_ok[OF assms(1)] len by simp
  have "dma_read sh (snd ?w) ?gpa 336 = Some ?r" using ram_law_read_back[OF assms(1), of ?r "ext s" ?gpa] len by simp
  then have rd: "map (\<lambda>i. ram (snd ?w) (?gpa + of_nat i)) [0..<336] = ?r"
    using ram_law_read[OF assms(1), of "snd ?w" ?gpa 336] by simp
  have st: "lagfx_op_get_device_info_2 sh hdr s = Some (LAGFX_HANDLER_OK, s\<lparr>ext := snd ?w\<rparr>)"
    using assms(2,4,5) wf_hdr_payload[OF assms(3,4)] hw ok
    by (auto simp: lagfx_op_get_device_info_2_def chk_simps r guest_write_def Let_def split: prod.splits)
  have "tlv_parse n (concat (map pair_bytes (butlast device_info_pairs @ [(0, 0)])) @ []) = butlast device_info_pairs"
    using assms(7) device_info_pairs_shape(3,4) by (intro tlv_parse_pairs) simp_all
  then have "tlv_parse n ?r = butlast device_info_pairs"
    using device_info_pairs_shape(1) by simp
  then show ?thesis using st rd by (intro exI[of _ "s\<lparr>ext := snd ?w\<rparr>"]) simp
qed

end
