(* ===== verification/IOSurface.thy ===== *)
theory IOSurface
  imports HandlerSpec
begin

text \<open>
  The IOSurface lifecycle handlers of \<^verbatim>\<open>src/handlers/iosurface/iosurface.c\<close> in a build
  without Vulkan: they keep the resource registry in step with the guest's
  surfaces.  Diagnostic dumps that only an environment variable turns on are left
  out.
\<close>

definition lagfx_iosurface_delete_backing2 :: "'g handler" where
  "lagfx_iosurface_delete_backing2 sh hdr s =
     (case payload_at_least hdr 4 of
        None \<Rightarrow> Some (LAGFX_HANDLER_OK, s)
      | Some b \<Rightarrow> do {
          surface_id \<leftarrow> lagfx_le32 b 0;
          task_id \<leftarrow> (if unat (hdr_payload_size hdr) \<ge> 8 then lagfx_le32 b 4 else Some 0);
          (case lagfx_resource_lookup (resources (proto s)) surface_id task_id of
             None \<Rightarrow> Some (LAGFX_HANDLER_OK, s)
           | Some e \<Rightarrow> Some (LAGFX_HANDLER_OK, s\<lparr>proto := (proto s)\<lparr>resources :=
               lagfx_resource_unregister (resources (proto s)) surface_id task_id\<rparr>\<rparr>)) })"

definition lagfx_iosurface_create_backing2 :: "'g handler" where
  "lagfx_iosurface_create_backing2 sh hdr s =
     (case payload_at_least hdr 28 of
        None \<Rightarrow> Some (LAGFX_HANDLER_ERR_SIZE, s)
      | Some b \<Rightarrow> do {
          surface_id \<leftarrow> lagfx_le32 b 0;
          width \<leftarrow> lagfx_le32 b 4;
          height \<leftarrow> lagfx_le32 b 8;
          pixel_format \<leftarrow> lagfx_le32 b 12;
          bytes_per_row \<leftarrow> lagfx_le32 b 16;
          sz \<leftarrow> lagfx_le64 b 20;
          Some (LAGFX_HANDLER_OK, s\<lparr>proto := (proto s)\<lparr>resources :=
            lagfx_resource_register (resources (proto s)) surface_id LAGFX_RESOURCE_TYPE_TEXTURE 0 0 sz\<rparr>\<rparr>) })"

definition lagfx_iosurface_lookup :: "'g handler" where
  "lagfx_iosurface_lookup sh hdr s =
     (case payload_at_least hdr 4 of
        None \<Rightarrow> Some (LAGFX_HANDLER_OK, s)
      | Some b \<Rightarrow> do {
          surface_id \<leftarrow> lagfx_le32 b 0;
          flags \<leftarrow> (if unat (hdr_payload_size hdr) \<ge> 8 then lagfx_le32 b 4 else Some 0);
          size_lo \<leftarrow> (if unat (hdr_payload_size hdr) \<ge> 12 then lagfx_le32 b 8 else Some 0);
          field_hi \<leftarrow> (if unat (hdr_payload_size hdr) \<ge> 16 then lagfx_le32 b 12 else Some 0);
          (case lagfx_resource_lookup (resources (proto s)) surface_id 0 of
             Some e \<Rightarrow> Some (LAGFX_HANDLER_OK, s)
           | None \<Rightarrow> Some (LAGFX_HANDLER_OK, s\<lparr>proto := (proto s)\<lparr>resources :=
               lagfx_resource_register (resources (proto s)) surface_id LAGFX_RESOURCE_TYPE_TEXTURE 0 0 0\<rparr>\<rparr>)) })"

text \<open>The import copies the remote entry's size and host handle.  The remote entry is
  held as a slot of the table across the registration, as the C pointer is.\<close>

definition lagfx_iosurface_import_mach_port :: "'g handler" where
  "lagfx_iosurface_import_mach_port sh hdr s =
     (case payload_at_least hdr 16 of
        None \<Rightarrow> Some (LAGFX_HANDLER_OK, s)
      | Some b \<Rightarrow> do {
          local_task_id \<leftarrow> lagfx_le32 b 0;
          remote_task_id \<leftarrow> lagfx_le32 b 4;
          remote_surface_id \<leftarrow> lagfx_le32 b 8;
          local_surface_id \<leftarrow> lagfx_le32 b 12;
          (case lagfx_resource_lookup (resources (proto s)) remote_surface_id remote_task_id of
             None \<Rightarrow> Some (LAGFX_HANDLER_OK, s)
           | Some remote \<Rightarrow>
               let r = lagfx_resource_register (resources (proto s)) local_surface_id
                         LAGFX_RESOURCE_TYPE_TEXTURE local_task_id 0
                         (re_size (entries (resources (proto s)) ! remote));
                   r' = (case lagfx_resource_lookup r local_surface_id local_task_id of
                           None \<Rightarrow> r
                         | Some local \<Rightarrow> r\<lparr>entries := (entries r)[local := (entries r ! local)
                             \<lparr>re_host_handle := re_host_handle (entries r ! remote)\<rparr>]\<rparr>)
               in Some (LAGFX_HANDLER_OK, s\<lparr>proto := (proto s)\<lparr>resources := r'\<rparr>\<rparr>)) })"

definition lagfx_iosurface_unmap :: "'g handler" where
  "lagfx_iosurface_unmap sh hdr s =
     (case payload_at_least hdr 8 of
        None \<Rightarrow> Some (LAGFX_HANDLER_OK, s)
      | Some b \<Rightarrow> do {
          task_id \<leftarrow> lagfx_le32 b 0;
          surface_id \<leftarrow> lagfx_le32 b 4;
          (case lagfx_resource_lookup (resources (proto s)) surface_id task_id of
             None \<Rightarrow> Some (LAGFX_HANDLER_OK, s)
           | Some e \<Rightarrow> Some (LAGFX_HANDLER_OK, s\<lparr>proto := (proto s)\<lparr>resources :=
               lagfx_resource_unregister (resources (proto s)) surface_id task_id\<rparr>\<rparr>)) })"

subsection \<open>The contract\<close>

lemma wf_registry_upd_handle:
  assumes wf: "wf_registry r" and i: "i < rcount r"
    and k: "\<And>e. res_key (f e) = res_key e"
  shows "wf_registry (r\<lparr>entries := (entries r)[i := f (entries r ! i)]\<rparr>)"
proof -
  have "map res_key ((live r)[i := f (entries r ! i)]) = map res_key (live r)"
    using i k by (simp add: map_update live_def list_update_same_conv nth_list_update_eq)
      (metis (no_types, lifting) i length_map list_update_beyond list_update_id nth_map nth_take not_le)
  then show ?thesis
    using wf i by (auto simp: wf_registry_def live_def take_update_swap)
qed

lemmas ios_wf = register_wf unregister_wf wf_sys_reg_upd frame_reg_upd

lemma opt_read_in [chk_simps]:
  "off + 4 \<le> length b \<or> \<not> c \<Longrightarrow>
   (if c then lagfx_le32 b off else Some 0) = Some (if c then le32_at b off else 0)"
  by (auto simp: chk_simps)

lemma wf_sys_reg: "wf_sys s \<Longrightarrow> wf_registry (resources (proto s))"
  by (simp add: wf_sys_def)

interpretation ios_delete: safe_handler lagfx_iosurface_delete_backing2
proof
  fix hdr sh and s s' :: "'g sys" and st
  assume "wf_sys s" "lagfx_iosurface_delete_backing2 sh hdr s = Some (st, s')"
  then show "wf_sys s' \<and> frame s s'"
    by (auto simp: lagfx_iosurface_delete_backing2_def intro!: ios_wf dest: wf_sys_reg
        split: option.splits elim!: bind_eq_SomeE)
next
  fix hdr sh and s :: "'g sys"
  assume "wf_hdr hdr"
  then show "lagfx_iosurface_delete_backing2 sh hdr s \<noteq> None"
    by (cases "payload_at_least hdr 4")
       (auto simp: lagfx_iosurface_delete_backing2_def chk_simps dest!: wf_hdr_payload split: option.splits)
qed

interpretation ios_create: safe_handler lagfx_iosurface_create_backing2
proof
  fix hdr sh and s s' :: "'g sys" and st
  assume "wf_sys s" "lagfx_iosurface_create_backing2 sh hdr s = Some (st, s')"
  then show "wf_sys s' \<and> frame s s'"
    by (auto simp: lagfx_iosurface_create_backing2_def intro!: ios_wf dest: wf_sys_reg
        split: option.splits elim!: bind_eq_SomeE)
next
  fix hdr sh and s :: "'g sys"
  assume "wf_hdr hdr"
  then show "lagfx_iosurface_create_backing2 sh hdr s \<noteq> None"
    by (cases "payload_at_least hdr 28")
       (auto simp: lagfx_iosurface_create_backing2_def chk_simps dest!: wf_hdr_payload)
qed

interpretation ios_lookup: safe_handler lagfx_iosurface_lookup
proof
  fix hdr sh and s s' :: "'g sys" and st
  assume "wf_sys s" "lagfx_iosurface_lookup sh hdr s = Some (st, s')"
  then show "wf_sys s' \<and> frame s s'"
    by (auto simp: lagfx_iosurface_lookup_def intro!: ios_wf dest: wf_sys_reg
        split: option.splits elim!: bind_eq_SomeE)
next
  fix hdr sh and s :: "'g sys"
  assume "wf_hdr hdr"
  then show "lagfx_iosurface_lookup sh hdr s \<noteq> None"
    by (cases "payload_at_least hdr 4")
       (auto simp: lagfx_iosurface_lookup_def chk_simps dest!: wf_hdr_payload split: option.splits)
qed

interpretation ios_unmap: safe_handler lagfx_iosurface_unmap
proof
  fix hdr sh and s s' :: "'g sys" and st
  assume "wf_sys s" "lagfx_iosurface_unmap sh hdr s = Some (st, s')"
  then show "wf_sys s' \<and> frame s s'"
    by (auto simp: lagfx_iosurface_unmap_def intro!: ios_wf dest: wf_sys_reg
        split: option.splits elim!: bind_eq_SomeE)
next
  fix hdr sh and s :: "'g sys"
  assume "wf_hdr hdr"
  then show "lagfx_iosurface_unmap sh hdr s \<noteq> None"
    by (cases "payload_at_least hdr 8")
       (auto simp: lagfx_iosurface_unmap_def chk_simps dest!: wf_hdr_payload split: option.splits)
qed

interpretation ios_import: safe_handler lagfx_iosurface_import_mach_port
proof
  fix hdr sh and s s' :: "'g sys" and st
  assume "wf_sys s" "lagfx_iosurface_import_mach_port sh hdr s = Some (st, s')"
  then show "wf_sys s' \<and> frame s s'"
    by (auto simp: lagfx_iosurface_import_mach_port_def Let_def res_key_def
        intro!: ios_wf wf_registry_upd_handle dest: wf_sys_reg lookup_SomeD(1)
        split: option.splits elim!: bind_eq_SomeE)
next
  fix hdr sh and s :: "'g sys"
  assume "wf_hdr hdr"
  then show "lagfx_iosurface_import_mach_port sh hdr s \<noteq> None"
    by (cases "payload_at_least hdr 16")
       (auto simp: lagfx_iosurface_import_mach_port_def Let_def chk_simps dest!: wf_hdr_payload split: option.splits)
qed

end
