(* ===== verification/Translate.thy ===== *)
theory Translate
  imports Stamp
begin

text \<open>
  The per-task radix page table, \<^verbatim>\<open>lagfx_task_translate\<close> of
  \<^verbatim>\<open>src/handlers/compute/exec_cmdbuf.c\<close>, which turns an address in a task's virtual space
  into a guest physical address.  The walk is shown to depend on the page number only,
  to keep the offset within the page, and to compute the lookup of an abstract page
  table that lies in guest memory.
\<close>

unbundle bit_operations_syntax

subsection \<open>The walk\<close>

definition read_pte :: "'g shell \<Rightarrow> 'g sys \<Rightarrow> u32 \<Rightarrow> u64 \<Rightarrow> u32 option" where
  "read_pte sh s node_pfn idx =
     (case guest_read sh s (push_bit 12 (ucast node_pfn) + idx * 4) 4 of
        None \<Rightarrow> None
      | Some pte_buf \<Rightarrow> do { pte \<leftarrow> lagfx_le32 pte_buf 0; if pte = 0 then None else Some pte })"

text \<open>The loop, with \<open>k\<close> levels still above the leaf level, that is \<^verbatim>\<open>shift = 10 * k\<close>.\<close>

fun translate_walk :: "'g shell \<Rightarrow> 'g sys \<Rightarrow> u64 \<Rightarrow> nat \<Rightarrow> u32 \<Rightarrow> u64 option" where
  "translate_walk sh s dev_addr 0 node_pfn =
     (case read_pte sh s node_pfn (drop_bit 12 dev_addr AND 0x3ff) of
        None \<Rightarrow> None
      | Some leaf_pte \<Rightarrow> Some (push_bit 12 (ucast (leaf_pte AND 0x7fffffff)) OR (dev_addr AND 0xfff)))"
| "translate_walk sh s dev_addr (Suc k) node_pfn =
     (let shift = 10 * Suc k in
      case read_pte sh s node_pfn (drop_bit shift (drop_bit 12 dev_addr) AND 0x3ff) of
        None \<Rightarrow> None
      | Some pte \<Rightarrow>
          if pte AND 0x80000000 \<noteq> 0
          then Some (push_bit 12 (ucast (pte AND 0x7fffffff)) OR (dev_addr AND (push_bit (shift + 12) 1 - 1)))
          else translate_walk sh s dev_addr k (pte AND 0x7fffffff))"

definition lagfx_task_translate :: "'g shell \<Rightarrow> 'g sys \<Rightarrow> task_entry \<Rightarrow> u64 \<Rightarrow> u64 option" where
  "lagfx_task_translate sh s task dev_addr =
     (if t_root_page_pfn task = 0 \<or> \<not> has_read sh s then None
      else case guest_read sh s (push_bit 12 (t_root_page_pfn task)) 8 of
             None \<Rightarrow> None
           | Some header \<Rightarrow> do {
               l1_pfn \<leftarrow> lagfx_le32 header 0;
               levels \<leftarrow> lagfx_le32 header 4;
               if l1_pfn = 0 \<or> levels = 0 \<or> levels > 4 then None
               else translate_walk sh s dev_addr (unat (levels - 1)) l1_pfn })"

subsection \<open>The page number decides the frame\<close>

text \<open>The same walk on page numbers.  An early leaf keeps the index bits the walk has
  not consumed.\<close>

fun frame_walk :: "'g shell \<Rightarrow> 'g sys \<Rightarrow> u64 \<Rightarrow> nat \<Rightarrow> u32 \<Rightarrow> u64 option" where
  "frame_walk sh s page 0 node_pfn =
     map_option (\<lambda>pte. ucast (pte AND 0x7fffffff)) (read_pte sh s node_pfn (take_bit 10 page))"
| "frame_walk sh s page (Suc k) node_pfn =
     (case read_pte sh s node_pfn (take_bit 10 (drop_bit (10 * Suc k) page)) of
        None \<Rightarrow> None
      | Some pte \<Rightarrow>
          if bit pte 31 then Some (ucast (pte AND 0x7fffffff) OR take_bit (10 * Suc k) page)
          else frame_walk sh s page k (pte AND 0x7fffffff))"

lemma and_3ff: "w AND 0x3ff = take_bit 10 (w :: 'a::len word)"
  by (simp add: take_bit_eq_mask mask_eq_exp_minus_1)

lemma and_fff: "w AND 0xfff = take_bit 12 (w :: 'a::len word)"
  by (simp add: take_bit_eq_mask mask_eq_exp_minus_1)

lemma and_low_mask: "w AND (push_bit n 1 - 1) = take_bit n (w :: 'a::len word)"
  by (simp add: take_bit_eq_mask mask_eq_exp_minus_1 push_bit_eq_mult)

lemma bit_80000000: "bit (0x80000000 :: u32) n \<longleftrightarrow> n = 31"
proof -
  have "(0x80000000 :: u32) = push_bit 31 1" by (simp add: push_bit_eq_mult)
  moreover have "bit (push_bit 31 1 :: u32) n \<longleftrightarrow> n = 31" by (auto simp: bit_simps simp del: push_bit_of_1)
  ultimately show ?thesis by (simp only:)
qed

lemma bit_7fffffff: "bit (0x7fffffff :: u32) n \<longleftrightarrow> n < 31"
proof -
  have "(0x7fffffff :: u32) = mask 31" by (simp add: mask_eq_exp_minus_1)
  moreover have "bit (mask 31 :: u32) n \<longleftrightarrow> n < 31" by (auto simp: bit_simps)
  ultimately show ?thesis by (simp only:)
qed

lemma and_bit31: "(w :: u32) AND 0x80000000 \<noteq> 0 \<longleftrightarrow> bit w 31"
proof -
  have "w AND 0x80000000 = 0 \<longleftrightarrow> (\<forall>n. \<not> bit (w AND 0x80000000) n)"
    by (metis bit_eqI bit_0_eq bot_apply bot_bool_def)
  then show ?thesis unfolding bit_and_iff bit_80000000 by auto
qed

lemma early_leaf_frame:
  "push_bit 12 f OR take_bit (n + 12) va = push_bit 12 (f OR take_bit n (drop_bit 12 va)) OR take_bit 12 (va :: u64)"
  by (rule bit_eqI) (auto simp: bit_simps)

lemma translate_frame_walk:
  "translate_walk sh s va k node_pfn =
     map_option (\<lambda>f. push_bit 12 f OR take_bit 12 va) (frame_walk sh s (drop_bit 12 va) k node_pfn)"
proof (induction k arbitrary: node_pfn)
  case 0
  show ?case by (simp add: and_3ff and_fff option.map_comp comp_def split: option.splits)
next
  case (Suc k)
  show ?case
  proof (cases "read_pte sh s node_pfn (take_bit 10 (drop_bit (10 * Suc k) (drop_bit 12 va)))")
    case None
    then show ?thesis by (simp only: translate_walk.simps frame_walk.simps Let_def and_3ff) simp
  next
    case (Some pte)
    then show ?thesis
      by (simp only: translate_walk.simps frame_walk.simps Let_def and_3ff and_bit31 and_low_mask
          Suc.IH early_leaf_frame option.case if_distrib[of "map_option _"] option.map)
  qed
qed

text \<open>The frame of a page of a task.\<close>

definition task_frame :: "'g shell \<Rightarrow> 'g sys \<Rightarrow> task_entry \<Rightarrow> u64 \<Rightarrow> u64 option" where
  "task_frame sh s task page =
     (if t_root_page_pfn task = 0 then None
      else case guest_read sh s (push_bit 12 (t_root_page_pfn task)) 8 of
             None \<Rightarrow> None
           | Some header \<Rightarrow>
               if le32_at header 0 = 0 \<or> le32_at header 4 = 0 \<or> le32_at header 4 > 4 then None
               else frame_walk sh s page (unat (le32_at header 4 - 1)) (le32_at header 0))"

lemma translate_task_frame:
  "lagfx_task_translate sh s task va =
     map_option (\<lambda>f. push_bit 12 f OR take_bit 12 va) (task_frame sh s task (drop_bit 12 va))"
proof (cases "guest_read sh s (push_bit 12 (t_root_page_pfn task)) 8")
  case None
  then show ?thesis by (simp add: lagfx_task_translate_def task_frame_def)
next
  case (Some h)
  then have "has_read sh s" by (auto simp: guest_read_def has_read_def dma_read_def split: if_splits option.splits)
  moreover have "length h = 8" using guest_read_length[OF Some] .
  ultimately show ?thesis
    using Some by (simp add: lagfx_task_translate_def task_frame_def chk_simps translate_frame_walk)
qed

lemma take_drop_frame:
  "take_bit 12 (push_bit 12 f OR take_bit 12 va) = take_bit 12 (va :: u64)"
  by (rule bit_eqI) (auto simp: bit_simps)

subsection \<open>The abstract page table\<close>

text \<open>A page table entry: nothing, a data frame, or a table of 1024 entries in the page
  with the given number.\<close>

datatype page_table = Absent | Frame u32 | Table u32 "page_table list"

fun pt_lookup :: "nat \<Rightarrow> page_table list \<Rightarrow> u64 \<Rightarrow> u64 option" where
  "pt_lookup 0 es page =
     (case es ! unat (take_bit 10 page) of Frame f \<Rightarrow> Some (ucast f) | _ \<Rightarrow> None)"
| "pt_lookup (Suc k) es page =
     (case es ! unat (take_bit 10 (drop_bit (10 * Suc k) page)) of
        Absent \<Rightarrow> None
      | Frame f \<Rightarrow> Some (ucast f OR take_bit (10 * Suc k) page)
      | Table _ es' \<Rightarrow> pt_lookup k es' page)"

text \<open>The entries of a table lie in guest memory, \<open>k\<close> levels above the leaves.\<close>

definition pte_word :: "page_table \<Rightarrow> u32" where
  "pte_word e = (case e of Absent \<Rightarrow> 0 | Frame f \<Rightarrow> f OR 0x80000000 | Table pfn _ \<Rightarrow> pfn)"

fun pt_in_ram :: "('g \<Rightarrow> u64 \<Rightarrow> u8) \<Rightarrow> 'g \<Rightarrow> nat \<Rightarrow> u32 \<Rightarrow> page_table list \<Rightarrow> bool" where
  "pt_in_ram ram g 0 pfn es \<longleftrightarrow> length es = 1024 \<and>
     (\<forall>i < 1024. ram32 ram g (push_bit 12 (ucast pfn) + of_nat i * 4) = pte_word (es ! i) \<and>
        (case es ! i of Absent \<Rightarrow> True | Frame f \<Rightarrow> \<not> bit f 31 | Table _ _ \<Rightarrow> False))"
| "pt_in_ram ram g (Suc k) pfn es \<longleftrightarrow> length es = 1024 \<and>
     (\<forall>i < 1024. ram32 ram g (push_bit 12 (ucast pfn) + of_nat i * 4) = pte_word (es ! i) \<and>
        (case es ! i of Absent \<Rightarrow> True | Frame f \<Rightarrow> \<not> bit f 31
         | Table pfn' es' \<Rightarrow> pfn' \<noteq> 0 \<and> \<not> bit pfn' 31 \<and> pt_in_ram ram g k pfn' es'))"

lemma read_pte_ram:
  assumes "ram_law sh ram" "dev s \<noteq> None"
  shows "read_pte sh s pfn idx =
    (let v = ram32 ram (ext s) (push_bit 12 (ucast pfn) + idx * 4) in if v = 0 then None else Some v)"
  using assms by (auto simp: read_pte_def guest_read_def ram_law_read ram32_def chk_simps Let_def)

lemma pte_frame_bits:
  assumes "\<not> bit (f :: u32) 31"
  shows "bit (f OR 0x80000000) 31" "(f OR 0x80000000) AND 0x7fffffff = f" "f OR 0x80000000 \<noteq> 0"
    "f AND 0x7fffffff = f"
proof -
  show a: "bit (f OR 0x80000000) 31" unfolding bit_or_iff bit_80000000 by simp
  have k: "bit f i \<Longrightarrow> i < 31" for i
    using assms bit_imp_le_length[of f i] by (cases "i = 31") auto
  show "(f OR 0x80000000) AND 0x7fffffff = f" "f AND 0x7fffffff = f"
    by (rule bit_eqI, unfold bit_and_iff bit_or_iff bit_80000000 bit_7fffffff, auto dest: k)+
  show "f OR 0x80000000 \<noteq> 0" using a by force
qed

lemma take10_bound: "unat (take_bit 10 (p :: u64)) < 1024"
  by (simp only: unsigned_take_bit_eq) (simp add: take_bit_eq_mod)

lemma take10_index: "of_nat (unat (take_bit 10 (p :: u64))) = take_bit 10 p"
  by simp

lemma frame_walk_lookup:
  assumes "ram_law sh ram" "dev s \<noteq> None"
  shows "pt_in_ram ram (ext s) k pfn es \<Longrightarrow> frame_walk sh s page k pfn = pt_lookup k es page"
proof (induction k arbitrary: pfn es)
  case 0
  let ?i = "unat (take_bit 10 page)"
  have e: "ram32 ram (ext s) (push_bit 12 (ucast pfn) + of_nat ?i * 4) = pte_word (es ! ?i) \<and>
      (case es ! ?i of Absent \<Rightarrow> True | Frame f \<Rightarrow> \<not> bit f 31 | Table _ _ \<Rightarrow> False)"
    using 0[unfolded pt_in_ram.simps] take10_bound[of page] by blast
  then have "read_pte sh s pfn (take_bit 10 page) =
      (if pte_word (es ! ?i) = 0 then None else Some (pte_word (es ! ?i)))"
    unfolding take10_index by (simp add: read_pte_ram[OF assms] Let_def)
  then show ?case using e
    by (cases "es ! ?i") (simp_all add: pte_word_def pte_frame_bits)
next
  case (Suc k)
  let ?x = "take_bit 10 (drop_bit (10 * Suc k) page)"
  let ?i = "unat ?x"
  have e: "ram32 ram (ext s) (push_bit 12 (ucast pfn) + of_nat ?i * 4) = pte_word (es ! ?i) \<and>
      (case es ! ?i of Absent \<Rightarrow> True | Frame f \<Rightarrow> \<not> bit f 31
       | Table pfn' es' \<Rightarrow> pfn' \<noteq> 0 \<and> \<not> bit pfn' 31 \<and> pt_in_ram ram (ext s) k pfn' es')"
    using Suc.prems[unfolded pt_in_ram.simps] take10_bound[of "drop_bit (10 * Suc k) page"] by blast
  then have r: "read_pte sh s pfn ?x =
      (if pte_word (es ! ?i) = 0 then None else Some (pte_word (es ! ?i)))"
    unfolding take10_index by (simp only: read_pte_ram[OF assms] Let_def)
  show ?case
  proof (cases "es ! ?i")
    case Absent
    then show ?thesis by (simp only: frame_walk.simps pt_lookup.simps r) (simp add: pte_word_def)
  next
    case (Frame f)
    then show ?thesis using e
      by (simp only: frame_walk.simps pt_lookup.simps r) (simp add: pte_word_def pte_frame_bits)
  next
    case (Table p' es')
    then show ?thesis using e Suc.IH[of p' es']
      by (simp only: frame_walk.simps pt_lookup.simps r) (simp add: pte_word_def pte_frame_bits)
  qed
qed

subsection \<open>Runs of addresses\<close>

text \<open>The bytes behind a run of virtual addresses, one address at a time.\<close>

definition vbytes :: "('g \<Rightarrow> u64 \<Rightarrow> u8) \<Rightarrow> 'g \<Rightarrow> (u64 \<Rightarrow> u64 option) \<Rightarrow> u64 \<Rightarrow> nat \<Rightarrow> bytes option" where
  "vbytes ram g addr va n = those (map (\<lambda>i. map_option (ram g) (addr (va + of_nat i))) [0..<n])"

text \<open>The whole translation, given the tables in guest memory.\<close>

lemma translate_page_table:
  assumes "ram_law sh ram" "dev s \<noteq> None" "t_root_page_pfn task \<noteq> 0"
    and "ram32 ram (ext s) (push_bit 12 (t_root_page_pfn task)) = l1_pfn"
    and "ram32 ram (ext s) (push_bit 12 (t_root_page_pfn task) + 4) = of_nat (Suc k)"
    and "l1_pfn \<noteq> 0" "k < 4" "pt_in_ram ram (ext s) k l1_pfn es"
  shows "lagfx_task_translate sh s task va =
     map_option (\<lambda>f. push_bit 12 f OR take_bit 12 va) (pt_lookup k es (drop_bit 12 va))"
proof -
  let ?a = "push_bit 12 (t_root_page_pfn task)"
  let ?h = "map (\<lambda>i. ram (ext s) (?a + of_nat i)) [0..<8]"
  have rd: "guest_read sh s ?a 8 = Some ?h" using assms(1,2) by (simp add: guest_read_def ram_law_read)
  have h: "has_read sh s" using assms(2) ram_law_has_read[OF assms(1)] by (auto simp: has_read_def)
  have "take 4 ?h = map (\<lambda>i. ram (ext s) (?a + of_nat i)) [0..<4]"
    "take 4 (drop 4 ?h) = map (\<lambda>i. ram (ext s) (?a + 4 + of_nat i)) [0..<4]"
    by (simp_all add: numeral_eq_Suc add.assoc)
  then have l: "lagfx_le32 ?h 0 = Some l1_pfn" "lagfx_le32 ?h 4 = Some (of_nat (Suc k))"
    using assms(4,5) by (simp_all add: ram32_def chk_simps le32_at_def lagfx_le32_def numeral_eq_Suc add.assoc)
  have u: "unat (of_nat (Suc k) :: u32) = Suc k" using assms(7) by (intro unat_of_nat_small) simp
  have lv: "(of_nat (Suc k) :: u32) \<noteq> 0" "\<not> (of_nat (Suc k) :: u32) > 4" "unat (of_nat (Suc k) - 1 :: u32) = k"
    using assms(7) u by (auto simp: word_less_nat_alt word_unat_eq_iff unat_of_nat_small simp del: of_nat_Suc)
       (simp add: unat_of_nat_small)
  have "lagfx_task_translate sh s task va = translate_walk sh s va k l1_pfn"
    using assms(3,6) rd h l lv by (simp add: lagfx_task_translate_def del: of_nat_Suc)
  then show ?thesis
    using frame_walk_lookup[OF assms(1,2,8)] by (simp add: translate_frame_walk)
qed

text \<open>An address map works page by page when the offset within the page survives and
  consecutive addresses of a page have consecutive images.\<close>

locale paged =
  fixes addr :: "u64 \<Rightarrow> u64 option"
  assumes page_offset: "addr va = Some gpa \<Longrightarrow> unat gpa mod 4096 = unat va mod 4096"
    and in_page: "addr va = Some gpa \<Longrightarrow> unat va mod 4096 + i < 4096 \<Longrightarrow> addr (va + of_nat i) = Some (gpa + of_nat i)"
begin

lemma chunk:
  assumes "addr va = Some gpa" "c \<le> 4096 - unat va mod 4096"
  shows "vbytes ram g addr va c = Some (map (\<lambda>i. ram g (gpa + of_nat i)) [0..<c])"
proof -
  have "map (\<lambda>i. map_option (ram g) (addr (va + of_nat i))) [0..<c] =
        map (\<lambda>i. Some (ram g (gpa + of_nat i))) [0..<c]"
    using in_page[OF assms(1)] assms(2) by simp
  then show ?thesis unfolding vbytes_def by (simp only: those_map_Some)
qed

end

lemma vbytes_split:
  "vbytes ram g addr va (c + n) =
     Option.bind (vbytes ram g addr va c) (\<lambda>a. map_option ((@) a) (vbytes ram g addr (va + of_nat c) n))"
proof -
  have "[0..<c + n] = [0..<c] @ map (\<lambda>i. c + i) [0..<n]"
    using upt_add_eq_append[of 0 c n] map_add_upt[of c n] by (simp add: add.commute)
  then show ?thesis by (simp add: vbytes_def those_append comp_def add.assoc)
qed

lemma vbytes_None: "addr va = None \<Longrightarrow> 0 < n \<Longrightarrow> vbytes ram g addr va n = None"
  unfolding vbytes_def by (rule those_NoneI) (auto simp: image_iff intro!: bexI[of _ 0])

lemma unat_frame_offset:
  "unat (push_bit 12 f OR take_bit 12 (va :: u64)) = unat (push_bit 12 f) + unat va mod 4096"
proof -
  have "push_bit 12 f AND take_bit 12 va = 0" by (rule bit_eqI) (auto simp: bit_simps)
  then have sum: "push_bit 12 f OR take_bit 12 va = push_bit 12 f + take_bit 12 va"
    by (simp add: disjunctive_add_eq_or)
  have "push_bit 12 f \<le> push_bit 12 f + take_bit 12 va"
    unfolding sum[symmetric] by (rule le_word_or2)
  then have "unat (push_bit 12 f + take_bit 12 va) = unat (push_bit 12 f) + unat (take_bit 12 va)"
    by (simp only: unat_plus_simple)
  moreover have "unat (take_bit 12 va) = unat va mod 4096"
    by (simp only: unsigned_take_bit_eq) (simp add: take_bit_eq_mod)
  ultimately show ?thesis by (simp only: sum)
qed

lemma unat_push12_mod: "unat (push_bit 12 (f :: u64)) mod 4096 = 0"
proof -
  have "take_bit 12 (push_bit 12 f) = 0" by (rule bit_eqI) (auto simp: bit_simps)
  then have "unat (take_bit 12 (push_bit 12 f)) = 0" by (simp only: unsigned_0)
  then show ?thesis by (simp only: unsigned_take_bit_eq) (simp add: take_bit_eq_mod)
qed

lemma unat_add_in_page:
  assumes "unat (w :: u64) mod 4096 + i < 4096"
  shows "unat (w + of_nat i) = unat w + i"
proof -
  have i: "unat (of_nat i :: u64) = i" using assms by (simp add: unat_of_nat_small)
  have "unat w div 4096 < 4503599627370496" using unat_bound[of w] by (simp add: less_mult_imp_div_less)
  moreover have "unat w = unat w div 4096 * 4096 + unat w mod 4096" by simp
  ultimately have "unat w + i < 18446744073709551616" using assms by linarith
  then show ?thesis using i by (subst unat_add_small) auto
qed

lemma drop12_in_page:
  assumes "unat (w :: u64) mod 4096 + i < 4096"
  shows "drop_bit 12 (w + of_nat i) = drop_bit 12 w"
proof -
  have "unat (drop_bit 12 (w + of_nat i)) = unat (drop_bit 12 w)"
    unfolding unat_drop_bit unat_add_in_page[OF assms] using div_add_in_page[OF assms] by simp
  then show ?thesis by (simp only: word_unat_eq_iff)
qed

text \<open>The radix table is such a map.\<close>

interpretation radix: paged "lagfx_task_translate sh s task" for sh :: "'g shell" and s task
proof (unfold_locales, goal_cases)
  case (1 va gpa)
  then show ?case by (auto simp: translate_task_frame unat_frame_offset mod_add_left_eq[symmetric] unat_push12_mod)
next
  case (2 va gpa i)
  then obtain f where f: "task_frame sh s task (drop_bit 12 va) = Some f"
      "gpa = push_bit 12 f OR take_bit 12 va"
    by (auto simp: translate_task_frame)
  have m: "unat gpa mod 4096 = unat va mod 4096"
    by (simp add: f(2) unat_frame_offset mod_add_left_eq[symmetric] unat_push12_mod)
  have "unat (va + of_nat i) mod 4096 = unat va mod 4096 + i"
    using mod_add_in_page[of 4096 "unat va" i] 2(2) by (simp add: unat_add_in_page)
  then have "unat (push_bit 12 f OR take_bit 12 (va + of_nat i)) = unat (gpa + of_nat i)"
    using 2(2) m by (simp add: unat_frame_offset unat_add_in_page f(2))
  then show ?case by (simp only: translate_task_frame drop12_in_page[OF 2(2)] f(1) option.map option.inject word_unat_eq_iff)
qed

end
