(* ===== verification/InfoReplies.thy ===== *)
theory InfoReplies
  imports Translate HandlerSpec
begin

text \<open>
  The InfoDecoder replies of \<^verbatim>\<open>src/handlers/compute/info_replies.c\<close>: inner opcodes
  0x1c2 to 0x1d0 ask for the properties of a pipeline state or a resource, and the host
  writes a small reply into a buffer the guest named by its index in the outer resource
  table.

  The outer resource table is the pair of the payload and the offset at which the table
  starts in it, \<^const>\<open>None\<close> for a NULL pointer; an access outside the payload is
  \<^const>\<open>None\<close>, as everywhere.
\<close>

unbundle bit_operations_syntax

type_synonym resource_table = "(bytes \<times> nat) option"

text \<open>What a request asks for: buffer index, offset in the buffer, reply size and the
  32-byte reply buffer.  The inner option is the C flag \<^verbatim>\<open>have_triplet\<close>.\<close>

type_synonym info_request = "(u32 \<times> u64 \<times> nat \<times> bytes) option"

definition triplet :: "bytes \<Rightarrow> nat \<Rightarrow> nat \<Rightarrow> nat \<Rightarrow> bytes \<Rightarrow> info_request option" where
  "triplet body id_at off_at reply_size reply = do {
     buffer_id \<leftarrow> lagfx_le32 body id_at;
     reply_offset \<leftarrow> lagfx_le64 body off_at;
     Some (Some (buffer_id, reply_offset, reply_size, reply)) }"

definition reply0 :: bytes where "reply0 = replicate 32 0"

definition info_decode :: "u32 \<Rightarrow> bytes \<Rightarrow> info_request option" where
  "info_decode inner_opcode body =
     (if inner_opcode = 0x1c2 then
        if length body \<ge> 16 then do {
          r \<leftarrow> lagfx_put_le32 reply0 0 1024;
          r \<leftarrow> lagfx_put_le32 r 8 32;
          triplet body 4 8 0x1c r }
        else Some None
      else if inner_opcode = 0x1c3 then
        if length body \<ge> 0x2c then do {
          r \<leftarrow> lagfx_put_le64 reply0 0 4096;
          r \<leftarrow> lagfx_put_le64 r 8 4096;
          triplet body 0x20 0x24 0x10 r }
        else Some None
      else if inner_opcode = 0x1c4 then
        if length body \<ge> 0x18 then triplet body 4 8 0x14 reply0 else Some None
      else if inner_opcode = 0x1c5 then Some None
      else if inner_opcode = 0x1c6 \<or> inner_opcode = 0x1c7 then
        if length body \<ge> 0x1c then do {
          coord \<leftarrow> rd_list body 0x14 8;
          r \<leftarrow> wr_list reply0 0 coord;
          triplet body 4 8 8 r }
        else Some None
      else if inner_opcode = 0x1c8 then Some None
      else if inner_opcode = 0x1c9 then
        if length body \<ge> 16 then do {
          r \<leftarrow> lagfx_put_le32 reply0 0 1024;
          triplet body 4 8 0xc r }
        else Some None
      else if inner_opcode = 0x1ca \<or> inner_opcode = 0x1cb then
        if length body \<ge> 0x28 then triplet body 0x1c 0x20 4 reply0 else Some None
      else if inner_opcode = 0x1cc then
        if length body \<ge> 0x14 then do {
          ref \<leftarrow> lagfx_le32 body 0;
          r \<leftarrow> lagfx_put_le32 reply0 0 ref;
          triplet body 8 0xc 8 r }
        else Some None
      else if inner_opcode = 0x1cd \<or> inner_opcode = 0x1cf then
        if length body \<ge> 16 then triplet body 4 8 8 reply0 else Some None
      else if inner_opcode = 0x1ce \<or> inner_opcode = 0x1d0 then
        if length body \<ge> 16 then triplet body 4 8 0x10 reply0 else Some None
      else Some None)"

text \<open>The guard against a zero \<^verbatim>\<open>threadExecutionWidth\<close>.\<close>

definition guard_width :: "u32 \<Rightarrow> nat \<Rightarrow> bytes \<Rightarrow> bytes option" where
  "guard_width inner_opcode reply_size reply =
     (if inner_opcode = 0x1c2 \<and> reply_size \<ge> 12 then do {
        tew \<leftarrow> lagfx_le32 reply 8;
        if tew = 0 then lagfx_put_le32 reply 8 32 else Some reply }
      else Some reply)"

definition lagfx_info_dispatch ::
  "'g shell \<Rightarrow> u32 \<Rightarrow> bytes \<Rightarrow> resource_table \<Rightarrow> u32 \<Rightarrow> task_entry option \<Rightarrow>
   ('g shell \<Rightarrow> 'g sys \<Rightarrow> task_entry \<Rightarrow> u64 \<Rightarrow> u64 option) \<Rightarrow> 'g sys \<Rightarrow> 'g sys option" where
  "lagfx_info_dispatch sh inner_opcode body outer_resources resource_count task translate s =
     (if dev s = None \<or> write_memory sh = None then Some s
      else do {
        req \<leftarrow> info_decode inner_opcode body;
        case req of None \<Rightarrow> Some s
        | Some (buffer_id, reply_offset, reply_size, reply) \<Rightarrow> do {
            reply \<leftarrow> guard_width inner_opcode reply_size reply;
            if buffer_id \<ge> resource_count then Some s
            else case outer_resources of None \<Rightarrow> Some s
            | Some (payload, base) \<Rightarrow> do {
                let brec = base + unat buffer_id * 16;
                buffer_dev_addr \<leftarrow> lagfx_le64 payload brec;
                buffer_len \<leftarrow> lagfx_le32 payload (brec + 8);
                if reply_offset + of_nat reply_size > (ucast buffer_len :: u64) then Some s
                else do {
                  let target_dev_addr = buffer_dev_addr + reply_offset;
                  let target_gpa = (case (case task of None \<Rightarrow> None
                                          | Some t \<Rightarrow> translate sh s t target_dev_addr) of
                                      None \<Rightarrow> target_dev_addr | Some gpa \<Rightarrow> gpa);
                  Some (snd (guest_write sh s target_gpa (take reply_size reply))) } } } })"

subsection \<open>Decoding\<close>

lemma reply0_length [simp]: "length reply0 = 32"
  by (simp add: reply0_def)

lemma info_decode_total: "\<exists>r. info_decode inner_opcode body = Some r"
  by (simp add: info_decode_def triplet_def chk_simps patch_simps)

text \<open>Every reply fits in the reply buffer.\<close>

lemma info_decode_size:
  "info_decode inner_opcode body = Some (Some (bid, off, n, r)) \<Longrightarrow> length r = 32 \<and> 0 < n \<and> n \<le> 32"
  by (auto simp: info_decode_def triplet_def chk_simps patch_simps split: if_splits)

text \<open>The reply to the compute-pipeline query, in full.\<close>

lemma info_decode_1c2:
  assumes "length body = 16"
  shows "\<exists>r. info_decode 0x1c2 body = Some (Some (le32_at body 4, le64_at body 8, 0x1c, r)) \<and>
     guard_width 0x1c2 0x1c r = Some r \<and> r ! 1 = 4"
proof -
  have "\<exists>r. lagfx_put_le32 reply0 0 1024 = Some r \<and> length r = 32 \<and> r ! 1 = 4"
    by (simp add: reply0_def put_le32_eq le_bytes32_def)
  then obtain r1 where r1: "lagfx_put_le32 reply0 0 1024 = Some r1" "length r1 = 32" "r1 ! 1 = 4" by blast
  let ?r = "patch r1 8 (le_bytes32 32)"
  have r2: "lagfx_put_le32 r1 8 32 = Some ?r" using r1(2) by (simp add: wr_patch)
  have "rd8 ?r 1 = rd8 r1 1" using r1(2) by (intro rd8_patch_other) auto
  then have "?r ! 1 = 4" using r1 by simp
  moreover have "guard_width 0x1c2 0x1c ?r = Some ?r"
    using r1(2) by (simp add: guard_width_def le_patch_same)
  ultimately show ?thesis
    using assms r1 r2 by (intro exI[of _ ?r]) (simp add: info_decode_def triplet_def chk_simps)
qed

lemma guard_width_total: "length r = 32 \<Longrightarrow> \<exists>r'. guard_width op n r = Some r' \<and> length r' = 32"
  by (simp add: guard_width_def chk_simps patch_simps)

text \<open>A request never touches the protocol state, and runs within the payload when the
  resource table does.\<close>

lemma info_dispatch_total:
  assumes "\<And>payload base. res = Some (payload, base) \<Longrightarrow> base + 16 * unat rc \<le> length payload"
  shows "\<exists>s'. lagfx_info_dispatch sh op body res rc task tr s = Some s'"
proof -
  obtain r where d: "info_decode op body = Some r" using info_decode_total by blast
  show ?thesis
  proof (cases r)
    case None
    then show ?thesis using d by (simp add: lagfx_info_dispatch_def)
  next
    case (Some q)
    then obtain bid off n rb where r: "r = Some (bid, off, n, rb)" by (cases q) auto
    then obtain rb' where g: "guard_width op n rb = Some rb'"
      using info_decode_size d guard_width_total by blast
    show ?thesis
    proof (cases "bid < rc")
      case False
      then show ?thesis using d r g by (simp add: lagfx_info_dispatch_def not_less)
    next
      case True
      then have "unat bid < unat rc" by (simp add: word_less_nat_alt)
      then have "base + unat bid * 16 + 16 \<le> length payload" if "res = Some (payload, base)" for payload base
        using assms[OF that] by simp
      then show ?thesis
        using d r g True by (auto simp: lagfx_info_dispatch_def chk_simps Let_def split: option.split)
    qed
  qed
qed

lemma info_dispatch_keeps:
  assumes "lagfx_info_dispatch sh op body res rc task tr s = Some s'"
  shows "proto s' = proto s" "dev s' = dev s"
  using assms
  by (auto simp: lagfx_info_dispatch_def Let_def split: if_splits option.splits elim!: bind_eq_SomeE)

subsection \<open>The reply reaches the guest\<close>

text \<open>The functional behaviour when the buffer index is in range and the reply fits: the
  reply bytes are stored at the translated address.\<close>

lemma info_dispatch_reply:
  assumes "ram_law sh ram" "dev s \<noteq> None"
    and d: "info_decode op body = Some (Some (bid, off, n, r))" "guard_width op n r = Some r'"
    and b: "bid < rc" "base + 16 * unat rc \<le> length payload"
    and fits: "off + of_nat n \<le> (ucast (le32_at payload (base + unat bid * 16 + 8)) :: u64)"
    and t: "tr sh s t (le64_at payload (base + unat bid * 16) + off) = Some gpa"
  shows "\<exists>s'. lagfx_info_dispatch sh op body (Some (payload, base)) rc (Some t) tr s = Some s' \<and>
     proto s' = proto s \<and> dev s' = dev s \<and>
     (\<forall>a. ram (ext s') a = (if unat (a - gpa) < n then r' ! unat (a - gpa) else ram (ext s) a))"
proof -
  have "unat bid < unat rc" using b(1) by (simp add: word_less_nat_alt)
  then have i: "base + unat bid * 16 + 16 \<le> length payload" using b(2) by simp
  have sz: "n \<le> 32" "length r = 32" using info_decode_size[OF d(1)] by auto
  have len: "length r' = 32" using guard_width_total[OF sz(2), of op n] d(2) by simp
  let ?s' = "snd (guest_write sh s gpa (take n r'))"
  obtain wr dv where w: "write_memory sh = Some wr" "dev s = Some dv"
    using ram_law_has_write[OF assms(1)] assms(2) by auto
  have e: "lagfx_info_dispatch sh op body (Some (payload, base)) rc (Some t) tr s = Some ?s'"
    using w d b(1) fits t i
    by (simp add: lagfx_info_dispatch_def chk_simps Let_def not_le[symmetric] del: not_le)
  have l: "length (take n r') = n" using len sz by simp
  have "ext ?s' = snd (dma_write sh (ext s) gpa (take n r'))"
    using w(2) by (simp add: guest_write_def split: prod.splits)
  then have "ram (ext ?s') a = (if unat (a - gpa) < n then r' ! unat (a - gpa) else ram (ext s) a)" for a
    using ram_law_write[OF assms(1), of "take n r'" "ext s" gpa a] l len sz by simp
  then show ?thesis using e by auto
qed

end
