(* ===== verification/InnerSpec.thy ===== *)
theory InnerSpec
  imports HandlerSpec
begin

text \<open>
  The contract of the inner opcodes that a command buffer carries.  Whatever bytes
  the guest put in the body, an inner operation runs within the body, keeps the
  system well formed and leaves alone what the walker of the command buffer and the
  outer dispatchers depend on: the ring, the resource registry and the identity of
  every task.
\<close>

text \<open>What identifies a task slot: the fields that only the task and memory commands
  may change.\<close>

definition task_identity :: "task_entry \<Rightarrow> bool \<times> u32 \<times> u64 \<times> u32 \<times> u64 \<times> u32" where
  "task_identity t = (t_live t, t_id t, t_root_page_pfn t, t_heap_pfn t, t_shell_task t, t_length t)"

definition inner_frame :: "'g sys \<Rightarrow> 'g sys \<Rightarrow> bool" where
  "inner_frame s s' \<longleftrightarrow> frame s s' \<and> dev s' = dev s \<and> resources (proto s') = resources (proto s) \<and>
     map task_identity (tasks (proto s')) = map task_identity (tasks (proto s))"

lemma inner_frame_refl [simp]: "inner_frame s s"
  by (simp add: inner_frame_def)

lemma inner_frame_trans: "inner_frame a b \<Longrightarrow> inner_frame b c \<Longrightarrow> inner_frame a c"
  by (auto simp: inner_frame_def intro: frame_trans)

lemma inner_frame_frame: "inner_frame s s' \<Longrightarrow> frame s s'"
  by (simp add: inner_frame_def)

lemma inner_frame_proto_dev:
  "proto s' = proto s \<Longrightarrow> dev s' = dev s \<Longrightarrow> wf_sys s \<Longrightarrow> wf_sys s' \<and> inner_frame s s'"
  by (simp add: inner_frame_def frame_def wf_sys_def)

locale inner_op =
  fixes op :: "'g shell \<Rightarrow> u32 \<Rightarrow> bytes \<Rightarrow> 'g sys \<Rightarrow> (nat \<times> 'g sys) option"
  assumes safe: "wf_sys s \<Longrightarrow> \<exists>r s'. op sh k body s = Some (r, s') \<and> wf_sys s' \<and> inner_frame s s'"
begin

lemma run: "wf_sys s \<Longrightarrow> \<exists>s'. map_option snd (op sh k body s) = Some s' \<and> wf_sys s' \<and> inner_frame s s'"
  using safe[of s sh k body] by auto

end

text \<open>The slot an inner operation addresses: the source takes the task id as the index
  into the task table.\<close>

definition live_task :: "u32 \<Rightarrow> 'g sys \<Rightarrow> nat option" where
  "live_task task_id s =
     (if task_id \<ge> 64 then None
      else if t_live (tasks (proto s) ! unat task_id) then Some (unat task_id) else None)"

text \<open>\<^verbatim>\<open>return 1\<close> without a live task, otherwise change the task and \<^verbatim>\<open>return 0\<close>.\<close>

definition on_task :: "u32 \<Rightarrow> (task_entry \<Rightarrow> task_entry) \<Rightarrow> 'g sys \<Rightarrow> (nat \<times> 'g sys) option" where
  "on_task task_id f s =
     (case live_task task_id s of None \<Rightarrow> Some (1, s)
      | Some i \<Rightarrow> Some (0, s\<lparr>proto := upd_task i f (proto s)\<rparr>))"

lemma live_task_bound: "live_task k s = Some i \<Longrightarrow> i < 64 \<and> t_live (tasks (proto s) ! i) \<and> i = unat k"
  by (auto simp: live_task_def not_le word_less_nat_alt split: if_splits)

text \<open>A change of a task that keeps the task well formed and its identity.\<close>

definition benign :: "(task_entry \<Rightarrow> task_entry) \<Rightarrow> bool" where
  "benign f \<longleftrightarrow> (\<forall>t. wf_task t \<longrightarrow> wf_task (f t) \<and> task_identity (f t) = task_identity t)"

lemma upd_task_inner:
  assumes "wf_sys s" "i < 64" "benign f"
  shows "wf_sys (s\<lparr>proto := upd_task i f (proto s)\<rparr>) \<and> inner_frame s (s\<lparr>proto := upd_task i f (proto s)\<rparr>)"
proof -
  have len: "i < length (tasks (proto s))" and wt: "wf_task (tasks (proto s) ! i)"
    using assms(1,2) by (auto simp: wf_sys_def wf_tables_def)
  then have f: "wf_task (f (tasks (proto s) ! i))" "task_identity (f (tasks (proto s) ! i)) = task_identity (tasks (proto s) ! i)"
    using assms(3) by (auto simp: benign_def)
  have "wf_tables (upd_task i f (proto s))"
    using assms(1) len f by (intro wf_tables_upd_task) (auto simp: wf_sys_def task_identity_def)
  moreover have "map task_identity (tasks (upd_task i f (proto s))) = map task_identity (tasks (proto s))"
    using f(2) len list_update_id[of "map task_identity (tasks (proto s))" i]
    by (simp add: upd_task_def map_update)
  ultimately show ?thesis
    using assms(1) by (simp add: wf_sys_def inner_frame_def frame_def)
qed

lemma on_task_safe:
  "wf_sys s \<Longrightarrow> benign f \<Longrightarrow> \<exists>r s'. on_task k f s = Some (r, s') \<and> wf_sys s' \<and> inner_frame s s'"
  using upd_task_inner[of s _ f] live_task_bound[of k s]
  by (cases "live_task k s") (auto simp: on_task_def)

end
