(* ===== verification/ObjectResolver.thy ===== *)
theory ObjectResolver
  imports Translate
begin

text \<open>
  The object heap of a task, \<^verbatim>\<open>src/protocol/object_resolver.c\<close>: a heap of 12-byte slots
  in the task's virtual space maps an object id to a type and the address of the
  object's bytes.  The resolvers walk the radix page table for every address they
  follow.  The page-wise virtual read is shown to return the bytes a
  byte-at-a-time translation finds.
\<close>

unbundle bit_operations_syntax

subsection \<open>Slots\<close>

definition LAGFX_APV_TYPE_FUNCTION :: u8 where "LAGFX_APV_TYPE_FUNCTION = 0x06"
definition LAGFX_APV_TYPE_PIPELINE :: u8 where "LAGFX_APV_TYPE_PIPELINE = 0x07"

definition slot_va_for :: "u64 \<Rightarrow> u32 \<Rightarrow> u64" where
  "slot_va_for heap_pfn object_id = push_bit 12 heap_pfn + ucast object_id * 12"

definition read_u64_via_shell :: "'g shell \<Rightarrow> 'g sys \<Rightarrow> u64 \<Rightarrow> u64 option" where
  "read_u64_via_shell sh s gpa = do { buf \<leftarrow> guest_read sh s gpa 8; lagfx_le64 buf 0 }"

definition read_u32_via_shell :: "'g shell \<Rightarrow> 'g sys \<Rightarrow> u64 \<Rightarrow> u32 option" where
  "read_u32_via_shell sh s gpa = do { buf \<leftarrow> guest_read sh s gpa 4; lagfx_le32 buf 0 }"

definition read_byte_via_shell :: "'g shell \<Rightarrow> 'g sys \<Rightarrow> u64 \<Rightarrow> u8 option" where
  "read_byte_via_shell sh s gpa = do { buf \<leftarrow> guest_read sh s gpa 1; rd8 buf 0 }"

definition read_slot_fields :: "'g shell \<Rightarrow> 'g sys \<Rightarrow> u64 \<Rightarrow> (u8 \<times> u64) option" where
  "read_slot_fields sh s slot_gpa = do {
     buf \<leftarrow> guest_read sh s slot_gpa 12;
     ty \<leftarrow> rd8 buf 0;
     va \<leftarrow> lagfx_le64 buf 4;
     Some (ty, va) }"

subsection \<open>Resolving\<close>

text \<open>The address and length of a function object's metallib, with its virtual address.\<close>

definition lagfx_lookup_function_bytes ::
  "'g shell \<Rightarrow> 'g sys \<Rightarrow> task_entry \<Rightarrow> u32 \<Rightarrow> (u64 \<times> u32 \<times> u64) option" where
  "lagfx_lookup_function_bytes sh s task func_object_id =
     (if t_heap_pfn task = 0 then None
      else do {
        slot_gpa \<leftarrow> lagfx_task_translate sh s task (slot_va_for (ucast (t_heap_pfn task)) func_object_id);
        (slot_type, bytes_va) \<leftarrow> read_slot_fields sh s slot_gpa;
        if slot_type \<noteq> LAGFX_APV_TYPE_FUNCTION then None
        else do {
          bytes_gpa \<leftarrow> lagfx_task_translate sh s task bytes_va;
          next_va \<leftarrow> read_u64_via_shell sh s bytes_gpa;
          if next_va = 0 then None
          else do {
            next_gpa \<leftarrow> lagfx_task_translate sh s task next_va;
            mtlb_header \<leftarrow> guest_read sh s next_gpa 24;
            if take 4 mtlb_header \<noteq> [0x4d, 0x54, 0x4c, 0x42] then None
            else do {
              mtlb_len \<leftarrow> read_u32_via_shell sh s (next_gpa + 16);
              if mtlb_len = 0 \<or> mtlb_len > 16 * 1024 * 1024 then None
              else Some (next_gpa, mtlb_len, next_va) } } } })"

text \<open>Type, virtual address and guest address of an object's bytes; the guest address is 0
  when they are not mapped.\<close>

definition lagfx_resolve_object_data ::
  "'g shell \<Rightarrow> 'g sys \<Rightarrow> task_entry \<Rightarrow> u32 \<Rightarrow> (u8 \<times> u64 \<times> u64) option" where
  "lagfx_resolve_object_data sh s task object_id =
     (if t_heap_pfn task = 0 then None
      else do {
        slot_gpa \<leftarrow> lagfx_task_translate sh s task (slot_va_for (ucast (t_heap_pfn task)) object_id);
        (ty, bytes_va) \<leftarrow> read_slot_fields sh s slot_gpa;
        let bytes_gpa = (if bytes_va \<noteq> 0
                         then (case lagfx_task_translate sh s task bytes_va of None \<Rightarrow> 0 | Some g \<Rightarrow> g)
                         else 0);
        Some (ty, bytes_va, bytes_gpa) })"

definition lookup_slot_type :: "'g shell \<Rightarrow> 'g sys \<Rightarrow> task_entry \<Rightarrow> u32 \<Rightarrow> u8 option" where
  "lookup_slot_type sh s task object_id =
     (if t_heap_pfn task = 0 then None
      else do {
        slot_gpa \<leftarrow> lagfx_task_translate sh s task (slot_va_for (ucast (t_heap_pfn task)) object_id);
        read_byte_via_shell sh s slot_gpa })"

text \<open>The descriptor of a pipeline object: its first \<open>n\<close> bytes, when the slot is of
  pipeline type.  The four descriptor parsers open with this walk.\<close>

definition pipeline_blob :: "'g shell \<Rightarrow> 'g sys \<Rightarrow> task_entry \<Rightarrow> u32 \<Rightarrow> nat \<Rightarrow> bytes option" where
  "pipeline_blob sh s task pipeline_object_id n =
     (if t_heap_pfn task = 0 then None
      else do {
        slot_gpa \<leftarrow> lagfx_task_translate sh s task (slot_va_for (ucast (t_heap_pfn task)) pipeline_object_id);
        (slot_type, bytes_va) \<leftarrow> read_slot_fields sh s slot_gpa;
        if slot_type \<noteq> LAGFX_APV_TYPE_PIPELINE then None
        else do {
          bytes_gpa \<leftarrow> lagfx_task_translate sh s task bytes_va;
          guest_read sh s bytes_gpa n } })"

lemma pipeline_blob_length: "pipeline_blob sh s task k n = Some b \<Longrightarrow> length b = n"
  by (auto simp: pipeline_blob_def split: if_splits elim!: bind_eq_SomeE dest: guest_read_length)

subsection \<open>Page-wise virtual read\<close>

definition virtual_chunk :: "u64 \<Rightarrow> u32 \<Rightarrow> u32" where
  "virtual_chunk cur_va remaining =
     (let page_off = cur_va AND (4096 - 1); avail = 4096 - page_off
      in if avail < ucast remaining then ucast avail else remaining)"

lemma unat_virtual_chunk: "unat (virtual_chunk va rem) = min (4096 - unat va mod 4096) (unat rem)"
proof -
  have a: "unat (4096 - (va AND 4095) :: u64) = 4096 - unat va mod 4096"
    using word_and_fff[of va] by (simp add: unat_sub word_le_nat_alt)
  then have "unat (ucast (4096 - (va AND 4095) :: u64) :: u32) = 4096 - unat va mod 4096"
    by (subst unat_ucast_small) auto
  then show ?thesis
    using a by (auto simp: virtual_chunk_def Let_def word_less_nat_alt unat_ucast_up min_def)
qed

lemma virtual_chunk_pos: "0 < rem \<Longrightarrow> 0 < unat (virtual_chunk va rem)"
  by (simp add: unat_virtual_chunk word_less_nat_alt)

function read_virtual_loop ::
  "'g shell \<Rightarrow> 'g sys \<Rightarrow> task_entry \<Rightarrow> u64 \<Rightarrow> u32 \<Rightarrow> u32 \<Rightarrow> bytes \<Rightarrow> bytes option" where
  "read_virtual_loop sh s task va len don buf =
     (if don < len then
        let cur_va = va + ucast don; chunk = virtual_chunk cur_va (len - don) in
        (case lagfx_task_translate sh s task cur_va of None \<Rightarrow> None
         | Some gpa \<Rightarrow>
             (case guest_read sh s gpa (unat chunk) of None \<Rightarrow> None
              | Some b \<Rightarrow> read_virtual_loop sh s task va len (don + chunk) (buf @ b)))
      else Some buf)"
  by pat_completeness auto
termination
proof (relation "measure (\<lambda>(_, _, _, _, len, don, _). unat len - unat don)", goal_cases)
  case (2 sh s task va len don buf cur_va chunk gpa b)
  have "0 < unat chunk" "unat chunk \<le> unat (len - don)"
    using 2 virtual_chunk_pos[of "len - don" cur_va] by (auto simp: unat_virtual_chunk word_gt_0)
  from word_progress(1)[OF 2(1) this] show ?case by simp
qed simp

declare read_virtual_loop.simps [simp del]

definition lagfx_task_read_virtual ::
  "'g shell \<Rightarrow> 'g sys \<Rightarrow> task_entry \<Rightarrow> u64 \<Rightarrow> u32 \<Rightarrow> bytes option" where
  "lagfx_task_read_virtual sh s task va len = read_virtual_loop sh s task va len 0 []"

lemma ucast_add_small:
  "unat (a + b) = unat a + unat b \<Longrightarrow> (ucast (a + b :: u32) :: u64) = ucast a + ucast b"
proof -
  assume h: "unat (a + b) = unat a + unat b"
  have "unat a + unat b < 2 ^ 64" using unat_bound[of a] unat_bound[of b] by simp
  then have "unat (ucast a + ucast b :: u64) = unat a + unat b"
    by (subst unat_add_small) (simp_all add: unat_ucast_up)
  moreover have "unat (ucast (a + b) :: u64) = unat a + unat b"
    using h by (simp add: unat_ucast_up)
  ultimately show ?thesis by (simp only: word_unat_eq_iff)
qed

lemma read_virtual_loop_ram:
  assumes "ram_law sh ram" "dev s \<noteq> None" "don \<le> len"
  shows "read_virtual_loop sh s task va len don buf =
    map_option ((@) buf) (vbytes ram (ext s) (lagfx_task_translate sh s task) (va + ucast don) (unat len - unat don))"
  using assms
proof (induction sh s task va len don buf rule: read_virtual_loop.induct)
  case (1 sh s task va len don buf)
  let ?tr = "lagfx_task_translate sh s task"
  let ?va = "va + ucast don"
  let ?cl = "virtual_chunk ?va (len - don)"
  note unfold = read_virtual_loop.simps[of sh s task va len don buf]
  show ?case
  proof (cases "don < len")
    case False
    then have "unat len - unat don = 0" by (simp add: word_less_nat_alt)
    then show ?thesis using False by (subst unfold) (simp add: vbytes_def)
  next
    case True
    have rem: "0 < unat len - unat don" "unat (len - don) = unat len - unat don"
      using True by (simp_all add: word_less_nat_alt unat_sub word_le_nat_alt)
    show ?thesis
    proof (cases "?tr ?va")
      case None
      then show ?thesis using True rem by (simp add: unfold Let_def vbytes_None)
    next
      case (Some gpa)
      let ?b = "map (\<lambda>i. ram (ext s) (gpa + of_nat i)) [0..<unat ?cl]"
      have rd: "guest_read sh s gpa (unat ?cl) = Some ?b"
        using "1.prems"(1,2) by (simp add: guest_read_def ram_law_read)
      have cl: "unat ?cl \<le> unat len - unat don" "unat ?cl \<le> 4096 - unat ?va mod 4096"
        by (simp_all add: unat_virtual_chunk rem)
      have dcl: "unat (don + ?cl) = unat don + unat ?cl" "don + ?cl \<le> len"
        using word_progress[OF True, of ?cl] cl(1) rem virtual_chunk_pos[of "len - don" ?va]
        by (simp_all add: word_less_nat_alt)
      have IH: "read_virtual_loop sh s task va len (don + ?cl) (buf @ ?b) =
          map_option ((@) (buf @ ?b)) (vbytes ram (ext s) ?tr (va + ucast (don + ?cl)) (unat len - unat (don + ?cl)))"
        by (rule "1.IH"[OF True refl refl Some rd "1.prems"(1,2) dcl(2)])
      have va': "va + ucast (don + ?cl) = ?va + of_nat (unat ?cl)"
        using ucast_add_small[OF dcl(1)] by (simp add: add.assoc)
      have n: "unat len - unat don = unat ?cl + (unat len - unat (don + ?cl))" using dcl cl(1) by simp
      show ?thesis
        unfolding unfold n vbytes_split radix.chunk[OF Some cl(2)]
        using True by (simp add: Some rd Let_def IH va' append_fun option.map_comp comp_def)
    qed
  qed
qed

lemma task_read_virtual_ram:
  assumes "ram_law sh ram" "dev s \<noteq> None"
  shows "lagfx_task_read_virtual sh s task va len =
         vbytes ram (ext s) (lagfx_task_translate sh s task) va (unat len)"
  using read_virtual_loop_ram[OF assms, of 0 len task va "[]"]
  by (cases "vbytes ram (ext s) (lagfx_task_translate sh s task) va (unat len)")
     (simp_all add: lagfx_task_read_virtual_def)

end
