(* ===== verification/Float64.thy ===== *)
theory Float64
  imports Complex_Main Prelude
begin

text \<open>
  The little of IEEE 754 binary64 that the sources compute with: comparing a double
  with small constants, and \<^verbatim>\<open>(uint32_t)(x + 0.5)\<close> for \<^verbatim>\<open>0 <= x <= 16384\<close>.  A double is its
  bit pattern; its value is a rational.
\<close>

unbundle bit_operations_syntax

definition f64_exponent :: "u64 \<Rightarrow> nat" where "f64_exponent u = unat (take_bit 11 (drop_bit 52 u))"
definition f64_mantissa :: "u64 \<Rightarrow> nat" where "f64_mantissa u = unat (take_bit 52 u)"

definition f64_finite :: "u64 \<Rightarrow> bool" where "f64_finite u \<longleftrightarrow> f64_exponent u \<noteq> 2047"

definition f64_val :: "u64 \<Rightarrow> rat" where
  "f64_val u = (if bit u 63 then - 1 else 1) *
     (if f64_exponent u = 0 then of_nat (f64_mantissa u) / 2 ^ 1074
      else of_nat (2 ^ 52 + f64_mantissa u) * 2 ^ f64_exponent u / 2 ^ 1075)"

text \<open>\<^verbatim>\<open>x >= lo && x <= hi\<close>: false for a NaN, and for both infinities as the bounds are
  finite.\<close>

definition f64_between :: "rat \<Rightarrow> rat \<Rightarrow> u64 \<Rightarrow> bool" where
  "f64_between lo hi u \<longleftrightarrow> f64_finite u \<and> lo \<le> f64_val u \<and> f64_val u \<le> hi"

text \<open>Rounding to an integer, ties to even, and to a double with 53 significant bits for a
  value between 1/2 and 2 to the 15.\<close>

definition round_even :: "rat \<Rightarrow> int" where
  "round_even q = (let f = \<lfloor>q\<rfloor>; r = q - of_int f in
     if r < 1 / 2 then f else if r > 1 / 2 then f + 1 else if even f then f else f + 1)"

definition f64_round :: "rat \<Rightarrow> rat" where
  "f64_round v = (let k = 53 - length (filter (\<lambda>i. 2 ^ i \<le> v) [0..<15]) in of_int (round_even (v * 2 ^ k)) / 2 ^ k)"

definition f64_add_half_u32 :: "u64 \<Rightarrow> u32" where
  "f64_add_half_u32 u = word_of_int \<lfloor>f64_round (f64_val u + 1 / 2)\<rfloor>"

lemma round_even_le: "q \<le> of_int m \<Longrightarrow> round_even q \<le> m"
proof -
  assume h: "q \<le> of_int m"
  have f: "of_int \<lfloor>q\<rfloor> \<le> q" by simp
  have "\<lfloor>q\<rfloor> \<le> m" using h by linarith
  moreover have "\<lfloor>q\<rfloor> + 1 \<le> m" if "q - of_int \<lfloor>q\<rfloor> > 0"
  proof -
    have "of_int \<lfloor>q\<rfloor> < (of_int m :: rat)" using that h by linarith
    then show ?thesis by simp
  qed
  ultimately show ?thesis by (auto simp: round_even_def Let_def not_less)
qed

lemma round_even_ge: "0 \<le> q \<Longrightarrow> 0 \<le> round_even q"
  by (simp add: round_even_def Let_def)

lemma f64_round_bounds:
  assumes "0 \<le> v" "v \<le> 16384 + 1 / 2"
  shows "0 \<le> f64_round v" "f64_round v \<le> 16384 + 1 / 2"
proof -
  let ?n = "length (filter (\<lambda>i. 2 ^ i \<le> v) [0..<15])"
  have n: "?n \<le> 15" using length_filter_le[of "\<lambda>i. 2 ^ i \<le> v" "[0..<15]"] by simp
  define k where "k = 53 - ?n"
  have k: "1 \<le> k" using n by (simp add: k_def)
  have r: "f64_round v = of_int (round_even (v * 2 ^ k)) / 2 ^ k" by (simp add: f64_round_def Let_def k_def)
  show "0 \<le> f64_round v" using assms(1) by (simp add: r round_even_ge)
  have e: "(16384 + 1 / 2) * 2 ^ k = (of_int (32769 * 2 ^ (k - 1)) :: rat)"
    using k by (cases k) simp_all
  have "v * 2 ^ k \<le> (16384 + 1 / 2) * 2 ^ k" using assms(2) by (intro mult_right_mono) auto
  then have "round_even (v * 2 ^ k) \<le> 32769 * 2 ^ (k - 1)" unfolding e by (rule round_even_le)
  then have "of_int (round_even (v * 2 ^ k)) \<le> (of_int (32769 * 2 ^ (k - 1)) :: rat)" by (simp only: of_int_le_iff)
  then show "f64_round v \<le> 16384 + 1 / 2" unfolding r e[symmetric] by (simp add: divide_le_eq)
qed

lemma f64_add_half_bound:
  assumes "f64_between lo 16384 u" "0 \<le> lo"
  shows "f64_add_half_u32 u \<le> 16384"
proof -
  have v: "0 \<le> f64_val u + 1 / 2" "f64_val u + 1 / 2 \<le> 16384 + 1 / 2"
    using assms by (auto simp: f64_between_def)
  note b = f64_round_bounds[OF v]
  let ?z = "\<lfloor>f64_round (f64_val u + 1 / 2)\<rfloor>"
  have z: "0 \<le> ?z" "?z \<le> 16384" using b by linarith+
  then have "uint (word_of_int ?z :: u32) = ?z" by (simp add: uint_word_of_int_eq take_bit_int_eq_self)
  then show ?thesis using z by (simp add: f64_add_half_u32_def word_le_def)
qed

end
