(* ===== verification/ComputeInner.thy ===== *)
theory ComputeInner
  imports InnerSpec ObjectResolver Float64
begin

text \<open>
  The inner opcodes of compute-typed segments, \<^verbatim>\<open>src/handlers/compute/compute_inner_ops.c\<close>:
  draws, render pass, resource bindings, scissor and viewport, recorded in the task
  that issued the command buffer.  The functions take the body and return the C
  return value and the new state; the body's length is the length of the list.
  Every operation is an interpretation of \<open>inner_op\<close>.
\<close>

unbundle bit_operations_syntax

type_synonym 'g inner = "'g shell \<Rightarrow> u32 \<Rightarrow> bytes \<Rightarrow> 'g sys \<Rightarrow> (nat \<times> 'g sys) option"

definition upd_draw :: "(pending_draw \<Rightarrow> pending_draw) \<Rightarrow> task_entry \<Rightarrow> task_entry" where
  "upd_draw f t = t\<lparr>t_pending_draw := f (t_pending_draw t)\<rparr>"

subsection \<open>Draws\<close>

definition op_draw_primitives_16 :: "'g inner" where
  "op_draw_primitives_16 sh task_id body s =
     (if length body < 8 then Some (1, s)
      else do {
        prim \<leftarrow> lagfx_le16 body 0;
        vertex_start \<leftarrow> lagfx_le16 body 4;
        vertex_count \<leftarrow> lagfx_le16 body 6;
        on_task task_id (upd_draw (\<lambda>d. d\<lparr>pd_valid := True, pd_indexed := False, pd_primitive_type := ucast prim,
          pd_index_count := ucast vertex_count, pd_base_vertex := ucast vertex_start,
          pd_instance_count := 1, pd_first_instance := 0\<rparr>)) s })"

definition op_draw_primitives_64 :: "'g inner" where
  "op_draw_primitives_64 sh task_id body s =
     (if length body < 8 then Some (1, s)
      else do {
        f4 \<leftarrow> lagfx_le32 body 4;
        c16 \<leftarrow> lagfx_le16 body 6;
        let vcount = (if (ucast c16 :: u32) > 0 \<and> (ucast c16 :: u32) < 0x10000 then ucast c16 else f4);
        on_task task_id (upd_draw (\<lambda>d. d\<lparr>pd_valid := True, pd_indexed := False,
          pd_index_count := vcount, pd_base_vertex := 0, pd_instance_count := 1, pd_first_instance := 0\<rparr>)) s })"

definition op_draw_instanced_primitives_16 :: "'g inner" where
  "op_draw_instanced_primitives_16 sh task_id body s =
     (if length body < 8 then Some (1, s)
      else do {
        vertex_start \<leftarrow> lagfx_le16 body 0;
        vertex_count \<leftarrow> lagfx_le16 body 2;
        instance_count \<leftarrow> lagfx_le16 body 4;
        prim \<leftarrow> lagfx_le16 body 6;
        on_task task_id (upd_draw (\<lambda>d. d\<lparr>pd_valid := True, pd_indexed := False, pd_primitive_type := ucast prim,
          pd_index_count := ucast vertex_count, pd_base_vertex := ucast vertex_start,
          pd_instance_count := (if instance_count = 0 then 1 else ucast instance_count),
          pd_first_instance := 0\<rparr>)) s })"

definition op_draw_indexed_primitives_64 :: "'g inner" where
  "op_draw_indexed_primitives_64 sh task_id body s =
     (if length body < 24 then Some (1, s)
      else do {
        index_count \<leftarrow> lagfx_le32 body 0;
        index_type \<leftarrow> lagfx_le32 body 4;
        index_buffer_ref \<leftarrow> lagfx_le32 body 8;
        index_buffer_offset \<leftarrow> lagfx_le64 body 12;
        on_task task_id (upd_draw (\<lambda>d. d\<lparr>pd_valid := True, pd_indexed := True, pd_index_count := index_count,
          pd_index_buffer_ref := index_buffer_ref, pd_base_vertex := 0,
          pd_instance_count := 1, pd_first_instance := 0\<rparr>)) s })"

definition op_draw_indexed_primitives_16 :: "'g inner" where
  "op_draw_indexed_primitives_16 sh task_id body s =
     (if length body < 12 then Some (1, s)
      else do {
        prim \<leftarrow> lagfx_le16 body 0;
        index_type \<leftarrow> lagfx_le16 body 2;
        index_buffer_ref \<leftarrow> lagfx_le32 body 4;
        index_count \<leftarrow> lagfx_le16 body 8;
        index_buffer_offset \<leftarrow> lagfx_le16 body 10;
        on_task task_id (upd_draw (\<lambda>d. d\<lparr>pd_valid := True, pd_indexed := True, pd_primitive_type := ucast prim,
          pd_index_type := ucast index_type, pd_index_count := ucast index_count,
          pd_index_buffer_ref := index_buffer_ref, pd_index_buffer_offset := ucast index_buffer_offset,
          pd_base_vertex := 0, pd_instance_count := 1, pd_first_instance := 0\<rparr>)) s })"

subsection \<open>Render pass and barrier\<close>

definition op_render_barrier_scope :: "'g inner" where
  "op_render_barrier_scope sh task_id body s =
     (if length body < 4 then Some (1, s) else do { packed \<leftarrow> lagfx_le32 body 0; Some (0, s) })"

definition apple_format_to_vk :: "u32 \<Rightarrow> u32" where "apple_format_to_vk fmt = 0"

text \<open>The first word of the attachment region that resolves to a texture or a view.\<close>

fun find_target :: "'g shell \<Rightarrow> 'g sys \<Rightarrow> task_entry \<Rightarrow> bytes \<Rightarrow> nat list \<Rightarrow> u32 option" where
  "find_target sh s task body [] = Some 0"
| "find_target sh s task body (off # offs) =
     (if off + 4 \<le> length body then do {
        v \<leftarrow> lagfx_le32 body off;
        if v = 0 \<or> v > 0xffff then find_target sh s task body offs
        else case lagfx_resolve_object_data sh s task v of
               Some (rt, rva, _) \<Rightarrow>
                 if rva \<noteq> 0 \<and> (rt = 0x03 \<or> rt = 0x05) then Some v else find_target sh s task body offs
             | None \<Rightarrow> find_target sh s task body offs }
      else Some 0)"

definition op_render_describe_render_pass :: "'g inner" where
  "op_render_describe_render_pass sh task_id body s =
     (if length body < 48 then Some (1, s)
      else case live_task task_id s of None \<Rightarrow> Some (1, s)
      | Some i \<Rightarrow> do {
          view_count \<leftarrow> lagfx_le32 body 0;
          color_fmt_raw \<leftarrow> lagfx_le32 body 4;
          depth_fmt_raw \<leftarrow> lagfx_le32 body 8;
          c0 \<leftarrow> lagfx_lef32 body 12; c1 \<leftarrow> lagfx_lef32 body 16;
          c2 \<leftarrow> lagfx_lef32 body 20; c3 \<leftarrow> lagfx_lef32 body 24;
          clear_depth \<leftarrow> lagfx_lef32 body 28;
          x \<leftarrow> lagfx_le32 body 32; y \<leftarrow> lagfx_le32 body 36;
          w \<leftarrow> lagfx_le32 body 40; h \<leftarrow> lagfx_le32 body 44;
          target \<leftarrow> (if length body \<ge> 52
                     then find_target sh s (tasks (proto s) ! i) body (map (\<lambda>k. 48 + 4 * k) [0..<20])
                     else Some 0);
          on_task task_id (\<lambda>t. t\<lparr>t_sc_have := 0, t_vp_current := 0,
            t_render_pass_desc := \<lparr>rpd_valid = True,
               rpd_color_format = apple_format_to_vk color_fmt_raw,
               rpd_depth_format = (if depth_fmt_raw \<noteq> 0 then apple_format_to_vk depth_fmt_raw else 0),
               rpd_clear_color = [c0, c1, c2, c3], rpd_clear_depth = clear_depth,
               rpd_render_area = (x, y, w, h), rpd_view_count = view_count, rpd_target_ref = target\<rparr>\<rparr>) s })"

subsection \<open>Bindings\<close>

text \<open>The loop over the entries: slot \<open>first_index + i\<close>, computed in 32 bits, gets the entry
  unless it is past the last slot.\<close>

fun bind_loop ::
  "(bytes \<Rightarrow> nat \<Rightarrow> (u32 \<times> u64) option) \<Rightarrow> nat \<Rightarrow> bytes \<Rightarrow> u32 \<Rightarrow> nat \<Rightarrow> nat \<Rightarrow> binding_slot list \<Rightarrow> binding_slot list option" where
  "bind_loop entry entry_bytes body first_index i 0 slots = Some slots"
| "bind_loop entry entry_bytes body first_index i (Suc n) slots = do {
     (ref, off) \<leftarrow> entry body (8 + i * entry_bytes);
     let slot_index = first_index + of_nat i;
     bind_loop entry entry_bytes body first_index (i + 1) n
       (if slot_index \<ge> 32 then slots
        else slots[unat slot_index := \<lparr>bs_ref = ref, bs_offset = off, bs_valid = (ref \<noteq> 0)\<rparr>]) }"

definition buffer_entry :: "bytes \<Rightarrow> nat \<Rightarrow> (u32 \<times> u64) option" where
  "buffer_entry body e = do { ref \<leftarrow> lagfx_le32 body e; off \<leftarrow> lagfx_le64 body (e + 4); Some (ref, off) }"

definition texture_entry :: "bytes \<Rightarrow> nat \<Rightarrow> (u32 \<times> u64) option" where
  "texture_entry body e = do { ref \<leftarrow> lagfx_le32 body e; Some (ref, 0) }"

text \<open>The body shared by the binding operations: header, size check, task, loop.\<close>

definition set_slots ::
  "(bytes \<Rightarrow> nat \<Rightarrow> (u32 \<times> u64) option) \<Rightarrow> nat \<Rightarrow> (bindings \<Rightarrow> binding_slot list) \<Rightarrow>
   (binding_slot list \<Rightarrow> bindings \<Rightarrow> bindings) \<Rightarrow> u32 \<Rightarrow> bytes \<Rightarrow> 'g sys \<Rightarrow> (nat \<times> 'g sys) option" where
  "set_slots entry entry_bytes get put task_id body s =
     (if length body < 8 then Some (1, s)
      else do {
        first_index \<leftarrow> lagfx_le32 body 0;
        count \<leftarrow> lagfx_le32 body 4;
        if length body < 8 + unat count * entry_bytes then Some (1, s)
        else case live_task task_id s of None \<Rightarrow> Some (1, s)
        | Some i \<Rightarrow> do {
            slots \<leftarrow> bind_loop entry entry_bytes body first_index 0 (unat count) (get (t_bindings (tasks (proto s) ! i)));
            on_task task_id (\<lambda>t. t\<lparr>t_bindings := put slots (t_bindings t)\<rparr>) s } })"

definition op_set_fragment_buffers :: "'g inner" where
  "op_set_fragment_buffers sh = set_slots buffer_entry 12 fragment_buffers (\<lambda>l b. b\<lparr>fragment_buffers := l\<rparr>)"

definition op_set_fragment_textures :: "'g inner" where
  "op_set_fragment_textures sh = set_slots texture_entry 4 fragment_textures (\<lambda>l b. b\<lparr>fragment_textures := l\<rparr>)"

definition op_set_vertex_buffers :: "'g inner" where
  "op_set_vertex_buffers sh = set_slots buffer_entry 12 vertex_buffers (\<lambda>l b. b\<lparr>vertex_buffers := l\<rparr>)"

definition op_set_fragment_sampler_states :: "'g inner" where
  "op_set_fragment_sampler_states sh task_id body s =
     (if length body < 8 then Some (1, s)
      else do {
        first_index \<leftarrow> lagfx_le32 body 0;
        count \<leftarrow> lagfx_le32 body 4;
        if length body < 8 + unat count * 4 then Some (1, s)
        else do {
          _ \<leftarrow> those (map (\<lambda>i. lagfx_le32 body (8 + i * 4)) [0..<min (unat count) 4]);
          Some (0, s) } })"

definition set_offset :: "u32 \<Rightarrow> u64 \<Rightarrow> binding_slot list \<Rightarrow> binding_slot list" where
  "set_offset index off slots = slots[unat index := (slots ! unat index)\<lparr>bs_offset := off\<rparr>]"

definition op_set_fragment_buffer_offset :: "'g inner" where
  "op_set_fragment_buffer_offset sh task_id body s =
     (if length body < 12 then Some (1, s)
      else do {
        index \<leftarrow> lagfx_le32 body 0;
        off \<leftarrow> lagfx_le64 body 4;
        if live_task task_id s = None \<or> index \<ge> 32 then Some (1, s)
        else on_task task_id (\<lambda>t. t\<lparr>t_bindings := (t_bindings t)
               \<lparr>fragment_buffers := set_offset index off (fragment_buffers (t_bindings t))\<rparr>\<rparr>) s })"

definition op_set_vertex_buffer_offset :: "'g inner" where
  "op_set_vertex_buffer_offset sh task_id body s =
     (if length body < 12 then Some (1, s)
      else do {
        index \<leftarrow> lagfx_le32 body 0;
        off \<leftarrow> lagfx_le64 body 4;
        if live_task task_id s = None \<or> index \<ge> 32 then Some (1, s)
        else on_task task_id (\<lambda>t. t\<lparr>t_bindings := (t_bindings t)
               \<lparr>vertex_buffers := set_offset index off (vertex_buffers (t_bindings t))\<rparr>\<rparr>) s })"

subsection \<open>Pipeline, scissor and viewport\<close>

text \<open>Without Vulkan the pipeline operation only looks the reference up for the log.\<close>

definition op_set_render_pipeline_state :: "'g inner" where
  "op_set_render_pipeline_state sh task_id body s =
     (if length body < 4 then Some (1, s)
      else do {
        reference \<leftarrow> lagfx_le32 body 0;
        if live_task task_id s = None then Some (1, s) else Some (0, s) })"

definition op_set_scissor_rect :: "'g inner" where
  "op_set_scissor_rect sh task_id body s =
     (if length body < 32 then Some (1, s)
      else do {
        x \<leftarrow> lagfx_le64 body 0; y \<leftarrow> lagfx_le64 body 8;
        w \<leftarrow> lagfx_le64 body 16; h \<leftarrow> lagfx_le64 body 24;
        case live_task task_id s of None \<Rightarrow> Some (0, s)
        | Some i \<Rightarrow> on_task task_id (\<lambda>t.
            let t1 = (if w \<ge> 16 \<and> w \<le> 16384 \<and> h \<ge> 16 \<and> h \<le> 16384
                      then t\<lparr>t_scissor_w := ucast w, t_scissor_h := ucast h\<rparr> else t)
            in if w \<ge> 1 \<and> w \<le> 16384 \<and> h \<ge> 1 \<and> h \<le> 16384 \<and> x \<le> 16384 \<and> y \<le> 16384
               then t1\<lparr>t_sc := (ucast x, ucast y, ucast w, ucast h), t_sc_have := 1\<rparr> else t1) s })"

definition op_set_viewport :: "'g inner" where
  "op_set_viewport sh task_id body s =
     (if length body < 48 then Some (1, s)
      else do {
        origin_x \<leftarrow> lagfx_le64 body 0; origin_y \<leftarrow> lagfx_le64 body 8;
        width \<leftarrow> lagfx_le64 body 16; height \<leftarrow> lagfx_le64 body 24;
        znear \<leftarrow> lagfx_le64 body 32; zfar \<leftarrow> lagfx_le64 body 40;
        if live_task task_id s \<noteq> None \<and> f64_between 1 16384 width \<and> f64_between 1 16384 height \<and>
           f64_between 0 16384 origin_x \<and> f64_between 0 16384 origin_y
        then on_task task_id (\<lambda>t. t\<lparr>t_vp := (f64_add_half_u32 origin_x, f64_add_half_u32 origin_y,
                                              f64_add_half_u32 width, f64_add_half_u32 height),
                                    t_vp_valid := 1, t_vp_current := 1\<rparr>) s
        else Some (0, s) })"

subsection \<open>Dispatch\<close>

definition compute_inner_op_table :: "(u32 \<times> 'g inner) list" where
  "compute_inner_op_table = [
     (0x007e, op_set_vertex_buffer_offset), (0x0074, op_set_render_pipeline_state),
     (0x007d, op_set_vertex_buffers), (0x0007, op_draw_indexed_primitives_16),
     (0x006e, op_set_fragment_buffers), (0x0072, op_set_fragment_textures),
     (0x0075, op_set_scissor_rect), (0x0082, op_set_viewport),
     (0x0070, op_set_fragment_sampler_states), (0x001a, op_render_describe_render_pass),
     (0x0017, op_render_barrier_scope), (0x0003, op_draw_instanced_primitives_16),
     (0x0006, op_draw_indexed_primitives_64), (0x006f, op_set_fragment_buffer_offset),
     (0x0001, op_draw_primitives_16), (0x0000, op_draw_primitives_64)]"

definition lagfx_compute_inner_dispatch :: "'g shell \<Rightarrow> u32 \<Rightarrow> u32 \<Rightarrow> bytes \<Rightarrow> 'g sys \<Rightarrow> (nat \<times> 'g sys) option" where
  "lagfx_compute_inner_dispatch sh task_id opcode body s =
     (case map_of compute_inner_op_table opcode of None \<Rightarrow> Some (1, s)
      | Some h \<Rightarrow> h sh task_id body s)"

subsection \<open>The contract holds for every operation\<close>

lemma benign_draw: "benign (upd_draw f)"
  by (simp add: benign_def upd_draw_def wf_task_def task_identity_def)

lemma inner_opI:
  fixes op :: "'g inner"
  assumes "\<And>sh k body s. wf_sys s \<Longrightarrow> op sh k body s = Some (1, s) \<or> op sh k body s = Some (0, s) \<or>
     (\<exists>f. op sh k body s = on_task k f s \<and> benign f)"
  shows "inner_op op"
proof
  fix s :: "'g sys" and sh k body
  assume wf: "wf_sys s"
  from assms[OF wf, of sh k body]
  consider "op sh k body s = Some (1, s)" | "op sh k body s = Some (0, s)"
    | f where "op sh k body s = on_task k f s" "benign f"
    by blast
  then show "\<exists>r s'. op sh k body s = Some (r, s') \<and> wf_sys s' \<and> inner_frame s s'"
    by cases (use wf on_task_safe[OF wf, of _ k] in auto)
qed

text \<open>A draw either rejects its body or records a draw.\<close>

interpretation draw16: inner_op op_draw_primitives_16
  by (rule inner_opI) (auto simp: op_draw_primitives_16_def chk_simps benign_draw)

interpretation draw64: inner_op op_draw_primitives_64
  by (rule inner_opI) (auto simp: op_draw_primitives_64_def chk_simps benign_draw Let_def)

interpretation draw_inst16: inner_op op_draw_instanced_primitives_16
  by (rule inner_opI) (auto simp: op_draw_instanced_primitives_16_def chk_simps benign_draw)

interpretation draw_idx64: inner_op op_draw_indexed_primitives_64
  by (rule inner_opI) (auto simp: op_draw_indexed_primitives_64_def chk_simps benign_draw)

interpretation draw_idx16: inner_op op_draw_indexed_primitives_16
  by (rule inner_opI) (auto simp: op_draw_indexed_primitives_16_def chk_simps benign_draw)

interpretation barrier: inner_op op_render_barrier_scope
  by (rule inner_opI) (auto simp: op_render_barrier_scope_def chk_simps)

interpretation set_pipeline: inner_op op_set_render_pipeline_state
  by (rule inner_opI) (auto simp: op_set_render_pipeline_state_def chk_simps)

interpretation set_viewport: inner_op op_set_viewport
proof (rule inner_opI, goal_cases)
  case (1 sh k body s)
  have "benign (\<lambda>t. t\<lparr>t_vp := v, t_vp_valid := 1, t_vp_current := 1\<rparr>)" for v
    by (simp add: benign_def wf_task_def task_identity_def)
  then show ?case by (auto simp: op_set_viewport_def chk_simps)
qed

interpretation set_scissor: inner_op op_set_scissor_rect
proof (rule inner_opI, goal_cases)
  case (1 sh k body s)
  have "benign (\<lambda>t. let t1 = (if P then t\<lparr>t_scissor_w := a, t_scissor_h := b\<rparr> else t)
     in if Q then t1\<lparr>t_sc := v, t_sc_have := 1\<rparr> else t1)" for P Q a b v
    by (simp add: benign_def wf_task_def task_identity_def Let_def)
  then show ?case by (auto simp: op_set_scissor_rect_def chk_simps split: option.split)
qed

lemma find_target_total: "\<exists>v. find_target sh s task body offs = Some v"
  by (induction offs) (auto simp: chk_simps split: option.split)

interpretation describe_pass: inner_op op_render_describe_render_pass
proof (rule inner_opI, goal_cases)
  case (1 sh k body s)
  obtain tg where tg: "find_target sh s (tasks (proto s) ! unat k) body (map (\<lambda>k. 48 + 4 * k) [0..<20]) = Some tg"
    using find_target_total by blast
  have "benign (\<lambda>t. t\<lparr>t_sc_have := 0, t_vp_current := 0, t_render_pass_desc := \<lparr>rpd_valid = True,
       rpd_color_format = cf, rpd_depth_format = df, rpd_clear_color = [c0, c1, c2, c3], rpd_clear_depth = cd,
       rpd_render_area = ra, rpd_view_count = vc, rpd_target_ref = tr\<rparr>\<rparr>)" for cf df c0 c1 c2 c3 cd ra vc tr
    by (simp add: benign_def wf_task_def task_identity_def)
  then show ?case
    using tg live_task_bound[of k s]
    by (auto simp: op_render_describe_render_pass_def chk_simps split: option.split)
qed

text \<open>The binding loop stays within the body and keeps the number of slots.\<close>

lemma bind_loop_total:
  assumes "\<And>e. e + eb \<le> length body \<Longrightarrow> entry body e \<noteq> None"
  shows "8 + (i + n) * eb \<le> length body \<Longrightarrow>
    \<exists>slots'. bind_loop entry eb body first i n slots = Some slots' \<and> length slots' = length slots"
proof (induction n arbitrary: i slots)
  case (Suc n)
  have "8 + i * eb + eb \<le> length body" using Suc.prems by (simp add: add_mult_distrib)
  then obtain ref off where e: "entry body (8 + i * eb) = Some (ref, off)" using assms by fastforce
  let ?sl = "if first + of_nat i \<ge> 32 then slots
     else slots[unat (first + of_nat i) := \<lparr>bs_ref = ref, bs_offset = off, bs_valid = (ref \<noteq> 0)\<rparr>]"
  have "length ?sl = length slots" by simp
  then show ?case using Suc.IH[of "i + 1" ?sl] Suc.prems e by (simp add: Let_def)
qed simp

definition slot_lens :: "(bindings \<Rightarrow> binding_slot list) \<Rightarrow> (binding_slot list \<Rightarrow> bindings \<Rightarrow> bindings) \<Rightarrow> bool" where
  "slot_lens get put \<longleftrightarrow> (\<forall>b. wf_bindings b \<longrightarrow> length (get b) = 32) \<and>
     (\<forall>b l. wf_bindings b \<longrightarrow> length l = 32 \<longrightarrow> wf_bindings (put l b))"

lemma set_slots_safe:
  assumes wf: "wf_sys s" and "slot_lens get put"
    and "\<And>e. e + eb \<le> length body \<Longrightarrow> entry body e \<noteq> None"
  shows "\<exists>r s'. set_slots entry eb get put k body s = Some (r, s') \<and> wf_sys s' \<and> inner_frame s s'"
proof (cases "live_task k s")
  case None
  then show ?thesis using wf by (auto simp: set_slots_def chk_simps)
next
  case (Some i)
  have wb: "wf_bindings (t_bindings (tasks (proto s) ! i))"
    using live_task_bound[OF Some] wf by (auto simp: wf_sys_def wf_tables_def wf_task_def)
  show ?thesis
  proof (cases "length body \<ge> 8 \<and> length body \<ge> 8 + unat (le32_at body 4) * eb")
    case True
    then obtain slots where sl: "bind_loop entry eb body (le32_at body 0) 0 (unat (le32_at body 4))
        (get (t_bindings (tasks (proto s) ! i))) = Some slots" "length slots = 32"
      using assms(2) wb
        bind_loop_total[of eb body entry 0 "unat (le32_at body 4)" "le32_at body 0" "get (t_bindings (tasks (proto s) ! i))"]
        assms(3) by (auto simp: slot_lens_def)
    let ?f = "\<lambda>t. t\<lparr>t_bindings := put slots (t_bindings t)\<rparr>"
    have e: "set_slots entry eb get put k body s = on_task k ?f s"
      using True sl(1) Some by (simp add: set_slots_def chk_simps)
    have "benign ?f" using assms(2) sl(2) by (simp add: benign_def wf_task_def task_identity_def slot_lens_def)
    then show ?thesis using on_task_safe[OF wf] e by simp
  next
    case False
    then show ?thesis using wf Some by (auto simp: set_slots_def chk_simps)
  qed
qed

lemma entry_readers:
  "e + 12 \<le> length body \<Longrightarrow> buffer_entry body e \<noteq> None" "e + 4 \<le> length body \<Longrightarrow> texture_entry body e \<noteq> None"
  by (simp_all add: buffer_entry_def texture_entry_def chk_simps)

lemma slot_lenses:
  "slot_lens fragment_buffers (\<lambda>l b. b\<lparr>fragment_buffers := l\<rparr>)"
  "slot_lens fragment_textures (\<lambda>l b. b\<lparr>fragment_textures := l\<rparr>)"
  "slot_lens vertex_buffers (\<lambda>l b. b\<lparr>vertex_buffers := l\<rparr>)"
  by (simp_all add: slot_lens_def wf_bindings_def)

interpretation set_frag_bufs: inner_op op_set_fragment_buffers
  by unfold_locales (simp only: op_set_fragment_buffers_def, rule set_slots_safe, auto simp: slot_lenses entry_readers)

interpretation set_frag_texs: inner_op op_set_fragment_textures
  by unfold_locales (simp only: op_set_fragment_textures_def, rule set_slots_safe, auto simp: slot_lenses entry_readers)

interpretation set_vert_bufs: inner_op op_set_vertex_buffers
  by unfold_locales (simp only: op_set_vertex_buffers_def, rule set_slots_safe, auto simp: slot_lenses entry_readers)

interpretation set_frag_samplers: inner_op op_set_fragment_sampler_states
proof (rule inner_opI, goal_cases)
  case (1 sh k body s)
  let ?n = "min (unat (le32_at body 4)) 4"
  have "those (map (\<lambda>i. lagfx_le32 body (8 + i * 4)) [0..<?n]) =
      those (map (\<lambda>i. Some (le32_at body (8 + i * 4))) [0..<?n])"
    if "8 + unat (le32_at body 4) * 4 \<le> length body"
    using that by (intro arg_cong[of _ _ those] map_cong) (auto simp: le32_in)
  then show ?case by (auto simp: op_set_fragment_sampler_states_def chk_simps those_map_Some not_less)
qed

lemma benign_offset:
  "benign (\<lambda>t. t\<lparr>t_bindings := (t_bindings t)\<lparr>fragment_buffers := set_offset i off (fragment_buffers (t_bindings t))\<rparr>\<rparr>)"
  "benign (\<lambda>t. t\<lparr>t_bindings := (t_bindings t)\<lparr>vertex_buffers := set_offset i off (vertex_buffers (t_bindings t))\<rparr>\<rparr>)"
  by (simp_all add: benign_def wf_task_def wf_bindings_def set_offset_def task_identity_def)

interpretation set_frag_off: inner_op op_set_fragment_buffer_offset
  by (rule inner_opI) (auto simp: op_set_fragment_buffer_offset_def chk_simps benign_offset)

interpretation set_vert_off: inner_op op_set_vertex_buffer_offset
  by (rule inner_opI) (auto simp: op_set_vertex_buffer_offset_def chk_simps benign_offset)

lemma compute_table_ops: "h \<in> snd ` set compute_inner_op_table \<Longrightarrow> inner_op h"
  by (simp add: compute_inner_op_table_def image_iff)
     (elim disjE; simp add: draw16.inner_op_axioms draw64.inner_op_axioms draw_inst16.inner_op_axioms
        draw_idx64.inner_op_axioms draw_idx16.inner_op_axioms barrier.inner_op_axioms
        set_pipeline.inner_op_axioms set_viewport.inner_op_axioms set_scissor.inner_op_axioms
        describe_pass.inner_op_axioms set_frag_bufs.inner_op_axioms set_frag_texs.inner_op_axioms
        set_vert_bufs.inner_op_axioms set_frag_samplers.inner_op_axioms set_frag_off.inner_op_axioms
        set_vert_off.inner_op_axioms)

interpretation compute_inner: inner_op "\<lambda>sh k. lagfx_compute_inner_dispatch sh k opcode" for opcode
proof (unfold_locales, goal_cases)
  case (1 s sh k body)
  show ?case
  proof (cases "map_of compute_inner_op_table opcode :: 'a inner option")
    case None
    then show ?thesis using 1 by (simp add: lagfx_compute_inner_dispatch_def)
  next
    case (Some h)
    then have "inner_op h" by (intro compute_table_ops) (force dest: map_of_SomeD)
    then show ?thesis using inner_op.safe[of h s sh k body] 1 Some by (simp add: lagfx_compute_inner_dispatch_def)
  qed
qed

subsection \<open>What a binding operation binds\<close>

definition entry_slot :: "u32 \<times> u64 \<Rightarrow> binding_slot" where
  "entry_slot e = \<lparr>bs_ref = fst e, bs_offset = snd e, bs_valid = (fst e \<noteq> 0)\<rparr>"

lemma bind_loop_slots:
  assumes rd: "\<And>e. e + eb \<le> length body \<Longrightarrow> entry body e \<noteq> None"
  shows "8 + (i + n) * eb \<le> length body \<Longrightarrow> unat first + i + n < 2 ^ 32 \<Longrightarrow> length slots = 32 \<Longrightarrow>
    bind_loop entry eb body first i n slots = Some slots' \<Longrightarrow> k < 32 \<Longrightarrow>
    slots' ! k = (if unat first + i \<le> k \<and> k < unat first + i + n
                  then entry_slot (the (entry body (8 + (k - unat first) * eb))) else slots ! k)"
proof (induction n arbitrary: i slots)
  case 0
  then have "slots' = slots" by simp
  then show ?case by auto
next
  case (Suc n)
  have "8 + i * eb + eb \<le> length body" using Suc.prems(1) by (simp add: add_mult_distrib)
  then obtain ref off where e: "entry body (8 + i * eb) = Some (ref, off)" using rd by fastforce
  let ?idx = "first + of_nat i"
  have u: "unat ?idx = unat first + i"
    using Suc.prems(2) by (subst unat_add_small) (auto simp: unat_of_nat_small)
  let ?sl = "if ?idx \<ge> 32 then slots else slots[unat ?idx := entry_slot (ref, off)]"
  have "bind_loop entry eb body first (i + 1) n ?sl = Some slots'"
    using Suc.prems(4) e by (simp add: Let_def entry_slot_def split: if_splits)
  moreover have "length ?sl = 32" using Suc.prems(3) by simp
  ultimately have "slots' ! k = (if unat first + (i + 1) \<le> k \<and> k < unat first + (i + 1) + n
      then entry_slot (the (entry body (8 + (k - unat first) * eb))) else ?sl ! k)"
    using Suc.prems(1,2,5) by (intro Suc.IH) auto
  moreover have "?sl ! k = (if k = unat first + i then entry_slot (ref, off) else slots ! k)"
    using Suc.prems(3,5) by (auto simp: word_le_nat_alt u)
  ultimately show ?case using e by (cases "k = unat first + i") auto
qed

text \<open>The slots after a binding command: the addressed range holds the entries of the body,
  every other slot of every table is as before.\<close>

lemma set_slots_binds:
  fixes s :: "'g sys"
  assumes wf: "wf_sys s" and t: "live_task k s = Some i" and len: "8 + unat (le32_at body 4) * eb \<le> length body"
    and rng: "unat (le32_at body 0) + unat (le32_at body 4) < 2 ^ 32"
    and l: "slot_lens get put" and gp: "\<And>b sl. get (put sl b) = sl"
    and rd: "\<And>e. e + eb \<le> length body \<Longrightarrow> entry body e \<noteq> None" and j: "j < 32"
  shows "\<exists>s'. set_slots entry eb get put k body s = Some (0, s') \<and>
    get (t_bindings (tasks (proto s') ! i)) ! j =
      (if unat (le32_at body 0) \<le> j \<and> j < unat (le32_at body 0) + unat (le32_at body 4)
       then entry_slot (the (entry body (8 + (j - unat (le32_at body 0)) * eb)))
       else get (t_bindings (tasks (proto s) ! i)) ! j)"
proof -
  let ?b = "t_bindings (tasks (proto s) ! i)"
  have i: "i < length (tasks (proto s))" "wf_bindings ?b"
    using live_task_bound[OF t] wf by (auto simp: wf_sys_def wf_tables_def wf_task_def)
  then have g: "length (get ?b) = 32" using l by (simp add: slot_lens_def)
  obtain sl where sl: "bind_loop entry eb body (le32_at body 0) 0 (unat (le32_at body 4)) (get ?b) = Some sl"
    using bind_loop_total[of eb body entry 0 "unat (le32_at body 4)" "le32_at body 0" "get ?b"] rd len by auto
  have v: "sl ! j = (if unat (le32_at body 0) \<le> j \<and> j < unat (le32_at body 0) + unat (le32_at body 4)
       then entry_slot (the (entry body (8 + (j - unat (le32_at body 0)) * eb))) else get ?b ! j)"
    using bind_loop_slots[of eb body entry 0 "unat (le32_at body 4)" "le32_at body 0" "get ?b" sl j] rd len rng g sl j
    by simp
  have "set_slots entry eb get put k body s =
      Some (0, s\<lparr>proto := upd_task i (\<lambda>t. t\<lparr>t_bindings := put sl (t_bindings t)\<rparr>) (proto s)\<rparr>)"
    using len sl t by (simp add: set_slots_def chk_simps on_task_def)
  then show ?thesis using v i(1) by (simp add: upd_task_def gp)
qed

end
