(* ===== verification/RenderPass.thy ===== *)
theory RenderPass
  imports LittleEndian
begin

text \<open>
  The 584-byte render pass descriptor, \<^verbatim>\<open>src/handlers/compute/render_pass.c\<close> with the wire
  layout of \<^verbatim>\<open>src/protocol/render_pass.h\<close>.  Parsing is shown to invert an encoder written
  from the layout comment.  A double is its 64-bit pattern.
\<close>

abbreviation (input) LAGFX_RENDER_PASS_WIRE_SIZE :: nat where "LAGFX_RENDER_PASS_WIRE_SIZE \<equiv> 584"

record color_attachment =
  ca_texture_ref :: u32
  ca_resolve_texture_ref :: u32
  ca_load_action :: u16
  ca_store_action :: u16
  ca_clear_color :: "u64 list"

record depth_attachment =
  da_texture_ref :: u32
  da_resolve_texture_ref :: u32
  da_level :: u16
  da_slice :: u16
  da_load_action :: u16
  da_store_action :: u16
  da_clear_value :: u64

record stencil_attachment =
  sa_texture_ref :: u32
  sa_resolve_texture_ref :: u32
  sa_load_action :: u16
  sa_store_action :: u16
  sa_clear_value :: u32

text \<open>\<^verbatim>\<open>has_depth\<close> and \<^verbatim>\<open>has_stencil\<close> are options; the colour array up to
  \<^verbatim>\<open>color_attachment_count\<close> is a list.\<close>

record render_pass_full_desc =
  rp_depth :: "depth_attachment option"
  rp_stencil :: "stencil_attachment option"
  rp_colors :: "color_attachment list"
  rp_width :: u64
  rp_height :: u64
  rp_array_length :: u64
  rp_visibility_ref :: u32

definition parse_depth :: "bytes \<Rightarrow> depth_attachment option option" where
  "parse_depth w = do {
     ref \<leftarrow> lagfx_le32 w 0x00;
     if ref = 0 then Some None else do {
     res \<leftarrow> lagfx_le32 w 0x04;
     level \<leftarrow> lagfx_le16 w 0x08;
     slice \<leftarrow> lagfx_le16 w 0x0a;
     la \<leftarrow> lagfx_le16 w 0x14;
     sa \<leftarrow> lagfx_le16 w 0x16;
     cl \<leftarrow> lagfx_le64 w 0x1c;
     Some (Some \<lparr>da_texture_ref = ref, da_resolve_texture_ref = res, da_level = level, da_slice = slice,
                 da_load_action = la, da_store_action = sa, da_clear_value = cl\<rparr>) } }"

definition parse_stencil :: "bytes \<Rightarrow> stencil_attachment option option" where
  "parse_stencil w = do {
     ref \<leftarrow> lagfx_le32 w 0x28;
     if ref = 0 then Some None else do {
     res \<leftarrow> lagfx_le32 w 0x2c;
     la \<leftarrow> lagfx_le16 w 0x3c;
     sa \<leftarrow> lagfx_le16 w 0x3e;
     cl \<leftarrow> lagfx_le32 w 0x44;
     Some (Some \<lparr>sa_texture_ref = ref, sa_resolve_texture_ref = res,
                 sa_load_action = la, sa_store_action = sa, sa_clear_value = cl\<rparr>) } }"

definition parse_color :: "bytes \<Rightarrow> nat \<Rightarrow> color_attachment option option" where
  "parse_color w base = do {
     ref \<leftarrow> lagfx_le32 w base;
     if ref = 0 then Some None else do {
     res \<leftarrow> lagfx_le32 w (base + 0x04);
     la \<leftarrow> lagfx_le16 w (base + 0x14);
     sa \<leftarrow> lagfx_le16 w (base + 0x16);
     c0 \<leftarrow> lagfx_le64 w (base + 0x1c);
     c1 \<leftarrow> lagfx_le64 w (base + 0x24);
     c2 \<leftarrow> lagfx_le64 w (base + 0x2c);
     c3 \<leftarrow> lagfx_le64 w (base + 0x34);
     Some (Some \<lparr>ca_texture_ref = ref, ca_resolve_texture_ref = res,
                 ca_load_action = la, ca_store_action = sa, ca_clear_color = [c0, c1, c2, c3]\<rparr>) } }"

text \<open>The loop over the colour slots \<open>i\<close> to 7; empty slots are skipped.\<close>

fun parse_colors :: "bytes \<Rightarrow> nat \<Rightarrow> nat \<Rightarrow> color_attachment list \<Rightarrow> color_attachment list option" where
  "parse_colors w i 0 out = Some out"
| "parse_colors w i (Suc n) out = do {
     c \<leftarrow> parse_color w (0x4c + 0x3c * i);
     parse_colors w (i + 1) n (case c of None \<Rightarrow> out | Some a \<Rightarrow> out @ [a]) }"

text \<open>The outer option is an access outside the payload, the inner \<^const>\<open>None\<close> the return
  value -1.\<close>

definition lagfx_parse_render_pass_descriptor :: "bytes \<Rightarrow> render_pass_full_desc option option" where
  "lagfx_parse_render_pass_descriptor payload =
     (if length payload < LAGFX_RENDER_PASS_WIRE_SIZE then Some None
      else do {
        wire \<leftarrow> rd_list payload 0 LAGFX_RENDER_PASS_WIRE_SIZE;
        depth \<leftarrow> parse_depth wire;
        stencil \<leftarrow> parse_stencil wire;
        colors \<leftarrow> parse_colors wire 0 8 [];
        w \<leftarrow> lagfx_le64 wire 0x238;
        h \<leftarrow> lagfx_le64 wire 0x240;
        al \<leftarrow> lagfx_le64 wire 0x230;
        vis \<leftarrow> lagfx_le32 wire 0x22c;
        Some (Some \<lparr>rp_depth = depth, rp_stencil = stencil, rp_colors = colors, rp_width = w,
                    rp_height = h, rp_array_length = al, rp_visibility_ref = vis\<rparr>) })"

subsection \<open>Every payload is parsed within its bounds\<close>

lemma parse_color_total: "base + 0x3c \<le> length w \<Longrightarrow> \<exists>c. parse_color w base = Some c"
  by (simp add: parse_color_def chk_simps)

lemma parse_colors_total: "0x4c + 0x3c * (i + n) \<le> length w \<Longrightarrow>
    \<exists>cs. parse_colors w i n out = Some cs \<and> length cs \<le> length out + n"
proof (induction n arbitrary: i out)
  case (Suc n)
  then obtain c where c: "parse_color w (0x4c + 0x3c * i) = Some c"
    using parse_color_total[of "0x4c + 0x3c * i" w] by auto
  then show ?case
    using Suc.IH[of "i + 1" "case c of None \<Rightarrow> out | Some a \<Rightarrow> out @ [a]"] Suc.prems
    by (auto split: option.splits)
qed simp

lemma parse_render_pass_total:
  "\<exists>r. lagfx_parse_render_pass_descriptor payload = Some r \<and>
     (r = None \<longleftrightarrow> length payload < LAGFX_RENDER_PASS_WIRE_SIZE) \<and>
     (\<forall>d. r = Some d \<longrightarrow> length (rp_colors d) \<le> 8)"
proof (cases "length payload < LAGFX_RENDER_PASS_WIRE_SIZE")
  case False
  let ?w = "take 584 payload"
  have len: "length ?w = 584" using False by simp
  have "\<exists>d. parse_depth ?w = Some d" "\<exists>d. parse_stencil ?w = Some d"
    using len by (simp_all add: parse_depth_def parse_stencil_def chk_simps)
  moreover have "\<exists>cs. parse_colors ?w 0 8 [] = Some cs \<and> length cs \<le> 8"
    using parse_colors_total[of 0 8 ?w "[]"] len by simp
  ultimately show ?thesis
    using False len by (auto simp: lagfx_parse_render_pass_descriptor_def chk_simps)
qed (simp add: lagfx_parse_render_pass_descriptor_def)

subsection \<open>Parsing inverts encoding\<close>

definition color_bytes :: "color_attachment \<Rightarrow> bytes" where
  "color_bytes c = le_bytes32 (ca_texture_ref c) @ le_bytes32 (ca_resolve_texture_ref c) @ replicate 12 0 @
     le_bytes16 (ca_load_action c) @ le_bytes16 (ca_store_action c) @ replicate 4 0 @
     concat (map le_bytes64 (ca_clear_color c))"

definition depth_bytes :: "depth_attachment option \<Rightarrow> bytes" where
  "depth_bytes d = (case d of None \<Rightarrow> replicate 40 0 | Some a \<Rightarrow>
     le_bytes32 (da_texture_ref a) @ le_bytes32 (da_resolve_texture_ref a) @ le_bytes16 (da_level a) @
     le_bytes16 (da_slice a) @ replicate 8 0 @ le_bytes16 (da_load_action a) @ le_bytes16 (da_store_action a) @
     replicate 4 0 @ le_bytes64 (da_clear_value a) @ replicate 4 0)"

definition stencil_bytes :: "stencil_attachment option \<Rightarrow> bytes" where
  "stencil_bytes s = (case s of None \<Rightarrow> replicate 36 0 | Some a \<Rightarrow>
     le_bytes32 (sa_texture_ref a) @ le_bytes32 (sa_resolve_texture_ref a) @ replicate 12 0 @
     le_bytes16 (sa_load_action a) @ le_bytes16 (sa_store_action a) @ replicate 4 0 @
     le_bytes32 (sa_clear_value a) @ replicate 4 0)"

definition encode_render_pass :: "render_pass_full_desc \<Rightarrow> bytes" where
  "encode_render_pass d = depth_bytes (rp_depth d) @ stencil_bytes (rp_stencil d) @
     concat (map color_bytes (rp_colors d)) @ replicate (60 * (8 - length (rp_colors d))) 0 @
     le_bytes32 (rp_visibility_ref d) @ le_bytes64 (rp_array_length d) @ le_bytes64 (rp_width d) @
     le_bytes64 (rp_height d)"

definition wf_color :: "color_attachment \<Rightarrow> bool" where
  "wf_color c \<longleftrightarrow> ca_texture_ref c \<noteq> 0 \<and> length (ca_clear_color c) = 4"

definition wf_render_pass :: "render_pass_full_desc \<Rightarrow> bool" where
  "wf_render_pass d \<longleftrightarrow> (\<forall>a. rp_depth d = Some a \<longrightarrow> da_texture_ref a \<noteq> 0) \<and>
     (\<forall>a. rp_stencil d = Some a \<longrightarrow> sa_texture_ref a \<noteq> 0) \<and>
     length (rp_colors d) \<le> 8 \<and> (\<forall>c \<in> set (rp_colors d). wf_color c)"

lemma list4: "length xs = 4 \<Longrightarrow> \<exists>a b c d. xs = [a, b, c, d]"
  by (simp add: length_Suc_conv numeral_eq_Suc) blast

lemma color_bytes_length: "wf_color c \<Longrightarrow> length (color_bytes c) = 60"
  by (auto simp: color_bytes_def wf_color_def dest!: list4)

lemma section_lengths [simp]: "length (depth_bytes d) = 40" "length (stencil_bytes s) = 36"
  by (simp_all add: depth_bytes_def stencil_bytes_def split: option.split)

lemma colors_length: "\<forall>c \<in> set cs. wf_color c \<Longrightarrow> length (concat (map color_bytes cs)) = 60 * length cs"
  by (induction cs) (simp_all add: color_bytes_length)

lemma zero_read:
  "n + 4 \<le> m \<Longrightarrow> lagfx_le32 (replicate m 0) n = Some 0"
  by (simp add: lagfx_le32_def)

lemma parse_depth_bytes:
  "(\<And>a. d = Some a \<Longrightarrow> da_texture_ref a \<noteq> 0) \<Longrightarrow> parse_depth (depth_bytes d @ r) = Some d"
  by (cases d) (simp_all add: parse_depth_def depth_bytes_def concat_read zero_read)

lemma parse_stencil_bytes:
  "length p = 40 \<Longrightarrow> (\<And>a. d = Some a \<Longrightarrow> sa_texture_ref a \<noteq> 0) \<Longrightarrow>
   parse_stencil (p @ stencil_bytes d @ r) = Some d"
  by (cases d) (simp_all add: parse_stencil_def stencil_bytes_def concat_read zero_read)

lemma parse_color_bytes:
  assumes "wf_color c"
  shows "parse_color (p @ color_bytes c @ r) (length p) = Some (Some c)"
proof -
  obtain a b x y where "ca_clear_color c = [a, b, x, y]" using assms list4[of "ca_clear_color c"] by (auto simp: wf_color_def)
  then show ?thesis
    using assms by (cases c) (simp add: parse_color_def color_bytes_def wf_color_def concat_read)
qed

lemma parse_color_zero: "60 \<le> m \<Longrightarrow> parse_color (p @ replicate m 0 @ r) (length p) = Some None"
  by (simp add: parse_color_def concat_read zero_read)

lemma parse_colors_zero:
  "length p = 0x4c + 0x3c * i \<Longrightarrow> parse_colors (p @ replicate (60 * n) 0 @ r) i n out = Some out"
proof (induction n arbitrary: i p)
  case (Suc n)
  have "replicate (60 * Suc n) (0::u8) = replicate 60 0 @ replicate (60 * n) 0"
    by (simp add: replicate_add[symmetric])
  then have "parse_colors (p @ replicate (60 * Suc n) 0 @ r) (i + 1) n out = Some out"
    using Suc.IH[of "p @ replicate 60 0" "i + 1"] Suc.prems by simp
  then show ?case using parse_color_zero[of "60 * Suc n" p r] Suc.prems by simp
qed simp

lemma parse_colors_bytes:
  "length p = 0x4c + 0x3c * i \<Longrightarrow> \<forall>c \<in> set cs. wf_color c \<Longrightarrow>
   parse_colors (p @ concat (map color_bytes cs) @ replicate (60 * n) 0 @ r) i (length cs + n) out = Some (out @ cs)"
proof (induction cs arbitrary: i p out)
  case Nil
  then show ?case using parse_colors_zero[of p i n r out] by simp
next
  case (Cons c cs)
  let ?r = "concat (map color_bytes cs) @ replicate (60 * n) 0 @ r"
  have "parse_colors ((p @ color_bytes c) @ ?r) (i + 1) (length cs + n) (out @ [c]) = Some ((out @ [c]) @ cs)"
    using Cons.prems by (intro Cons.IH) (simp_all add: color_bytes_length)
  moreover have "parse_color (p @ color_bytes c @ ?r) (length p) = Some (Some c)"
    using Cons.prems by (intro parse_color_bytes) simp
  ultimately show ?case using Cons.prems by simp
qed

lemma parse_encode_render_pass:
  assumes "wf_render_pass d"
  shows "lagfx_parse_render_pass_descriptor (encode_render_pass d @ rest) = Some (Some d)"
proof -
  let ?cs = "rp_colors d"
  let ?cb = "concat (map color_bytes ?cs) @ replicate (60 * (8 - length ?cs)) (0::u8)"
  let ?tail = "le_bytes32 (rp_visibility_ref d) @ le_bytes64 (rp_array_length d) @ le_bytes64 (rp_width d) @
     le_bytes64 (rp_height d)"
  let ?w = "encode_render_pass d"
  have w: "?w = depth_bytes (rp_depth d) @ stencil_bytes (rp_stencil d) @ ?cb @ ?tail"
    by (simp add: encode_render_pass_def)
  have cs: "\<forall>c \<in> set ?cs. wf_color c" "length ?cs \<le> 8" using assms by (simp_all add: wf_render_pass_def)
  have cl: "length ?cb = 480" using colors_length[OF cs(1)] cs(2) by simp
  have len: "length ?w = 584" using cl by (simp add: w)
  have "parse_depth ?w = Some (rp_depth d)"
    unfolding w using assms by (intro parse_depth_bytes) (simp add: wf_render_pass_def)
  moreover have "parse_stencil ?w = Some (rp_stencil d)"
    unfolding w using assms by (intro parse_stencil_bytes) (simp_all add: wf_render_pass_def)
  moreover have "parse_colors ?w 0 8 [] = Some ?cs"
    using parse_colors_bytes[of "depth_bytes (rp_depth d) @ stencil_bytes (rp_stencil d)" 0 ?cs
        "8 - length ?cs" ?tail "[]"] cs
    by (simp add: w)
  moreover have "lagfx_le32 ?w 0x22c = Some (rp_visibility_ref d)" "lagfx_le64 ?w 0x230 = Some (rp_array_length d)"
    "lagfx_le64 ?w 0x238 = Some (rp_width d)" "lagfx_le64 ?w 0x240 = Some (rp_height d)"
    unfolding w using cl by (simp_all add: concat_read del: length_append append_assoc)
  ultimately show ?thesis
    using len by (simp add: lagfx_parse_render_pass_descriptor_def rd_list_def)
qed

end
