(* ===== verification/RenderInner.thy ===== *)
theory RenderInner
  imports InnerSpec RenderPass
begin

text \<open>
  The render and blit inner opcodes, \<^verbatim>\<open>src/handlers/compute/render_inner_ops.c\<close> and
  \<^verbatim>\<open>src/handlers/compute/blit_inner_ops.c\<close>.  In a build without Vulkan their handlers decode
  the payload for the log and change nothing but a counter, so what matters of them is
  which bytes they read: a handler is the size it insists on and the accesses, as
  pairs of offset and width, that it makes once the payload has that size.
\<close>

subsection \<open>Render handlers\<close>

datatype render_handler =
  Op_ack
| Op_fixed nat "(nat \<times> nat) list"
| Op_buffers nat
| Op_describe

definition render_draw_ops :: "(u32 \<times> render_handler) list" where
  "render_draw_ops = [
     (0x00, Op_fixed 20 [(0, 4), (4, 8), (12, 8)]),
     (0x01, Op_fixed 8 [(0, 4), (4, 2), (6, 2)]),
     (0x02, Op_fixed 28 [(0, 4), (4, 8), (12, 8), (20, 8)]),
     (0x03, Op_fixed 8 [(0, 4), (4, 2), (6, 2)]),
     (0x04, Op_fixed 36 [(0, 4)]),
     (0x05, Op_fixed 12 [(0, 4)]),
     (0x06, Op_fixed 24 [(0, 4), (4, 4), (8, 4), (12, 4), (16, 8)]),
     (0x07, Op_fixed 12 [(0, 4), (4, 2), (8, 4)]),
     (0x08, Op_fixed 32 [(0, 4), (4, 4)]),
     (0x09, Op_fixed 16 [(0, 4)]),
     (0x0a, Op_fixed 48 [(0, 4)]),
     (0x0b, Op_fixed 20 [(0, 4)])]"

definition render_indirect_ops :: "(u32 \<times> render_handler) list" where
  "render_indirect_ops = [
     (0x0c, Op_fixed 48 []),
     (0x0d, Op_fixed 16 []),
     (0x0e, Op_fixed 60 []),
     (0x0f, Op_fixed 24 []),
     (0x10, Op_fixed 16 [(0, 4), (4, 4)]),
     (0x11, Op_fixed 28 [(0, 4)]),
     (0x12, Op_fixed 28 []),
     (0x13, Op_fixed 40 []),
     (0x14, Op_fixed 16 [(0, 4), (4, 4)]),
     (0x15, Op_fixed 20 [(0, 4)]),
     (0x16, Op_ack),
     (0x17, Op_fixed 4 [(0, 4)]),
     (0x18, Op_fixed 8 [(0, 4), (4, 4)]),
     (0x19, Op_fixed 8 [(0, 4), (4, 4)])]"

definition render_pass_ops :: "(u32 \<times> render_handler) list" where
  "render_pass_ops = [
     (0x1a, Op_describe),
     (0x1b, Op_fixed 8 [(0, 4), (4, 4)]),
     (0x1c, Op_fixed 48 [(0, 4)]),
     (0x1d, Op_fixed 20 [(0, 4)]),
     (0x2c, Op_fixed 88 (map (\<lambda>i. (i, 1)) [0..<88])),
     (0x3c, Op_fixed 8 [(0, 4), (4, 4)])]"

definition render_depth_ops :: "(u32 \<times> render_handler) list" where
  "render_depth_ops = [
     (0x65, Op_fixed 16 [(0, 4), (4, 4), (8, 4), (12, 4)]),
     (0x66, Op_fixed 8 [(0, 4), (4, 4)]),
     (0x67, Op_fixed 12 [(0, 4), (4, 4)]),
     (0x68, Op_fixed 4 [(0, 4)]),
     (0x69, Op_fixed 8 [(0, 4)]),
     (0x6a, Op_fixed 8 [(0, 4)]),
     (0x6b, Op_fixed 8 [(0, 4), (4, 4)]),
     (0x6c, Op_fixed 12 [(0, 4), (4, 4), (8, 4)]),
     (0x6d, Op_fixed 8 [(0, 4), (4, 4)])]"

definition render_fragment_ops :: "(u32 \<times> render_handler) list" where
  "render_fragment_ops = [
     (0x6e, Op_buffers 12),
     (0x6f, Op_fixed 12 [(4, 8), (0, 4)]),
     (0x70, Op_buffers 4),
     (0x71, Op_buffers 12),
     (0x72, Op_buffers 4),
     (0x73, Op_fixed 8 [(0, 4), (4, 4)]),
     (0x74, Op_fixed 4 [(0, 4)]),
     (0x75, Op_fixed 32 [(0, 8), (8, 8), (16, 8), (24, 8)]),
     (0x76, Op_fixed 4 [(0, 4)]),
     (0x77, Op_fixed 8 [(0, 4), (4, 4)]),
     (0x78, Op_fixed 8 [(0, 4)]),
     (0x79, Op_fixed 8 [(0, 4)]),
     (0x7a, Op_fixed 20 [(0, 4)]),
     (0x7b, Op_fixed 4 [(0, 4)]),
     (0x7c, Op_fixed 8 [(0, 4)])]"

definition render_vertex_ops :: "(u32 \<times> render_handler) list" where
  "render_vertex_ops = [
     (0x7d, Op_buffers 12),
     (0x7e, Op_fixed 12 [(4, 8), (0, 4)]),
     (0x7f, Op_buffers 4),
     (0x80, Op_buffers 12),
     (0x81, Op_buffers 4),
     (0x82, Op_fixed 48 [(0, 8), (8, 8), (16, 8), (24, 8), (32, 8), (40, 8)]),
     (0x83, Op_fixed 4 [(0, 4)]),
     (0x84, Op_fixed 16 [(0, 4), (8, 8)]),
     (0x85, Op_ack),
     (0x86, Op_fixed 4 [(0, 4)]),
     (0x87, Op_fixed 8 [(0, 4), (4, 4)]),
     (0x88, Op_fixed 4 [(0, 4)]),
     (0x89, Op_fixed 12 [(0, 4), (4, 4), (8, 4)]),
     (0x8a, Op_fixed 4 [(0, 4)]),
     (0x8b, Op_fixed 4 [(0, 4)])]"

definition render_resolve_ops :: "(u32 \<times> render_handler) list" where
  "render_resolve_ops = [
     (0x8c, Op_fixed 20 [(0, 4), (4, 4), (8, 4), (12, 4), (16, 4)]),
     (0x8d, Op_fixed 20 [(0, 4), (16, 4)]),
     (0x8e, Op_fixed 20 [(0, 4), (16, 4)]),
     (0x8f, Op_fixed 4 [(0, 4)]),
     (0x90, Op_fixed 4 [(0, 4)]),
     (0x91, Op_fixed 8 [(0, 4), (4, 4)]),
     (0x92, Op_fixed 4 [(0, 4)]),
     (0x93, Op_fixed 4 [(0, 4)]),
     (0x94, Op_ack),
     (0x95, Op_ack),
     (0x96, Op_fixed 16 [(0, 4), (4, 4)]),
     (0x97, Op_fixed 12 [(0, 4)]),
     (0x98, Op_fixed 12 [(0, 4)]),
     (0x99, Op_fixed 8 [(0, 4), (4, 4)]),
     (0x9a, Op_fixed 4 [(0, 4)])]"

definition render_tile_ops :: "(u32 \<times> render_handler) list" where
  "render_tile_ops = [
     (0x9b, Op_fixed 24 [(0, 8), (8, 8), (16, 8)]),
     (0x9c, Op_fixed 20 [(0, 8), (8, 8), (16, 4)]),
     (0x9d, Op_buffers 12),
     (0x9e, Op_fixed 12 [(4, 8), (0, 4)]),
     (0x9f, Op_buffers 4),
     (0xa0, Op_buffers 12),
     (0xa1, Op_buffers 4),
     (0xa2, Op_fixed 76 [(0, 8), (8, 8), (16, 8)]),
     (0xa3, Op_fixed 76 [(72, 4)]),
     (0xa4, Op_fixed 12 [(0, 4), (4, 8)]),
     (0xa5, Op_buffers 20),
     (0xa6, Op_fixed 20 [(4, 8), (12, 8), (0, 4)])]"

definition render_table :: "(u32 \<times> render_handler) list" where
  "render_table = render_draw_ops @ render_indirect_ops @ render_pass_ops @ render_depth_ops @
     render_fragment_ops @ render_vertex_ops @ render_resolve_ops @ render_tile_ops"

definition render_table_lookup :: "u32 \<Rightarrow> render_handler option" where
  "render_table_lookup opcode =
     (if opcode > 0xa6 \<and> opcode \<noteq> 0x2c \<and> opcode \<noteq> 0x3c then None else map_of render_table opcode)"

text \<open>The accesses a handler makes; \<^const>\<open>None\<close> when one is outside the payload.\<close>

definition access :: "bytes \<Rightarrow> nat \<times> nat \<Rightarrow> bytes option" where
  "access b a = rd_list b (fst a) (snd a)"

definition accesses :: "bytes \<Rightarrow> (nat \<times> nat) list \<Rightarrow> unit option" where
  "accesses b as = map_option (\<lambda>_. ()) (those (map (access b) as))"

definition op_set_buffers_variable :: "bytes \<Rightarrow> nat \<Rightarrow> unit option" where
  "op_set_buffers_variable payload entry_bytes =
     (if length payload < 8 then Some ()
      else do {
        _ \<leftarrow> accesses payload (map (\<lambda>i. (i, 1)) [0..<min (length payload) 40]);
        count \<leftarrow> lagfx_le32 payload 0;
        first \<leftarrow> lagfx_le32 payload 4;
        let needed = 8 + unat count * entry_bytes;
        if length payload < needed then Some ()
        else accesses payload
          (concat (map (\<lambda>i. let e = 8 + i * entry_bytes in (e, 4) # (if entry_bytes \<ge> 12 then [(e + 4, 8)] else []))
             [0..<min (unat count) 4])) })"

text \<open>The attachment count the sighting line reports for 0x1a.\<close>

definition op_describe_render_pass :: "bytes \<Rightarrow> nat option" where
  "op_describe_render_pass payload =
     (if length payload < LAGFX_RENDER_PASS_WIRE_SIZE then Some 1
      else do {
        rc \<leftarrow> lagfx_parse_render_pass_descriptor payload;
        case rc of None \<Rightarrow> Some 1
        | Some desc \<Rightarrow>
            let attachments = (if rp_depth desc \<noteq> None then 1 else 0) + (if rp_stencil desc \<noteq> None then 1 else 0) +
                              length (rp_colors desc)
            in Some (if attachments = 0 then 1 else attachments) })"

definition run_render_handler :: "render_handler \<Rightarrow> bytes \<Rightarrow> unit option" where
  "run_render_handler h payload =
     (case h of
        Op_ack \<Rightarrow> Some ()
      | Op_fixed n as \<Rightarrow> if length payload < n then Some () else accesses payload as
      | Op_buffers e \<Rightarrow> op_set_buffers_variable payload e
      | Op_describe \<Rightarrow> map_option (\<lambda>_. ()) (op_describe_render_pass payload))"

definition lagfx_render_inner_dispatch :: "u32 \<Rightarrow> bytes \<Rightarrow> 'g sys \<Rightarrow> (nat \<times> 'g sys) option" where
  "lagfx_render_inner_dispatch opcode payload s =
     (let p = proto s; d = p_diag p;
          s' = s\<lparr>proto := p\<lparr>p_diag := d\<lparr>unknown_render_ops := unknown_render_ops d + 1\<rparr>\<rparr>\<rparr>
      in case render_table_lookup opcode of None \<Rightarrow> Some (0, s')
         | Some h \<Rightarrow> do { _ \<leftarrow> run_render_handler h payload; Some (0, s') })"

subsection \<open>Blit handlers\<close>

datatype blit_handler = Blit_ack | Blit_copy_texture_to_texture | Blit_fill_texture_with_color

definition op_copy_texture_to_texture :: "bytes \<Rightarrow> unit option" where
  "op_copy_texture_to_texture payload =
     (if length payload < 40 then Some ()
      else accesses payload [(0, 4), (4, 4), (8, 4), (12, 4), (16, 4), (20, 4), (24, 4), (28, 4), (32, 4), (36, 4)])"

definition op_fill_texture_with_color :: "bytes \<Rightarrow> unit option" where
  "op_fill_texture_with_color payload =
     (if length payload < 92 then Some ()
      else accesses payload ([(0, 4), (4, 4), (8, 4), (12, 4), (16, 4), (20, 4), (24, 4), (28, 4), (32, 4)] @
             map (\<lambda>i. (36 + i * 8, 8)) [0..<4] @ [(68, 4)]))"

text \<open>The two tables: 24 opcodes from 0x12c on, and the low-range extension.\<close>

definition blit_g_table :: "blit_handler list" where
  "blit_g_table = (replicate 24 Blit_ack)[3 := Blit_copy_texture_to_texture, 21 := Blit_fill_texture_with_color]"

definition blit_ext_table :: "u32 list" where
  "blit_ext_table = [0x001, 0x01a, 0x06e, 0x070, 0x072, 0x074, 0x07d]"

definition blit_table_lookup :: "u32 \<Rightarrow> blit_handler option" where
  "blit_table_lookup opcode =
     (if opcode \<ge> 0x001 \<and> opcode \<le> 0x07d then
        (if opcode \<in> set blit_ext_table then Some Blit_ack else None)
      else if opcode < 0x12c \<or> opcode > 0x143 then None
      else let idx = unat (opcode - 0x12c) in
           if idx \<ge> length blit_g_table then None else Some (blit_g_table ! idx))"

definition lagfx_blit_inner_dispatch :: "u32 \<Rightarrow> bytes \<Rightarrow> 'g sys \<Rightarrow> (nat \<times> 'g sys) option" where
  "lagfx_blit_inner_dispatch opcode payload s =
     (case blit_table_lookup opcode of
        None \<Rightarrow> let p = proto s; d = p_diag p in
          Some (0, s\<lparr>proto := p\<lparr>p_diag := d\<lparr>unknown_blit_ops := unknown_blit_ops d + 1\<rparr>\<rparr>\<rparr>)
      | Some h \<Rightarrow> do {
          _ \<leftarrow> accesses payload (map (\<lambda>i. (i * 4, 4)) [0..<min (length payload div 4) 24]);
          _ \<leftarrow> (case h of Blit_ack \<Rightarrow> Some ()
                | Blit_copy_texture_to_texture \<Rightarrow> op_copy_texture_to_texture payload
                | Blit_fill_texture_with_color \<Rightarrow> op_fill_texture_with_color payload);
          Some (0, s) })"

subsection \<open>No handler reads outside its payload\<close>

lemma those_Some: "\<forall>x \<in> set xs. f x \<noteq> None \<Longrightarrow> \<exists>ys. those (map f xs) = Some ys"
  by (induction xs) auto

lemma accesses_ok: "\<forall>a \<in> set as. fst a + snd a \<le> length b \<Longrightarrow> accesses b as = Some ()"
  using those_Some[of as "access b"] by (auto simp: accesses_def access_def rd_list_def)

definition fits :: "render_handler \<Rightarrow> bool" where
  "fits h \<longleftrightarrow> (case h of Op_fixed n as \<Rightarrow> list_all (\<lambda>a. fst a + snd a \<le> n) as | Op_buffers e \<Rightarrow> e = 4 \<or> 12 \<le> e | _ \<Rightarrow> True)"

lemma render_table_fits: "list_all (\<lambda>e. fits (snd e)) render_table"
  by code_simp

lemma op_set_buffers_variable_ok:
  assumes "e = 4 \<or> 12 \<le> e"
  shows "op_set_buffers_variable payload e = Some ()"
proof (cases "8 + unat (le32_at payload 0) * e \<le> length payload")
  case True
  have "8 + i * e + e \<le> length payload" if "i < unat (le32_at payload 0)" for i
  proof -
    have "(i + 1) * e \<le> unat (le32_at payload 0) * e" using that by (intro mult_right_mono) auto
    then show ?thesis using True by simp
  qed
  note in_entry = this
  have "accesses payload (concat (map (\<lambda>i. let b = 8 + i * e in (b, 4) # (if e \<ge> 12 then [(b + 4, 8)] else []))
             [0..<min (unat (le32_at payload 0)) 4])) = Some ()"
    using assms by (intro accesses_ok) (auto simp: Let_def dest!: in_entry split: if_splits)
  moreover have "accesses payload (map (\<lambda>i. (i, 1)) [0..<min (length payload) 40]) = Some ()"
    by (rule accesses_ok) auto
  ultimately show ?thesis
    using True by (simp add: op_set_buffers_variable_def chk_simps Let_def)
next
  case False
  moreover have "accesses payload (map (\<lambda>i. (i, 1)) [0..<min (length payload) 40]) = Some ()"
    by (rule accesses_ok) auto
  ultimately show ?thesis by (simp add: op_set_buffers_variable_def chk_simps Let_def)
qed

lemma op_describe_ok: "\<exists>n \<ge> 1. op_describe_render_pass payload = Some n"
  using parse_render_pass_total[of payload]
  by (auto simp: op_describe_render_pass_def Let_def Suc_le_eq split: option.split)

lemma run_render_handler_ok: "fits h \<Longrightarrow> run_render_handler h payload = Some ()"
proof (cases h)
  case (Op_fixed n as)
  assume "fits h"
  then show ?thesis
    using Op_fixed by (auto simp: run_render_handler_def fits_def list_all_iff intro!: accesses_ok)
next
  case Op_describe
  then show ?thesis using op_describe_ok[of payload] by (auto simp: run_render_handler_def)
qed (simp_all add: run_render_handler_def fits_def op_set_buffers_variable_ok)

lemma render_lookup_fits: "render_table_lookup opcode = Some h \<Longrightarrow> fits h"
  using render_table_fits by (auto simp: render_table_lookup_def list_all_iff split: if_splits dest!: map_of_SomeD)

lemma render_dispatch_effect:
  "lagfx_render_inner_dispatch opcode payload s =
     Some (0, s\<lparr>proto := (proto s)\<lparr>p_diag := (p_diag (proto s))
       \<lparr>unknown_render_ops := unknown_render_ops (p_diag (proto s)) + 1\<rparr>\<rparr>\<rparr>)"
  by (simp add: lagfx_render_inner_dispatch_def Let_def run_render_handler_ok[OF render_lookup_fits] split: option.split)

lemma inner_frame_diag:
  "wf_sys s \<Longrightarrow> wf_sys (s\<lparr>proto := (proto s)\<lparr>p_diag := d\<rparr>\<rparr>) \<and> inner_frame s (s\<lparr>proto := (proto s)\<lparr>p_diag := d\<rparr>\<rparr>)"
  by (simp add: wf_sys_def wf_tables_def inner_frame_def frame_def geom_simps)

interpretation render_inner: inner_op "\<lambda>sh. lagfx_render_inner_dispatch"
  by unfold_locales (simp add: render_dispatch_effect inner_frame_diag)

lemma blit_accesses_ok:
  "accesses payload (map (\<lambda>i. (i * 4, 4)) [0..<min (length payload div 4) 24]) = Some ()"
  "op_copy_texture_to_texture payload = Some ()" "op_fill_texture_with_color payload = Some ()"
proof -
  show "accesses payload (map (\<lambda>i. (i * 4, 4)) [0..<min (length payload div 4) 24]) = Some ()"
  proof (intro accesses_ok ballI)
    fix a :: "nat \<times> nat" assume "a \<in> set (map (\<lambda>i. (i * 4, 4)) [0..<min (length payload div 4) 24])"
    then obtain i where "i < length payload div 4" "a = (i * 4, 4)" by auto
    then show "fst a + snd a \<le> length payload" using div_times_less_eq_dividend[of "length payload" 4] by simp
  qed
qed (auto simp: op_copy_texture_to_texture_def op_fill_texture_with_color_def intro!: accesses_ok)

interpretation blit_inner: inner_op "\<lambda>sh. lagfx_blit_inner_dispatch"
  by unfold_locales
     (auto simp: lagfx_blit_inner_dispatch_def blit_accesses_ok inner_frame_diag Let_def
        split: option.split blit_handler.split)

end
