(* ===== verification/ExecCmdbuf.thy ===== *)
theory ExecCmdbuf
  imports Ring InfoReplies ComputeInner RenderInner
begin

text \<open>
  \<^verbatim>\<open>CmdExecIndirect2\<close>, \<^verbatim>\<open>src/handlers/compute/exec_cmdbuf.c\<close>: the outer payload names command
  buffers in a task's virtual memory; each is read page by page, cut into encoder
  segments, and each segment into inner commands that are dispatched by encoder type.

  \<^verbatim>\<open>malloc\<close> is taken to succeed, so a command buffer is read in full; the one-time
  hexdumps are not modelled.  The task is the index of its slot, \<^const>\<open>None\<close> when the
  lookup failed.
\<close>

unbundle bit_operations_syntax

definition task_ptr :: "nat option \<Rightarrow> 'g sys \<Rightarrow> task_entry option" where
  "task_ptr task s = map_option (\<lambda>i. tasks (proto s) ! i) task"

subsection \<open>Inner commands of a segment\<close>

definition inner_step ::
  "'g shell \<Rightarrow> u8 \<Rightarrow> resource_table \<Rightarrow> u32 \<Rightarrow> nat option \<Rightarrow> u32 \<Rightarrow> bytes \<Rightarrow> 'g sys \<Rightarrow> 'g sys option" where
  "inner_step sh encoder_type outer_resources resource_count task opcode body s =
     (let op16 = opcode AND 0xffff in
      if encoder_type = 0 \<or> encoder_type = 1 then
        let task_id = (case task_ptr task s of None \<Rightarrow> 0xffffffff | Some t \<Rightarrow> t_id t)
        in map_option snd (lagfx_compute_inner_dispatch sh task_id op16 body s)
      else if encoder_type = 2 then map_option snd (lagfx_render_inner_dispatch op16 body s)
      else if encoder_type = 4 then
        (if op16 \<ge> 0x1c2 \<and> op16 \<le> 0x1d0
         then lagfx_info_dispatch sh op16 body outer_resources resource_count (task_ptr task s) lagfx_task_translate s
         else map_option snd (lagfx_blit_inner_dispatch op16 body s))
      else Some s)"

text \<open>The loop returns the number of commands seen.\<close>

function inner_walk_loop ::
  "'g shell \<Rightarrow> u8 \<Rightarrow> bytes \<Rightarrow> resource_table \<Rightarrow> u32 \<Rightarrow> nat option \<Rightarrow> nat \<Rightarrow> nat \<Rightarrow> 'g sys \<Rightarrow> (nat \<times> 'g sys) option" where
  "inner_walk_loop sh enc segment res rc task off observed s =
     (if off + 8 \<le> length segment then
        case (lagfx_le32 segment off, lagfx_le32 segment (off + 4)) of
          (Some opcode, Some total_len) \<Rightarrow>
            if total_len < 8 \<or> unat total_len > length segment - off then Some (observed, s)
            else (case rd_list segment (off + 8) (unat total_len - 8) of None \<Rightarrow> None
                  | Some body \<Rightarrow>
                      (case inner_step sh enc res rc task opcode body s of None \<Rightarrow> None
                       | Some s' \<Rightarrow> inner_walk_loop sh enc segment res rc task (off + unat total_len) (observed + 1) s'))
        | _ \<Rightarrow> None
      else Some (observed, s))"
  by pat_completeness auto
termination
  by (relation "measure (\<lambda>(_, _, segment, _, _, _, off, _, _). length segment - off)")
     (auto simp: not_less word_le_nat_alt)

declare inner_walk_loop.simps [simp del]

definition inner_walk_segment ::
  "'g shell \<Rightarrow> u8 \<Rightarrow> bytes \<Rightarrow> resource_table \<Rightarrow> u32 \<Rightarrow> nat option \<Rightarrow> 'g sys \<Rightarrow> (nat \<times> 'g sys) option" where
  "inner_walk_segment sh enc segment res rc task s =
     (if length segment < 8 then Some (0, s) else inner_walk_loop sh enc segment res rc task 0 0 s)"

subsection \<open>Segments of a command buffer\<close>

definition encoder_types :: "u8 set" where "encoder_types = {0, 1, 2, 4}"

definition segment_header_at :: "bytes \<Rightarrow> nat \<Rightarrow> bool option" where
  "segment_header_at cmdbuf off =
     (if off + 8 > length cmdbuf then Some False
      else do {
        segment_size \<leftarrow> lagfx_le32 cmdbuf off;
        encoder_type \<leftarrow> rd8 cmdbuf (off + 4);
        Some (\<not> (segment_size = 0 \<or> unat segment_size > length cmdbuf - off) \<and>
              (encoder_type \<in> encoder_types \<or> encoder_type = 5)) })"

text \<open>The first of the two candidate offsets; \<^const>\<open>None\<close> inside stands for \<^verbatim>\<open>SIZE_MAX\<close>.\<close>

definition locate_segment_header :: "bytes \<Rightarrow> nat option option" where
  "locate_segment_header cmdbuf = do {
     at0 \<leftarrow> segment_header_at cmdbuf 0;
     if at0 then Some (Some 0)
     else do { at8 \<leftarrow> segment_header_at cmdbuf 8; Some (if at8 then Some 8 else None) } }"

function segment_loop ::
  "'g shell \<Rightarrow> bytes \<Rightarrow> resource_table \<Rightarrow> u32 \<Rightarrow> nat option \<Rightarrow> nat \<Rightarrow> 'g sys \<Rightarrow> 'g sys option" where
  "segment_loop sh buf res rc task off s =
     (if off + 8 \<le> length buf then
        case (lagfx_le32 buf off, rd8 buf (off + 4)) of
          (Some segment_size, Some encoder_type) \<Rightarrow>
            if encoder_type = 5 then
              (if off + 24 > length buf then Some s else segment_loop sh buf res rc task (off + 16) s)
            else if encoder_type \<notin> encoder_types \<or> segment_size < 8 \<or> unat segment_size > length buf - off then Some s
            else (case rd_list buf (off + 8) (unat segment_size - 8) of None \<Rightarrow> None
                  | Some segment \<Rightarrow>
                      (case inner_walk_segment sh encoder_type segment res rc task s of None \<Rightarrow> None
                       | Some (n, s') \<Rightarrow> segment_loop sh buf res rc task (off + unat segment_size) s'))
        | _ \<Rightarrow> None
      else Some s)"
  by pat_completeness auto
termination
  by (relation "measure (\<lambda>(_, buf, _, _, _, off, _). length buf - off)")
     (auto simp: not_less word_le_nat_alt)

declare segment_loop.simps [simp del]

subsection \<open>Reading a command buffer\<close>

text \<open>The guest address behind a virtual one; without a translation the address itself.\<close>

definition exec_gpa :: "'g shell \<Rightarrow> 'g sys \<Rightarrow> nat option \<Rightarrow> u64 \<Rightarrow> u64" where
  "exec_gpa sh s task va =
     (case task_ptr task s of None \<Rightarrow> va
      | Some t \<Rightarrow> (case lagfx_task_translate sh s t va of None \<Rightarrow> va | Some gpa \<Rightarrow> gpa))"

text \<open>The bytes read before the first failing read.\<close>

function exec_read_loop :: "'g shell \<Rightarrow> 'g sys \<Rightarrow> nat option \<Rightarrow> u64 \<Rightarrow> u32 \<Rightarrow> u32 \<Rightarrow> bytes \<Rightarrow> bytes" where
  "exec_read_loop sh s task va to_read bytes_read buf =
     (if bytes_read < to_read then
        let cur_gpa = exec_gpa sh s task (va + ucast bytes_read);
            chunk = chunk_len cur_gpa (to_read - bytes_read)
        in (case guest_read sh s cur_gpa (unat chunk) of None \<Rightarrow> buf
            | Some b \<Rightarrow> exec_read_loop sh s task va to_read (bytes_read + chunk) (buf @ b))
      else buf)"
  by pat_completeness auto
termination
proof (relation "measure (\<lambda>(_, _, _, _, to_read, bytes_read, _). unat to_read - unat bytes_read)", goal_cases)
  case (2 sh s task va to_read bytes_read buf cur_gpa chunk b)
  have "0 < unat chunk" "unat chunk \<le> unat (to_read - bytes_read)"
    using 2 chunk_len_pos[of "to_read - bytes_read" cur_gpa] by (auto simp: unat_chunk_len word_gt_0)
  from word_progress(1)[OF 2(1) this] show ?case by simp
qed simp

declare exec_read_loop.simps [simp del]

definition exec_walk_resource ::
  "'g shell \<Rightarrow> nat option \<Rightarrow> u64 \<Rightarrow> u32 \<Rightarrow> resource_table \<Rightarrow> u32 \<Rightarrow> 'g sys \<Rightarrow> 'g sys option" where
  "exec_walk_resource sh task host_gpu_addr len res rc s =
     (if \<not> has_read sh s then Some s
      else if len = 0 \<or> len > 0x400000 then Some s
      else let buf = exec_read_loop sh s task host_gpu_addr len 0 [] in
           if buf = [] then Some s
           else do {
             seg \<leftarrow> locate_segment_header buf;
             case seg of None \<Rightarrow> Some s | Some seg_off \<Rightarrow> segment_loop sh buf res rc task seg_off s })"

subsection \<open>The handler\<close>

fun exec_resources ::
  "'g shell \<Rightarrow> bytes \<Rightarrow> nat \<Rightarrow> u32 \<Rightarrow> nat option \<Rightarrow> nat \<Rightarrow> nat \<Rightarrow> 'g sys \<Rightarrow> 'g sys option" where
  "exec_resources sh payload base rc task i 0 s = Some s"
| "exec_resources sh payload base rc task i (Suc n) s = do {
     let r = base + unat (16 * of_nat i :: u32);
     host_gpu_addr \<leftarrow> lagfx_le64 payload r;
     res_length \<leftarrow> lagfx_le32 payload (r + 8);
     s' \<leftarrow> exec_walk_resource sh task host_gpu_addr res_length (Some (payload, base)) rc s;
     exec_resources sh payload base rc task (i + 1) n s' }"

definition exec_min_payload :: "u32 \<Rightarrow> u32 \<Rightarrow> u32" where
  "exec_min_payload descriptor_count resource_count = 12 + 24 * descriptor_count + 16 * resource_count"

definition exec_slot :: "protocol \<Rightarrow> u32" where
  "exec_slot p = (let slot = ucast (current_chan_id p) in if slot \<ge> 16 then SLOT_ROOT_CHANNEL else slot)"

definition lagfx_compute_exec_cmdbuf :: "'g handler" where
  "lagfx_compute_exec_cmdbuf sh hdr s =
     (case payload_at_least hdr 8 of None \<Rightarrow> Some (LAGFX_HANDLER_OK, s)
      | Some payload \<Rightarrow>
          if hdr_payload_size hdr = 8 then do { task_id \<leftarrow> lagfx_le32 payload 0; Some (LAGFX_HANDLER_OK, s) }
          else do {
            task_id \<leftarrow> lagfx_le32 payload 0;
            descriptor_count \<leftarrow> lagfx_le32 payload 4;
            resource_count \<leftarrow> lagfx_le32 payload 8;
            if ucast (hdr_payload_size hdr) < exec_min_payload descriptor_count resource_count
            then Some (LAGFX_HANDLER_ERR_SIZE, s)
            else do {
              let task = lagfx_protocol_find_task (proto s) task_id;
              let base = 12 + unat (24 * descriptor_count);
              s1 \<leftarrow> exec_resources sh payload base resource_count task 0 (unat resource_count) s;
              Some (LAGFX_HANDLER_OK,
                    if dev s1 \<noteq> None \<and> hdr_stamp hdr \<noteq> 0
                    then lagfx_protocol_complete_stamp_slot sh (exec_slot (proto s1)) (hdr_stamp hdr) s1 else s1) } })"

subsection \<open>Inner commands keep the contract\<close>

text \<open>A result keeps the contract when it is well formed and framed.\<close>

definition keeps_inner :: "'g sys \<Rightarrow> 'g sys \<Rightarrow> bool" where
  "keeps_inner s s' \<longleftrightarrow> (wf_sys s \<longrightarrow> wf_sys s' \<and> inner_frame s s')"

lemma keeps_inner_refl [simp]: "keeps_inner s s"
  by (simp add: keeps_inner_def)

lemma keeps_inner_trans: "keeps_inner a b \<Longrightarrow> keeps_inner b c \<Longrightarrow> keeps_inner a c"
  by (auto simp: keeps_inner_def intro: inner_frame_trans)

lemma inner_step_keeps:
  assumes "inner_step sh enc res rc task opcode body s = Some s'"
  shows "keeps_inner s s'"
  unfolding keeps_inner_def
proof
  assume wf: "wf_sys s"
  let ?op = "opcode AND 0xffff"
  let ?k = "case task_ptr task s of None \<Rightarrow> 0xffffffff | Some t \<Rightarrow> t_id t"
  consider "enc = 0 \<or> enc = 1" | "enc = 2" | "enc = 4" "?op \<ge> 0x1c2 \<and> ?op \<le> 0x1d0"
    | "enc = 4" "\<not> (?op \<ge> 0x1c2 \<and> ?op \<le> 0x1d0)" | "enc \<notin> {0, 1, 2, 4}"
    by blast
  then show "wf_sys s' \<and> inner_frame s s'"
  proof cases
    case 1
    then show ?thesis using assms compute_inner.run[OF wf, of sh ?k ?op body] by (auto simp: inner_step_def Let_def)
  next
    case 2
    then show ?thesis using assms render_inner.run[OF wf, of ?op body] by (auto simp: inner_step_def Let_def)
  next
    case 3
    then have "lagfx_info_dispatch sh ?op body res rc (task_ptr task s) lagfx_task_translate s = Some s'"
      using assms by (simp add: inner_step_def Let_def)
    from info_dispatch_keeps[OF this] show ?thesis using wf by (rule inner_frame_proto_dev)
  next
    case 4
    then show ?thesis using assms blit_inner.run[OF wf, of ?op body] by (auto simp: inner_step_def Let_def)
  next
    case 5
    then show ?thesis using assms wf by (simp add: inner_step_def Let_def)
  qed
qed

definition table_ok :: "resource_table \<Rightarrow> u32 \<Rightarrow> bool" where
  "table_ok res rc \<longleftrightarrow> (\<forall>payload base. res = Some (payload, base) \<longrightarrow> base + 16 * unat rc \<le> length payload)"

lemma inner_step_total:
  assumes "wf_sys s" "table_ok res rc"
  shows "\<exists>s'. inner_step sh enc res rc task opcode body s = Some s'"
proof -
  let ?op = "opcode AND 0xffff"
  let ?k = "case task_ptr task s of None \<Rightarrow> 0xffffffff | Some t \<Rightarrow> t_id t"
  have "\<exists>s'. lagfx_info_dispatch sh ?op body res rc (task_ptr task s) lagfx_task_translate s = Some s'"
    using assms(2) by (intro info_dispatch_total) (simp add: table_ok_def)
  then show ?thesis
    using compute_inner.run[OF assms(1), of sh ?k ?op body] render_inner.run[OF assms(1), of ?op body]
      blit_inner.run[OF assms(1), of ?op body]
    by (auto simp: inner_step_def Let_def)
qed

lemma inner_walk_loop_keeps:
  "inner_walk_loop sh enc segment res rc task off n s = Some (m, s') \<Longrightarrow> keeps_inner s s'"
proof (induction sh enc segment res rc task off n s rule: inner_walk_loop.induct)
  case (1 sh enc segment res rc task off n s)
  show ?case
  proof (cases "off + 8 \<le> length segment")
    case True
    then have r: "lagfx_le32 segment off = Some (le32_at segment off)"
      "lagfx_le32 segment (off + 4) = Some (le32_at segment (off + 4))" by (simp_all add: chk_simps)
    show ?thesis
    proof (cases "le32_at segment (off + 4) < 8 \<or> unat (le32_at segment (off + 4)) > length segment - off")
      case bad: True
      then show ?thesis using "1.prems" True r by (simp add: inner_walk_loop.simps[of sh enc segment])
    next
      case False
      obtain body s1 where b: "rd_list segment (off + 8) (unat (le32_at segment (off + 4)) - 8) = Some body"
        "inner_step sh enc res rc task (le32_at segment off) body s = Some s1"
        "inner_walk_loop sh enc segment res rc task (off + unat (le32_at segment (off + 4))) (n + 1) s1 = Some (m, s')"
        using "1.prems" True False r by (subst (asm) inner_walk_loop.simps) (auto split: option.splits)
      then show ?thesis
        using "1.IH"[OF True _ r False b(1,2,3)] inner_step_keeps[OF b(2)] by (auto intro: keeps_inner_trans)
    qed
  next
    case False
    then show ?thesis using "1.prems" by (simp add: inner_walk_loop.simps[of sh enc segment])
  qed
qed

lemma inner_walk_loop_total:
  assumes "table_ok res rc"
  shows "wf_sys s \<Longrightarrow> off \<le> length segment \<Longrightarrow>
    \<exists>m s'. inner_walk_loop sh enc segment res rc task off n s = Some (m, s')"
proof (induction "length segment - off" arbitrary: off n s rule: less_induct)
  case less
  let ?t = "unat (le32_at segment (off + 4))"
  show ?case
  proof (cases "off + 8 \<le> length segment \<and> 8 \<le> ?t \<and> ?t \<le> length segment - off")
    case False
    then show ?thesis
      by (subst inner_walk_loop.simps) (auto simp: chk_simps word_less_nat_alt)
  next
    case True
    then have "off + 8 + (?t - 8) \<le> length segment" by linarith
    then obtain body where b: "rd_list segment (off + 8) (?t - 8) = Some body" by (simp add: rd_list_def)
    obtain s1 where s1: "inner_step sh enc res rc task (le32_at segment off) body s = Some s1"
      using inner_step_total[OF less.prems(1) assms] by blast
    have "wf_sys s1" using inner_step_keeps[OF s1] less.prems(1) by (simp add: keeps_inner_def)
    moreover have "length segment - (off + ?t) < length segment - off" "off + ?t \<le> length segment"
      using True by linarith+
    ultimately obtain m s' where "inner_walk_loop sh enc segment res rc task (off + ?t) (n + 1) s1 = Some (m, s')"
      using less.hyps[of "off + ?t" s1 "n + 1"] by blast
    then show ?thesis
      using True b s1 by (subst inner_walk_loop.simps) (auto simp: chk_simps word_less_nat_alt)
  qed
qed

lemma inner_walk_segment_keeps:
  "inner_walk_segment sh enc segment res rc task s = Some (m, s') \<Longrightarrow> keeps_inner s s'"
  by (auto simp: inner_walk_segment_def split: if_splits dest: inner_walk_loop_keeps)

lemma inner_walk_segment_total:
  "table_ok res rc \<Longrightarrow> wf_sys s \<Longrightarrow> \<exists>m s'. inner_walk_segment sh enc segment res rc task s = Some (m, s')"
  using inner_walk_loop_total[of res rc s 0 segment] by (simp add: inner_walk_segment_def)

subsection \<open>So do segments, resources and the handler\<close>

text \<open>One round of the segment loop, with the accesses carried out.\<close>

lemma segment_step:
  assumes "off + 8 \<le> length buf"
  shows "segment_loop sh buf res rc task off s =
    (let size = le32_at buf off; enc = buf ! (off + 4) in
     if enc = 5 then (if off + 24 > length buf then Some s else segment_loop sh buf res rc task (off + 16) s)
     else if enc \<notin> encoder_types \<or> size < 8 \<or> unat size > length buf - off then Some s
     else (case inner_walk_segment sh enc (take (unat size - 8) (drop (off + 8) buf)) res rc task s of None \<Rightarrow> None
           | Some (n, s') \<Rightarrow> segment_loop sh buf res rc task (off + unat size) s'))"
proof -
  have r: "lagfx_le32 buf off = Some (le32_at buf off)" "rd8 buf (off + 4) = Some (buf ! (off + 4))"
    using assms by (simp_all add: chk_simps)
  have "\<not> le32_at buf off < 8 \<Longrightarrow> \<not> unat (le32_at buf off) > length buf - off \<Longrightarrow>
      off + 8 + (unat (le32_at buf off) - 8) \<le> length buf"
    using assms by (simp add: word_less_nat_alt)
  then show ?thesis
    using assms by (subst segment_loop.simps) (simp add: r rd_list_def Let_def cong: if_cong)
qed

lemma segment_stop: "\<not> off + 8 \<le> length buf \<Longrightarrow> segment_loop sh buf res rc task off s = Some s"
  by (subst segment_loop.simps) (rule if_not_P)

lemma segment_loop_keeps:
  "segment_loop sh buf res rc task off s = Some s' \<Longrightarrow> keeps_inner s s'"
proof (induction "length buf - off" arbitrary: off s rule: less_induct)
  case less
  show ?case
  proof (cases "off + 8 \<le> length buf")
    case True
    note st = less.prems[unfolded segment_step[OF True] Let_def]
    show ?thesis
    proof (cases "buf ! (off + 4) = 5")
      case five: True
      then show ?thesis using st less.hyps[of "off + 16" s] True by (auto split: if_splits)
    next
      case False
      then show ?thesis
        using st less.hyps[of "off + unat (le32_at buf off)"] True
        by (auto simp: word_less_nat_alt split: if_splits option.splits
            intro: keeps_inner_trans dest!: inner_walk_segment_keeps)
    qed
  next
    case False
    then show ?thesis using less.prems by (simp add: segment_stop)
  qed
qed

lemma segment_loop_total:
  assumes "table_ok res rc"
  shows "wf_sys s \<Longrightarrow> \<exists>s'. segment_loop sh buf res rc task off s = Some s'"
proof (induction "length buf - off" arbitrary: off s rule: less_induct)
  case less
  show ?case
  proof (cases "off + 8 \<le> length buf")
    case True
    let ?size = "unat (le32_at buf off)"
    let ?seg = "take (?size - 8) (drop (off + 8) buf)"
    obtain m s1 where w: "inner_walk_segment sh (buf ! (off + 4)) ?seg res rc task s = Some (m, s1)"
      using inner_walk_segment_total[OF assms less.prems] by blast
    then have "wf_sys s1" using inner_walk_segment_keeps[OF w] less.prems by (simp add: keeps_inner_def)
    then have "8 \<le> ?size \<Longrightarrow> \<exists>s'. segment_loop sh buf res rc task (off + ?size) s1 = Some s'"
      using less.hyps[of "off + ?size" s1] True by simp
    moreover have "\<exists>s'. segment_loop sh buf res rc task (off + 16) s = Some s'"
      using less.hyps[of "off + 16" s] less.prems True by simp
    ultimately show ?thesis using w by (auto simp: segment_step[OF True] Let_def word_less_nat_alt)
  qed (simp add: segment_stop)
qed

lemma locate_total: "\<exists>r. locate_segment_header buf = Some r"
proof -
  have h: "\<exists>b. segment_header_at buf off = Some b" for off
    by (auto simp: segment_header_at_def chk_simps)
  obtain a b where "segment_header_at buf 0 = Some a" "segment_header_at buf 8 = Some b"
    using h[of 0] h[of 8] by blast
  then show ?thesis by (simp add: locate_segment_header_def)
qed

lemma exec_walk_resource_keeps:
  "exec_walk_resource sh task va len res rc s = Some s' \<Longrightarrow> keeps_inner s s'"
  by (auto simp: exec_walk_resource_def Let_def split: if_splits option.splits elim!: bind_eq_SomeE
      dest: segment_loop_keeps)

lemma exec_walk_resource_total:
  assumes "table_ok res rc" "wf_sys s"
  shows "\<exists>s'. exec_walk_resource sh task va len res rc s = Some s'"
proof -
  obtain r where "locate_segment_header (exec_read_loop sh s task va len 0 []) = Some r"
    using locate_total by blast
  then show ?thesis
    using segment_loop_total[OF assms] by (auto simp: exec_walk_resource_def Let_def split: option.split)
qed

lemma exec_resources_keeps:
  "exec_resources sh payload base rc task i n s = Some s' \<Longrightarrow> keeps_inner s s'"
proof (induction n arbitrary: i s)
  case (Suc n)
  then show ?case
    by (auto simp: Let_def elim!: bind_eq_SomeE intro: keeps_inner_trans dest!: exec_walk_resource_keeps)
qed simp

lemma exec_resources_total:
  assumes "base + 16 * unat rc \<le> length payload" "16 * unat rc < 2 ^ 32"
  shows "i + n \<le> unat rc \<Longrightarrow> wf_sys s \<Longrightarrow> \<exists>s'. exec_resources sh payload base rc task i n s = Some s'"
proof (induction n arbitrary: i s)
  case (Suc n)
  have i: "i < unat rc" "16 * i < 2 ^ 32" using Suc.prems(1) assms(2) by auto
  have "unat (of_nat (16 * i) :: u32) = 16 * i" using i(2) by (intro unat_of_nat_small) simp
  then have o: "unat (16 * of_nat i :: u32) = 16 * i" by simp
  have ok: "table_ok (Some (payload, base)) rc" using assms(1) by (simp add: table_ok_def)
  obtain s1 where s1: "exec_walk_resource sh task (le64_at payload (base + 16 * i)) (le32_at payload (base + 16 * i + 8))
      (Some (payload, base)) rc s = Some s1"
    using exec_walk_resource_total[OF ok Suc.prems(2)] by blast
  have "wf_sys s1" using exec_walk_resource_keeps[OF s1] Suc.prems(2) by (simp add: keeps_inner_def)
  then obtain s2 where "exec_resources sh payload base rc task (i + 1) n s1 = Some s2"
    using Suc.IH[of "i + 1" s1] Suc.prems(1) by auto
  moreover have "base + 16 * i + 16 \<le> length payload" using assms(1) i(1) by simp
  ultimately show ?case using s1 by (simp add: o Let_def chk_simps)
qed simp

interpretation exec: command_handler lagfx_compute_exec_cmdbuf
proof (unfold_locales, goal_cases)
  case (1 hdr s sh st s')
  have fin: "keeps_inner s s1 \<Longrightarrow>
      wf_sys (if P then lagfx_protocol_complete_stamp_slot sh sl stamp s1 else s1) \<and>
      frame s (if P then lagfx_protocol_complete_stamp_slot sh sl stamp s1 else s1)" for s1 P sl stamp
    using 1(2) by (auto simp: keeps_inner_def wf_complete_slot
        intro: frame_trans[OF _ frame_complete_slot] inner_frame_frame)
  show ?case
    using 1(2,3) fin
    by (auto simp: lagfx_compute_exec_cmdbuf_def Let_def split: option.splits if_splits elim!: bind_eq_SomeE
        dest!: exec_resources_keeps)
qed

subsection \<open>When the handler stays within its payload\<close>

text \<open>The size check computes in 32 bits; it protects the accesses as long as the sum does
  not wrap, and the three counts need 12 bytes.\<close>

definition exec_no_wrap :: "bytes \<Rightarrow> bool" where
  "exec_no_wrap b \<longleftrightarrow> 12 + 24 * unat (le32_at b 4) + 16 * unat (le32_at b 8) < 2 ^ 32"

lemma unat_min_payload:
  "12 + 24 * unat dc + 16 * unat rc < 2 ^ 32 \<Longrightarrow>
   unat (exec_min_payload dc rc) = 12 + 24 * unat dc + 16 * unat rc \<and> unat (24 * dc) = 24 * unat dc"
  unfolding exec_min_payload_def by (simp add: unat_word_ariths)

lemma exec_total:
  assumes "wf_hdr hdr" "wf_sys s"
    and "\<And>b. hdr_payload hdr = Some b \<Longrightarrow> length b \<notin> {9, 10, 11} \<and> exec_no_wrap b"
  shows "lagfx_compute_exec_cmdbuf sh hdr s \<noteq> None"
proof (cases "payload_at_least hdr 8")
  case None
  then show ?thesis by (simp add: lagfx_compute_exec_cmdbuf_def)
next
  case (Some b)
  note len = wf_hdr_payload[OF assms(1) Some]
  have hp: "hdr_payload hdr = Some b" using Some by (auto simp: payload_at_least_def split: option.splits if_splits)
  show ?thesis
  proof (cases "hdr_payload_size hdr = 8")
    case True
    then show ?thesis using Some len by (simp add: lagfx_compute_exec_cmdbuf_def chk_simps)
  next
    case False
    have "length b \<noteq> 8" using False len by (simp add: word_unat_eq_iff)
    then have l12: "12 \<le> length b" using assms(3)[OF hp] len by auto
    let ?dc = "le32_at b 4" and ?rc = "le32_at b 8"
    note nw = assms(3)[OF hp, THEN conjunct2, unfolded exec_no_wrap_def]
    note um = unat_min_payload[OF nw]
    show ?thesis
    proof (cases "(ucast (hdr_payload_size hdr) :: u32) < exec_min_payload ?dc ?rc")
      case True
      then show ?thesis using Some False l12 by (simp add: lagfx_compute_exec_cmdbuf_def chk_simps)
    next
      case ok: False
      then have "12 + 24 * unat ?dc + 16 * unat ?rc \<le> length b"
        using um len by (simp add: word_less_nat_alt unat_ucast_up)
      then obtain s1 where "exec_resources sh b (12 + unat (24 * ?dc)) ?rc (lagfx_protocol_find_task (proto s) (le32_at b 0))
          0 (unat ?rc) s = Some s1"
        using exec_resources_total[of "12 + unat (24 * ?dc)" ?rc b 0 "unat ?rc" s] um nw assms(2) by auto
      then show ?thesis using Some False ok l12 by (simp add: lagfx_compute_exec_cmdbuf_def chk_simps)
    qed
  qed
qed

definition exec_payload_ok :: "cmd_header \<Rightarrow> bool" where
  "exec_payload_ok hdr \<longleftrightarrow> (case hdr_payload hdr of None \<Rightarrow> True
     | Some b \<Rightarrow> length b \<noteq> 9 \<and> length b \<noteq> 10 \<and> length b \<noteq> 11 \<and> exec_no_wrap b)"

lemma exec_arm_total:
  assumes "wf_hdr hdr" "wf_sys s" "exec_payload_ok hdr"
  shows "\<exists>s'. arm lagfx_compute_exec_cmdbuf sh hdr s = Some s' \<and> wf_sys s' \<and> frame s s'"
proof -
  have "lagfx_compute_exec_cmdbuf sh hdr s \<noteq> None"
    using assms(3) by (intro exec_total[OF assms(1,2)]) (auto simp: exec_payload_ok_def)
  then obtain r where "arm lagfx_compute_exec_cmdbuf sh hdr s = Some r" by (auto simp: arm_def)
  then show ?thesis using exec.arm_keeps[OF assms(1,2)] by blast
qed

subsection \<open>The command buffer is read correctly\<close>

lemma translate_None_page:
  assumes "lagfx_task_translate sh s t va = None" "unat va mod 4096 + i < 4096"
  shows "lagfx_task_translate sh s t (va + of_nat i) = None"
  using assms(1) unfolding translate_task_frame drop12_in_page[OF assms(2)] by simp

interpretation exec_map: paged "\<lambda>va. Some (exec_gpa sh s task va)" for sh :: "'g shell" and s task
proof (unfold_locales, goal_cases)
  case (1 va gpa)
  then show ?case
    using radix.page_offset[of sh s _ va] by (auto simp: exec_gpa_def split: option.splits)
next
  case (2 va gpa i)
  then show ?case
    using radix.in_page[of sh s _ va] translate_None_page[of sh s _ va i]
    by (auto simp: exec_gpa_def split: option.splits)
qed

lemma exec_read_loop_ram:
  assumes "ram_law sh ram" "dev s \<noteq> None" "don \<le> len"
  shows "Some (exec_read_loop sh s task va len don buf) =
    map_option ((@) buf) (vbytes ram (ext s) (\<lambda>va. Some (exec_gpa sh s task va)) (va + ucast don) (unat len - unat don))"
  using assms
proof (induction sh s task va len don buf rule: exec_read_loop.induct)
  case (1 sh s task va len don buf)
  let ?addr = "\<lambda>va. Some (exec_gpa sh s task va)"
  let ?va = "va + ucast don"
  let ?gpa = "exec_gpa sh s task ?va"
  let ?cl = "chunk_len ?gpa (len - don)"
  note unfold = exec_read_loop.simps[of sh s task va len don buf]
  show ?case
  proof (cases "don < len")
    case False
    then have "unat len - unat don = 0" by (simp add: word_less_nat_alt)
    then show ?thesis using False by (simp add: unfold vbytes_def)
  next
    case True
    have rem: "0 < unat len - unat don" "unat (len - don) = unat len - unat don"
      using True by (simp_all add: word_less_nat_alt unat_sub word_le_nat_alt)
    have pg: "unat ?gpa mod 4096 = unat ?va mod 4096" by (rule exec_map.page_offset[OF refl])
    let ?b = "map (\<lambda>i. ram (ext s) (?gpa + of_nat i)) [0..<unat ?cl]"
    have rd: "guest_read sh s ?gpa (unat ?cl) = Some ?b"
      using "1.prems"(1,2) by (simp add: guest_read_def ram_law_read)
    have cl: "unat ?cl \<le> unat len - unat don" "unat ?cl \<le> 4096 - unat ?va mod 4096"
      by (simp_all add: unat_chunk_len rem pg)
    have dcl: "unat (don + ?cl) = unat don + unat ?cl" "don + ?cl \<le> len"
      using word_progress[OF True, of ?cl] cl(1) rem chunk_len_pos[of "len - don" ?gpa]
      by (simp_all add: word_less_nat_alt)
    have IH: "Some (exec_read_loop sh s task va len (don + ?cl) (buf @ ?b)) =
        map_option ((@) (buf @ ?b)) (vbytes ram (ext s) ?addr (va + ucast (don + ?cl)) (unat len - unat (don + ?cl)))"
      by (rule "1.IH"[OF True refl refl rd "1.prems"(1,2) dcl(2)])
    have va': "va + ucast (don + ?cl) = ?va + of_nat (unat ?cl)"
      using ucast_add_small[OF dcl(1)] by (simp add: add.assoc)
    have n: "unat len - unat don = unat ?cl + (unat len - unat (don + ?cl))" using dcl cl(1) by simp
    show ?thesis
      unfolding unfold n vbytes_split exec_map.chunk[OF refl cl(2)]
      using True IH by (simp add: rd Let_def va' append_fun option.map_comp comp_def)
  qed
qed

lemma vbytes_total: "vbytes ram g (\<lambda>va. Some (f va)) va n = Some (map (\<lambda>i. ram g (f (va + of_nat i))) [0..<n])"
  by (simp add: vbytes_def those_map_Some comp_def)

lemma exec_read_ram:
  assumes "ram_law sh ram" "dev s \<noteq> None"
  shows "exec_read_loop sh s task va len 0 [] =
         map (\<lambda>i. ram (ext s) (exec_gpa sh s task (va + of_nat i))) [0..<unat len]"
  using exec_read_loop_ram[OF assms, of 0 len task va "[]"] by (simp add: vbytes_total)

end
