(* ===== verification/Channel0.thy ===== *)
theory Channel0
  imports Drain TaskMemory DeviceInfo IOSurface ExecCmdbuf
begin

text \<open>
  The root channel, \<^verbatim>\<open>src/dispatchers/channel_0_dispatcher.c\<close>: the opcode switch with the
  three commands it handles inline (child channels, resource heaps, host tasks) and
  the drain of the root ring.
\<close>

subsection \<open>Inline commands\<close>

definition ch0_define_child_channel :: "cmd_header \<Rightarrow> 'g sys \<Rightarrow> 'g sys option" where
  "ch0_define_child_channel hdr s =
     (case payload_at_least hdr 4 of None \<Rightarrow> Some s
      | Some payload \<Rightarrow> do {
          child_id \<leftarrow> lagfx_le32 payload 0;
          case lagfx_protocol_find_fifo (proto s) child_id of
            Some i \<Rightarrow> Some s
          | None \<Rightarrow>
              (case lagfx_protocol_alloc_fifo_slot (proto s) of None \<Rightarrow> Some s
               | Some (i, p) \<Rightarrow>
                   Some (s\<lparr>proto := p\<lparr>fifos := (fifos p)[i := (fifos p ! i)\<lparr>f_id := child_id, f_live := True\<rparr>]\<rparr>\<rparr>)) })"

definition ch0_set_resource_heap :: "cmd_header \<Rightarrow> 'g sys \<Rightarrow> 'g sys option" where
  "ch0_set_resource_heap hdr s =
     (case payload_at_least hdr 12 of None \<Rightarrow> Some s
      | Some payload \<Rightarrow> do {
          task_id \<leftarrow> lagfx_le32 payload 0;
          heap_pfn \<leftarrow> lagfx_le32 payload 4;
          heap_size \<leftarrow> lagfx_le32 payload 8;
          Some (case lagfx_protocol_find_task (proto s) task_id of None \<Rightarrow> s
                | Some i \<Rightarrow> s\<lparr>proto := upd_task i (\<lambda>t. t\<lparr>t_heap_pfn := heap_pfn, t_heap_size := heap_size\<rparr>) (proto s)\<rparr>) })"

text \<open>A slot that was found already has this id and is live, so setting both again changes
  nothing.\<close>

definition ch0_define_host_task :: "cmd_header \<Rightarrow> 'g sys \<Rightarrow> 'g sys option" where
  "ch0_define_host_task hdr s =
     (case payload_at_least hdr 16 of None \<Rightarrow> Some s
      | Some payload \<Rightarrow> do {
          slot_index \<leftarrow> lagfx_le32 payload 0;
          root_page_pfn \<leftarrow> lagfx_le32 payload 12;
          let task_id = drop_bit 1 slot_index;
          Some (case find_or_alloc_task (proto s) task_id of None \<Rightarrow> s
                | Some (i, p) \<Rightarrow> s\<lparr>proto := upd_task i (\<lambda>t. t\<lparr>t_id := task_id, t_live := True,
                                                             t_root_page_pfn := ucast root_page_pfn\<rparr>) p\<rparr>) })"

definition count_unknown :: "'g sys \<Rightarrow> 'g sys" where
  "count_unknown s = s\<lparr>proto := (proto s)\<lparr>unknown_opcode_count := unknown_opcode_count (proto s) + 1\<rparr>\<rparr>"

text \<open>Opcodes that are logged and acknowledged.\<close>

definition ch0_logged :: "u16 set" where
  "ch0_logged = {0x04, 0x05, 0x06, 0x07, 0x08, 0x09, 0x0b, 0x0c, 0x21, 0x23, 0x80, 0x81, 0x82, 0x31, 0x3b, 0x3c, 0x41}"

definition ch0_dispatch_command :: "'g dispatch" where
  "ch0_dispatch_command sh hdr s =
     (let op = hdr_opcode hdr in
      if op = 0x00 then arm lagfx_task_define_task2 sh hdr s
      else if op = 0x01 then arm lagfx_task_delete_task sh hdr s
      else if op = 0x02 then arm lagfx_memory_map_memory2 sh hdr s
      else if op = 0x03 then arm lagfx_memory_unmap_memory sh hdr s
      else if op = 0x0a then arm lagfx_op_get_device_info sh hdr s
      else if op = 0x3a then arm lagfx_op_get_device_info_2 sh hdr s
      else if op = 0x0e then arm lagfx_util_nop sh hdr s
      else if op = 0x0d then arm lagfx_op_debug sh hdr s
      else if op = 0x20 then arm lagfx_compute_exec_cmdbuf sh hdr s
      else if op = 0x26 then arm lagfx_iosurface_delete_backing2 sh hdr s
      else if op = 0x27 then arm lagfx_iosurface_create_backing2 sh hdr s
      else if op = 0x28 then arm lagfx_iosurface_lookup sh hdr s
      else if op = 0x29 then arm lagfx_iosurface_import_mach_port sh hdr s
      else if op = 0x2a then arm lagfx_iosurface_unmap sh hdr s
      else if op = 0x30 then ch0_define_child_channel hdr s
      else if op = 0x33 then ch0_set_resource_heap hdr s
      else if op = 0x42 then arm lagfx_sync_synchronize_resources sh hdr s
      else if op = 0x38 then ch0_define_host_task hdr s
      else if op \<in> ch0_logged then Some s
      else Some (count_unknown s))"

definition channel_0_dispatcher_drain :: "'g shell \<Rightarrow> 'g sys \<Rightarrow> (nat \<times> 'g sys) option" where
  "channel_0_dispatcher_drain = ch0_drain ch0_dispatch_command"

subsection \<open>The inline commands keep the contract\<close>

definition keeps_sys :: "'g sys \<Rightarrow> 'g sys \<Rightarrow> bool" where
  "keeps_sys s s' \<longleftrightarrow> wf_sys s' \<and> frame s s'"

lemma keeps_sys_same: "wf_sys s \<Longrightarrow> keeps_sys s s"
  by (simp add: keeps_sys_def)

lemma keeps_sys_proto:
  "wf_sys s \<Longrightarrow> wf_tables p \<Longrightarrow> resources p = resources (proto s) \<Longrightarrow> geometry p = geometry (proto s) \<Longrightarrow>
   total_cmds_seen p = total_cmds_seen (proto s) \<Longrightarrow> keeps_sys s (s\<lparr>proto := p\<rparr>)"
  by (simp add: keeps_sys_def wf_sys_def frame_def)

lemma count_unknown_keeps: "wf_sys s \<Longrightarrow> keeps_sys s (count_unknown s)"
  unfolding count_unknown_def by (rule keeps_sys_proto) (auto simp: wf_sys_def wf_tables_def geom_simps)

lemma define_child_channel_keeps:
  assumes "wf_hdr hdr" "wf_sys s"
  shows "\<exists>s'. ch0_define_child_channel hdr s = Some s' \<and> keeps_sys s s'"
proof (cases "payload_at_least hdr 4")
  case None
  then show ?thesis using assms by (simp add: ch0_define_child_channel_def keeps_sys_same)
next
  case (Some b)
  then have len: "4 \<le> length b" using wf_hdr_payload[OF assms(1)] by blast
  let ?k = "le32_at b 0"
  show ?thesis
  proof (cases "lagfx_protocol_find_fifo (proto s) ?k = None \<and> lagfx_protocol_alloc_fifo_slot (proto s) \<noteq> None")
    case True
    then obtain i p where a: "lagfx_protocol_alloc_fifo_slot (proto s) = Some (i, p)" by fastforce
    note d = alloc_fifo_SomeD[OF a]
    let ?f = "zero_fifo\<lparr>f_id := ?k, f_live := True\<rparr>"
    let ?p = "(proto s)\<lparr>fifos := (fifos (proto s))[i := ?f]\<rparr>"
    have "uniq_by f_live f_id ((fifos (proto s))[i := ?f])"
      using True assms(2) d(1)
      by (intro uniq_by_update_fresh) (auto simp: wf_sys_def wf_tables_def lagfx_protocol_find_fifo_def)
    then have "keeps_sys s (s\<lparr>proto := ?p\<rparr>)"
      using assms(2) by (intro keeps_sys_proto) (auto simp: wf_sys_def wf_tables_def geom_simps)
    then show ?thesis using Some len True a d by (simp add: ch0_define_child_channel_def chk_simps)
  next
    case False
    then have "ch0_define_child_channel hdr s = Some s"
      using Some len by (auto simp: ch0_define_child_channel_def chk_simps split: option.split)
    then show ?thesis using assms(2) by (simp add: keeps_sys_same)
  qed
qed

lemma set_resource_heap_keeps:
  assumes "wf_hdr hdr" "wf_sys s"
  shows "\<exists>s'. ch0_set_resource_heap hdr s = Some s' \<and> keeps_sys s s'"
proof (cases "payload_at_least hdr 12")
  case None
  then show ?thesis using assms by (simp add: ch0_set_resource_heap_def keeps_sys_same)
next
  case (Some b)
  then have len: "12 \<le> length b" using wf_hdr_payload[OF assms(1)] by blast
  have "keeps_sys s (s\<lparr>proto := upd_task i (\<lambda>t. t\<lparr>t_heap_pfn := x, t_heap_size := y\<rparr>) (proto s)\<rparr>)"
    if "lagfx_protocol_find_task (proto s) k = Some i" for i k x y
  proof (rule keeps_sys_proto[OF assms(2)])
    show "wf_tables (upd_task i (\<lambda>t. t\<lparr>t_heap_pfn := x, t_heap_size := y\<rparr>) (proto s))"
      using assms(2) find_task_SomeD[OF that]
      by (intro wf_tables_upd_task) (auto simp: wf_sys_def wf_tables_def wf_task_def)
  qed auto
  then show ?thesis
    using Some len assms(2)
    by (auto simp: ch0_set_resource_heap_def chk_simps keeps_sys_same split: option.split)
qed

lemma define_host_task_keeps:
  assumes "wf_hdr hdr" "wf_sys s"
  shows "\<exists>s'. ch0_define_host_task hdr s = Some s' \<and> keeps_sys s s'"
proof (cases "payload_at_least hdr 16")
  case None
  then show ?thesis using assms by (simp add: ch0_define_host_task_def keeps_sys_same)
next
  case (Some b)
  then have len: "16 \<le> length b" using wf_hdr_payload[OF assms(1)] by blast
  have "keeps_sys s (s\<lparr>proto := upd_task i (\<lambda>t. t\<lparr>t_id := k, t_live := True, t_root_page_pfn := x\<rparr>) p\<rparr>)"
    if "find_or_alloc_task (proto s) k = Some (i, p)" for i p k x
  proof (rule keeps_sys_proto[OF assms(2)])
    show "wf_tables (upd_task i (\<lambda>t. t\<lparr>t_id := k, t_live := True, t_root_page_pfn := x\<rparr>) p)"
      using assms(2) that by (intro wf_tables_define_task) (auto simp: wf_sys_def wf_task_def)
  qed (use find_or_alloc_bound[OF that] in auto)
  then show ?thesis
    using Some len assms(2)
    by (auto simp: ch0_define_host_task_def chk_simps Let_def keeps_sys_same split: option.split)
qed

text \<open>The handlers that stay within any payload.\<close>

lemmas ch0_safe_arms =
  define_task2.arm_total delete_task.arm_total map_memory2.arm_total unmap_memory.arm_total
  op_device_info.arm_total op_device_info_2.arm_total util_nop.arm_total op_debug.arm_total
  ios_delete.arm_total ios_create.arm_total ios_lookup.arm_total ios_import.arm_total ios_unmap.arm_total
  sync_resources.arm_total

lemma ch0_dispatch_total:
  assumes "wf_hdr hdr" "wf_sys s" "hdr_opcode hdr \<noteq> 0x20"
  shows "\<exists>s'. ch0_dispatch_command sh hdr s = Some s' \<and> keeps_sys s s'"
  using assms(3) ch0_safe_arms[OF assms(1,2), of sh] define_child_channel_keeps[OF assms(1,2)]
    set_resource_heap_keeps[OF assms(1,2)] define_host_task_keeps[OF assms(1,2)]
    count_unknown_keeps[OF assms(2)] keeps_sys_same[OF assms(2)]
  by (auto simp: ch0_dispatch_command_def Let_def keeps_sys_def)

lemma ch0_dispatch_exec: "hdr_opcode hdr = 0x20 \<Longrightarrow> ch0_dispatch_command sh hdr s = arm lagfx_compute_exec_cmdbuf sh hdr s"
  by (simp add: ch0_dispatch_command_def)

interpretation ch0: dispatcher ch0_dispatch_command
proof (unfold_locales, goal_cases)
  case (1 hdr s sh s')
  show ?case
  proof (cases "hdr_opcode hdr = 0x20")
    case True
    then show ?thesis using 1 exec.arm_keeps by (simp add: ch0_dispatch_exec)
  next
    case False
    then show ?thesis using ch0_dispatch_total[OF 1(1,2) False, of sh] 1(3) by (auto simp: keeps_sys_def)
  qed
qed

end
