(* ===== verification/ChannelCompute.thy ===== *)
theory ChannelCompute
  imports Channel0
begin

text \<open>
  The compute channels, \<^verbatim>\<open>src/dispatchers/channel_compute_dispatcher.c\<close>: execution of command
  buffers, object lists, immediate mappings and backing updates, and the drain of a
  channel's 64 KiB ring.
\<close>

definition register_active_object :: "u32 \<Rightarrow> task_entry \<Rightarrow> task_entry" where
  "register_active_object object_id t =
     (if object_id \<in> set (t_active_objects t) then t
      else if length (t_active_objects t) \<ge> 64 then t
      else t\<lparr>t_active_objects := t_active_objects t @ [object_id]\<rparr>)"

definition compute_set_object_placement :: "cmd_header \<Rightarrow> 'g sys \<Rightarrow> 'g sys option" where
  "compute_set_object_placement hdr s =
     (case payload_at_least hdr 8 of None \<Rightarrow> Some s
      | Some payload \<Rightarrow> do {
          count \<leftarrow> lagfx_le32 payload 0;
          object_id \<leftarrow> lagfx_le32 payload 4;
          Some (case find_index t_live (tasks (proto s)) of None \<Rightarrow> s
                | Some i \<Rightarrow> s\<lparr>proto := upd_task i (register_active_object object_id) (proto s)\<rparr>) })"

definition compute_map_memory_immediate :: "cmd_header \<Rightarrow> 'g sys \<Rightarrow> 'g sys option" where
  "compute_map_memory_immediate hdr s =
     (case payload_at_least hdr 20 of None \<Rightarrow> Some s
      | Some payload \<Rightarrow> do {
          flag \<leftarrow> lagfx_le32 payload 0;
          gpa \<leftarrow> lagfx_le64 payload 4;
          sz \<leftarrow> lagfx_le64 payload 12;
          let maps = big_maps (proto s);
          Some (if sz \<ge> 4 * 1024 * 1024 \<and> gpa \<noteq> 0 \<and> gpa \<notin> fst ` set maps \<and> length maps < 16
                then s\<lparr>proto := (proto s)\<lparr>big_maps := maps @ [(gpa, sz)]\<rparr>\<rparr> else s) })"

text \<open>The slot of a reference in the table of backing updates: the one that holds it, a
  fresh one, or none when the table is full.\<close>

definition store_backing_update :: "u32 \<Rightarrow> u64 \<Rightarrow> backing_update list \<Rightarrow> backing_update list" where
  "store_backing_update bref baddr bus =
     (let v = \<lparr>bu_ref = bref, bu_addr = baddr, bu_valid = 1\<rparr> in
      case find_index (\<lambda>b. bu_valid b \<noteq> 0 \<and> bu_ref b = bref) bus of
        Some sl \<Rightarrow> bus[sl := v]
      | None \<Rightarrow> if length bus < 64 then bus @ [v] else bus)"

definition compute_backing_update :: "cmd_header \<Rightarrow> 'g sys \<Rightarrow> 'g sys option" where
  "compute_backing_update hdr s =
     (case payload_at_least hdr 24 of None \<Rightarrow> Some s
      | Some payload \<Rightarrow> do {
          bseq \<leftarrow> lagfx_le32 payload 0;
          bref \<leftarrow> lagfx_le32 payload 4;
          baddr \<leftarrow> lagfx_le64 payload 16;
          let p = (proto s)\<lparr>backing_updates := store_backing_update bref baddr (backing_updates (proto s))\<rparr>;
          Some (case lagfx_resource_lookup_texture (resources p) bref of None \<Rightarrow> s\<lparr>proto := p\<rparr>
                | Some i \<Rightarrow> s\<lparr>proto := p\<lparr>resources := (resources p)\<lparr>entries :=
                              (entries (resources p))[i := (entries (resources p) ! i)\<lparr>re_backing_dirty := 1\<rparr>]\<rparr>\<rparr>\<rparr>) })"

definition compute_replace_physical :: "cmd_header \<Rightarrow> 'g sys \<Rightarrow> 'g sys option" where
  "compute_replace_physical hdr s =
     (case payload_at_least hdr 8 of None \<Rightarrow> Some s
      | Some payload \<Rightarrow> do { eventID \<leftarrow> lagfx_le32 payload 0; counter \<leftarrow> lagfx_le32 payload 4; Some s })"

definition compute_dispatch_command :: "'g dispatch" where
  "compute_dispatch_command sh hdr s =
     (let op = hdr_opcode hdr in
      if op = 0x20 \<or> op = 0x37 then arm lagfx_compute_exec_cmdbuf sh hdr s
      else if op = 0x22 \<or> op = 0x24 then Some s
      else if op = 0x25 then compute_set_object_placement hdr s
      else if op = 0x28 then arm lagfx_iosurface_lookup sh hdr s
      else if op = 0x34 \<or> op = 0x35 \<or> op = 0x36 then Some s
      else if op = 0x39 then compute_map_memory_immediate hdr s
      else if op = 0x3c then compute_replace_physical hdr s
      else if op = 0x3b then compute_backing_update hdr s
      else Some (count_unknown s))"

definition LAGFX_COMPUTE_RING_SIZE :: u32 where "LAGFX_COMPUTE_RING_SIZE = 0x10000"

definition channel_compute_dispatcher_drain :: "'g shell \<Rightarrow> u32 \<Rightarrow> 'g sys \<Rightarrow> (nat \<times> 'g sys) option" where
  "channel_compute_dispatcher_drain = vchan_drain compute_dispatch_command LAGFX_COMPUTE_RING_SIZE"

subsection \<open>The contract\<close>

lemma register_active_object_benign: "benign (register_active_object object_id)"
  by (auto simp: benign_def register_active_object_def wf_task_def task_identity_def)

lemma set_object_placement_keeps:
  assumes "wf_hdr hdr" "wf_sys s"
  shows "\<exists>s'. compute_set_object_placement hdr s = Some s' \<and> keeps_sys s s'"
proof (cases "payload_at_least hdr 8")
  case None
  then show ?thesis using assms by (simp add: compute_set_object_placement_def keeps_sys_same)
next
  case (Some b)
  then have len: "8 \<le> length b" using wf_hdr_payload[OF assms(1)] by blast
  have "keeps_sys s (s\<lparr>proto := upd_task i (register_active_object k) (proto s)\<rparr>)"
    if "find_index t_live (tasks (proto s)) = Some i" for i k
    using upd_task_inner[OF assms(2) _ register_active_object_benign, of i k] find_index_bound[OF that] assms(2)
    by (auto simp: keeps_sys_def inner_frame_def wf_sys_def wf_tables_def)
  then show ?thesis
    using Some len assms(2)
    by (auto simp: compute_set_object_placement_def chk_simps keeps_sys_same split: option.split)
qed

lemma map_memory_immediate_keeps:
  assumes "wf_hdr hdr" "wf_sys s"
  shows "\<exists>s'. compute_map_memory_immediate hdr s = Some s' \<and> keeps_sys s s'"
proof (cases "payload_at_least hdr 20")
  case None
  then show ?thesis using assms by (simp add: compute_map_memory_immediate_def keeps_sys_same)
next
  case (Some b)
  then have len: "20 \<le> length b" using wf_hdr_payload[OF assms(1)] by blast
  have "keeps_sys s (s\<lparr>proto := (proto s)\<lparr>big_maps := big_maps (proto s) @ [m]\<rparr>\<rparr>)"
    if "length (big_maps (proto s)) < 16" for m
    using assms(2) that by (intro keeps_sys_proto) (auto simp: wf_sys_def wf_tables_def geom_simps)
  then show ?thesis
    using Some len assms(2) by (auto simp: compute_map_memory_immediate_def chk_simps Let_def keeps_sys_same)
qed

lemma store_backing_update_length: "length bus \<le> 64 \<Longrightarrow> length (store_backing_update r a bus) \<le> 64"
  by (auto simp: store_backing_update_def Let_def split: option.split)

lemma backing_update_keeps:
  assumes "wf_hdr hdr" "wf_sys s"
  shows "\<exists>s'. compute_backing_update hdr s = Some s' \<and> keeps_sys s s'"
proof (cases "payload_at_least hdr 24")
  case None
  then show ?thesis using assms by (simp add: compute_backing_update_def keeps_sys_same)
next
  case (Some b)
  then have len: "24 \<le> length b" using wf_hdr_payload[OF assms(1)] by blast
  let ?p = "(proto s)\<lparr>backing_updates := store_backing_update (le32_at b 4) (le64_at b 16) (backing_updates (proto s))\<rparr>"
  have 1: "keeps_sys s (s\<lparr>proto := ?p\<rparr>)"
    using assms(2) by (intro keeps_sys_proto)
      (auto simp: wf_sys_def wf_tables_def geom_simps store_backing_update_length)
  have wr: "wf_registry (resources (proto s))" using assms(2) by (simp add: wf_sys_def)
  have 2: "keeps_sys s (s\<lparr>proto := ?p\<lparr>resources := (resources (proto s))\<lparr>entries :=
       (entries (resources (proto s)))[i := (entries (resources (proto s)) ! i)\<lparr>re_backing_dirty := 1\<rparr>]\<rparr>\<rparr>\<rparr>)"
    if "lagfx_resource_lookup_texture (resources (proto s)) k = Some i" for i k
  proof -
    have "i < rcount (resources (proto s))"
      using find_index_bound[OF that[unfolded lagfx_resource_lookup_texture_def]] by simp
    then have "wf_registry ((resources (proto s))\<lparr>entries := (entries (resources (proto s)))
        [i := (entries (resources (proto s)) ! i)\<lparr>re_backing_dirty := 1\<rparr>]\<rparr>)"
      using wf_registry_upd_handle[OF wr, of i "\<lambda>e. e\<lparr>re_backing_dirty := 1\<rparr>"] by (simp add: res_key_def)
    then show ?thesis
      using 1 by (simp add: keeps_sys_def wf_sys_def wf_tables_def frame_def geom_simps)
  qed
  show ?thesis
    using Some len 1 2
    by (auto simp: compute_backing_update_def chk_simps Let_def split: option.split)
qed

lemma replace_physical_same: "wf_hdr hdr \<Longrightarrow> compute_replace_physical hdr s = Some s"
  using wf_hdr_payload[of hdr 8]
  by (cases "payload_at_least hdr 8") (auto simp: compute_replace_physical_def chk_simps)

lemma compute_dispatch_total:
  assumes "wf_hdr hdr" "wf_sys s" "hdr_opcode hdr \<noteq> 0x20" "hdr_opcode hdr \<noteq> 0x37"
  shows "\<exists>s'. compute_dispatch_command sh hdr s = Some s' \<and> keeps_sys s s'"
  using assms(3,4) ios_lookup.arm_total[OF assms(1,2), of sh] set_object_placement_keeps[OF assms(1,2)]
    map_memory_immediate_keeps[OF assms(1,2)] backing_update_keeps[OF assms(1,2)]
    replace_physical_same[OF assms(1), of s] count_unknown_keeps[OF assms(2)] keeps_sys_same[OF assms(2)]
  by (auto simp: compute_dispatch_command_def Let_def keeps_sys_def)

lemma compute_dispatch_exec:
  "hdr_opcode hdr = 0x20 \<or> hdr_opcode hdr = 0x37 \<Longrightarrow>
   compute_dispatch_command sh hdr s = arm lagfx_compute_exec_cmdbuf sh hdr s"
  by (auto simp: compute_dispatch_command_def)

interpretation compute: dispatcher compute_dispatch_command
proof (unfold_locales, goal_cases)
  case (1 hdr s sh s')
  show ?case
  proof (cases "hdr_opcode hdr = 0x20 \<or> hdr_opcode hdr = 0x37")
    case True
    then show ?thesis using 1 exec.arm_keeps by (simp add: compute_dispatch_exec)
  next
    case False
    then show ?thesis using compute_dispatch_total[OF 1(1,2), of sh] 1(3) by (auto simp: keeps_sys_def)
  qed
qed

end
