(* ===== verification/DisplayOps.thy ===== *)
theory DisplayOps
  imports HandlerSpec
begin

text \<open>
  The display command handlers: \<^verbatim>\<open>src/handlers/display/display.c\<close>, the swap-mapping
  handler of \<^verbatim>\<open>src/handlers/sync/sync.c\<close> and the frame-ready path of
  \<^verbatim>\<open>src/display.c\<close>, in a build without Vulkan.  Presentation to the screen then
  consists of latching the frame-ready flag and calling the display's callback.
  The shared-state page the host publishes for a display is shown to carry every
  documented field at its documented offset.
\<close>

unbundle bit_operations_syntax

definition LAGFX_DISPLAY_MAGIC :: u32 where "LAGFX_DISPLAY_MAGIC = 0x4C414744"

text \<open>\<^verbatim>\<open>display_id < LAGFX_MAX_DISPLAYS && dev && dev->displays[display_id]\<close>.\<close>

definition find_display :: "'g sys \<Rightarrow> u32 \<Rightarrow> display option" where
  "find_display s display_id =
     (case dev s of None \<Rightarrow> None
      | Some d \<Rightarrow> if unat display_id < LAGFX_MAX_DISPLAYS then displays d ! unat display_id else None)"

definition upd_display :: "'g sys \<Rightarrow> u32 \<Rightarrow> (display \<Rightarrow> display) \<Rightarrow> 'g sys" where
  "upd_display s display_id f =
     (case dev s of None \<Rightarrow> s
      | Some d \<Rightarrow> s\<lparr>dev := Some (d\<lparr>displays :=
                 (displays d)[unat display_id := map_option f (displays d ! unat display_id)]\<rparr>)\<rparr>)"

definition lagfx_display_swap_mapping :: "'g handler" where
  "lagfx_display_swap_mapping sh hdr s =
     (case payload_at_least hdr 40 of
        None \<Rightarrow> Some (LAGFX_HANDLER_ERR_SIZE, s)
      | Some b \<Rightarrow> do {
          display_id \<leftarrow> lagfx_le32 b 0;
          scanout_len \<leftarrow> lagfx_le32 b 4;
          scanout_gpa \<leftarrow> lagfx_le64 b 8;
          fb_width \<leftarrow> lagfx_le32 b 16;
          fb_height \<leftarrow> lagfx_le32 b 20;
          format \<leftarrow> lagfx_le32 b 24;
          stride \<leftarrow> lagfx_le32 b 28;
          scanout_off \<leftarrow> lagfx_le64 b 32;
          Some (LAGFX_HANDLER_OK,
            case find_display s display_id of None \<Rightarrow> s
            | Some disp \<Rightarrow> upd_display s display_id (\<lambda>d. d\<lparr>d_scanout_gpa := scanout_gpa,
                d_scanout_length := ucast scanout_len, d_scanout_width := fb_width,
                d_scanout_height := fb_height, d_scanout_valid := True\<rparr>)) })"

definition lagfx_display_ack :: "'g handler" where
  "lagfx_display_ack sh hdr s =
     (case payload_at_least hdr 8 of
        None \<Rightarrow> Some (LAGFX_HANDLER_ERR_SIZE, s)
      | Some b \<Rightarrow> do {
          display_id \<leftarrow> lagfx_le32 b 0;
          frame_id \<leftarrow> lagfx_le32 b 4;
          Some (LAGFX_HANDLER_OK, s) })"

definition lagfx_display_cursor_glyph :: "'g handler" where
  "lagfx_display_cursor_glyph sh hdr s =
     (case payload_at_least hdr 32 of
        None \<Rightarrow> Some (LAGFX_HANDLER_ERR_SIZE, s)
      | Some b \<Rightarrow> do {
          display_id \<leftarrow> lagfx_le32 b 0;
          width \<leftarrow> lagfx_le32 b 4;
          height \<leftarrow> lagfx_le32 b 8;
          bytes_per_row \<leftarrow> lagfx_le32 b 12;
          hot_x \<leftarrow> lagfx_le32 b 16;
          hot_y \<leftarrow> lagfx_le32 b 20;
          glyph_va \<leftarrow> lagfx_le64 b 24;
          let s1 = (case dev s of None \<Rightarrow> s
            | Some d \<Rightarrow> s\<lparr>dev := Some (d\<lparr>cursor_glyph := \<lparr>cg_valid = True, cg_display_id = display_id,
                cg_glyph_va = glyph_va, cg_width = width, cg_height = height,
                cg_bytes_per_row = bytes_per_row, cg_hot_x = hot_x, cg_hot_y = hot_y,
                cg_captured_len = 0\<rparr>\<rparr>)\<rparr>);
          Some (LAGFX_HANDLER_OK,
            case (find_display s1 display_id, cb_cursor_glyph (display_cbs sh (unat display_id))) of
              (Some _, Some cb) \<Rightarrow> s1\<lparr>ext := cb (ext s1) width height (ucast hot_x, ucast hot_y)\<rparr>
            | _ \<Rightarrow> s1) })"

definition lagfx_display_cursor_show :: "'g handler" where
  "lagfx_display_cursor_show sh hdr s =
     (case payload_at_least hdr 16 of
        None \<Rightarrow> Some (LAGFX_HANDLER_ERR_SIZE, s)
      | Some b \<Rightarrow> do {
          display_id \<leftarrow> lagfx_le32 b 0;
          x \<leftarrow> lagfx_le16 b 4;
          y \<leftarrow> lagfx_le16 b 6;
          visible \<leftarrow> lagfx_le32 b 8;
          hot_x \<leftarrow> lagfx_le16 b 12;
          hot_y \<leftarrow> lagfx_le16 b 14;
          let s1 = (case dev s of None \<Rightarrow> s
            | Some d \<Rightarrow> s\<lparr>dev := Some (d\<lparr>cursor_show := \<lparr>cs_valid = True, cs_display_id = display_id,
                cs_x = x, cs_y = y, cs_visible = visible, cs_hot_x = hot_x, cs_hot_y = hot_y\<rparr>\<rparr>)\<rparr>);
          let cbs = display_cbs sh (unat display_id);
          Some (LAGFX_HANDLER_OK,
            case find_display s1 display_id of None \<Rightarrow> s1
            | Some _ \<Rightarrow>
                let s2 = (case cb_cursor_moved cbs of None \<Rightarrow> s1 | Some cb \<Rightarrow> s1\<lparr>ext := cb (ext s1)\<rparr>)
                in (case cb_cursor_show cbs of None \<Rightarrow> s2
                    | Some cb \<Rightarrow> s2\<lparr>ext := cb (ext s2) (visible \<noteq> 0)\<rparr>)) })"

subsection \<open>The shared-state page\<close>

definition LAGFX_DISPLAY_DEFAULT_W :: u32 where "LAGFX_DISPLAY_DEFAULT_W = 1920"
definition LAGFX_DISPLAY_DEFAULT_H :: u32 where "LAGFX_DISPLAY_DEFAULT_H = 1080"
definition LAGFX_DISPLAY_DEFAULT_BYTES_PER_PIXEL :: u32 where "LAGFX_DISPLAY_DEFAULT_BYTES_PER_PIXEL = 4"

text \<open>The mode name \<^verbatim>\<open>"1920x1080"\<close> with its terminating NUL.\<close>

definition mode_name :: bytes where
  "mode_name = [0x31, 0x39, 0x32, 0x30, 0x78, 0x31, 0x30, 0x38, 0x30, 0]"

text \<open>The stores of the handler, in their order, into a zeroed block of 0x220 bytes.\<close>

definition ss_fields :: "u32 \<Rightarrow> (nat \<times> bytes) list" where
  "ss_fields display_index =
     (let w = LAGFX_DISPLAY_DEFAULT_W; h = LAGFX_DISPLAY_DEFAULT_H;
          bpp = LAGFX_DISPLAY_DEFAULT_BYTES_PER_PIXEL
      in [(0x000, le_bytes32 1),
          (0x004, mode_name),
          (0x012, le_bytes16 (ucast display_index)),
          (0x014, le_bytes16 (ucast w)),
          (0x016, le_bytes16 (ucast h)),
          (0x018, le_bytes16 64),
          (0x01a, le_bytes16 64),
          (0x01c, le_bytes32 0),
          (0x020, le_bytes32 (w * h * bpp)),
          (0x100, le_bytes32 0x4),
          (0x104, le_bytes32 0xC),
          (0x208, le_bytes16 1),
          (0x210, le_bytes32 w),
          (0x214, le_bytes32 h),
          (0x218, [0x42]), (0x219, [0x47]), (0x21a, [0x52]), (0x21b, [0x41])])"

definition ss_blob :: "u32 \<Rightarrow> bytes option" where
  "ss_blob display_index = blob_writes (replicate 0x220 0) (ss_fields display_index)"

definition lagfx_display_vchan_setup_shared_state :: "'g handler" where
  "lagfx_display_vchan_setup_shared_state sh hdr s =
     (case payload_at_least hdr 8 of
        None \<Rightarrow> Some (LAGFX_HANDLER_ERR_SIZE, s)
      | Some b \<Rightarrow> do {
          display_index \<leftarrow> lagfx_le32 b 0;
          ss_pfn \<leftarrow> lagfx_le32 b 4;
          if ss_pfn = 0 then Some (LAGFX_HANDLER_ERR_STATE, s)
          else do {
            let ss_gpa = push_bit 12 (ucast ss_pfn :: u64);
            let s1 = (case dev s of None \<Rightarrow> s
              | Some d \<Rightarrow> if display_index < 16
                  then s\<lparr>dev := Some (d\<lparr>display_ss_gpa := (display_ss_gpa d)[unat display_index := ss_gpa],
                         display_ss_installed := display_ss_installed d OR push_bit (unat display_index) 1\<rparr>)\<rparr>
                  else s);
            if \<not> has_write sh s1 then Some (LAGFX_HANDLER_OK, s1)
            else do {
              blob \<leftarrow> ss_blob display_index;
              let (ok, s2) = guest_write sh s1 ss_gpa blob;
              Some (if ok then LAGFX_HANDLER_OK else LAGFX_HANDLER_ERR_INTERNAL, s2) } } })"

subsection \<open>Submitting and presenting frames\<close>

definition set_frame_ready :: "'g shell \<Rightarrow> u32 \<Rightarrow> 'g sys \<Rightarrow> 'g sys" where
  "set_frame_ready sh display_id s =
     (let s1 = upd_display s display_id (\<lambda>d. d\<lparr>d_new_frame_ready := True\<rparr>)
      in case cb_frame_ready (display_cbs sh (unat display_id)) of
           None \<Rightarrow> s1 | Some cb \<Rightarrow> s1\<lparr>ext := cb (ext s1)\<rparr>)"

text \<open>Without Vulkan the scanout address and length are accepted and not used.\<close>

definition lagfx_display_submit_rendered_frame ::
  "'g shell \<Rightarrow> u32 \<Rightarrow> display \<Rightarrow> u64 \<Rightarrow> u64 \<Rightarrow> 'g sys \<Rightarrow> 'g sys" where
  "lagfx_display_submit_rendered_frame sh display_id disp scanout_gpa scanout_length s =
     (if d_magic disp \<noteq> LAGFX_DISPLAY_MAGIC then s else set_frame_ready sh display_id s)"

definition default_scanout_len :: u64 where
  "default_scanout_len = ucast LAGFX_DISPLAY_DEFAULT_W * ucast LAGFX_DISPLAY_DEFAULT_H *
     ucast LAGFX_DISPLAY_DEFAULT_BYTES_PER_PIXEL"

text \<open>Which guest buffer a submit scans out to.\<close>

definition scanout_target :: "display \<Rightarrow> u32 \<Rightarrow> u64 \<times> u64" where
  "scanout_target disp arg2 =
     (if arg2 = 0 \<and> d_scanout_valid disp then (d_scanout_gpa disp, d_scanout_length disp)
      else if arg2 = 0 \<and> \<not> d_scanout_valid disp then
        (0, if d_rt_ready disp then ucast (d_rt_width disp) * ucast (d_rt_height disp) * 4
            else default_scanout_len)
      else (push_bit 12 (ucast arg2),
            if d_scanout_length disp > 0 then d_scanout_length disp else default_scanout_len))"

definition lagfx_display_vchan_display_submit :: "'g handler" where
  "lagfx_display_vchan_display_submit sh hdr s = do {
     (display_index, arg2) \<leftarrow> (case payload_at_least hdr 8 of
        None \<Rightarrow> Some (0, 0)
      | Some b \<Rightarrow> do { i \<leftarrow> lagfx_le32 b 0; a \<leftarrow> lagfx_le32 b 4; Some (i, a) });
     let s1 = (if arg2 \<noteq> 0 \<and> has_read sh s \<and> display_index < 8
       then s\<lparr>proto := (proto s)\<lparr>p_diag := (p_diag (proto s))\<lparr>submit_probe_count :=
              submit_probe_count (p_diag (proto s)) + 1\<rparr>\<rparr>\<rparr>
       else s);
     Some (LAGFX_HANDLER_OK,
       case find_display s1 display_index of None \<Rightarrow> s1
       | Some disp \<Rightarrow>
           let (fb_base, scanout_len) = scanout_target disp arg2
           in lagfx_display_submit_rendered_frame sh display_index disp fb_base scanout_len s1) }"

definition lagfx_display_define_child_fifo :: "'g handler" where
  "lagfx_display_define_child_fifo sh hdr s =
     (case payload_at_least hdr 44 of
        None \<Rightarrow> Some (LAGFX_HANDLER_ERR_SIZE, s)
      | Some b \<Rightarrow> do {
          ring_base \<leftarrow> lagfx_le64 b 8;
          ring_sz \<leftarrow> lagfx_le64 b 16;
          entry_count \<leftarrow> lagfx_le32 b 24;
          Some (LAGFX_HANDLER_OK, s) })"

definition lagfx_display_vchan_present :: "'g handler" where
  "lagfx_display_vchan_present sh hdr s =
     (case payload_at_least hdr 12 of
        None \<Rightarrow> Some (LAGFX_HANDLER_ERR_SIZE, s)
      | Some b \<Rightarrow> do {
          display_index \<leftarrow> lagfx_le32 b 0;
          surface_id \<leftarrow> lagfx_le32 b 4;
          plane_id \<leftarrow> lagfx_le32 b 8;
          Some (LAGFX_HANDLER_OK, s) })"

definition lagfx_display_vchan_present_gamma :: "'g handler" where
  "lagfx_display_vchan_present_gamma sh hdr s =
     (case payload_at_least hdr 36 of
        None \<Rightarrow> Some (LAGFX_HANDLER_ERR_SIZE, s)
      | Some b \<Rightarrow> do {
          display_index \<leftarrow> lagfx_le32 b 0;
          plane_id \<leftarrow> lagfx_le32 b 4;
          surface_id \<leftarrow> lagfx_le32 b 8;
          gamma_len \<leftarrow> lagfx_le32 b 20;
          Some (LAGFX_HANDLER_OK, s) })"

subsection \<open>The published page\<close>

lemma length_mode_name [simp]: "length mode_name = 10"
  by (simp add: mode_name_def)

lemmas ss_defs = ss_fields_def LAGFX_DISPLAY_DEFAULT_W_def LAGFX_DISPLAY_DEFAULT_H_def
  LAGFX_DISPLAY_DEFAULT_BYTES_PER_PIXEL_def Let_def

lemma ss_fields_inside: "list_all (inside 544) (ss_fields i)"
  by (simp add: ss_defs inside_def)

lemma ss_blob_total: "\<exists>b. ss_blob i = Some b \<and> length b = 544"
  using blob_writes_total[of "replicate 544 0" "ss_fields i"] ss_fields_inside[of i]
  by (simp add: ss_blob_def)

lemma ss_blob_fields:
  assumes "ss_blob i = Some b"
  shows "lagfx_le32 b 0x000 = Some 1" "lagfx_le16 b 0x012 = Some (ucast i)"
    "lagfx_le16 b 0x014 = Some 1920" "lagfx_le16 b 0x016 = Some 1080"
    "lagfx_le32 b 0x020 = Some 8294400" "lagfx_le32 b 0x100 = Some 4" "lagfx_le32 b 0x104 = Some 0xC"
    "lagfx_le16 b 0x208 = Some 1" "lagfx_le32 b 0x210 = Some 1920" "lagfx_le32 b 0x214 = Some 1080"
proof -
  note f = blob_writes_field[OF assms[unfolded ss_blob_def], unfolded length_replicate, OF ss_fields_inside]
  show "lagfx_le32 b 0x000 = Some 1" by (rule f(2)[where k = 0]) (simp_all add: ss_defs apart_def)
  show "lagfx_le16 b 0x012 = Some (ucast i)" by (rule f(1)[where k = 2]) (simp_all add: ss_defs apart_def)
  show "lagfx_le16 b 0x014 = Some 1920" by (rule f(1)[where k = 3]) (simp_all add: ss_defs apart_def)
  show "lagfx_le16 b 0x016 = Some 1080" by (rule f(1)[where k = 4]) (simp_all add: ss_defs apart_def)
  show "lagfx_le32 b 0x020 = Some 8294400" by (rule f(2)[where k = 8]) (simp_all add: ss_defs apart_def)
  show "lagfx_le32 b 0x100 = Some 4" by (rule f(2)[where k = 9]) (simp_all add: ss_defs apart_def)
  show "lagfx_le32 b 0x104 = Some 0xC" by (rule f(2)[where k = 10]) (simp_all add: ss_defs apart_def)
  show "lagfx_le16 b 0x208 = Some 1" by (rule f(1)[where k = 11]) (simp_all add: ss_defs apart_def)
  show "lagfx_le32 b 0x210 = Some 1920" by (rule f(2)[where k = 12]) (simp_all add: ss_defs apart_def)
  show "lagfx_le32 b 0x214 = Some 1080" by (rule f(2)[where k = 13]) (simp_all add: ss_defs apart_def)
qed

subsection \<open>The contract\<close>

lemma upd_display_keeps:
  "proto (upd_display s i f) = proto s" "dev (upd_display s i f) = None \<longleftrightarrow> dev s = None"
  "wf_sys s \<Longrightarrow> wf_sys (upd_display s i f)" "frame s (upd_display s i f)"
  by (auto simp: upd_display_def wf_sys_def wf_device_def frame_def split: option.splits)

lemma set_frame_ready_keeps:
  "wf_sys s \<Longrightarrow> wf_sys (set_frame_ready sh i s)" "frame s (set_frame_ready sh i s)"
  using upd_display_keeps(3,4)[of s i] by (auto simp: set_frame_ready_def Let_def split: option.splits)

interpretation swap_mapping: safe_handler lagfx_display_swap_mapping
proof
  fix hdr sh and s s' :: "'g sys" and st
  assume "wf_sys s" "lagfx_display_swap_mapping sh hdr s = Some (st, s')"
  then show "wf_sys s' \<and> frame s s'"
    by (auto simp: lagfx_display_swap_mapping_def upd_display_keeps split: option.splits elim!: bind_eq_SomeE)
next
  fix hdr sh and s :: "'g sys"
  assume "wf_hdr hdr"
  then show "lagfx_display_swap_mapping sh hdr s \<noteq> None"
    by (cases "payload_at_least hdr 40")
       (auto simp: lagfx_display_swap_mapping_def chk_simps dest!: wf_hdr_payload)
qed

interpretation display_ack: safe_handler lagfx_display_ack
  by unfold_locales
     (auto simp: lagfx_display_ack_def chk_simps dest!: wf_hdr_payload split: option.splits elim!: bind_eq_SomeE)

interpretation cursor_glyph_upload: safe_handler lagfx_display_cursor_glyph
proof
  fix hdr sh and s s' :: "'g sys" and st
  assume "wf_sys s" "lagfx_display_cursor_glyph sh hdr s = Some (st, s')"
  then show "wf_sys s' \<and> frame s s'"
    by (auto simp: lagfx_display_cursor_glyph_def Let_def wf_sys_def wf_device_def frame_def
        split: option.splits elim!: bind_eq_SomeE)
next
  fix hdr sh and s :: "'g sys"
  assume "wf_hdr hdr"
  then show "lagfx_display_cursor_glyph sh hdr s \<noteq> None"
    by (cases "payload_at_least hdr 32")
       (auto simp: lagfx_display_cursor_glyph_def Let_def chk_simps dest!: wf_hdr_payload)
qed

interpretation cursor_move: safe_handler lagfx_display_cursor_show
proof
  fix hdr sh and s s' :: "'g sys" and st
  assume "wf_sys s" "lagfx_display_cursor_show sh hdr s = Some (st, s')"
  then show "wf_sys s' \<and> frame s s'"
    by (auto simp: lagfx_display_cursor_show_def Let_def wf_sys_def wf_device_def frame_def
        split: option.splits elim!: bind_eq_SomeE)
next
  fix hdr sh and s :: "'g sys"
  assume "wf_hdr hdr"
  then show "lagfx_display_cursor_show sh hdr s \<noteq> None"
    by (cases "payload_at_least hdr 16")
       (auto simp: lagfx_display_cursor_show_def Let_def chk_simps dest!: wf_hdr_payload)
qed

lemma guest_write_keeps_wf:
  "guest_write sh s a bs = (ok, s') \<Longrightarrow> wf_sys s' = wf_sys s \<and> frame s s'"
  using wf_sys_guest_write[of sh s a bs] frame_guest_write[of s sh s a bs] by simp

interpretation setup_shared_state: safe_handler lagfx_display_vchan_setup_shared_state
proof
  fix hdr sh and s s' :: "'g sys" and st
  assume h: "wf_sys s" "lagfx_display_vchan_setup_shared_state sh hdr s = Some (st, s')"
  define inst where "inst i a = (case dev s of None \<Rightarrow> s
      | Some d \<Rightarrow> if i < 16 then s\<lparr>dev := Some (d\<lparr>display_ss_gpa := (display_ss_gpa d)[unat i := a],
            display_ss_installed := display_ss_installed d OR push_bit (unat i) 1\<rparr>)\<rparr> else s)"
    for i :: u32 and a
  have inst: "wf_sys (inst i a)" "frame s (inst i a)" for i a
    using h(1) by (auto simp: inst_def wf_sys_def wf_device_def frame_def split: option.splits)
  from h(2) show "wf_sys s' \<and> frame s s'"
    unfolding lagfx_display_vchan_setup_shared_state_def Let_def inst_def[symmetric]
    using h(1) inst(1) inst(2)[unfolded frame_def]
    by (auto simp: frame_def dest!: guest_write_keeps_wf split: option.splits if_splits prod.splits
        elim!: bind_eq_SomeE)
next
  fix hdr sh and s :: "'g sys"
  assume "wf_hdr hdr"
  then show "lagfx_display_vchan_setup_shared_state sh hdr s \<noteq> None"
    using ss_blob_total[of "le32_at (the (payload_at_least hdr 8)) 0"]
    by (cases "payload_at_least hdr 8")
       (auto simp: lagfx_display_vchan_setup_shared_state_def Let_def chk_simps
         dest!: wf_hdr_payload split: prod.splits)
qed

lemma submit_frame_keeps:
  "wf_sys s \<Longrightarrow> wf_sys (lagfx_display_submit_rendered_frame sh i disp a l s)"
  "frame s (lagfx_display_submit_rendered_frame sh i disp a l s)"
  by (simp_all add: lagfx_display_submit_rendered_frame_def set_frame_ready_keeps)

interpretation display_submit: safe_handler lagfx_display_vchan_display_submit
proof
  fix hdr sh and s s' :: "'g sys" and st
  assume h: "wf_sys s" "lagfx_display_vchan_display_submit sh hdr s = Some (st, s')"
  define probe where "probe c = (if c
       then s\<lparr>proto := (proto s)\<lparr>p_diag := (p_diag (proto s))\<lparr>submit_probe_count :=
              submit_probe_count (p_diag (proto s)) + 1\<rparr>\<rparr>\<rparr> else s)" for c
  have p: "wf_sys (probe c)" "frame s (probe c)" for c
    using h(1) by (auto simp: probe_def wf_sys_def wf_tables_def frame_def geom_simps)
  show "wf_sys s' \<and> frame s s'"
    using h(2) unfolding lagfx_display_vchan_display_submit_def Let_def probe_def[symmetric]
    by (auto simp: frame_def p(1) p(2)[unfolded frame_def] submit_frame_keeps(1)
        submit_frame_keeps(2)[unfolded frame_def] split: option.splits prod.splits elim!: bind_eq_SomeE)
next
  fix hdr sh and s :: "'g sys"
  assume "wf_hdr hdr"
  then show "lagfx_display_vchan_display_submit sh hdr s \<noteq> None"
    by (cases "payload_at_least hdr 8")
       (auto simp: lagfx_display_vchan_display_submit_def Let_def chk_simps dest!: wf_hdr_payload)
qed

interpretation define_child_fifo: safe_handler lagfx_display_define_child_fifo
  by unfold_locales
     (auto simp: lagfx_display_define_child_fifo_def chk_simps dest!: wf_hdr_payload
       split: option.splits elim!: bind_eq_SomeE)

interpretation vchan_present: safe_handler lagfx_display_vchan_present
  by unfold_locales
     (auto simp: lagfx_display_vchan_present_def chk_simps dest!: wf_hdr_payload
       split: option.splits elim!: bind_eq_SomeE)

interpretation vchan_present_gamma: safe_handler lagfx_display_vchan_present_gamma
  by unfold_locales
     (auto simp: lagfx_display_vchan_present_gamma_def chk_simps dest!: wf_hdr_payload
       split: option.splits elim!: bind_eq_SomeE)

subsection \<open>The shared-state page reaches the guest\<close>

lemma setup_shared_state_guest:
  assumes "ram_law sh ram" "dev s = Some d" "wf_device d" "wf_hdr hdr" "payload_at_least hdr 8 = Some b"
    and "le32_at b 4 \<noteq> 0" "le32_at b 0 < 16"
  shows "\<exists>s' d' page. lagfx_display_vchan_setup_shared_state sh hdr s = Some (LAGFX_HANDLER_OK, s') \<and> dev s' = Some d' \<and>
     display_ss_gpa d' ! unat (le32_at b 0) = push_bit 12 (ucast (le32_at b 4)) \<and>
     guest_read sh s' (push_bit 12 (ucast (le32_at b 4))) 544 = Some page \<and>
     lagfx_le16 page 0x012 = Some (ucast (le32_at b 0)) \<and>
     lagfx_le16 page 0x014 = Some 1920 \<and> lagfx_le16 page 0x016 = Some 1080 \<and>
     lagfx_le16 page 0x208 = Some 1 \<and> lagfx_le32 page 0x210 = Some 1920 \<and> lagfx_le32 page 0x214 = Some 1080"
proof -
  let ?i = "le32_at b 0" and ?gpa = "push_bit 12 (ucast (le32_at b 4)) :: u64"
  obtain page where p: "ss_blob ?i = Some page" "length page = 544" using ss_blob_total by blast
  let ?d = "d\<lparr>display_ss_gpa := (display_ss_gpa d)[unat ?i := ?gpa],
      display_ss_installed := display_ss_installed d OR push_bit (unat ?i) 1\<rparr>"
  let ?w = "dma_write sh (ext s) ?gpa page"
  let ?s' = "s\<lparr>dev := Some ?d, ext := snd ?w\<rparr>"
  have hw: "write_memory sh \<noteq> None" using ram_law_has_write[OF assms(1)] by auto
  have ok: "fst ?w" using ram_law_write_ok[OF assms(1)] p(2) by simp
  have "lagfx_display_vchan_setup_shared_state sh hdr s = Some (LAGFX_HANDLER_OK, ?s')"
    using assms(2,5-7) wf_hdr_payload[OF assms(4,5)] hw ok p(1)
    by (auto simp: lagfx_display_vchan_setup_shared_state_def chk_simps guest_write_def has_write_def Let_def split: prod.splits)
  moreover have "display_ss_gpa ?d ! unat ?i = ?gpa"
    using assms(3,7) by (simp add: wf_device_def word_less_nat_alt)
  moreover have "guest_read sh ?s' ?gpa 544 = Some page"
    using ram_law_read_back[OF assms(1), of page "ext s" ?gpa] p(2) by (simp add: guest_read_def)
  ultimately show ?thesis
    using ss_blob_fields[OF p(1)] by (intro exI[of _ ?s'] exI[of _ ?d] exI[of _ page]) simp
qed

end
