(* ===== verification/ChannelDisplay.thy ===== *)
theory ChannelDisplay
  imports Channel0 DisplayOps
begin

text \<open>
  The display channels, \<^verbatim>\<open>src/dispatchers/channel_display_dispatcher.c\<close>: the compact opcodes of
  the display pipes, the display commands proper, and the drain of a pipe's 4 KiB ring.
\<close>

text \<open>The trial parse of a transaction only reads, for the log: the first bytes, and the
  first six entries of whichever of the two layouts the size fits.\<close>

definition txn_entry_reads :: "bytes \<Rightarrow> nat \<Rightarrow> nat \<Rightarrow> unit option" where
  "txn_entry_reads payload hdr_len entry_len =
     (if length payload \<ge> hdr_len \<and> (length payload - hdr_len) mod entry_len = 0
      then accesses payload (concat (map (\<lambda>e. let b = hdr_len + e * entry_len in
             [(b, 4), (b + 4, 4), (b + 8, 4), (b + 12, 4), (b + 16, 8)])
             [0..<min ((length payload - hdr_len) div entry_len) 6]))
      else Some ())"

definition display_transaction :: "cmd_header \<Rightarrow> 'g sys \<Rightarrow> 'g sys option" where
  "display_transaction hdr s =
     (case payload_at_least hdr 1 of None \<Rightarrow> Some s
      | Some payload \<Rightarrow> do {
          _ \<leftarrow> accesses payload (map (\<lambda>k. (k, 1)) [0..<min (length payload) 96]);
          _ \<leftarrow> txn_entry_reads payload 12 32;
          _ \<leftarrow> txn_entry_reads payload 16 44;
          Some s })"

definition display_dispatch_command :: "'g dispatch" where
  "display_dispatch_command sh hdr s =
     (let op = hdr_opcode hdr in
      if op = 0x01 then arm lagfx_display_vchan_setup_shared_state sh hdr s
      else if op = 0x02 then arm lagfx_display_vchan_display_submit sh hdr s
      else if op = 0x04 then arm lagfx_display_define_child_fifo sh hdr s
      else if op = 0x06 then arm lagfx_display_vchan_present sh hdr s
      else if op = 0x07 then arm lagfx_display_vchan_present_gamma sh hdr s
      else if op = 0x10 then arm lagfx_display_ack sh hdr s
      else if op = 0x11 then Some s
      else if op = 0x12 then arm lagfx_display_swap_mapping sh hdr s
      else if op = 0x13 then arm lagfx_display_cursor_show sh hdr s
      else if op = 0x14 then arm lagfx_display_cursor_glyph sh hdr s
      else if op = 0x15 \<or> op = 0x16 then display_transaction hdr s
      else if op \<in> {0x17, 0x18, 0x19, 0x1a, 0x1e} then Some s
      else Some (count_unknown s))"

definition LAGFX_DISPLAY_RING_SIZE :: u32 where "LAGFX_DISPLAY_RING_SIZE = 0x1000"

definition channel_display_dispatcher_drain :: "'g shell \<Rightarrow> u32 \<Rightarrow> 'g sys \<Rightarrow> (nat \<times> 'g sys) option" where
  "channel_display_dispatcher_drain = vchan_drain display_dispatch_command LAGFX_DISPLAY_RING_SIZE"

subsection \<open>The contract\<close>

lemma txn_entry_reads_ok:
  assumes "24 \<le> el"
  shows "txn_entry_reads payload hl el = Some ()"
proof -
  have "hl + e * el + 24 \<le> length payload" if "hl \<le> length payload" "e < (length payload - hl) div el" for e
  proof -
    have "(e + 1) * el \<le> (length payload - hl) div el * el" using that(2) by (intro mult_right_mono) auto
    also have "\<dots> \<le> length payload - hl" by (rule div_times_less_eq_dividend)
    finally have "e * el + el \<le> length payload - hl" by simp
    then show ?thesis using assms that(1) by linarith
  qed
  note b = this
  show ?thesis
  proof (cases "hl \<le> length payload")
    case True
    have "accesses payload (concat (map (\<lambda>e. let b = hl + e * el in
             [(b, 4), (b + 4, 4), (b + 8, 4), (b + 12, 4), (b + 16, 8)])
             [0..<min ((length payload - hl) div el) 6])) = Some ()"
      using b[OF True] by (intro accesses_ok) (fastforce simp: Let_def)
    then show ?thesis by (simp add: txn_entry_reads_def)
  qed (simp add: txn_entry_reads_def)
qed

lemma display_transaction_same: "display_transaction hdr s = Some s"
proof (cases "payload_at_least hdr 1")
  case (Some b)
  have "accesses b (map (\<lambda>k. (k, 1)) [0..<min (length b) 96]) = Some ()"
    by (rule accesses_ok) auto
  then show ?thesis using Some by (simp add: display_transaction_def txn_entry_reads_ok)
qed (simp add: display_transaction_def)

lemmas display_safe_arms =
  setup_shared_state.arm_total display_submit.arm_total define_child_fifo.arm_total
  vchan_present.arm_total vchan_present_gamma.arm_total display_ack.arm_total swap_mapping.arm_total
  cursor_move.arm_total cursor_glyph_upload.arm_total

lemma display_dispatch_total:
  assumes "wf_hdr hdr" "wf_sys s"
  shows "\<exists>s'. display_dispatch_command sh hdr s = Some s' \<and> keeps_sys s s'"
  using display_safe_arms[OF assms, of sh] display_transaction_same[of hdr s]
    count_unknown_keeps[OF assms(2)] keeps_sys_same[OF assms(2)]
  by (auto simp: display_dispatch_command_def Let_def keeps_sys_def)

interpretation display: total_dispatcher display_dispatch_command
proof (unfold_locales, goal_cases)
  case (1 hdr s sh s')
  then show ?case using display_dispatch_total[OF 1(1,2), of sh] by (auto simp: keeps_sys_def)
next
  case (2 hdr s sh)
  then show ?case using display_dispatch_total[OF 2, of sh] by auto
qed

end
