(* ===== verification/Doorbell.thy ===== *)
theory Doorbell
  imports ChannelCompute ChannelDisplay
begin

text \<open>
  The inbound side of the device: the MMIO shims of \<^verbatim>\<open>src/device.c\<close>, the register file
  and door table of \<^verbatim>\<open>src/doorbell.c\<close>, and the two doors,
  \<^verbatim>\<open>src/dispatchers/primary_ring_door_dispatcher.c\<close> and
  \<^verbatim>\<open>src/dispatchers/channel_door_dispatcher.c\<close>.  The guest drives the device by a sequence of
  register writes and reads; \<open>guest_step\<close> is one of them and \<open>reachable\<close> what they lead to.

  The protocol state pointer of a device that was created successfully is never
  NULL, so the NULL tests of the entry points are not branches here.
\<close>

subsection \<open>The doors\<close>

definition primary_ring_door_dispatcher_dispatch :: "'g shell \<Rightarrow> u32 \<Rightarrow> 'g sys \<Rightarrow> 'g sys option" where
  "primary_ring_door_dispatcher_dispatch sh data s =
     (if \<not> lagfx_protocol_is_valid (proto s) then Some s
      else map_option snd (channel_0_dispatcher_drain sh
             (s\<lparr>proto := (proto s)\<lparr>write_ptr := data, current_chan_id := 0\<rparr>\<rparr>)))"

definition channel_door_dispatcher_dispatch :: "'g shell \<Rightarrow> u32 \<Rightarrow> 'g sys \<Rightarrow> 'g sys option" where
  "channel_door_dispatcher_dispatch sh data s =
     (if \<not> lagfx_protocol_is_valid (proto s) then Some s
      else let chan_id = data AND 0xff in
        if chan_id \<ge> 16 then Some s
        else let s1 = s\<lparr>proto := (proto s)\<lparr>current_chan_id := ucast chan_id\<rparr>\<rparr> in
          if chan_id = 0 then map_option snd (channel_0_dispatcher_drain sh s1)
          else if chan_id \<le> 4 then map_option snd (channel_compute_dispatcher_drain sh chan_id s1)
          else map_option snd (channel_display_dispatcher_drain sh chan_id s1))"

text \<open>The door table and its lookup.\<close>

datatype doorbell_door_id = DOOR_PRIMARY_RING | DOOR_CHANNEL

definition g_doorbell_doors :: "(u64 \<times> doorbell_door_id) list" where
  "g_doorbell_doors = [(0x1008, DOOR_PRIMARY_RING), (0x1020, DOOR_CHANNEL)]"

definition doorbell_lookup_by_offset :: "u64 \<Rightarrow> doorbell_door_id option" where
  "doorbell_lookup_by_offset offset = map_of g_doorbell_doors offset"

definition doorbell_dispatch :: "'g shell \<Rightarrow> u64 \<Rightarrow> u32 \<Rightarrow> 'g sys \<Rightarrow> 'g sys option" where
  "doorbell_dispatch sh bar_offset data s =
     (case doorbell_lookup_by_offset bar_offset of
        None \<Rightarrow> Some s
      | Some DOOR_PRIMARY_RING \<Rightarrow> primary_ring_door_dispatcher_dispatch sh data s
      | Some DOOR_CHANNEL \<Rightarrow> channel_door_dispatcher_dispatch sh data s)"

subsection \<open>The register file\<close>

text \<open>\<^verbatim>\<open>-1\<close> is \<^const>\<open>None\<close>.\<close>

definition doorbell_reg_index :: "u64 \<Rightarrow> nat option" where
  "doorbell_reg_index offset =
     (if offset < 0x1000 \<or> offset \<ge> 0x2000 then None
      else let idx = unat (drop_bit 2 (offset AND 0xfff)) in if idx < 16 then Some idx else None)"

definition doorbell_init :: "protocol \<Rightarrow> protocol" where
  "doorbell_init p = p\<lparr>reg := (replicate 16 0)[0 := 1]\<rparr>"

definition shadow_write :: "u64 \<Rightarrow> u32 \<Rightarrow> protocol \<Rightarrow> protocol" where
  "shadow_write offset v p =
     (case doorbell_reg_index offset of None \<Rightarrow> p | Some idx \<Rightarrow> p\<lparr>reg := (reg p)[idx := v]\<rparr>)"

definition doorbell_handle_write :: "'g shell \<Rightarrow> u64 \<Rightarrow> u32 \<Rightarrow> 'g sys \<Rightarrow> 'g sys option" where
  "doorbell_handle_write sh offset v s0 =
     (let p = shadow_write offset v (proto s0); s = s0\<lparr>proto := p\<rparr> in
      if offset = 0x1000 then Some (s\<lparr>proto := p\<lparr>ring_armed := v \<noteq> 0\<rparr>\<rparr>)
      else if offset = 0x1004 then Some (s\<lparr>proto := p\<lparr>ring_size := (if v \<noteq> 0 then v else 0x10000)\<rparr>\<rparr>)
      else if offset = 0x1008 then doorbell_dispatch sh 0x1008 v s
      else if offset = 0x1010 then
        Some (s\<lparr>proto := p\<lparr>ring_start_offset := v, page_size := 0x1000,
                           ring_base_gpa := push_bit 12 (ring_base_pfn p) + ucast v\<rparr>\<rparr>)
      else if offset = 0x101c then Some (s\<lparr>proto := p\<lparr>ring_shared_page_pfn := ucast v\<rparr>\<rparr>)
      else if offset = 0x1020 then
        doorbell_dispatch sh 0x1020 v (s\<lparr>proto := p\<lparr>current_chan_id := ucast v\<rparr>\<rparr>)
      else if offset = 0x1030 then
        Some (s\<lparr>proto := p\<lparr>ring_base_pfn := ucast v,
                           ring_base_gpa := push_bit 12 (ucast v) + ucast (ring_start_offset p),
                           ring_size := (if ring_size p = 0 then 0x10000 else ring_size p)\<rparr>\<rparr>)
      else Some s)"

definition doorbell_handle_read :: "u64 \<Rightarrow> 'g sys \<Rightarrow> u32 \<times> 'g sys" where
  "doorbell_handle_read offset s =
     (if offset = 0x122c then (9, s)
      else if offset = 0x1014 then
        (pending_displays_bitmask (proto s), s\<lparr>proto := (proto s)\<lparr>pending_displays_bitmask := 0\<rparr>\<rparr>)
      else if offset = 0x1018 then
        (pending_stamps_bitmask (proto s), s\<lparr>proto := (proto s)\<lparr>pending_stamps_bitmask := 0\<rparr>\<rparr>)
      else case doorbell_reg_index offset of None \<Rightarrow> (0, s) | Some idx \<Rightarrow> (reg (proto s) ! idx, s))"

subsection \<open>The device's entry points\<close>

definition LAGFX_DEVICE_MAGIC :: u32 where "LAGFX_DEVICE_MAGIC = 0x4C414758"

definition lagfx_device_is_valid :: "'g sys \<Rightarrow> bool" where
  "lagfx_device_is_valid s \<longleftrightarrow> (case dev s of None \<Rightarrow> False | Some d \<Rightarrow> dev_magic d = LAGFX_DEVICE_MAGIC)"

definition lagfx_mmio_read :: "u64 \<Rightarrow> 'g sys \<Rightarrow> u32 \<times> 'g sys" where
  "lagfx_mmio_read offset s =
     (if \<not> lagfx_device_is_valid s then (0, s)
      else if offset < 0x1000 then (0, s)
      else doorbell_handle_read offset s)"

definition lagfx_mmio_write :: "'g shell \<Rightarrow> u64 \<Rightarrow> u32 \<Rightarrow> 'g sys \<Rightarrow> 'g sys option" where
  "lagfx_mmio_write sh offset v s =
     (if \<not> lagfx_device_is_valid s then Some s
      else if offset < 0x1000 then Some s
      else doorbell_handle_write sh offset v s)"

definition lagfx_device_reset :: "'g sys \<Rightarrow> 'g sys" where
  "lagfx_device_reset s = (if \<not> lagfx_device_is_valid s then s else s)"

text \<open>The state \<^verbatim>\<open>lagfx_device_new\<close> leaves: the zeroed device with its magic, and a fresh
  protocol whose register file \<^verbatim>\<open>doorbell_init\<close> has set.\<close>

definition new_device :: device where
  "new_device = \<lparr>dev_magic = LAGFX_DEVICE_MAGIC, displays = replicate 4 None, display_ss_gpa = replicate 16 0,
     display_ss_installed = 0, display_ss_enabled = 0,
     cursor_show = \<lparr>cs_valid = False, cs_display_id = 0, cs_x = 0, cs_y = 0, cs_visible = 0, cs_hot_x = 0, cs_hot_y = 0\<rparr>,
     cursor_glyph = \<lparr>cg_valid = False, cg_display_id = 0, cg_glyph_va = 0, cg_width = 0, cg_height = 0,
       cg_bytes_per_row = 0, cg_hot_x = 0, cg_hot_y = 0, cg_captured_len = 0\<rparr>\<rparr>"

definition lagfx_device_new :: "'g \<Rightarrow> 'g sys" where
  "lagfx_device_new g = \<lparr>proto = doorbell_init lagfx_protocol_new, dev = Some new_device, ext = g\<rparr>"

subsection \<open>What the guest can reach\<close>

datatype mmio_event = Mmio_write u64 u32 | Mmio_read u64 u32 | Device_reset

inductive guest_step :: "'g shell \<Rightarrow> 'g sys \<Rightarrow> mmio_event \<Rightarrow> 'g sys \<Rightarrow> bool" for sh where
  Write: "lagfx_mmio_write sh offset v s = Some s' \<Longrightarrow> guest_step sh s (Mmio_write offset v) s'"
| Read: "lagfx_mmio_read offset s = (v, s') \<Longrightarrow> guest_step sh s (Mmio_read offset v) s'"
| Reset: "guest_step sh s Device_reset (lagfx_device_reset s)"

text \<open>Between two register accesses the guest may also change its own memory.\<close>

inductive reachable :: "'g shell \<Rightarrow> 'g sys \<Rightarrow> bool" for sh where
  new: "reachable sh (lagfx_device_new g)"
| step: "reachable sh s \<Longrightarrow> guest_step sh s e s' \<Longrightarrow> reachable sh s'"
| guest_memory: "reachable sh s \<Longrightarrow> reachable sh (s\<lparr>ext := g\<rparr>)"

inductive_cases guest_stepE: "guest_step sh s e s'"
inductive_simps guest_step_write: "guest_step sh s (Mmio_write offset v) s'"
inductive_simps guest_step_read: "guest_step sh s (Mmio_read offset v) s'"

text \<open>The invariant: well-formed tables, a live protocol and device, a ring base that is
  what the two geometry registers say, and a ring size once a base is set.\<close>

definition ring_ok :: "protocol \<Rightarrow> bool" where
  "ring_ok p \<longleftrightarrow> ring_base_gpa p = push_bit 12 (ring_base_pfn p) + ucast (ring_start_offset p) \<and>
     unat (ring_base_pfn p) < 2 ^ 32 \<and> (ring_size p = 0 \<longrightarrow> ring_base_pfn p = 0)"

definition mmio_ok :: "'g sys \<Rightarrow> bool" where
  "mmio_ok s \<longleftrightarrow> wf_sys s \<and> lagfx_protocol_is_valid (proto s) \<and> dev s \<noteq> None \<and> ring_ok (proto s)"

lemma ring_ok_geometry: "geometry (set_rp 0 p) = geometry (set_rp 0 q) \<Longrightarrow> ring_ok p = ring_ok q"
  by (simp add: geometry_def set_rp_def ring_ok_def)

lemma valid_geometry_rp:
  "geometry (set_rp 0 p) = geometry (set_rp 0 q) \<Longrightarrow> lagfx_protocol_is_valid p = lagfx_protocol_is_valid q"
  by (simp add: geometry_def set_rp_def lagfx_protocol_is_valid_def)

lemma mmio_ok_drained: "drained s n s' \<Longrightarrow> mmio_ok s \<Longrightarrow> mmio_ok s'"
  unfolding mmio_ok_def drained_def
  using ring_ok_geometry[of "proto s'" "proto s"] valid_geometry_rp[of "proto s'" "proto s"] by auto

lemma mmio_ok_chan [simp]:
  "mmio_ok (s\<lparr>proto := (proto s)\<lparr>current_chan_id := c\<rparr>\<rparr>) = mmio_ok s"
  "mmio_ok (s\<lparr>proto := (proto s)\<lparr>write_ptr := w\<rparr>\<rparr>) = mmio_ok s"
  "mmio_ok (s\<lparr>proto := (proto s)\<lparr>write_ptr := w, current_chan_id := c\<rparr>\<rparr>) = mmio_ok s"
  by (simp_all add: mmio_ok_def wf_sys_def wf_tables_def ring_ok_def lagfx_protocol_is_valid_def)

lemma mmio_ok_wf: "mmio_ok s \<Longrightarrow> wf_sys s"
  by (simp add: mmio_ok_def)

lemma drains_keep:
  assumes "mmio_ok s"
  shows "channel_0_dispatcher_drain sh s = Some (n, s') \<Longrightarrow> mmio_ok s'"
    and "channel_compute_dispatcher_drain sh chan s = Some (n, s') \<Longrightarrow> mmio_ok s'"
    and "channel_display_dispatcher_drain sh chan s = Some (n, s') \<Longrightarrow> mmio_ok s'"
  using mmio_ok_drained[OF _ assms] ch0.ch0_drain_drained[OF mmio_ok_wf[OF assms]]
    compute.vchan_drain_drained[OF mmio_ok_wf[OF assms]] display.vchan_drain_drained[OF mmio_ok_wf[OF assms]]
  unfolding channel_0_dispatcher_drain_def channel_compute_dispatcher_drain_def channel_display_dispatcher_drain_def
  by blast+

lemma doors_keep:
  assumes "mmio_ok s"
  shows "primary_ring_door_dispatcher_dispatch sh v s = Some s' \<Longrightarrow> mmio_ok s'"
    and "channel_door_dispatcher_dispatch sh v s = Some s' \<Longrightarrow> mmio_ok s'"
  using assms
  by (auto simp: primary_ring_door_dispatcher_dispatch_def channel_door_dispatcher_dispatch_def Let_def
      intro: drains_keep[rotated] split: if_splits)

lemma doorbell_dispatch_keeps: "mmio_ok s \<Longrightarrow> doorbell_dispatch sh a v s = Some s' \<Longrightarrow> mmio_ok s'"
  by (auto simp: doorbell_dispatch_def intro: doors_keep[rotated] split: option.splits doorbell_door_id.splits)

lemma shadow_write_keeps [simp]:
  "tasks (shadow_write a v p) = tasks p" "resources (shadow_write a v p) = resources p"
  "ring_base_pfn (shadow_write a v p) = ring_base_pfn p" "ring_base_gpa (shadow_write a v p) = ring_base_gpa p"
  "ring_start_offset (shadow_write a v p) = ring_start_offset p" "ring_size (shadow_write a v p) = ring_size p"
  "magic (shadow_write a v p) = magic p" "length (reg (shadow_write a v p)) = length (reg p)"
  "fifos (shadow_write a v p) = fifos p" "display_child_rings (shadow_write a v p) = display_child_rings p"
  "backing_updates (shadow_write a v p) = backing_updates p" "big_maps (shadow_write a v p) = big_maps p"
  by (simp_all add: shadow_write_def split: option.split)

lemma mmio_ok_shadow [simp]: "mmio_ok (s\<lparr>proto := shadow_write a v (proto s)\<rparr>) = mmio_ok s"
  by (simp add: mmio_ok_def wf_sys_def wf_tables_def ring_ok_def lagfx_protocol_is_valid_def)

lemma wf_tables_regs [simp]:
  "wf_tables (p\<lparr>ring_armed := b\<rparr>) = wf_tables p" "wf_tables (p\<lparr>ring_size := n\<rparr>) = wf_tables p"
  "wf_tables (p\<lparr>ring_start_offset := n\<rparr>) = wf_tables p" "wf_tables (p\<lparr>page_size := n\<rparr>) = wf_tables p"
  "wf_tables (p\<lparr>ring_base_gpa := x\<rparr>) = wf_tables p" "wf_tables (p\<lparr>ring_base_pfn := x\<rparr>) = wf_tables p"
  "wf_tables (p\<lparr>ring_shared_page_pfn := x\<rparr>) = wf_tables p"
  by (simp_all add: wf_tables_def)

lemma handle_write_keeps:
  assumes "mmio_ok s" "doorbell_handle_write sh a v s = Some s'"
  shows "mmio_ok s'"
proof -
  let ?p = "shadow_write a v (proto s)"
  have ok: "mmio_ok (s\<lparr>proto := ?p\<rparr>)" using assms(1) by simp
  then have okc: "mmio_ok (s\<lparr>proto := ?p\<lparr>current_chan_id := ucast v\<rparr>\<rparr>)"
    using mmio_ok_chan(1)[of "ucast v" "s\<lparr>proto := ?p\<rparr>"] by simp
  consider "a = 0x1008" | "a = 0x1020" | "a \<noteq> 0x1008" "a \<noteq> 0x1020" by auto
  then show ?thesis
  proof cases
    case 1
    then show ?thesis using assms(2) ok by (auto simp: doorbell_handle_write_def Let_def intro: doorbell_dispatch_keeps[rotated])
  next
    case 2
    then show ?thesis using assms(2) okc by (auto simp: doorbell_handle_write_def Let_def intro: doorbell_dispatch_keeps[rotated])
  next
    case 3
    have w: "wf_tables ?p" "wf_registry (resources (proto s))" "\<forall>d. dev s = Some d \<longrightarrow> wf_device d"
      "magic (proto s) = LAGFX_PROTOCOL_MAGIC" "dev s \<noteq> None" "ring_ok (proto s)"
      using ok assms(1) by (simp_all add: mmio_ok_def wf_sys_def lagfx_protocol_is_valid_def)
    have "unat (ucast v :: u64) < 2 ^ 32" using unat_bound[of v] by (simp add: unat_ucast_up)
    then show ?thesis
      using 3 assms(2) w ok unfolding doorbell_handle_write_def Let_def
      by (auto simp: mmio_ok_def wf_sys_def ring_ok_def lagfx_protocol_is_valid_def split: if_split_asm)
  qed
qed

lemma handle_read_keeps: "mmio_ok s \<Longrightarrow> mmio_ok (snd (doorbell_handle_read a s))"
  by (auto simp: doorbell_handle_read_def mmio_ok_def wf_sys_def wf_tables_def ring_ok_def
      lagfx_protocol_is_valid_def split: option.split)

lemma guest_step_keeps: "guest_step sh s e s' \<Longrightarrow> mmio_ok s \<Longrightarrow> mmio_ok s'"
proof (induction rule: guest_step.induct)
  case (Write offset v s s')
  then show ?case by (auto simp: lagfx_mmio_write_def split: if_splits intro: handle_write_keeps)
next
  case (Read offset s v s')
  then show ?case using handle_read_keeps[of s offset] by (auto simp: lagfx_mmio_read_def split: if_splits)
qed (simp add: lagfx_device_reset_def)

lemma wf_new [simp]: "mmio_ok (lagfx_device_new g)"
  by (simp add: mmio_ok_def lagfx_device_new_def doorbell_init_def lagfx_protocol_new_def wf_sys_def wf_tables_def
      wf_zero_registry new_device_def wf_device_def ring_ok_def lagfx_protocol_is_valid_def uniq_by_def)

lemma reachable_ok: "reachable sh s \<Longrightarrow> mmio_ok s"
  by (induction rule: reachable.induct)
     (auto simp: guest_step_keeps, auto simp: mmio_ok_def)

subsection \<open>The registers as the guest sees them\<close>

lemma drained_reg: "drained s n s' \<Longrightarrow> reg (proto s') = reg (proto s)"
  by (simp add: drained_def geometry_def set_rp_def)

lemma drains_reg:
  assumes "wf_sys s"
  shows "channel_0_dispatcher_drain sh s = Some (n, s') \<Longrightarrow> reg (proto s') = reg (proto s)"
    and "channel_compute_dispatcher_drain sh chan s = Some (n, s') \<Longrightarrow> reg (proto s') = reg (proto s)"
    and "channel_display_dispatcher_drain sh chan s = Some (n, s') \<Longrightarrow> reg (proto s') = reg (proto s)"
  using drained_reg ch0.ch0_drain_drained[OF assms] compute.vchan_drain_drained[OF assms]
    display.vchan_drain_drained[OF assms]
  unfolding channel_0_dispatcher_drain_def channel_compute_dispatcher_drain_def channel_display_dispatcher_drain_def
  by blast+

lemma wf_sys_chan [simp]:
  "wf_sys (s\<lparr>proto := p\<lparr>current_chan_id := c\<rparr>\<rparr>) = wf_sys (s\<lparr>proto := p\<rparr>)"
  "wf_sys (s\<lparr>proto := p\<lparr>write_ptr := w\<rparr>\<rparr>) = wf_sys (s\<lparr>proto := p\<rparr>)"
  by (simp_all add: wf_sys_def wf_tables_def)

lemma doorbell_dispatch_reg:
  assumes "wf_sys s" "doorbell_dispatch sh a v s = Some s'"
  shows "reg (proto s') = reg (proto s)"
proof -
  have w: "wf_sys (s\<lparr>proto := (proto s)\<lparr>current_chan_id := c\<rparr>\<rparr>)"
    "wf_sys (s\<lparr>proto := (proto s)\<lparr>write_ptr := x, current_chan_id := c\<rparr>\<rparr>)" for c x
    using assms(1) by simp_all
  show ?thesis
    using assms(2) drains_reg(1)[OF w(1)] drains_reg(1)[OF w(2)] drains_reg(2)[OF w(1)] drains_reg(3)[OF w(1)]
    by (auto simp: doorbell_dispatch_def primary_ring_door_dispatcher_dispatch_def
        channel_door_dispatcher_dispatch_def Let_def split: option.splits doorbell_door_id.splits if_splits) 
qed

text \<open>A write leaves the register file as the shadow update leaves it, whatever commands a
  doorbell ran.\<close>

lemma handle_write_reg:
  assumes "wf_sys s" "doorbell_handle_write sh a v s = Some s'"
  shows "reg (proto s') = reg (shadow_write a v (proto s))"
proof -
  let ?p = "shadow_write a v (proto s)"
  have w: "wf_sys (s\<lparr>proto := ?p\<rparr>)" "wf_sys (s\<lparr>proto := ?p\<lparr>current_chan_id := ucast v\<rparr>\<rparr>)"
    using assms(1) by (simp_all add: wf_sys_def wf_tables_def)
  consider "a = 0x1008" | "a = 0x1020" | "a \<noteq> 0x1008" "a \<noteq> 0x1020" by auto
  then show ?thesis
  proof cases
    case 1
    then have "doorbell_dispatch sh 0x1008 v (s\<lparr>proto := ?p\<rparr>) = Some s'"
      using assms(2) by (simp add: doorbell_handle_write_def Let_def)
    from doorbell_dispatch_reg[OF w(1) this] show ?thesis by simp
  next
    case 2
    then have "doorbell_dispatch sh 0x1020 v (s\<lparr>proto := ?p\<lparr>current_chan_id := ucast v\<rparr>\<rparr>) = Some s'"
      using assms(2) by (simp add: doorbell_handle_write_def Let_def)
    from doorbell_dispatch_reg[OF w(2) this] show ?thesis by simp
  next
    case 3
    then show ?thesis using assms(2) by (auto simp: doorbell_handle_write_def Let_def split: if_split_asm)
  qed
qed

lemma reg_index_bound: "doorbell_reg_index a = Some i \<Longrightarrow> i < 16"
  by (auto simp: doorbell_reg_index_def Let_def split: if_splits)

lemma shadow_readback:
  assumes "wf_sys s" "doorbell_handle_write sh a v s = Some s'"
    and "doorbell_reg_index a = Some i" "doorbell_reg_index b = Some j" "b \<notin> {0x1014, 0x1018}"
  shows "fst (doorbell_handle_read b s') = (if i = j then v else fst (doorbell_handle_read b s))"
proof -
  have l: "length (reg (proto s)) = 16" using assms(1) by (simp add: wf_sys_def wf_tables_def)
  have "b \<noteq> 0x122c" using assms(4) by (auto simp: doorbell_reg_index_def)
  then show ?thesis
    using assms(3-5) l reg_index_bound[OF assms(3)] handle_write_reg[OF assms(1,2)]
    by (auto simp: doorbell_handle_read_def shadow_write_def)
qed

lemma stamp_mask_once:
  assumes "doorbell_handle_read 0x1018 s = (v, s')"
  shows "v = pending_stamps_bitmask (proto s) \<and> fst (doorbell_handle_read 0x1018 s') = 0 \<and>
     pending_displays_bitmask (proto s') = pending_displays_bitmask (proto s)"
  using assms by (auto simp: doorbell_handle_read_def)

text \<open>Everything but the doors, and the display doors, always returns.\<close>

lemma display_door_total:
  assumes "wf_sys s" "5 \<le> v AND 0xff"
  shows "channel_door_dispatcher_dispatch sh v s \<noteq> None"
proof (cases "v AND 0xff < 16")
  case True
  have n: "v AND 0xff \<noteq> 0" "\<not> v AND 0xff \<le> 4" using assms(2) by (auto simp: word_le_nat_alt)
  have "wf_sys (s\<lparr>proto := (proto s)\<lparr>current_chan_id := ucast (v AND 0xff)\<rparr>\<rparr>)" using assms(1) by simp
  from display.vchan_drain_total[OF this, of LAGFX_DISPLAY_RING_SIZE sh "v AND 0xff"] show ?thesis
    using n True
    by (auto simp: channel_door_dispatcher_dispatch_def Let_def channel_display_dispatcher_drain_def)
qed (simp add: channel_door_dispatcher_dispatch_def Let_def not_less)

end
