(* ===== verification/Examples.thy ===== *)
theory Examples
  imports Doorbell
begin

text \<open>
  Concrete systems on which the properties are instantiated: a freshly created
  device over a flat guest memory, with chosen protocol fields and memory contents.
\<close>

definition sample_sys :: "(protocol \<Rightarrow> protocol) \<Rightarrow> (u64 \<Rightarrow> u8) \<Rightarrow> ram_state sys" where
  "sample_sys f m = \<lparr>proto = f (doorbell_init lagfx_protocol_new), dev = Some new_device, ext = (m, [])\<rparr>"

text \<open>A memory that holds a list of bytes at an address, and zeros elsewhere.\<close>

definition mem_at :: "u64 \<Rightarrow> bytes \<Rightarrow> u64 \<Rightarrow> u8" where
  "mem_at a bs x = (if unat (x - a) < length bs then bs ! unat (x - a) else 0)"

definition sample_hdr :: "u16 \<Rightarrow> u32 \<Rightarrow> bytes \<Rightarrow> cmd_header" where
  "sample_hdr opcode stamp payload =
     \<lparr>hdr_opcode = opcode, hdr_arg_count_8b = 0, hdr_length = of_nat (12 + length payload), hdr_stamp = stamp,
      hdr_payload_size = of_nat (length payload), hdr_payload = Some payload\<rparr>"

lemma sample_simps [simp]:
  "proto (sample_sys f m) = f (doorbell_init lagfx_protocol_new)" "dev (sample_sys f m) = Some new_device"
  "ext (sample_sys f m) = (m, [])"
  by (simp_all add: sample_sys_def)

lemma fresh_simps [simp]:
  "magic (doorbell_init lagfx_protocol_new) = LAGFX_PROTOCOL_MAGIC"
  "ring_base_pfn (doorbell_init lagfx_protocol_new) = 0"
  "ring_shared_page_pfn (doorbell_init lagfx_protocol_new) = 0"
  "read_ptr (doorbell_init lagfx_protocol_new) = 0" "write_ptr (doorbell_init lagfx_protocol_new) = 0"
  "resources (doorbell_init lagfx_protocol_new) = zero_registry"
  "tasks (doorbell_init lagfx_protocol_new) = replicate 64 zero_task"
  "total_cmds_seen (doorbell_init lagfx_protocol_new) = 0"
  "length (reg (doorbell_init lagfx_protocol_new)) = 16"
  by (simp_all add: doorbell_init_def lagfx_protocol_new_def)

lemma wf_fresh: "wf_tables (doorbell_init lagfx_protocol_new)" "wf_registry zero_registry" "wf_device new_device"
  using wf_new[of undefined] by (auto simp: mmio_ok_def wf_sys_def lagfx_device_new_def wf_zero_registry)

lemma sample_wf:
  "wf_tables (f (doorbell_init lagfx_protocol_new)) \<Longrightarrow> resources (f (doorbell_init lagfx_protocol_new)) = zero_registry \<Longrightarrow>
   wf_sys (sample_sys f m)"
  by (simp add: wf_sys_def wf_fresh)

lemma sample_hdr_wf [simp]: "length payload < 2 ^ 16 \<Longrightarrow> wf_hdr (sample_hdr opcode stamp payload)"
  by (simp add: sample_hdr_def wf_hdr_def unat_of_nat_small)

lemma sample_hdr_payload:
  "length payload < 2 ^ 16 \<Longrightarrow> n \<le> length payload \<Longrightarrow> payload_at_least (sample_hdr opcode stamp payload) n = Some payload"
  by (simp add: sample_hdr_def payload_at_least_def unat_of_nat_small)

lemma mem_at_read:
  assumes "length bs < 2 ^ 64"
  shows "map (\<lambda>i. mem_at a bs (a + of_nat i)) [0..<length bs] = bs"
  using assms by (intro nth_equalityI) (auto simp: mem_at_def unat_of_nat_small)

subsection \<open>Two rings with one command each\<close>

text \<open>The root ring holds a no-op with stamp 5, placed so that it wraps around the end of
  the ring.\<close>

definition nop_command :: bytes where "nop_command = encode_command 0x0e 0 5 []"

definition root_ring :: "ram_state sys" where
  "root_ring = sample_sys (\<lambda>p. p\<lparr>ring_armed := True, ring_base_pfn := 1, ring_base_gpa := 0x1000, ring_size := 0x1000,
       read_ptr := 0xff8, write_ptr := 4\<rparr>)
     (\<lambda>x. if x \<ge> 0x1ff8 then mem_at 0x1ff8 (take 8 nop_command) x else mem_at 0x1000 (drop 8 nop_command) x)"

text \<open>The ring of display channel 5 holds one vblank acknowledgement with stamp 7.\<close>

definition ack_command :: bytes where "ack_command = encode_command 0x11 0 7 []"

definition channel_ring :: "ram_state sys" where
  "channel_ring = sample_sys (\<lambda>p. p\<lparr>ring_shared_page_pfn := 2\<rparr>)
     (\<lambda>x. if x \<ge> 0x4000 then mem_at 0x4000 ack_command x
          else if x \<ge> 0x3000 then mem_at 0x3000 (le_bytes32 4) x
          else mem_at 0x2450 (le_bytes32 12 @ le_bytes32 0 @ le_bytes32 0 @ le_bytes32 5 @ le_bytes32 3) x)"

lemma root_ring_wf: "wf_sys root_ring"
  unfolding root_ring_def by (rule sample_wf) (use wf_fresh(1) in \<open>simp_all add: wf_tables_def\<close>)

lemma channel_ring_wf: "wf_sys channel_ring"
  unfolding channel_ring_def by (rule sample_wf) (use wf_fresh(1) in \<open>simp_all add: wf_tables_def\<close>)

lemma root_ring_bytes: "cyclic_bytes fst (ext root_ring) 0x1000 0x1000 0xff8 12 = nop_command"
  by code_simp

lemma channel_ring_bytes:
  "lagfx_ring_fifo_descriptor_read ram_shell 5 channel_ring = Some (0x2450, 12, 0, 0x3000)"
  "ring_bytes fst (ext channel_ring) 0x3000 0x1000 0 12 = Some ack_command"
  "ring_bytes fst (ext channel_ring) 0x3000 0x10000 0 12 = Some ack_command"
  by code_simp+

lemma root_ring_cell: "ram32 fst (ext root_ring) 0x1000 = 5"
  by code_simp

lemma root_ring_drain: "\<exists>s'. channel_0_dispatcher_drain ram_shell root_ring = Some (1, s')"
proof -
  have b: "cyclic_bytes fst (ext root_ring) 0x1000 0x1000 0xff8 (12 + length ([] :: bytes)) = encode_command 0x0e 0 5 []"
    using root_ring_bytes by (simp add: nop_command_def)
  have g: "ring_base_gpa (proto root_ring) = 0x1000" "ring_size (proto root_ring) = 0x1000"
    "read_ptr (proto root_ring) = 0xff8" "write_ptr (proto root_ring) = 4" "ring_armed (proto root_ring)"
    "dev root_ring \<noteq> None" "lagfx_protocol_is_valid (proto root_ring)"
    by (simp_all add: root_ring_def lagfx_protocol_is_valid_def)
  show ?thesis
    using ch0_drain_single[OF ram_shell_law g(6,7,5), of "[]" "0x0e" 0 5 ch0_dispatch_command] b g
    by (simp add: channel_0_dispatcher_drain_def ch0_dispatch_command_def command_header_def arm_def lagfx_util_nop_def Let_def)
qed

lemma channel_ring_drain: "\<exists>s'. channel_display_dispatcher_drain ram_shell 5 channel_ring = Some (1, s')"
proof -
  have g: "dev channel_ring \<noteq> None" "lagfx_protocol_is_valid (proto channel_ring)"
    by (simp_all add: channel_ring_def lagfx_protocol_is_valid_def)
  have "channel_display_dispatcher_drain ram_shell 5 channel_ring = map_option (\<lambda>s1. (1, lagfx_ring_publish_read_ptr ram_shell 0x2450 12
        (count_cmd (lagfx_protocol_complete_stamp_slot ram_shell 5 7 s1))))
       (display_dispatch_command ram_shell (command_header 0x11 0 7 []) channel_ring)"
    using vchan_drain_single[OF ram_shell_law g, of LAGFX_DISPLAY_RING_SIZE 5 "0x2450" 0 "[]" "0x3000" "0x11" 0 7 display_dispatch_command]
      channel_ring_bytes
    by (simp add: channel_display_dispatcher_drain_def LAGFX_DISPLAY_RING_SIZE_def ack_command_def)
  then show ?thesis by (simp add: display_dispatch_command_def command_header_def)
qed

subsection \<open>A table with resources of two tasks\<close>

definition two_resources :: resource_registry where
  "two_resources = lagfx_resource_register (lagfx_resource_register zero_registry 3 LAGFX_RESOURCE_TYPE_BUFFER 1 0x1000 64)
     4 LAGFX_RESOURCE_TYPE_BUFFER 2 0x2000 32"

lemma two_resources_wf: "wf_registry two_resources"
  unfolding two_resources_def by (intro register_wf wf_zero_registry)

lemma two_resources_get: "reg_get two_resources (4, 2) \<noteq> None"
proof -
  let ?r = "lagfx_resource_register zero_registry 3 LAGFX_RESOURCE_TYPE_BUFFER 1 0x1000 64"
  have "\<not> reg_full ?r" by (simp add: lagfx_resource_register_def lagfx_resource_lookup_def zero_registry_def reg_full_def)
  then show ?thesis
    using rr.get_put[of ?r "(4, 2)" "(LAGFX_RESOURCE_TYPE_BUFFER, 0x2000, 32)" "(4, 2)"] register_wf[OF wf_zero_registry]
    by (auto simp: two_resources_def)
qed

subsection \<open>A task with a one-level page table\<close>

text \<open>The root page (frame 8) names the table in frame 9 and one level; every entry of the
  table maps its page to frame 7, whose last two bytes are 1 and 2.\<close>

definition paged_mem :: "u64 \<Rightarrow> u8" where
  "paged_mem x = (if x \<ge> 0x9000 then le_bytes32 0x80000007 ! (unat x mod 4)
     else mem_at 0x7ffe ([1, 2] @ le_bytes32 9 @ le_bytes32 1) x)"

definition paged_sys :: "ram_state sys" where "paged_sys = sample_sys (\<lambda>p. p) paged_mem"

definition paged_task :: task_entry where "paged_task = zero_task\<lparr>t_root_page_pfn := 8\<rparr>"

lemma paged_mem_entry:
  assumes "i < 1024"
  shows "ram32 fst (paged_mem, l) (0x9000 + of_nat i * 4) = 0x80000007"
proof -
  have "paged_mem (0x9000 + of_nat i * 4 + of_nat j) = le_bytes32 0x80000007 ! j" if "j < 4" for j
  proof -
    have e: "(0x9000 + of_nat i * 4 + of_nat j :: u64) = of_nat (0x9000 + i * 4 + j)" by simp
    have "unat (of_nat (0x9000 + i * 4 + j) :: u64) = 0x9000 + i * 4 + j"
      using assms that by (intro unat_of_nat_small) simp
    moreover have "(0x9000 + i * 4 + j) mod 4 = j" using that by presburger
    ultimately show ?thesis unfolding paged_mem_def e by (simp add: word_le_nat_alt del: of_nat_add of_nat_mult)
  qed
  then have "map (\<lambda>j. paged_mem (0x9000 + of_nat i * 4 + of_nat j)) [0..<4] = le_bytes32 0x80000007"
    by (intro nth_equalityI) simp_all
  then show ?thesis by (simp add: ram32_def)
qed

lemma paged_table:
  "pt_in_ram fst (ext paged_sys) 0 9 (replicate 1024 (Frame 7))"
  "ram32 fst (ext paged_sys) 0x8000 = 9" "ram32 fst (ext paged_sys) 0x8004 = 1"
proof -
  show "pt_in_ram fst (ext paged_sys) 0 9 (replicate 1024 (Frame 7))"
    by (auto simp: paged_sys_def pte_word_def paged_mem_entry)
  show "ram32 fst (ext paged_sys) 0x8000 = 9" "ram32 fst (ext paged_sys) 0x8004 = 1"
    by (simp_all add: paged_sys_def, code_simp+)
qed

lemma paged_sys_wf: "wf_sys paged_sys"
  unfolding paged_sys_def by (rule sample_wf) (simp_all add: wf_fresh)

lemma fresh_define: "\<exists>i p. find_or_alloc_task (proto paged_sys) k = Some (i, p)"
  by (simp add: find_or_alloc_task_def paged_sys_def lagfx_protocol_find_task_def lagfx_protocol_alloc_task_slot_def
      lagfx_protocol_is_valid_def numeral_eq_Suc split: option.split)

text \<open>The same system with a live task 0 in slot 0.\<close>

definition task_sys :: "ram_state sys" where
  "task_sys = sample_sys (upd_task 0 (\<lambda>t. t\<lparr>t_live := True\<rparr>)) paged_mem"

lemma task_sys_wf: "wf_sys task_sys"
proof -
  have "uniq_by t_live t_id ((replicate 64 zero_task)[0 := zero_task\<lparr>t_live := True\<rparr>])"
    by (rule uniq_by_update_fresh) (simp_all add: uniq_by_replicate_dead find_index_None_iff)
  then have "wf_tables (upd_task 0 (\<lambda>t. t\<lparr>t_live := True\<rparr>) (doorbell_init lagfx_protocol_new))"
    using wf_fresh(1) by (auto simp: wf_tables_def upd_task_def wf_task_def dest!: set_update_subset_insert[THEN subsetD])
  then show ?thesis unfolding task_sys_def by (rule sample_wf) simp
qed

lemma task_sys_find: "lagfx_protocol_find_task (proto task_sys) 0 = Some 0"
  by (rule find_task_uniq)
     (use task_sys_wf in \<open>simp_all add: wf_sys_def wf_tables_def\<close>,
      simp_all add: task_sys_def lagfx_protocol_is_valid_def upd_task_def zero_task_def)

lemma task_sys_live: "live_task 0 task_sys = Some 0"
  by (simp add: live_task_def task_sys_def upd_task_def)

lemma paged_translate: "lagfx_task_translate ram_shell paged_sys paged_task va = Some (push_bit 12 7 OR take_bit 12 va)"
proof -
  have "lagfx_task_translate ram_shell paged_sys paged_task va =
     map_option (\<lambda>f. push_bit 12 f OR take_bit 12 va) (pt_lookup 0 (replicate 1024 (Frame 7)) (drop_bit 12 va))"
    by (rule translate_page_table[OF ram_shell_law, where l1_pfn = 9])
       (use paged_table in \<open>simp_all add: paged_task_def paged_sys_def\<close>)
  then show ?thesis by (simp add: take10_bound)
qed

lemma zero_read64: "n + 8 \<le> m \<Longrightarrow> lagfx_le64 (replicate m 0) n = Some 0"
  by (simp add: lagfx_le64_def)

end
