(* ===== verification/PsoDescriptor.thy ===== *)
theory PsoDescriptor
  imports ObjectResolver
begin

text \<open>
  The scans over a serialized pipeline descriptor in \<^verbatim>\<open>src/protocol/object_resolver.c\<close>: the
  function references, the vertex attributes and the vertex stride.  Each scan is
  compared with a specification on lists: the distinct candidates in first-seen
  order, the attributes sorted by offset without duplicates, and the most frequent
  stride.
\<close>

unbundle bit_operations_syntax

subsection \<open>Function references\<close>

function scan_loop :: "(u8 \<Rightarrow> bool) \<Rightarrow> bytes \<Rightarrow> nat \<Rightarrow> nat \<Rightarrow> nat \<Rightarrow> u8 list \<Rightarrow> u8 list option" where
  "scan_loop is_function desc limit cap i out =
     (if i + 1 < limit \<and> length out < cap then do {
        tag \<leftarrow> rd8 desc i;
        if tag \<noteq> 0x04 then scan_loop is_function desc limit cap (i + 1) out
        else do {
          candidate \<leftarrow> rd8 desc (i + 1);
          if candidate = 0 \<or> \<not> is_function candidate \<or> candidate \<in> set out
          then scan_loop is_function desc limit cap (i + 1) out
          else scan_loop is_function desc limit cap (i + 1) (out @ [candidate]) } }
      else Some out)"
  by pat_completeness auto
termination by (relation "measure (\<lambda>(_, _, limit, _, i, _). limit - i)") auto

declare scan_loop.simps [simp del]

definition lagfx_scan_descriptor_function_refs ::
  "bytes \<Rightarrow> nat \<Rightarrow> (u8 \<Rightarrow> bool) \<Rightarrow> nat \<Rightarrow> u8 list option" where
  "lagfx_scan_descriptor_function_refs desc limit is_function cap =
     (if cap = 0 then Some [] else scan_loop is_function desc limit cap 0 [])"

definition fnref_is_function :: "'g shell \<Rightarrow> 'g sys \<Rightarrow> task_entry \<Rightarrow> u8 \<Rightarrow> bool" where
  "fnref_is_function sh s task ref \<longleftrightarrow>
     lookup_slot_type sh s task (ucast ref) = Some LAGFX_APV_TYPE_FUNCTION"

text \<open>The declared length at +4, when it is plausible, bounds the scans.\<close>

definition blob_limit :: "bytes \<Rightarrow> nat option" where
  "blob_limit blob = do {
     total \<leftarrow> lagfx_le32 blob 4;
     Some (if total \<ge> 16 \<and> unat total \<le> length blob then unat total else length blob) }"

definition lagfx_lookup_pipeline_function_ref_list ::
  "'g shell \<Rightarrow> 'g sys \<Rightarrow> task_entry \<Rightarrow> u32 \<Rightarrow> nat \<Rightarrow> u8 list option" where
  "lagfx_lookup_pipeline_function_ref_list sh s task pipeline_object_id cap =
     (if cap = 0 then Some []
      else case pipeline_blob sh s task pipeline_object_id 384 of None \<Rightarrow> Some []
           | Some desc \<Rightarrow> do {
               limit \<leftarrow> blob_limit desc;
               lagfx_scan_descriptor_function_refs desc limit (fnref_is_function sh s task) cap })"

text \<open>The two-reference scan over the first 128 bytes; the state is the vertex and the
  fragment reference found so far.\<close>

function refs_loop ::
  "(u8 \<Rightarrow> bool) \<Rightarrow> bytes \<Rightarrow> nat \<Rightarrow> u8 option \<Rightarrow> u8 option \<Rightarrow> (u8 option \<times> u8 option) option" where
  "refs_loop is_function desc i vertex fragment =
     (if i < 128 \<and> (vertex = None \<or> fragment = None) then do {
        tag \<leftarrow> rd8 desc i;
        if tag = 0x04 \<and> i + 1 < 128 then do {
          candidate \<leftarrow> rd8 desc (i + 1);
          if candidate = 0 then refs_loop is_function desc (i + 1) vertex fragment
          else if is_function candidate then
            (if vertex = None then refs_loop is_function desc (i + 1) (Some candidate) fragment
             else if Some candidate \<noteq> vertex \<and> fragment = None
             then refs_loop is_function desc (i + 1) vertex (Some candidate)
             else refs_loop is_function desc (i + 1) vertex fragment)
          else refs_loop is_function desc (i + 1) vertex fragment }
        else refs_loop is_function desc (i + 1) vertex fragment }
      else Some (vertex, fragment))"
  by pat_completeness auto
termination by (relation "measure (\<lambda>(_, _, i, _, _). 128 - i)") auto

declare refs_loop.simps [simp del]

text \<open>The result is the pair of references, a missing fragment reference being 0.\<close>

definition lagfx_lookup_pipeline_function_refs ::
  "'g shell \<Rightarrow> 'g sys \<Rightarrow> task_entry \<Rightarrow> u32 \<Rightarrow> (u8 \<times> u8) option option" where
  "lagfx_lookup_pipeline_function_refs sh s task pipeline_object_id =
     (case pipeline_blob sh s task pipeline_object_id 128 of None \<Rightarrow> Some None
      | Some desc \<Rightarrow> do {
          (vertex, fragment) \<leftarrow> refs_loop (fnref_is_function sh s task) desc 0 None None;
          Some (case vertex of None \<Rightarrow> None
                | Some v \<Rightarrow> Some (v, case fragment of None \<Rightarrow> 0 | Some f \<Rightarrow> f)) })"

subsection \<open>Specification of the scans\<close>

text \<open>Accumulating distinct elements in first-seen order.\<close>

fun dedup :: "'a list \<Rightarrow> 'a list \<Rightarrow> 'a list" where
  "dedup out [] = out"
| "dedup out (c # cs) = dedup (if c \<in> set out then out else out @ [c]) cs"

lemma dedup_append: "dedup out (xs @ ys) = dedup (dedup out xs) ys"
  by (induction xs arbitrary: out) auto

lemma dedup_extends: "\<exists>zs. dedup out cs = out @ zs"
proof (induction cs arbitrary: out)
  case (Cons c cs)
  show ?case using Cons.IH[of out] Cons.IH[of "out @ [c]"] by auto
qed simp

lemma take_dedup_full: "length out = cap \<Longrightarrow> take cap (dedup out cs) = out"
  using dedup_extends[of out cs] by auto

lemma set_dedup: "set (dedup out cs) = set out \<union> set cs"
  by (induction cs arbitrary: out) auto

lemma distinct_dedup: "distinct out \<Longrightarrow> distinct (dedup out cs)"
  by (induction cs arbitrary: out) auto

text \<open>The references a descriptor names from index \<open>i\<close> on.\<close>

definition named_refs :: "(u8 \<Rightarrow> bool) \<Rightarrow> bytes \<Rightarrow> nat \<Rightarrow> nat \<Rightarrow> u8 list" where
  "named_refs P desc i limit =
     map (\<lambda>k. desc ! (k + 1))
       (filter (\<lambda>k. desc ! k = 0x04 \<and> desc ! (k + 1) \<noteq> 0 \<and> P (desc ! (k + 1))) [i..<limit - 1])"

lemma named_refs_step:
  "i + 1 < limit \<Longrightarrow> named_refs P desc i limit =
     (if desc ! i = 0x04 \<and> desc ! (i + 1) \<noteq> 0 \<and> P (desc ! (i + 1)) then [desc ! (i + 1)] else []) @
     named_refs P desc (i + 1) limit"
  by (simp add: named_refs_def upt_conv_Cons)

lemma named_refs_end: "\<not> i + 1 < limit \<Longrightarrow> named_refs P desc i limit = []"
  by (simp add: named_refs_def)

lemma scan_stop: "\<not> (i + 1 < limit \<and> length out < cap) \<Longrightarrow> scan_loop P desc limit cap i out = Some out"
  by (subst scan_loop.simps) (rule if_not_P)

definition adds_ref :: "(u8 \<Rightarrow> bool) \<Rightarrow> bytes \<Rightarrow> nat \<Rightarrow> u8 list \<Rightarrow> bool" where
  "adds_ref P desc i out \<longleftrightarrow> desc ! i = 0x04 \<and> desc ! (i + 1) \<noteq> 0 \<and> P (desc ! (i + 1)) \<and> desc ! (i + 1) \<notin> set out"

lemma scan_step:
  assumes "i + 1 < limit" "length out < cap" "limit \<le> length desc"
  shows "scan_loop P desc limit cap i out =
    scan_loop P desc limit cap (i + 1) (if adds_ref P desc i out then out @ [desc ! (i + 1)] else out)"
  using assms by (simp add: scan_loop.simps[of P desc limit cap i out] adds_ref_def)

lemma scan_loop_spec:
  assumes "limit \<le> length desc" "length out \<le> cap"
  shows "scan_loop P desc limit cap i out = Some (take cap (dedup out (named_refs P desc i limit)))"
  using assms
proof (induction "limit - i" arbitrary: i out)
  case 0
  then show ?case by (simp add: scan_stop named_refs_end)
next
  case (Suc n)
  let ?out = "if adds_ref P desc i out then out @ [desc ! (i + 1)] else out"
  show ?case
  proof (cases "i + 1 < limit \<and> length out < cap")
    case False
    then show ?thesis
      using Suc.prems(2) take_dedup_full[of out cap]
      by (cases "length out = cap") (auto simp: scan_stop named_refs_end)
  next
    case True
    have "scan_loop P desc limit cap (i + 1) ?out = Some (take cap (dedup ?out (named_refs P desc (i + 1) limit)))"
      using Suc.hyps(2) True Suc.prems(1) by (intro Suc.hyps(1)) auto
    moreover have "dedup ?out (named_refs P desc (i + 1) limit) = dedup out (named_refs P desc i limit)"
      using True by (auto simp: named_refs_step adds_ref_def)
    ultimately show ?thesis using True Suc.prems(1) by (simp add: scan_step)
  qed
qed

lemma blob_limit_ok: "8 \<le> length blob \<Longrightarrow> \<exists>n. blob_limit blob = Some n \<and> n \<le> length blob"
  by (auto simp: blob_limit_def chk_simps)

text \<open>The two-reference scan is the general scan with room for two.\<close>

definition split_refs :: "u8 list \<Rightarrow> u8 option \<times> u8 option" where
  "split_refs out = (case out of [] \<Rightarrow> (None, None) | [v] \<Rightarrow> (Some v, None) | v # f # _ \<Rightarrow> (Some v, Some f))"

lemma refs_stop: "128 \<le> i \<or> (v \<noteq> None \<and> f \<noteq> None) \<Longrightarrow> refs_loop P desc i v f = Some (v, f)"
  by (auto simp: refs_loop.simps[of P desc i v f])

lemma refs_step:
  assumes "i < 127" "length desc = 128" "length out < 2"
  shows "refs_loop P desc i (fst (split_refs out)) (snd (split_refs out)) =
    (let out' = if adds_ref P desc i out then out @ [desc ! (i + 1)] else out
     in refs_loop P desc (i + 1) (fst (split_refs out')) (snd (split_refs out')))"
proof -
  consider "out = []" | v where "out = [v]" using assms(3) by (cases out rule: remdups_adj.cases) auto
  then show ?thesis
    using assms
    by cases (auto simp: split_refs_def adds_ref_def Let_def refs_loop.simps[of P desc i])
qed

lemma refs_loop_scan:
  assumes "length desc = 128" "length out \<le> 2"
  shows "refs_loop P desc i (fst (split_refs out)) (snd (split_refs out)) =
     map_option split_refs (scan_loop P desc 128 2 i out)"
  using assms
proof (induction "128 - i" arbitrary: i out)
  case 0
  then show ?case by (simp add: scan_stop refs_stop)
next
  case (Suc n)
  consider "length out = 2" | "length out < 2" "i < 127" | "length out < 2" "i = 127"
    using Suc.hyps(2) Suc.prems(2) by linarith
  then show ?case
  proof cases
    case 1
    then obtain v f where "out = [v, f]" by (auto simp: length_Suc_conv numeral_2_eq_2)
    then show ?thesis by (simp add: scan_stop refs_stop split_refs_def)
  next
    case 2
    let ?out = "if adds_ref P desc i out then out @ [desc ! (i + 1)] else out"
    have "refs_loop P desc (i + 1) (fst (split_refs ?out)) (snd (split_refs ?out)) =
        map_option split_refs (scan_loop P desc 128 2 (i + 1) ?out)"
      using Suc.hyps(2) 2 Suc.prems(1) by (intro Suc.hyps(1)) auto
    then show ?thesis using 2 Suc.prems(1) by (simp only: refs_step Let_def) (simp add: scan_step)
  next
    case 3
    have "refs_loop P desc 127 v f = Some (v, f)" for v f
      using Suc.prems(1) by (simp add: refs_loop.simps[of P desc 127] refs_stop)
    then show ?thesis using 3 by (simp add: scan_stop)
  qed
qed

lemma lookup_refs_scan:
  "lagfx_lookup_pipeline_function_refs sh s task k =
     (case pipeline_blob sh s task k 128 of None \<Rightarrow> Some None
      | Some desc \<Rightarrow> Some (case take 2 (dedup [] (named_refs (fnref_is_function sh s task) desc 0 128)) of
            [] \<Rightarrow> None | [v] \<Rightarrow> Some (v, 0) | v # f # _ \<Rightarrow> Some (v, f)))"
proof (cases "pipeline_blob sh s task k 128")
  case (Some desc)
  note len = pipeline_blob_length[OF Some]
  let ?P = "fnref_is_function sh s task"
  let ?l = "take 2 (dedup [] (named_refs ?P desc 0 128))"
  have "refs_loop ?P desc 0 None None = Some (split_refs ?l)"
    using refs_loop_scan[OF len, of "[]" ?P 0] scan_loop_spec[of 128 desc "[]" 2 ?P 0] len
    by (simp add: split_refs_def)
  then show ?thesis
    using Some
    by (simp add: lagfx_lookup_pipeline_function_refs_def split_refs_def split: list.splits)
qed (simp add: lagfx_lookup_pipeline_function_refs_def)

subsection \<open>Vertex attributes\<close>

record pso_vtx_attr =
  va_fmt :: u32
  va_off :: u32
  va_bufidx :: u32

text \<open>The attribute entry at index \<open>i\<close>, if the bytes there form a plausible one.\<close>

definition attr_at :: "bytes \<Rightarrow> nat \<Rightarrow> pso_vtx_attr option option" where
  "attr_at blob i = do {
     a \<leftarrow> rd8 blob i; b \<leftarrow> rd8 blob (i + 1);
     if a \<noteq> 0x01 \<or> b \<noteq> 0x04 then Some None else do {
     c \<leftarrow> rd8 blob (i + 6); d \<leftarrow> rd8 blob (i + 7);
     if c \<noteq> 0x02 \<or> d \<noteq> 0x04 then Some None else do {
     e \<leftarrow> rd8 blob (i + 12); f \<leftarrow> rd8 blob (i + 13);
     if e \<noteq> 0x03 \<or> f \<noteq> 0x04 then Some None else do {
     fmt \<leftarrow> lagfx_le32 blob (i + 2);
     off \<leftarrow> lagfx_le32 blob (i + 8);
     bid \<leftarrow> lagfx_le32 blob (i + 14);
     Some (if fmt = 0 \<or> fmt > 64 \<or> off > 240 \<or> bid > 30 then None
           else Some \<lparr>va_fmt = fmt, va_off = off, va_bufidx = bid\<rparr>) } } } }"

function attr_loop :: "bytes \<Rightarrow> nat \<Rightarrow> nat \<Rightarrow> nat \<Rightarrow> pso_vtx_attr list \<Rightarrow> pso_vtx_attr list option" where
  "attr_loop blob limit cap i out =
     (if i + 18 \<le> limit then do {
        entry \<leftarrow> attr_at blob i;
        case entry of None \<Rightarrow> attr_loop blob limit cap (i + 1) out
        | Some a \<Rightarrow>
            if va_off a \<in> va_off ` set out then attr_loop blob limit cap (i + 1) out
            else attr_loop blob limit cap (i + 18) (if length out < cap then out @ [a] else out) }
      else Some out)"
  by pat_completeness auto
termination by (relation "measure (\<lambda>(_, limit, _, i, _). limit - i)") auto

declare attr_loop.simps [simp del]

text \<open>The insertion sort by offset; the sorted prefix is kept in reverse, the order in which
  the inner loop visits it.\<close>

fun insert_back :: "pso_vtx_attr \<Rightarrow> pso_vtx_attr list \<Rightarrow> pso_vtx_attr list" where
  "insert_back t [] = [t]"
| "insert_back t (x # xs) = (if va_off x > va_off t then x # insert_back t xs else t # x # xs)"

definition sort_attrs :: "pso_vtx_attr list \<Rightarrow> pso_vtx_attr list" where
  "sort_attrs out = rev (fold insert_back out [])"

definition lagfx_parse_pso_vertex_attrs ::
  "'g shell \<Rightarrow> 'g sys \<Rightarrow> task_entry \<Rightarrow> u32 \<Rightarrow> nat \<Rightarrow> pso_vtx_attr list option" where
  "lagfx_parse_pso_vertex_attrs sh s task pipeline_object_id cap =
     (if cap = 0 then Some []
      else case pipeline_blob sh s task pipeline_object_id 512 of None \<Rightarrow> Some []
           | Some blob \<Rightarrow> do {
               limit \<leftarrow> blob_limit blob;
               out \<leftarrow> attr_loop blob limit cap 16 [];
               Some (sort_attrs out) })"

lemma attr_at_total: "i + 18 \<le> length blob \<Longrightarrow> attr_at blob i \<noteq> None"
  by (simp add: attr_at_def chk_simps)

lemma attr_at_plausible:
  "attr_at blob i = Some (Some a) \<Longrightarrow> 0 < va_fmt a \<and> va_fmt a \<le> 64 \<and> va_off a \<le> 240 \<and> va_bufidx a \<le> 30"
  by (auto simp: attr_at_def word_gt_0 not_less split: if_splits elim!: bind_eq_SomeE)

text \<open>What the loop keeps of the list it builds.\<close>

definition attrs_ok :: "bytes \<Rightarrow> nat \<Rightarrow> pso_vtx_attr list \<Rightarrow> bool" where
  "attrs_ok blob cap out \<longleftrightarrow> length out \<le> cap \<and> distinct (map va_off out) \<and>
     (\<forall>a \<in> set out. \<exists>i. attr_at blob i = Some (Some a))"

lemma attr_loop_ok:
  "limit \<le> length blob \<Longrightarrow> attrs_ok blob cap out \<Longrightarrow>
   \<exists>out'. attr_loop blob limit cap i out = Some out' \<and> attrs_ok blob cap out'"
proof (induction blob limit cap i out rule: attr_loop.induct)
  case (1 blob limit cap i out)
  note unfold = attr_loop.simps[of blob limit cap i out]
  show ?case
  proof (cases "i + 18 \<le> limit")
    case False
    then show ?thesis using "1.prems"(2) by (simp add: unfold)
  next
    case True
    then obtain e where e: "attr_at blob i = Some e"
      using attr_at_total[of i blob] "1.prems"(1) by auto
    show ?thesis
    proof (cases e)
      case None
      then show ?thesis using "1.IH"(1)[OF True e None "1.prems"] e True by (simp add: unfold)
    next
      case (Some a)
      show ?thesis
      proof (cases "va_off a \<in> va_off ` set out")
        case dup: True
        then show ?thesis using "1.IH"(2)[OF True e Some dup "1.prems"] e True Some by (simp add: unfold)
      next
        case False
        have "attrs_ok blob cap (if length out < cap then out @ [a] else out)"
          using "1.prems"(2) False e Some by (auto simp: attrs_ok_def)
        then show ?thesis using "1.IH"(3)[OF True e Some False "1.prems"(1)] e True Some False by (simp add: unfold)
      qed
    qed
  qed
qed

lemma insert_back_set: "set (insert_back t xs) = insert t (set xs)"
  by (induction xs) auto

lemma insert_back_mset: "length (insert_back t xs) = Suc (length xs)"
  by (induction xs) auto

lemma insert_back_distinct:
  "distinct (map va_off (insert_back t xs)) \<longleftrightarrow> va_off t \<notin> va_off ` set xs \<and> distinct (map va_off xs)"
  by (induction xs) (auto simp: insert_back_set)

lemma insert_back_sorted:
  "sorted_wrt (\<lambda>a b. va_off b \<le> va_off a) xs \<Longrightarrow> sorted_wrt (\<lambda>a b. va_off b \<le> va_off a) (insert_back t xs)"
  by (induction xs) (auto simp: insert_back_set)

lemma fold_insert_back:
  "set (fold insert_back out acc) = set out \<union> set acc"
  "length (fold insert_back out acc) = length out + length acc"
  "sorted_wrt (\<lambda>a b. va_off b \<le> va_off a) acc \<Longrightarrow> sorted_wrt (\<lambda>a b. va_off b \<le> va_off a) (fold insert_back out acc)"
  by (induction out arbitrary: acc) (auto simp: insert_back_set insert_back_mset insert_back_sorted)

lemma fold_insert_back_distinct:
  "distinct (map va_off (fold insert_back out acc)) \<longleftrightarrow>
   distinct (map va_off out) \<and> distinct (map va_off acc) \<and> va_off ` set out \<inter> va_off ` set acc = {}"
  by (induction out arbitrary: acc) (auto simp: insert_back_distinct insert_back_set)

lemma sort_attrs_props:
  "set (sort_attrs out) = set out" "length (sort_attrs out) = length out"
  "sorted (map va_off (sort_attrs out))"
  "distinct (map va_off (sort_attrs out)) \<longleftrightarrow> distinct (map va_off out)"
proof -
  note f = fold_insert_back[of out "[]"] fold_insert_back_distinct[of out "[]"]
  show "set (sort_attrs out) = set out" "length (sort_attrs out) = length out"
    "distinct (map va_off (sort_attrs out)) \<longleftrightarrow> distinct (map va_off out)"
    using f by (simp_all add: sort_attrs_def rev_map[symmetric])
  show "sorted (map va_off (sort_attrs out))"
    using fold_insert_back(3)[of "[]" out] by (simp add: sort_attrs_def sorted_wrt_rev sorted_wrt_map rev_map[symmetric])
qed

subsection \<open>Vertex stride\<close>

definition plausible_stride :: "u32 \<Rightarrow> u8 \<Rightarrow> bool" where
  "plausible_stride val tag \<longleftrightarrow> (tag = 0x02 \<or> tag = 0x01) \<and> val \<ge> 8 \<and> val \<le> 256 \<and> val AND 3 = 0"

text \<open>The candidate table with its 64 entries: value and number of hits.\<close>

definition bump :: "u32 \<Rightarrow> (u32 \<times> nat) list \<Rightarrow> (u32 \<times> nat) list" where
  "bump val cand =
     (case find_index (\<lambda>c. fst c = val) cand of
        Some k \<Rightarrow> cand[k := (val, snd (cand ! k) + 1)]
      | None \<Rightarrow> if length cand < 64 then cand @ [(val, 1)] else cand)"

function stride_loop :: "bytes \<Rightarrow> nat \<Rightarrow> nat \<Rightarrow> (u32 \<times> nat) list \<Rightarrow> (u32 \<times> nat) list option" where
  "stride_loop blob limit i cand =
     (if i + 6 \<le> limit then do {
        t \<leftarrow> rd8 blob i;
        if t \<noteq> 0x04 then stride_loop blob limit (i + 1) cand
        else do {
          val \<leftarrow> lagfx_le32 blob (i + 1);
          tag \<leftarrow> rd8 blob (i + 5);
          stride_loop blob limit (i + 6) (if plausible_stride val tag then bump val cand else cand) } }
      else Some cand)"
  by pat_completeness auto
termination by (relation "measure (\<lambda>(_, limit, i, _). limit - i)") auto

declare stride_loop.simps [simp del]

definition better :: "u32 \<times> nat \<Rightarrow> u32 \<times> nat \<Rightarrow> u32 \<times> nat" where
  "better c b = (if snd c > snd b \<or> (snd c = snd b \<and> fst c > fst b) then c else b)"

definition lagfx_parse_pso_vertex_stride ::
  "'g shell \<Rightarrow> 'g sys \<Rightarrow> task_entry \<Rightarrow> u32 \<Rightarrow> u32 option" where
  "lagfx_parse_pso_vertex_stride sh s task pipeline_object_id =
     (case pipeline_blob sh s task pipeline_object_id 512 of None \<Rightarrow> Some 0
      | Some blob \<Rightarrow> do {
          limit \<leftarrow> blob_limit blob;
          cand \<leftarrow> stride_loop blob limit 16 [];
          Some (fst (fold better cand (0, 0))) })"

text \<open>The stride values the token stream carries, in order.\<close>

function stride_tokens :: "bytes \<Rightarrow> nat \<Rightarrow> nat \<Rightarrow> u32 list" where
  "stride_tokens blob limit i =
     (if i + 6 \<le> limit then
        if blob ! i \<noteq> 0x04 then stride_tokens blob limit (i + 1)
        else (if plausible_stride (le32_at blob (i + 1)) (blob ! (i + 5)) then [le32_at blob (i + 1)] else []) @
             stride_tokens blob limit (i + 6)
      else [])"
  by pat_completeness auto
termination by (relation "measure (\<lambda>(_, limit, i). limit - i)") auto

declare stride_tokens.simps [simp del]

lemma stride_loop_tokens:
  "limit \<le> length blob \<Longrightarrow> stride_loop blob limit i cand = Some (fold bump (stride_tokens blob limit i) cand)"
proof (induction blob limit i cand rule: stride_loop.induct)
  case (1 blob limit i cand)
  show ?case
    using 1 by (simp add: stride_loop.simps[of blob limit i] stride_tokens.simps[of blob limit i] chk_simps)
qed

lemma stride_tokens_plausible: "v \<in> set (stride_tokens blob limit i) \<Longrightarrow> \<exists>t. plausible_stride v t"
proof (induction blob limit i rule: stride_tokens.induct)
  case (1 blob limit i)
  then show ?case by (auto simp: stride_tokens.simps[of blob limit i] split: if_splits)
qed

lemma plausible_strides_few:
  assumes "\<forall>v \<in> S. \<exists>t. plausible_stride v t"
  shows "card S \<le> 63"
proof -
  have "v \<in> (\<lambda>k. of_nat (4 * k)) ` {2..64}" if v: "plausible_stride v t" for v t
  proof -
    have b: "8 \<le> unat v" "unat v \<le> 256" using v by (simp_all add: plausible_stride_def word_le_nat_alt)
    have "take_bit 2 v = 0" using v by (simp add: plausible_stride_def take_bit_eq_mask mask_eq_exp_minus_1)
    then have "unat (take_bit 2 v) = 0" by simp
    then have m: "unat v mod 4 = 0" by (simp only: unsigned_take_bit_eq) (simp add: take_bit_eq_mod)
    then have "4 * (unat v div 4) = unat v" by presburger
    then have "v = of_nat (4 * (unat v div 4))" by simp
    then show ?thesis using b by (intro image_eqI[of _ _ "unat v div 4"]) auto
  qed
  then have "S \<subseteq> (\<lambda>k. of_nat (4 * k)) ` {2..64 :: nat}" using assms by blast
  then have "card S \<le> card {2..64 :: nat}" by (meson card_image_le card_mono finite_atLeastAtMost finite_imageI le_trans)
  then show ?thesis by simp
qed

text \<open>The table after the tokens \<open>vs\<close>: one entry per distinct value, with its count.\<close>

definition tallied :: "u32 list \<Rightarrow> (u32 \<times> nat) list \<Rightarrow> bool" where
  "tallied vs cand \<longleftrightarrow> distinct (map fst cand) \<and> fst ` set cand = set vs \<and>
     (\<forall>c \<in> set cand. snd c = count_list vs (fst c))"

lemma tallied_bump:
  assumes "tallied vs cand" "card (insert v (set vs)) \<le> 63"
  shows "tallied (vs @ [v]) (bump v cand)"
proof -
  have dist: "distinct (map fst cand)" and keys: "fst ` set cand = set vs"
    and cnt: "\<And>c. c \<in> set cand \<Longrightarrow> snd c = count_list vs (fst c)"
    using assms(1) by (simp_all add: tallied_def)
  show ?thesis
  proof (cases "find_index (\<lambda>c. fst c = v) cand")
    case None
    then have new: "v \<notin> set vs" using keys by (auto simp: find_index_None_iff simp flip: keys)
    have "length cand = card (set vs)" using distinct_card[OF dist] keys by simp
    also have "\<dots> < 64" using assms(2) new by (simp add: card_insert_if)
    finally have b: "bump v cand = cand @ [(v, 1)]" using None by (simp add: bump_def)
    have "snd c = count_list (vs @ [v]) (fst c)" if "c \<in> set (cand @ [(v, 1)])" for c
      using that cnt[of c] new keys by (auto simp: count_list_0_iff)
    then show ?thesis using dist keys new by (simp add: tallied_def b)
  next
    case (Some k)
    note k = find_index_SomeD(1,2)[OF Some]
    let ?cand = "cand[k := (v, snd (cand ! k) + 1)]"
    have e: "snd (cand ! k) = count_list vs v" using cnt[of "cand ! k"] k by simp
    have km: "map fst ?cand = map fst cand"
      using k list_update_id[of "map fst cand" k] by (simp add: map_update)
    have vin: "v \<in> set vs" using k nth_mem[of k cand] by (auto simp flip: keys)
    have kc: "fst ` set ?cand = set vs" using arg_cong[OF km, of set] keys by simp
    have "snd c = count_list (vs @ [v]) (fst c)" if cin: "c \<in> set ?cand" for c
    proof -
      obtain j where j: "j < length cand" "c = ?cand ! j" using cin unfolding in_set_conv_nth by auto
      show ?thesis
      proof (cases "j = k")
        case True
        then show ?thesis using j e k(1) by simp
      next
        case False
        then have "map fst cand ! j \<noteq> map fst cand ! k"
          using dist j(1) k(1) by (simp add: distinct_conv_nth)
        then show ?thesis using False j k cnt[of "cand ! j"] by simp
      qed
    qed
    then show ?thesis using dist km kc vin Some by (simp add: tallied_def bump_def insert_absorb)
  qed
qed

lemma tallied_fold:
  "tallied us cand \<Longrightarrow> card (set us \<union> set vs) \<le> 63 \<Longrightarrow> tallied (us @ vs) (fold bump vs cand)"
proof (induction vs arbitrary: us cand)
  case (Cons v vs)
  have "card (insert v (set us)) \<le> card (set us \<union> set (v # vs))" by (intro card_mono) auto
  then have "tallied (us @ [v]) (bump v cand)" using Cons.prems by (intro tallied_bump) auto
  then have "tallied ((us @ [v]) @ vs) (fold bump vs (bump v cand))" using Cons.prems(2) by (intro Cons.IH) auto
  then show ?case by simp
qed simp

lemma fold_better:
  assumes "fold better cs b = r"
  shows "r = b \<or> r \<in> set cs" "\<forall>c \<in> insert b (set cs). snd c < snd r \<or> (snd c = snd r \<and> fst c \<le> fst r)"
  using assms
proof (induction cs arbitrary: b)
  case (Cons c cs)
  { case 1
    then show ?case using Cons.IH(1)[of "better c b"] by (auto simp: better_def split: if_splits) }
  { case 2
    then have a: "\<forall>x \<in> insert (better c b) (set cs). snd x < snd r \<or> (snd x = snd r \<and> fst x \<le> fst r)"
      using Cons.IH(2)[of "better c b"] by simp
    then show ?case by (fastforce simp: better_def split: if_splits) }
qed auto

text \<open>The most frequent value, the larger one on a tie.\<close>

definition is_mode :: "u32 list \<Rightarrow> u32 \<Rightarrow> bool" where
  "is_mode vs m \<longleftrightarrow> m \<in> set vs \<and>
     (\<forall>v \<in> set vs. count_list vs v < count_list vs m \<or> (count_list vs v = count_list vs m \<and> v \<le> m))"

lemma tallied_mode:
  assumes "tallied vs cand" "vs \<noteq> []"
  shows "is_mode vs (fst (fold better cand (0, 0)))"
proof -
  obtain r where r: "fold better cand (0, 0) = r" by simp
  note fb = fold_better[OF r]
  have keys: "fst ` set cand = set vs" and cnt: "\<And>c. c \<in> set cand \<Longrightarrow> snd c = count_list vs (fst c)"
    using assms(1) by (simp_all add: tallied_def)
  have ub: "count_list vs w < snd r \<or> (count_list vs w = snd r \<and> w \<le> fst r)" if "w \<in> set vs" for w
  proof -
    from that obtain d where d: "d \<in> set cand" "w = fst d" unfolding keys[symmetric] by (rule imageE)
    then show ?thesis using bspec[OF fb(2), of d] cnt[of d] by simp
  qed
  have "0 < count_list vs (hd vs)" using assms(2) by (simp add: count_list_0_iff zero_less_iff_neq_zero)
  then have "0 < snd r" using ub[of "hd vs"] assms(2) by auto
  then have "r \<in> set cand" using fb(1) by auto
  then have "snd r = count_list vs (fst r)" "fst r \<in> set vs" using cnt keys by auto
  then show ?thesis using ub by (simp add: is_mode_def r)
qed

lemma parse_stride_mode:
  assumes "pipeline_blob sh s task k 512 = Some blob" "blob_limit blob = Some limit"
  shows "\<exists>st. lagfx_parse_pso_vertex_stride sh s task k = Some st \<and>
     (let vs = stride_tokens blob limit 16 in if vs = [] then st = 0 else is_mode vs st)"
proof -
  let ?vs = "stride_tokens blob limit 16"
  have lim: "limit \<le> length blob" using assms(2) blob_limit_ok[of blob] pipeline_blob_length[OF assms(1)] by simp
  have "card (set ?vs) \<le> 63"
    by (rule plausible_strides_few) (auto intro: stride_tokens_plausible)
  then have t: "tallied ?vs (fold bump ?vs [])" using tallied_fold[of "[]" "[]" ?vs] by (simp add: tallied_def)
  have "lagfx_parse_pso_vertex_stride sh s task k = Some (fst (fold better (fold bump ?vs []) (0, 0)))"
    using assms stride_loop_tokens[OF lim, of 16 "[]"] by (simp add: lagfx_parse_pso_vertex_stride_def)
  then show ?thesis using tallied_mode[OF t] by (auto simp: Let_def)
qed

end
