(* ===== verification/Metallib.thy ===== *)
theory Metallib
  imports LittleEndian
begin

text \<open>
  The Metal library container of \<^verbatim>\<open>src/air2spirv/metallib_extract.c\<close>: a header, a table of
  function entries made of tagged fields, and a region of bitcode.  The input buffer is a
  list of bytes and every read is checked, so \<^const>\<open>None\<close> is a read outside the buffer; a
  pointer into the buffer is its offset.  The theory shows that no input makes the parser
  read or point outside the buffer, and that it recovers every function of a library
  written in the documented format, unknown fields included.
\<close>

unbundle bit_operations_syntax

subsection \<open>Data\<close>

datatype lagfx_metallib_stage =
    LAGFX_METALLIB_STAGE_UNKNOWN
  | LAGFX_METALLIB_STAGE_VERTEX
  | LAGFX_METALLIB_STAGE_FRAGMENT
  | LAGFX_METALLIB_STAGE_KERNEL

record lagfx_metallib_function =
  ml_name :: bytes
  ml_stage :: lagfx_metallib_stage
  ml_stage_raw :: u8
  ml_bitcode :: "nat option"
  ml_bitcode_len :: nat

text \<open>The locals of the entry loop: the record and the two fields that locate the bitcode.\<close>

record entry_state =
  es_rec :: lagfx_metallib_function
  es_offt :: "u64 option"
  es_mdsz :: "u64 option"

definition ascii :: "string \<Rightarrow> bytes" where
  "ascii s = map of_char s"

definition rd_u16_le :: "bytes \<Rightarrow> nat \<Rightarrow> u16 option" where
  "rd_u16_le b p = do {
     b0 \<leftarrow> rd8 b p; b1 \<leftarrow> rd8 b (p + 1);
     Some (ucast b0 OR push_bit 8 (ucast b1)) }"

definition rd_u32_le :: "bytes \<Rightarrow> nat \<Rightarrow> u32 option" where
  "rd_u32_le b p = do {
     b0 \<leftarrow> rd8 b p; b1 \<leftarrow> rd8 b (p + 1); b2 \<leftarrow> rd8 b (p + 2); b3 \<leftarrow> rd8 b (p + 3);
     Some (ucast b0 OR push_bit 8 (ucast b1) OR push_bit 16 (ucast b2) OR push_bit 24 (ucast b3)) }"

definition rd_u64_le :: "bytes \<Rightarrow> nat \<Rightarrow> u64 option" where
  "rd_u64_le b p = do {
     b0 \<leftarrow> rd8 b p; b1 \<leftarrow> rd8 b (p + 1); b2 \<leftarrow> rd8 b (p + 2); b3 \<leftarrow> rd8 b (p + 3);
     b4 \<leftarrow> rd8 b (p + 4); b5 \<leftarrow> rd8 b (p + 5); b6 \<leftarrow> rd8 b (p + 6); b7 \<leftarrow> rd8 b (p + 7);
     Some (ucast b0 OR push_bit 8 (ucast b1) OR push_bit 16 (ucast b2)
           OR push_bit 24 (ucast b3) OR push_bit 32 (ucast b4) OR push_bit 40 (ucast b5)
           OR push_bit 48 (ucast b6) OR push_bit 56 (ucast b7)) }"

fun tag_eq :: "bytes \<Rightarrow> nat \<Rightarrow> bytes \<Rightarrow> bool option" where
  "tag_eq b p [] = Some True"
| "tag_eq b p (t # ts) = do { c \<leftarrow> rd8 b p; if c = t then tag_eq b (p + 1) ts else Some False }"

definition lagfx_metallib_has_magic :: "bytes \<Rightarrow> bool option" where
  "lagfx_metallib_has_magic buf =
     (if length buf < 4 then Some False else tag_eq buf 0 (ascii ''MTLB''))"

subsection \<open>Fields of an entry\<close>

definition LAGFX_METALLIB_NAME_SIZE :: nat where
  "LAGFX_METALLIB_NAME_SIZE = 128"

definition name_field :: "bytes \<Rightarrow> nat \<Rightarrow> nat \<Rightarrow> bytes \<Rightarrow> bytes option" where
  "name_field buf fdata flen name = do {
     n0 \<leftarrow> (if 0 < flen then do { c \<leftarrow> rd8 buf (fdata + (flen - 1)); Some (if c = 0 then flen - 1 else flen) }
           else Some flen);
     let n = (if LAGFX_METALLIB_NAME_SIZE \<le> n0 then LAGFX_METALLIB_NAME_SIZE - 1 else n0);
     src \<leftarrow> rd_list buf fdata n;
     name1 \<leftarrow> wr_list name 0 src;
     wr8 name1 n 0 }"

definition stage_of :: "u8 \<Rightarrow> lagfx_metallib_stage" where
  "stage_of raw = (if raw = 0 then LAGFX_METALLIB_STAGE_VERTEX
     else if raw = 1 then LAGFX_METALLIB_STAGE_FRAGMENT
     else if raw = 2 then LAGFX_METALLIB_STAGE_KERNEL
     else LAGFX_METALLIB_STAGE_UNKNOWN)"

definition offt_field :: "bytes \<Rightarrow> nat \<Rightarrow> nat \<Rightarrow> u64 option" where
  "offt_field buf fdata flen =
     (if 24 \<le> flen then rd_u64_le buf (fdata + 16)
      else if 8 \<le> flen then rd_u64_le buf fdata
      else Some 0)"

definition entry_field :: "bytes \<Rightarrow> nat \<Rightarrow> nat \<Rightarrow> nat \<Rightarrow> entry_state \<Rightarrow> entry_state option" where
  "entry_field buf tagp fdata flen st = do {
     is_name \<leftarrow> tag_eq buf tagp (ascii ''NAME'');
     if is_name then do {
       name \<leftarrow> name_field buf fdata flen (ml_name (es_rec st));
       Some (st\<lparr>es_rec := (es_rec st)\<lparr>ml_name := name\<rparr>\<rparr>)
     } else do {
     is_type \<leftarrow> tag_eq buf tagp (ascii ''TYPE'');
     if is_type \<and> 1 \<le> flen then do {
       raw \<leftarrow> rd8 buf fdata;
       Some (st\<lparr>es_rec := (es_rec st)\<lparr>ml_stage_raw := raw, ml_stage := stage_of raw\<rparr>\<rparr>)
     } else do {
     is_offt \<leftarrow> tag_eq buf tagp (ascii ''OFFT'');
     if is_offt then do { v \<leftarrow> offt_field buf fdata flen; Some (st\<lparr>es_offt := Some v\<rparr>) }
     else do {
     is_mdsz \<leftarrow> tag_eq buf tagp (ascii ''MDSZ'');
     if is_mdsz \<and> 8 \<le> flen then do { v \<leftarrow> rd_u64_le buf fdata; Some (st\<lparr>es_mdsz := Some v\<rparr>) }
     else Some st }}}}"

text \<open>The field loop: it ends at \<^verbatim>\<open>ENDT\<close>, or with an error when a field does not fit or the
  entry has no \<^verbatim>\<open>ENDT\<close>.\<close>

function field_loop :: "bytes \<Rightarrow> nat \<Rightarrow> nat \<Rightarrow> entry_state \<Rightarrow> (lagfx_status + entry_state) option" where
  "field_loop buf body_end bp st =
     (if bp + 4 \<le> body_end then do {
        ended \<leftarrow> tag_eq buf bp (ascii ''ENDT'');
        if ended then Some (Inr st)
        else if body_end < bp + 6 then Some (Inl LAGFX_ERR_INVALID_ARG)
        else do {
          flen \<leftarrow> rd_u16_le buf (bp + 4);
          if body_end - (bp + 6) < unat flen then Some (Inl LAGFX_ERR_INVALID_ARG)
          else do {
            st' \<leftarrow> entry_field buf bp (bp + 6) (unat flen) st;
            field_loop buf body_end (bp + (6 + unat flen)) st' }}}
      else Some (Inl LAGFX_ERR_INVALID_ARG))"
  by pat_completeness auto
termination
  by (relation "measure (\<lambda>(buf, body_end, bp, st). body_end - bp)") auto

declare field_loop.simps [simp del]

subsection \<open>Entries\<close>

definition entry_new :: entry_state where
  "entry_new = \<lparr>es_rec = \<lparr>ml_name = replicate LAGFX_METALLIB_NAME_SIZE 0, ml_stage = LAGFX_METALLIB_STAGE_UNKNOWN,
       ml_stage_raw = 0, ml_bitcode = None, ml_bitcode_len = 0\<rparr>, es_offt = None, es_mdsz = None\<rparr>"

text \<open>The absolute offset is a 64-bit sum.\<close>

definition resolve_bitcode :: "bytes \<Rightarrow> u64 \<Rightarrow> entry_state \<Rightarrow> lagfx_metallib_function" where
  "resolve_bitcode buf bc_base st =
     (case (es_offt st, es_mdsz st) of
        (Some rel, Some mdsz) \<Rightarrow>
          let abs_off = unat (bc_base + rel) in
          if abs_off \<le> length buf \<and> unat mdsz \<le> length buf - abs_off
          then (es_rec st)\<lparr>ml_bitcode := Some abs_off, ml_bitcode_len := unat mdsz\<rparr>
          else (es_rec st)\<lparr>ml_bitcode := None, ml_bitcode_len := 0\<rparr>
      | _ \<Rightarrow> (es_rec st)\<lparr>ml_bitcode := None, ml_bitcode_len := 0\<rparr>)"

text \<open>One entry: the record and the position of the next entry.\<close>

definition metallib_entry ::
    "bytes \<Rightarrow> u64 \<Rightarrow> nat \<Rightarrow> (lagfx_status + lagfx_metallib_function \<times> nat) option" where
  "metallib_entry buf bc_base pos =
     (if length buf < pos + 8 then Some (Inl LAGFX_ERR_INVALID_ARG)
      else do {
        entry_size \<leftarrow> rd_u32_le buf pos;
        if unat entry_size < 8 \<or> length buf - pos < unat entry_size then Some (Inl LAGFX_ERR_INVALID_ARG)
        else do {
          let body_end = pos + unat entry_size;
          r \<leftarrow> field_loop buf body_end (pos + 4) entry_new;
          case r of
            Inl e \<Rightarrow> Some (Inl e)
          | Inr st \<Rightarrow> Some (Inr (resolve_bitcode buf bc_base st, body_end)) }})"

fun entry_loop :: "bytes \<Rightarrow> u64 \<Rightarrow> nat \<Rightarrow> nat \<Rightarrow> (lagfx_status + lagfx_metallib_function list) option" where
  "entry_loop buf bc_base 0 pos = Some (Inr [])"
| "entry_loop buf bc_base (Suc n) pos = do {
     r \<leftarrow> metallib_entry buf bc_base pos;
     case r of
       Inl e \<Rightarrow> Some (Inl e)
     | Inr (rc, pos') \<Rightarrow> do {
         rest \<leftarrow> entry_loop buf bc_base n pos';
         case rest of Inl e \<Rightarrow> Some (Inl e) | Inr recs \<Rightarrow> Some (Inr (rc # recs)) }}"

definition bitcode_base :: "bytes \<Rightarrow> u64 option" where
  "bitcode_base buf =
     (if 0x50 \<le> length buf then do {
        bc_base \<leftarrow> rd_u64_le buf 0x48;
        Some (if bc_base \<noteq> 0 \<and> length buf \<le> unat bc_base then 0 else bc_base) }
      else Some 0)"

definition kMaxEntries :: nat where
  "kMaxEntries = 1024"

text \<open>The records stored, at most \<open>capacity\<close> of them, and the number found.\<close>

definition lagfx_metallib_extract_functions ::
    "bytes \<Rightarrow> nat \<Rightarrow> (lagfx_status + lagfx_metallib_function list \<times> nat) option" where
  "lagfx_metallib_extract_functions buf capacity =
     (if length buf < 0x20 then Some (Inl LAGFX_ERR_INVALID_ARG)
      else do {
        magic \<leftarrow> lagfx_metallib_has_magic buf;
        if \<not> magic then Some (Inl LAGFX_ERR_INVALID_ARG)
        else do {
          fet_off \<leftarrow> rd_u64_le buf 0x18;
          if fet_off = 0 \<or> length buf \<le> unat fet_off then Some (Inl LAGFX_ERR_INVALID_ARG)
          else do {
            bc_base \<leftarrow> bitcode_base buf;
            if length buf < unat fet_off + 4 then Some (Inl LAGFX_ERR_INVALID_ARG)
            else do {
              entry_count \<leftarrow> rd_u32_le buf (unat fet_off);
              if kMaxEntries < unat entry_count then Some (Inl LAGFX_ERR_INVALID_ARG)
              else do {
                r \<leftarrow> entry_loop buf bc_base (unat entry_count) (unat fet_off + 4);
                case r of
                  Inl e \<Rightarrow> Some (Inl e)
                | Inr recs \<Rightarrow> Some (Inr (take capacity recs, length recs)) }}}}})"

subsection \<open>The readers\<close>

lemma rd_le_eq: "rd_u16_le = lagfx_le16" "rd_u32_le = lagfx_le32" "rd_u64_le = lagfx_le64"
  by (simp_all add: fun_eq_iff rd_u16_le_def rd_u32_le_def rd_u64_le_def lagfx_le16_def lagfx_le32_def lagfx_le64_def)

lemma tag_eq_in: "p + length t \<le> length b \<Longrightarrow> tag_eq b p t = Some (take (length t) (drop p b) = t)"
proof (induction t arbitrary: p)
  case (Cons c t)
  have "drop p b = b ! p # drop (p + 1) b" using Cons.prems by (simp add: Cons_nth_drop_Suc)
  then show ?case using Cons.IH[of "p + 1"] Cons.prems by auto
qed simp

lemma length_ascii [simp]: "length (ascii s) = length s"
  by (simp add: ascii_def)

lemma tag_eq_total [chk_simps]: "p + length t \<le> length b \<Longrightarrow> \<exists>e. tag_eq b p t = Some e"
  using tag_eq_in by blast

subsection \<open>No input makes the parser leave the buffer\<close>

text \<open>What a field does, as a function of its tag and its data alone.\<close>

definition name_chars :: "bytes \<Rightarrow> bytes" where
  "name_chars data = take (LAGFX_METALLIB_NAME_SIZE - 1) (if data \<noteq> [] \<and> last data = 0 then butlast data else data)"

definition store_name :: "bytes \<Rightarrow> bytes \<Rightarrow> bytes" where
  "store_name data name = name_chars data @ 0 # drop (length (name_chars data) + 1) name"

definition offt_value :: "bytes \<Rightarrow> u64" where
  "offt_value data = (if 24 \<le> length data then le64_at data 16 else if 8 \<le> length data then le64_at data 0 else 0)"

definition apply_field :: "bytes \<Rightarrow> bytes \<Rightarrow> entry_state \<Rightarrow> entry_state" where
  "apply_field tag data st =
     (if tag = ascii ''NAME'' then st\<lparr>es_rec := (es_rec st)\<lparr>ml_name := store_name data (ml_name (es_rec st))\<rparr>\<rparr>
      else if tag = ascii ''TYPE'' \<and> data \<noteq> [] then
        st\<lparr>es_rec := (es_rec st)\<lparr>ml_stage_raw := hd data, ml_stage := stage_of (hd data)\<rparr>\<rparr>
      else if tag = ascii ''OFFT'' then st\<lparr>es_offt := Some (offt_value data)\<rparr>
      else if tag = ascii ''MDSZ'' \<and> 8 \<le> length data then st\<lparr>es_mdsz := Some (le64_at data 0)\<rparr>
      else st)"

lemma le64_at_slice:
  assumes "off + 8 \<le> n" "fdata + n \<le> length buf"
  shows "lagfx_le64 buf (fdata + off) = Some (le64_at (take n (drop fdata buf)) off)"
proof -
  have "lagfx_le64 (take fdata buf @ take n (drop fdata buf) @ drop (fdata + n) buf) (fdata + off) =
      lagfx_le64 (take n (drop fdata buf)) off"
    using assms by (simp add: le_append_right le_append_left)
  moreover have "take fdata buf @ take n (drop fdata buf) @ drop (fdata + n) buf = buf"
    by (metis append_take_drop_id add.commute drop_drop)
  ultimately show ?thesis using assms by (simp add: le64_in)
qed

lemma length_name_chars: "length (name_chars data) \<le> 127" "length (name_chars data) \<le> length data"
  by (auto simp: name_chars_def LAGFX_METALLIB_NAME_SIZE_def)

lemma store_name_writes:
  assumes "length name = LAGFX_METALLIB_NAME_SIZE"
  shows "wr_list name 0 (name_chars d) = Some (name_chars d @ drop (length (name_chars d)) name)"
    "wr8 (name_chars d @ drop (length (name_chars d)) name) (length (name_chars d)) 0 = Some (store_name d name)"
proof -
  have l: "length name = 128" "length (name_chars d) < 128"
    using assms length_name_chars(1)[of d] by (simp_all add: LAGFX_METALLIB_NAME_SIZE_def)
  then show "wr_list name 0 (name_chars d) = Some (name_chars d @ drop (length (name_chars d)) name)"
    by (simp add: wr_list_eq)
  have "drop (length (name_chars d)) name = name ! length (name_chars d) # drop (length (name_chars d) + 1) name"
    using l by (simp add: Cons_nth_drop_Suc)
  then show "wr8 (name_chars d @ drop (length (name_chars d)) name) (length (name_chars d)) 0 = Some (store_name d name)"
    by (simp add: wr8_def store_name_def)
qed

lemma name_field_eq:
  assumes "fdata + flen \<le> length buf" "length name = LAGFX_METALLIB_NAME_SIZE"
  shows "name_field buf fdata flen name = Some (store_name (take flen (drop fdata buf)) name)"
proof -
  let ?d = "take flen (drop fdata buf)"
  let ?k = "if ?d \<noteq> [] \<and> last ?d = 0 then flen - 1 else flen"
  let ?n = "if LAGFX_METALLIB_NAME_SIZE \<le> ?k then LAGFX_METALLIB_NAME_SIZE - 1 else ?k"
  have ld: "length ?d = flen" using assms(1) by simp
  have last: "last ?d = buf ! (fdata + (flen - 1))" if "0 < flen"
    using that ld assms(1) by (subst last_conv_nth) auto
  have n0: "(if 0 < flen then do { c \<leftarrow> rd8 buf (fdata + (flen - 1)); Some (if c = 0 then flen - 1 else flen) }
      else Some flen) = Some ?k"
    using assms(1) ld last by (cases "0 < flen") auto
  have b: "?n < 128" "fdata + ?n \<le> length buf" using assms(1) by (auto simp: LAGFX_METALLIB_NAME_SIZE_def)
  have "(if ?d \<noteq> [] \<and> last ?d = 0 then butlast ?d else ?d) = take ?k (drop fdata buf)"
    using ld by (simp add: butlast_conv_take min_def)
  then have "name_chars ?d = take (min 127 ?k) (drop fdata buf)"
    by (simp only: name_chars_def LAGFX_METALLIB_NAME_SIZE_def take_take) simp
  moreover have "min 127 ?k = ?n" by (auto simp: LAGFX_METALLIB_NAME_SIZE_def)
  ultimately have chars: "name_chars ?d = take ?n (drop fdata buf)" by (simp only:)
  moreover have "length (take ?n (drop fdata buf)) = ?n" using b(2) by (simp only: length_take length_drop) linarith
  ultimately have chars: "name_chars ?d = take ?n (drop fdata buf)" "length (name_chars ?d) = ?n" by (simp_all only:)
  have rd: "rd_list buf fdata ?n = Some (name_chars ?d)" using b(2) chars(1) by (simp only: rd_list_in)
  note wr = store_name_writes[OF assms(2), of ?d, unfolded chars(2)]
  show ?thesis unfolding name_field_def n0 Let_def Option.bind.bind_lunit rd wr ..
qed

lemma entry_field_eq:
  assumes "tagp + 4 \<le> length buf" "fdata + flen \<le> length buf" "length (ml_name (es_rec st)) = LAGFX_METALLIB_NAME_SIZE"
  shows "entry_field buf tagp fdata flen st = Some (apply_field (take 4 (drop tagp buf)) (take flen (drop fdata buf)) st)"
proof -
  let ?d = "take flen (drop fdata buf)"
  have t: "tag_eq buf tagp (ascii s) = Some (take 4 (drop tagp buf) = ascii s)" if "length s = 4" for s
    using tag_eq_in[of tagp "ascii s" buf] assms(1) that by simp
  have ld: "length ?d = flen" using assms(2) by simp
  have raw: "rd8 buf fdata = Some (hd ?d)" "?d \<noteq> []" if "1 \<le> flen"
    using assms(2) that by (auto simp: hd_drop_conv_nth)
  have offt: "offt_field buf fdata flen = Some (offt_value ?d)"
    using le64_at_slice[OF _ assms(2), of 16] le64_at_slice[OF _ assms(2), of 0] ld
    by (simp add: offt_field_def offt_value_def rd_le_eq)
  have mdsz: "rd_u64_le buf fdata = Some (le64_at ?d 0)" if "8 \<le> flen"
    using le64_at_slice[OF _ assms(2), of 0] that by (simp add: rd_le_eq)
  have ne: "?d \<noteq> [] \<longleftrightarrow> 1 \<le> flen" using ld by (cases ?d) auto
  show ?thesis
    unfolding entry_field_def apply_field_def ne ld
    by (simp only: t name_field_eq[OF assms(2,3)] offt raw mdsz Option.bind.bind_lunit list.size if_cancel
        cong: if_cong) (simp add: raw mdsz)
qed

text \<open>A name is a terminated string in its array.\<close>

definition wf_name :: "bytes \<Rightarrow> bool" where
  "wf_name name \<longleftrightarrow> length name = LAGFX_METALLIB_NAME_SIZE \<and> 0 \<in> set name"

lemma apply_field_wf: "wf_name (ml_name (es_rec st)) \<Longrightarrow> wf_name (ml_name (es_rec (apply_field tag data st)))"
  using length_name_chars(1)[of data]
  by (auto simp: apply_field_def wf_name_def store_name_def LAGFX_METALLIB_NAME_SIZE_def)

lemma entry_field_total:
  assumes "tagp + 4 \<le> length buf" "fdata + flen \<le> length buf" "wf_name (ml_name (es_rec st))"
  shows "\<exists>st'. entry_field buf tagp fdata flen st = Some st' \<and> wf_name (ml_name (es_rec st'))"
  using entry_field_eq[OF assms(1,2)] apply_field_wf[OF assms(3)] assms(3) by (auto simp: wf_name_def)

lemma field_loop_total:
  "body_end \<le> length buf \<Longrightarrow> wf_name (ml_name (es_rec st)) \<Longrightarrow>
   \<exists>r. field_loop buf body_end bp st = Some r \<and> (\<forall>st'. r = Inr st' \<longrightarrow> wf_name (ml_name (es_rec st')))"
proof (induction buf body_end bp st rule: field_loop.induct)
  case (1 buf body_end bp st)
  show ?case
  proof (cases "bp + 4 \<le> body_end")
    case True
    obtain e where e: "tag_eq buf bp (ascii ''ENDT'') = Some e"
      using tag_eq_total[of bp "ascii ''ENDT''" buf] True "1.prems"(1) by auto
    show ?thesis
    proof (cases "e \<or> body_end < bp + 6")
      case True
      then show ?thesis using e "1.prems" \<open>bp + 4 \<le> body_end\<close> by (auto simp: field_loop.simps[of buf body_end])
    next
      case False
      define flen where "flen = le16_at buf (bp + 4)"
      have f: "rd_u16_le buf (bp + 4) = Some flen"
        using False "1.prems"(1) by (simp add: rd_le_eq le16_in flen_def)
      show ?thesis
      proof (cases "body_end - (bp + 6) < unat flen")
        case True
        then show ?thesis using e f False \<open>bp + 4 \<le> body_end\<close> by (simp add: field_loop.simps[of buf body_end])
      next
        case fits: False
        obtain st' where st': "entry_field buf bp (bp + 6) (unat flen) st = Some st'" "wf_name (ml_name (es_rec st'))"
        proof -
          have "bp + 4 \<le> length buf" "bp + 6 + unat flen \<le> length buf"
            using fits False "1.prems"(1) by linarith+
          then show thesis using that entry_field_total[OF _ _ "1.prems"(2)] by blast
        qed
        have e': "\<not> e" "\<not> body_end < bp + 6" using False by auto
        show ?thesis
          using "1.IH"[OF True e e' f fits st'(1) "1.prems"(1) st'(2)] e f fits st'(1) False True
          by (simp add: field_loop.simps[of buf body_end bp])
      qed
    qed
  qed (simp add: field_loop.simps[of buf body_end])
qed

text \<open>A record that points into the buffer.\<close>

definition wf_function :: "bytes \<Rightarrow> lagfx_metallib_function \<Rightarrow> bool" where
  "wf_function buf f \<longleftrightarrow> wf_name (ml_name f) \<and>
     (case ml_bitcode f of Some off \<Rightarrow> off + ml_bitcode_len f \<le> length buf | None \<Rightarrow> ml_bitcode_len f = 0)"

lemma resolve_bitcode_wf: "wf_name (ml_name (es_rec st)) \<Longrightarrow> wf_function buf (resolve_bitcode buf base st)"
  by (auto simp: wf_function_def resolve_bitcode_def Let_def split: option.splits)

lemma metallib_entry_total:
  "\<exists>r. metallib_entry buf base pos = Some r \<and>
     (\<forall>f pos'. r = Inr (f, pos') \<longrightarrow> wf_function buf f \<and> pos + 8 \<le> pos' \<and> pos' \<le> length buf)"
proof (cases "length buf < pos + 8")
  case False
  then have p: "pos + 8 \<le> length buf" by simp
  define sz where "sz = le32_at buf pos"
  have s: "rd_u32_le buf pos = Some sz" using p by (simp add: rd_le_eq le32_in sz_def)
  show ?thesis
  proof (cases "unat sz < 8 \<or> length buf - pos < unat sz")
    case True
    then show ?thesis using s p by (simp add: metallib_entry_def)
  next
    case fits: False
    have w: "wf_name (ml_name (es_rec entry_new))" by (simp add: wf_name_def entry_new_def LAGFX_METALLIB_NAME_SIZE_def)
    have e: "pos + unat sz \<le> length buf" using fits p by linarith
    obtain r where r: "field_loop buf (pos + unat sz) (pos + 4) entry_new = Some r"
      "\<And>st'. r = Inr st' \<Longrightarrow> wf_name (ml_name (es_rec st'))"
      using field_loop_total[OF e w] by blast
    show ?thesis
      using s p fits r e resolve_bitcode_wf by (cases r) (auto simp: metallib_entry_def Let_def)
  qed
qed (simp add: metallib_entry_def)

lemma entry_loop_total:
  "\<exists>r. entry_loop buf base n pos = Some r \<and> (\<forall>fs. r = Inr fs \<longrightarrow> length fs = n \<and> list_all (wf_function buf) fs)"
proof (induction n arbitrary: pos)
  case (Suc n)
  obtain r where r: "metallib_entry buf base pos = Some r" "\<And>f pos'. r = Inr (f, pos') \<Longrightarrow> wf_function buf f"
    using metallib_entry_total[of buf base pos] by blast
  show ?case
  proof (cases r)
    case (Inr q)
    obtain f pos' where q: "q = (f, pos')" by (cases q)
    obtain rest where "entry_loop buf base n pos' = Some rest"
      "\<And>fs. rest = Inr fs \<Longrightarrow> length fs = n \<and> list_all (wf_function buf) fs"
      using Suc.IH[of pos'] by blast
    then show ?thesis using r Inr q by (cases rest) auto
  qed (simp add: r)
qed simp

lemma bitcode_base_total: "\<exists>v. bitcode_base buf = Some v"
  by (simp add: bitcode_base_def rd_le_eq chk_simps)

lemma extract_total:
  "\<exists>r. lagfx_metallib_extract_functions buf cap = Some r \<and>
     (\<forall>fs n. r = Inr (fs, n) \<longrightarrow> n \<le> kMaxEntries \<and> length fs = min cap n \<and> list_all (wf_function buf) fs)"
proof -
  consider "length buf < 0x20" | "0x20 \<le> length buf" by linarith
  then show ?thesis
  proof cases
    case 2
    obtain m where m: "lagfx_metallib_has_magic buf = Some m"
      using 2 tag_eq_total[of 0 "ascii ''MTLB''" buf] by (auto simp: lagfx_metallib_has_magic_def)
    define fet where "fet = le64_at buf 0x18"
    have f: "rd_u64_le buf 0x18 = Some fet" using 2 by (simp add: rd_le_eq le64_in fet_def)
    obtain base where b: "bitcode_base buf = Some base" using bitcode_base_total by blast
    define cnt where "cnt = le32_at buf (unat fet)"
    have c: "rd_u32_le buf (unat fet) = Some cnt" if "unat fet + 4 \<le> length buf"
      using that by (simp add: rd_le_eq le32_in cnt_def)
    obtain r where r: "entry_loop buf base (unat cnt) (unat fet + 4) = Some r"
      "\<And>fs. r = Inr fs \<Longrightarrow> length fs = unat cnt \<and> list_all (wf_function buf) fs"
      using entry_loop_total[of buf base "unat cnt" "unat fet + 4"] by blast
    have t: "list_all (wf_function buf) (take cap fs)" if "list_all (wf_function buf) fs" for fs
      using that by (auto simp: list_all_iff dest: in_set_takeD)
    show ?thesis
    proof (cases r)
      case (Inl e)
      then show ?thesis using 2 m f b c r by (auto simp: lagfx_metallib_extract_functions_def)
    next
      case (Inr fs)
      then show ?thesis using 2 m f b c r t by (auto simp: lagfx_metallib_extract_functions_def min.commute)
    qed
  qed (simp add: lagfx_metallib_extract_functions_def)
qed

subsection \<open>Libraries in the documented format\<close>

definition emit_field :: "bytes \<times> bytes \<Rightarrow> bytes" where
  "emit_field f = fst f @ le_bytes16 (of_nat (length (snd f))) @ snd f"

definition valid_field :: "bytes \<times> bytes \<Rightarrow> bool" where
  "valid_field f \<longleftrightarrow> length (fst f) = 4 \<and> fst f \<noteq> ascii ''ENDT'' \<and> length (snd f) < 65536"

lemma length_emit_field: "valid_field f \<Longrightarrow> length (emit_field f) = 6 + length (snd f)"
  by (simp add: emit_field_def valid_field_def)

lemma field_loop_fields:
  assumes "list_all valid_field fs" "length (ml_name (es_rec st)) = LAGFX_METALLIB_NAME_SIZE"
    and "buf = pre @ concat (map emit_field fs) @ ascii ''ENDT'' @ post" "bp = length pre"
    and "length pre + length (concat (map emit_field fs)) + 4 \<le> body_end" "body_end \<le> length buf"
  shows "field_loop buf body_end bp st = Some (Inr (fold (\<lambda>(t, d). apply_field t d) fs st))"
  using assms
proof (induction fs arbitrary: pre bp st)
  case Nil
  have "tag_eq buf bp (ascii ''ENDT'') = Some True"
    using tag_eq_in[of bp "ascii ''ENDT''" buf] Nil.prems(3,4) by simp
  then show ?case using Nil.prems(4,5) by (simp add: field_loop.simps)
next
  case (Cons f fs)
  obtain t d where f: "f = (t, d)" by (cases f)
  let ?rest = "concat (map emit_field fs) @ ascii ''ENDT'' @ post"
  have v: "length t = 4" "t \<noteq> ascii ''ENDT''" "length d < 65536" "list_all valid_field fs"
    using Cons.prems(1) by (simp_all add: f) (simp_all add: valid_field_def)
  have emit: "emit_field f = t @ le_bytes16 (of_nat (length d)) @ d" by (simp add: f emit_field_def)
  have buf: "buf = pre @ t @ le_bytes16 (of_nat (length d)) @ d @ ?rest"
    using Cons.prems(3) by (simp add: emit)
  have fits: "bp + 6 + length d + 4 \<le> body_end" using Cons.prems(4,5) v by (simp add: emit)
  have "tag_eq buf bp (ascii ''ENDT'') = Some False"
    using tag_eq_in[of bp "ascii ''ENDT''" buf] Cons.prems(4) v(1,2) by (simp add: buf)
  moreover have "rd_u16_le buf (bp + 4) = Some (of_nat (length d))"
    using Cons.prems(4) v(1) le16_bytes[of "bp + 4" "pre @ t"] by (simp add: buf rd_le_eq)
  moreover have len: "unat (of_nat (length d) :: u16) = length d" using v(3) by (simp add: unat_of_nat_small)
  moreover have "entry_field buf bp (bp + 6) (length d) st = Some (apply_field t d st)"
  proof -
    have "take 4 (drop bp buf) = t" "take (length d) (drop (bp + 6) buf) = d"
      using Cons.prems(4) v(1) by (simp_all add: buf)
    moreover have "bp + 4 \<le> length buf" "bp + 6 + length d \<le> length buf" using Cons.prems(6) fits by linarith+
    ultimately show ?thesis using entry_field_eq[of bp buf "bp + 6" "length d" st] Cons.prems(2) by simp
  qed
  moreover have "field_loop buf body_end (bp + (6 + length d)) (apply_field t d st) =
      Some (Inr (fold (\<lambda>(t, d). apply_field t d) fs (apply_field t d st)))"
  proof (rule Cons.IH)
    show "list_all valid_field fs" by (rule v(4))
    show "length (ml_name (es_rec (apply_field t d st))) = LAGFX_METALLIB_NAME_SIZE"
      using Cons.prems(2) length_name_chars(1)[of d] by (auto simp: apply_field_def store_name_def LAGFX_METALLIB_NAME_SIZE_def)
    show "buf = (pre @ emit_field f) @ ?rest" using Cons.prems(3) by simp
    show "bp + (6 + length d) = length (pre @ emit_field f)" using Cons.prems(4) v(1) by (simp add: emit)
    show "length (pre @ emit_field f) + length (concat (map emit_field fs)) + 4 \<le> body_end" using Cons.prems(5) by simp
    show "body_end \<le> length buf" by (rule Cons.prems(6))
  qed
  ultimately show ?case
    using fits by (simp add: field_loop.simps[of buf body_end bp] f)
qed

text \<open>A function of a library: its name, stage and bitcode, and further fields.\<close>

record lib_function =
  lf_name :: bytes
  lf_stage :: u8
  lf_code :: bytes
  lf_extra :: "(bytes \<times> bytes) list"

definition known_tags :: "bytes list" where
  "known_tags = [ascii ''NAME'', ascii ''TYPE'', ascii ''OFFT'', ascii ''MDSZ'']"

definition valid_lib_function :: "lib_function \<Rightarrow> bool" where
  "valid_lib_function f \<longleftrightarrow> length (lf_name f) < LAGFX_METALLIB_NAME_SIZE \<and>
     list_all (\<lambda>x. valid_field x \<and> fst x \<notin> set known_tags) (lf_extra f)"

definition lib_fields :: "nat \<Rightarrow> lib_function \<Rightarrow> (bytes \<times> bytes) list" where
  "lib_fields off f =
     [(ascii ''NAME'', lf_name f @ [0]), (ascii ''TYPE'', [lf_stage f]),
      (ascii ''OFFT'', replicate 16 0 @ le_bytes64 (of_nat off)),
      (ascii ''MDSZ'', le_bytes64 (of_nat (length (lf_code f))))] @ lf_extra f"

definition lib_body :: "nat \<Rightarrow> lib_function \<Rightarrow> bytes" where
  "lib_body off f = concat (map emit_field (lib_fields off f)) @ ascii ''ENDT''"

definition lib_entry :: "nat \<Rightarrow> lib_function \<Rightarrow> bytes" where
  "lib_entry off f = le_bytes32 (of_nat (4 + length (lib_body off f))) @ lib_body off f"

fun lib_entries :: "nat \<Rightarrow> lib_function list \<Rightarrow> bytes" where
  "lib_entries off [] = []"
| "lib_entries off (f # fs) = lib_entry off f @ lib_entries (off + length (lf_code f)) fs"

definition lib_bytes :: "lib_function list \<Rightarrow> bytes" where
  "lib_bytes fs =
     ascii ''MTLB'' @ replicate 20 0 @ le_bytes64 0x50 @ replicate 0x28 0 @
     le_bytes64 (of_nat (0x54 + length (lib_entries 0 fs))) @
     le_bytes32 (of_nat (length fs)) @ lib_entries 0 fs @ concat (map lf_code fs)"

text \<open>What a record must say of a function of the library: its name, the value of its type field and
  its bitcode.\<close>

definition decodes :: "bytes \<Rightarrow> lib_function \<Rightarrow> lagfx_metallib_function \<Rightarrow> bool" where
  "decodes buf f r \<longleftrightarrow>
     ml_name r = lf_name f @ replicate (LAGFX_METALLIB_NAME_SIZE - length (lf_name f)) 0 \<and>
     ml_stage_raw r = lf_stage f \<and> ml_bitcode_len r = length (lf_code f) \<and>
     (\<exists>off. ml_bitcode r = Some off \<and> off + ml_bitcode_len r \<le> length buf \<and> take (ml_bitcode_len r) (drop off buf) = lf_code f)"

lemma ascii_tags:
  "ascii ''NAME'' = [78, 65, 77, 69]" "ascii ''TYPE'' = [84, 89, 80, 69]" "ascii ''OFFT'' = [79, 70, 70, 84]"
  "ascii ''MDSZ'' = [77, 68, 83, 90]" "ascii ''ENDT'' = [69, 78, 68, 84]" "ascii ''MTLB'' = [77, 84, 76, 66]"
  by (simp_all add: ascii_def)

lemma fold_extra:
  "list_all (\<lambda>x. valid_field x \<and> fst x \<notin> set known_tags) xs \<Longrightarrow> fold (\<lambda>(t, d). apply_field t d) xs st = st"
  by (induction xs) (auto simp: apply_field_def known_tags_def)

lemma store_name_new:
  assumes "length name < LAGFX_METALLIB_NAME_SIZE"
  shows "store_name (name @ [0]) (replicate LAGFX_METALLIB_NAME_SIZE 0) = name @ replicate (LAGFX_METALLIB_NAME_SIZE - length name) 0"
proof -
  have "name_chars (name @ [0]) = name" using assms by (simp add: name_chars_def LAGFX_METALLIB_NAME_SIZE_def)
  then show ?thesis using assms
    by (simp add: store_name_def replicate_Suc[symmetric] Suc_diff_Suc flip: replicate_Suc)
qed

lemma fold_fields:
  assumes "valid_lib_function f"
  shows "fold (\<lambda>(t, d). apply_field t d) (lib_fields off f) entry_new =
     \<lparr>es_rec = \<lparr>ml_name = lf_name f @ replicate (LAGFX_METALLIB_NAME_SIZE - length (lf_name f)) 0,
         ml_stage = stage_of (lf_stage f), ml_stage_raw = lf_stage f, ml_bitcode = None, ml_bitcode_len = 0\<rparr>,
       es_offt = Some (of_nat off), es_mdsz = Some (of_nat (length (lf_code f)))\<rparr>"
proof -
  have n: "length (lf_name f) < LAGFX_METALLIB_NAME_SIZE" using assms by (simp add: valid_lib_function_def)
  have "le64_at (replicate 16 0 @ le_bytes64 (of_nat off)) 16 = of_nat off"
    using le64_bytes[of 16 "replicate 16 0" "of_nat off" "[]"] by (simp add: le64_at_def)
  then have o: "offt_value (replicate 16 0 @ le_bytes64 (of_nat off)) = of_nat off" by (simp add: offt_value_def)
  have m: "le64_at (le_bytes64 v) 0 = v" for v by (simp add: le64_at_def le_bytes_read)
  show ?thesis
    using assms o m store_name_new[OF n]
    by (simp add: lib_fields_def fold_extra valid_lib_function_def) (simp add: apply_field_def entry_new_def ascii_tags)
qed

lemma valid_lib_fields: "valid_lib_function f \<Longrightarrow> list_all valid_field (lib_fields off f)"
  by (auto simp: lib_fields_def valid_lib_function_def valid_field_def LAGFX_METALLIB_NAME_SIZE_def ascii_tags list_all_iff)

lemma metallib_entry_emit:
  assumes "valid_lib_function f" "buf = pre @ lib_entry off f @ post" "length buf < 2 ^ 32"
    and "unat base + off + length (lf_code f) \<le> length buf"
  shows "\<exists>r. metallib_entry buf base (length pre) = Some (Inr (r, length pre + length (lib_entry off f))) \<and>
     ml_name r = lf_name f @ replicate (LAGFX_METALLIB_NAME_SIZE - length (lf_name f)) 0 \<and>
     ml_stage_raw r = lf_stage f \<and> ml_stage r = stage_of (lf_stage f) \<and>
     ml_bitcode r = Some (unat base + off) \<and> ml_bitcode_len r = length (lf_code f)"
proof -
  let ?n = "4 + length (lib_body off f)"
  have len: "length (lib_entry off f) = ?n" "length pre + ?n \<le> length buf"
    using assms(2) by (simp_all add: lib_entry_def)
  have n: "unat (of_nat ?n :: u32) = ?n" using len assms(3) by (intro unat_of_nat_small) simp
  have b: "8 \<le> ?n" by (simp add: lib_body_def)
  have "rd_u32_le buf (length pre) = Some (of_nat ?n)" by (simp add: assms(2) lib_entry_def rd_le_eq)
  moreover have "field_loop buf (length pre + ?n) (length pre + 4) entry_new =
      Some (Inr (fold (\<lambda>(t, d). apply_field t d) (lib_fields off f) entry_new))"
    by (rule field_loop_fields[OF valid_lib_fields[OF assms(1)], where pre = "pre @ le_bytes32 (of_nat ?n)" and post = post])
       (use len(2) in \<open>simp_all add: assms(2) lib_entry_def lib_body_def entry_new_def\<close>)
  moreover have "unat (base + of_nat off) = unat base + off" "unat (of_nat (length (lf_code f)) :: u64) = length (lf_code f)"
  proof -
    have "off < 2 ^ 64" "unat base + off < 2 ^ 64" "length (lf_code f) < 2 ^ 64" using assms(3,4) by simp_all
    then show "unat (base + of_nat off) = unat base + off" "unat (of_nat (length (lf_code f)) :: u64) = length (lf_code f)"
      by (simp_all add: unat_of_nat_small unat_add_small)
  qed
  ultimately show ?thesis
    using n b len assms(4) unfolding metallib_entry_def fold_fields[OF assms(1)]
    by (simp add: Let_def resolve_bitcode_def) linarith
qed

lemma entry_loop_emit:
  assumes "list_all valid_lib_function fs" "length buf < 2 ^ 32"
    and "buf = pre @ lib_entries off fs @ mid @ concat (map lf_code fs)"
    and "unat base + off + length (concat (map lf_code fs)) = length buf"
  shows "\<exists>rs. entry_loop buf base (length fs) (length pre) = Some (Inr rs) \<and> list_all2 (decodes buf) fs rs"
  using assms
proof (induction fs arbitrary: pre off mid)
  case (Cons f fs)
  let ?post = "lib_entries (off + length (lf_code f)) fs @ mid @ concat (map lf_code (f # fs))"
  have v: "valid_lib_function f" "list_all valid_lib_function fs" using Cons.prems(1) by auto
  have buf: "buf = pre @ lib_entry off f @ ?post" using Cons.prems(3) by simp
  have fit: "unat base + off + length (lf_code f) \<le> length buf" using Cons.prems(4) by simp
  obtain r where r: "metallib_entry buf base (length pre) = Some (Inr (r, length pre + length (lib_entry off f)))"
    "ml_name r = lf_name f @ replicate (LAGFX_METALLIB_NAME_SIZE - length (lf_name f)) 0"
    "ml_stage_raw r = lf_stage f" "ml_stage r = stage_of (lf_stage f)"
    "ml_bitcode r = Some (unat base + off)" "ml_bitcode_len r = length (lf_code f)"
    using metallib_entry_emit[OF v(1) buf Cons.prems(2) fit] by blast
  have "take (length (lf_code f)) (drop (unat base + off) buf) = lf_code f"
  proof -
    have "length (pre @ lib_entries off (f # fs) @ mid) = unat base + off"
      using Cons.prems(3,4) by simp
    moreover have "buf = (pre @ lib_entries off (f # fs) @ mid) @ lf_code f @ concat (map lf_code fs)"
      using Cons.prems(3) by simp
    ultimately show ?thesis by (metis append_eq_conv_conj)
  qed
  then have d: "decodes buf f r" using r fit by (simp add: decodes_def)
  have "\<exists>rs. entry_loop buf base (length fs) (length (pre @ lib_entry off f)) = Some (Inr rs) \<and> list_all2 (decodes buf) fs rs"
    by (rule Cons.IH[OF v(2) Cons.prems(2), where mid = "mid @ lf_code f" and off = "off + length (lf_code f)"])
       (use Cons.prems(3,4) in simp_all)
  then show ?case using r(1) d by auto
qed simp

lemma extract_emit:
  assumes "list_all valid_lib_function fs" "length (lib_bytes fs) < 2 ^ 32" "length fs \<le> kMaxEntries"
    and "concat (map lf_code fs) \<noteq> []"
  shows "\<exists>rs. lagfx_metallib_extract_functions (lib_bytes fs) cap = Some (Inr (take cap rs, length fs)) \<and>
     list_all2 (decodes (lib_bytes fs)) fs rs"
proof -
  let ?buf = "lib_bytes fs" and ?base = "0x54 + length (lib_entries 0 fs)" and ?code = "concat (map lf_code fs)"
  let ?h = "ascii ''MTLB'' @ replicate 20 0" and ?t = "le_bytes32 (of_nat (length fs)) @ lib_entries 0 fs @ ?code"
  let ?g = "?h @ le_bytes64 0x50 @ replicate 0x28 0" and ?b = "le_bytes64 (of_nat ?base)"
  have b1: "?buf = ?h @ le_bytes64 0x50 @ replicate 0x28 0 @ ?b @ ?t" and b2: "?buf = ?g @ ?b @ ?t"
    and b3: "?buf = (?g @ ?b) @ le_bytes32 (of_nat (length fs)) @ lib_entries 0 fs @ ?code"
    and b4: "?buf = ((?g @ ?b) @ le_bytes32 (of_nat (length fs))) @ lib_entries 0 fs @ [] @ ?code"
    by (simp_all add: lib_bytes_def)
  have len: "length ?buf = ?base + length ?code" by (simp add: lib_bytes_def)
  have lt: "?base < length ?buf" using len assms(4) by (cases ?code) simp_all
  have ub: "unat (of_nat ?base :: u64) = ?base" by (rule unat_of_nat_small) (use lt assms(2) in simp)
  have magic: "lagfx_metallib_has_magic ?buf = Some True"
    using len tag_eq_in[of 0 "ascii ''MTLB''" ?buf] by (simp add: lagfx_metallib_has_magic_def) (simp add: lib_bytes_def)
  have fet: "rd_u64_le ?buf 0x18 = Some 0x50" unfolding b1 rd_le_eq by (rule le64_bytes) simp
  have "rd_u64_le ?buf 0x48 = Some (of_nat ?base)" unfolding b2 rd_le_eq by (rule le64_bytes) simp
  then have base: "bitcode_base ?buf = Some (of_nat ?base)"
    using len lt ub by (simp add: bitcode_base_def)
  have cnt: "rd_u32_le ?buf 0x50 = Some (of_nat (length fs))" unfolding b3 rd_le_eq by (rule le32_bytes) simp
  have uc: "unat (of_nat (length fs) :: u32) = length fs"
    by (rule unat_of_nat_small) (use assms(3) in \<open>simp add: kMaxEntries_def\<close>)
  obtain rs where rs: "entry_loop ?buf (of_nat ?base) (length fs) 0x54 = Some (Inr rs)" "list_all2 (decodes ?buf) fs rs"
    using entry_loop_emit[OF assms(1,2) b4, of "of_nat ?base"] ub len by auto
  have "unat (0x50 :: u64) = 0x50" by simp
  then have "lagfx_metallib_extract_functions ?buf cap = Some (Inr (take cap rs, length fs))"
    using len magic fet base cnt uc rs(1) assms(3) list_all2_lengthD[OF rs(2)]
    by (simp add: lagfx_metallib_extract_functions_def)
  then show ?thesis using rs(2) by blast
qed

end
