(* ===== verification/Retarget.thy ===== *)
theory Retarget
  imports Metallib
begin

text \<open>
  The target-triple rewriter \<^verbatim>\<open>src/air2spirv/bitcode_retarget.c\<close>: it finds the Apple triples in
  a bitcode blob and replaces them with the SPIR-V triple, in place when every triple is long
  enough and by copying otherwise.  Reads of the input are checked, and so are the stores into
  the working copy and the output.  The theory shows that both ways compute the same kind of
  textual substitution, within the buffers the code allocates, and that no triple is left.
\<close>

unbundle bit_operations_syntax

subsection \<open>Finding triples\<close>

definition kLlvmBitcodeWrapperMagic :: bytes where
  "kLlvmBitcodeWrapperMagic = [0xDE, 0xC0, 0x17, 0x0B]"

definition kAirPrefix :: bytes where "kAirPrefix = ascii ''air64''"
definition kAppleInfix :: bytes where "kAppleInfix = ascii ''apple-macosx''"
definition LAGFX_BITCODE_SPIRV_TRIPLE :: bytes where
  "LAGFX_BITCODE_SPIRV_TRIPLE = ascii ''spir64-unknown-vulkan1.3''"

definition is_triple_tail_char :: "u8 \<Rightarrow> bool" where
  "is_triple_tail_char c \<longleftrightarrow> 0x30 \<le> c \<and> c \<le> 0x39 \<or> c = 0x2E"

definition is_gap_char :: "u8 \<Rightarrow> bool" where
  "is_gap_char c \<longleftrightarrow> 0x61 \<le> c \<and> c \<le> 0x7A \<or> 0x30 \<le> c \<and> c \<le> 0x39 \<or> c = 0x2D \<or> c = 0x5F"

definition lagfx_bitcode_has_magic :: "bytes \<Rightarrow> bool option" where
  "lagfx_bitcode_has_magic buf = (if length buf < 4 then Some False else tag_eq buf 0 kLlvmBitcodeWrapperMagic)"

fun gap_ok :: "bytes \<Rightarrow> nat \<Rightarrow> nat \<Rightarrow> bool option" where
  "gap_ok buf p 0 = Some True"
| "gap_ok buf p (Suc n) = do { c \<leftarrow> rd8 buf p; if is_gap_char c then gap_ok buf (p + 1) n else Some False }"

text \<open>The length of the gap behind the prefix at \<open>i\<close>, tried from \<open>g\<close> on.\<close>

function gap_loop :: "bytes \<Rightarrow> nat \<Rightarrow> nat \<Rightarrow> nat option option" where
  "gap_loop buf i g =
     (if g \<le> 8 then
        if length buf < i + 5 + g + 12 then Some None
        else do {
          ok \<leftarrow> gap_ok buf (i + 5) g;
          if \<not> ok then Some None
          else do {
            hit \<leftarrow> tag_eq buf (i + 5 + g) kAppleInfix;
            if hit then Some (Some g) else gap_loop buf i (g + 1) }}
      else Some None)"
  by pat_completeness auto
termination
  by (relation "measure (\<lambda>(_, _, g). 9 - g)") auto

function tail_loop :: "bytes \<Rightarrow> nat \<Rightarrow> nat \<Rightarrow> nat option" where
  "tail_loop buf post tail =
     (if post + tail < length buf then do {
        c \<leftarrow> rd8 buf (post + tail);
        if is_triple_tail_char c then tail_loop buf post (tail + 1) else Some tail }
      else Some tail)"
  by pat_completeness auto
termination
  by (relation "measure (\<lambda>(buf, post, tail). length buf - (post + tail))") auto

function triple_loop :: "bytes \<Rightarrow> nat \<Rightarrow> (nat \<times> nat) option option" where
  "triple_loop buf i =
     (if i + 18 \<le> length buf then do {
        pre \<leftarrow> tag_eq buf i kAirPrefix;
        if \<not> pre then triple_loop buf (i + 1)
        else do {
          g \<leftarrow> gap_loop buf i 1;
          case g of
            None \<Rightarrow> triple_loop buf (i + 1)
          | Some gap \<Rightarrow> do {
              let post = i + 5 + gap + 12;
              tail \<leftarrow> tail_loop buf post 0;
              Some (Some (i, post + tail)) }}}
      else Some None)"
  by pat_completeness auto
termination
  by (relation "measure (\<lambda>(buf, i). length buf - i)") auto

declare gap_loop.simps [simp del] tail_loop.simps [simp del] triple_loop.simps [simp del]

definition find_next_air_triple :: "bytes \<Rightarrow> nat \<Rightarrow> (nat \<times> nat) option option" where
  "find_next_air_triple buf start = (if length buf < 18 then Some None else triple_loop buf start)"

subsection \<open>What the search finds\<close>

text \<open>The reference: the length of the triple at the head of a list, if there is one.\<close>

definition gap_at :: "bytes \<Rightarrow> nat \<Rightarrow> bool" where
  "gap_at xs g \<longleftrightarrow> list_all is_gap_char (take g (drop 5 xs)) \<and> take 12 (drop (5 + g) xs) = kAppleInfix"

definition span_of :: "bytes \<Rightarrow> nat option" where
  "span_of xs =
     (if take 5 xs = kAirPrefix then
        map_option (\<lambda>g. 17 + g + length (takeWhile is_triple_tail_char (drop (17 + g) xs))) (find (gap_at xs) [1..<9])
      else None)"

lemma lengths [simp]: "length kAirPrefix = 5" "length kAppleInfix = 12" "length LAGFX_BITCODE_SPIRV_TRIPLE = 24"
  by (simp_all add: kAirPrefix_def kAppleInfix_def LAGFX_BITCODE_SPIRV_TRIPLE_def)

lemma gap_ok_eq: "p + n \<le> length buf \<Longrightarrow> gap_ok buf p n = Some (list_all is_gap_char (take n (drop p buf)))"
proof (induction n arbitrary: p)
  case (Suc n)
  then have "drop p buf = buf ! p # drop (p + 1) buf" by (simp add: Cons_nth_drop_Suc)
  then show ?case using Suc by simp
qed simp

lemma gap_at_fits: "gap_at xs g \<Longrightarrow> 17 + g \<le> length xs"
proof -
  assume "gap_at xs g"
  then have "length (take 12 (drop (5 + g) xs)) = 12" by (simp add: gap_at_def)
  then show ?thesis by simp
qed

lemma gap_loop_eq: "gap_loop buf i g = Some (find (gap_at (drop i buf)) [g..<9])"
proof (induction "9 - g" arbitrary: g rule: less_induct)
  case less
  show ?case
  proof (cases "g \<le> 8")
    case True
    then have u: "[g..<9] = g # [g + 1..<9]" by (simp add: upt_conv_Cons)
    show ?thesis
    proof (cases "length buf < i + 5 + g + 12")
      case short: True
      have "\<not> gap_at (drop i buf) k" if "g \<le> k" for k using gap_at_fits[of "drop i buf" k] short that by auto
      then have "find (gap_at (drop i buf)) [g..<9] = None" by (simp add: find_None_iff)
      then show ?thesis using True short by (subst gap_loop.simps) simp
    next
      case False
      have ok: "gap_ok buf (i + 5) g = Some (list_all is_gap_char (take g (drop 5 (drop i buf))))"
        using False gap_ok_eq[of "i + 5" g buf] by (simp add: add.commute)
      have hit: "tag_eq buf (i + 5 + g) kAppleInfix = Some (take 12 (drop (5 + g) (drop i buf)) = kAppleInfix)"
        using False tag_eq_in[of "i + 5 + g" kAppleInfix buf] by (simp add: ac_simps)
      show ?thesis
      proof (cases "list_all is_gap_char (take g (drop 5 (drop i buf)))")
        case good: True
        then show ?thesis using True False ok hit less.hyps[of "g + 1"] u
          by (subst gap_loop.simps) (simp add: gap_at_def)
      next
        case bad: False
        have "\<not> gap_at (drop i buf) k" if "g \<le> k" for k
        proof
          assume "gap_at (drop i buf) k"
          then have "list_all is_gap_char (take k (drop 5 (drop i buf)))" by (simp add: gap_at_def)
          then have "list_all is_gap_char (take g (take k (drop 5 (drop i buf))))"
            by (meson in_set_takeD list_all_iff)
          with that bad show False by (simp add: min_absorb1)
        qed
        then have "find (gap_at (drop i buf)) [g..<9] = None" by (simp add: find_None_iff)
        then show ?thesis using True False ok bad by (subst gap_loop.simps) simp
      qed
    qed
  next
    case False
    then show ?thesis by (subst gap_loop.simps) simp
  qed
qed

lemma tail_loop_eq: "tail_loop buf post t = Some (t + length (takeWhile is_triple_tail_char (drop (post + t) buf)))"
proof (induction "length buf - (post + t)" arbitrary: t rule: less_induct)
  case less
  show ?case
  proof (cases "post + t < length buf")
    case True
    then have "drop (post + t) buf = buf ! (post + t) # drop (post + (t + 1)) buf" by (simp add: Cons_nth_drop_Suc)
    then show ?thesis using True less.hyps[of "t + 1"] by (subst tail_loop.simps) simp
  next
    case False
    then show ?thesis by (subst tail_loop.simps) simp
  qed
qed

text \<open>The distance to the first triple and its length.\<close>

fun first_span :: "bytes \<Rightarrow> (nat \<times> nat) option" where
  "first_span [] = None"
| "first_span (x # xs) = (case span_of (x # xs) of Some n \<Rightarrow> Some (0, n) | None \<Rightarrow> map_option (apfst Suc) (first_span xs))"

lemma span_of_bounds: "span_of xs = Some n \<Longrightarrow> 18 \<le> n \<and> n \<le> length xs"
proof -
  assume "span_of xs = Some n"
  then obtain g where g: "find (gap_at xs) [1..<9] = Some g" "n = 17 + g + length (takeWhile is_triple_tail_char (drop (17 + g) xs))"
    by (auto simp: span_of_def split: if_splits)
  from g(1) have "gap_at xs g" "1 \<le> g" by (auto simp: find_Some_iff)
  moreover have "length (takeWhile is_triple_tail_char (drop (17 + g) xs)) \<le> length (drop (17 + g) xs)" by (rule length_takeWhile_le)
  ultimately show ?thesis using g(2) gap_at_fits[of xs g] by simp
qed

lemma first_span_short: "length xs < 18 \<Longrightarrow> first_span xs = None"
proof (induction xs)
  case (Cons x xs)
  then have "span_of (x # xs) = None" using span_of_bounds[of "x # xs"] by (cases "span_of (x # xs)") auto
  then show ?case using Cons by simp
qed simp

lemma triple_loop_eq: "triple_loop buf i = Some (map_option (\<lambda>(k, n). (i + k, i + k + n)) (first_span (drop i buf)))"
proof (induction "length buf - i" arbitrary: i rule: less_induct)
  case less
  show ?case
  proof (cases "i + 18 \<le> length buf")
    case True
    have d: "drop i buf = buf ! i # drop (i + 1) buf" using True by (simp add: Cons_nth_drop_Suc)
    have pre: "tag_eq buf i kAirPrefix = Some (take 5 (drop i buf) = kAirPrefix)"
      using True tag_eq_in[of i kAirPrefix buf] by simp
    have tl: "tail_loop buf (i + 5 + g + 12) 0 = Some (length (takeWhile is_triple_tail_char (drop (17 + g) (drop i buf))))" for g
      using tail_loop_eq[of buf "i + 5 + g + 12" 0] by (simp add: ac_simps)
    have ih: "triple_loop buf (i + 1) = Some (map_option (\<lambda>(k, n). (i + k, i + k + n)) (map_option (apfst Suc) (first_span (drop (i + 1) buf))))"
      using less.hyps[of "i + 1"] True by (simp add: option.map_comp o_def case_prod_unfold)
    have fs: "first_span (drop i buf) = (case span_of (drop i buf) of Some n \<Rightarrow> Some (0, n) | None \<Rightarrow> map_option (apfst Suc) (first_span (drop (i + 1) buf)))"
      by (subst d, subst first_span.simps(2)) (simp add: d)
    show ?thesis
    proof (cases "take 5 (drop i buf) = kAirPrefix")
      case p: True
      show ?thesis
      proof (cases "find (gap_at (drop i buf)) [1..<9]")
        case None
        then have "span_of (drop i buf) = None" by (simp add: span_of_def)
        then show ?thesis using True p pre None ih gap_loop_eq[of buf i 1] unfolding fs by (subst triple_loop.simps) simp
      next
        case (Some g)
        then have "span_of (drop i buf) = Some (17 + g + length (takeWhile is_triple_tail_char (drop (17 + g) (drop i buf))))"
          using p by (simp add: span_of_def)
        then show ?thesis using True p pre Some tl[of g] gap_loop_eq[of buf i 1] unfolding fs
          by (subst triple_loop.simps) (simp add: Let_def)
      qed
    next
      case np: False
      then have "span_of (drop i buf) = None" by (simp add: span_of_def)
      then show ?thesis using True np pre ih unfolding fs by (subst triple_loop.simps) simp
    qed
  next
    case False
    then show ?thesis using first_span_short[of "drop i buf"] by (subst triple_loop.simps) simp
  qed
qed

lemma find_next_eq: "find_next_air_triple buf i = Some (map_option (\<lambda>(k, n). (i + k, i + k + n)) (first_span (drop i buf)))"
  using first_span_short[of "drop i buf"] by (simp add: find_next_air_triple_def triple_loop_eq)

lemma first_span_bounds: "first_span xs = Some (k, n) \<Longrightarrow> 18 \<le> n \<and> k + n \<le> length xs"
proof (induction xs arbitrary: k)
  case (Cons x xs)
  show ?case
  proof (cases "span_of (x # xs)")
    case None
    then obtain k' where "first_span xs = Some (k', n)" "k = Suc k'" using Cons.prems by (auto simp: apfst_def map_prod_def)
    then show ?thesis using Cons.IH[of k'] by simp
  next
    case (Some m)
    then show ?thesis using Cons.prems span_of_bounds[OF Some] by simp
  qed
qed simp

lemma find_next_progress [intro]:
  "find_next_air_triple buf pos = Some (Some (b, e)) \<Longrightarrow> pos \<le> b \<and> b + 18 \<le> e \<and> e \<le> length buf"
  using first_span_bounds[of "drop pos buf"] by (cases "pos \<le> length buf") (auto simp: find_next_eq)

subsection \<open>Rewriting\<close>

text \<open>First pass: was a triple found, and is every one long enough for the replacement?\<close>

function scan_pass :: "bytes \<Rightarrow> nat \<Rightarrow> bool \<Rightarrow> bool \<Rightarrow> (bool \<times> bool) option" where
  "scan_pass buf pos found_any tier1_ok = do {
     r \<leftarrow> find_next_air_triple buf pos;
     case r of
       None \<Rightarrow> Some (found_any, tier1_ok)
     | Some (b_pos, e_pos) \<Rightarrow> scan_pass buf e_pos True (if e_pos - b_pos < 24 then False else tier1_ok) }"
  by pat_completeness auto
termination
  by (relation "measure (\<lambda>(buf, pos, _). length buf - pos)") (auto dest!: find_next_progress)

text \<open>Tier 1, on a copy of the input.\<close>

definition overwrite_triple :: "bytes \<Rightarrow> nat \<Rightarrow> nat \<Rightarrow> bytes option" where
  "overwrite_triple copy b_pos span = do {
     c \<leftarrow> wr_list copy b_pos LAGFX_BITCODE_SPIRV_TRIPLE;
     if 24 < span then wr_list c (b_pos + 24) (replicate (span - 24) 0) else Some c }"

lemma wr_list_length: "wr_list b off vs = Some b' \<Longrightarrow> length b' = length b"
  by (induction vs arbitrary: b off) (auto simp: wr8_def bind_eq_Some_conv split: if_splits)

lemma overwrite_length [dest]: "overwrite_triple c b n = Some c' \<Longrightarrow> length c' = length c"
  by (auto simp: overwrite_triple_def bind_eq_Some_conv dest!: wr_list_length split: if_splits)

function inplace_loop :: "bytes \<Rightarrow> nat \<Rightarrow> bytes option" where
  "inplace_loop copy pos = do {
     r \<leftarrow> find_next_air_triple copy pos;
     case r of
       None \<Rightarrow> Some copy
     | Some (b_pos, e_pos) \<Rightarrow> do { c \<leftarrow> overwrite_triple copy b_pos (e_pos - b_pos); inplace_loop c e_pos } }"
  by pat_completeness auto
termination
  by (relation "measure (\<lambda>(buf, pos). length buf - pos)") (auto dest!: find_next_progress)

text \<open>Tier 2: the growth, then the copy into an output of the computed size.\<close>

function delta_pass :: "bytes \<Rightarrow> nat \<Rightarrow> nat \<Rightarrow> nat option" where
  "delta_pass buf pos delta = do {
     r \<leftarrow> find_next_air_triple buf pos;
     case r of
       None \<Rightarrow> Some delta
     | Some (b_pos, e_pos) \<Rightarrow>
         delta_pass buf e_pos (if e_pos - b_pos < 24 then delta + (24 - (e_pos - b_pos)) else delta) }"
  by pat_completeness auto
termination
  by (relation "measure (\<lambda>(buf, pos, _). length buf - pos)") (auto dest!: find_next_progress)

definition append_to :: "nat \<Rightarrow> bytes \<Rightarrow> bytes \<Rightarrow> bytes option" where
  "append_to new_len dst ws = (if length dst + length ws \<le> new_len then Some (dst @ ws) else None)"

function splice_loop :: "bytes \<Rightarrow> nat \<Rightarrow> nat \<Rightarrow> nat \<Rightarrow> bytes \<Rightarrow> (nat \<times> bytes) option" where
  "splice_loop buf new_len pos src_pos dst = do {
     r \<leftarrow> find_next_air_triple buf pos;
     case r of
       None \<Rightarrow> Some (src_pos, dst)
     | Some (b_pos, e_pos) \<Rightarrow> do {
         pre \<leftarrow> rd_list buf src_pos (b_pos - src_pos);
         d1 \<leftarrow> append_to new_len dst pre;
         d2 \<leftarrow> append_to new_len d1 LAGFX_BITCODE_SPIRV_TRIPLE;
         splice_loop buf new_len e_pos e_pos d2 } }"
  by pat_completeness auto
termination
  by (relation "measure (\<lambda>(buf, _, pos, _, _). length buf - pos)") (auto dest!: find_next_progress)

declare scan_pass.simps [simp del] inplace_loop.simps [simp del] delta_pass.simps [simp del] splice_loop.simps [simp del]

definition splice_tail :: "bytes \<Rightarrow> nat \<Rightarrow> nat \<times> bytes \<Rightarrow> bytes option" where
  "splice_tail buf new_len = (\<lambda>(src_pos, dst).
     if src_pos < length buf then do {
       tail \<leftarrow> rd_list buf src_pos (length buf - src_pos);
       append_to new_len dst tail }
     else Some dst)"

definition lagfx_bitcode_retarget_to_spirv :: "bytes \<Rightarrow> (lagfx_status + bytes) option" where
  "lagfx_bitcode_retarget_to_spirv in_buf = do {
     magic \<leftarrow> lagfx_bitcode_has_magic in_buf;
     if \<not> magic then Some (Inl LAGFX_ERR_INVALID_ARG)
     else do {
       (found_any, tier1_ok) \<leftarrow> scan_pass in_buf 0 False True;
       if \<not> found_any then Some (Inl LAGFX_ERR_PROTOCOL)
       else if tier1_ok then map_option Inr (inplace_loop in_buf 0)
       else do {
         delta \<leftarrow> delta_pass in_buf 0 0;
         let new_len = length in_buf + delta;
         sd \<leftarrow> splice_loop in_buf new_len 0 0 [];
         map_option Inr (splice_tail in_buf new_len sd) }}}"

subsection \<open>The substitution\<close>

text \<open>Every triple, from left to right, replaced by what \<open>f\<close> gives for its length.\<close>

function subst_spans :: "(nat \<Rightarrow> bytes) \<Rightarrow> bytes \<Rightarrow> bytes" where
  "subst_spans f xs = (case first_span xs of None \<Rightarrow> xs | Some (k, n) \<Rightarrow> take k xs @ f n @ subst_spans f (drop (k + n) xs))"
  by pat_completeness auto
termination
  by (relation "measure (\<lambda>(_, xs). length xs)") (auto dest!: first_span_bounds)

function spans :: "bytes \<Rightarrow> nat list" where
  "spans xs = (case first_span xs of None \<Rightarrow> [] | Some (k, n) \<Rightarrow> n # spans (drop (k + n) xs))"
  by pat_completeness auto
termination
  by (relation "measure length") (auto dest!: first_span_bounds)

declare subst_spans.simps [simp del] spans.simps [simp del]

definition replace_span :: "nat \<Rightarrow> bytes" where
  "replace_span n = LAGFX_BITCODE_SPIRV_TRIPLE"

definition pad_span :: "nat \<Rightarrow> bytes" where
  "pad_span n = LAGFX_BITCODE_SPIRV_TRIPLE @ replicate (n - 24) 0"

lemma spans_induct:
  assumes "\<And>xs. first_span xs = None \<Longrightarrow> P xs"
    and "\<And>xs k n. first_span xs = Some (k, n) \<Longrightarrow> k + n \<le> length xs \<Longrightarrow> 18 \<le> n \<Longrightarrow> P (drop (k + n) xs) \<Longrightarrow> P xs"
  shows "P (xs :: bytes)"
proof (induction "length xs" arbitrary: xs rule: less_induct)
  case less
  show ?case
  proof (cases "first_span xs")
    case (Some kn)
    obtain k n where kn: "first_span xs = Some (k, n)" using Some by (cases kn) simp
    note b = first_span_bounds[OF kn]
    have "P (drop (k + n) xs)" by (rule less.hyps) (use b in auto)
    then show ?thesis using assms(2)[OF kn] b by simp
  qed (rule assms(1))
qed

lemma spans_simps:
  "first_span xs = None \<Longrightarrow> spans xs = []" "first_span xs = Some (k, n) \<Longrightarrow> spans xs = n # spans (drop (k + n) xs)"
  by (subst spans.simps, simp)+

lemma subst_simps:
  "first_span xs = None \<Longrightarrow> subst_spans f xs = xs"
  "first_span xs = Some (k, n) \<Longrightarrow> subst_spans f xs = take k xs @ f n @ subst_spans f (drop (k + n) xs)"
  by (subst subst_spans.simps, simp)+

text \<open>The loops run from \<open>length ys\<close> in \<open>ys @ zs\<close> and depend on \<open>zs\<close> only.\<close>

lemma find_next_append:
  "find_next_air_triple (ys @ zs) (length ys) =
     Some (map_option (\<lambda>(k, n). (length ys + k, length ys + k + n)) (first_span zs))"
  by (simp add: find_next_eq)

lemma scan_pass_eq:
  "scan_pass (ys @ zs) (length ys) found ok =
     Some (found \<or> spans zs \<noteq> [], ok \<and> list_all (\<lambda>n. 24 \<le> n) (spans zs))"
proof (induction zs arbitrary: ys found ok rule: spans_induct)
  case (1 xs)
  then show ?case by (subst scan_pass.simps) (simp add: find_next_append spans_simps)
next
  case (2 xs k n)
  have "scan_pass (ys @ xs) (length ys + (k + n)) True ok' = Some (True, ok' \<and> list_all (\<lambda>n. 24 \<le> n) (spans (drop (k + n) xs)))" for ok'
    using 2(4)[of "ys @ take (k + n) xs" True ok'] 2(2) by simp
  then show ?case using 2(1) by (subst scan_pass.simps) (simp add: find_next_append spans_simps add.assoc)
qed

lemma delta_pass_eq:
  "delta_pass (ys @ zs) (length ys) d = Some (d + sum_list (map (\<lambda>n. 24 - n) (spans zs)))"
proof (induction zs arbitrary: ys d rule: spans_induct)
  case (1 xs)
  then show ?case by (subst delta_pass.simps) (simp add: find_next_append spans_simps)
next
  case (2 xs k n)
  have "delta_pass (ys @ xs) (length ys + (k + n)) d' = Some (d' + sum_list (map (\<lambda>n. 24 - n) (spans (drop (k + n) xs))))" for d'
    using 2(4)[of "ys @ take (k + n) xs" d'] 2(2) by simp
  then show ?case using 2(1) by (subst delta_pass.simps) (simp add: find_next_append spans_simps add.assoc)
qed

lemma length_pad_span [simp]: "length (pad_span n) = max 24 n"
  by (simp add: pad_span_def max_def)

lemma overwrite_triple_eq:
  assumes "24 \<le> n" "length xs = n"
  shows "overwrite_triple (as @ xs @ bs) (length as) n = Some (as @ pad_span n @ bs)"
  using assms by (cases "24 < n") (simp_all add: overwrite_triple_def pad_span_def wr_list_eq)

lemma inplace_loop_eq:
  "list_all (\<lambda>n. 24 \<le> n) (spans zs) \<Longrightarrow> inplace_loop (ys @ zs) (length ys) = Some (ys @ subst_spans pad_span zs)"
proof (induction zs arbitrary: ys rule: spans_induct)
  case (1 xs)
  then show ?case by (subst inplace_loop.simps) (simp add: find_next_append subst_simps)
next
  case (2 xs k n)
  have n: "24 \<le> n" "list_all (\<lambda>n. 24 \<le> n) (spans (drop (k + n) xs))" using 2(1,5) by (simp_all add: spans_simps)
  have d: "xs = take k xs @ take n (drop k xs) @ drop (k + n) xs" by (metis add.commute append_take_drop_id drop_drop)
  have l: "length (take n (drop k xs)) = n" "length (ys @ take k xs) = length ys + k" using 2(2) by auto
  have o: "overwrite_triple (ys @ xs) (length ys + k) n = Some ((ys @ take k xs) @ pad_span n @ drop (k + n) xs)"
    using overwrite_triple_eq[OF n(1) l(1), of "ys @ take k xs" "drop (k + n) xs"] d l(2) by simp
  have "inplace_loop ((ys @ take k xs) @ pad_span n @ drop (k + n) xs) (length ys + (k + n)) =
      Some ((ys @ take k xs @ pad_span n) @ subst_spans pad_span (drop (k + n) xs))"
    using 2(4)[OF n(2), of "ys @ take k xs @ pad_span n"] l(2) n(1) by simp
  then show ?case using 2(1) o by (subst inplace_loop.simps) (simp add: find_next_append subst_simps add.assoc)
qed

lemma subst_length: "length (subst_spans replace_span zs) \<le> length zs + sum_list (map (\<lambda>n. 24 - n) (spans zs))"
proof (induction zs rule: spans_induct)
  case (1 xs)
  then show ?case by (simp add: subst_simps)
next
  case (2 xs k n)
  then show ?case by (simp add: subst_simps spans_simps replace_span_def)
qed

lemma splice_loop_eq:
  assumes "length dst + length (subst_spans replace_span zs) \<le> new_len"
  shows "\<exists>sd. splice_loop (ys @ zs) new_len (length ys) (length ys) dst = Some sd \<and>
     splice_tail (ys @ zs) new_len sd = Some (dst @ subst_spans replace_span zs)"
  using assms
proof (induction zs arbitrary: ys dst rule: spans_induct)
  case (1 xs)
  then show ?case
    by (subst splice_loop.simps) (auto simp: find_next_append subst_simps splice_tail_def rd_list_in append_to_def)
next
  case (2 xs k n)
  note s = subst_simps(2)[OF 2(1), of replace_span]
  have r: "rd_list (ys @ xs) (length ys) k = Some (take k xs)" using 2(2) by (simp add: rd_list_in)
  have "length (dst @ take k xs @ LAGFX_BITCODE_SPIRV_TRIPLE) + length (subst_spans replace_span (drop (k + n) xs)) \<le> new_len"
    using 2(5) unfolding s by (simp add: replace_span_def)
  from 2(4)[OF this, of "ys @ take (k + n) xs"] obtain sd where
    sd: "splice_loop (ys @ xs) new_len (length ys + (k + n)) (length ys + (k + n)) (dst @ take k xs @ LAGFX_BITCODE_SPIRV_TRIPLE) = Some sd"
      "splice_tail (ys @ xs) new_len sd = Some ((dst @ take k xs @ LAGFX_BITCODE_SPIRV_TRIPLE) @ subst_spans replace_span (drop (k + n) xs))"
    using 2(2) by auto
  have "append_to new_len dst (take k xs) = Some (dst @ take k xs)"
    "append_to new_len (dst @ take k xs) LAGFX_BITCODE_SPIRV_TRIPLE = Some (dst @ take k xs @ LAGFX_BITCODE_SPIRV_TRIPLE)"
    using 2(5) unfolding s by (simp_all add: append_to_def replace_span_def)
  then show ?case using 2(1) sd r by (subst splice_loop.simps) (simp add: find_next_append s replace_span_def add.assoc)
qed

text \<open>The contract of the rewriter, on every input.\<close>

definition has_wrapper :: "bytes \<Rightarrow> bool" where
  "has_wrapper buf \<longleftrightarrow> take 4 buf = kLlvmBitcodeWrapperMagic"

lemma has_magic_eq: "lagfx_bitcode_has_magic buf = Some (has_wrapper buf)"
proof (cases "length buf < 4")
  case True
  then have "length (take 4 buf) \<noteq> length kLlvmBitcodeWrapperMagic" by (simp add: kLlvmBitcodeWrapperMagic_def)
  then show ?thesis using True by (auto simp: lagfx_bitcode_has_magic_def has_wrapper_def)
next
  case False
  moreover have "length kLlvmBitcodeWrapperMagic = 4" by (simp add: kLlvmBitcodeWrapperMagic_def)
  ultimately show ?thesis using tag_eq_in[of 0 kLlvmBitcodeWrapperMagic buf]
    by (simp add: lagfx_bitcode_has_magic_def has_wrapper_def)
qed

lemma retarget_eq:
  "lagfx_bitcode_retarget_to_spirv buf = Some (
     if \<not> has_wrapper buf then Inl LAGFX_ERR_INVALID_ARG
     else if spans buf = [] then Inl LAGFX_ERR_PROTOCOL
     else if list_all (\<lambda>n. 24 \<le> n) (spans buf) then Inr (subst_spans pad_span buf)
     else Inr (subst_spans replace_span buf))"
proof -
  note sc = scan_pass_eq[of "[]" buf False True] and dl = delta_pass_eq[of "[]" buf 0]
  obtain sd where "splice_loop buf (length buf + sum_list (map (\<lambda>n. 24 - n) (spans buf))) 0 0 [] = Some sd"
      "splice_tail buf (length buf + sum_list (map (\<lambda>n. 24 - n) (spans buf))) sd = Some (subst_spans replace_span buf)"
    using splice_loop_eq[of "[]" buf "length buf + sum_list (map (\<lambda>n. 24 - n) (spans buf))" "[]"] subst_length[of buf] by auto
  then show ?thesis using sc dl inplace_loop_eq[of buf "[]"]
    by (simp add: lagfx_bitcode_retarget_to_spirv_def has_magic_eq Let_def)
qed

subsection \<open>No triple is left\<close>

text \<open>A replacement starts with \<^const>\<open>LAGFX_BITCODE_SPIRV_TRIPLE\<close>, which cannot lie inside a triple.\<close>

definition triple_core :: "nat \<Rightarrow> bytes \<Rightarrow> bool" where
  "triple_core g xs \<longleftrightarrow> take 5 xs = kAirPrefix \<and> gap_at xs g"

lemma span_of_None_iff: "span_of xs = None \<longleftrightarrow> (\<forall>g \<in> {1..8}. \<not> triple_core g xs)"
  by (auto simp: span_of_def triple_core_def find_None_iff)

lemma core_nth:
  assumes "triple_core g xs"
  shows "i < 5 \<Longrightarrow> xs ! i = kAirPrefix ! i" "i < 12 \<Longrightarrow> xs ! (5 + g + i) = kAppleInfix ! i"
proof -
  assume "i < 5"
  then have "xs ! i = take 5 xs ! i" by simp
  then show "xs ! i = kAirPrefix ! i" using assms by (simp add: triple_core_def)
next
  assume "i < 12"
  have "17 + g \<le> length xs" using assms gap_at_fits by (auto simp: triple_core_def)
  then have "xs ! (5 + g + i) = take 12 (drop (5 + g) xs) ! i" using \<open>i < 12\<close> by simp
  then show "xs ! (5 + g + i) = kAppleInfix ! i" using assms by (simp add: triple_core_def gap_at_def)
qed

text \<open>The comparisons of characters that rule out every overlap.\<close>

lemma overlap_checks:
  "list_all (\<lambda>i. kAirPrefix ! i \<noteq> LAGFX_BITCODE_SPIRV_TRIPLE ! 0) [0..<5]"
  "list_all (\<lambda>i. take 12 (drop i LAGFX_BITCODE_SPIRV_TRIPLE) \<noteq> kAppleInfix) [0..<9]"
  "list_all (\<lambda>i. kAppleInfix ! i = LAGFX_BITCODE_SPIRV_TRIPLE ! 0 \<longrightarrow> i < 11 \<and> kAppleInfix ! (i + 1) \<noteq> LAGFX_BITCODE_SPIRV_TRIPLE ! 1) [0..<12]"
  "list_all (\<lambda>i. LAGFX_BITCODE_SPIRV_TRIPLE ! i = kAirPrefix ! 0 \<longrightarrow> i < 23 \<and> LAGFX_BITCODE_SPIRV_TRIPLE ! (i + 1) \<noteq> kAirPrefix ! 1) [0..<24]"
  "kAirPrefix ! 0 \<noteq> 0"
  by code_simp+

lemma core_before:
  assumes "triple_core g (p @ LAGFX_BITCODE_SPIRV_TRIPLE @ q)" "1 \<le> g" "g \<le> 8"
  shows "17 + g \<le> length p"
proof (rule ccontr)
  let ?R = LAGFX_BITCODE_SPIRV_TRIPLE and ?xs = "p @ LAGFX_BITCODE_SPIRV_TRIPLE @ q" and ?k = "length p"
  assume n: "\<not> 17 + g \<le> ?k"
  have at: "?xs ! (?k + i) = ?R ! i" if "i < 24" for i using that by (simp add: nth_append)
  note c = core_nth[OF assms(1)]
  consider "?k < 5" | "5 \<le> ?k" "?k < 5 + g" | "5 + g \<le> ?k" by linarith
  then show False
  proof cases
    case 1
    then show False using c(1)[of ?k] at[of 0] overlap_checks(1) by (auto simp: list_all_iff)
  next
    case 2
    define off where "off = 5 + g - ?k"
    have "?R ! (off + i) = kAppleInfix ! i" if "i < 12" for i
      using c(2)[OF that] at[of "off + i"] that 2 assms(3) by (simp add: off_def)
    then have "take 12 (drop off ?R) = kAppleInfix"
      using 2 assms(3) by (intro nth_equalityI) (auto simp: off_def)
    moreover have "off < 9" using 2 assms(3) by (simp add: off_def)
    ultimately show False using overlap_checks(2) by (auto simp: list_all_iff)
  next
    case 3
    define j where "j = ?k - (5 + g)"
    have j: "j < 12" "5 + g + j = ?k" using n 3 by (auto simp: j_def)
    have "kAppleInfix ! j = ?R ! 0" using c(2)[OF j(1)] at[of 0] j(2) by simp
    then have l: "j < 11" "kAppleInfix ! (j + 1) \<noteq> ?R ! 1" using overlap_checks(3) j(1) by (auto simp: list_all_iff)
    have "kAppleInfix ! (j + 1) = ?xs ! (?k + 1)" using c(2)[of "j + 1"] l(1) j(2) by simp
    then show False using at[of 1] l(2) by simp
  qed
qed

lemma core_within:
  assumes "i < 24"
  shows "\<not> triple_core g (drop i LAGFX_BITCODE_SPIRV_TRIPLE @ q)"
proof
  let ?R = LAGFX_BITCODE_SPIRV_TRIPLE
  assume "triple_core g (drop i ?R @ q)"
  note c = core_nth(1)[OF this]
  have "?R ! i = kAirPrefix ! 0" using c[of 0] assms by (simp add: nth_append)
  then have l: "i < 23" "?R ! (i + 1) \<noteq> kAirPrefix ! 1" using overlap_checks(4) assms by (auto simp: list_all_iff)
  have "(drop i ?R @ q) ! 1 = ?R ! (i + 1)" using l(1) nth_append[of "drop i ?R" q 1] less_diff_conv[of 1 24 i] by simp
  then show False using c[of 1] l(2) by simp
qed

lemma core_take: "triple_core g (take (17 + g) xs) = triple_core g xs"
  by (simp add: triple_core_def gap_at_def drop_take min_def)

lemma first_span_None_iff: "first_span xs = None \<longleftrightarrow> (\<forall>i < length xs. span_of (drop i xs) = None)"
proof (induction xs)
  case (Cons x xs)
  have "(\<forall>i < length (x # xs). span_of (drop i (x # xs)) = None) \<longleftrightarrow>
      span_of (x # xs) = None \<and> (\<forall>i < length xs. span_of (drop i xs) = None)"
    by (simp add: All_less_Suc2)
  then show ?case using Cons.IH by (auto split: option.split)
qed simp

lemma first_span_first: "first_span xs = Some (k, n) \<Longrightarrow> i < k \<Longrightarrow> span_of (drop i xs) = None"
proof (induction xs arbitrary: k i)
  case (Cons x xs)
  show ?case
  proof (cases "span_of (x # xs)")
    case None
    then obtain k' where k': "first_span xs = Some (k', n)" "k = Suc k'" using Cons.prems(1) by (auto simp: apfst_def map_prod_def)
    then show ?thesis using Cons.IH[of k' "i - 1"] None Cons.prems(2) by (cases i) auto
  qed (use Cons.prems in auto)
qed simp

lemma first_span_at: "first_span xs = Some (k, n) \<Longrightarrow> span_of (drop k xs) = Some n"
  by (induction xs arbitrary: k) (auto simp: apfst_def map_prod_def split: option.splits)

lemma splice_clean:
  assumes "first_span xs = Some (k, n)" "first_span rest = None"
  shows "first_span (take k xs @ (LAGFX_BITCODE_SPIRV_TRIPLE @ replicate m 0) @ rest) = None"
  unfolding first_span_None_iff span_of_None_iff
proof (intro allI impI ballI notI)
  let ?R = LAGFX_BITCODE_SPIRV_TRIPLE and ?p = "take k xs"
  let ?o = "?p @ (?R @ replicate m 0) @ rest"
  fix i g assume i: "i < length ?o" and g: "g \<in> {1..8}" and c: "triple_core g (drop i ?o)"
  have k: "length ?p = k" using first_span_bounds[OF assms(1)] by simp
  consider "i < k" | "k \<le> i" "i < k + 24" | "k + 24 \<le> i" "i < k + 24 + m" | "k + 24 + m \<le> i" by linarith
  then show False
  proof cases
    case 1
    have d: "drop i ?o = drop i ?p @ ?R @ (replicate m 0 @ rest)" using 1 k by simp
    have f: "17 + g \<le> length (drop i ?p)" by (rule core_before[of g _ "replicate m 0 @ rest"]) (use c d g in auto)
    have "take (17 + g) (drop i ?o) = take (17 + g) (drop i ?p)" using f unfolding d by simp
    also have "\<dots> = take (17 + g) (drop i xs)" using f by (simp add: drop_take min_absorb1)
    finally have "triple_core g (drop i xs)" using c core_take by metis
    then show False using first_span_first[OF assms(1) 1] g by (auto simp: span_of_None_iff)
  next
    case 2
    then have "drop i ?o = drop (i - k) ?R @ replicate m 0 @ rest" using k by simp
    then show False using c 2 core_within[of "i - k" g "replicate m 0 @ rest"] by simp
  next
    case 3
    then have "drop i ?o = replicate (m - (i - k - 24)) 0 @ rest" using k by simp
    then have "drop i ?o ! 0 = 0" using 3 by (simp add: nth_append)
    then show False using core_nth(1)[OF c, of 0] overlap_checks(5) by simp
  next
    case 4
    then have "drop i ?o = drop (i - k - 24 - m) rest" using k by simp
    moreover have "i - k - 24 - m < length rest" using i k 4 by simp
    ultimately show False using assms(2) c g unfolding first_span_None_iff span_of_None_iff by metis
  qed
qed

lemma subst_clean:
  assumes "\<And>n. \<exists>m. f n = LAGFX_BITCODE_SPIRV_TRIPLE @ replicate m 0"
  shows "first_span (subst_spans f xs) = None"
proof (induction xs rule: spans_induct)
  case (2 xs k n)
  obtain m where "f n = LAGFX_BITCODE_SPIRV_TRIPLE @ replicate m 0" using assms by blast
  then show ?case using splice_clean[OF 2(1,4), of m] by (simp only: subst_simps(2)[OF 2(1)])
qed (simp add: subst_simps)

lemma retarget_clean:
  assumes "lagfx_bitcode_retarget_to_spirv buf = Some (Inr out)"
  shows "spans out = []"
proof -
  have "first_span (subst_spans pad_span buf) = None" "first_span (subst_spans replace_span buf) = None"
    by (rule subst_clean, auto simp: pad_span_def replace_span_def intro: exI[of _ 0])+
  then show ?thesis using assms by (auto simp: retarget_eq spans_simps split: if_splits)
qed

lemma pad_length: "list_all (\<lambda>n. 24 \<le> n) (spans xs) \<Longrightarrow> length (subst_spans pad_span xs) = length xs"
proof (induction xs rule: spans_induct)
  case (2 xs k n)
  then show ?case by (simp add: subst_simps spans_simps)
qed (simp add: subst_simps)

text \<open>The wrapper magic survives, so the result is a bitcode module again.\<close>

lemma subst_keeps_magic:
  assumes "has_wrapper xs"
  shows "has_wrapper (subst_spans f xs)"
proof (cases "first_span xs")
  case (Some kn)
  obtain k n where kn: "first_span xs = Some (k, n)" using Some by (cases kn) simp
  have m: "xs ! i = kLlvmBitcodeWrapperMagic ! i" if "i < 4" for i
    using assms that nth_take[of i 4 xs] by (simp add: has_wrapper_def)
  have "\<not> triple_core g (drop i xs)" if i: "i < 4" for i g
  proof
    assume "triple_core g (drop i xs)"
    then have "drop i xs ! 0 = kAirPrefix ! 0" by (rule core_nth) simp
    moreover have "i < length xs" using assms i by (auto simp: has_wrapper_def kLlvmBitcodeWrapperMagic_def dest!: arg_cong[of _ _ length])
    ultimately have "kLlvmBitcodeWrapperMagic ! i = kAirPrefix ! 0" using m[OF i] by simp
    moreover have "list_all (\<lambda>i. kLlvmBitcodeWrapperMagic ! i \<noteq> kAirPrefix ! 0) [0..<4]" by code_simp
    ultimately show False using i by (auto simp: list_all_iff)
  qed
  moreover have "span_of (drop k xs) \<noteq> None" by (simp add: first_span_at[OF kn])
  ultimately have "4 \<le> k" unfolding span_of_None_iff by (meson not_le)
  then have "take 4 (subst_spans f xs) = take 4 xs"
    using first_span_bounds[OF kn] by (simp add: subst_simps(2)[OF kn] min_def)
  then show ?thesis using assms by (simp add: has_wrapper_def)
qed (simp add: subst_simps assms)

lemma retarget_again:
  assumes "lagfx_bitcode_retarget_to_spirv buf = Some (Inr out)"
  shows "lagfx_bitcode_retarget_to_spirv out = Some (Inl LAGFX_ERR_PROTOCOL)"
proof -
  have "has_wrapper out" using assms by (auto simp: retarget_eq intro: subst_keeps_magic split: if_splits)
  then show ?thesis using retarget_clean[OF assms] by (simp add: retarget_eq[of out])
qed

subsection \<open>The documented form of a triple\<close>

text \<open>The form the comments describe: \<^verbatim>\<open>air64\<close>, a gap of one to eight characters out of
  \<^verbatim>\<open>[-_a-z0-9]\<close> with a hyphen at its end, \<^verbatim>\<open>apple-macosx\<close>, and a version suffix out of
  \<^verbatim>\<open>[0-9v.]\<close>.  The code neither asks for the hyphen nor takes a \<^verbatim>\<open>v\<close> into the suffix, so the
  two agree on a blob whose matches are regular in both respects.\<close>

definition gap_class :: bytes where "gap_class = ascii ''-_abcdefghijklmnopqrstuvwxyz0123456789''"
definition suffix_class :: bytes where "suffix_class = ascii ''0123456789v.''"

definition documented_triple :: "bytes \<Rightarrow> nat \<Rightarrow> bool" where
  "documented_triple xs n \<longleftrightarrow> (\<exists>g \<in> {1..8}. take 5 xs = ascii ''air64'' \<and> set (take g (drop 5 xs)) \<subseteq> set gap_class \<and>
     take 13 (drop (4 + g) xs) = ascii ''-apple-macosx'' \<and> n = 17 + g + length (takeWhile (\<lambda>c. c \<in> set suffix_class) (drop (17 + g) xs)))"

definition regular_match :: "bytes \<Rightarrow> bool" where
  "regular_match xs \<longleftrightarrow> take 5 xs \<noteq> kAirPrefix \<or>
     (case find (gap_at xs) [1..<9] of
        None \<Rightarrow> True
      | Some g \<Rightarrow> xs ! (4 + g) = 0x2D \<and>
          (case dropWhile is_triple_tail_char (drop (17 + g) xs) of [] \<Rightarrow> True | c # _ \<Rightarrow> c \<noteq> 0x76))"

definition regular_triples :: "bytes \<Rightarrow> bool" where
  "regular_triples buf \<longleftrightarrow> list_all (\<lambda>i. regular_match (drop i buf)) [0..<length buf]"

lemma u8_all: "(\<forall>c :: u8. P c) \<longleftrightarrow> list_all P (map word_of_int [0..255])"
proof
  assume l: "list_all P (map word_of_int [0..255])"
  show "\<forall>c. P c"
  proof
    fix c :: u8
    have "uint c \<in> set [0..255]" using uint_lt2p[of c] by simp
    then have "word_of_int (uint c) \<in> set (map word_of_int [0..255] :: u8 list)" unfolding set_map by (rule imageI)
    then show "P c" using l by (simp only: list_all_iff word_of_int_uint)
  qed
qed (simp add: list_all_iff)

lemma class_chars: "is_gap_char c \<longleftrightarrow> c \<in> set gap_class" "c \<in> set suffix_class \<longleftrightarrow> is_triple_tail_char c \<or> c = 0x76"
proof -
  have "\<forall>c. is_gap_char c \<longleftrightarrow> c \<in> set gap_class" "\<forall>c. c \<in> set suffix_class \<longleftrightarrow> is_triple_tail_char c \<or> c = 0x76"
    unfolding u8_all by code_simp+
  then show "is_gap_char c \<longleftrightarrow> c \<in> set gap_class" "c \<in> set suffix_class \<longleftrightarrow> is_triple_tail_char c \<or> c = 0x76" by blast+
qed

lemma takeWhile_wider:
  assumes "\<And>x. P x \<Longrightarrow> Q x" "case dropWhile P xs of [] \<Rightarrow> True | c # _ \<Rightarrow> \<not> Q c"
  shows "takeWhile Q xs = takeWhile P xs"
  using assms(2) by (induction xs) (auto simp: assms(1) split: if_splits)

lemma dropWhile_next:
  "(case dropWhile P xs of [] \<Rightarrow> True | c # _ \<Rightarrow> c \<noteq> d) \<Longrightarrow> (case dropWhile P xs of [] \<Rightarrow> True | c # _ \<Rightarrow> \<not> (P c \<or> c = d))"
  by (induction xs) auto

lemma hyphen_infix:
  assumes "1 \<le> g" "take 12 (drop (5 + g) xs) = kAppleInfix"
  shows "take 13 (drop (4 + g) xs) = ascii ''-apple-macosx'' \<longleftrightarrow> xs ! (4 + g) = 0x2D"
proof -
  have "length (take 12 (drop (5 + g) xs)) = 12" using assms(2) by simp
  then have "4 + g < length xs" by simp
  then have "drop (4 + g) xs = xs ! (4 + g) # drop (5 + g) xs" using Cons_nth_drop_Suc[of "4 + g" xs] by simp
  then have "take 13 (drop (4 + g) xs) = xs ! (4 + g) # kAppleInfix" using assms(2) by simp
  moreover have "ascii ''-apple-macosx'' = 0x2D # kAppleInfix" by (simp add: ascii_def kAppleInfix_def)
  ultimately show ?thesis by simp
qed

lemma regular_documented:
  assumes "regular_match xs"
  shows "case span_of xs of None \<Rightarrow> \<forall>n. \<not> documented_triple xs n | Some n \<Rightarrow> documented_triple xs n"
proof (cases "span_of xs")
  case None
  have "gap_at xs g" if "g \<in> {1..8}" "set (take g (drop 5 xs)) \<subseteq> set gap_class" "take 13 (drop (4 + g) xs) = ascii ''-apple-macosx''" for g
  proof -
    have "drop 1 (take 13 (drop (4 + g) xs)) = kAppleInfix" unfolding that(3) by (simp add: ascii_def kAppleInfix_def)
    then have "take 12 (drop (5 + g) xs) = kAppleInfix" by (simp add: drop_take)
    then show ?thesis using that(2) by (auto simp: gap_at_def list_all_iff class_chars)
  qed
  then show ?thesis using None by (fastforce simp: documented_triple_def span_of_def find_None_iff kAirPrefix_def split: if_splits)
next
  case (Some n)
  then obtain g where g: "take 5 xs = kAirPrefix" "find (gap_at xs) [1..<9] = Some g"
      "n = 17 + g + length (takeWhile is_triple_tail_char (drop (17 + g) xs))"
    by (auto simp: span_of_def split: if_splits)
  have r: "xs ! (4 + g) = 0x2D" "case dropWhile is_triple_tail_char (drop (17 + g) xs) of [] \<Rightarrow> True | c # _ \<Rightarrow> c \<noteq> 0x76"
    using assms g(1,2) by (simp_all add: regular_match_def)
  have a: "gap_at xs g" "g \<in> {1..8}" using g(2) by (auto simp: find_Some_iff)
  have "case dropWhile is_triple_tail_char (drop (17 + g) xs) of [] \<Rightarrow> True | c # _ \<Rightarrow> \<not> c \<in> set suffix_class"
    using r(2) unfolding class_chars by (rule dropWhile_next)
  then have "takeWhile (\<lambda>c. c \<in> set suffix_class) (drop (17 + g) xs) = takeWhile is_triple_tail_char (drop (17 + g) xs)"
    by (intro takeWhile_wider) (auto simp: class_chars)
  then show ?thesis using Some g a hyphen_infix[of g xs] r(1)
    by (auto simp: documented_triple_def gap_at_def list_all_iff class_chars kAirPrefix_def)
qed

lemma regular_spans:
  "regular_triples buf \<Longrightarrow> i < length buf \<Longrightarrow>
   case span_of (drop i buf) of None \<Rightarrow> \<forall>n. \<not> documented_triple (drop i buf) n | Some n \<Rightarrow> documented_triple (drop i buf) n"
  by (rule regular_documented) (simp add: regular_triples_def list_all_iff)

end
