(* ===== verification/ShaderCache.thy ===== *)
theory ShaderCache
  imports Prelude "HOL-Library.Multiset"
begin

text \<open>
  The cache of translated shaders, \<^verbatim>\<open>src/air2spirv/shader_cache.c\<close>, with the key function of
  hosts without a cryptographic library.  A buffer of SPIR-V bytes is its address; the
  operations return the addresses they pass to \<^verbatim>\<open>free\<close>.  The theory shows that the table with
  its counters implements a list of keys and values in the order of their last use, that
  every buffer handed to the cache is freed exactly once, and that keys do not separate
  the library from the function name.
\<close>

unbundle bit_operations_syntax

subsection \<open>Keys\<close>

type_synonym sha256_ctx = "u64 list"

definition sha256_init :: sha256_ctx where
  "sha256_init = [0xcbf29ce484222325, 0xcbf29ce484222324, 0xcbf29ce484222326, 0xcbf29ce484222323]"

definition sha256_step :: "sha256_ctx \<Rightarrow> u8 \<Rightarrow> sha256_ctx" where
  "sha256_step h c =
     [(h ! 0 XOR ucast c) * 0x100000001b3, (h ! 1 XOR (ucast c + 1)) * 0x100000001b3,
      (h ! 2 XOR (ucast c + 2)) * 0x100000001b3, (h ! 3 XOR (ucast c + 3)) * 0x100000001b3]"

definition sha256_update :: "sha256_ctx \<Rightarrow> bytes \<Rightarrow> sha256_ctx" where
  "sha256_update h data = foldl sha256_step h data"

definition sha256_final :: "sha256_ctx \<Rightarrow> bytes" where
  "sha256_final h =
     concat (map (\<lambda>k. map (\<lambda>b. ucast (drop_bit (56 - 8 * b) (h ! k) AND 0xff)) [0..<8]) [0..<4])"

datatype lagfx_shader_stage = LAGFX_SHADER_STAGE_VERTEX | LAGFX_SHADER_STAGE_FRAGMENT | LAGFX_SHADER_STAGE_COMPUTE

fun stage_byte :: "lagfx_shader_stage \<Rightarrow> u8" where
  "stage_byte LAGFX_SHADER_STAGE_VERTEX = 0"
| "stage_byte LAGFX_SHADER_STAGE_FRAGMENT = 4"
| "stage_byte LAGFX_SHADER_STAGE_COMPUTE = 3"

text \<open>A C string as an array of bytes: it ends before the first zero.\<close>

definition c_str :: "bytes \<Rightarrow> bytes" where
  "c_str s = takeWhile (\<lambda>c. c \<noteq> 0) s"

definition make_key :: "bytes \<Rightarrow> bytes \<Rightarrow> lagfx_shader_stage \<Rightarrow> bytes" where
  "make_key metallib_data function_name stage =
     sha256_final (sha256_update (sha256_update (sha256_update sha256_init metallib_data) (c_str function_name))
       [stage_byte stage])"

subsection \<open>The table\<close>

record lagfx_shader_translation =
  spv_bytes :: nat
  spv_len :: nat
  spv_stage :: lagfx_shader_stage

record cache_entry =
  ce_key :: bytes
  ce_value :: lagfx_shader_translation
  ce_lru :: u64
  ce_used :: bool

record lagfx_shader_cache =
  max_entries :: nat
  sc_count :: nat
  sc_entries :: "cache_entry list"
  next_lru :: u64
  sc_hits :: u64
  sc_misses :: u64
  sc_evictions :: u64

text \<open>The index is returned as an \<^verbatim>\<open>int\<close>.\<close>

definition find_entry :: "lagfx_shader_cache \<Rightarrow> bytes \<Rightarrow> int" where
  "find_entry cache key =
     (case find_index (\<lambda>e. ce_key e = key) (take (sc_count cache) (sc_entries cache)) of
        Some i \<Rightarrow> sint (of_nat i :: 32 word)
      | None \<Rightarrow> - 1)"

fun lru_loop :: "cache_entry list \<Rightarrow> nat \<Rightarrow> nat \<Rightarrow> u64 \<Rightarrow> nat" where
  "lru_loop [] i idx min_lru = idx"
| "lru_loop (e # es) i idx min_lru =
     (if ce_lru e < min_lru then lru_loop es (i + 1) i (ce_lru e) else lru_loop es (i + 1) idx min_lru)"

definition find_lru_entry :: "lagfx_shader_cache \<Rightarrow> nat" where
  "find_lru_entry cache =
     lru_loop (drop 1 (take (sc_count cache) (sc_entries cache))) 1 0 (ce_lru (sc_entries cache ! 0))"

definition zero_entry :: cache_entry where
  "zero_entry = \<lparr>ce_key = replicate 32 0,
     ce_value = \<lparr>spv_bytes = 0, spv_len = 0, spv_stage = LAGFX_SHADER_STAGE_VERTEX\<rparr>, ce_lru = 0, ce_used = False\<rparr>"

definition lagfx_shader_cache_new :: "nat \<Rightarrow> lagfx_shader_cache" where
  "lagfx_shader_cache_new n =
     (let m = (if n = 0 then 64 else n) in
      \<lparr>max_entries = m, sc_count = 0, sc_entries = replicate m zero_entry, next_lru = 1,
       sc_hits = 0, sc_misses = 0, sc_evictions = 0\<rparr>)"

definition lagfx_shader_cache_get ::
    "bytes \<Rightarrow> bytes \<Rightarrow> lagfx_shader_stage \<Rightarrow> lagfx_shader_cache \<Rightarrow>
     (lagfx_status + lagfx_shader_translation) \<times> lagfx_shader_cache" where
  "lagfx_shader_cache_get data name stage cache =
     (let idx = find_entry cache (make_key data name stage) in
      if idx < 0 then (Inl LAGFX_ERR_NOT_FOUND, cache\<lparr>sc_misses := sc_misses cache + 1\<rparr>)
      else
        let i = nat idx; e = sc_entries cache ! i in
        (Inr (ce_value e),
         cache\<lparr>sc_hits := sc_hits cache + 1,
           sc_entries := (sc_entries cache)[i := e\<lparr>ce_used := True, ce_lru := next_lru cache\<rparr>],
           next_lru := next_lru cache + 1\<rparr>))"

text \<open>Filling a slot, the part the three branches of an insertion share.\<close>

definition fill_slot ::
    "nat \<Rightarrow> bytes \<Rightarrow> lagfx_shader_translation \<Rightarrow> lagfx_shader_cache \<Rightarrow> lagfx_shader_cache" where
  "fill_slot i key translation cache =
     cache\<lparr>sc_entries := (sc_entries cache)[i :=
         \<lparr>ce_key = key, ce_value = translation, ce_lru = next_lru cache, ce_used = True\<rparr>],
       next_lru := next_lru cache + 1\<rparr>"

definition lagfx_shader_cache_put ::
    "bytes \<Rightarrow> bytes \<Rightarrow> lagfx_shader_stage \<Rightarrow> lagfx_shader_translation \<Rightarrow> lagfx_shader_cache \<Rightarrow>
     lagfx_status \<times> nat list \<times> lagfx_shader_cache" where
  "lagfx_shader_cache_put data name stage translation cache =
     (if spv_bytes translation = 0 then (LAGFX_ERR_INVALID_ARG, [], cache)
      else
        let key = make_key data name stage; existing = find_entry cache key in
        if existing \<ge> 0 then
          let i = nat existing in
          (LAGFX_OK, [spv_bytes (ce_value (sc_entries cache ! i))], fill_slot i key translation cache)
        else if sc_count cache \<ge> max_entries cache then
          let i = find_lru_entry cache; c = fill_slot i key translation cache in
          (LAGFX_OK, [spv_bytes (ce_value (sc_entries cache ! i))], c\<lparr>sc_evictions := sc_evictions c + 1\<rparr>)
        else
          let c = fill_slot (sc_count cache) key translation cache in
          (LAGFX_OK, [], c\<lparr>sc_count := sc_count c + 1\<rparr>))"

text \<open>Closing frees the buffers of all entries.\<close>

definition lagfx_shader_cache_close :: "lagfx_shader_cache \<Rightarrow> nat list" where
  "lagfx_shader_cache_close cache = map (\<lambda>e. spv_bytes (ce_value e)) (take (sc_count cache) (sc_entries cache))"

record lagfx_shader_cache_statistics =
  st_entries :: nat
  st_hits :: u64
  st_misses :: u64
  st_evictions :: u64

definition lagfx_shader_cache_stats :: "lagfx_shader_cache \<Rightarrow> lagfx_shader_cache_statistics" where
  "lagfx_shader_cache_stats cache =
     \<lparr>st_entries = sc_count cache, st_hits = sc_hits cache, st_misses = sc_misses cache, st_evictions = sc_evictions cache\<rparr>"

subsection \<open>Well-formed caches\<close>

definition sc_live :: "lagfx_shader_cache \<Rightarrow> cache_entry list" where
  "sc_live c = take (sc_count c) (sc_entries c)"

definition wf_cache :: "lagfx_shader_cache \<Rightarrow> bool" where
  "wf_cache c \<longleftrightarrow> 0 < max_entries c \<and> max_entries c \<le> 2 ^ 31 \<and> sc_count c \<le> max_entries c \<and>
     length (sc_entries c) = max_entries c \<and> distinct (map ce_key (sc_live c)) \<and>
     inj_on ce_lru (set (sc_live c)) \<and> (\<forall>e \<in> set (sc_live c). ce_lru e < next_lru c)"

lemma wf_cache_new: "n \<le> 2 ^ 31 \<Longrightarrow> wf_cache (lagfx_shader_cache_new n)"
  by (auto simp: wf_cache_def lagfx_shader_cache_new_def Let_def sc_live_def)

lemma length_sc_live: "wf_cache c \<Longrightarrow> length (sc_live c) = sc_count c"
  by (simp add: wf_cache_def sc_live_def)

lemma live_nth: "i < sc_count c \<Longrightarrow> sc_live c ! i = sc_entries c ! i"
  by (simp add: sc_live_def)

lemma entry_live: "wf_cache c \<Longrightarrow> i < sc_count c \<Longrightarrow> sc_entries c ! i \<in> set (sc_live c)"
  using live_nth[of i c] length_sc_live[of c] nth_mem[of i "sc_live c"] by simp

lemma sint_of_nat_small: "i < 2 ^ 31 \<Longrightarrow> sint (of_nat i :: 32 word) = int i"
  by (simp add: sint_uint uint_nat unat_of_nat_small signed_take_bit_eq_if_positive bit_iff_odd take_bit_int_eq_self)

lemma find_entry_cases:
  assumes "wf_cache c"
  obtains "find_entry c k = - 1" "k \<notin> ce_key ` set (sc_live c)"
  | i where "find_entry c k = int i" "i < sc_count c" "ce_key (sc_entries c ! i) = k"
proof (cases "find_index (\<lambda>e. ce_key e = k) (sc_live c)")
  case None
  then have "find_entry c k = - 1" "k \<notin> ce_key ` set (sc_live c)"
    by (simp_all add: find_entry_def flip: sc_live_def) (auto simp: find_index_None_iff)
  then show ?thesis by (rule that(1))
next
  case (Some i)
  note i = find_index_SomeD[OF Some]
  have "i < 2 ^ 31" "i < sc_count c" using i(1) assms length_sc_live[OF assms] by (simp_all add: wf_cache_def)
  then show ?thesis using that(2)[of i] Some i by (simp add: find_entry_def sint_of_nat_small flip: sc_live_def) (simp add: live_nth)
qed

subsection \<open>Refinement to a recency list\<close>

text \<open>Keys and values, the most recently used first.\<close>

type_synonym recency = "(bytes \<times> lagfx_shader_translation) list"

definition lru_get :: "bytes \<Rightarrow> recency \<Rightarrow> lagfx_shader_translation option \<times> recency" where
  "lru_get k xs = (case map_of xs k of
     None \<Rightarrow> (None, xs)
   | Some v \<Rightarrow> (Some v, (k, v) # filter (\<lambda>x. fst x \<noteq> k) xs))"

definition lru_put :: "nat \<Rightarrow> bytes \<Rightarrow> lagfx_shader_translation \<Rightarrow> recency \<Rightarrow> recency" where
  "lru_put cap k v xs =
     (let ys = filter (\<lambda>x. fst x \<noteq> k) xs in (k, v) # (if cap \<le> length ys then butlast ys else ys))"

definition kv :: "cache_entry \<Rightarrow> bytes \<times> lagfx_shader_translation" where
  "kv e = (ce_key e, ce_value e)"

definition recency_of :: "cache_entry list \<Rightarrow> recency" where
  "recency_of es = map kv (rev (sort_key ce_lru es))"

definition cache_abs :: "lagfx_shader_cache \<Rightarrow> recency" where
  "cache_abs c = recency_of (sc_live c)"

lemma keys_removed:
  assumes "distinct (map ce_key es)" "x \<in> set es" "sorted_es = sort_key ce_lru es"
  shows "map kv (rev (remove1 x sorted_es)) = filter (\<lambda>p. fst p \<noteq> ce_key x) (map kv (rev sorted_es))"
proof -
  have d: "distinct sorted_es" "set sorted_es = set es" using assms(1,3) by (auto simp: distinct_map)
  have "(y \<noteq> x) = (ce_key y \<noteq> ce_key x)" if "y \<in> set es" for y
    using assms(1,2) that by (auto simp: distinct_map inj_on_def)
  then have "remove1 x sorted_es = filter (\<lambda>y. ce_key y \<noteq> ce_key x) sorted_es"
    using d by (auto simp: distinct_remove1_removeAll removeAll_filter_not_eq intro!: filter_cong)
  then show ?thesis by (simp add: rev_filter filter_map comp_def kv_def)
qed

lemma inj_newest:
  assumes "inj_on ce_lru (set es)" "\<forall>e \<in> set es. ce_lru e < n" "ce_lru e = n"
  shows "inj_on ce_lru (insert e (set es))"
proof -
  have "ce_lru e \<notin> ce_lru ` set es" using assms(2,3) by (metis (no_types, lifting) imageE less_irrefl)
  then show ?thesis using assms(1) by (simp add: inj_on_insert image_def)
qed

text \<open>An entry that becomes the most recent one moves to the front.\<close>

lemma sort_touch:
  assumes "inj_on ce_lru (set es)" "i < length es" "\<forall>e \<in> set es. ce_lru e < n" "ce_lru e = n"
  shows "sort_key ce_lru (es[i := e]) = remove1 (es ! i) (sort_key ce_lru es) @ [e]"
proof (rule sort_key_inj_key_eq)
  have m: "mset (remove1 (es ! i) (sort_key ce_lru es)) = mset es - {#es ! i#}" by simp
  show "mset (es[i := e]) = mset (remove1 (es ! i) (sort_key ce_lru es) @ [e])"
    using assms(2) m by (simp add: mset_update)
  show "sorted (map ce_lru (remove1 (es ! i) (sort_key ce_lru es) @ [e]))"
  proof -
    have "set (remove1 (es ! i) (sort_key ce_lru es)) \<subseteq> set es" using set_remove1_subset[of "es ! i" "sort_key ce_lru es"] by simp
    then have "\<forall>x \<in> set (remove1 (es ! i) (sort_key ce_lru es)). ce_lru x \<le> ce_lru e"
      using assms(3,4) less_imp_le by (metis subsetD)
    then show ?thesis by (simp add: sorted_append sorted_map_remove1)
  qed
  have "set (es[i := e]) \<subseteq> insert e (set es)" by (rule set_update_subset_insert)
  moreover have "inj_on ce_lru (insert e (set es))" by (rule inj_newest[OF assms(1,3,4)])
  ultimately show "inj_on ce_lru (set (es[i := e]))" by (metis inj_on_subset)
qed

lemma sort_insert:
  assumes "inj_on ce_lru (set es)" "\<forall>e \<in> set es. ce_lru e < n" "ce_lru e = n"
  shows "sort_key ce_lru (es @ [e]) = sort_key ce_lru es @ [e]"
proof (rule sort_key_inj_key_eq)
  have "\<forall>x \<in> set es. ce_lru x \<le> ce_lru e" using assms(2,3) less_imp_le by metis
  then show "sorted (map ce_lru (sort_key ce_lru es @ [e]))" by (simp add: sorted_append)
  have "inj_on ce_lru (insert e (set es))" by (rule inj_newest[OF assms])
  then show "inj_on ce_lru (set (es @ [e]))" by simp
qed simp

text \<open>The scan finds an entry with the least counter.\<close>

lemma lru_loop_min:
  assumes "idx < i" "i \<le> length es" "m = ce_lru (es ! idx)" "\<And>j. j < i \<Longrightarrow> m \<le> ce_lru (es ! j)"
  shows "lru_loop (drop i es) i idx m < length es \<and> (\<forall>j < length es. ce_lru (es ! lru_loop (drop i es) i idx m) \<le> ce_lru (es ! j))"
  using assms
proof (induction "length es - i" arbitrary: i idx m)
  case 0
  then show ?case by simp
next
  case (Suc n)
  have d: "drop i es = es ! i # drop (i + 1) es" using Suc(2) by (simp add: Cons_nth_drop_Suc)
  have n: "n = length es - (i + 1)" "i + 1 \<le> length es" using Suc(2) by simp_all
  show ?case
  proof (cases "ce_lru (es ! i) < m")
    case True
    have "lru_loop (drop i es) i idx m = lru_loop (drop (i + 1) es) (i + 1) i (ce_lru (es ! i))" using True by (simp add: d)
    moreover have "ce_lru (es ! i) \<le> ce_lru (es ! j)" if "j < i + 1" for j
      using Suc.prems(4)[of j] True that by (cases "j = i") auto
    ultimately show ?thesis using Suc.hyps(1)[OF n(1) _ n(2) refl, of i] by simp
  next
    case False
    have "lru_loop (drop i es) i idx m = lru_loop (drop (i + 1) es) (i + 1) idx m" using False by (simp add: d)
    moreover have "m \<le> ce_lru (es ! j)" if "j < i + 1" for j
      using Suc.prems(4)[of j] False that by (cases "j = i") auto
    ultimately show ?thesis using Suc.hyps(1)[OF n(1) _ n(2) Suc.prems(3)] Suc.prems(1) by simp
  qed
qed

lemma find_lru_min:
  assumes "wf_cache c" "0 < sc_count c"
  shows "find_lru_entry c < sc_count c" "\<forall>e \<in> set (sc_live c). ce_lru (sc_live c ! find_lru_entry c) \<le> ce_lru e"
proof -
  have l: "length (sc_live c) = sc_count c" by (rule length_sc_live[OF assms(1)])
  have "find_lru_entry c = lru_loop (drop 1 (sc_live c)) 1 0 (ce_lru (sc_live c ! 0))"
    using assms(2) by (simp add: find_lru_entry_def live_nth flip: sc_live_def)
  then have f: "find_lru_entry c < length (sc_live c) \<and>
      (\<forall>j < length (sc_live c). ce_lru (sc_live c ! find_lru_entry c) \<le> ce_lru (sc_live c ! j))"
    using lru_loop_min[of 0 1 "sc_live c"] assms(2) l by auto
  then show "find_lru_entry c < sc_count c" using l by simp
  show "\<forall>e \<in> set (sc_live c). ce_lru (sc_live c ! find_lru_entry c) \<le> ce_lru e"
    using f by (auto simp: in_set_conv_nth)
qed

lemma sort_min_first:
  assumes "inj_on f (set es)" "x \<in> set es" "\<forall>e \<in> set es. f x \<le> f e"
  shows "\<exists>ys. sort_key f es = x # ys"
proof -
  have "sort_key f es \<noteq> []" using assms(2) set_sort[of f es] by (metis empty_iff empty_set)
  then obtain y ys where s: "sort_key f es = y # ys" by (cases "sort_key f es") auto
  have m: "y \<in> set es" "x \<in> set (y # ys)" using set_sort[of f es] assms(2) unfolding s by auto
  have "sorted (map f (y # ys))" using s by (metis sorted_sort_key)
  then have "f y \<le> f x" using m(2) by auto
  then have "x = y" using assms m(1) by (meson inj_onD order_antisym)
  then show ?thesis using s by blast
qed

lemma abs_keys: "distinct (map fst (cache_abs c)) = distinct (map ce_key (sc_live c))"
proof -
  have "map fst (cache_abs c) = rev (map ce_key (sort_key ce_lru (sc_live c)))"
    by (simp add: cache_abs_def recency_of_def kv_def rev_map comp_def)
  moreover have "distinct (map ce_key (sort_key ce_lru (sc_live c))) = distinct (map ce_key (sc_live c))"
    by (rule mset_eq_imp_distinct_iff) simp
  ultimately show ?thesis by simp
qed

lemma length_abs [simp]: "length (cache_abs c) = length (sc_live c)"
  by (simp add: cache_abs_def recency_of_def)

lemma abs_lookup:
  assumes "wf_cache c"
  shows "i < sc_count c \<Longrightarrow> map_of (cache_abs c) (ce_key (sc_entries c ! i)) = Some (ce_value (sc_entries c ! i))"
    and "map_of (cache_abs c) k = None \<longleftrightarrow> k \<notin> ce_key ` set (sc_live c)"
proof -
  have set: "set (cache_abs c) = kv ` set (sc_live c)" by (simp add: cache_abs_def recency_of_def)
  show "map_of (cache_abs c) k = None \<longleftrightarrow> k \<notin> ce_key ` set (sc_live c)"
    by (simp add: map_of_eq_None_iff set image_image kv_def)
  assume i: "i < sc_count c"
  have "sc_live c ! i \<in> set (sc_live c)" using i length_sc_live[OF assms] by simp
  then have "kv (sc_entries c ! i) \<in> set (cache_abs c)" using live_nth[OF i] set by (metis image_eqI)
  moreover have "distinct (map fst (cache_abs c))" using assms by (simp add: abs_keys wf_cache_def)
  ultimately show "map_of (cache_abs c) (ce_key (sc_entries c ! i)) = Some (ce_value (sc_entries c ! i))"
    by (simp add: kv_def)
qed

lemma lru_inc: "(n :: u64) \<noteq> - 1 \<Longrightarrow> m \<le> n \<Longrightarrow> m < n + 1"
  by (simp add: word_le_nat_alt word_less_nat_alt unat_inc)

text \<open>Writing an entry with a fresh counter into a live slot.\<close>

lemma touch:
  assumes "wf_cache c" "next_lru c \<noteq> - 1" "i < sc_count c" "ce_lru e = next_lru c"
    and "\<And>x. x \<in> set (sc_live c) \<Longrightarrow> x \<noteq> sc_entries c ! i \<Longrightarrow> ce_key x \<noteq> ce_key e"
    and c': "sc_entries c' = (sc_entries c)[i := e]" "next_lru c' = next_lru c + 1" "sc_count c' = sc_count c"
      "max_entries c' = max_entries c"
  shows "wf_cache c'" "cache_abs c' = kv e # filter (\<lambda>p. fst p \<noteq> ce_key (sc_entries c ! i)) (cache_abs c)"
    "sc_live c' = (sc_live c)[i := e]"
proof -
  let ?L = "sc_live c"
  have w: "distinct (map ce_key ?L)" "inj_on ce_lru (set ?L)" "\<forall>x \<in> set ?L. ce_lru x < next_lru c"
    using assms(1) by (auto simp: wf_cache_def)
  have i: "i < length ?L" "?L ! i = sc_entries c ! i" using assms(3) length_sc_live[OF assms(1)] live_nth by auto
  show L: "sc_live c' = ?L[i := e]" using assms(3) c' by (simp add: sc_live_def take_update_swap)
  have sub: "set (?L[i := e]) \<subseteq> insert e (set ?L)" by (rule set_update_subset_insert)
  have "distinct (map ce_key (?L[i := e]))"
  proof -
    have "ce_key e \<notin> ce_key ` (set ?L - {?L ! i})"
    proof
      assume "ce_key e \<in> ce_key ` (set ?L - {?L ! i})"
      then obtain x where "x \<in> set ?L" "x \<noteq> ?L ! i" "ce_key x = ce_key e" by (metis DiffE image_iff singletonI)
      then show False using assms(5)[of x] i(2) by simp
    qed
    moreover have "set (map ce_key ?L) - {ce_key (?L ! i)} \<subseteq> ce_key ` (set ?L - {?L ! i})" by auto
    ultimately have "ce_key e \<notin> set (map ce_key ?L) - {map ce_key ?L ! i}" using i(1) by (auto simp only: nth_map)
    then show ?thesis unfolding map_update by (rule distinct_list_update[OF w(1)])
  qed
  moreover have "inj_on ce_lru (set (?L[i := e]))" using inj_newest[OF w(2,3) assms(4)] sub by (metis inj_on_subset)
  moreover have "\<forall>x \<in> set (?L[i := e]). ce_lru x < next_lru c + 1"
    using sub w(3) assms(4) lru_inc[OF assms(2)] by (metis (no_types, lifting) insertE less_imp_le order_refl subsetD)
  ultimately show "wf_cache c'" using assms(1) c' L by (simp add: wf_cache_def)
  have x: "?L ! i \<in> set ?L" using i(1) by simp
  show "cache_abs c' = kv e # filter (\<lambda>p. fst p \<noteq> ce_key (sc_entries c ! i)) (cache_abs c)"
    using sort_touch[OF w(2) i(1) w(3) assms(4)] keys_removed[OF w(1) x refl] i(2)
    by (simp add: cache_abs_def recency_of_def L)
qed

lemma get_refines:
  assumes "wf_cache c" "next_lru c \<noteq> - 1" "lagfx_shader_cache_get data name stage c = (r, c')"
  shows "wf_cache c'" "max_entries c' = max_entries c"
    "cache_abs c' = snd (lru_get (make_key data name stage) (cache_abs c))"
    "r = (case fst (lru_get (make_key data name stage) (cache_abs c)) of None \<Rightarrow> Inl LAGFX_ERR_NOT_FOUND | Some v \<Rightarrow> Inr v)"
    "lagfx_shader_cache_close c' = lagfx_shader_cache_close c"
    "next_lru c' = next_lru c \<or> next_lru c' = next_lru c + 1"
proof -
  let ?k = "make_key data name stage"
  have "wf_cache c' \<and> max_entries c' = max_entries c \<and> cache_abs c' = snd (lru_get ?k (cache_abs c)) \<and>
      r = (case fst (lru_get ?k (cache_abs c)) of None \<Rightarrow> Inl LAGFX_ERR_NOT_FOUND | Some v \<Rightarrow> Inr v) \<and>
      lagfx_shader_cache_close c' = lagfx_shader_cache_close c \<and> (next_lru c' = next_lru c \<or> next_lru c' = next_lru c + 1)"
  proof (cases rule: find_entry_cases[OF assms(1), of ?k])
    case 1
    have "c' = c\<lparr>sc_misses := sc_misses c + 1\<rparr>" "r = Inl LAGFX_ERR_NOT_FOUND"
      using assms(3) 1(1) by (auto simp: lagfx_shader_cache_get_def Let_def)
    moreover have "map_of (cache_abs c) ?k = None" using abs_lookup(2)[OF assms(1)] 1(2) by blast
    ultimately show ?thesis
      using assms(1) by (simp add: lru_get_def wf_cache_def cache_abs_def sc_live_def lagfx_shader_cache_close_def)
  next
    case (2 i)
    let ?e = "(sc_entries c ! i)\<lparr>ce_used := True, ce_lru := next_lru c\<rparr>"
    have r: "r = Inr (ce_value (sc_entries c ! i))"
      and c': "sc_entries c' = (sc_entries c)[i := ?e]" "next_lru c' = next_lru c + 1" "sc_count c' = sc_count c"
        "max_entries c' = max_entries c"
      using assms(3) 2(1) by (auto simp: lagfx_shader_cache_get_def Let_def)
    have other: "ce_key x \<noteq> ce_key ?e" if "x \<in> set (sc_live c)" "x \<noteq> sc_entries c ! i" for x
      using that entry_live[OF assms(1) 2(2)] assms(1) by (auto simp: wf_cache_def distinct_map inj_on_def)
    have e: "ce_lru ?e = next_lru c" by simp
    note t = touch[OF assms(1,2) 2(2) e other c']
    have "map_of (cache_abs c) ?k = Some (ce_value (sc_entries c ! i))" using abs_lookup(1)[OF assms(1) 2(2)] 2(3) by simp
    moreover have "lagfx_shader_cache_close c' = lagfx_shader_cache_close c"
    proof -
      have "i < length (sc_live c)" "sc_live c ! i = sc_entries c ! i" using 2(2) length_sc_live[OF assms(1)] live_nth[OF 2(2)] by simp_all
      then have "map (\<lambda>e. spv_bytes (ce_value e)) (sc_live c') = map (\<lambda>e. spv_bytes (ce_value e)) (sc_live c)"
        by (simp add: t(3) map_update list_update_same_conv)
      then show ?thesis by (simp add: lagfx_shader_cache_close_def sc_live_def)
    qed
    ultimately show ?thesis using t(1,2) r c'(2,4) 2(3) by (simp add: lru_get_def kv_def)
  qed
  then show "wf_cache c'" "max_entries c' = max_entries c"
    "cache_abs c' = snd (lru_get ?k (cache_abs c))"
    "r = (case fst (lru_get ?k (cache_abs c)) of None \<Rightarrow> Inl LAGFX_ERR_NOT_FOUND | Some v \<Rightarrow> Inr v)"
    "lagfx_shader_cache_close c' = lagfx_shader_cache_close c"
    "next_lru c' = next_lru c \<or> next_lru c' = next_lru c + 1" by auto
qed

lemma filter_fresh: "k \<notin> fst ` set xs \<Longrightarrow> filter (\<lambda>p. fst p \<noteq> k) xs = xs"
  by (rule filter_True) (metis image_eqI)

lemma evict_last:
  assumes "wf_cache c" "i < sc_count c" "\<forall>e \<in> set (sc_live c). ce_lru (sc_live c ! i) \<le> ce_lru e"
  shows "filter (\<lambda>p. fst p \<noteq> ce_key (sc_entries c ! i)) (cache_abs c) = butlast (cache_abs c)"
proof -
  let ?x = "sc_live c ! i"
  have w: "distinct (map ce_key (sc_live c))" "inj_on ce_lru (set (sc_live c))" using assms(1) by (auto simp: wf_cache_def)
  have x: "?x \<in> set (sc_live c)" "?x = sc_entries c ! i"
    using entry_live[OF assms(1,2)] live_nth[OF assms(2)] by simp_all
  obtain ys where ys: "sort_key ce_lru (sc_live c) = ?x # ys" using sort_min_first[OF w(2) x(1) assms(3)] by blast
  have "map kv (rev ys) = filter (\<lambda>p. fst p \<noteq> ce_key ?x) (cache_abs c)"
    using keys_removed[OF w(1) x(1) refl] by (simp add: ys cache_abs_def recency_of_def)
  moreover have "butlast (cache_abs c) = map kv (rev ys)" by (simp add: cache_abs_def recency_of_def ys butlast_append)
  ultimately show ?thesis using x(2) by simp
qed

lemma put_refines:
  assumes "wf_cache c" "next_lru c \<noteq> - 1" "spv_bytes v \<noteq> 0" "lagfx_shader_cache_put data name stage v c = (st, fr, c')"
  shows "st = LAGFX_OK \<and> wf_cache c' \<and> max_entries c' = max_entries c \<and> next_lru c' = next_lru c + 1 \<and>
    cache_abs c' = lru_put (max_entries c) (make_key data name stage) v (cache_abs c) \<and>
    mset (lagfx_shader_cache_close c') + mset fr = mset (lagfx_shader_cache_close c) + {#spv_bytes v#}"
proof -
  let ?k = "make_key data name stage" and ?p = "\<lambda>e. spv_bytes (ce_value e)"
  let ?e = "\<lparr>ce_key = ?k, ce_value = v, ce_lru = next_lru c, ce_used = True\<rparr>"
  have lru: "ce_lru ?e = next_lru c" by simp
  have len: "length (sc_live c) = sc_count c" by (rule length_sc_live[OF assms(1)])
  have w: "distinct (map ce_key (sc_live c))" "sc_count c \<le> max_entries c" "length (sc_entries c) = max_entries c" "0 < max_entries c"
    using assms(1) by (auto simp: wf_cache_def)
  have close: "lagfx_shader_cache_close d = map ?p (sc_live d)" for d by (simp add: lagfx_shader_cache_close_def sc_live_def)
  have own: "mset (map ?p ((sc_live c)[i := ?e])) + mset [?p (sc_entries c ! i)] = mset (map ?p (sc_live c)) + {#spv_bytes v#}"
    if "i < sc_count c" for i
  proof -
    have "mset ((map ?p (sc_live c))[i := spv_bytes v]) + {#map ?p (sc_live c) ! i#} = mset (map ?p (sc_live c)) + {#spv_bytes v#}"
      using that len by (simp add: mset_update)
    then show ?thesis using that len live_nth[OF that] by (simp add: map_update)
  qed
  show ?thesis
  proof (cases rule: find_entry_cases[OF assms(1), of ?k])
    case (2 i)
    have r: "st = LAGFX_OK" "fr = [?p (sc_entries c ! i)]" and c': "c' = fill_slot i ?k v c"
      using assms(3,4) 2(1) by (auto simp: lagfx_shader_cache_put_def Let_def)
    have f: "sc_entries c' = (sc_entries c)[i := ?e]" "next_lru c' = next_lru c + 1" "sc_count c' = sc_count c"
      "max_entries c' = max_entries c" by (simp_all add: c' fill_slot_def)
    have "ce_key x \<noteq> ce_key ?e" if "x \<in> set (sc_live c)" "x \<noteq> sc_entries c ! i" for x
      using that entry_live[OF assms(1) 2(2)] w(1) 2(3) by (auto simp: distinct_map inj_on_def)
    note t = touch[OF assms(1,2) 2(2) lru this f]
    have "length (filter (\<lambda>p. fst p \<noteq> ?k) (cache_abs c)) < max_entries c"
    proof -
      have "(?k, ce_value (sc_entries c ! i)) \<in> set (cache_abs c)"
        using map_of_SomeD[OF abs_lookup(1)[OF assms(1) 2(2)]] 2(3) by simp
      then have "length (filter (\<lambda>p. fst p \<noteq> ?k) (cache_abs c)) < length (cache_abs c)" by (intro length_filter_less) auto
      then show ?thesis using len w(2) by simp
    qed
    then have "lru_put (max_entries c) ?k v (cache_abs c) = (?k, v) # filter (\<lambda>p. fst p \<noteq> ?k) (cache_abs c)"
      by (simp add: lru_put_def Let_def)
    then show ?thesis using r t own[OF 2(2)] f(2,4) 2(3) by (simp add: close kv_def)
  next
    case 1
    have fresh: "filter (\<lambda>p. fst p \<noteq> ?k) (cache_abs c) = cache_abs c"
      by (rule filter_fresh) (use abs_lookup(2)[OF assms(1), of ?k] 1(2) in \<open>simp add: map_of_eq_None_iff\<close>)
    have other: "ce_key x \<noteq> ce_key ?e" if "x \<in> set (sc_live c)" for x using 1(2) that by (auto simp: image_iff)
    show ?thesis
    proof (cases "max_entries c \<le> sc_count c")
      case True
      let ?i = "find_lru_entry c"
      have cnt: "0 < sc_count c" using True w(4) by linarith
      note m = find_lru_min[OF assms(1) cnt]
      have r: "st = LAGFX_OK" "fr = [?p (sc_entries c ! ?i)]"
        and f: "sc_entries c' = (sc_entries c)[?i := ?e]" "next_lru c' = next_lru c + 1" "sc_count c' = sc_count c"
          "max_entries c' = max_entries c"
        using assms(3,4) 1(1) True by (auto simp: lagfx_shader_cache_put_def Let_def fill_slot_def)
      note t = touch[OF assms(1,2) m(1) lru other f]
      have "lru_put (max_entries c) ?k v (cache_abs c) = (?k, v) # butlast (cache_abs c)"
        using True len by (simp add: lru_put_def fresh)
      then show ?thesis using r t own[OF m(1)] f(2,4) evict_last[OF assms(1) m] by (simp add: close kv_def)
    next
      case False
      have r: "st = LAGFX_OK" "fr = []"
        and f: "sc_entries c' = (sc_entries c)[sc_count c := ?e]" "next_lru c' = next_lru c + 1" "sc_count c' = sc_count c + 1"
          "max_entries c' = max_entries c"
        using assms(3,4) 1(1) False by (auto simp: lagfx_shader_cache_put_def Let_def fill_slot_def)
      have L: "sc_live c' = sc_live c @ [?e]"
        using False w(3) f by (simp add: sc_live_def take_Suc_conv_app_nth)
      have i: "inj_on ce_lru (set (sc_live c))" "\<forall>x \<in> set (sc_live c). ce_lru x < next_lru c"
        using assms(1) by (auto simp: wf_cache_def)
      have "inj_on ce_lru (insert ?e (set (sc_live c)))" by (rule inj_newest[OF i lru])
      moreover have "\<forall>x \<in> set (sc_live c'). ce_lru x < next_lru c'"
        unfolding L f(2) using i(2) lru_inc[OF assms(2)] less_imp_le by auto
      moreover have "ce_key ?e \<notin> ce_key ` set (sc_live c)" using 1(2) by simp
      ultimately have "wf_cache c'" using assms(1) f False w(1) unfolding wf_cache_def L by simp
      moreover have "cache_abs c' = (?k, v) # cache_abs c"
        using sort_insert[OF i lru] by (simp add: cache_abs_def recency_of_def L kv_def)
      moreover have "lru_put (max_entries c) ?k v (cache_abs c) = (?k, v) # cache_abs c"
        using False len by (simp add: lru_put_def fresh)
      ultimately show ?thesis using r f(2,4) by (simp add: close L)
    qed
  qed
qed

end
