(* ===== verification/SpvBuilder.thy ===== *)
theory SpvBuilder
  imports LittleEndian
begin

text \<open>
  The SPIR-V module builder \<^verbatim>\<open>src/air2spv/spv_builder.c\<close>: instructions are routed by opcode into
  five streams, function-local variables are collected in a separate buffer with one segment
  per function, and the streams are joined when the module is finished.  A stream is the list
  of its words with the allocated capacity; \<^const>\<open>None\<close> stands for a call without a defined
  result, because the growth loop does not end or a store lies outside the allocation.  The
  theory shows that finishing yields the sections in the order of the specification with
  every local variable at the head of its function, that rewinding restores the function
  stream, and that the output fits its allocation.
\<close>

unbundle bit_operations_syntax

subsection \<open>State\<close>

type_synonym words = "u32 list"

datatype spv_sec = SEC_CAPS | SEC_PREAMBLE | SEC_ANNOT | SEC_TYPES | SEC_FUNCS

record spv_section =
  sw :: words
  sec_cap :: u32

record locals_seg =
  seg_mark :: u32
  seg_begin :: u32

record lagfx_spv_builder =
  sec :: "spv_sec \<Rightarrow> spv_section"
  locals :: spv_section
  segs :: "locals_seg list"
  next_id :: u32

definition sec_n :: "spv_section \<Rightarrow> u32" where
  "sec_n s = of_nat (length (sw s))"

definition LAGFX_SPV_STORAGE_FUNCTION :: u32 where
  "LAGFX_SPV_STORAGE_FUNCTION = 7"

definition section_of :: "u32 \<Rightarrow> words \<Rightarrow> spv_sec" where
  "section_of opcode operands =
     (if opcode \<in> {17, 10} then SEC_CAPS
      else if opcode \<in> {11, 14, 15, 16, 331, 5, 6, 7, 8} then SEC_PREAMBLE
      else if opcode \<in> {71, 72, 73, 74, 75} then SEC_ANNOT
      else if opcode = 59 then
        (if 3 \<le> length operands \<and> operands ! 2 \<noteq> LAGFX_SPV_STORAGE_FUNCTION then SEC_TYPES else SEC_FUNCS)
      else if opcode = 1 then SEC_TYPES
      else if 19 \<le> opcode \<and> opcode \<le> 39 \<or> 41 \<le> opcode \<and> opcode \<le> 52 then SEC_TYPES
      else SEC_FUNCS)"

definition lagfx_spv_builder_create :: "u32 \<Rightarrow> lagfx_spv_builder" where
  "lagfx_spv_builder_create initial =
     \<lparr>sec = (\<lambda>_. \<lparr>sw = [], sec_cap = (if initial < 16 then 16 else initial)\<rparr>),
      locals = \<lparr>sw = [], sec_cap = 0\<rparr>, segs = [], next_id = 1\<rparr>"

definition lagfx_spv_builder_alloc_id :: "lagfx_spv_builder \<Rightarrow> u32 \<times> lagfx_spv_builder" where
  "lagfx_spv_builder_alloc_id b = (next_id b, b\<lparr>next_id := next_id b + 1\<rparr>)"

subsection \<open>Appending\<close>

text \<open>The doubling loop works in 32 bits and need not end.\<close>

partial_function (option) grow_cap :: "u32 \<Rightarrow> u32 \<Rightarrow> u32 option" where
  "grow_cap new_cap needed = (if new_cap < needed then grow_cap (new_cap * 2) needed else Some new_cap)"

declare grow_cap.simps [code]

definition sec_grow :: "u32 \<Rightarrow> spv_section \<Rightarrow> spv_section option" where
  "sec_grow needed s =
     (if needed \<le> sec_cap s then Some s
      else do {
        new_cap \<leftarrow> grow_cap (if sec_cap s \<noteq> 0 then sec_cap s * 2 else 16) needed;
        Some (s\<lparr>sec_cap := new_cap\<rparr>) })"

text \<open>Storing words behind the last one, inside the allocation.\<close>

definition sec_store :: "words \<Rightarrow> spv_section \<Rightarrow> spv_section option" where
  "sec_store ws s = (if length (sw s) + length ws \<le> unat (sec_cap s) then Some (s\<lparr>sw := sw s @ ws\<rparr>) else None)"

definition sec_push :: "u32 \<Rightarrow> spv_section \<Rightarrow> spv_section option" where
  "sec_push w s = do { s1 \<leftarrow> sec_grow (sec_n s + 1) s; sec_store [w] s1 }"

definition set_sec :: "spv_sec \<Rightarrow> spv_section \<Rightarrow> lagfx_spv_builder \<Rightarrow> lagfx_spv_builder" where
  "set_sec k s b = b\<lparr>sec := (sec b)(k := s)\<rparr>"

definition lagfx_spv_builder_emit_word :: "u32 \<Rightarrow> lagfx_spv_builder \<Rightarrow> lagfx_spv_builder option" where
  "lagfx_spv_builder_emit_word w b = do { s \<leftarrow> sec_push w (sec b SEC_FUNCS); Some (set_sec SEC_FUNCS s b) }"

definition op_header :: "u32 \<Rightarrow> u32 \<Rightarrow> u32" where
  "op_header word_count opcode = push_bit 16 word_count OR (opcode AND 0xFFFF)"

definition lagfx_spv_builder_emit_op :: "u32 \<Rightarrow> words \<Rightarrow> lagfx_spv_builder \<Rightarrow> lagfx_spv_builder option" where
  "lagfx_spv_builder_emit_op opcode operands b =
     (let word_count = 1 + of_nat (length operands);
          k = section_of opcode operands in do {
        s \<leftarrow> sec_grow (sec_n (sec b k) + word_count) (sec b k);
        s1 \<leftarrow> sec_store (op_header word_count opcode # operands) s;
        Some (set_sec k s1 b) })"

text \<open>Four characters per word, little-endian, with a terminator.\<close>

definition pack_word :: "bytes \<Rightarrow> nat \<Rightarrow> u32" where
  "pack_word str w =
     foldl (\<lambda>word byte. word OR push_bit (8 * byte) (ucast (if w * 4 + byte < length str then str ! (w * 4 + byte) else 0)))
       0 [0..<4]"

definition pack_string :: "bytes \<Rightarrow> words" where
  "pack_string str = map (pack_word str) [0..<length str div 4 + 1]"

definition lagfx_spv_builder_emit_op_string ::
    "u32 \<Rightarrow> words \<Rightarrow> bytes \<Rightarrow> words \<Rightarrow> lagfx_spv_builder \<Rightarrow> lagfx_spv_builder option" where
  "lagfx_spv_builder_emit_op_string opcode prefix str suffix b =
     (let str_words = of_nat (length str div 4 + 1);
          word_count = 1 + of_nat (length prefix) + str_words + of_nat (length suffix);
          k = section_of opcode prefix in do {
        s \<leftarrow> sec_grow (sec_n (sec b k) + word_count) (sec b k);
        s1 \<leftarrow> sec_store (op_header word_count opcode # prefix @ pack_string str @ suffix) s;
        Some (set_sec k s1 b) })"

subsection \<open>Local variables\<close>

definition lagfx_spv_builder_mark_locals :: "lagfx_spv_builder \<Rightarrow> lagfx_spv_builder" where
  "lagfx_spv_builder_mark_locals b =
     b\<lparr>segs := segs b @ [\<lparr>seg_mark = sec_n (sec b SEC_FUNCS), seg_begin = sec_n (locals b)\<rparr>]\<rparr>"

definition local_var_words :: "u32 \<Rightarrow> u32 \<Rightarrow> words" where
  "local_var_words ptr_type_id result_id = [push_bit 16 4 OR 59, ptr_type_id, result_id, 7]"

text \<open>The result says whether the variable was recorded.\<close>

definition lagfx_spv_builder_emit_local_var ::
    "u32 \<Rightarrow> u32 \<Rightarrow> lagfx_spv_builder \<Rightarrow> (bool \<times> lagfx_spv_builder) option" where
  "lagfx_spv_builder_emit_local_var ptr_type_id result_id b =
     (if segs b = [] then Some (False, b)
      else do {
        s \<leftarrow> sec_grow (sec_n (locals b) + 4) (locals b);
        s1 \<leftarrow> sec_store (local_var_words ptr_type_id result_id) s;
        Some (True, b\<lparr>locals := s1\<rparr>) })"

record lagfx_spv_funcs_mark =
  funcs_n :: u32
  locals_segs :: u32
  locals_n :: u32

definition lagfx_spv_builder_funcs_snapshot :: "lagfx_spv_builder \<Rightarrow> lagfx_spv_funcs_mark" where
  "lagfx_spv_builder_funcs_snapshot b =
     \<lparr>funcs_n = sec_n (sec b SEC_FUNCS), locals_segs = of_nat (length (segs b)), locals_n = sec_n (locals b)\<rparr>"

definition truncate_sec :: "u32 \<Rightarrow> spv_section \<Rightarrow> spv_section" where
  "truncate_sec n s = (if n \<le> sec_n s then s\<lparr>sw := take (unat n) (sw s)\<rparr> else s)"

definition lagfx_spv_builder_funcs_rewind :: "lagfx_spv_funcs_mark \<Rightarrow> lagfx_spv_builder \<Rightarrow> lagfx_spv_builder" where
  "lagfx_spv_builder_funcs_rewind mark b =
     (let b1 = set_sec SEC_FUNCS (truncate_sec (funcs_n mark) (sec b SEC_FUNCS)) b;
          b2 = b1\<lparr>segs := (if locals_segs mark \<le> of_nat (length (segs b1))
                             then take (unat (locals_segs mark)) (segs b1) else segs b1)\<rparr> in
      b2\<lparr>locals := truncate_sec (locals_n mark) (locals b2)\<rparr>)"

subsection \<open>Finishing\<close>

text \<open>A copy of \<open>[lb, le)\<close> of an array with live words \<open>ws\<close>.\<close>

definition slice :: "words \<Rightarrow> u32 \<Rightarrow> u32 \<Rightarrow> words option" where
  "slice ws lb le = (if lb \<le> le \<and> unat le \<le> length ws then Some (take (unat le - unat lb) (drop (unat lb) ws)) else None)"

fun splice_locals :: "spv_section \<Rightarrow> spv_section \<Rightarrow> locals_seg list \<Rightarrow> u32 \<Rightarrow> words option" where
  "splice_locals f l [] src = slice (sw f) src (sec_n f)"
| "splice_locals f l (g # gs) src =
     (let mark = seg_mark g; lb = seg_begin g;
          le = (case gs of [] \<Rightarrow> sec_n l | h # _ \<Rightarrow> seg_begin h) in
      if sec_n f < mark \<or> mark < src \<or> le < lb then splice_locals f l gs src
      else do {
        pre \<leftarrow> slice (sw f) src mark;
        vars \<leftarrow> slice (sw l) lb le;
        rest \<leftarrow> splice_locals f l gs mark;
        Some (pre @ vars @ rest) })"

definition body_words :: "lagfx_spv_builder \<Rightarrow> nat" where
  "body_words b = sum_list (map (\<lambda>k. length (sw (sec b k))) [SEC_CAPS, SEC_PREAMBLE, SEC_ANNOT, SEC_TYPES, SEC_FUNCS]) +
     length (sw (locals b))"

definition LAGFX_SPV_MAGIC :: u32 where "LAGFX_SPV_MAGIC = 0x07230203"
definition LAGFX_SPV_VERSION_14 :: u32 where "LAGFX_SPV_VERSION_14 = 0x00010400"

definition module_header :: "u32 \<Rightarrow> words" where
  "module_header bound = [LAGFX_SPV_MAGIC, LAGFX_SPV_VERSION_14, 0, bound, 0]"

definition finish_words :: "lagfx_spv_builder \<Rightarrow> words option" where
  "finish_words b = do {
     funcs \<leftarrow> (if sw (locals b) \<noteq> [] \<and> segs b \<noteq> [] then splice_locals (sec b SEC_FUNCS) (locals b) (segs b) 0
               else Some (sw (sec b SEC_FUNCS)));
     let out = module_header (next_id b) @ sw (sec b SEC_CAPS) @ sw (sec b SEC_PREAMBLE) @ sw (sec b SEC_ANNOT) @
       sw (sec b SEC_TYPES) @ funcs;
     if length out \<le> 5 + body_words b then Some out else None }"

definition lagfx_spv_builder_finish :: "lagfx_spv_builder \<Rightarrow> bytes option" where
  "lagfx_spv_builder_finish b = map_option (\<lambda>ws. concat (map le_bytes32 ws)) (finish_words b)"

subsection \<open>Growth\<close>

lemma grow_cap_loop: "grow_cap c n = (if c < n then grow_cap (c * 2) n else Some c)"
  by (rule grow_cap.simps)

text \<open>The loop ends when the request is at most half of the range.\<close>

lemma unat_double: "unat (c :: u32) < 2 ^ 31 \<Longrightarrow> unat (c * 2) = 2 * unat c"
  by (simp add: unat_word_ariths mult.commute)

lemma grow_cap_returns:
  assumes "0 < c" "unat n \<le> 2 ^ 31"
  shows "\<exists>c'. grow_cap c n = Some c' \<and> n \<le> c' \<and> c \<le> c'"
  using assms
proof (induction "unat n - unat c" arbitrary: c rule: less_induct)
  case less
  show ?case
  proof (cases "c < n")
    case True
    then have lt: "unat c < unat n" by (simp add: word_less_nat_alt)
    then have d: "unat (c * 2) = 2 * unat c" using less.prems(2) by (intro unat_double) linarith
    have p: "0 < unat c" using less.prems(1) by (simp add: word_gt_0_no unat_gt_0 word_neq_0_conv)
    have "unat n - unat (c * 2) < unat n - unat c" "0 < c * 2"
      using lt d p by (simp_all add: word_less_nat_alt)
    then obtain c' where "grow_cap (c * 2) n = Some c'" "n \<le> c'" "c * 2 \<le> c'"
      using less.hyps less.prems(2) by blast
    then show ?thesis using True d by (subst grow_cap_loop) (auto simp: word_le_nat_alt)
  next
    case False
    then show ?thesis by (subst grow_cap_loop) auto
  qed
qed

text \<open>Above that, the capacity wraps to zero and the loop goes on for ever.\<close>

lemma grow_cap_zero: "0 < n \<Longrightarrow> grow_cap 0 n = None"
proof -
  have "c \<noteq> 0 \<or> n = 0" if "grow_cap c n = Some r" for c n r
    using that
  proof (rule grow_cap.raw_induct[rotated], goal_cases)
    case (1 g c n r)
    then show ?case by (auto simp: word_gt_0 split: if_splits)
  qed
  then show "0 < n \<Longrightarrow> grow_cap 0 n = None" by (metis not_None_eq less_irrefl)
qed

lemma grow_cap_spins: "2 ^ 31 < unat n \<Longrightarrow> j \<le> 31 \<Longrightarrow> grow_cap (2 ^ j) n = None"
proof (induction "31 - j" arbitrary: j)
  case 0
  have "(2 ^ 31 :: u32) < n" using 0(2) by (simp add: word_less_nat_alt)
  moreover have "0 < n" using 0(2) by (simp add: word_less_nat_alt)
  moreover have "(2 ^ 31 * 2 :: u32) = 0" by code_simp
  ultimately show ?case using 0(1,3) grow_cap_zero[of n] by (subst grow_cap_loop) (simp del: power_numeral)
next
  case (Suc k)
  have "(2 :: nat) ^ j < 2 ^ 32" using Suc(4) by (intro power_strict_increasing) simp_all
  then have u: "unat (2 ^ j :: u32) = 2 ^ j" using unat_of_nat_small[of "2 ^ j", where 'a = 32] by simp
  have "(2 :: nat) ^ j \<le> 2 ^ 31" using Suc(4) by (rule power_increasing) simp
  then have "(2 ^ j :: u32) < n" using Suc(3) u by (simp add: word_less_nat_alt)
  then show ?case using Suc(1)[of "Suc j"] Suc(2-4) by (subst grow_cap_loop) (simp add: mult.commute)
qed

subsection \<open>Well-formed builders\<close>

definition wf_sec :: "spv_section \<Rightarrow> bool" where
  "wf_sec s \<longleftrightarrow> length (sw s) \<le> unat (sec_cap s)"

definition seg_bounds :: "nat list \<Rightarrow> nat \<Rightarrow> bool" where
  "seg_bounds xs n \<longleftrightarrow> sorted (xs @ [n])"

definition marks :: "lagfx_spv_builder \<Rightarrow> nat list" where
  "marks b = map (\<lambda>g. unat (seg_mark g)) (segs b)"

definition begins :: "lagfx_spv_builder \<Rightarrow> nat list" where
  "begins b = map (\<lambda>g. unat (seg_begin g)) (segs b)"

abbreviation fw :: "lagfx_spv_builder \<Rightarrow> words" where "fw b \<equiv> sw (sec b SEC_FUNCS)"
abbreviation lw :: "lagfx_spv_builder \<Rightarrow> words" where "lw b \<equiv> sw (locals b)"

definition wf_builder :: "lagfx_spv_builder \<Rightarrow> bool" where
  "wf_builder b \<longleftrightarrow> (\<forall>k. wf_sec (sec b k)) \<and> wf_sec (locals b) \<and>
     seg_bounds (marks b) (length (fw b)) \<and> seg_bounds (begins b) (length (lw b)) \<and>
     (case begins b of [] \<Rightarrow> lw b = [] | x # _ \<Rightarrow> x = 0)"

lemma unat_sec_n: "wf_sec s \<Longrightarrow> unat (sec_n s) = length (sw s)"
  unfolding sec_n_def wf_sec_def by (rule unat_of_nat_small) (rule le_less_trans[OF _ unat_bound], simp)

lemma wf_create: "wf_builder (lagfx_spv_builder_create n)"
  by (simp add: wf_builder_def lagfx_spv_builder_create_def wf_sec_def seg_bounds_def marks_def begins_def)

text \<open>Appending a run of words: what a successful grow and store do, and when they succeed.\<close>

lemma sec_grow_words: "sec_grow n s = Some s1 \<Longrightarrow> sw s1 = sw s"
  by (auto simp: sec_grow_def bind_eq_Some_conv split: if_splits)

lemma sec_store_words: "sec_store ws s = Some s1 \<Longrightarrow> sw s1 = sw s @ ws \<and> wf_sec s1"
  by (auto simp: sec_store_def wf_sec_def split: if_splits)

lemma sec_append:
  assumes "sec_grow n s = Some s1" "sec_store ws s1 = Some s2"
  shows "sw s2 = sw s @ ws" "wf_sec s2"
  using assms sec_grow_words sec_store_words by fastforce+

lemma sec_append_returns:
  assumes "wf_sec s" "length (sw s) + length ws \<le> 2 ^ 31" "k = of_nat (length ws)"
  shows "\<exists>s1 s2. sec_grow (sec_n s + k) s = Some s1 \<and> sec_store ws s1 = Some s2"
proof -
  have k: "unat k = length ws" using assms(2,3) by (simp add: unat_of_nat_small)
  have n: "unat (sec_n s + k) = length (sw s) + length ws"
    using unat_sec_n[OF assms(1)] assms(2) k by (subst unat_add_small) simp_all
  show ?thesis
  proof (cases "sec_n s + k \<le> sec_cap s")
    case True
    then show ?thesis using n by (simp add: sec_grow_def sec_store_def word_le_nat_alt)
  next
    case False
    have c: "0 < (if sec_cap s \<noteq> 0 then sec_cap s * 2 else 16)"
    proof -
      have "unat (sec_cap s) < 2 ^ 31" using False n assms(2) by (simp add: word_le_nat_alt)
      then have "unat (sec_cap s * 2) = 2 * unat (sec_cap s)" by (rule unat_double)
      moreover have "sec_cap s \<noteq> 0 \<Longrightarrow> 0 < unat (sec_cap s)" by (simp add: unat_gt_0)
      ultimately show ?thesis by (simp add: word_less_nat_alt)
    qed
    obtain c' where "grow_cap (if sec_cap s \<noteq> 0 then sec_cap s * 2 else 16) (sec_n s + k) = Some c'" "sec_n s + k \<le> c'"
      using grow_cap_returns[OF c, of "sec_n s + k"] n assms(2) by auto
    then show ?thesis using False n by (simp add: sec_grow_def sec_store_def word_le_nat_alt)
  qed
qed

subsection \<open>The function stream as functions\<close>

text \<open>The words before the first mark, and for every mark the variables recorded for it and
  the words that follow it.\<close>

fun next_of :: "nat \<Rightarrow> nat list \<Rightarrow> nat" where
  "next_of n [] = n"
| "next_of n (x # _) = x"

fun parts :: "words \<Rightarrow> words \<Rightarrow> (nat \<times> nat) list \<Rightarrow> (words \<times> words) list" where
  "parts F L [] = []"
| "parts F L ((m, g) # gs) =
     (take (next_of (length L) (map snd gs) - g) (drop g L), take (next_of (length F) (map fst gs) - m) (drop m F)) #
     parts F L gs"

definition seg_pairs :: "locals_seg list \<Rightarrow> (nat \<times> nat) list" where
  "seg_pairs gs = map (\<lambda>g. (unat (seg_mark g), unat (seg_begin g))) gs"

type_synonym fun_stream = "words \<times> (words \<times> words) list"

definition fun_abs :: "lagfx_spv_builder \<Rightarrow> fun_stream" where
  "fun_abs b = (take (next_of (length (fw b)) (marks b)) (fw b), parts (fw b) (lw b) (seg_pairs (segs b)))"

definition flatten :: "fun_stream \<Rightarrow> words" where
  "flatten st = fst st @ concat (map (\<lambda>(vars, code). vars @ code) (snd st))"

lemma seg_pairs_simps [simp]:
  "seg_pairs [] = []" "seg_pairs (g # gs) = (unat (seg_mark g), unat (seg_begin g)) # seg_pairs gs"
  "seg_pairs (gs @ hs) = seg_pairs gs @ seg_pairs hs"
  "map fst (seg_pairs gs) = map (\<lambda>g. unat (seg_mark g)) gs" "map snd (seg_pairs gs) = map (\<lambda>g. unat (seg_begin g)) gs"
  "length (seg_pairs gs) = length gs"
  by (simp_all add: seg_pairs_def)

lemma slice_in: "unat lb \<le> unat le \<Longrightarrow> unat le \<le> length ws \<Longrightarrow> slice ws lb le = Some (take (unat le - unat lb) (drop (unat lb) ws))"
  by (simp add: slice_def word_le_nat_alt)

lemma splice_parts:
  assumes "wf_sec f" "wf_sec l" "sorted (unat src # map (\<lambda>g. unat (seg_mark g)) gs @ [length (sw f)])"
    and "sorted (map (\<lambda>g. unat (seg_begin g)) gs @ [length (sw l)])"
  shows "splice_locals f l gs src = Some (take (next_of (length (sw f)) (map fst (seg_pairs gs)) - unat src) (drop (unat src) (sw f)) @
     concat (map (\<lambda>(vars, code). vars @ code) (parts (sw f) (sw l) (seg_pairs gs))))"
  using assms(3,4)
proof (induction gs arbitrary: src)
  case Nil
  then show ?case using slice_in[of src "sec_n f" "sw f"] unat_sec_n[OF assms(1)] by simp
next
  case (Cons g gs)
  let ?le = "case gs of [] \<Rightarrow> sec_n l | h # _ \<Rightarrow> seg_begin h"
  have le: "unat ?le = next_of (length (sw l)) (map snd (seg_pairs gs))"
    using unat_sec_n[OF assms(2)] by (cases gs) simp_all
  have m: "unat src \<le> unat (seg_mark g)" "unat (seg_mark g) \<le> length (sw f)" using Cons.prems(1) by simp_all
  have b: "unat (seg_begin g) \<le> unat ?le" "unat ?le \<le> length (sw l)"
    using Cons.prems(2) unat_sec_n[OF assms(2)] by (cases gs; simp)+
  have "\<not> (sec_n f < seg_mark g \<or> seg_mark g < src \<or> ?le < seg_begin g)"
    using m b unat_sec_n[OF assms(1)] by (simp add: word_less_nat_alt not_less)
  moreover have "slice (sw f) src (seg_mark g) = Some (take (unat (seg_mark g) - unat src) (drop (unat src) (sw f)))"
    by (rule slice_in[OF m])
  moreover have "slice (sw l) (seg_begin g) ?le =
      Some (take (next_of (length (sw l)) (map snd (seg_pairs gs)) - unat (seg_begin g)) (drop (unat (seg_begin g)) (sw l)))"
    using slice_in[OF b] by (simp add: le)
  moreover have "sorted (unat (seg_mark g) # map (\<lambda>g. unat (seg_mark g)) gs @ [length (sw f)])"
    "sorted (map (\<lambda>g. unat (seg_begin g)) gs @ [length (sw l)])"
    using Cons.prems by simp_all
  note ih = Cons.IH[OF this]
  ultimately show ?case by (simp add: Let_def)
qed

lemma parts_length:
  assumes "sorted (map fst gs @ [length F])" "sorted (map snd gs @ [length L])"
  shows "length (concat (map (\<lambda>(vars, code). vars @ code) (parts F L gs))) + next_of (length F) (map fst gs) +
     next_of (length L) (map snd gs) = length F + length L"
  using assms
proof (induction F L gs rule: parts.induct)
  case (2 F L m g gs)
  have "m \<le> next_of (length F) (map fst gs)" "next_of (length F) (map fst gs) \<le> length F"
    "g \<le> next_of (length L) (map snd gs)" "next_of (length L) (map snd gs) \<le> length L"
    using "2.prems" by (cases gs; simp)+
  moreover have "length (concat (map (\<lambda>(vars, code). vars @ code) (parts F L gs))) + next_of (length F) (map fst gs) +
     next_of (length L) (map snd gs) = length F + length L"
    by (rule "2.IH") (use "2.prems" in simp_all)
  ultimately show ?case by simp
qed simp

lemma parts_no_locals:
  "sorted (map fst gs @ [length F]) \<Longrightarrow>
   concat (map (\<lambda>(vars, code). vars @ code) (parts F [] gs)) = drop (next_of (length F) (map fst gs)) F"
proof (induction F "[] :: words" gs rule: parts.induct)
  case (2 F m g gs)
  have n: "m \<le> next_of (length F) (map fst gs)" using "2.prems" by (cases gs) simp_all
  have "concat (map (\<lambda>(vars, code). vars @ code) (parts F [] gs)) = drop (next_of (length F) (map fst gs)) F"
    by (rule "2.hyps") (use "2.prems" in simp)
  moreover have "take (k - m) (drop m F) @ drop k F = drop m F" if "m \<le> k" for k
    using append_take_drop_id[of "k - m" "drop m F"] that by simp
  ultimately show ?case using n by simp
qed simp

text \<open>Finishing a well-formed builder: the sections in order, every function's variables first.\<close>

lemma finish_wf:
  assumes "wf_builder b"
  shows "finish_words b = Some (module_header (next_id b) @ sw (sec b SEC_CAPS) @ sw (sec b SEC_PREAMBLE) @
     sw (sec b SEC_ANNOT) @ sw (sec b SEC_TYPES) @ flatten (fun_abs b))"
proof -
  have w: "wf_sec (sec b SEC_FUNCS)" "wf_sec (locals b)" "sorted (map fst (seg_pairs (segs b)) @ [length (fw b)])"
    "sorted (map snd (seg_pairs (segs b)) @ [length (lw b)])"
    using assms by (auto simp: wf_builder_def seg_bounds_def marks_def begins_def)
  have pre: "next_of (length (fw b)) (marks b) \<le> length (fw b)"
    using w(3) by (cases "segs b") (auto simp: marks_def)
  have beg: "next_of (length (lw b)) (begins b) = 0"
    using assms by (cases "begins b") (auto simp: wf_builder_def)
  have len: "length (flatten (fun_abs b)) = length (fw b) + length (lw b)"
    using parts_length[OF w(3,4)] pre beg by (simp add: flatten_def fun_abs_def marks_def begins_def)
  have "flatten (fun_abs b) = fw b" if "lw b = []"
    using parts_no_locals[OF w(3)] that by (simp add: flatten_def fun_abs_def marks_def)
  moreover have "lw b = []" if "segs b = []" using assms that by (simp add: wf_builder_def begins_def)
  moreover have "splice_locals (sec b SEC_FUNCS) (locals b) (segs b) 0 = Some (flatten (fun_abs b))"
    using splice_parts[OF w(1,2), of 0 "segs b"] w(3,4) by (simp add: flatten_def fun_abs_def marks_def)
  ultimately have "(if lw b \<noteq> [] \<and> segs b \<noteq> [] then splice_locals (sec b SEC_FUNCS) (locals b) (segs b) 0 else Some (fw b)) =
      Some (flatten (fun_abs b))" by auto
  then show ?thesis using len by (simp add: finish_words_def body_words_def module_header_def)
qed

subsection \<open>The operations on the function stream\<close>

definition add_code :: "words \<Rightarrow> fun_stream \<Rightarrow> fun_stream" where
  "add_code ws st = (if snd st = [] then (fst st @ ws, [])
     else (fst st, butlast (snd st) @ [(fst (last (snd st)), snd (last (snd st)) @ ws)]))"

definition add_vars :: "words \<Rightarrow> fun_stream \<Rightarrow> fun_stream" where
  "add_vars ws st = (if snd st = [] then st
     else (fst st, butlast (snd st) @ [(fst (last (snd st)) @ ws, snd (last (snd st)))]))"

definition add_fun :: "fun_stream \<Rightarrow> fun_stream" where
  "add_fun st = (fst st, snd st @ [([], [])])"

lemma parts_empty [simp]: "parts F L gs = [] \<longleftrightarrow> gs = []"
  by (cases "(F, L, gs)" rule: parts.cases) auto

lemma parts_add_code:
  assumes "gs \<noteq> []" "sorted (map fst gs @ [length F])"
  shows "parts (F @ ws) L gs = butlast (parts F L gs) @ [(fst (last (parts F L gs)), snd (last (parts F L gs)) @ ws)]"
  using assms
proof (induction F L gs rule: parts.induct)
  case (2 F L m g gs)
  show ?case
  proof (cases "gs = []")
    case True
    then show ?thesis using "2.prems"(2) by simp
  next
    case False
    then obtain m' g' hs where gs: "gs = (m', g') # hs" by (cases gs) auto
    have "parts (F @ ws) L gs = butlast (parts F L gs) @ [(fst (last (parts F L gs)), snd (last (parts F L gs)) @ ws)]"
      by (rule "2.IH"[OF False]) (use "2.prems" in simp)
    moreover have "m' \<le> length F" using "2.prems"(2) gs by simp
    ultimately show ?thesis using False by (simp add: gs)
  qed
qed simp

lemma parts_add_vars:
  assumes "gs \<noteq> []" "sorted (map snd gs @ [length L])"
  shows "parts F (L @ ws) gs = butlast (parts F L gs) @ [(fst (last (parts F L gs)) @ ws, snd (last (parts F L gs)))]"
  using assms
proof (induction F L gs rule: parts.induct)
  case (2 F L m g gs)
  show ?case
  proof (cases "gs = []")
    case True
    then show ?thesis using "2.prems"(2) by simp
  next
    case False
    then obtain m' g' hs where gs: "gs = (m', g') # hs" by (cases gs) auto
    have "parts F (L @ ws) gs = butlast (parts F L gs) @ [(fst (last (parts F L gs)) @ ws, snd (last (parts F L gs)))]"
      by (rule "2.IH"[OF False]) (use "2.prems" in simp)
    moreover have "g' \<le> length L" using "2.prems"(2) gs by simp
    ultimately show ?thesis using False by (simp add: gs)
  qed
qed simp

lemma parts_add_fun: "parts F L (gs @ [(length F, length L)]) = parts F L gs @ [([], [])]"
proof (induction F L gs rule: parts.induct)
  case (2 F L m g gs)
  then show ?case by (cases gs) auto
qed simp

lemma next_of_append: "next_of n (xs @ ys) = next_of (next_of n ys) xs"
  by (cases xs) simp_all

lemma abs_add_code:
  assumes "wf_builder b" "fw b' = fw b @ ws" "lw b' = lw b" "segs b' = segs b"
  shows "fun_abs b' = add_code ws (fun_abs b)"
proof (cases "segs b")
  case Nil
  then show ?thesis using assms(2-4) by (simp add: fun_abs_def add_code_def marks_def)
next
  case (Cons g gs)
  have w: "sorted (map fst (seg_pairs (segs b)) @ [length (fw b)])" using assms(1) by (simp add: wf_builder_def seg_bounds_def marks_def)
  then have "unat (seg_mark g) \<le> length (fw b)" using Cons by simp
  then show ?thesis
    using parts_add_code[OF _ w, of ws "lw b"] Cons assms(2-4)
    by (simp add: fun_abs_def add_code_def marks_def del: parts.simps seg_pairs_simps(2)) simp
qed

lemma abs_add_vars:
  assumes "wf_builder b" "fw b' = fw b" "lw b' = lw b @ ws" "segs b' = segs b" "segs b \<noteq> []"
  shows "fun_abs b' = add_vars ws (fun_abs b)"
proof -
  have w: "sorted (map snd (seg_pairs (segs b)) @ [length (lw b)])" using assms(1) by (simp add: wf_builder_def seg_bounds_def begins_def)
  have "seg_pairs (segs b) \<noteq> []" using assms(5) by (cases "segs b") simp_all
  then show ?thesis
    using parts_add_vars[OF _ w, of "fw b" ws] assms(2-5) by (simp add: fun_abs_def add_vars_def marks_def)
qed

lemma abs_add_fun:
  assumes "wf_builder b"
  shows "fun_abs (lagfx_spv_builder_mark_locals b) = add_fun (fun_abs b)"
proof -
  have "unat (sec_n (sec b SEC_FUNCS)) = length (fw b)" "unat (sec_n (locals b)) = length (lw b)"
    using assms by (simp_all add: wf_builder_def unat_sec_n)
  then show ?thesis
    using parts_add_fun[of "fw b" "lw b" "seg_pairs (segs b)"]
    by (simp add: fun_abs_def add_fun_def marks_def lagfx_spv_builder_mark_locals_def next_of_append)
qed

subsection \<open>Sequences of operations\<close>

text \<open>A run of operations ends when one of them is refused: a local variable in front of the first
  mark.\<close>

datatype spv_op =
    Emit_op u32 words
  | Emit_string u32 words bytes words
  | Mark_locals
  | Local_var u32 u32

fun run_op :: "spv_op \<Rightarrow> lagfx_spv_builder \<Rightarrow> lagfx_spv_builder option" where
  "run_op (Emit_op opc operands) b = lagfx_spv_builder_emit_op opc operands b"
| "run_op (Emit_string opc prefix str suffix) b = lagfx_spv_builder_emit_op_string opc prefix str suffix b"
| "run_op Mark_locals b = Some (lagfx_spv_builder_mark_locals b)"
| "run_op (Local_var ptr_type_id result_id) b = do {
     (ok, b1) \<leftarrow> lagfx_spv_builder_emit_local_var ptr_type_id result_id b;
     if ok then Some b1 else None }"

fun run_ops :: "spv_op list \<Rightarrow> lagfx_spv_builder \<Rightarrow> lagfx_spv_builder option" where
  "run_ops [] b = Some b"
| "run_ops (x # xs) b = do { b1 \<leftarrow> run_op x b; run_ops xs b1 }"

text \<open>The words an operation contributes, and their section.\<close>

fun op_words :: "spv_op \<Rightarrow> words" where
  "op_words (Emit_op opc operands) = op_header (1 + of_nat (length operands)) opc # operands"
| "op_words (Emit_string opc prefix str suffix) =
     op_header (1 + of_nat (length prefix) + of_nat (length str div 4 + 1) + of_nat (length suffix)) opc #
     prefix @ pack_string str @ suffix"
| "op_words Mark_locals = []"
| "op_words (Local_var ptr_type_id result_id) = local_var_words ptr_type_id result_id"

fun op_section :: "spv_op \<Rightarrow> spv_sec option" where
  "op_section (Emit_op opc operands) = Some (section_of opc operands)"
| "op_section (Emit_string opc prefix str suffix) = Some (section_of opc prefix)"
| "op_section _ = None"

definition section_words :: "spv_sec \<Rightarrow> spv_op list \<Rightarrow> words" where
  "section_words k ops = concat (map op_words (filter (\<lambda>x. op_section x = Some k) ops))"

definition is_local :: "spv_op \<Rightarrow> bool" where
  "is_local x \<longleftrightarrow> op_section x = None \<and> x \<noteq> Mark_locals"

text \<open>The function section: at every mark stand the variables recorded until the next mark.\<close>

fun layout :: "spv_op list \<Rightarrow> words" where
  "layout [] = []"
| "layout (Mark_locals # ops) =
     concat (map op_words (filter is_local (takeWhile (\<lambda>x. x \<noteq> Mark_locals) ops))) @ layout ops"
| "layout (x # ops) = (if op_section x = Some SEC_FUNCS then op_words x else []) @ layout ops"

text \<open>The stream operation of an operation.\<close>

definition stream_op :: "spv_op \<Rightarrow> fun_stream \<Rightarrow> fun_stream" where
  "stream_op x st =
     (if x = Mark_locals then add_fun st
      else if is_local x then add_vars (op_words x) st
      else if op_section x = Some SEC_FUNCS then add_code (op_words x) st
      else st)"

lemma seg_bounds_mono: "seg_bounds xs n \<Longrightarrow> n \<le> n' \<Longrightarrow> seg_bounds xs n'"
  by (auto simp: seg_bounds_def sorted_append intro: order_trans)

lemma seg_bounds_snoc: "seg_bounds xs n \<Longrightarrow> seg_bounds (xs @ [n]) n"
  by (auto simp: seg_bounds_def sorted_append)

text \<open>Appending to one section.\<close>

lemma set_sec_append:
  assumes "wf_builder b" "sw s = sw (sec b k) @ ws" "wf_sec s"
  shows "wf_builder (set_sec k s b)" "next_id (set_sec k s b) = next_id b"
    "sw (sec (set_sec k s b) k') = sw (sec b k') @ (if k' = k then ws else [])"
    "fun_abs (set_sec k s b) = (if k = SEC_FUNCS then add_code ws (fun_abs b) else fun_abs b)"
proof -
  have w: "wf_sec (sec b k'')" "seg_bounds (marks b) (length (fw b))" for k''
    using assms(1) by (simp_all add: wf_builder_def)
  show "wf_builder (set_sec k s b)"
    using assms seg_bounds_mono[OF w(2), of "length (fw b) + length ws"]
    by (auto simp: wf_builder_def set_sec_def marks_def begins_def split: list.splits)
  show "next_id (set_sec k s b) = next_id b"
    "sw (sec (set_sec k s b) k') = sw (sec b k') @ (if k' = k then ws else [])"
    using assms(2) by (simp_all add: set_sec_def)
  show "fun_abs (set_sec k s b) = (if k = SEC_FUNCS then add_code ws (fun_abs b) else fun_abs b)"
    using abs_add_code[OF assms(1), of "set_sec k s b" ws] assms(2) by (auto simp: set_sec_def fun_abs_def marks_def)
qed

definition op_effect :: "spv_op \<Rightarrow> lagfx_spv_builder \<Rightarrow> lagfx_spv_builder \<Rightarrow> bool" where
  "op_effect x b b' \<longleftrightarrow> wf_builder b' \<and> next_id b' = next_id b \<and> fun_abs b' = stream_op x (fun_abs b) \<and>
     (\<forall>k. k \<noteq> SEC_FUNCS \<longrightarrow> sw (sec b' k) = sw (sec b k) @ section_words k [x]) \<and>
     body_words b' \<le> body_words b + length (op_words x)"

lemma body_words_set_sec:
  "sw s = sw (sec b k) @ ws \<Longrightarrow> body_words (set_sec k s b) = body_words b + length ws"
  by (cases k) (simp_all add: body_words_def set_sec_def)

lemma emit_effect:
  assumes "wf_builder b" "op_section x = Some k" "sec_grow n (sec b k) = Some s1" "sec_store (op_words x) s1 = Some s2"
  shows "op_effect x b (set_sec k s2 b)"
proof -
  note a = sec_append[OF assms(3,4)]
  have x: "x \<noteq> Mark_locals" "\<not> is_local x" using assms(2) by (auto simp: is_local_def)
  show ?thesis
    using set_sec_append[OF assms(1) a] body_words_set_sec[OF a(1)] assms(2) x
    by (auto simp: op_effect_def stream_op_def section_words_def)
qed

lemma run_op_effect: "wf_builder b \<Longrightarrow> run_op x b = Some b' \<Longrightarrow> op_effect x b b'"
proof (cases x)
  case (Emit_op opc operands)
  assume w: "wf_builder b" and r: "run_op x b = Some b'"
  let ?k = "section_of opc operands"
  obtain s1 s2 where "sec_grow (sec_n (sec b ?k) + (1 + of_nat (length operands))) (sec b ?k) = Some s1"
    "sec_store (op_words x) s1 = Some s2" "b' = set_sec ?k s2 b"
    using r by (auto simp: Emit_op lagfx_spv_builder_emit_op_def Let_def bind_eq_Some_conv)
  then show ?thesis using emit_effect[OF w] Emit_op by simp
next
  case (Emit_string opc prefix str suffix)
  assume w: "wf_builder b" and r: "run_op x b = Some b'"
  let ?k = "section_of opc prefix"
  obtain n s1 s2 where "sec_grow n (sec b ?k) = Some s1" "sec_store (op_words x) s1 = Some s2" "b' = set_sec ?k s2 b"
    using r by (auto simp: Emit_string lagfx_spv_builder_emit_op_string_def Let_def bind_eq_Some_conv)
  then show ?thesis using emit_effect[OF w] Emit_string by simp
next
  case Mark_locals
  assume w: "wf_builder b" and r: "run_op x b = Some b'"
  have b': "b' = lagfx_spv_builder_mark_locals b" using r Mark_locals by simp
  have n: "unat (sec_n (sec b SEC_FUNCS)) = length (fw b)" "unat (sec_n (locals b)) = length (lw b)"
    using w by (simp_all add: wf_builder_def unat_sec_n)
  have "wf_builder b'"
    using w n seg_bounds_snoc[of "marks b" "length (fw b)"] seg_bounds_snoc[of "begins b" "length (lw b)"]
    by (auto simp: wf_builder_def b' lagfx_spv_builder_mark_locals_def marks_def begins_def split: list.splits)
  then show ?thesis
    using abs_add_fun[OF w] by (simp add: op_effect_def b' stream_op_def Mark_locals section_words_def)
      (simp add: lagfx_spv_builder_mark_locals_def body_words_def)
next
  case (Local_var ptr_type_id result_id)
  assume w: "wf_builder b" and r: "run_op x b = Some b'"
  have loc: "is_local x" by (simp add: is_local_def Local_var)
  show ?thesis
  proof (cases "segs b = []")
    case True
    then show ?thesis using r by (simp add: Local_var lagfx_spv_builder_emit_local_var_def)
  next
    case False
    obtain s1 s2 where a: "sec_grow (sec_n (locals b) + 4) (locals b) = Some s1" "sec_store (op_words x) s1 = Some s2"
      and b': "b' = b\<lparr>locals := s2\<rparr>"
      using r False by (auto simp: Local_var lagfx_spv_builder_emit_local_var_def bind_eq_Some_conv)
    note s = sec_append[OF a]
    have g: "seg_bounds (begins b) (length (lw b))" "begins b \<noteq> []" using w False by (simp_all add: wf_builder_def begins_def)
    have "wf_builder b'"
      using w s g(2) seg_bounds_mono[OF g(1), of "length (lw b) + length (op_words x)"]
      by (auto simp: wf_builder_def b' marks_def begins_def split: list.splits)
    moreover have "fun_abs b' = add_vars (op_words x) (fun_abs b)"
      by (rule abs_add_vars[OF w]) (use False s in \<open>simp_all add: b'\<close>)
    ultimately show ?thesis
      using loc s(1) Local_var by (simp add: op_effect_def stream_op_def section_words_def b' body_words_def)
  qed
qed

text \<open>An operation returns as long as the module stays below half of the 32-bit range.\<close>

lemma body_words_parts: "length (sw (sec b k)) \<le> body_words b" "length (lw b) \<le> body_words b"
  by (cases k) (simp_all add: body_words_def)

lemma run_op_returns:
  assumes "wf_builder b" "body_words b + length (op_words x) \<le> 2 ^ 31" "is_local x \<longrightarrow> segs b \<noteq> []"
  shows "\<exists>b'. run_op x b = Some b'"
proof -
  have w: "wf_sec (sec b k)" "wf_sec (locals b)" for k using assms(1) by (simp_all add: wf_builder_def)
  have fits: "length (sw (sec b k)) + length (op_words x) \<le> 2 ^ 31" "length (lw b) + length (op_words x) \<le> 2 ^ 31" for k
    using body_words_parts(1)[of b k] body_words_parts(2)[of b] assms(2) by linarith+
  show ?thesis
  proof (cases x)
    case (Emit_op opc operands)
    let ?k = "section_of opc operands"
    have "1 + of_nat (length operands) = (of_nat (length (op_words x)) :: u32)" by (simp add: Emit_op)
    from sec_append_returns[OF w(1) fits(1) this, of ?k] show ?thesis
      by (auto simp: Emit_op lagfx_spv_builder_emit_op_def Let_def)
  next
    case (Emit_string opc prefix str suffix)
    have "1 + of_nat (length prefix) + of_nat (length str div 4 + 1) + of_nat (length suffix) =
        (of_nat (length (op_words x)) :: u32)"
      by (simp add: Emit_string pack_string_def add_ac)
    from sec_append_returns[OF w(1) fits(1) this, of "section_of opc prefix"] show ?thesis
      by (auto simp: Emit_string lagfx_spv_builder_emit_op_string_def Let_def)
  next
    case (Local_var ptr_type_id result_id)
    have "4 = (of_nat (length (op_words x)) :: u32)" by (simp add: Local_var local_var_words_def)
    moreover have "segs b \<noteq> []" using assms(3) by (simp add: Local_var is_local_def)
    ultimately show ?thesis using sec_append_returns[OF w(2) fits(2)]
      by (auto simp: Local_var lagfx_spv_builder_emit_local_var_def)
  qed simp
qed

lemma run_ops_effect:
  assumes "wf_builder b" "run_ops ops b = Some b'"
  shows "wf_builder b' \<and> next_id b' = next_id b \<and> fun_abs b' = fold stream_op ops (fun_abs b) \<and>
     (\<forall>k. k \<noteq> SEC_FUNCS \<longrightarrow> sw (sec b' k) = sw (sec b k) @ section_words k ops)"
  using assms
proof (induction ops arbitrary: b)
  case (Cons x ops)
  obtain b1 where b1: "run_op x b = Some b1" "run_ops ops b1 = Some b'" using Cons.prems(2) by (auto simp: bind_eq_Some_conv)
  note e = run_op_effect[OF Cons.prems(1) b1(1), unfolded op_effect_def]
  have "section_words k (x # ops) = section_words k [x] @ section_words k ops" for k by (simp add: section_words_def)
  then show ?case using Cons.IH[of b1] b1(2) e by simp
qed (simp add: section_words_def)

text \<open>Every local variable stands behind a mark; \<open>m\<close> says whether there was one already.\<close>

primrec locals_marked :: "bool \<Rightarrow> spv_op list \<Rightarrow> bool" where
  "locals_marked m [] \<longleftrightarrow> True"
| "locals_marked m (x # xs) \<longleftrightarrow> (is_local x \<longrightarrow> m) \<and> locals_marked (m \<or> x = Mark_locals) xs"

lemma locals_marked_none: "list_all (\<lambda>x. op_section x \<noteq> None) ops \<Longrightarrow> locals_marked m ops"
  by (induction ops arbitrary: m) (auto simp: is_local_def)

lemma run_op_segs: "run_op x b = Some b' \<Longrightarrow> (is_local x \<longrightarrow> segs b \<noteq> []) \<and> (segs b' \<noteq> [] \<longleftrightarrow> segs b \<noteq> [] \<or> x = Mark_locals)"
  by (cases x) (auto simp: lagfx_spv_builder_emit_op_def lagfx_spv_builder_emit_op_string_def lagfx_spv_builder_emit_local_var_def
      lagfx_spv_builder_mark_locals_def set_sec_def is_local_def Let_def bind_eq_Some_conv split: if_splits)

lemma run_ops_returns:
  "wf_builder b \<Longrightarrow> body_words b + length (concat (map op_words ops)) \<le> 2 ^ 31 \<Longrightarrow> locals_marked (segs b \<noteq> []) ops \<Longrightarrow>
   \<exists>b'. run_ops ops b = Some b'"
proof (induction ops arbitrary: b)
  case (Cons x ops)
  obtain b1 where b1: "run_op x b = Some b1" using run_op_returns[OF Cons.prems(1), of x] Cons.prems(2,3) by auto
  have "wf_builder b1" "body_words b1 \<le> body_words b + length (op_words x)"
    using run_op_effect[OF Cons.prems(1) b1] by (simp_all add: op_effect_def)
  moreover have "locals_marked (segs b1 \<noteq> []) ops" using run_op_segs[OF b1] Cons.prems(3) by simp
  ultimately show ?case using Cons.IH[of b1] Cons.prems(2) b1 by auto
qed simp

lemma run_ops_marked: "run_ops ops b = Some b' \<Longrightarrow> locals_marked (segs b \<noteq> []) ops"
proof (induction ops arbitrary: b)
  case (Cons x ops)
  then obtain b1 where b1: "run_op x b = Some b1" "run_ops ops b1 = Some b'" by (auto simp: bind_eq_Some_conv)
  then show ?case using run_op_segs[OF b1(1)] Cons.IH[OF b1(2)] by simp
qed simp

text \<open>The stream of a sequence of operations is its layout.\<close>

definition vars_ahead :: "spv_op list \<Rightarrow> words" where
  "vars_ahead ops = concat (map op_words (filter is_local (takeWhile (\<lambda>x. x \<noteq> Mark_locals) ops)))"

lemma flatten_open: "flatten (p, ps @ [(v, c)]) = flatten (p, ps) @ v @ c"
  by (simp add: flatten_def)

lemma fold_stream_open:
  "flatten (fold stream_op ops (p, ps @ [(v, c)])) = flatten (p, ps) @ v @ vars_ahead ops @ c @ layout ops"
proof (induction ops arbitrary: ps v c)
  case (Cons x ops)
  consider "x = Mark_locals" | "x \<noteq> Mark_locals" "is_local x" | "x \<noteq> Mark_locals" "\<not> is_local x" by blast
  then show ?case
  proof cases
    case 1
    then show ?thesis
      using Cons.IH[of "ps @ [(v, c)]" "[]" "[]"] by (simp add: stream_op_def add_fun_def flatten_open vars_ahead_def)
  next
    case 2
    have l: "layout (x # ops) = layout ops" using 2 by (cases x) (simp_all add: is_local_def)
    show ?thesis
      using Cons.IH[of ps "v @ op_words x" c] 2 by (simp add: stream_op_def add_vars_def vars_ahead_def l)
  next
    case 3
    have l: "layout (x # ops) = (if op_section x = Some SEC_FUNCS then op_words x else []) @ layout ops"
      using 3(1) by (cases x) simp_all
    have "stream_op x (p, ps @ [(v, c)]) = (p, ps @ [(v, c @ (if op_section x = Some SEC_FUNCS then op_words x else []))])"
      using 3 by (simp add: stream_op_def add_code_def)
    then show ?thesis
      using Cons.IH[of ps v "c @ (if op_section x = Some SEC_FUNCS then op_words x else [])"] 3
      by (simp add: vars_ahead_def l)
  qed
qed (simp add: flatten_open vars_ahead_def)

lemma fold_stream_layout: "flatten (fold stream_op ops (p, [])) = p @ layout ops"
proof (induction ops arbitrary: p)
  case (Cons x ops)
  consider "x = Mark_locals" | "x \<noteq> Mark_locals" by blast
  then show ?case
  proof cases
    case 1
    then show ?thesis
      using fold_stream_open[of ops p "[]" "[]" "[]"] by (simp add: stream_op_def[of Mark_locals] add_fun_def flatten_def[of "(p, [])"] vars_ahead_def)
  next
    case 2
    have "layout (x # ops) = (if op_section x = Some SEC_FUNCS then op_words x else []) @ layout ops"
      using 2 by (cases x) simp_all
    moreover have "stream_op x (p, []) = (p @ (if op_section x = Some SEC_FUNCS then op_words x else []), [])"
      using 2 by (simp add: stream_op_def add_code_def add_vars_def is_local_def)
    ultimately show ?thesis using Cons.IH by simp
  qed
qed (simp add: flatten_def)

lemma finish_layout:
  assumes "run_ops ops (lagfx_spv_builder_create n) = Some b"
  shows "finish_words b = Some (module_header 1 @ section_words SEC_CAPS ops @ section_words SEC_PREAMBLE ops @
     section_words SEC_ANNOT ops @ section_words SEC_TYPES ops @ layout ops)"
proof -
  let ?c = "lagfx_spv_builder_create n"
  have c: "fun_abs ?c = ([], [])" "sw (sec ?c k) = []" "next_id ?c = 1" for k
    by (simp_all add: lagfx_spv_builder_create_def fun_abs_def marks_def)
  note e = run_ops_effect[OF wf_create assms]
  then show ?thesis
    using finish_wf[of b] fold_stream_layout[of ops "[]"] by (simp add: c)
qed

subsection \<open>Rewinding\<close>

text \<open>A builder whose function stream continues that of an earlier one.\<close>

definition continues :: "lagfx_spv_builder \<Rightarrow> lagfx_spv_builder \<Rightarrow> bool" where
  "continues b0 b \<longleftrightarrow> (\<exists>ws. fw b = fw b0 @ ws) \<and> (\<exists>ws. lw b = lw b0 @ ws) \<and> (\<exists>gs. segs b = segs b0 @ gs)"

lemma run_op_continues:
  assumes "run_op x b = Some b'"
  shows "continues b b'"
proof -
  have e: "\<exists>ws. sw (sec (set_sec k s2 b) SEC_FUNCS) = fw b @ ws"
    if "sec_grow n (sec b k) = Some s1" "sec_store ws' s1 = Some s2" for n k s1 s2 ws'
    using sec_append(1)[OF that] by (cases k) (simp_all add: set_sec_def)
  show ?thesis
  proof (cases x)
    case (Emit_op opc operands)
    then show ?thesis using assms e
      by (auto simp: lagfx_spv_builder_emit_op_def Let_def bind_eq_Some_conv continues_def) (simp_all add: set_sec_def)
  next
    case (Emit_string opc prefix str suffix)
    then show ?thesis using assms e
      by (auto simp: lagfx_spv_builder_emit_op_string_def Let_def bind_eq_Some_conv continues_def) (simp_all add: set_sec_def)
  next
    case (Local_var p r)
    then show ?thesis using assms sec_append(1)
      by (fastforce simp: lagfx_spv_builder_emit_local_var_def bind_eq_Some_conv continues_def split: if_splits)
  qed (use assms in \<open>auto simp: lagfx_spv_builder_mark_locals_def continues_def\<close>)
qed

lemma continues_trans: "continues a b \<Longrightarrow> continues b c \<Longrightarrow> continues a c"
  by (fastforce simp: continues_def)

lemma run_ops_continues: "run_ops ops b = Some b' \<Longrightarrow> continues b b'"
proof (induction ops arbitrary: b)
  case Nil
  then show ?case by (simp add: continues_def)
next
  case (Cons x ops)
  then show ?case using run_op_continues continues_trans by (fastforce simp: bind_eq_Some_conv)
qed

lemma rewind_restores:
  assumes "wf_builder b0" "wf_builder b" "continues b0 b" "length (segs b) < 2 ^ 32"
  defines "b' \<equiv> lagfx_spv_builder_funcs_rewind (lagfx_spv_builder_funcs_snapshot b0) b"
  shows "fw b' = fw b0" "lw b' = lw b0" "segs b' = segs b0" "next_id b' = next_id b"
    "\<And>k. k \<noteq> SEC_FUNCS \<Longrightarrow> sec b' k = sec b k" "wf_builder b'"
proof -
  obtain ws vs gs where c: "fw b = fw b0 @ ws" "lw b = lw b0 @ vs" "segs b = segs b0 @ gs"
    using assms(3) by (auto simp: continues_def)
  have n: "unat (sec_n (sec b0 SEC_FUNCS)) = length (fw b0)" "unat (sec_n (locals b0)) = length (lw b0)"
    "unat (sec_n (sec b SEC_FUNCS)) = length (fw b)" "unat (sec_n (locals b)) = length (lw b)"
    using assms(1,2) by (simp_all add: wf_builder_def unat_sec_n)
  have g: "unat (of_nat (length (segs b0)) :: u32) = length (segs b0)" "unat (of_nat (length (segs b)) :: u32) = length (segs b)"
    by (rule unat_of_nat_small; use assms(4) c(3) in simp)+
  show fw: "fw b' = fw b0" and lw: "lw b' = lw b0" and sg: "segs b' = segs b0"
    using n g c by (simp_all add: b'_def lagfx_spv_builder_funcs_rewind_def lagfx_spv_builder_funcs_snapshot_def Let_def
        set_sec_def truncate_sec_def word_le_nat_alt)
  show "next_id b' = next_id b" "\<And>k. k \<noteq> SEC_FUNCS \<Longrightarrow> sec b' k = sec b k"
    by (simp_all add: b'_def lagfx_spv_builder_funcs_rewind_def Let_def set_sec_def)
  have t: "wf_sec (truncate_sec m s)" if "wf_sec s" for m s
    using that by (auto simp: truncate_sec_def wf_sec_def)
  have "wf_sec (sec b' k)" "wf_sec (locals b')" for k
    using assms(2) t by (simp_all add: wf_builder_def b'_def lagfx_spv_builder_funcs_rewind_def Let_def set_sec_def)
  then show "wf_builder b'" using assms(1) fw lw sg by (auto simp: wf_builder_def marks_def begins_def split: list.splits)
qed

end
