(* ===== verification/SpvFacts.thy ===== *)
theory SpvFacts
  imports SpvReflect "HOL-Library.Multiset" "HOL-Library.Product_Lexorder"
begin

text \<open>
  What the builder and the reflection of SPIR-V modules guarantee together: the walk over
  the bytes visits the decoded instructions, for every function that uses it through the
  locale \<open>instr_visitor\<close>; a finished module decodes to the instructions that were emitted;
  relocation changes the binding literals and nothing else; reflection is total.
\<close>

unbundle bit_operations_syntax

subsection \<open>Decoding\<close>

definition spv_words :: "bytes \<Rightarrow> words" where
  "spv_words spv = map (\<lambda>i. le32_at spv (i * 4)) [0..<length spv div 4]"

text \<open>Opcode and operands of every instruction, up to the first malformed one.\<close>

function decode_instrs :: "words \<Rightarrow> (u32 \<times> words) list" where
  "decode_instrs [] = []"
| "decode_instrs (h # ws) =
     (let wc = unat (drop_bit 16 h) in
      if wc = 0 \<or> length ws < wc - 1 then []
      else (h AND 0xFFFF, take (wc - 1) ws) # decode_instrs (drop (wc - 1) ws))"
  by pat_completeness auto
termination
  by (relation "measure length") auto

fun visit :: "(u32 \<Rightarrow> words \<Rightarrow> 'st \<Rightarrow> 'st \<times> bool) \<Rightarrow> (u32 \<times> words) list \<Rightarrow> 'st \<Rightarrow> 'st" where
  "visit g [] st = st"
| "visit g ((opc, ws) # is) st = (case g opc ws st of (st', go) \<Rightarrow> if go then visit g is st' else st')"

lemma length_spv_words [simp]: "length (spv_words spv) = length spv div 4"
  by (simp add: spv_words_def)

lemma spv_words_nth: "i < length spv div 4 \<Longrightarrow> lagfx_le32 spv (i * 4) = Some (spv_words spv ! i)"
  by (simp add: spv_words_def le32_in)

lemma word_at_nth: "i + n < length spv div 4 \<Longrightarrow> word_at spv i n = Some (spv_words spv ! (i + n))"
  unfolding word_at_def by (rule spv_words_nth)

text \<open>A visitor of instructions: on an instruction inside the module the step function of the
  walk reads nothing outside and does what \<open>g\<close> does on its opcode and operands.\<close>

locale instr_visitor =
  fixes spv :: bytes
    and f :: "u32 \<Rightarrow> nat \<Rightarrow> nat \<Rightarrow> 'st \<Rightarrow> ('st \<times> bool) option"
    and g :: "u32 \<Rightarrow> words \<Rightarrow> 'st \<Rightarrow> 'st \<times> bool"
  assumes step: "0 < wc \<Longrightarrow> i + wc \<le> length spv div 4 \<Longrightarrow>
      f opc i wc st = Some (g opc (take (wc - 1) (drop (i + 1) (spv_words spv))) st)"
begin

lemma walk_visits:
  "instr_walk (\<lambda>_. spv) f (length spv div 4) i st = Some (visit g (decode_instrs (drop i (spv_words spv))) st)"
proof (induction "length spv div 4 - i" arbitrary: i st rule: less_induct)
  case less
  let ?n = "length spv div 4" and ?w = "spv_words spv"
  show ?case
  proof (cases "i < ?n")
    case True
    have d: "drop i ?w = ?w ! i # drop (i + 1) ?w" using True by (simp add: Cons_nth_drop_Suc)
    note r = spv_words_nth[OF True]
    let ?wc = "unat (drop_bit 16 (?w ! i))"
    have l: "(length (drop (i + 1) ?w) < ?wc - 1) = (?n < i + ?wc)" if "?wc \<noteq> 0" using True that by auto
    show ?thesis
    proof (cases "?wc = 0 \<or> ?n < i + ?wc")
      case stop: True
      then have "decode_instrs (drop i ?w) = []" using l unfolding d by (auto simp: Let_def)
      then show ?thesis using True r stop by (subst instr_walk.simps) (simp add: Let_def)
    next
      case False
      have s: "f (?w ! i AND 0xFFFF) i ?wc st = Some (g (?w ! i AND 0xFFFF) (take (?wc - 1) (drop (i + 1) ?w)) st)"
        by (rule step) (use False in auto)
      have dec: "decode_instrs (drop i ?w) = (?w ! i AND 0xFFFF, take (?wc - 1) (drop (i + 1) ?w)) # decode_instrs (drop (i + ?wc) ?w)"
        using False l unfolding d by (simp add: Let_def add.commute)
      obtain st' go where g: "g (?w ! i AND 0xFFFF) (take (?wc - 1) (drop (i + 1) ?w)) st = (st', go)" by force
      show ?thesis
      proof (cases go)
        case True
        have "instr_walk (\<lambda>_. spv) f ?n (i + ?wc) st' = Some (visit g (decode_instrs (drop (i + ?wc) ?w)) st')"
          by (rule less.hyps) (use False \<open>i < ?n\<close> in auto)
        then show ?thesis
          using True False r s g \<open>i < ?n\<close> by (subst instr_walk.simps) (simp add: Let_def dec)
      next
        case no: False
        then show ?thesis using False r s g \<open>i < ?n\<close> by (subst instr_walk.simps) (simp add: Let_def dec)
      qed
    qed
  next
    case False
    then show ?thesis by (subst instr_walk.simps) simp
  qed
qed

end

subsection \<open>The visitors of the reflection\<close>

definition image_instr :: "u32 \<Rightarrow> words \<Rightarrow> bool \<Rightarrow> bool \<times> bool" where
  "image_instr opc ws found = (if is_image_op opc then (True, False) else (found, True))"

interpretation image: instr_visitor spv "\<lambda>opc i wc found. Some (if is_image_op opc then (True, False) else (found, True))" image_instr
  for spv
  by unfold_locales (simp add: image_instr_def)

definition reflect_instr :: "u32 \<Rightarrow> words \<Rightarrow> reflect_tab \<Rightarrow> reflect_tab \<times> bool" where
  "reflect_instr opc ws t = (
     if opc = 71 \<and> 3 \<le> length ws \<and> ws ! 0 < MAXID \<and> ws ! 1 = 34 then
       t\<lparr>has_set := (has_set t)(ws ! 0 := True), dec_set := (dec_set t)(ws ! 0 := ws ! 2)\<rparr>
     else if opc = 71 \<and> 3 \<le> length ws \<and> ws ! 0 < MAXID \<and> ws ! 1 = 33 then
       t\<lparr>has_bind := (has_bind t)(ws ! 0 := True), dec_bind := (dec_bind t)(ws ! 0 := ws ! 2)\<rparr>
     else if opc = 25 \<and> ws \<noteq> [] \<and> ws ! 0 < MAXID then t\<lparr>is_image := (is_image t)(ws ! 0 := True)\<rparr>
     else if opc = 26 \<and> ws \<noteq> [] \<and> ws ! 0 < MAXID then t\<lparr>is_sampler := (is_sampler t)(ws ! 0 := True)\<rparr>
     else if opc = 27 \<and> ws \<noteq> [] \<and> ws ! 0 < MAXID then t\<lparr>is_sampled_image := (is_sampled_image t)(ws ! 0 := True)\<rparr>
     else if opc = 30 \<and> ws \<noteq> [] \<and> ws ! 0 < MAXID then t\<lparr>is_struct := (is_struct t)(ws ! 0 := True)\<rparr>
     else if opc = 32 \<and> 3 \<le> length ws \<and> ws ! 0 < MAXID then t\<lparr>ptr_pointee := (ptr_pointee t)(ws ! 0 := ws ! 2)\<rparr>
     else if opc = 59 \<and> 3 \<le> length ws \<and> ws ! 1 < MAXID then
       t\<lparr>is_var := (is_var t)(ws ! 1 := True), var_ptr := (var_ptr t)(ws ! 1 := ws ! 0), var_sc := (var_sc t)(ws ! 1 := ws ! 2)\<rparr>
     else t, True)"

lemma operand_word:
  assumes "i + wc \<le> length spv div 4" "0 < n" "n < wc"
  shows "word_at spv i n = Some (take (wc - 1) (drop (i + 1) (spv_words spv)) ! (n - 1))"
  using word_at_nth[of i n spv] assms by simp

interpretation reflect: instr_visitor spv "reflect_step spv" reflect_instr for spv
proof
  fix wc i :: nat and opc :: u32 and st :: reflect_tab
  assume w: "0 < wc" "i + wc \<le> length spv div 4"
  define ws where "ws = take (wc - 1) (drop (i + 1) (spv_words spv))"
  have len: "length ws = wc - 1" using w by (simp add: ws_def)
  have r: "word_at spv i (Suc 0) = Some (ws ! 0)" if "2 \<le> wc" using operand_word[OF w(2), of 1] that by (simp add: ws_def)
  have r3: "word_at spv i (Suc 0) = Some (ws ! 0)" "word_at spv i 2 = Some (ws ! 1)" "word_at spv i 3 = Some (ws ! 2)" if "4 \<le> wc"
    using operand_word[OF w(2), of 1] operand_word[OF w(2), of 2] operand_word[OF w(2), of 3] that by (simp_all add: ws_def)
  have c: "(3 \<le> length ws) = (4 \<le> wc)" "(ws \<noteq> []) = (2 \<le> wc)" using len w(1) by (auto simp: length_0_conv[symmetric] simp del: length_0_conv)
  have flag: "flag_case get put spv i wc st = Some (if ws \<noteq> [] \<and> ws ! 0 < MAXID then put ((get st)(ws ! 0 := True)) st else st)" for get put
    unfolding c by (simp add: flag_case_def tab_set_def r)
  have dec: "decorate_case spv i wc st = Some (fst (reflect_instr 71 ws st))"
    unfolding reflect_instr_def c by (simp add: decorate_case_def tab_set_def r3)
  have ptr: "pointer_case spv i wc st = Some (fst (reflect_instr 32 ws st))"
    unfolding reflect_instr_def c by (simp add: pointer_case_def tab_set_def r3)
  have var: "variable_case spv i wc st = Some (fst (reflect_instr 59 ws st))"
    unfolding reflect_instr_def c by (simp add: variable_case_def tab_set_def r3)
  consider "opc = 71" | "opc = 25" | "opc = 26" | "opc = 27" | "opc = 30" | "opc = 32" | "opc = 59" |
    "opc \<notin> {71, 25, 26, 27, 30, 32, 59}" by auto
  then have "reflect_step spv opc i wc st = Some (reflect_instr opc ws st)"
    by cases (simp_all add: reflect_step_def dec ptr var flag, simp_all add: reflect_instr_def)
  then show "reflect_step spv opc i wc st = Some (reflect_instr opc (take (wc - 1) (drop (i + 1) (spv_words spv))) st)"
    by (simp only: ws_def)
qed

definition input_instr :: "u32 \<Rightarrow> words \<Rightarrow> input_tab \<Rightarrow> input_tab \<times> bool" where
  "input_instr opc ws t = (
     if opc = 71 \<and> 3 \<le> length ws \<and> ws ! 0 < MAXID \<and> ws ! 1 = 30 then
       t\<lparr>has_loc := (has_loc t)(ws ! 0 := True), dec_loc := (dec_loc t)(ws ! 0 := ws ! 2)\<rparr>
     else if opc = 32 \<and> 3 \<le> length ws \<and> ws ! 0 < MAXID then t\<lparr>in_pointee := (in_pointee t)(ws ! 0 := ws ! 2)\<rparr>
     else if opc = 23 \<and> 3 \<le> length ws \<and> ws ! 0 < MAXID then
       t\<lparr>vec_comp := (vec_comp t)(ws ! 0 := if ws ! 2 > 4 then 4 else ucast (ws ! 2))\<rparr>
     else if opc = 22 \<and> ws \<noteq> [] \<and> ws ! 0 < MAXID then t\<lparr>vec_comp := (vec_comp t)(ws ! 0 := 1)\<rparr>
     else if opc = 59 \<and> 3 \<le> length ws \<and> ws ! 1 < MAXID then
       t\<lparr>in_var := (in_var t)(ws ! 1 := True), in_ptr := (in_ptr t)(ws ! 1 := ws ! 0), in_sc := (in_sc t)(ws ! 1 := ws ! 2)\<rparr>
     else t, True)"

interpretation input: instr_visitor spv "input_step spv" input_instr for spv
proof
  fix wc i :: nat and opc :: u32 and st :: input_tab
  assume w: "0 < wc" "i + wc \<le> length spv div 4"
  define ws where "ws = take (wc - 1) (drop (i + 1) (spv_words spv))"
  have len: "length ws = wc - 1" using w by (simp add: ws_def)
  have r: "word_at spv i (Suc 0) = Some (ws ! 0)" if "2 \<le> wc" using operand_word[OF w(2), of 1] that by (simp add: ws_def)
  have r3: "word_at spv i (Suc 0) = Some (ws ! 0)" "word_at spv i 2 = Some (ws ! 1)" "word_at spv i 3 = Some (ws ! 2)" if "4 \<le> wc"
    using operand_word[OF w(2), of 1] operand_word[OF w(2), of 2] operand_word[OF w(2), of 3] that by (simp_all add: ws_def)
  have c: "(3 \<le> length ws) = (4 \<le> wc)" "(ws \<noteq> []) = (2 \<le> wc)"
    using len w(1) by (auto simp: length_0_conv[symmetric] simp del: length_0_conv)
  consider "opc = 71" | "opc = 32" | "opc = 23" | "opc = 22" | "opc = 59" | "opc \<notin> {71, 32, 23, 22, 59}" by auto
  then have "input_step spv opc i wc st = Some (input_instr opc ws st)"
    unfolding input_instr_def c by cases (simp_all add: input_step_def tab_set_def r r3)
  then show "input_step spv opc i wc st = Some (input_instr opc (take (wc - 1) (drop (i + 1) (spv_words spv))) st)"
    by (simp only: ws_def)
qed

subsection \<open>Reflection is total and sorted\<close>

definition instrs_of :: "bytes \<Rightarrow> (u32 \<times> words) list" where
  "instrs_of spv = decode_instrs (drop 5 (spv_words spv))"

definition spv_module :: "bytes \<Rightarrow> bool" where
  "spv_module spv \<longleftrightarrow> 20 \<le> length spv \<and> spv_words spv ! 0 = SPV_MAGIC"

lemma header_ok: "spv_header_ok spv = Some (spv_module spv)"
  using spv_words_nth[of 0 spv] by (auto simp: spv_header_ok_def spv_module_def)

lemma id_loop_total: "(\<And>k. k \<in> set ks \<Longrightarrow> f (of_nat k) = Some (g k)) \<Longrightarrow> id_loop f ks = Some (concat (map g ks))"
  by (induction ks) auto

definition pure_bindings :: "reflect_tab \<Rightarrow> lagfx_spv_binding list" where
  "pure_bindings t = concat (map (\<lambda>k. the (binding_of t (of_nat k))) [0..<unat MAXID])"

lemma of_nat_MAXID: "k < unat MAXID \<Longrightarrow> (of_nat k :: u32) < MAXID"
  by (simp add: word_less_nat_alt MAXID_def unat_of_nat_small)

lemma binding_of_total: "k < MAXID \<Longrightarrow> \<exists>bs. binding_of t k = Some bs"
  by (simp add: binding_of_def binding_kind_def tab_get_def)

lemma input_of_total: "k < MAXID \<Longrightarrow> \<exists>vs. input_of t k = Some vs"
  by (simp add: input_of_def tab_get_def)

lemma bindings_loop: "id_loop (binding_of t) [0..<unat MAXID] = Some (pure_bindings t)"
  unfolding pure_bindings_def by (rule id_loop_total) (use binding_of_total of_nat_MAXID in fastforce)

definition pure_inputs :: "input_tab \<Rightarrow> lagfx_spv_vertex_input list" where
  "pure_inputs t = concat (map (\<lambda>k. the (input_of t (of_nat k))) [0..<unat MAXID])"

lemma inputs_loop: "id_loop (input_of t) [0..<unat MAXID] = Some (pure_inputs t)"
  unfolding pure_inputs_def by (rule id_loop_total) (use input_of_total of_nat_MAXID in fastforce)

lemma reflect_bindings_eq:
  "lagfx_spv_reflect_bindings spv capacity = Some (
     if spv_module spv then
       let bs = pure_bindings (visit reflect_instr (instrs_of spv) reflect_new) in
       (insertion_sort binding_gt (take capacity bs), length bs)
     else ([], 0))"
  by (simp add: lagfx_spv_reflect_bindings_def header_ok reflect.walk_visits instrs_of_def bindings_loop Let_def)

lemma reflect_inputs_eq:
  "lagfx_spv_reflect_vertex_inputs spv capacity = Some (
     if spv_module spv then
       let vs = pure_inputs (visit input_instr (instrs_of spv) input_new) in
       (insertion_sort (\<lambda>x key. vi_location x > vi_location key) (take capacity vs), length vs)
     else ([], 0))"
  by (simp add: lagfx_spv_reflect_vertex_inputs_def header_ok input.walk_visits instrs_of_def inputs_loop Let_def)

lemma visit_image: "visit image_instr is found \<longleftrightarrow> found \<or> (\<exists>x \<in> set is. is_image_op (fst x))"
proof (induction "is" arbitrary: found)
  case (Cons x xs)
  then show ?case by (cases x) (auto simp: image_instr_def)
qed simp

lemma image_sample_eq:
  "lagfx_spv_has_image_sample spv = Some (spv_module spv \<and> (\<exists>x \<in> set (instrs_of spv). is_image_op (fst x)))"
  by (simp add: lagfx_spv_has_image_sample_def header_ok image.walk_visits visit_image instrs_of_def)

text \<open>The insertion sort permutes and sorts.\<close>

lemma sift_down_mset: "mset (sift_down gt key xs) = add_mset key (mset xs)"
  by (induction xs) auto

lemma insertion_sort_mset: "mset (insertion_sort gt xs) = mset xs"
proof -
  have "mset (fold (sift_down gt) xs ys) = mset xs + mset ys" for ys
    by (induction xs arbitrary: ys) (auto simp: sift_down_mset)
  then show ?thesis by (simp add: insertion_sort_def)
qed

lemma sift_down_set: "set (sift_down gt key xs) = insert key (set xs)"
  by (metis sift_down_mset set_mset_add_mset_insert set_mset_mset)

lemma sift_down_sorted:
  fixes key :: "'a \<Rightarrow> 'k :: linorder"
  shows "sorted (rev (map key xs)) \<Longrightarrow> sorted (rev (map key (sift_down (\<lambda>x y. key x > key y) k xs)))"
  by (induction xs) (auto simp: sorted_append sift_down_set)

lemma insertion_sort_sorted:
  fixes key :: "'a \<Rightarrow> 'k :: linorder"
  shows "sorted (map key (insertion_sort (\<lambda>x y. key x > key y) xs))"
proof -
  have "sorted (rev (map key ys)) \<Longrightarrow> sorted (rev (map key (fold (sift_down (\<lambda>x y. key x > key y)) xs ys)))" for ys
    by (induction xs arbitrary: ys) (simp_all add: sift_down_sorted)
  then show ?thesis by (simp add: insertion_sort_def rev_map)
qed

lemma bindings_sorted: "sorted (map (\<lambda>b. (bd_set b, bd_binding b)) (insertion_sort binding_gt xs))"
proof -
  have "binding_gt = (\<lambda>x y. (bd_set x, bd_binding x) > (bd_set y, bd_binding y))"
    by (auto simp: fun_eq_iff binding_gt_def less_prod_def')
  then show ?thesis using insertion_sort_sorted[of "\<lambda>b. (bd_set b, bd_binding b)" xs] by simp
qed

subsection \<open>Decoding what the builder wrote\<close>

text \<open>The operations in the order of the finished module.\<close>

fun layout_ops :: "spv_op list \<Rightarrow> spv_op list" where
  "layout_ops [] = []"
| "layout_ops (Mark_locals # ops) = filter is_local (takeWhile (\<lambda>x. x \<noteq> Mark_locals) ops) @ layout_ops ops"
| "layout_ops (x # ops) = (if op_section x = Some SEC_FUNCS then [x] else []) @ layout_ops ops"

definition section_ops :: "spv_sec \<Rightarrow> spv_op list \<Rightarrow> spv_op list" where
  "section_ops k ops = filter (\<lambda>x. op_section x = Some k) ops"

definition arrange :: "spv_op list \<Rightarrow> spv_op list" where
  "arrange ops = section_ops SEC_CAPS ops @ section_ops SEC_PREAMBLE ops @ section_ops SEC_ANNOT ops @
     section_ops SEC_TYPES ops @ layout_ops ops"

lemma layout_words: "layout ops = concat (map op_words (layout_ops ops))"
  by (induction ops rule: layout.induct) simp_all

lemma finish_arrange:
  "run_ops ops (lagfx_spv_builder_create n) = Some b \<Longrightarrow>
   finish_words b = Some (module_header 1 @ concat (map op_words (arrange ops)))"
  using finish_layout[of ops n b] by (simp add: arrange_def layout_words section_words_def section_ops_def)

text \<open>Opcode and operands of an operation, in 16 bits of word count.\<close>

fun op_instr :: "spv_op \<Rightarrow> u32 \<times> words" where
  "op_instr (Emit_op opc operands) = (opc AND 0xFFFF, operands)"
| "op_instr (Emit_string opc prefix str suffix) = (opc AND 0xFFFF, prefix @ pack_string str @ suffix)"
| "op_instr (Local_var p r) = (59, [p, r, 7])"
| "op_instr Mark_locals = (0, [])"

lemma and_ffff: "(w :: u32) AND 0xFFFF = take_bit 16 w"
  by (simp add: take_bit_eq_mask mask_eq_exp_minus_1)

lemma header_fields:
  "drop_bit 16 (op_header w opc) = take_bit 16 w" "op_header w opc AND 0xFFFF = opc AND 0xFFFF"
  unfolding op_header_def and_ffff by (rule bit_eqI; auto simp: bit_simps)+

lemma header_count: "n < 65536 \<Longrightarrow> unat (drop_bit 16 (op_header (of_nat n) opc)) = n"
proof -
  assume n: "n < 65536"
  have "take_bit 16 (of_nat n :: u32) = of_nat (take_bit 16 n)" by (simp add: take_bit_of_nat)
  then show ?thesis using n by (simp add: header_fields take_bit_nat_eq_self unat_of_nat_small)
qed

lemma decode_op:
  assumes "length (op_words x) < 65536" "x \<noteq> Mark_locals"
  shows "decode_instrs (op_words x @ ws) = op_instr x # decode_instrs ws"
proof -
  have dec: "decode_instrs (op_header (of_nat (Suc (length args))) opc # args @ ws) = (opc AND 0xFFFF, args) # decode_instrs ws"
    if "Suc (length args) < 65536" for opc args
    using header_count[OF that, of opc] by (simp add: header_fields Let_def)
  show ?thesis
  proof (cases x)
    case (Emit_op opc operands)
    then show ?thesis using dec[of operands opc] assms(1) by simp
  next
    case (Emit_string opc prefix str suffix)
    have "1 + of_nat (length prefix) + of_nat (length str div 4 + 1) + of_nat (length suffix) =
        (of_nat (Suc (length (prefix @ pack_string str @ suffix))) :: u32)"
      by (simp add: pack_string_def add_ac)
    then have "op_words x = op_header (of_nat (Suc (length (prefix @ pack_string str @ suffix)))) opc # prefix @ pack_string str @ suffix"
      unfolding Emit_string op_words.simps by (simp only:)
    then show ?thesis
      using dec[of "prefix @ pack_string str @ suffix" opc] assms(1) unfolding Emit_string
      by (simp only: list.size op_instr.simps append_Cons append_assoc)
  next
    case (Local_var p r)
    have "push_bit 16 4 OR 59 = op_header (of_nat (Suc (length [p, r, 7]))) 59" "(59 :: u32) AND 0xFFFF = 59" by (code_simp)+
    then show ?thesis using dec[of "[p, r, 7]" 59] Local_var by (simp add: local_var_words_def)
  qed (use assms(2) in simp)
qed

lemma decode_ops:
  "list_all (\<lambda>x. length (op_words x) < 65536 \<and> x \<noteq> Mark_locals) xs \<Longrightarrow>
   decode_instrs (concat (map op_words xs)) = map op_instr xs"
  by (induction xs) (simp_all add: decode_op)

lemma spv_words_bytes: "spv_words (concat (map le_bytes32 ws)) = ws"
proof -
  have len: "length (concat (map le_bytes32 ws)) = 4 * length ws" for ws by (induction ws) simp_all
  have "le32_at (concat (map le_bytes32 ws)) (i * 4) = ws ! i" if "i < length ws" for i
  proof -
    have "concat (map le_bytes32 ws) = concat (map le_bytes32 (take i ws)) @ le_bytes32 (ws ! i) @ concat (map le_bytes32 (drop (Suc i) ws))"
      using id_take_nth_drop[OF that] by (metis concat_append list.simps(9) map_append concat.simps(2))
    then show ?thesis using that len[of "take i ws"] by (simp add: le32_at_def)
  qed
  then show ?thesis by (auto simp: spv_words_def len intro: nth_equalityI)
qed

lemma layout_ops_set: "set (layout_ops ops) \<subseteq> set ops - {Mark_locals}"
  by (induction ops rule: layout_ops.induct) (auto simp: is_local_def dest: set_takeWhileD)

lemma arrange_set: "set (arrange ops) \<subseteq> set ops - {Mark_locals}"
  using layout_ops_set[of ops] by (auto simp: arrange_def section_ops_def)

text \<open>Nothing that was emitted is lost: the arranged operations are all operations but the marks.\<close>

lemma layout_ops_mset:
  "mset (layout_ops ops) + mset (filter is_local (takeWhile (\<lambda>x. x \<noteq> Mark_locals) ops)) =
   mset (filter (\<lambda>x. is_local x \<or> op_section x = Some SEC_FUNCS) ops)"
  by (induction ops rule: layout_ops.induct) (auto simp: is_local_def add.commute)

lemma unmarked_none: "locals_marked False ops \<Longrightarrow> filter is_local (takeWhile (\<lambda>x. x \<noteq> Mark_locals) ops) = []"
  by (induction ops) auto

lemma sections_mset:
  "mset (section_ops SEC_CAPS ops) + mset (section_ops SEC_PREAMBLE ops) + mset (section_ops SEC_ANNOT ops) +
   mset (section_ops SEC_TYPES ops) + mset (filter (\<lambda>x. is_local x \<or> op_section x = Some SEC_FUNCS) ops) =
   mset (filter (\<lambda>x. x \<noteq> Mark_locals) ops)"
proof (induction ops)
  case (Cons x ops)
  show ?case
  proof (cases "op_section x")
    case None
    then show ?thesis using Cons.IH by (cases "x = Mark_locals") (simp_all add: section_ops_def is_local_def)
  next
    case (Some k)
    then have "x \<noteq> Mark_locals" "\<not> is_local x" by (auto simp: is_local_def)
    then show ?thesis using Cons.IH Some by (cases k) (simp_all add: section_ops_def)
  qed
qed (simp add: section_ops_def)

lemma arrange_mset: "locals_marked False ops \<Longrightarrow> mset (arrange ops) = mset (filter (\<lambda>x. x \<noteq> Mark_locals) ops)"
  using layout_ops_mset[of ops] sections_mset[of ops] by (simp add: arrange_def unmarked_none add.assoc)

lemma finish_decodes:
  assumes "run_ops ops (lagfx_spv_builder_create n) = Some b" "list_all (\<lambda>x. length (op_words x) < 65536) ops"
  shows "\<exists>spv. lagfx_spv_builder_finish b = Some spv \<and> spv_module spv \<and> instrs_of spv = map op_instr (arrange ops)"
proof -
  let ?ws = "module_header 1 @ concat (map op_words (arrange ops))"
  let ?spv = "concat (map le_bytes32 ?ws)"
  have f: "lagfx_spv_builder_finish b = Some ?spv" using finish_arrange[OF assms(1)] by (simp add: lagfx_spv_builder_finish_def)
  have w: "spv_words ?spv = ?ws" by (rule spv_words_bytes)
  have "list_all (\<lambda>x. length (op_words x) < 65536 \<and> x \<noteq> Mark_locals) (arrange ops)"
    using assms(2) arrange_set[of ops] by (auto simp: list_all_iff)
  then have "instrs_of ?spv = map op_instr (arrange ops)"
    unfolding instrs_of_def w by (simp add: module_header_def decode_ops)
  moreover have "spv_module ?spv"
  proof -
    have "length ?spv div 4 = length ?ws" using w length_spv_words by metis
    then have "20 \<le> length ?spv" by (simp add: module_header_def)
    then show ?thesis unfolding spv_module_def w by (simp add: module_header_def LAGFX_SPV_MAGIC_def SPV_MAGIC_def)
  qed
  ultimately show ?thesis using f by blast
qed

subsection \<open>Relocating bindings\<close>

definition shift_args :: "u32 \<Rightarrow> u32 \<Rightarrow> words \<Rightarrow> words" where
  "shift_args base opc ws = (if opc = 71 \<and> 3 \<le> length ws \<and> ws ! 1 = 33 then ws[2 := ws ! 2 + base] else ws)"

function shift_words :: "u32 \<Rightarrow> words \<Rightarrow> words" where
  "shift_words base [] = []"
| "shift_words base (h # ws) =
     (let wc = unat (drop_bit 16 h) in
      if wc = 0 \<or> length ws < wc - 1 then h # ws
      else h # shift_args base (h AND 0xFFFF) (take (wc - 1) ws) @ shift_words base (drop (wc - 1) ws))"
  by pat_completeness auto
termination
  by (relation "measure (\<lambda>(base, ws). length ws)") auto

lemma length_shift_args [simp]: "length (shift_args base opc ws) = length ws"
  by (simp add: shift_args_def)

lemma length_shift_words [simp]: "length (shift_words base ws) = length ws"
  by (induction base ws rule: shift_words.induct) (auto simp: Let_def)

lemma decode_shift: "decode_instrs (shift_words base ws) = map (\<lambda>(opc, args). (opc, shift_args base opc args)) (decode_instrs ws)"
proof (induction base ws rule: shift_words.induct)
  case (2 base h ws)
  let ?wc = "unat (drop_bit 16 h)"
  show ?case
  proof (cases "?wc = 0 \<or> length ws < ?wc - 1")
    case False
    then show ?thesis using "2.IH"[OF refl False] by (simp add: Let_def)
  qed (auto simp: Let_def)
qed simp

lemma put_word:
  assumes "j < length spv div 4"
  shows "\<exists>spv'. lagfx_put_le32 spv (j * 4) v = Some spv' \<and> length spv' = length spv \<and> spv_words spv' = (spv_words spv)[j := v] \<and>
     drop (length spv div 4 * 4) spv' = drop (length spv div 4 * 4) spv"
proof -
  have in_b: "j * 4 + 4 \<le> length spv" using assms by simp
  let ?s = "patch spv (j * 4) (le_bytes32 v)"
  have l: "length ?s = length spv" using in_b by simp
  have "le32_at ?s (i * 4) = (spv_words spv)[j := v] ! i" if "i < length spv div 4" for i
  proof (cases "i = j")
    case True
    then show ?thesis using that le_patch_same(2)[OF in_b, of v] by (simp add: le32_at_def)
  next
    case False
    then have "i * 4 + 4 \<le> j * 4 \<or> j * 4 + 4 \<le> i * 4" by linarith
    then show ?thesis
      using that False le_patch_other(2)[of "j * 4" "le_bytes32 v" spv "i * 4"] in_b by (simp add: le32_at_def spv_words_def)
  qed
  then have "spv_words ?s = (spv_words spv)[j := v]" by (intro nth_equalityI) (simp_all add: l, simp add: spv_words_def l)
  moreover have "drop (length spv div 4 * 4) ?s = drop (length spv div 4 * 4) spv"
  proof -
    have "j * 4 + 4 \<le> length spv div 4 * 4" using assms by linarith
    then show ?thesis using in_b by (simp add: patch_def)
  qed
  ultimately show ?thesis using in_b wr_patch(3)[OF in_b, of v] l by simp
qed

lemma update_third: "length xs = i + 1 \<Longrightarrow> 3 \<le> length ys \<Longrightarrow> (xs @ ys @ zs)[i + 3 := v] = xs @ ys[2 := v] @ zs"
  by (simp add: list_update_append)

lemma offset_step_words:
  assumes "0 < wc" "i + wc \<le> length spv div 4"
  shows "\<exists>spv'. offset_step base opc i wc spv = Some (spv', True) \<and> length spv' = length spv \<and>
     spv_words spv' = take (i + 1) (spv_words spv) @ shift_args base opc (take (wc - 1) (drop (i + 1) (spv_words spv))) @ drop (i + wc) (spv_words spv) \<and>
     drop (length spv div 4 * 4) spv' = drop (length spv div 4 * 4) spv"
proof -
  let ?W = "spv_words spv" and ?args = "take (wc - 1) (drop (i + 1) (spv_words spv))"
  have split: "?W = take (i + 1) ?W @ ?args @ drop (i + wc) ?W"
    using append_take_drop_id[of "wc - 1" "drop (i + 1) ?W"] assms(1) by (simp add: add.commute)
  have r: "word_at spv i 2 = Some (?args ! 1)" "word_at spv i 3 = Some (?args ! 2)" if "4 \<le> wc"
    using operand_word[OF assms(2), of 2] operand_word[OF assms(2), of 3] that by simp_all
  have len: "length ?args = wc - 1" using assms by simp
  show ?thesis
  proof (cases "opc = 71 \<and> 4 \<le> wc \<and> ?args ! 1 = 33")
    case True
    have j: "i + 3 < length spv div 4" using True assms(2) by linarith
    obtain spv' where p: "lagfx_put_le32 spv ((i + 3) * 4) (?args ! 2 + base) = Some spv'" "length spv' = length spv"
      "spv_words spv' = ?W[i + 3 := ?args ! 2 + base]" "drop (length spv div 4 * 4) spv' = drop (length spv div 4 * 4) spv"
      using put_word[OF j] by blast
    have "3 \<le> length ?args" unfolding len using True by linarith
    note u = update_third[OF _ this]
    have "shift_args base opc ?args = ?args[2 := ?args ! 2 + base]" using \<open>3 \<le> length ?args\<close> True unfolding shift_args_def by simp
    moreover have "?W[i + 3 := v] = take (i + 1) ?W @ ?args[2 := v] @ drop (i + wc) ?W" for v
      using u[of "take (i + 1) ?W" i "drop (i + wc) ?W" v] split j by simp
    moreover have "offset_step base opc i wc spv = Some (spv', True)"
      using True p(1) r by (simp add: offset_step_def OP_DECORATE_def DECOR_BINDING_def)
    ultimately show ?thesis using p by simp
  next
    case False
    have "shift_args base opc ?args = ?args" using False len by (auto simp: shift_args_def)
    moreover have "offset_step base opc i wc spv = Some (spv, True)"
      using False r by (auto simp: offset_step_def OP_DECORATE_def DECOR_BINDING_def)
    ultimately show ?thesis using split by simp
  qed
qed

lemma offset_walk:
  "\<exists>spv'. instr_walk (\<lambda>s. s) (offset_step base) (length spv div 4) i spv = Some spv' \<and> length spv' = length spv \<and>
     spv_words spv' = take i (spv_words spv) @ shift_words base (drop i (spv_words spv)) \<and>
     drop (length spv div 4 * 4) spv' = drop (length spv div 4 * 4) spv"
proof (induction "length spv div 4 - i" arbitrary: i spv rule: less_induct)
  case less
  let ?n = "length spv div 4" and ?w = "spv_words spv"
  show ?case
  proof (cases "i < ?n")
    case True
    have d: "drop i ?w = ?w ! i # drop (i + 1) ?w" using True by (simp add: Cons_nth_drop_Suc)
    note r = spv_words_nth[OF True]
    let ?wc = "unat (drop_bit 16 (?w ! i))" and ?opc = "?w ! i AND 0xFFFF"
    have l: "(length (drop (i + 1) ?w) < ?wc - 1) = (?n < i + ?wc)" if "?wc \<noteq> 0" using True that by auto
    show ?thesis
    proof (cases "?wc = 0 \<or> ?n < i + ?wc")
      case stop: True
      then have "shift_words base (drop i ?w) = drop i ?w" using l unfolding d by (auto simp: Let_def)
      then show ?thesis using True r stop by (subst instr_walk.simps) (simp add: Let_def)
    next
      case False
      let ?args = "take (?wc - 1) (drop (i + 1) ?w)"
      have b: "0 < ?wc" "i + ?wc \<le> ?n" using False by auto
      obtain s1 where s1: "offset_step base ?opc i ?wc spv = Some (s1, True)" "length s1 = length spv"
        "spv_words s1 = take (i + 1) ?w @ shift_args base ?opc ?args @ drop (i + ?wc) ?w"
        "drop (?n * 4) s1 = drop (?n * 4) spv"
        using offset_step_words[OF b, of base ?opc] by blast
      have lp: "length (take (i + 1) ?w @ shift_args base ?opc ?args) = i + ?wc" using b True by simp
      have "?n - (i + ?wc) < ?n - i" using b True by linarith
      then obtain s2 where s2: "instr_walk (\<lambda>s. s) (offset_step base) ?n (i + ?wc) s1 = Some s2" "length s2 = length spv"
        "spv_words s2 = take (i + ?wc) (spv_words s1) @ shift_words base (drop (i + ?wc) (spv_words s1))"
        "drop (?n * 4) s2 = drop (?n * 4) spv"
        using less.hyps[of s1 "i + ?wc"] s1(2,4) by auto
      have tk: "take k (xs @ ys @ zs) = xs @ ys" "drop k (xs @ ys @ zs) = zs" if "length (xs @ ys) = k" for k and xs ys zs :: words
        using that by auto
      have "take (i + ?wc) (spv_words s1) = take (i + 1) ?w @ shift_args base ?opc ?args"
        "drop (i + ?wc) (spv_words s1) = drop (i + ?wc) ?w"
        unfolding s1(3) by (rule tk[OF lp])+
      moreover have "shift_words base (drop i ?w) = ?w ! i # shift_args base ?opc ?args @ shift_words base (drop (i + ?wc) ?w)"
        using False l unfolding d by (simp add: Let_def add.commute)
      moreover have "take (i + 1) ?w = take i ?w @ [?w ! i]" using True by (simp add: take_Suc_conv_app_nth)
      ultimately have "spv_words s2 = take i ?w @ shift_words base (drop i ?w)" using s2(3) by simp
      moreover have "instr_walk (\<lambda>s. s) (offset_step base) ?n i spv = Some s2"
        using s2(1) s1(1) True False r by (subst instr_walk.simps) (simp add: Let_def)
      ultimately show ?thesis using s2(2,4) by blast
    qed
  next
    case False
    then show ?thesis by (subst instr_walk.simps) simp
  qed
qed

lemma offset_bindings_instrs:
  assumes "spv_module spv"
  shows "\<exists>spv'. lagfx_spv_offset_bindings base spv = Some spv' \<and> length spv' = length spv \<and>
     take 5 (spv_words spv') = take 5 (spv_words spv) \<and>
     instrs_of spv' = map (\<lambda>(opc, args). (opc, shift_args base opc args)) (instrs_of spv)"
proof (cases "base = 0")
  case True
  have "shift_args 0 opc args = args" for opc args by (simp add: shift_args_def)
  then show ?thesis using True by (simp add: lagfx_spv_offset_bindings_def)
next
  case False
  have m: "20 \<le> length spv" using assms by (simp add: spv_module_def)
  then have "0 < length spv div 4" by linarith
  then have magic: "lagfx_le32 spv 0 = Some SPV_MAGIC"
    using assms spv_words_nth[of 0 spv] by (simp add: spv_module_def)
  obtain spv' where s: "instr_walk (\<lambda>s. s) (offset_step base) (length spv div 4) 5 spv = Some spv'" "length spv' = length spv"
    "spv_words spv' = take 5 (spv_words spv) @ shift_words base (drop 5 (spv_words spv))"
    using offset_walk[of base spv 5] by blast
  have "lagfx_spv_offset_bindings base spv = Some spv'" using False m magic s(1) by (simp add: lagfx_spv_offset_bindings_def)
  moreover have "5 \<le> length (spv_words spv)" using m by simp
  ultimately show ?thesis using s by (simp add: instrs_of_def decode_shift)
qed

end
