(* ===== verification/EntryRewrite.thy ===== *)
theory EntryRewrite
  imports SpvFacts
begin

text \<open>
  The entry-point rewriter \<^verbatim>\<open>src/air2spirv/spv_entrypoint_rewrite.c\<close>: it checks a SPIR-V module,
  finds the function with a given debug name, drops capabilities and decorations Vulkan does
  not know, and inserts an entry point behind the memory model.  The module is a list of
  32-bit words with checked reads, the output a buffer of the size the code allocates with
  checked stores; \<^const>\<open>None\<close> is an access outside, or a second pass that does not advance.  The
  theory shows that neither happens, and describes the output by its instructions.
\<close>

unbundle bit_operations_syntax

subsection \<open>Words and strings\<close>

datatype lagfx_spv_stage = LAGFX_SPV_STAGE_VERTEX | LAGFX_SPV_STAGE_FRAGMENT

fun spv_stage_word :: "lagfx_spv_stage \<Rightarrow> u32" where
  "spv_stage_word LAGFX_SPV_STAGE_VERTEX = 0"
| "spv_stage_word LAGFX_SPV_STAGE_FRAGMENT = 4"

definition rd_word :: "words \<Rightarrow> nat \<Rightarrow> u32 option" where
  "rd_word ws i = (if i < length ws then Some (ws ! i) else None)"

definition spv_pack_insn :: "u32 \<Rightarrow> u32 \<Rightarrow> u32" where
  "spv_pack_insn word_count opcode = push_bit 16 word_count OR (opcode AND 0xFFFF)"

definition spv_unpack_insn :: "u32 \<Rightarrow> u32 \<times> u32" where
  "spv_unpack_insn w = (drop_bit 16 w AND 0xFFFF, w AND 0xFFFF)"

definition lagfx_spv_has_magic :: "bytes \<Rightarrow> bool option" where
  "lagfx_spv_has_magic buf =
     (if length buf < 4 then Some False
      else do {
        b0 \<leftarrow> rd8 buf 0; b1 \<leftarrow> rd8 buf 1; b2 \<leftarrow> rd8 buf 2; b3 \<leftarrow> rd8 buf 3;
        Some (b0 = 0x03 \<and> b1 = 0x02 \<and> b2 = 0x23 \<and> b3 = 0x07) })"

text \<open>Byte \<open>i\<close> of an array of words, and a C string with its terminator.\<close>

definition rd_byte :: "words \<Rightarrow> nat \<Rightarrow> u8 option" where
  "rd_byte ws i = do { w \<leftarrow> rd_word ws (i div 4); Some (ucast (drop_bit (8 * (i mod 4)) w)) }"

definition c_char :: "bytes \<Rightarrow> nat \<Rightarrow> u8 option" where
  "c_char s i = (if i < length s then Some (s ! i) else if i = length s then Some 0 else None)"

function str_eq_loop :: "words \<Rightarrow> nat \<Rightarrow> nat \<Rightarrow> bytes \<Rightarrow> nat \<Rightarrow> bool option" where
  "str_eq_loop ws start max_bytes s i =
     (if i < max_bytes then do {
        b \<leftarrow> rd_byte ws (4 * start + i);
        c \<leftarrow> c_char s i;
        if b = 0 then Some (c = 0)
        else if c = 0 then Some False
        else if b \<noteq> c then Some False
        else str_eq_loop ws start max_bytes s (i + 1) }
      else Some False)"
  by pat_completeness auto
termination
  by (relation "measure (\<lambda>(_, _, m, _, i). m - i)") auto

declare str_eq_loop.simps [simp del]

definition spv_str_eq :: "words \<Rightarrow> nat \<Rightarrow> nat \<Rightarrow> bytes \<Rightarrow> bool option" where
  "spv_str_eq ws start max_words s = str_eq_loop ws start (max_words * 4) s 0"

definition spv_pack_string :: "bytes \<Rightarrow> words" where
  "spv_pack_string s =
     (let n = (length s + 1 + 3) div 4; padded = s @ replicate (n * 4 - length s) 0 in
      map (\<lambda>w. le32_at padded (w * 4)) [0..<n])"

subsection \<open>Pass 1\<close>

record scan_state =
  fn_id :: u32
  found_fn :: bool
  has_shader_cap :: bool

definition scan_insn :: "words \<Rightarrow> bytes \<Rightarrow> u32 \<Rightarrow> nat \<Rightarrow> nat \<Rightarrow> scan_state \<Rightarrow> scan_state option" where
  "scan_insn ws entry_name opc i wc st =
     (if opc = 17 then
        if 2 \<le> wc then do {
          cap \<leftarrow> rd_word ws (i + 1);
          Some (if cap = 1 then st\<lparr>has_shader_cap := True\<rparr> else st) }
        else Some st
      else if opc = 5 then
        if 3 \<le> wc then do {
          target_id \<leftarrow> rd_word ws (i + 1);
          e \<leftarrow> spv_str_eq ws (i + 2) (wc - 2) entry_name;
          Some (if e then st\<lparr>fn_id := target_id, found_fn := True\<rparr> else st) }
        else Some st
      else Some st)"

function scan_insns :: "words \<Rightarrow> bytes \<Rightarrow> nat \<Rightarrow> scan_state \<Rightarrow> (lagfx_status + scan_state) option" where
  "scan_insns ws entry_name i st =
     (if i < length ws then do {
        h \<leftarrow> rd_word ws i;
        let (wc, opc) = spv_unpack_insn h;
        if wc = 0 \<or> length ws < i + unat wc then Some (Inl LAGFX_ERR_PROTOCOL)
        else do {
          st' \<leftarrow> scan_insn ws entry_name opc i (unat wc) st;
          scan_insns ws entry_name (i + unat wc) st' }}
      else Some (Inr st))"
  by pat_completeness auto
termination
  by (relation "measure (\<lambda>(ws, _, i, _). length ws - i)") (auto intro!: diff_less_mono2 simp: unat_gt_0)

declare scan_insns.simps [simp del]

subsection \<open>Pass 2\<close>

definition drop_insn :: "words \<Rightarrow> u32 \<Rightarrow> nat \<Rightarrow> nat \<Rightarrow> bool option" where
  "drop_insn ws opc i wc =
     (if opc = 17 then
        if 2 \<le> wc then do { cap \<leftarrow> rd_word ws (i + 1); Some (cap = 5 \<or> cap = 6) } else Some False
      else if opc = 71 then
        if 3 \<le> wc then do { dec \<leftarrow> rd_word ws (i + 2); Some (dec = 10 \<or> dec = 41) } else Some False
      else if opc = 72 then
        if 4 \<le> wc then do { dec \<leftarrow> rd_word ws (i + 3); Some (dec = 10 \<or> dec = 41) } else Some False
      else Some False)"

definition spv_emit_words :: "nat \<Rightarrow> words \<Rightarrow> words \<Rightarrow> words option" where
  "spv_emit_words max_out out ws = (if length out + length ws \<le> max_out then Some (out @ ws) else None)"

definition rd_words :: "words \<Rightarrow> nat \<Rightarrow> nat \<Rightarrow> words option" where
  "rd_words ws i n = (if i + n \<le> length ws then Some (take n (drop i ws)) else None)"

definition splice_entry :: "bytes \<Rightarrow> lagfx_spv_stage \<Rightarrow> scan_state \<Rightarrow> nat \<Rightarrow> words \<Rightarrow> words option" where
  "splice_entry entry_name stage st max_out out = do {
     o1 \<leftarrow> (if has_shader_cap st then Some out else spv_emit_words max_out out [spv_pack_insn 2 17, 1]);
     let ep_words = 3 + (length entry_name + 1 + 3) div 4;
     o2 \<leftarrow> spv_emit_words max_out o1 ([spv_pack_insn (of_nat ep_words) 15, spv_stage_word stage, fn_id st] @ spv_pack_string entry_name);
     if stage = LAGFX_SPV_STAGE_FRAGMENT then spv_emit_words max_out o2 [spv_pack_insn 3 16, fn_id st, 7] else Some o2 }"

function emit_insns ::
    "words \<Rightarrow> bytes \<Rightarrow> lagfx_spv_stage \<Rightarrow> scan_state \<Rightarrow> nat \<Rightarrow> nat \<Rightarrow> bool \<Rightarrow> words \<Rightarrow> (bool \<times> words) option" where
  "emit_insns ws entry_name stage st max_out i spliced out =
     (if i < length ws then do {
        h \<leftarrow> rd_word ws i;
        let (wc, opc) = spv_unpack_insn h;
        dropped \<leftarrow> drop_insn ws opc i (unat wc);
        o1 \<leftarrow> (if \<not> dropped then do { body \<leftarrow> rd_words ws i (unat wc); spv_emit_words max_out out body } else Some out);
        let here = (\<not> spliced \<and> opc = 14);
        o2 \<leftarrow> (if here then splice_entry entry_name stage st max_out o1 else Some o1);
        if wc = 0 then None
        else emit_insns ws entry_name stage st max_out (i + unat wc) (spliced \<or> here) o2 }
      else Some (spliced, out))"
  by pat_completeness auto
termination
  by (relation "measure (\<lambda>(ws, _, _, _, _, i, _, _). length ws - i)") (auto intro!: diff_less_mono2 simp: unat_gt_0)

declare emit_insns.simps [simp del]

definition lagfx_spv_rewrite_entry_point :: "bytes \<Rightarrow> bytes \<Rightarrow> lagfx_spv_stage \<Rightarrow> (lagfx_status + bytes) option" where
  "lagfx_spv_rewrite_entry_point in_buf entry_name stage =
     (if entry_name = [] then Some (Inl LAGFX_ERR_INVALID_ARG)
      else do {
        magic \<leftarrow> lagfx_spv_has_magic in_buf;
        if \<not> magic then Some (Inl LAGFX_ERR_INVALID_ARG)
        else if length in_buf < 5 * 4 \<or> length in_buf mod 4 \<noteq> 0 then Some (Inl LAGFX_ERR_PROTOCOL)
        else do {
          let ws = spv_words in_buf;
          r \<leftarrow> scan_insns ws entry_name 5 \<lparr>fn_id = 0, found_fn = False, has_shader_cap = False\<rparr>;
          case r of
            Inl e \<Rightarrow> Some (Inl e)
          | Inr st \<Rightarrow>
              if \<not> found_fn st then Some (Inl LAGFX_ERR_INVALID_ARG)
              else do {
                let max_out = length ws + (2 + 3 + (length entry_name + 1 + 3) div 4 + 3 + 64);
                header \<leftarrow> rd_words ws 0 5;
                (spliced, out) \<leftarrow> emit_insns ws entry_name stage st max_out 5 False header;
                Some (if spliced then Inr (concat (map le_bytes32 out)) else Inl LAGFX_ERR_PROTOCOL) }}})"

subsection \<open>Strings\<close>

definition words_bytes :: "words \<Rightarrow> bytes" where
  "words_bytes ws = concat (map le_bytes32 ws)"

text \<open>A string held by words: terminated, with these characters.\<close>

definition holds_string :: "words \<Rightarrow> bytes \<Rightarrow> bool" where
  "holds_string ws s \<longleftrightarrow> 0 \<in> set (words_bytes ws) \<and> takeWhile (\<lambda>c. c \<noteq> 0) (words_bytes ws) = s"

lemma length_words_bytes [simp]: "length (words_bytes ws) = 4 * length ws"
  by (induction ws) (simp_all add: words_bytes_def)

lemma le_bytes32_nth: "j < 4 \<Longrightarrow> le_bytes32 w ! j = ucast (drop_bit (8 * j) w)"
proof -
  assume "j < 4"
  then consider "j = 0" | "j = 1" | "j = 2" | "j = 3" by linarith
  then show ?thesis by cases (simp_all add: le_bytes32_def and_ff)
qed

lemma words_bytes_nth: "i < 4 * length ws \<Longrightarrow> words_bytes ws ! i = ucast (drop_bit (8 * (i mod 4)) (ws ! (i div 4)))"
proof (induction ws arbitrary: i)
  case (Cons w ws)
  have s: "words_bytes (w # ws) = le_bytes32 w @ words_bytes ws" by (simp add: words_bytes_def)
  show ?case
  proof (cases "i < 4")
    case True
    then show ?thesis by (simp add: s nth_append le_bytes32_nth)
  next
    case False
    then have "i div 4 = Suc ((i - 4) div 4)" "i mod 4 = (i - 4) mod 4" by (simp_all add: le_div_geq le_mod_geq)
    then show ?thesis using False Cons.IH[of "i - 4"] Cons.prems by (simp add: s nth_append)
  qed
qed simp

lemma rd_byte_eq: "i < 4 * length ws \<Longrightarrow> rd_byte ws i = Some (words_bytes ws ! i)"
  by (simp add: rd_byte_def rd_word_def words_bytes_nth)

lemma words_bytes_slice: "words_bytes (take n (drop start ws)) = take (4 * n) (drop (4 * start) (words_bytes ws))"
proof -
  have t: "words_bytes (take n ws) = take (4 * n) (words_bytes ws)" for n ws
    by (induction ws arbitrary: n) (auto simp: words_bytes_def take_Cons' diff_mult_distrib2)
  have d: "words_bytes (drop n ws) = drop (4 * n) (words_bytes ws)" for n ws
    by (induction ws arbitrary: n) (auto simp: words_bytes_def drop_Cons' diff_mult_distrib2)
  show ?thesis by (simp add: t d)
qed

lemma str_eq_loop_eq:
  assumes "start + n \<le> length ws" "0 \<notin> set s" "i \<le> length s"
    and "take i (words_bytes (take n (drop start ws))) = take i s" "i \<le> 4 * n"
  shows "str_eq_loop ws start (n * 4) s i = Some (holds_string (take n (drop start ws)) s)"
  using assms(3-5)
proof (induction "4 * n - i" arbitrary: i rule: less_induct)
  case less
  define B where "B = words_bytes (take n (drop start ws))"
  have len: "length B = 4 * n" using assms(1) by (simp add: B_def)
  have nz: "list_all (\<lambda>c. c \<noteq> 0) (take i B)"
    using assms(2) less.prems(2) by (auto simp: B_def list_all_iff dest: in_set_takeD)
  have split: "takeWhile (\<lambda>c. c \<noteq> 0) B = take i B @ takeWhile (\<lambda>c. c \<noteq> 0) (drop i B)"
    using nz takeWhile_append2[of "take i B" "\<lambda>c. c \<noteq> 0" "drop i B"] by (simp add: list_all_iff)
  have z: "0 \<in> set B \<longleftrightarrow> 0 \<in> set (drop i B)"
    using nz set_append[of "take i B" "drop i B"] by (auto simp: list_all_iff)
  have eq: "take i B @ xs = s \<longleftrightarrow> xs = drop i s" for xs
    using less.prems(2) same_append_eq[of "take i s" xs "drop i s"] unfolding B_def append_take_drop_id by (simp only:)
  have holds: "holds_string (take n (drop start ws)) s \<longleftrightarrow> 0 \<in> set (drop i B) \<and> takeWhile (\<lambda>c. c \<noteq> 0) (drop i B) = drop i s"
    unfolding holds_string_def B_def[symmetric] split z eq ..
  show ?case
  proof (cases "i < 4 * n")
    case True
    have d: "drop i B = B ! i # drop (i + 1) B" using True len by (simp add: Cons_nth_drop_Suc)
    have rb: "rd_byte ws (4 * start + i) = Some (B ! i)"
      using True assms(1) len by (subst rd_byte_eq) (auto simp: B_def words_bytes_slice)
    show ?thesis
    proof (cases "i < length s")
      case in_s: True
      have c: "c_char s i = Some (s ! i)" "s ! i \<noteq> 0"
        using in_s assms(2) nth_mem[OF in_s] by (simp add: c_char_def, metis)
      have ds: "drop i s = s ! i # drop (i + 1) s" using in_s by (simp add: Cons_nth_drop_Suc)
      show ?thesis
      proof (cases "B ! i = s ! i")
        case same: True
        have "take (i + 1) B = take (i + 1) s"
          using less.prems(2) same in_s True len by (simp add: B_def[symmetric] take_Suc_conv_app_nth)
        then have "str_eq_loop ws start (n * 4) s (i + 1) = Some (holds_string (take n (drop start ws)) s)"
          using True in_s by (intro less.hyps) (auto simp: B_def)
        then show ?thesis using True rb c same by (subst str_eq_loop.simps) (simp add: mult.commute)
      next
        case False
        then show ?thesis using True rb c by (subst str_eq_loop.simps) (auto simp: holds d ds mult.commute)
      qed
    next
      case False
      then have "i = length s" using less.prems(1) by simp
      then have "c_char s i = Some 0" "drop i s = []" by (simp_all add: c_char_def)
      then show ?thesis using True rb by (subst str_eq_loop.simps) (auto simp: holds d mult.commute)
    qed
  next
    case False
    then show ?thesis using len by (subst str_eq_loop.simps) (simp add: holds mult.commute)
  qed
qed

lemma spv_str_eq_eq:
  "start + n \<le> length ws \<Longrightarrow> 0 \<notin> set s \<Longrightarrow> spv_str_eq ws start n s = Some (holds_string (take n (drop start ws)) s)"
  unfolding spv_str_eq_def by (rule str_eq_loop_eq) simp_all

text \<open>The packing and the comparison are inverse.\<close>

lemma spv_words_inverse:
  assumes "length P mod 4 = 0"
  shows "words_bytes (spv_words P) = P"
proof (rule nth_equalityI)
  have l: "4 * (length P div 4) = length P" using assms by presburger
  then show "length (words_bytes (spv_words P)) = length P" by simp
  fix i assume "i < length (words_bytes (spv_words P))"
  then have i: "i < length P" "i div 4 < length P div 4" using l by (simp, simp add: less_mult_imp_div_less mult.commute)
  have "i div 4 * 4 + 4 \<le> length P" using i(2) l by linarith
  then have "le_bytes32 (spv_words P ! (i div 4)) = take 4 (drop (i div 4 * 4) P)"
    using spv_words_nth[OF i(2)] by (rule_tac bytes_le32)
  moreover have "words_bytes (spv_words P) ! i = le_bytes32 (spv_words P ! (i div 4)) ! (i mod 4)"
    using i l by (simp add: words_bytes_nth le_bytes32_nth)
  ultimately show "words_bytes (spv_words P) ! i = P ! i" using i(1) by simp
qed

lemma pack_string_bytes:
  "words_bytes (spv_pack_string s) = s @ replicate ((length s + 4) div 4 * 4 - length s) 0"
proof -
  define n where "n = (length s + 4) div 4"
  define P where "P = s @ replicate (n * 4 - length s) 0"
  have "length s < n * 4" unfolding n_def by presburger
  then have len: "length P = n * 4" by (simp add: P_def)
  have "spv_pack_string s = spv_words P"
    by (simp add: spv_pack_string_def spv_words_def len Let_def) (simp add: P_def n_def add.commute)
  then show ?thesis using spv_words_inverse[of P] len unfolding P_def n_def by simp
qed

lemma holds_pack_string: "0 \<notin> set s \<Longrightarrow> holds_string (spv_pack_string s) s"
proof -
  assume s: "0 \<notin> set s"
  have "0 < (length s + 4) div 4 * 4 - length s" by presburger
  then obtain m where m: "(length s + 4) div 4 * 4 - length s = Suc m" using gr0_implies_Suc by blast
  have "takeWhile (\<lambda>c. c \<noteq> 0) s = s" using s by (auto simp: takeWhile_eq_all_conv)
  then show ?thesis using s by (auto simp: holds_string_def pack_string_bytes m takeWhile_append)
qed

lemma length_pack [simp]: "length (spv_pack_string s) = (length s + 4) div 4"
  by (simp add: spv_pack_string_def Let_def)

subsection \<open>Instructions\<close>

text \<open>A stream without a malformed instruction.\<close>

function stream_ok :: "words \<Rightarrow> bool" where
  "stream_ok [] = True"
| "stream_ok (h # ws) =
     (let wc = unat (drop_bit 16 h) in wc \<noteq> 0 \<and> wc - 1 \<le> length ws \<and> stream_ok (drop (wc - 1) ws))"
  by pat_completeness auto
termination
  by (relation "measure length") auto

lemma unpack_eq: "spv_unpack_insn h = (drop_bit 16 h, h AND 0xFFFF)"
proof -
  have "drop_bit 16 h AND 0xFFFF = drop_bit 16 h"
    unfolding and_ffff by (rule bit_eqI) (auto simp: bit_simps dest: bit_imp_le_length)
  then show ?thesis by (simp add: spv_unpack_insn_def)
qed

text \<open>The instruction at a position, as the walk and the decoder see it.\<close>

lemma insn_at:
  assumes "i < length ws" and wc: "unat (drop_bit 16 (ws ! i)) \<noteq> 0" "i + unat (drop_bit 16 (ws ! i)) \<le> length ws"
  defines "n \<equiv> unat (drop_bit 16 (ws ! i))" and "opc \<equiv> ws ! i AND 0xFFFF"
  defines "args \<equiv> take (n - 1) (drop (i + 1) ws)"
  shows "length args = n - 1" "take n (drop i ws) = ws ! i # args" "drop i ws = ws ! i # drop (i + 1) ws"
    "decode_instrs (drop i ws) = (opc, args) # decode_instrs (drop (i + n) ws)"
    "stream_ok (drop i ws) = stream_ok (drop (i + n) ws)"
    "\<And>j. 0 < j \<Longrightarrow> j < n \<Longrightarrow> rd_word ws (i + j) = Some (args ! (j - 1))"
proof -
  show d: "drop i ws = ws ! i # drop (i + 1) ws" using assms(1) by (simp add: Cons_nth_drop_Suc)
  show "length args = n - 1" using wc by (simp add: args_def n_def)
  show "take n (drop i ws) = ws ! i # args" unfolding d args_def using wc(1) by (simp add: n_def take_Cons')
  have l: "\<not> length (drop (i + 1) ws) < n - 1" "drop (n - 1) (drop (i + 1) ws) = drop (i + n) ws"
    using wc by (simp_all add: n_def add.commute)
  show "decode_instrs (drop i ws) = (opc, args) # decode_instrs (drop (i + n) ws)"
    "stream_ok (drop i ws) = stream_ok (drop (i + n) ws)"
    unfolding d decode_instrs.simps stream_ok.simps Let_def n_def[symmetric]
    using l wc(1)[folded n_def] by (simp_all add: opc_def args_def)
  fix j assume "0 < j" "j < n"
  then show "rd_word ws (i + j) = Some (args ! (j - 1))" using wc by (simp add: rd_word_def args_def n_def)
qed

lemma stream_bad:
  assumes "i < length ws" "unat (drop_bit 16 (ws ! i)) = 0 \<or> length ws < i + unat (drop_bit 16 (ws ! i))"
  shows "\<not> stream_ok (drop i ws)"
proof -
  have "drop i ws = ws ! i # drop (i + 1) ws" using assms(1) by (simp add: Cons_nth_drop_Suc)
  then show ?thesis using assms by (auto simp: Let_def)
qed

subsection \<open>What the passes do\<close>

definition scan_instr :: "bytes \<Rightarrow> u32 \<times> words \<Rightarrow> scan_state \<Rightarrow> scan_state" where
  "scan_instr entry_name = (\<lambda>(opc, args) st.
     if opc = 17 \<and> args \<noteq> [] \<and> args ! 0 = 1 then st\<lparr>has_shader_cap := True\<rparr>
     else if opc = 5 \<and> 2 \<le> length args \<and> holds_string (tl args) entry_name then st\<lparr>fn_id := args ! 0, found_fn := True\<rparr>
     else st)"

lemma scan_insn_eq:
  assumes "i < length ws" "unat (drop_bit 16 (ws ! i)) \<noteq> 0" "i + unat (drop_bit 16 (ws ! i)) \<le> length ws" "0 \<notin> set name"
  shows "scan_insn ws name (ws ! i AND 0xFFFF) i (unat (drop_bit 16 (ws ! i))) st =
     Some (scan_instr name (ws ! i AND 0xFFFF, take (unat (drop_bit 16 (ws ! i)) - 1) (drop (i + 1) ws)) st)"
proof -
  define n where "n = unat (drop_bit 16 (ws ! i))"
  define args where "args = take (n - 1) (drop (i + 1) ws)"
  note at = insn_at[OF assms(1-3), folded n_def, folded args_def]
  have r: "rd_word ws (i + 1) = Some (args ! 0)" if "2 \<le> n" using at(6)[of 1] that by simp
  have e: "spv_str_eq ws (i + 2) (n - 2) name = Some (holds_string (tl args) name)" if "3 \<le> n"
  proof -
    have "take (n - 2) (drop (i + 2) ws) = tl args"
      using that by (simp add: args_def tl_take drop_Suc[symmetric] tl_drop numeral_eq_Suc)
    then show ?thesis using spv_str_eq_eq[of "i + 2" "n - 2" ws name] assms(3,4) that by (simp add: n_def)
  qed
  have c: "(args \<noteq> []) = (2 \<le> n)" "(2 \<le> length args) = (3 \<le> n)" using at(1) by (auto simp: length_0_conv[symmetric] simp del: length_0_conv)
  show ?thesis unfolding n_def[symmetric] args_def[symmetric] scan_insn_def scan_instr_def split_conv c
    using r e by auto
qed

lemma scan_insns_eq:
  assumes "0 \<notin> set name"
  shows "scan_insns ws name i st =
     Some (if stream_ok (drop i ws) then Inr (fold (scan_instr name) (decode_instrs (drop i ws)) st) else Inl LAGFX_ERR_PROTOCOL)"
proof (induction "length ws - i" arbitrary: i st rule: less_induct)
  case less
  show ?case
  proof (cases "i < length ws")
    case True
    let ?n = "unat (drop_bit 16 (ws ! i))"
    have r: "rd_word ws i = Some (ws ! i)" using True by (simp add: rd_word_def)
    show ?thesis
    proof (cases "?n = 0 \<or> length ws < i + ?n")
      case bad: True
      then show ?thesis using True r stream_bad[OF True bad]
        by (subst scan_insns.simps) (simp add: unpack_eq unat_eq_0[symmetric] del: unat_eq_0)
    next
      case False
      then have wc: "?n \<noteq> 0" "i + ?n \<le> length ws" by auto
      have lt: "length ws - (i + ?n) < length ws - i" using True wc(1) by linarith
      show ?thesis using True r False scan_insn_eq[OF True wc assms, of st] less.hyps[OF lt] insn_at(4,5)[OF True wc]
        by (subst scan_insns.simps) (simp add: unpack_eq unat_eq_0[symmetric] del: unat_eq_0)
    qed
  next
    case False
    then show ?thesis by (subst scan_insns.simps) simp
  qed
qed

fun dropped_instr :: "u32 \<times> words \<Rightarrow> bool" where
  "dropped_instr (opc, args) \<longleftrightarrow>
     opc = 17 \<and> args \<noteq> [] \<and> args ! 0 \<in> {5, 6} \<or>
     opc = 71 \<and> 2 \<le> length args \<and> args ! 1 \<in> {10, 41} \<or>
     opc = 72 \<and> 3 \<le> length args \<and> args ! 2 \<in> {10, 41}"

declare dropped_instr.simps [simp del]

definition entry_instrs :: "bytes \<Rightarrow> lagfx_spv_stage \<Rightarrow> scan_state \<Rightarrow> (u32 \<times> words) list" where
  "entry_instrs name stage st =
     (if has_shader_cap st then [] else [(17, [1])]) @
     [(15, [spv_stage_word stage, fn_id st] @ spv_pack_string name)] @
     (if stage = LAGFX_SPV_STAGE_FRAGMENT then [(16, [fn_id st, 7])] else [])"

fun rewrite_instrs :: "(u32 \<times> words) list \<Rightarrow> bool \<Rightarrow> (u32 \<times> words) list \<Rightarrow> (u32 \<times> words) list" where
  "rewrite_instrs ins spliced [] = []"
| "rewrite_instrs ins spliced (x # xs) =
     (if dropped_instr x then [] else [x]) @ (if \<not> spliced \<and> fst x = 14 then ins else []) @
     rewrite_instrs ins (spliced \<or> fst x = 14) xs"

text \<open>The words of an instruction.\<close>

definition instr_words :: "u32 \<times> words \<Rightarrow> words" where
  "instr_words x = op_words (Emit_op (fst x) (snd x))"

lemma pack_insn_eq: "spv_pack_insn = op_header"
  by (simp add: fun_eq_iff spv_pack_insn_def op_header_def)

lemma drop_insn_eq:
  assumes "i < length ws" "unat (drop_bit 16 (ws ! i)) \<noteq> 0" "i + unat (drop_bit 16 (ws ! i)) \<le> length ws"
  shows "drop_insn ws (ws ! i AND 0xFFFF) i (unat (drop_bit 16 (ws ! i))) =
     Some (dropped_instr (ws ! i AND 0xFFFF, take (unat (drop_bit 16 (ws ! i)) - 1) (drop (i + 1) ws)))"
proof -
  define n where "n = unat (drop_bit 16 (ws ! i))"
  define args where "args = take (n - 1) (drop (i + 1) ws)"
  note at = insn_at[OF assms, folded n_def, folded args_def]
  have r: "2 \<le> n \<Longrightarrow> rd_word ws (i + 1) = Some (args ! 0)" "3 \<le> n \<Longrightarrow> rd_word ws (i + 2) = Some (args ! 1)"
    "4 \<le> n \<Longrightarrow> rd_word ws (i + 3) = Some (args ! 2)"
    using at(6)[of 1] at(6)[of 2] at(6)[of 3] by simp_all
  have c: "(args \<noteq> []) = (2 \<le> n)" "(2 \<le> length args) = (3 \<le> n)" "(3 \<le> length args) = (4 \<le> n)"
    using at(1) by (auto simp: length_0_conv[symmetric] simp del: length_0_conv)
  show ?thesis unfolding n_def[symmetric] args_def[symmetric] drop_insn_def dropped_instr.simps c
    using r by (auto simp del: One_nat_def)
qed

lemma header_rebuilt: "op_header (drop_bit 16 h) (h AND 0xFFFF) = (h :: u32)"
  unfolding op_header_def and_ffff by (rule bit_eqI) (auto simp: bit_simps)

lemma instr_words_at:
  assumes "i < length ws" "unat (drop_bit 16 (ws ! i)) \<noteq> 0" "i + unat (drop_bit 16 (ws ! i)) \<le> length ws"
  shows "instr_words (ws ! i AND 0xFFFF, take (unat (drop_bit 16 (ws ! i)) - 1) (drop (i + 1) ws)) =
     take (unat (drop_bit 16 (ws ! i))) (drop i ws)"
proof -
  define n where "n = unat (drop_bit 16 (ws ! i))"
  note at = insn_at[OF assms, folded n_def]
  have "1 + of_nat (n - 1) = (of_nat n :: u32)" using assms(2) by (simp add: n_def of_nat_diff)
  also have "\<dots> = drop_bit 16 (ws ! i)" by (simp add: n_def)
  finally have "1 + of_nat (n - 1) = drop_bit 16 (ws ! i)" .
  then show ?thesis using at(1,2) header_rebuilt unfolding n_def[symmetric] instr_words_def by simp
qed

text \<open>The room left for the entry point.\<close>

definition entry_room :: "bytes \<Rightarrow> nat" where
  "entry_room name = 2 + 3 + (length name + 4) div 4 + 3"

lemma entry_room_enough: "length (concat (map instr_words (entry_instrs name stage st))) \<le> entry_room name"
  by (auto simp: entry_instrs_def instr_words_def entry_room_def)

lemma splice_entry_eq:
  assumes "length out + entry_room name \<le> max_out"
  shows "splice_entry name stage st max_out out = Some (out @ concat (map instr_words (entry_instrs name stage st)))"
proof -
  have "(of_nat (3 + (length name + 4) div 4) :: u32) = 1 + of_nat (length ([spv_stage_word stage, fn_id st] @ spv_pack_string name))"
    by simp
  then show ?thesis using assms
    by (auto simp: splice_entry_def spv_emit_words_def entry_instrs_def instr_words_def entry_room_def pack_insn_eq Let_def add.commute)
qed

lemma emit_insns_eq:
  assumes "stream_ok (drop i ws)" "length out + length (drop i ws) + (if spliced then 0 else entry_room name) \<le> max_out"
  shows "emit_insns ws name stage st max_out i spliced out =
     Some (spliced \<or> 14 \<in> fst ` set (decode_instrs (drop i ws)),
       out @ concat (map instr_words (rewrite_instrs (entry_instrs name stage st) spliced (decode_instrs (drop i ws)))))"
  using assms
proof (induction "length ws - i" arbitrary: i spliced out rule: less_induct)
  case less
  show ?case
  proof (cases "i < length ws")
    case True
    define n where "n = unat (drop_bit 16 (ws ! i))"
    define args where "args = take (n - 1) (drop (i + 1) ws)"
    define opc where "opc = ws ! i AND 0xFFFF"
    have r: "rd_word ws i = Some (ws ! i)" using True by (simp add: rd_word_def)
    have wc: "n \<noteq> 0" "i + n \<le> length ws" using less.prems(1) stream_bad[OF True] by (fastforce simp: n_def)+
    note at = insn_at[OF True wc[unfolded n_def], folded n_def, folded args_def opc_def]
    note dr = drop_insn_eq[OF True wc[unfolded n_def], folded n_def, folded args_def opc_def]
    note iw = instr_words_at[OF True wc[unfolded n_def], folded n_def, folded args_def opc_def]
    have rw: "rd_words ws i n = Some (instr_words (opc, args))" using wc iw by (simp add: rd_words_def)
    have il: "length (instr_words (opc, args)) = n" using wc by (simp add: iw)
    have fit: "length out + n \<le> max_out" using less.prems(2) wc by (cases spliced) auto
    define o1 where "o1 = (if dropped_instr (opc, args) then out else out @ instr_words (opc, args))"
    have l1: "length o1 \<le> length out + n" using il by (simp add: o1_def)
    have o1: "(if \<not> dropped_instr (opc, args) then rd_words ws i n \<bind> spv_emit_words max_out out else Some out) = Some o1"
      using fit il by (simp add: rw spv_emit_words_def o1_def)
    define here where "here = (\<not> spliced \<and> opc = 14)"
    define o2 where "o2 = (if here then o1 @ concat (map instr_words (entry_instrs name stage st)) else o1)"
    have o2: "(if here then splice_entry name stage st max_out o1 else Some o1) = Some o2"
    proof (cases here)
      case True
      then have "length o1 + entry_room name \<le> max_out" using less.prems(2) l1 wc by (auto simp: here_def)
      then show ?thesis using True by (simp add: o2_def splice_entry_eq)
    qed (simp add: o2_def)
    have l2: "length o2 + length (drop (i + n) ws) + (if spliced \<or> here then 0 else entry_room name) \<le> max_out"
      using less.prems(2) l1 wc entry_room_enough[of name stage st] by (auto simp: o2_def here_def)
    have lt: "length ws - (i + n) < length ws - i" using True wc(1) by linarith
    have nz: "drop_bit 16 (ws ! i) \<noteq> 0" using wc(1) by (auto simp: n_def)
    have ih: "emit_insns ws name stage st max_out (i + n) (spliced \<or> here) o2 =
       Some ((spliced \<or> here) \<or> 14 \<in> fst ` set (decode_instrs (drop (i + n) ws)),
         o2 @ concat (map instr_words (rewrite_instrs (entry_instrs name stage st) (spliced \<or> here) (decode_instrs (drop (i + n) ws)))))"
      by (rule less.hyps[OF lt _ l2]) (use less.prems(1) at(5) in simp)
    have "emit_insns ws name stage st max_out i spliced out = emit_insns ws name stage st max_out (i + n) (spliced \<or> here) o2"
      using True r nz dr o1 o2 unfolding here_def
      by (subst emit_insns.simps) (simp add: unpack_eq n_def[symmetric] opc_def[symmetric] Let_def split del: if_split cong del: if_weak_cong)
    also note ih
    finally show ?thesis unfolding at(4)
      by (auto simp: o2_def o1_def here_def)
  next
    case False
    then show ?thesis by (subst emit_insns.simps) simp
  qed
qed

text \<open>The magic number, byte by byte and as a word.\<close>

lemma magic_word: "20 \<le> length buf \<Longrightarrow> lagfx_spv_has_magic buf = Some (spv_module buf)"
proof -
  assume l: "20 \<le> length buf"
  have w: "lagfx_le32 buf 0 = Some (spv_words buf ! 0)" using spv_words_nth[of 0 buf] l by simp
  have inj: "le_bytes32 a = le_bytes32 b \<Longrightarrow> a = b" for a b
    using le32_bytes[of 0 "[]" a "[]"] le32_bytes[of 0 "[]" b "[]"] by simp
  have "spv_words buf ! 0 = SPV_MAGIC \<longleftrightarrow> le_bytes32 (spv_words buf ! 0) = le_bytes32 SPV_MAGIC" by (auto dest: inj)
  also have "le_bytes32 (spv_words buf ! 0) = [buf ! 0, buf ! 1, buf ! 2, buf ! 3]"
    unfolding bytes_le32[OF w] using l by (simp add: list_eq_iff_nth_eq numeral_eq_Suc less_Suc_eq)
  also have "le_bytes32 SPV_MAGIC = [0x03, 0x02, 0x23, 0x07]" by code_simp
  finally have "spv_words buf ! 0 = SPV_MAGIC \<longleftrightarrow> buf ! 0 = 0x03 \<and> buf ! 1 = 0x02 \<and> buf ! 2 = 0x23 \<and> buf ! 3 = 0x07"
    by simp
  moreover have "Suc 0 < length buf" "2 < length buf" "3 < length buf" "0 < length buf" using l by auto
  ultimately show ?thesis using l by (simp add: lagfx_spv_has_magic_def spv_module_def)
qed

definition scan_result :: "bytes \<Rightarrow> bytes \<Rightarrow> scan_state" where
  "scan_result buf name = fold (scan_instr name) (instrs_of buf) \<lparr>fn_id = 0, found_fn = False, has_shader_cap = False\<rparr>"

definition rewritten :: "bytes \<Rightarrow> bytes \<Rightarrow> lagfx_spv_stage \<Rightarrow> (u32 \<times> words) list" where
  "rewritten buf name stage = rewrite_instrs (entry_instrs name stage (scan_result buf name)) False (instrs_of buf)"

lemma scan_keeps_cap: "has_shader_cap st \<Longrightarrow> has_shader_cap (fold (scan_instr name) xs st)"
  by (induction xs arbitrary: st) (auto simp: scan_instr_def)

lemma scan_finds_cap: "(17, [1]) \<in> set xs \<Longrightarrow> has_shader_cap (fold (scan_instr name) xs st)"
proof (induction xs arbitrary: st)
  case (Cons x xs)
  have "has_shader_cap (scan_instr name (17, [1]) st)" by (simp add: scan_instr_def)
  then show ?case using Cons by (cases "x = (17, [1])") (auto intro: scan_keeps_cap)
qed simp

text \<open>With the Shader capability present, what is inserted is the entry point, and for a fragment
  shader the execution mode.\<close>

lemma entry_instrs_shader:
  "(17, [1]) \<in> set (instrs_of buf) \<Longrightarrow>
   entry_instrs name stage (scan_result buf name) =
     (15, [spv_stage_word stage, fn_id (scan_result buf name)] @ spv_pack_string name) #
     (if stage = LAGFX_SPV_STAGE_FRAGMENT then [(16, [fn_id (scan_result buf name), 7])] else [])"
  using scan_finds_cap[of "instrs_of buf" name] by (simp add: entry_instrs_def scan_result_def)

lemma rewrite_eq:
  assumes "spv_module buf" "length buf mod 4 = 0" "name \<noteq> []" "0 \<notin> set name"
  shows "lagfx_spv_rewrite_entry_point buf name stage = Some (
     if \<not> stream_ok (drop 5 (spv_words buf)) then Inl LAGFX_ERR_PROTOCOL
     else if \<not> found_fn (scan_result buf name) then Inl LAGFX_ERR_INVALID_ARG
     else if 14 \<notin> fst ` set (instrs_of buf) then Inl LAGFX_ERR_PROTOCOL
     else Inr (words_bytes (take 5 (spv_words buf) @ concat (map instr_words (rewritten buf name stage)))))"
proof -
  have l: "20 \<le> length buf" using assms(1) by (simp add: spv_module_def)
  have w: "5 \<le> length (spv_words buf)" using l by simp
  have h: "rd_words (spv_words buf) 0 5 = Some (take 5 (spv_words buf))" using w by (simp add: rd_words_def)
  let ?st = "scan_result buf name" and ?ws = "spv_words buf"
  let ?max = "length ?ws + (2 + 3 + (length name + 1 + 3) div 4 + 3 + 64)"
  have sc: "scan_insns ?ws name 5 \<lparr>fn_id = 0, found_fn = False, has_shader_cap = False\<rparr> =
     Some (if stream_ok (drop 5 ?ws) then Inr ?st else Inl LAGFX_ERR_PROTOCOL)"
    using scan_insns_eq[OF assms(4)] by (simp add: scan_result_def instrs_of_def)
  have em: "emit_insns ?ws name stage ?st ?max 5 False (take 5 ?ws) =
     Some (14 \<in> fst ` set (instrs_of buf), take 5 ?ws @ concat (map instr_words (rewritten buf name stage)))"
    if "stream_ok (drop 5 ?ws)"
    using emit_insns_eq[OF that, of "take 5 ?ws" False name ?max stage ?st] w
    by (simp add: entry_room_def rewritten_def instrs_of_def)
  show ?thesis using l assms sc em h
    by (simp add: lagfx_spv_rewrite_entry_point_def magic_word Let_def words_bytes_def del: length_spv_words)
qed

text \<open>The rewritten module decodes to the rewritten instructions.\<close>

definition small_instr :: "u32 \<times> words \<Rightarrow> bool" where
  "small_instr x \<longleftrightarrow> length (snd x) < 65535 \<and> fst x AND 0xFFFF = fst x"

lemma decode_small: "list_all small_instr (decode_instrs ws)"
proof (induction ws rule: decode_instrs.induct)
  case (2 h ws)
  have "unat (drop_bit 16 h) < 65536" using unat_drop_bit[of 16 h] unat_bound[of h] by simp
  then have "small_instr (h AND 0xFFFF, take (unat (drop_bit 16 h) - 1) ws)"
    by (auto simp: small_instr_def and.assoc)
  then show ?case using 2 by (simp add: Let_def)
qed simp

lemma decode_instr_words: "list_all small_instr xs \<Longrightarrow> decode_instrs (concat (map instr_words xs)) = xs"
proof -
  assume s: "list_all small_instr xs"
  define ops where "ops = map (\<lambda>x. Emit_op (fst x) (snd x)) xs"
  have "decode_instrs (concat (map op_words ops)) = map op_instr ops"
    by (rule decode_ops) (use s in \<open>auto simp: ops_def list_all_iff small_instr_def\<close>)
  moreover have "map op_instr ops = xs" using s by (auto simp: ops_def list_all_iff small_instr_def map_idI)
  moreover have "concat (map op_words ops) = concat (map instr_words xs)" by (simp add: ops_def instr_words_def[abs_def] o_def)
  ultimately show ?thesis by simp
qed

lemma rewrite_instrs_set: "set (rewrite_instrs ins b xs) \<subseteq> set xs \<union> set ins"
  by (induction xs arbitrary: b) auto

lemma rewrite_decodes:
  assumes "lagfx_spv_rewrite_entry_point buf name stage = Some (Inr out)" "spv_module buf" "0 \<notin> set name" "length name < 65536"
  shows "spv_module out \<and> instrs_of out = rewritten buf name stage \<and> take 5 (spv_words out) = take 5 (spv_words buf)"
proof -
  have n: "name \<noteq> []" using assms(1) by (auto simp: lagfx_spv_rewrite_entry_point_def)
  have m: "length buf mod 4 = 0" using assms(1,2) n
    by (auto simp: lagfx_spv_rewrite_entry_point_def magic_word spv_module_def split: if_splits)
  define body where "body = concat (map instr_words (rewritten buf name stage))"
  have out: "out = words_bytes (take 5 (spv_words buf) @ body)"
    using assms(1) unfolding rewrite_eq[OF assms(2) m n assms(3)] body_def by (auto split: if_splits)
  have w: "spv_words out = take 5 (spv_words buf) @ body" unfolding out words_bytes_def by (rule spv_words_bytes)
  have "5 \<le> length (spv_words buf)" using assms(2) div_le_mono[of 20 "length buf" 4] by (simp add: spv_module_def)
  then have l5: "length (take 5 (spv_words buf)) = 5" by simp
  have "list_all small_instr (entry_instrs name stage (scan_result buf name))"
    using assms(4) by (auto simp: entry_instrs_def small_instr_def)
  then have "list_all small_instr (rewritten buf name stage)"
    using decode_small[of "drop 5 (spv_words buf)"] rewrite_instrs_set[of "entry_instrs name stage (scan_result buf name)" False "instrs_of buf"]
    by (auto simp: rewritten_def list_all_iff instrs_of_def)
  then have "instrs_of out = rewritten buf name stage" using l5 by (simp add: instrs_of_def w body_def decode_instr_words)
  moreover have "spv_module out"
  proof -
    have "length out = 4 * length (take 5 (spv_words buf) @ body)" unfolding out by (rule length_words_bytes)
    moreover have "spv_words out ! 0 = spv_words buf ! 0" using l5 by (simp add: w nth_append)
    ultimately show ?thesis using assms(2) l5 by (simp add: spv_module_def)
  qed
  ultimately show ?thesis using l5 by (simp add: w)
qed

end
