(* ===== verification/SigTransform.thy ===== *)
theory SigTransform
  imports EntryRewrite
begin

text \<open>
  The signature transform \<^verbatim>\<open>src/air2spirv/spv_signature_transform.c\<close>: it turns a shader function
  with parameters and a result, as the compiler emits it, into a \<^verbatim>\<open>void\<close> entry point that loads
  its inputs from and stores its outputs to interface variables, and removes what Vulkan does
  not accept.  An instruction is its opcode with the operand words; word \<open>k\<close> of it is read with
  a check against its length.  The output buffer has the size the code allocates, and
  \<^const>\<open>None\<close> is an access outside a buffer or a loop that does not advance.  The
  theories on top of this one describe the output by its instructions and give the growth
  for which the buffer is large enough.
\<close>

unbundle bit_operations_syntax

type_synonym insn = "u32 \<times> words"

subsection \<open>Walking instructions\<close>

text \<open>The walk of a pass; \<open>Some None\<close> is the malformed instruction at which it stops.\<close>

function insn_walk :: "words \<Rightarrow> (u32 \<Rightarrow> words \<Rightarrow> 's \<Rightarrow> ('s \<times> bool) option) \<Rightarrow> nat \<Rightarrow> 's \<Rightarrow> 's option option" where
  "insn_walk ws step i st =
     (if i < length ws then do {
        h \<leftarrow> rd_word ws i;
        let (wc, opc) = spv_unpack_insn h;
        if wc = 0 \<or> length ws < i + unat wc then Some None
        else do {
          args \<leftarrow> rd_words ws (i + 1) (unat wc - 1);
          (st', go) \<leftarrow> step opc args st;
          if go then insn_walk ws step (i + unat wc) st' else Some (Some st') }}
      else Some (Some st))"
  by pat_completeness auto
termination
  by (relation "measure (\<lambda>(ws, _, i, _). length ws - i)") (auto intro!: diff_less_mono2 simp: unat_gt_0)

declare insn_walk.simps [simp del]

text \<open>A pass without the check would not return on a malformed instruction.\<close>

definition insn_walk_unchecked :: "words \<Rightarrow> (u32 \<Rightarrow> words \<Rightarrow> 's \<Rightarrow> ('s \<times> bool) option) \<Rightarrow> 's \<Rightarrow> 's option" where
  "insn_walk_unchecked ws step st = do { r \<leftarrow> insn_walk ws step 5 st; r }"

definition word_count :: "words \<Rightarrow> nat" where
  "word_count args = length args + 1"

definition iw :: "words \<Rightarrow> nat \<Rightarrow> u32 option" where
  "iw args k = rd_word args (k - 1)"

definition iw_is :: "words \<Rightarrow> nat \<Rightarrow> u32 \<Rightarrow> bool option" where
  "iw_is args k v = map_option (\<lambda>w. w = v) (iw args k)"

subsection \<open>Scanning the module\<close>

record sig_scan =
  sg_fn_id :: u32
  sg_found_fn :: bool
  sg_fn_type_id :: u32
  sg_fn_ret_type_id :: u32
  sg_ret_is_struct :: bool
  sg_ret_member_types :: words
  sg_param_types :: words
  sg_void_id :: u32
  sg_uint_type_id :: u32
  sg_uint_zero_id :: u32
  sg_pointer_type_ids :: words
  sg_lifetime_operand_ids :: words
  sg_bound :: u32
  sg_has_shader_cap :: bool

definition MAX_PARAMS :: nat where "MAX_PARAMS = 8"
definition MAX_STRUCT_MEMBERS :: nat where "MAX_STRUCT_MEMBERS = 8"
definition MAX_POINTER_TYPES :: nat where "MAX_POINTER_TYPES = 64"
definition MAX_LIFETIME_OPERANDS :: nat where "MAX_LIFETIME_OPERANDS = 16"

definition sig_scan_new :: "u32 \<Rightarrow> sig_scan" where
  "sig_scan_new bound =
     \<lparr>sg_fn_id = 0, sg_found_fn = False, sg_fn_type_id = 0, sg_fn_ret_type_id = 0, sg_ret_is_struct = False,
      sg_ret_member_types = [], sg_param_types = [], sg_void_id = 0, sg_uint_type_id = 0, sg_uint_zero_id = 0,
      sg_pointer_type_ids = [], sg_lifetime_operand_ids = [], sg_bound = bound, sg_has_shader_cap = False\<rparr>"

text \<open>Pass 1a: the tests of one instruction, each with its own opcode.\<close>

definition name_step :: "bytes \<Rightarrow> u32 \<Rightarrow> words \<Rightarrow> sig_scan \<Rightarrow> (sig_scan \<times> bool) option" where
  "name_step entry_name opc args s =
     (let wc = word_count args; go = (\<lambda>s'. Some (s', True)) in
      if opc = 17 \<and> 2 \<le> wc then do {
        c \<leftarrow> iw_is args 1 1;
        go (if c then s\<lparr>sg_has_shader_cap := True\<rparr> else s) }
      else if opc = 5 \<and> 3 \<le> wc then do {
        target \<leftarrow> iw args 1;
        e \<leftarrow> spv_str_eq args 1 (wc - 2) entry_name;
        go (if e then s\<lparr>sg_fn_id := target, sg_found_fn := True\<rparr> else s) }
      else if opc = 19 \<and> 2 \<le> wc then do { v \<leftarrow> iw args 1; go (s\<lparr>sg_void_id := v\<rparr>) }
      else if opc = 21 \<and> 4 \<le> wc then do {
        a \<leftarrow> iw_is args 2 32; b \<leftarrow> iw_is args 3 0; t \<leftarrow> iw args 1;
        go (if a \<and> b then s\<lparr>sg_uint_type_id := t\<rparr> else s) }
      else if opc = 32 \<and> 2 \<le> wc then do {
        t \<leftarrow> iw args 1;
        go (if length (sg_pointer_type_ids s) < MAX_POINTER_TYPES then s\<lparr>sg_pointer_type_ids := sg_pointer_type_ids s @ [t]\<rparr> else s) }
      else if opc = 43 \<and> 4 \<le> wc then do {
        a \<leftarrow> iw_is args 1 (sg_uint_type_id s); z \<leftarrow> iw_is args 3 0; k \<leftarrow> iw args 2;
        go (if sg_uint_type_id s \<noteq> 0 \<and> a \<and> z \<and> sg_uint_zero_id s = 0 then s\<lparr>sg_uint_zero_id := k\<rparr> else s) }
      else if (opc = 256 \<or> opc = 257) \<and> 2 \<le> wc then do {
        v \<leftarrow> iw args 1;
        go (if length (sg_lifetime_operand_ids s) < MAX_LIFETIME_OPERANDS
            then s\<lparr>sg_lifetime_operand_ids := sg_lifetime_operand_ids s @ [v]\<rparr> else s) }
      else go s)"

text \<open>Pass 1b: result type and function type of the entry function.\<close>

definition function_step :: "u32 \<Rightarrow> u32 \<Rightarrow> words \<Rightarrow> u32 \<times> u32 \<Rightarrow> ((u32 \<times> u32) \<times> bool) option" where
  "function_step fn opc args st =
     (if opc = 54 \<and> 5 \<le> word_count args then do {
        hit \<leftarrow> iw_is args 2 fn; ret \<leftarrow> iw args 1; ty \<leftarrow> iw args 4;
        Some (if hit then ((ret, ty), False) else (st, True)) }
      else Some (st, True))"

text \<open>Pass 1c: the parameter types.\<close>

definition fn_type_step ::
    "u32 \<Rightarrow> u32 \<Rightarrow> u32 \<Rightarrow> words \<Rightarrow> (lagfx_status + words) option \<Rightarrow> ((lagfx_status + words) option \<times> bool) option" where
  "fn_type_step ty ret opc args st =
     (if opc = 33 \<and> 3 \<le> word_count args then do {
        hit \<leftarrow> iw_is args 1 ty; same \<leftarrow> iw_is args 2 ret;
        Some (if hit then
                (Some (if \<not> same then Inl LAGFX_ERR_PROTOCOL
                       else if word_count args - 3 > MAX_PARAMS then Inl LAGFX_ERR_PROTOCOL
                       else Inr (drop 2 args)), False)
              else (st, True)) }
      else Some (st, True))"

text \<open>Pass 1d: the members of the result.\<close>

definition ret_type_step ::
    "u32 \<Rightarrow> u32 \<Rightarrow> words \<Rightarrow> (lagfx_status + bool \<times> words) option \<Rightarrow> ((lagfx_status + bool \<times> words) option \<times> bool) option" where
  "ret_type_step ret opc args st =
     (if 2 \<le> word_count args then do {
        hit \<leftarrow> iw_is args 1 ret;
        Some (if hit \<and> opc = 30 then
                (Some (if word_count args - 2 > MAX_STRUCT_MEMBERS then Inl LAGFX_ERR_PROTOCOL else Inr (True, drop 1 args)), False)
              else if hit \<and> (opc = 23 \<or> opc = 22 \<or> opc = 21) then (Some (Inr (False, [ret])), False)
              else (st, True)) }
      else Some (st, True))"

definition scan_module :: "words \<Rightarrow> bytes \<Rightarrow> (lagfx_status + sig_scan) option" where
  "scan_module ws entry_name = do {
     bound \<leftarrow> rd_word ws 3;
     r \<leftarrow> insn_walk ws (name_step entry_name) 5 (sig_scan_new bound);
     case r of
       None \<Rightarrow> Some (Inl LAGFX_ERR_PROTOCOL)
     | Some s \<Rightarrow>
         if \<not> sg_found_fn s then Some (Inl LAGFX_ERR_INVALID_ARG)
         else do {
           (ret, ty) \<leftarrow> insn_walk_unchecked ws (function_step (sg_fn_id s)) (0, 0);
           if ret = 0 \<or> ty = 0 then Some (Inl LAGFX_ERR_PROTOCOL)
           else do {
             ps \<leftarrow> insn_walk_unchecked ws (fn_type_step ty ret) None;
             case ps of
               None \<Rightarrow> Some (Inl LAGFX_ERR_PROTOCOL)
             | Some (Inl e) \<Rightarrow> Some (Inl e)
             | Some (Inr params) \<Rightarrow> do {
                 rt \<leftarrow> insn_walk_unchecked ws (ret_type_step ret) None;
                 case rt of
                   None \<Rightarrow> Some (Inl LAGFX_ERR_PROTOCOL)
                 | Some (Inl e) \<Rightarrow> Some (Inl e)
                 | Some (Inr (by_member, members)) \<Rightarrow>
                     Some (Inr (s\<lparr>sg_fn_ret_type_id := ret, sg_fn_type_id := ty, sg_param_types := params,
                       sg_ret_is_struct := by_member, sg_ret_member_types := members\<rparr>)) }}}}"

subsection \<open>Fresh ids\<close>

record synth_ids =
  sy_void_id :: u32
  sy_void_fn_type_id :: u32
  sy_outs :: "(u32 \<times> u32) list"
  sy_ins :: "(u32 \<times> u32) list"
  sy_uint_type_id :: u32
  sy_uint_zero_id :: u32

definition fresh :: "u32 \<Rightarrow> u32 \<times> u32" where
  "fresh f = (f, f + 1)"

text \<open>Pointer type and variable of each member or parameter.\<close>

fun fresh_pairs :: "nat \<Rightarrow> u32 \<Rightarrow> (u32 \<times> u32) list \<times> u32" where
  "fresh_pairs 0 f = ([], f)"
| "fresh_pairs (Suc n) f =
     (let (p, f1) = fresh f; (v, f2) = fresh f1; (ps, f3) = fresh_pairs n f2 in ((p, v) # ps, f3))"

definition reuse :: "u32 \<Rightarrow> u32 \<Rightarrow> u32 \<times> u32" where
  "reuse old f = (if old \<noteq> 0 then (old, f) else fresh f)"

definition plan_synth_ids :: "sig_scan \<Rightarrow> u32 \<Rightarrow> synth_ids \<times> u32" where
  "plan_synth_ids s f =
     (let (void, f1) = reuse (sg_void_id s) f;
          (void_fn, f2) = fresh f1;
          (outs, f3) = fresh_pairs (length (sg_ret_member_types s)) f2;
          (ins, f4) = fresh_pairs (length (sg_param_types s)) f3;
          (uint, f5) = reuse (sg_uint_type_id s) f4;
          (zero, f6) = reuse (sg_uint_zero_id s) f5 in
      (\<lparr>sy_void_id = void, sy_void_fn_type_id = void_fn, sy_outs = outs, sy_ins = ins,
        sy_uint_type_id = uint, sy_uint_zero_id = zero\<rparr>, f6))"

subsection \<open>Instructions that are put in\<close>

definition emit_capability :: "u32 \<Rightarrow> insn" where "emit_capability cap = (17, [cap])"
definition emit_decorate_builtin :: "u32 \<Rightarrow> u32 \<Rightarrow> insn" where "emit_decorate_builtin target b = (71, [target, 11, b])"
definition emit_decorate_location :: "u32 \<Rightarrow> u32 \<Rightarrow> insn" where "emit_decorate_location target loc = (71, [target, 30, loc])"
definition emit_type_void :: "u32 \<Rightarrow> insn" where "emit_type_void i = (19, [i])"
definition emit_type_function_void :: "u32 \<Rightarrow> u32 \<Rightarrow> insn" where "emit_type_function_void i void = (33, [i, void])"
definition emit_type_pointer :: "u32 \<Rightarrow> u32 \<Rightarrow> u32 \<Rightarrow> insn" where "emit_type_pointer i storage pointee = (32, [i, storage, pointee])"
definition emit_variable :: "u32 \<Rightarrow> u32 \<Rightarrow> u32 \<Rightarrow> insn" where "emit_variable ptr_type r storage = (59, [ptr_type, r, storage])"
definition emit_load :: "u32 \<Rightarrow> u32 \<Rightarrow> u32 \<Rightarrow> insn" where "emit_load ty r ptr = (61, [ty, r, ptr])"
definition emit_store :: "u32 \<Rightarrow> u32 \<Rightarrow> insn" where "emit_store ptr v = (62, [ptr, v])"
definition emit_composite_extract :: "u32 \<Rightarrow> u32 \<Rightarrow> u32 \<Rightarrow> u32 \<Rightarrow> insn" where
  "emit_composite_extract ty r composite k = (81, [ty, r, composite, k])"
definition emit_return :: insn where "emit_return = (253, [])"
definition emit_entry_point :: "u32 \<Rightarrow> u32 \<Rightarrow> bytes \<Rightarrow> words \<Rightarrow> insn" where
  "emit_entry_point stage fn name iface = (15, [stage, fn] @ spv_pack_string name @ iface)"
definition emit_execution_mode_origin_upper_left :: "u32 \<Rightarrow> insn" where
  "emit_execution_mode_origin_upper_left fn = (16, [fn, 7])"

definition emit_output_decorations :: "u32 \<Rightarrow> synth_ids \<Rightarrow> insn list" where
  "emit_output_decorations stage ids =
     map (\<lambda>(k, (_, v)). if stage = 0 \<and> k = 0 then emit_decorate_builtin v 0
                        else if stage = 0 then emit_decorate_location v (of_nat (k - 1))
                        else emit_decorate_location v (of_nat k)) (enumerate 0 (sy_outs ids))"

definition emit_input_decorations :: "u32 \<Rightarrow> synth_ids \<Rightarrow> insn list" where
  "emit_input_decorations stage ids =
     map (\<lambda>(k, (_, v)). if stage = 0 \<and> k = 0 then emit_decorate_builtin v 42
                        else emit_decorate_location v (of_nat k)) (enumerate 0 (sy_ins ids))"

definition sig_iface :: "synth_ids \<Rightarrow> words" where
  "sig_iface ids = map snd (sy_outs ids) @ map snd (sy_ins ids)"

definition zone_a :: "u32 \<Rightarrow> bytes \<Rightarrow> sig_scan \<Rightarrow> synth_ids \<Rightarrow> insn list" where
  "zone_a stage name s ids =
     (if sg_has_shader_cap s then [] else [emit_capability 1]) @
     [emit_entry_point stage (sg_fn_id s) name (sig_iface ids)] @
     (if stage = 4 then [emit_execution_mode_origin_upper_left (sg_fn_id s)] else [])"

definition iface_vars :: "u32 \<Rightarrow> (u32 \<times> u32) list \<Rightarrow> words \<Rightarrow> insn list" where
  "iface_vars storage pairs types =
     concat (map (\<lambda>((p, v), t). [emit_type_pointer p storage t, emit_variable p v storage]) (zip pairs types))"

definition pre_function :: "sig_scan \<Rightarrow> synth_ids \<Rightarrow> insn list" where
  "pre_function s ids =
     (if sg_void_id s = 0 then [emit_type_void (sy_void_id ids)] else []) @
     (if sg_uint_type_id s = 0 then [(21, [sy_uint_type_id ids, 32, 0])] else []) @
     (if sg_uint_zero_id s = 0 then [(43, [sy_uint_type_id ids, sy_uint_zero_id ids, 0])] else []) @
     [emit_type_function_void (sy_void_fn_type_id ids) (sy_void_id ids)] @
     iface_vars 3 (sy_outs ids) (sg_ret_member_types s) @ iface_vars 1 (sy_ins ids) (sg_param_types s)"

subsection \<open>Pass 2\<close>

definition func_param_attr_is_kernel_only :: "u32 \<Rightarrow> bool" where
  "func_param_attr_is_kernel_only v \<longleftrightarrow> v = 5 \<or> v = 6 \<or> v = 7"

text \<open>The decoration in word \<open>k\<close> of an instruction.\<close>

definition drop_decoration :: "words \<Rightarrow> nat \<Rightarrow> bool option" where
  "drop_decoration args k = do {
     dec \<leftarrow> iw args k;
     if dec = 10 \<or> dec = 41 then Some True
     else if dec = 40 \<or> dec = 45 then Some True
     else if dec = 38 \<and> k + 2 \<le> word_count args then map_option func_param_attr_is_kernel_only (iw args (k + 1))
     else Some False }"

definition sig_drop :: "bool \<Rightarrow> u32 \<Rightarrow> words \<Rightarrow> bool option" where
  "sig_drop in_target opc args =
     (let wc = word_count args in
      if opc = 17 \<and> 2 \<le> wc then map_option (\<lambda>cap. cap = 5 \<or> cap = 6) (iw args 1)
      else if opc = 71 \<and> 3 \<le> wc then drop_decoration args 2
      else if opc = 72 \<and> 4 \<le> wc then drop_decoration args 3
      else if opc = 55 \<and> in_target then Some True
      else if opc = 256 \<or> opc = 257 then Some True
      else Some False)"

text \<open>The loads of the parameters: the search for the entry function, then its parameters.\<close>

definition load_step :: "sig_scan \<Rightarrow> synth_ids \<Rightarrow> u32 \<Rightarrow> words \<Rightarrow> bool \<times> insn list \<Rightarrow> ((bool \<times> insn list) \<times> bool) option" where
  "load_step s ids opc args = (\<lambda>(found, loads).
     if \<not> found then
       if opc = 54 \<and> 3 \<le> word_count args then do { hit \<leftarrow> iw_is args 2 (sg_fn_id s); Some ((hit, loads), True) }
       else Some ((found, loads), True)
     else
       let p = length loads in
       if p < length (sg_param_types s) \<and> opc = 55 \<and> 3 \<le> word_count args then do {
         orig \<leftarrow> iw args 2;
         Some ((found, loads @ [emit_load (sg_param_types s ! p) orig (snd (sy_ins ids ! p))]), True) }
       else Some ((found, loads), False))"

definition param_loads :: "words \<Rightarrow> sig_scan \<Rightarrow> synth_ids \<Rightarrow> insn list option" where
  "param_loads ws s ids = map_option snd (insn_walk_unchecked ws (load_step s ids) (False, []))"

text \<open>The stores that replace a return of a value.\<close>

fun member_stores :: "u32 \<Rightarrow> nat \<Rightarrow> words \<Rightarrow> (u32 \<times> u32) list \<Rightarrow> u32 \<Rightarrow> insn list \<times> u32" where
  "member_stores retval k (t # ts) ((_, v) # vs) f =
     (let (x, f1) = fresh f; (is, f2) = member_stores retval (k + 1) ts vs f1 in
      (emit_composite_extract t x retval (of_nat k) # emit_store v x # is, f2))"
| "member_stores retval k _ _ f = ([], f)"

record sig_state =
  ss_zone_a :: bool
  ss_pre_types :: bool
  ss_pre_function :: bool
  ss_in_target :: bool
  ss_loads :: bool
  ss_next :: u32

definition is_type_op :: "u32 \<Rightarrow> bool" where
  "is_type_op opc \<longleftrightarrow> 19 \<le> opc \<and> opc \<le> 33 \<or> opc = 32"

definition is_entry_function :: "sig_scan \<Rightarrow> u32 \<Rightarrow> words \<Rightarrow> bool option" where
  "is_entry_function s opc args = (if opc = 54 \<and> 5 \<le> word_count args then iw_is args 2 (sg_fn_id s) else Some False)"

text \<open>The part of the step behind the splices.\<close>

definition body_step ::
    "words \<Rightarrow> sig_scan \<Rightarrow> synth_ids \<Rightarrow> bool \<Rightarrow> u32 \<Rightarrow> words \<Rightarrow> sig_state \<Rightarrow> (insn list \<times> sig_state) option" where
  "body_step ws s ids dropped opc args st =
     (if \<not> ss_in_target st then Some (if dropped then [] else [(opc, args)], st)
      else if dropped then Some ([], st)
      else if opc = 248 then Some ([(opc, args)], st)
      else do {
        loads \<leftarrow> (if \<not> ss_loads st \<and> opc \<noteq> 59 \<and> opc \<noteq> 248 then param_loads ws s ids else Some []);
        let st1 = (if opc \<noteq> 59 \<and> opc \<noteq> 248 then st\<lparr>ss_loads := True\<rparr> else st);
        if opc = 254 \<and> 2 \<le> word_count args then do {
          retval \<leftarrow> iw args 1;
          if sg_ret_is_struct s then
            let (is, f) = member_stores retval 0 (sg_ret_member_types s) (sy_outs ids) (ss_next st1) in
            Some (loads @ is @ [emit_return], st1\<lparr>ss_next := f\<rparr>)
          else Some (loads @ [emit_store (snd (sy_outs ids ! 0)) retval, emit_return], st1) }
        else Some (loads @ [(opc, args)], st1) })"

definition sig_step ::
    "words \<Rightarrow> bytes \<Rightarrow> u32 \<Rightarrow> sig_scan \<Rightarrow> synth_ids \<Rightarrow> u32 \<Rightarrow> words \<Rightarrow> sig_state \<Rightarrow> (insn list \<times> sig_state) option" where
  "sig_step ws name stage s ids opc args st = do {
     let wc = word_count args;
     dropped \<leftarrow> sig_drop (ss_in_target st) opc args;
     spec_bitcast \<leftarrow> (if opc = 52 \<and> 4 \<le> wc then iw_is args 3 124 else Some False);
     ptr_bitcast \<leftarrow> (if opc = 124 \<and> 4 \<le> wc then map_option (\<lambda>t. t \<in> set (sg_pointer_type_ids s)) (iw args 1) else Some False);
     if spec_bitcast then do { t \<leftarrow> iw args 1; r \<leftarrow> iw args 2; Some ([(1, [t, r])], st) }
     else if ptr_bitcast then do {
       t \<leftarrow> iw args 1; r \<leftarrow> iw args 2; src \<leftarrow> iw args 3;
       Some (if r \<in> set (sg_lifetime_operand_ids s) then [] else [(65, [t, r, src, sy_uint_zero_id ids])], st) }
     else if \<not> ss_zone_a st \<and> opc = 14 then
       Some ((opc, args) # zone_a stage name s ids, st\<lparr>ss_zone_a := True\<rparr>)
     else do {
       let types = (\<not> ss_pre_types st \<and> is_type_op opc);
       let funs = (\<not> ss_pre_function st \<and> opc = 54);
       let pre = (if types then emit_output_decorations stage ids @ emit_input_decorations stage ids else []) @
                 (if funs then pre_function s ids else []);
       let st1 = st\<lparr>ss_pre_types := ss_pre_types st \<or> types, ss_pre_function := ss_pre_function st \<or> funs\<rparr>;
       entry \<leftarrow> is_entry_function s opc args;
       if entry then
         Some (pre @ [(54, [sy_void_id ids, sg_fn_id s, 0, sy_void_fn_type_id ids])], st1\<lparr>ss_in_target := True, ss_loads := False\<rparr>)
       else do {
         let st2 = (if opc = 56 then st1\<lparr>ss_in_target := False\<rparr> else st1);
         (is, st3) \<leftarrow> body_step ws s ids dropped opc args st2;
         Some (pre @ is, st3) }}}"

text \<open>The output buffer of \<open>max_out\<close> words.\<close>

definition emit_step ::
    "words \<Rightarrow> bytes \<Rightarrow> u32 \<Rightarrow> sig_scan \<Rightarrow> synth_ids \<Rightarrow> nat \<Rightarrow> u32 \<Rightarrow> words \<Rightarrow> sig_state \<times> words \<Rightarrow> ((sig_state \<times> words) \<times> bool) option" where
  "emit_step ws name stage s ids max_out opc args = (\<lambda>(st, out). do {
     (is, st') \<leftarrow> sig_step ws name stage s ids opc args st;
     out' \<leftarrow> spv_emit_words max_out out (concat (map (\<lambda>(opc, args). spv_pack_insn (of_nat (word_count args)) opc # args) is));
     Some ((st', out'), True) })"

definition sig_slack :: "bytes \<Rightarrow> nat" where
  "sig_slack name = 256 + 32 * (MAX_PARAMS + MAX_STRUCT_MEMBERS) + (length name + 4) div 4"

definition lagfx_spv_signature_transform :: "bytes \<Rightarrow> bytes \<Rightarrow> u32 \<Rightarrow> (lagfx_status + bytes) option" where
  "lagfx_spv_signature_transform in_buf entry_name stage =
     (if entry_name = [] then Some (Inl LAGFX_ERR_INVALID_ARG)
      else do {
        magic \<leftarrow> lagfx_spv_has_magic in_buf;
        if \<not> magic then Some (Inl LAGFX_ERR_INVALID_ARG)
        else if length in_buf < 5 * 4 \<or> length in_buf mod 4 \<noteq> 0 then Some (Inl LAGFX_ERR_PROTOCOL)
        else do {
          let ws = spv_words in_buf;
          r \<leftarrow> scan_module ws entry_name;
          case r of
            Inl e \<Rightarrow> Some (Inl e)
          | Inr s \<Rightarrow> do {
              let (ids, f) = plan_synth_ids s (sg_bound s);
              header \<leftarrow> rd_words ws 0 5;
              r2 \<leftarrow> insn_walk ws (emit_step ws entry_name stage s ids (length ws + sig_slack entry_name)) 5
                (\<lparr>ss_zone_a = False, ss_pre_types = False, ss_pre_function = False, ss_in_target = False, ss_loads = False, ss_next = f\<rparr>,
                 header[3 := f]);
              case r2 of
                None \<Rightarrow> Some (Inl LAGFX_ERR_PROTOCOL)
              | Some (st, out) \<Rightarrow>
                  if \<not> ss_zone_a st then Some (Inl LAGFX_ERR_PROTOCOL)
                  else Some (Inr (concat (map le_bytes32 (out[3 := ss_next st])))) }}})"

end
