(* ===== verification/ShaderTranslate.thy ===== *)
theory ShaderTranslate
  imports Retarget ShaderCache SigTransform "HOL-Library.Sublist"
begin

text \<open>
  The translation runner \<^verbatim>\<open>src/air2spirv/shader_translate.c\<close>: it looks a function up in a Metal
  library, rewrites its triple, writes the bitcode to a temporary file, runs \<^verbatim>\<open>llc\<close>, reads the
  result and applies the signature transform.  The operating system is a record of calls over
  a state \<open>'w\<close> of files and processes.  \<^const>\<open>None\<close> is a read outside the array of functions, a
  stream closed twice, or an overflow in the signature transform.  The theory shows what
  the runner finds, where it reads outside the array, and that it cannot succeed on a system
  whose \<^verbatim>\<open>mkstemp\<close> behaves as documented.
\<close>

subsection \<open>The operating system\<close>

datatype llc_result = Spawn_error | Wait_error | Signalled | Exited int

record 'w translate_os =
  os_regular :: "string \<Rightarrow> 'w \<Rightarrow> bool"
  os_which :: "'w \<Rightarrow> string option"
  os_mkstemp :: "string \<Rightarrow> 'w \<Rightarrow> string option \<times> 'w"
  os_write :: "string \<Rightarrow> bytes \<Rightarrow> 'w \<Rightarrow> int \<times> 'w"
  os_spawn :: "string list \<Rightarrow> 'w \<Rightarrow> llc_result \<times> 'w"
  os_unlink :: "string \<Rightarrow> 'w \<Rightarrow> 'w"
  os_size :: "string \<Rightarrow> 'w \<Rightarrow> nat option"
  os_read :: "string \<Rightarrow> nat \<Rightarrow> 'w \<Rightarrow> bytes option"

text \<open>The documented rule: a template that does not end in six X is refused.\<close>

definition mkstemp_law :: "'w translate_os \<Rightarrow> bool" where
  "mkstemp_law os \<longleftrightarrow> (\<forall>t w. \<not> suffix ''XXXXXX'' t \<longrightarrow> fst (os_mkstemp os t w) = None)"

subsection \<open>Finding and running llc\<close>

text \<open>Carriage returns and line feeds at the end of the line are cut.\<close>

definition chomp :: "string \<Rightarrow> string" where
  "chomp s = rev (dropWhile (\<lambda>c. c = CHR 0x0A \<or> c = CHR 0x0D) (rev s))"

definition find_llc_binary :: "'w translate_os \<Rightarrow> 'w \<Rightarrow> string option option" where
  "find_llc_binary os w =
     (if os_regular os ''/opt/homebrew/opt/llvm@20/bin/llc'' w then Some (Some ''/opt/homebrew/opt/llvm@20/bin/llc'')
      else case find (\<lambda>p. os_regular os p w) [''/opt/homebrew/opt/llvm/bin/llc'', ''/usr/bin/llc''] of
        Some p \<Rightarrow> Some (Some p)
      | None \<Rightarrow>
          (case os_which os w of
             None \<Rightarrow> Some None
           | Some line \<Rightarrow> if chomp line \<noteq> [] then Some (Some (chomp line)) else None))"

definition run_llc :: "'w translate_os \<Rightarrow> string \<Rightarrow> string \<Rightarrow> string \<Rightarrow> 'w \<Rightarrow> lagfx_status \<times> 'w" where
  "run_llc os llc_path bc_in spv_out w =
     (case os_spawn os [llc_path, ''-mtriple=spirv64-unknown-vulkan1.3'', ''-filetype=obj'', bc_in, ''-o'', spv_out] w of
        (Exited s, w') \<Rightarrow> (if s = 0 then LAGFX_OK else LAGFX_ERR_PROTOCOL, w')
      | (_, w') \<Rightarrow> (LAGFX_ERR_PROTOCOL, w'))"

subsection \<open>The runner\<close>

text \<open>The loop over the number of functions the library has, in an array of 32.\<close>

function name_loop :: "lagfx_metallib_function list \<Rightarrow> bytes \<Rightarrow> nat \<Rightarrow> nat \<Rightarrow> nat option option" where
  "name_loop funcs function_name n_funcs i =
     (if i < n_funcs then
        if i < length funcs then
          if c_str (ml_name (funcs ! i)) = c_str function_name then Some (Some i)
          else name_loop funcs function_name n_funcs (i + 1)
        else None
      else Some None)"
  by pat_completeness auto
termination
  by (relation "measure (\<lambda>(_, _, n, i). n - i)") auto

declare name_loop.simps [simp del]

definition find_function :: "bytes \<Rightarrow> bytes \<Rightarrow> (lagfx_status + lagfx_metallib_function) option" where
  "find_function metallib_data function_name = do {
     r \<leftarrow> lagfx_metallib_extract_functions metallib_data 32;
     case r of
       Inl e \<Rightarrow> Some (Inl e)
     | Inr (funcs, n_funcs) \<Rightarrow> do {
         idx \<leftarrow> name_loop funcs function_name n_funcs 0;
         case idx of
           None \<Rightarrow> Some (Inl LAGFX_ERR_INVALID_ARG)
         | Some i \<Rightarrow> Some (Inr (funcs ! i)) }}"

text \<open>From the bytes of the llc output to the result.\<close>

definition read_spv :: "'w translate_os \<Rightarrow> string \<Rightarrow> 'w \<Rightarrow> lagfx_status + bytes" where
  "read_spv os spv_temp w =
     (case os_size os spv_temp w of
        None \<Rightarrow> Inl LAGFX_ERR_PROTOCOL
      | Some n_spv \<Rightarrow>
          if n_spv = 0 then Inl LAGFX_ERR_PROTOCOL
          else case os_read os spv_temp n_spv w of
            None \<Rightarrow> Inl LAGFX_ERR_PROTOCOL
          | Some raw \<Rightarrow> if length raw \<noteq> n_spv then Inl LAGFX_ERR_PROTOCOL else Inr raw)"

definition lower_bitcode ::
    "'w translate_os \<Rightarrow> bytes \<Rightarrow> lagfx_shader_stage \<Rightarrow> bytes \<Rightarrow> 'w \<Rightarrow> ((lagfx_status + bytes) \<times> 'w) option" where
  "lower_bitcode os function_name stage_hint retargeted_bc w = do {
     llc \<leftarrow> find_llc_binary os w;
     case llc of
       None \<Rightarrow> Some (Inl LAGFX_ERR_BACKEND, w)
     | Some llc_path \<Rightarrow>
         (case os_mkstemp os ''/tmp/lagfx-translate-XXXXXX.bc'' w of
            (None, w1) \<Rightarrow> Some (Inl LAGFX_ERR_OUT_OF_MEMORY, w1)
          | (Some bc_temp, w1) \<Rightarrow>
              (case os_write os bc_temp retargeted_bc w1 of (written, w2) \<Rightarrow>
                 if written \<noteq> int (length retargeted_bc) then Some (Inl LAGFX_ERR_OUT_OF_MEMORY, os_unlink os bc_temp w2)
                 else case os_mkstemp os ''/tmp/lagfx-translate-XXXXXX.spv'' w2 of
                   (None, w3) \<Rightarrow> Some (Inl LAGFX_ERR_OUT_OF_MEMORY, os_unlink os bc_temp w3)
                 | (Some spv_temp, w3) \<Rightarrow>
                     (case run_llc os llc_path bc_temp spv_temp w3 of (st, w4) \<Rightarrow>
                        let w5 = os_unlink os spv_temp (os_unlink os bc_temp w4) in
                        if st \<noteq> LAGFX_OK then Some (Inl st, w5)
                        else case read_spv os spv_temp w4 of
                          Inl e \<Rightarrow> Some (Inl e, w5)
                        | Inr raw \<Rightarrow> do {
                            res \<leftarrow> lagfx_spv_signature_transform raw (c_str function_name) (ucast (stage_byte stage_hint));
                            Some (res, w5) }))) }"

definition lagfx_shader_translate_run ::
    "'w translate_os \<Rightarrow> bytes \<Rightarrow> bytes \<Rightarrow> lagfx_shader_stage \<Rightarrow> 'w \<Rightarrow> ((lagfx_status + bytes \<times> lagfx_shader_stage) \<times> 'w) option" where
  "lagfx_shader_translate_run os metallib_data function_name stage_hint w =
     (if c_str function_name = [] then Some (Inl LAGFX_ERR_INVALID_ARG, w)
      else do {
        r \<leftarrow> find_function metallib_data function_name;
        case r of
          Inl e \<Rightarrow> Some (Inl e, w)
        | Inr fn \<Rightarrow>
            (case ml_bitcode fn of
               None \<Rightarrow> Some (Inl LAGFX_ERR_PROTOCOL, w)
             | Some off \<Rightarrow>
                 if ml_bitcode_len fn = 0 then Some (Inl LAGFX_ERR_PROTOCOL, w)
                 else do {
                   bitcode \<leftarrow> rd_list metallib_data off (ml_bitcode_len fn);
                   rt \<leftarrow> lagfx_bitcode_retarget_to_spirv bitcode;
                   case rt of
                     Inl e \<Rightarrow> Some (Inl e, w)
                   | Inr bc \<Rightarrow> do {
                       (res, w') \<leftarrow> lower_bitcode os function_name stage_hint bc w;
                       case res of
                         Inl e \<Rightarrow> Some (Inl e, w')
                       | Inr spv \<Rightarrow> Some (Inr (spv, stage_hint), w') }})})"

subsection \<open>The lookup\<close>

lemma name_loop_eq:
  assumes "length funcs = min 32 n" "i \<le> n"
  shows "name_loop funcs name n i =
     (case find_index (\<lambda>f. c_str (ml_name f) = c_str name) (drop i funcs) of
        Some k \<Rightarrow> Some (Some (i + k))
      | None \<Rightarrow> if n \<le> 32 \<or> n = i then Some None else None)"
  using assms
proof (induction "n - i" arbitrary: i)
  case 0
  then show ?case by (subst name_loop.simps) simp
next
  case (Suc m)
  then have "i < n" by simp
  show ?case
  proof (cases "i < length funcs")
    case True
    then have d: "drop i funcs = funcs ! i # drop (i + 1) funcs" by (simp add: Cons_nth_drop_Suc)
    have ih: "name_loop funcs name n (i + 1) =
       (case find_index (\<lambda>f. c_str (ml_name f) = c_str name) (drop (i + 1) funcs) of
          Some k \<Rightarrow> Some (Some (i + 1 + k)) | None \<Rightarrow> if n \<le> 32 \<or> n = i + 1 then Some None else None)"
      using Suc \<open>i < n\<close> by (intro Suc.hyps) auto
    have "n = i + 1 \<longrightarrow> n \<le> 32" using True Suc(3) by simp
    then show ?thesis using True \<open>i < n\<close> ih by (subst name_loop.simps) (auto simp: d split: option.split)
  next
    case False
    then show ?thesis using \<open>i < n\<close> Suc(3) by (subst name_loop.simps) auto
  qed
qed

text \<open>With more than 32 functions and the name not among the first 32, the array is left.\<close>

lemma find_function_overread:
  assumes "lagfx_metallib_extract_functions lib 32 = Some (Inr (funcs, n))" "32 < n"
    and "\<forall>f \<in> set funcs. c_str (ml_name f) \<noteq> c_str name"
  shows "find_function lib name = None"
proof -
  have l: "length funcs = min 32 n" using extract_total[of lib 32] assms(1) by auto
  have "find_index (\<lambda>f. c_str (ml_name f) = c_str name) funcs = None" using assms(3) by (simp add: find_index_None_iff)
  then show ?thesis using assms(1,2) name_loop_eq[OF l, of 0 name] by (simp add: find_function_def)
qed

lemma find_function_total:
  assumes "lagfx_metallib_extract_functions lib 32 = Some (Inr (funcs, n))" "n \<le> 32"
  shows "find_function lib name = Some (case find (\<lambda>f. c_str (ml_name f) = c_str name) funcs of
     None \<Rightarrow> Inl LAGFX_ERR_INVALID_ARG | Some f \<Rightarrow> Inr f)"
proof -
  have l: "length funcs = min 32 n" using extract_total[of lib 32] assms(1) by auto
  have "find P xs = map_option (\<lambda>i. xs ! i) (find_index P xs)" for P and xs :: "lagfx_metallib_function list"
    by (induction xs) (auto simp: option.map_comp o_def)
  then show ?thesis using assms name_loop_eq[OF l, of 0 name] by (simp add: find_function_def split: option.split)
qed

subsection \<open>The temporary files\<close>

lemma templates_refused:
  "\<not> suffix ''XXXXXX'' ''/tmp/lagfx-translate-XXXXXX.bc''" "\<not> suffix ''XXXXXX'' ''/tmp/lagfx-translate-XXXXXX.spv''"
  by code_simp+

lemma lower_bitcode_fails:
  assumes "mkstemp_law os" "lower_bitcode os name stage bc w = Some (r, w')"
  shows "\<exists>e. r = Inl e"
proof -
  obtain w1 where m: "os_mkstemp os ''/tmp/lagfx-translate-XXXXXX.bc'' w = (None, w1)"
    using assms(1) templates_refused(1) unfolding mkstemp_law_def by (metis prod.collapse)
  obtain llc where "find_llc_binary os w = Some llc" using assms(2) by (auto simp: lower_bitcode_def bind_eq_Some_conv)
  then show ?thesis using assms(2) m by (cases llc) (auto simp: lower_bitcode_def)
qed

lemma translate_run_fails:
  assumes "mkstemp_law os" "lagfx_shader_translate_run os lib name stage w = Some (r, w')"
  shows "\<exists>e. r = Inl e"
proof (cases "c_str name = []")
  case True
  then show ?thesis using assms(2) by (auto simp: lagfx_shader_translate_run_def)
next
  case False
  then obtain fr where fr: "find_function lib name = Some fr"
    using assms(2) by (auto simp: lagfx_shader_translate_run_def bind_eq_Some_conv)
  note run = assms(2)[unfolded lagfx_shader_translate_run_def fr bind.simps if_not_P[OF False]]
  show ?thesis
  proof (cases fr)
    case (Inr fn)
    show ?thesis
    proof (cases "ml_bitcode fn = None \<or> ml_bitcode_len fn = 0")
      case True
      then show ?thesis using run Inr by (auto split: option.splits)
    next
      case False
      then obtain bitcode rt where
        rt: "(case rt of Inl e \<Rightarrow> Some (Inl e, w)
          | Inr bc \<Rightarrow> Option.bind (lower_bitcode os name stage bc w)
              (\<lambda>(res, w'). case res of Inl e \<Rightarrow> Some (Inl e, w') | Inr spv \<Rightarrow> Some (Inr (spv, stage), w'))) = Some (r, w')"
        using run Inr by (auto simp: bind_eq_Some_conv)
      show ?thesis
      proof (cases rt)
        case (Inr bc)
        then obtain res w1 where "lower_bitcode os name stage bc w = Some (res, w1)"
            "(case res of Inl e \<Rightarrow> Some (Inl e, w1) | Inr spv \<Rightarrow> Some (Inr (spv, stage), w1)) = Some (r, w')"
          using rt by (auto simp: bind_eq_Some_conv)
        then show ?thesis using lower_bitcode_fails[OF assms(1)] by fastforce
      qed (use rt in auto)
    qed
  qed (use run in auto)
qed

end
