(* ===== verification/Bitstream.thy ===== *)
theory Bitstream
  imports Prelude
begin

text \<open>
  The bit cursor of \<^verbatim>\<open>src/air/bitstream.h\<close> and \<^verbatim>\<open>src/air/bitstream.c\<close>, on which the
  reader for LLVM bitcode rests.  A cursor is a buffer and a bit position.  A reading
  function returns its value and the moved cursor; when it sets the C error flag it
  \<^emph>\<open>fails\<close> and still returns the cursor, because callers may go on from there; an access
  outside an array of the C program is a \<^emph>\<open>fault\<close>.  Sizes and bit positions (C type
  \<^verbatim>\<open>size_t\<close>) are natural numbers: they are bounded by eight times the length of a buffer
  in memory plus the 2^37 bits a block header can add, so no computation on them wraps.

  The theory shows that a read returns exactly the bits of the stream, that the
  variable bit-rate readers invert the encoding of the bitstream format, and that every
  read that succeeds moves the cursor forward inside the buffer.
\<close>

unbundle bit_operations_syntax

subsection \<open>Cursor and outcomes\<close>

record lagfx_bitstream =
  bs_buf :: bytes
  bit_pos :: nat

datatype 'a outcome = Ok 'a lagfx_bitstream | Fail lagfx_bitstream | Fault

type_synonym 'a bsr = "lagfx_bitstream \<Rightarrow> 'a outcome"

definition bs_bind :: "'a bsr \<Rightarrow> ('a \<Rightarrow> 'b bsr) \<Rightarrow> 'b bsr" where
  "bs_bind m f = (\<lambda>bs. case m bs of Ok a bs' \<Rightarrow> f a bs' | Fail bs' \<Rightarrow> Fail bs' | Fault \<Rightarrow> Fault)"

definition bs_return :: "'a \<Rightarrow> 'a bsr" where
  "bs_return a = (\<lambda>bs. Ok a bs)"

definition bs_fail :: "'a bsr" where
  "bs_fail = (\<lambda>bs. Fail bs)"

text \<open>A loop that reads \<open>n\<close> values and leaves at the first failure.\<close>

primrec bs_repeat :: "nat \<Rightarrow> 'a bsr \<Rightarrow> 'a list bsr" where
  "bs_repeat 0 m = bs_return []"
| "bs_repeat (Suc n) m = bs_bind m (\<lambda>x. bs_bind (bs_repeat n m) (\<lambda>xs. bs_return (x # xs)))"

definition buf_bits :: "lagfx_bitstream \<Rightarrow> nat" where
  "buf_bits bs = length (bs_buf bs) * 8"

definition lagfx_bs_init :: "bytes \<Rightarrow> lagfx_bitstream" where
  "lagfx_bs_init b = \<lparr>bs_buf = b, bit_pos = 0\<rparr>"

definition lagfx_bs_at_end :: "lagfx_bitstream \<Rightarrow> bool" where
  "lagfx_bs_at_end bs \<longleftrightarrow> bit_pos bs \<ge> buf_bits bs"

definition lagfx_bs_seek :: "nat \<Rightarrow> unit bsr" where
  "lagfx_bs_seek p = (\<lambda>bs. if p > buf_bits bs then Fail bs else Ok () (bs\<lparr>bit_pos := p\<rparr>))"

definition align_32 :: "nat \<Rightarrow> nat" where
  "align_32 p = (p + 31) div 32 * 32"

definition lagfx_bs_align_32 :: "unit bsr" where
  "lagfx_bs_align_32 = (\<lambda>bs. Ok () (bs\<lparr>bit_pos := align_32 (bit_pos bs)\<rparr>))"

subsection \<open>Reading bits\<close>

text \<open>The bytes that cover the bits, lowest first, shifted into 64 bits.\<close>

fun acc_bytes :: "bytes \<Rightarrow> nat \<Rightarrow> nat \<Rightarrow> nat \<Rightarrow> u64 \<Rightarrow> u64 option" where
  "acc_bytes b byte_off i 0 acc = Some acc"
| "acc_bytes b byte_off i (Suc k) acc =
     (if byte_off + i \<ge> length b then None
      else acc_bytes b byte_off (i + 1) k (acc OR push_bit (8 * i) (ucast (b ! (byte_off + i)))))"

definition lagfx_bs_read_bits :: "nat \<Rightarrow> u32 bsr" where
  "lagfx_bs_read_bits n = (\<lambda>bs.
     if n = 0 \<or> n > 32 then Fail bs
     else if bit_pos bs + n > buf_bits bs then Fail bs
     else let byte_off = bit_pos bs div 8; bit_in = bit_pos bs mod 8;
              bytes_to_read = min 5 ((bit_in + n + 7) div 8)
          in case acc_bytes (bs_buf bs) byte_off 0 bytes_to_read 0 of
               None \<Rightarrow> Fail bs
             | Some acc \<Rightarrow>
                 Ok (ucast (drop_bit bit_in acc AND (if n = 32 then 0xFFFFFFFF else push_bit n 1 - 1)))
                    (bs\<lparr>bit_pos := bit_pos bs + n\<rparr>))"

definition lagfx_bs_read_bits_64 :: "nat \<Rightarrow> u64 bsr" where
  "lagfx_bs_read_bits_64 n =
     (if n = 0 \<or> n > 64 then bs_fail
      else if n \<le> 32 then bs_bind (lagfx_bs_read_bits n) (\<lambda>v. bs_return (ucast v))
      else bs_bind (lagfx_bs_read_bits 32) (\<lambda>lo.
           bs_bind (lagfx_bs_read_bits (n - 32)) (\<lambda>hi.
           bs_return (ucast lo OR push_bit 32 (ucast hi)))))"

lemma read_bits_advances:
  "lagfx_bs_read_bits n bs = Ok v bs' \<Longrightarrow>
     0 < n \<and> n \<le> 32 \<and> bs' = bs\<lparr>bit_pos := bit_pos bs + n\<rparr> \<and> bit_pos bs + n \<le> buf_bits bs"
  by (auto simp: lagfx_bs_read_bits_def Let_def split: if_splits option.splits)

lemma read_bits_cases:
  "lagfx_bs_read_bits n bs = Fail bs \<or> (\<exists>v. lagfx_bs_read_bits n bs = Ok v (bs\<lparr>bit_pos := bit_pos bs + n\<rparr>))"
  by (auto simp: lagfx_bs_read_bits_def Let_def split: option.splits)

subsection \<open>Variable bit-rate integers\<close>

text \<open>The two C functions differ in the width of the value only: 32 and 64 bits.\<close>

function vbr_loop :: "nat \<Rightarrow> nat \<Rightarrow> 'a::len word \<Rightarrow> lagfx_bitstream \<Rightarrow> 'a word outcome" where
  "vbr_loop n shift val bs =
     (case lagfx_bs_read_bits n bs of
        Fault \<Rightarrow> Fault
      | Fail bs' \<Rightarrow> Fail bs'
      | Ok chunk bs' \<Rightarrow>
          let more_mask = push_bit (n - 1) 1 :: u32;
              data_mask = more_mask - 1;
              val' = val OR push_bit shift (ucast (chunk AND data_mask))
          in if chunk AND more_mask = 0 then Ok val' bs'
             else if shift + (n - 1) \<ge> LENGTH('a) then Fail bs'
             else vbr_loop n (shift + (n - 1)) val' bs')"
  by pat_completeness auto
termination
  by (relation "measure (\<lambda>(_, _, _, bs). buf_bits bs - bit_pos bs)")
     (auto dest!: read_bits_advances simp: buf_bits_def)

declare vbr_loop.simps [simp del]

definition lagfx_bs_read_vbr :: "nat \<Rightarrow> u32 bsr" where
  "lagfx_bs_read_vbr n = (\<lambda>bs. if n < 2 \<or> n > 32 then Fail bs else vbr_loop n 0 0 bs)"

definition lagfx_bs_read_vbr_64 :: "nat \<Rightarrow> u64 bsr" where
  "lagfx_bs_read_vbr_64 n = (\<lambda>bs. if n < 2 \<or> n > 32 then Fail bs else vbr_loop n 0 0 bs)"

subsection \<open>The bits of a stream\<close>

definition stream_bit :: "bytes \<Rightarrow> nat \<Rightarrow> bool" where
  "stream_bit b i \<longleftrightarrow> i div 8 < length b \<and> bit (b ! (i div 8)) (i mod 8)"

definition bits_at :: "lagfx_bitstream \<Rightarrow> nat \<Rightarrow> bool list" where
  "bits_at bs n = map (\<lambda>i. stream_bit (bs_buf bs) (bit_pos bs + i)) [0..<n]"

lemma shifted_byte_bit:
  fixes b :: u8
  assumes "i < 8"
  shows "bit (push_bit (8 * i) (ucast b) :: u64) j \<longleftrightarrow> j div 8 = i \<and> bit b (j mod 8)"
proof -
  have d: "8 * (j div 8) + j mod 8 = j" "j mod 8 < 8" by simp_all
  consider "j div 8 = i" | "j div 8 < i" | "i < j div 8" by linarith
  then show ?thesis
  proof cases
    case 1
    then have "8 * i \<le> j" "j - 8 * i = j mod 8" "j < 64" using d assms by linarith+
    then show ?thesis using 1 order_less_trans[OF d(2), of 64] by (simp add: bit_push_bit_iff bit_ucast_iff)
  next
    case 2
    then have "\<not> 8 * i \<le> j" using d by linarith
    then show ?thesis using 2 by (simp add: bit_push_bit_iff)
  next
    case 3
    then have "8 \<le> j - 8 * i" using d by linarith
    then have "\<not> bit b (j - 8 * i)" by (auto dest: bit_imp_le_length)
    then show ?thesis using 3 by (simp add: bit_push_bit_iff bit_ucast_iff)
  qed
qed

lemma acc_bytes_bits:
  assumes "byte_off + i + k \<le> length b" "i + k \<le> 8"
  shows "\<exists>acc'. acc_bytes b byte_off i k acc = Some acc' \<and>
     (\<forall>j. bit acc' j \<longleftrightarrow> bit acc j \<or> (i \<le> j div 8 \<and> j div 8 < i + k \<and> bit (b ! (byte_off + j div 8)) (j mod 8)))"
  using assms
proof (induction k arbitrary: i acc)
  case (Suc k)
  let ?a = "acc OR push_bit (8 * i) (ucast (b ! (byte_off + i))) :: u64"
  have "byte_off + (i + 1) + k \<le> length b" "i + 1 + k \<le> 8" using Suc.prems by simp_all
  from Suc.IH[OF this, of ?a] obtain acc' where a: "acc_bytes b byte_off (i + 1) k ?a = Some acc'"
    "\<And>j. bit acc' j \<longleftrightarrow> bit ?a j \<or> (i + 1 \<le> j div 8 \<and> j div 8 < i + 1 + k \<and> bit (b ! (byte_off + j div 8)) (j mod 8))"
    by blast
  have "i < 8" using Suc.prems by simp
  then have "bit ?a j \<longleftrightarrow> bit acc j \<or> (j div 8 = i \<and> bit (b ! (byte_off + i)) (j mod 8))" for j
    by (simp only: bit_or_iff shifted_byte_bit)
  moreover have "i \<le> x \<and> x < i + Suc k \<longleftrightarrow> x = i \<or> i + 1 \<le> x \<and> x < i + 1 + k" for x by linarith
  ultimately have "bit acc' j \<longleftrightarrow> bit acc j \<or> (i \<le> j div 8 \<and> j div 8 < i + Suc k \<and> bit (b ! (byte_off + j div 8)) (j mod 8))" for j
    unfolding a(2) by metis
  moreover have "acc_bytes b byte_off i (Suc k) acc = Some acc'" using a(1) Suc.prems by simp
  ultimately show ?case by blast
qed auto

text \<open>A read of \<open>n\<close> bits inside the buffer returns the next \<open>n\<close> bits as a number,
  lowest bit first.\<close>

lemma read_bits_value:
  assumes "0 < n" "n \<le> 32" "bit_pos bs + n \<le> buf_bits bs"
  shows "lagfx_bs_read_bits n bs = Ok (horner_sum of_bool 2 (bits_at bs n)) (bs\<lparr>bit_pos := bit_pos bs + n\<rparr>)"
proof -
  define q r k where "q = bit_pos bs div 8" and "r = bit_pos bs mod 8" and "k = (r + n + 7) div 8"
  have p: "bit_pos bs = 8 * q + r" "r < 8" by (simp_all add: q_def r_def)
  have k: "k \<le> 5" "r + n \<le> 8 * k" "q + k \<le> length (bs_buf bs)"
    using assms p(1,2) by (auto simp: k_def buf_bits_def)
  obtain acc where acc: "acc_bytes (bs_buf bs) q 0 k 0 = Some acc"
    "\<And>j. bit acc j \<longleftrightarrow> j div 8 < k \<and> bit (bs_buf bs ! (q + j div 8)) (j mod 8)"
    using acc_bytes_bits[of q 0 k "bs_buf bs" 0] k by auto
  have m: "drop_bit r acc AND (if n = 32 then 0xFFFFFFFF else push_bit n 1 - 1) = take_bit n (drop_bit r acc)"
  proof (cases "n = 32")
    case True
    have "(0xFFFFFFFF :: u64) = mask 32" by (simp add: mask_eq_exp_minus_1)
    then show ?thesis using True by (simp add: take_bit_eq_mask)
  next
    case False
    then show ?thesis by (simp add: take_bit_eq_mask mask_eq_exp_minus_1 push_bit_eq_mult)
  qed
  have "bit (ucast (take_bit n (drop_bit r acc)) :: u32) j = bit (horner_sum of_bool 2 (bits_at bs n) :: u32) j"
    if "j < 32" for j
  proof (cases "j < n")
    case True
    have e: "(8 * q + r + j) div 8 = q + (r + j) div 8" "(8 * q + r + j) mod 8 = (r + j) mod 8"
      unfolding add.assoc mod_mult_self4 by simp_all
    have "q + (r + j) div 8 < length (bs_buf bs)" using True k(2,3) p(2) by auto
    then have "stream_bit (bs_buf bs) (bit_pos bs + j) = bit (bs_buf bs ! (q + (r + j) div 8)) ((r + j) mod 8)"
      unfolding stream_bit_def p(1) e by simp
    moreover have "(r + j) div 8 < k" using True k(2) by linarith
    ultimately show ?thesis
      using True that by (simp add: bit_simps acc(2) bits_at_def)
  next
    case False
    then show ?thesis using that by (simp add: bit_simps bits_at_def)
  qed
  then have v: "ucast (take_bit n (drop_bit r acc)) = (horner_sum of_bool 2 (bits_at bs n) :: u32)"
    by (intro bit_word_eqI) simp
  have "lagfx_bs_read_bits n bs =
      Ok (ucast (drop_bit r acc AND (if n = 32 then 0xFFFFFFFF else push_bit n 1 - 1))) (bs\<lparr>bit_pos := bit_pos bs + n\<rparr>)"
    using assms acc(1) min_absorb2[OF k(1)]
    by (simp add: lagfx_bs_read_bits_def Let_def q_def[symmetric] r_def[symmetric] k_def[symmetric] del: push_bit_of_1)
  then show ?thesis unfolding m v .
qed

lemma read_bits_short: "buf_bits bs < bit_pos bs + n \<Longrightarrow> lagfx_bs_read_bits n bs = Fail bs"
  by (simp add: lagfx_bs_read_bits_def)


subsection \<open>What the encoder writes\<close>

text \<open>A cursor stands before given bits when they are the next bits of its stream.\<close>

definition before :: "lagfx_bitstream \<Rightarrow> bool list \<Rightarrow> bool" where
  "before bs xs \<longleftrightarrow> bit_pos bs + length xs \<le> buf_bits bs \<and> bits_at bs (length xs) = xs"

definition skip :: "lagfx_bitstream \<Rightarrow> nat \<Rightarrow> lagfx_bitstream" where
  "skip bs n = bs\<lparr>bit_pos := bit_pos bs + n\<rparr>"

lemma skip_simps [simp]:
  "bs_buf (skip bs n) = bs_buf bs" "bit_pos (skip bs n) = bit_pos bs + n" "buf_bits (skip bs n) = buf_bits bs"
  "skip (skip bs n) m = skip bs (n + m)" "skip bs 0 = bs"
  by (simp_all add: skip_def buf_bits_def)

lemma before_append: "before bs (xs @ ys) \<longleftrightarrow> before bs xs \<and> before (skip bs (length xs)) ys"
proof -
  have "bits_at bs (length xs + n) = bits_at bs (length xs) @ bits_at (skip bs (length xs)) n" for n
    by (rule nth_equalityI) (auto simp: bits_at_def nth_append add.assoc)
  then show ?thesis by (auto simp: before_def bits_at_def)
qed

lemma before_Nil [simp]: "before bs [] \<longleftrightarrow> bit_pos bs \<le> buf_bits bs"
  by (simp add: before_def bits_at_def)

definition emit_fixed :: "nat \<Rightarrow> nat \<Rightarrow> bool list" where
  "emit_fixed n v = map (bit v) [0..<n]"

function emit_vbr :: "nat \<Rightarrow> nat \<Rightarrow> bool list" where
  "emit_vbr n v =
     (if n < 2 \<or> v < 2 ^ (n - 1) then emit_fixed n v
      else emit_fixed n (take_bit (n - 1) v + 2 ^ (n - 1)) @ emit_vbr n (drop_bit (n - 1) v))"
  by pat_completeness auto
termination
proof (relation "measure snd", goal_cases)
  case (2 n v)
  then have "0 < v" "(2 :: nat) \<le> 2 ^ (n - 1)"
    using self_le_power[of 2 "n - 1"] by (auto intro: order_less_le_trans[of 0 "2 ^ (n - 1)"])
  then show ?case by (simp add: drop_bit_eq_div)
qed simp

declare emit_vbr.simps [simp del]

lemma length_emit_fixed [simp]: "length (emit_fixed n v) = n"
  by (simp add: emit_fixed_def)

lemma read_bits_emit:
  assumes "0 < n" "n \<le> 32" "before bs (emit_fixed n v)"
  shows "lagfx_bs_read_bits n bs = Ok (of_nat (take_bit n v)) (skip bs n)"
proof -
  have "horner_sum of_bool 2 (bits_at bs n) = (of_nat (take_bit n v) :: u32)"
    using assms(3) by (intro bit_word_eqI)
      (auto simp: before_def emit_fixed_def bit_simps)
  then show ?thesis
    using read_bits_value[OF assms(1,2)] assms(3) by (simp add: before_def skip_def)
qed


text \<open>Splitting a chunk into its data bits and its continuation bit.\<close>

lemma chunk_split:
  assumes "2 \<le> n" "n \<le> 32" "d < 2 ^ (n - 1)"
  shows "(of_nat d :: u32) AND push_bit (n - 1) 1 = 0"
    and "(of_nat (d + 2 ^ (n - 1)) :: u32) AND push_bit (n - 1) 1 \<noteq> 0"
    and "(of_nat d :: u32) AND (push_bit (n - 1) 1 - 1) = of_nat d"
    and "(of_nat (d + 2 ^ (n - 1)) :: u32) AND (push_bit (n - 1) 1 - 1) = of_nat d"
proof -
  have m: "(push_bit (n - 1) 1 - 1 :: u32) = mask (n - 1)" by (simp add: mask_eq_exp_minus_1 push_bit_eq_mult)
  have h: "\<not> bit d (n - 1)" using assms(3) by (simp add: bit_iff_odd)
  have t: "take_bit (n - 1) d = d" using assms(3) by (simp add: take_bit_eq_mod)
  have hi: "bit (d + 2 ^ (n - 1)) (n - 1)" using assms(3) by (simp add: bit_iff_odd div_add_self2)
  have th: "take_bit (n - 1) (d + 2 ^ (n - 1)) = d" using assms(3) by (simp add: take_bit_eq_mod)
  show "(of_nat d :: u32) AND push_bit (n - 1) 1 = 0"
    using h by (intro bit_word_eqI) (auto simp: bit_simps)
  have "bit ((of_nat (d + 2 ^ (n - 1)) :: u32) AND push_bit (n - 1) 1) (n - 1)"
    using hi assms(1,2) by (simp only: bit_and_iff bit_of_nat_iff) (simp add: bit_simps)
  then show "(of_nat (d + 2 ^ (n - 1)) :: u32) AND push_bit (n - 1) 1 \<noteq> 0" by force
  show "(of_nat d :: u32) AND (push_bit (n - 1) 1 - 1) = of_nat d"
    unfolding m take_bit_eq_mask[symmetric] take_bit_of_nat t ..
  show "(of_nat (d + 2 ^ (n - 1)) :: u32) AND (push_bit (n - 1) 1 - 1) = of_nat d"
    unfolding m take_bit_eq_mask[symmetric] take_bit_of_nat th ..
qed


lemma or_push_split:
  "push_bit s (of_nat (take_bit k v)) OR push_bit (s + k) (of_nat (drop_bit k v)) = (push_bit s (of_nat v) :: 'a::len word)"
proof (rule bit_word_eqI)
  fix j assume "j < LENGTH('a)"
  then show "bit (push_bit s (of_nat (take_bit k v)) OR push_bit (s + k) (of_nat (drop_bit k v)) :: 'a word) j
      = bit (push_bit s (of_nat v) :: 'a word) j"
    by (cases "j - s < k") (auto simp: bit_simps not_less le_diff_conv2)
qed

lemma vbr_loop_emit:
  fixes val :: "'a::len word"
  assumes "2 \<le> n" "n \<le> 32" "before bs (emit_vbr n v)" "v * 2 ^ shift < 2 ^ LENGTH('a)"
  shows "vbr_loop n shift val bs = Ok (val OR push_bit shift (of_nat v)) (skip bs (length (emit_vbr n v)))"
  using assms
proof (induction n v arbitrary: shift val bs rule: emit_vbr.induct)
  case (1 n v)
  have small: "(ucast (of_nat x :: u32) :: 'a word) = of_nat x" if "x < 2 ^ (n - 1)" for x
  proof -
    have "(2 :: nat) ^ (n - 1) \<le> 2 ^ 32" using "1.prems"(2) by (intro power_increasing) auto
    then show ?thesis using that by (simp add: unsigned_of_nat take_bit_eq_mod)
  qed
  show ?case
  proof (cases "v < 2 ^ (n - 1)")
    case True
    have e: "emit_vbr n v = emit_fixed n v" using True by (simp add: emit_vbr.simps)
    have "take_bit n v = v"
      using order_less_le_trans[OF True power_increasing[of "n - 1" n]] by (simp add: take_bit_eq_mod)
    then have "lagfx_bs_read_bits n bs = Ok (of_nat v) (skip bs n)"
      using read_bits_emit[of n bs v] "1.prems"(1-3) e by simp
    then show ?thesis
      using chunk_split(1,3)[OF "1.prems"(1,2) True] small[OF True]
      by (simp add: vbr_loop.simps[of n shift val bs] Let_def e)
  next
    case False
    let ?d = "take_bit (n - 1) v" and ?r = "drop_bit (n - 1) v"
    let ?val = "val OR push_bit shift (of_nat ?d)"
    have d: "?d < 2 ^ (n - 1)" by simp
    have e: "emit_vbr n v = emit_fixed n (?d + 2 ^ (n - 1)) @ emit_vbr n ?r"
      using False "1.prems"(1) by (subst emit_vbr.simps) simp
    have "?d + 2 ^ (n - 1) < 2 ^ n" using d "1.prems"(1) power_Suc[of "2 :: nat" "n - 1"] by simp
    then have t: "take_bit n (?d + 2 ^ (n - 1)) = ?d + 2 ^ (n - 1)" by (simp add: take_bit_eq_mod)
    have b: "before bs (emit_fixed n (?d + 2 ^ (n - 1)))" "before (skip bs n) (emit_vbr n ?r)"
      using "1.prems"(3) unfolding e before_append by simp_all
    have r: "lagfx_bs_read_bits n bs = Ok (of_nat (?d + 2 ^ (n - 1))) (skip bs n)"
      using read_bits_emit[OF _ "1.prems"(2) b(1)] "1.prems"(1) t by simp
    have "2 ^ (n - 1) * 2 ^ shift < (2 :: nat) ^ LENGTH('a)"
      using False "1.prems"(4) by (meson le_less_trans mult_le_mono1 not_le)
    then have lim: "shift + (n - 1) < LENGTH('a)"
      by (simp add: add.commute flip: power_add)
    have rest: "?r * 2 ^ (shift + (n - 1)) < 2 ^ LENGTH('a)"
    proof -
      have "?r * 2 ^ (n - 1) \<le> v" by (simp add: drop_bit_eq_div)
      then have "?r * 2 ^ (n - 1) * 2 ^ shift \<le> v * 2 ^ shift" by (rule mult_le_mono1)
      from le_less_trans[OF this "1.prems"(4)] show ?thesis by (simp add: power_add ac_simps)
    qed
    have "vbr_loop n shift val bs = vbr_loop n (shift + (n - 1)) ?val (skip bs n)"
      using chunk_split(2,4)[OF "1.prems"(1,2) d] small[OF d] lim
      by (simp add: vbr_loop.simps[of n shift val bs] r Let_def)
    also have "\<dots> = Ok (?val OR push_bit (shift + (n - 1)) (of_nat ?r)) (skip bs (n + length (emit_vbr n ?r)))"
      using "1.IH"[of "skip bs n" "shift + (n - 1)" ?val] False "1.prems"(1,2) b(2) rest by simp
    finally show ?thesis unfolding or.assoc or_push_split by (simp add: e)
  qed
qed


lemma read_vbr_emit:
  "2 \<le> n \<Longrightarrow> n \<le> 32 \<Longrightarrow> before bs (emit_vbr n (unat v)) \<Longrightarrow>
     lagfx_bs_read_vbr n bs = Ok v (skip bs (length (emit_vbr n (unat v))))"
  using vbr_loop_emit[of n bs "unat v" 0 "0 :: u32"] unsigned_less[of v] by (simp add: lagfx_bs_read_vbr_def)

lemma read_vbr_64_emit:
  "2 \<le> n \<Longrightarrow> n \<le> 32 \<Longrightarrow> before bs (emit_vbr n (unat v)) \<Longrightarrow>
     lagfx_bs_read_vbr_64 n bs = Ok v (skip bs (length (emit_vbr n (unat v))))"
  using vbr_loop_emit[of n bs "unat v" 0 "0 :: u64"] unsigned_less[of v] by (simp add: lagfx_bs_read_vbr_64_def)

subsection \<open>Codecs\<close>

text \<open>An encoding and its reader: reading from a cursor before an encoded value gives the
  value back and moves the cursor behind it.\<close>

locale bit_codec =
  fixes emit :: "'a \<Rightarrow> bool list" and rd :: "'a bsr" and valid :: "'a \<Rightarrow> bool"
  assumes roundtrip: "valid x \<Longrightarrow> before bs (emit x) \<Longrightarrow> rd bs = Ok x (skip bs (length (emit x)))"
begin

lemma read_then:
  "valid x \<Longrightarrow> before bs (emit x @ ys) \<Longrightarrow>
     bs_bind rd f bs = f x (skip bs (length (emit x))) \<and> before (skip bs (length (emit x))) ys"
  by (simp add: bs_bind_def before_append roundtrip)

lemma repeat_roundtrip:
  "list_all valid xs \<Longrightarrow> before bs (concat (map emit xs)) \<Longrightarrow>
     bs_repeat (length xs) rd bs = Ok xs (skip bs (length (concat (map emit xs))))"
proof (induction xs arbitrary: bs)
  case (Cons x xs)
  have "before bs (emit x)" "before (skip bs (length (emit x))) (concat (map emit xs))"
    using Cons.prems(2) by (simp_all add: before_append)
  then show ?case
    using Cons.prems(1) Cons.IH[of "skip bs (length (emit x))"] roundtrip[of x bs]
    by (simp add: bs_bind_def bs_return_def)
qed (simp add: bs_return_def)

end

interpretation fixed: bit_codec "\<lambda>v. emit_fixed n (unat v)" "lagfx_bs_read_bits n"
  "\<lambda>v. 0 < n \<and> n \<le> 32 \<and> unat v < 2 ^ n" for n
  by unfold_locales (use read_bits_emit[of n] in \<open>auto simp: take_bit_eq_mod\<close>)

interpretation vbr: bit_codec "\<lambda>v. emit_vbr n (unat v)" "lagfx_bs_read_vbr n" "\<lambda>_. 2 \<le> n \<and> n \<le> 32" for n
  by unfold_locales (use read_vbr_emit in auto)

interpretation vbr64: bit_codec "\<lambda>v. emit_vbr n (unat v)" "lagfx_bs_read_vbr_64 n" "\<lambda>_. 2 \<le> n \<and> n \<le> 32" for n
  by unfold_locales (use read_vbr_64_emit in auto)

subsection \<open>Readers move forward\<close>

definition bs_inside :: "lagfx_bitstream \<Rightarrow> bool" where
  "bs_inside bs \<longleftrightarrow> bit_pos bs \<le> align_32 (buf_bits bs)"

text \<open>The reader keeps the buffer, never moves back, moves at least \<open>k\<close> bits when it
  succeeds, and keeps the cursor inside the buffer (rounded up to a word).\<close>

definition fwd_to :: "nat \<Rightarrow> lagfx_bitstream \<Rightarrow> lagfx_bitstream \<Rightarrow> bool" where
  "fwd_to k bs bs' \<longleftrightarrow> bs_buf bs' = bs_buf bs \<and> bit_pos bs + k \<le> bit_pos bs' \<and> (bs_inside bs \<longrightarrow> bs_inside bs')"

definition fwd :: "nat \<Rightarrow> 'a bsr \<Rightarrow> bool" where
  "fwd k m \<longleftrightarrow> (\<forall>bs. case m bs of Ok _ bs' \<Rightarrow> fwd_to k bs bs' | Fail bs' \<Rightarrow> fwd_to 0 bs bs' | Fault \<Rightarrow> True)"

definition faultless :: "'a bsr \<Rightarrow> bool" where
  "faultless m \<longleftrightarrow> (\<forall>bs. m bs \<noteq> Fault)"

lemma fwd_to_refl [simp]: "fwd_to 0 bs bs"
  by (simp add: fwd_to_def)

lemma fwd_to_trans: "fwd_to k a b \<Longrightarrow> fwd_to l b c \<Longrightarrow> fwd_to (k + l) a c"
  by (auto simp: fwd_to_def)

lemma fwd_to_weaken: "fwd_to k a b \<Longrightarrow> l \<le> k \<Longrightarrow> fwd_to l a b"
  by (auto simp: fwd_to_def)

lemma fwdD_Ok: "fwd k m \<Longrightarrow> m bs = Ok a bs' \<Longrightarrow> fwd_to k bs bs'"
  by (auto simp: fwd_def dest: spec[of _ bs])

lemma fwdD_Fail: "fwd k m \<Longrightarrow> m bs = Fail bs' \<Longrightarrow> fwd_to 0 bs bs'"
  by (auto simp: fwd_def dest: spec[of _ bs])

lemma align_32_mono: "p \<le> q \<Longrightarrow> align_32 p \<le> align_32 q"
  by (simp add: align_32_def div_le_mono)

lemma align_32_ge: "p \<le> align_32 p"
  unfolding align_32_def by linarith

lemma align_32_idem [simp]: "align_32 (align_32 p) = align_32 p"
  by (simp add: align_32_def)

lemma fwd_read_bits: "fwd n (lagfx_bs_read_bits n)"
  unfolding fwd_def fwd_to_def bs_inside_def
  by (auto split: outcome.split dest!: read_bits_advances simp: buf_bits_def
      intro: order_trans[OF _ align_32_ge]) (auto simp: lagfx_bs_read_bits_def Let_def split: if_splits option.splits)


lemma fwd_weaken: "fwd k m \<Longrightarrow> l \<le> k \<Longrightarrow> fwd l m"
  by (auto simp: fwd_def split: outcome.splits intro: fwd_to_weaken)

lemma fwd_bind:
  assumes "fwd k m" "\<And>a. fwd l (f a)"
  shows "fwd (k + l) (bs_bind m f)"
  unfolding fwd_def
proof
  fix bs
  show "case bs_bind m f bs of Ok _ bs' \<Rightarrow> fwd_to (k + l) bs bs' | Fail bs' \<Rightarrow> fwd_to 0 bs bs' | Fault \<Rightarrow> True"
  proof (cases "m bs")
    case (Ok a bs1)
    note o = fwdD_Ok[OF assms(1) this]
    show ?thesis
    proof (cases "f a bs1")
      case (Ok b bs2)
      then show ?thesis using \<open>m bs = _\<close> fwd_to_trans[OF o fwdD_Ok[OF assms(2) Ok]] by (simp add: bs_bind_def)
    next
      case (Fail bs2)
      then show ?thesis
        using \<open>m bs = _\<close> fwd_to_weaken[OF fwd_to_trans[OF o fwdD_Fail[OF assms(2) Fail]]] by (simp add: bs_bind_def)
    qed (use \<open>m bs = _\<close> in \<open>simp add: bs_bind_def\<close>)
  qed (use fwdD_Fail[OF assms(1)] in \<open>simp_all add: bs_bind_def\<close>)
qed

lemma fwd_return [simp]: "fwd 0 (bs_return a)" and fwd_fail [simp]: "fwd k bs_fail"
  by (simp_all add: fwd_def bs_return_def bs_fail_def)

lemma fwd_repeat: "fwd k m \<Longrightarrow> fwd (n * k) (bs_repeat n m)"
proof (induction n)
  case (Suc n)
  then have "fwd (k + (n * k + 0)) (bs_repeat (Suc n) m)"
    unfolding bs_repeat.simps by (intro fwd_bind) auto
  then show ?case by simp
qed simp

lemma fwd_align: "fwd 0 lagfx_bs_align_32"
  using align_32_mono align_32_ge
  by (fastforce simp: fwd_def fwd_to_def lagfx_bs_align_32_def bs_inside_def buf_bits_def)

lemma fwd_vbr_loop: "case vbr_loop n shift val bs of
    Ok _ bs' \<Rightarrow> fwd_to n bs bs' | Fail bs' \<Rightarrow> fwd_to 0 bs bs' | Fault \<Rightarrow> False"
proof (induction n shift val bs rule: vbr_loop.induct)
  case (1 n shift val bs)
  show ?case
  proof (cases "lagfx_bs_read_bits n bs")
    case (Ok chunk bs1)
    note r = fwdD_Ok[OF fwd_read_bits Ok]
    note ih = "1.IH"[OF Ok refl refl refl]
    show ?thesis
    proof (cases "chunk AND push_bit (n - 1) 1 = 0 \<or> LENGTH('a) \<le> shift + (n - 1)")
      case True
      then show ?thesis using r fwd_to_weaken[OF r, of 0] Ok by (auto simp: vbr_loop.simps[of n shift val bs] Let_def)
    next
      case False
      let ?v = "val OR push_bit shift (ucast (chunk AND (push_bit (n - 1) 1 - 1)))"
      have e: "vbr_loop n shift val bs = vbr_loop n (shift + (n - 1)) ?v bs1"
        using False Ok by (simp add: vbr_loop.simps[of n shift val bs] Let_def)
      have w: "fwd_to k bs1 bs2 \<Longrightarrow> l \<le> n + k \<Longrightarrow> fwd_to l bs bs2" for k l bs2
        using fwd_to_weaken[OF fwd_to_trans[OF r]] .
      show ?thesis
        using ih False unfolding e by (cases "vbr_loop n (shift + (n - 1)) ?v bs1") (auto intro: w)
    qed
  qed (use read_bits_cases[of n bs] in \<open>auto simp: vbr_loop.simps[of n shift val bs]\<close>)
qed

lemma vbr_loopD:
  "vbr_loop n shift val bs = Ok v bs' \<Longrightarrow> fwd_to n bs bs'"
  "vbr_loop n shift val bs = Fail bs' \<Longrightarrow> fwd_to 0 bs bs'"
  "vbr_loop n shift val bs \<noteq> Fault"
  using fwd_vbr_loop[of n bs shift val] by auto

lemma fwd_read_vbr: "fwd n (lagfx_bs_read_vbr n)" "fwd n (lagfx_bs_read_vbr_64 n)"
  by (auto simp: fwd_def lagfx_bs_read_vbr_def lagfx_bs_read_vbr_64_def split: outcome.split dest: vbr_loopD(1,2))

lemma faultless_reads [simp]:
  "faultless (lagfx_bs_read_bits n)" "faultless (lagfx_bs_read_vbr n)" "faultless (lagfx_bs_read_vbr_64 n)"
proof -
  show "faultless (lagfx_bs_read_bits n)"
    unfolding faultless_def using read_bits_cases[of n] by (metis outcome.distinct(3,5))
qed (simp_all add: faultless_def lagfx_bs_read_vbr_def lagfx_bs_read_vbr_64_def vbr_loopD(3))

lemma faultless_bind: "faultless m \<Longrightarrow> (\<And>a. faultless (f a)) \<Longrightarrow> faultless (bs_bind m f)"
  by (auto simp: faultless_def bs_bind_def split: outcome.split)

lemma faultless_basic [simp]: "faultless (bs_return a)" "faultless bs_fail" "faultless lagfx_bs_align_32" "faultless (lagfx_bs_seek p)"
  by (simp_all add: faultless_def bs_return_def bs_fail_def lagfx_bs_align_32_def lagfx_bs_seek_def)

lemma faultless_repeat: "faultless m \<Longrightarrow> faultless (bs_repeat n m)"
  by (induction n) (auto intro!: faultless_bind)

end
