(* ===== verification/Abbrev.thy ===== *)
theory Abbrev
  imports Bitstream
begin

text \<open>
  The abbreviation tables of \<^verbatim>\<open>src/air/abbrev.h\<close> and \<^verbatim>\<open>src/air/abbrev.c\<close>: reading the
  definition of an abbreviation, copying a table and decoding a record with an
  abbreviation.  An abbreviation is the list of its operand encodings, a table the list of
  its abbreviations (the C arrays hold up to 64 of each and carry a count).

  The theory shows that both readers invert the encoder of the format, that definition
  and copy keep the bounds of the arrays, and exactly when the operand buffer of a record
  is overrun.
\<close>

unbundle bit_operations_syntax

subsection \<open>Tables\<close>

datatype lagfx_abbrev_op =
    LAGFX_ABBREV_OP_LITERAL u64
  | LAGFX_ABBREV_OP_FIXED u64
  | LAGFX_ABBREV_OP_VBR u64
  | LAGFX_ABBREV_OP_ARRAY
  | LAGFX_ABBREV_OP_CHAR6
  | LAGFX_ABBREV_OP_BLOB

type_synonym lagfx_abbrev = "lagfx_abbrev_op list"
type_synonym lagfx_abbrev_table = "lagfx_abbrev list"

definition LAGFX_ABBREV_MAX_OPS :: nat where "LAGFX_ABBREV_MAX_OPS = 64"
definition LAGFX_ABBREV_MAX_PER_BLOCK :: nat where "LAGFX_ABBREV_MAX_PER_BLOCK = 64"

definition char6_decode :: "u32 \<Rightarrow> u64" where
  "char6_decode v =
     (if v < 26 then ucast (97 + v)
      else if v < 52 then ucast (65 + (v - 26))
      else if v < 62 then ucast (48 + (v - 52))
      else if v = 62 then 46 else 95)"

text \<open>One operand of a definition: a literal, or an encoding with its width.\<close>

definition read_abbrev_op :: "lagfx_abbrev_op bsr" where
  "read_abbrev_op = bs_bind (lagfx_bs_read_bits 1) (\<lambda>is_literal.
     if is_literal \<noteq> 0 then bs_bind (lagfx_bs_read_vbr_64 8) (\<lambda>v. bs_return (LAGFX_ABBREV_OP_LITERAL v))
     else bs_bind (lagfx_bs_read_bits 3) (\<lambda>encoding.
       if encoding = 1 then bs_bind (lagfx_bs_read_vbr 5) (\<lambda>w. bs_return (LAGFX_ABBREV_OP_FIXED (ucast w)))
       else if encoding = 2 then bs_bind (lagfx_bs_read_vbr 5) (\<lambda>w. bs_return (LAGFX_ABBREV_OP_VBR (ucast w)))
       else if encoding = 3 then bs_return LAGFX_ABBREV_OP_ARRAY
       else if encoding = 4 then bs_return LAGFX_ABBREV_OP_CHAR6
       else if encoding = 5 then bs_return LAGFX_ABBREV_OP_BLOB
       else bs_fail))"

definition lagfx_abbrev_table_define :: "lagfx_abbrev_table \<Rightarrow> lagfx_abbrev_table bsr" where
  "lagfx_abbrev_table_define table =
     (if length table \<ge> LAGFX_ABBREV_MAX_PER_BLOCK then bs_fail
      else bs_bind (lagfx_bs_read_vbr 5) (\<lambda>num_ops.
        if num_ops = 0 \<or> num_ops > of_nat LAGFX_ABBREV_MAX_OPS then bs_fail
        else bs_bind (bs_repeat (unat num_ops) read_abbrev_op) (\<lambda>ops. bs_return (table @ [ops]))))"

definition lagfx_abbrev_table_copy :: "lagfx_abbrev_table \<Rightarrow> lagfx_abbrev_table \<Rightarrow> lagfx_abbrev_table option" where
  "lagfx_abbrev_table_copy dst src =
     (if length src + length dst > LAGFX_ABBREV_MAX_PER_BLOCK then None else Some (dst @ src))"

subsection \<open>Decoding a record\<close>

definition decode_one_value :: "lagfx_abbrev_op \<Rightarrow> u64 bsr" where
  "decode_one_value op = (case op of
       LAGFX_ABBREV_OP_LITERAL v \<Rightarrow> bs_return v
     | LAGFX_ABBREV_OP_FIXED vw \<Rightarrow>
         let w = unat (ucast vw :: u32) in
         if w = 0 then bs_return 0
         else if w > 32 then
           bs_bind (lagfx_bs_read_bits 32) (\<lambda>lo.
           bs_bind (lagfx_bs_read_bits (w - 32)) (\<lambda>hi.
           bs_return (ucast lo OR push_bit 32 (ucast hi))))
         else bs_bind (lagfx_bs_read_bits w) (\<lambda>v. bs_return (ucast v))
     | LAGFX_ABBREV_OP_VBR vw \<Rightarrow> lagfx_bs_read_vbr_64 (unat (ucast vw :: u32))
     | LAGFX_ABBREV_OP_CHAR6 \<Rightarrow> bs_bind (lagfx_bs_read_bits 6) (\<lambda>v. bs_return (char6_decode v))
     | _ \<Rightarrow> bs_fail)"

text \<open>The elements of an array: the first value decoded for a record is its code, later
  ones go to the operand buffer, here without a check of its capacity.\<close>

primrec array_values ::
  "nat \<Rightarrow> lagfx_abbrev_op \<Rightarrow> nat \<Rightarrow> u32 option \<Rightarrow> u64 list \<Rightarrow> (u32 option \<times> u64 list) bsr" where
  "array_values cap elem 0 code ops = bs_return (code, ops)"
| "array_values cap elem (Suc n) code ops =
     bs_bind (decode_one_value elem) (\<lambda>v.
       case code of
         None \<Rightarrow> array_values cap elem n (Some (ucast v)) ops
       | Some c \<Rightarrow> if length ops < cap then array_values cap elem n (Some c) (ops @ [v]) else (\<lambda>_. Fault))"

definition read_blob :: "bytes bsr" where
  "read_blob = bs_bind (lagfx_bs_read_vbr 6) (\<lambda>len. bs_bind lagfx_bs_align_32 (\<lambda>_ bs.
     let byte_off = bit_pos bs div 8 in
     if byte_off + unat len > length (bs_buf bs) then Fail bs
     else bs_bind lagfx_bs_align_32 (\<lambda>_. bs_return (take (unat len) (drop byte_off (bs_buf bs))))
            (bs\<lparr>bit_pos := bit_pos bs + unat len * 8\<rparr>)))"

fun decode_ops ::
  "nat \<Rightarrow> lagfx_abbrev \<Rightarrow> u32 option \<Rightarrow> u64 list \<Rightarrow> bytes option \<Rightarrow> (u32 option \<times> u64 list \<times> bytes option) bsr" where
  "decode_ops cap [] code ops blob = bs_return (code, ops, blob)"
| "decode_ops cap [LAGFX_ABBREV_OP_ARRAY] code ops blob = bs_fail"
| "decode_ops cap (LAGFX_ABBREV_OP_ARRAY # elem # rest) code ops blob =
     bs_bind (lagfx_bs_read_vbr 6) (\<lambda>len.
       if of_nat (length ops) + len > of_nat cap then bs_fail
       else bs_bind (array_values cap elem (unat len) code ops) (\<lambda>(code', ops'). decode_ops cap rest code' ops' blob))"
| "decode_ops cap (LAGFX_ABBREV_OP_BLOB # rest) code ops blob =
     bs_bind read_blob (\<lambda>b. decode_ops cap rest code ops (Some b))"
| "decode_ops cap (op # rest) code ops blob =
     bs_bind (decode_one_value op) (\<lambda>v.
       case code of
         None \<Rightarrow> decode_ops cap rest (Some (ucast v)) ops blob
       | Some c \<Rightarrow> if length ops \<ge> cap then bs_fail else decode_ops cap rest (Some c) (ops @ [v]) blob)"

definition lagfx_abbrev_decode_record ::
  "lagfx_abbrev_table \<Rightarrow> u32 \<Rightarrow> nat \<Rightarrow> (u32 \<times> u64 list \<times> bytes option) bsr" where
  "lagfx_abbrev_decode_record table abbrev_id cap =
     (if abbrev_id < 4 then bs_fail
      else let idx = unat (abbrev_id - 4) in
      if idx \<ge> length table then bs_fail
      else bs_bind (decode_ops cap (table ! idx) None [] None) (\<lambda>(code, ops, blob).
        case code of None \<Rightarrow> bs_fail | Some c \<Rightarrow> bs_return (c, ops, blob)))"


subsection \<open>The encoder of the format\<close>

fun emit_abbrev_op :: "lagfx_abbrev_op \<Rightarrow> bool list" where
  "emit_abbrev_op (LAGFX_ABBREV_OP_LITERAL v) = emit_fixed 1 1 @ emit_vbr 8 (unat v)"
| "emit_abbrev_op (LAGFX_ABBREV_OP_FIXED w) = emit_fixed 1 0 @ emit_fixed 3 1 @ emit_vbr 5 (unat w)"
| "emit_abbrev_op (LAGFX_ABBREV_OP_VBR w) = emit_fixed 1 0 @ emit_fixed 3 2 @ emit_vbr 5 (unat w)"
| "emit_abbrev_op LAGFX_ABBREV_OP_ARRAY = emit_fixed 1 0 @ emit_fixed 3 3"
| "emit_abbrev_op LAGFX_ABBREV_OP_CHAR6 = emit_fixed 1 0 @ emit_fixed 3 4"
| "emit_abbrev_op LAGFX_ABBREV_OP_BLOB = emit_fixed 1 0 @ emit_fixed 3 5"

fun valid_abbrev_op :: "lagfx_abbrev_op \<Rightarrow> bool" where
  "valid_abbrev_op (LAGFX_ABBREV_OP_FIXED w) \<longleftrightarrow> unat w < 2 ^ 32"
| "valid_abbrev_op (LAGFX_ABBREV_OP_VBR w) \<longleftrightarrow> unat w < 2 ^ 32"
| "valid_abbrev_op _ \<longleftrightarrow> True"

definition emit_define :: "lagfx_abbrev \<Rightarrow> bool list" where
  "emit_define ops = emit_vbr 5 (length ops) @ concat (map emit_abbrev_op ops)"

text \<open>The characters of the 6-bit encoding: a-z, A-Z, 0-9, the dot and the underscore.\<close>

definition char6_alphabet :: "u64 list" where
  "char6_alphabet = map (\<lambda>i. 97 + of_nat i) [0..<26] @ map (\<lambda>i. 65 + of_nat i) [0..<26] @ map (\<lambda>i. 48 + of_nat i) [0..<10] @ [46, 95]"

definition char6_encode :: "u64 \<Rightarrow> nat option" where
  "char6_encode v = find_index (\<lambda>c. c = v) char6_alphabet"

definition emit_value :: "lagfx_abbrev_op \<Rightarrow> u64 \<Rightarrow> bool list" where
  "emit_value op v = (case op of
       LAGFX_ABBREV_OP_FIXED vw \<Rightarrow> emit_fixed (unat (ucast vw :: u32)) (unat v)
     | LAGFX_ABBREV_OP_VBR vw \<Rightarrow> emit_vbr (unat (ucast vw :: u32)) (unat v)
     | LAGFX_ABBREV_OP_CHAR6 \<Rightarrow> (case char6_encode v of Some c \<Rightarrow> emit_fixed 6 c | None \<Rightarrow> [])
     | _ \<Rightarrow> [])"

definition valid_value :: "lagfx_abbrev_op \<Rightarrow> u64 \<Rightarrow> bool" where
  "valid_value op v = (case op of
       LAGFX_ABBREV_OP_LITERAL c \<Rightarrow> v = c
     | LAGFX_ABBREV_OP_FIXED vw \<Rightarrow> unat (ucast vw :: u32) \<le> 64 \<and> unat v < 2 ^ unat (ucast vw :: u32)
     | LAGFX_ABBREV_OP_VBR vw \<Rightarrow> 2 \<le> unat (ucast vw :: u32) \<and> unat (ucast vw :: u32) \<le> 32
     | LAGFX_ABBREV_OP_CHAR6 \<Rightarrow> char6_encode v \<noteq> None
     | _ \<Rightarrow> False)"

text \<open>A record lists its values, the code first.  An array takes all values that are left
  and stands at the end of the pattern.\<close>

primrec emit_record :: "lagfx_abbrev \<Rightarrow> u64 list \<Rightarrow> bool list" where
  "emit_record [] vs = []"
| "emit_record (op # rest) vs =
     (if op = LAGFX_ABBREV_OP_ARRAY
      then emit_vbr 6 (length vs) @ (case rest of [elem] \<Rightarrow> concat (map (emit_value elem) vs) | _ \<Rightarrow> [])
      else case vs of [] \<Rightarrow> [] | v # vs' \<Rightarrow> emit_value op v @ emit_record rest vs')"

primrec valid_record :: "lagfx_abbrev \<Rightarrow> u64 list \<Rightarrow> bool" where
  "valid_record [] vs \<longleftrightarrow> vs = []"
| "valid_record (op # rest) vs \<longleftrightarrow>
     (if op = LAGFX_ABBREV_OP_ARRAY then (case rest of [elem] \<Rightarrow> list_all (valid_value elem) vs | _ \<Rightarrow> False)
      else case vs of [] \<Rightarrow> False | v # vs' \<Rightarrow> valid_value op v \<and> valid_record rest vs')"

subsection \<open>Definitions are read back\<close>

lemma read_fixed:
  "before bs (emit_fixed n v) \<Longrightarrow> 0 < n \<Longrightarrow> n \<le> 32 \<Longrightarrow> v < 2 ^ n \<Longrightarrow>
     lagfx_bs_read_bits n bs = Ok (of_nat v) (skip bs n)"
  using read_bits_emit[of n bs v] by (simp add: take_bit_eq_mod)

lemma ucast_back:
  assumes "unat (w :: u64) < 2 ^ 32"
  shows "unat (ucast w :: u32) = unat w" "ucast (ucast w :: u32) = w"
proof -
  show u: "unat (ucast w :: u32) = unat w" using assms by (simp add: unat_ucast_small)
  then show "ucast (ucast w :: u32) = w"
    using unat_ucast_up[where 'b = 64, of "ucast w :: u32"] by (simp add: word_unat_eq_iff)
qed

lemma read_vbr_width:
  assumes "before bs (emit_vbr n (unat w))" "2 \<le> n" "n \<le> 32" "unat (w :: u64) < 2 ^ 32"
  shows "bs_bind (lagfx_bs_read_vbr n) (\<lambda>v. bs_return (f (ucast v))) bs = Ok (f w) (skip bs (length (emit_vbr n (unat w))))"
  using read_vbr_emit[of n bs "ucast w"] assms(1-3) ucast_back[OF assms(4)] by (simp add: bs_bind_def bs_return_def)

lemma read_abbrev_op_emit:
  assumes "valid_abbrev_op op" "before bs (emit_abbrev_op op)"
  shows "read_abbrev_op bs = Ok op (skip bs (length (emit_abbrev_op op)))"
proof -
  have lit: "read_abbrev_op bs = bs_bind (lagfx_bs_read_vbr_64 8) (\<lambda>v. bs_return (LAGFX_ABBREV_OP_LITERAL v)) (skip bs 1)"
    if "before bs (emit_fixed 1 1)"
    using read_fixed[OF that] by (simp add: read_abbrev_op_def bs_bind_def)
  have enc: "read_abbrev_op bs = (if k = 1 then bs_bind (lagfx_bs_read_vbr 5) (\<lambda>w. bs_return (LAGFX_ABBREV_OP_FIXED (ucast w)))
       else if k = 2 then bs_bind (lagfx_bs_read_vbr 5) (\<lambda>w. bs_return (LAGFX_ABBREV_OP_VBR (ucast w)))
       else if k = 3 then bs_return LAGFX_ABBREV_OP_ARRAY
       else if k = 4 then bs_return LAGFX_ABBREV_OP_CHAR6
       else if k = 5 then bs_return LAGFX_ABBREV_OP_BLOB else bs_fail) (skip bs 4)"
    if "before bs (emit_fixed 1 0)" "before (skip bs 1) (emit_fixed 3 (unat k))" "unat k < 8" for k :: u32
    using read_fixed[OF that(1)] read_fixed[OF that(2)] that(3) by (simp add: read_abbrev_op_def bs_bind_def)
  show ?thesis
  proof (cases op)
    case (LAGFX_ABBREV_OP_LITERAL v)
    then have "before (skip bs 1) (emit_vbr 8 (unat v))" "before bs (emit_fixed 1 1)"
      using assms(2) by (simp_all add: before_append)
    then show ?thesis using LAGFX_ABBREV_OP_LITERAL lit read_vbr_64_emit[of 8 "skip bs 1" v]
      by (simp add: bs_return_def bs_bind_def)
  next
    case (LAGFX_ABBREV_OP_FIXED v)
    then show ?thesis
      using assms enc[of 1] read_vbr_width[of "skip bs 4" 5 v] by (simp add: before_append)
  next
    case (LAGFX_ABBREV_OP_VBR v)
    then show ?thesis
      using assms enc[of 2] read_vbr_width[of "skip bs 4" 5 v] by (simp add: before_append)
  qed (use assms(2) enc[of 3] enc[of 4] enc[of 5] in \<open>simp_all add: before_append bs_return_def\<close>)
qed

interpretation abbrev_op: bit_codec emit_abbrev_op read_abbrev_op valid_abbrev_op
  by unfold_locales (rule read_abbrev_op_emit)

lemma define_emit:
  assumes "length table < 64" "ops \<noteq> []" "length ops \<le> 64" "list_all valid_abbrev_op ops" "before bs (emit_define ops)"
  shows "lagfx_abbrev_table_define table bs = Ok (table @ [ops]) (skip bs (length (emit_define ops)))"
proof -
  have u: "unat (of_nat (length ops) :: u32) = length ops" using assms(3) by (simp add: unat_of_nat_small)
  have b: "before bs (emit_vbr 5 (length ops))" "before (skip bs (length (emit_vbr 5 (length ops)))) (concat (map emit_abbrev_op ops))"
    using assms(5) by (simp_all add: emit_define_def before_append)
  have "of_nat (length ops) \<noteq> (0 :: u32)" "\<not> (64 :: u32) < of_nat (length ops)"
    using assms(2,3) u by (auto simp: word_less_nat_alt word_unat_eq_iff)
  then show ?thesis
    using assms(1) read_vbr_emit[of 5 bs "of_nat (length ops)"] u b(1)
      abbrev_op.repeat_roundtrip[OF assms(4) b(2)]
    by (simp add: lagfx_abbrev_table_define_def LAGFX_ABBREV_MAX_PER_BLOCK_def LAGFX_ABBREV_MAX_OPS_def
        emit_define_def bs_return_def bs_bind_def)
qed


subsection \<open>Records are read back\<close>

lemma emit_fixed_split: "k \<le> n \<Longrightarrow> emit_fixed n v = emit_fixed k v @ emit_fixed (n - k) (drop_bit k v)"
  by (rule nth_equalityI) (auto simp: emit_fixed_def nth_append bit_simps)

lemma char6_encode_decode:
  assumes "char6_encode v = Some c"
  shows "c < 64" "char6_decode (of_nat c) = v"
proof -
  have "length char6_alphabet = 64" "list_all (\<lambda>i. char6_decode (of_nat i) = char6_alphabet ! i) [0..<64]" by code_simp+
  moreover have "c < length char6_alphabet" "char6_alphabet ! c = v"
    using find_index_SomeD[OF assms[unfolded char6_encode_def]] by simp_all
  ultimately show "c < 64" "char6_decode (of_nat c) = v" by (auto simp: list_all_iff)
qed

lemma decode_one_value_emit:
  assumes "valid_value op v" "before bs (emit_value op v)"
  shows "decode_one_value op bs = Ok v (skip bs (length (emit_value op v)))"
proof (cases op)
  case (LAGFX_ABBREV_OP_FIXED vw)
  define w where "w = unat (ucast vw :: u32)"
  have v: "w \<le> 64" "unat v < 2 ^ w" and e: "emit_value op v = emit_fixed w (unat v)"
    using assms(1) LAGFX_ABBREV_OP_FIXED by (simp_all add: valid_value_def emit_value_def w_def)
  consider "w = 0" | "0 < w" "w \<le> 32" | "32 < w" by linarith
  then show ?thesis
  proof cases
    case 1
    then have "v = 0" using v(2) by (simp add: unat_eq_zero)
    then show ?thesis
      using 1 e LAGFX_ABBREV_OP_FIXED by (simp add: decode_one_value_def Let_def w_def[symmetric] bs_return_def)
  next
    case 2
    have "ucast (of_nat (unat v) :: u32) = v"
      using ucast_back(2)[OF order_less_le_trans[OF v(2) power_increasing[OF 2(2)]]] by simp
    then show ?thesis
      using 2 v e assms(2) read_fixed[of bs w "unat v"] LAGFX_ABBREV_OP_FIXED
      by (simp add: decode_one_value_def Let_def w_def[symmetric] bs_bind_def bs_return_def)
  next
    case 3
    have b: "before bs (emit_fixed 32 (unat v))" "before (skip bs 32) (emit_fixed (w - 32) (drop_bit 32 (unat v)))"
      using assms(2) 3 unfolding e emit_fixed_split[OF less_imp_le[OF 3]] before_append by simp_all
    have hi: "drop_bit 32 (unat v) < 2 ^ (w - 32)"
    proof -
      have "(2 :: nat) ^ w = 2 ^ (w - 32) * 2 ^ 32" using 3 power_add[of "2 :: nat" "w - 32" 32] by simp
      with v(2) have "unat v < 2 ^ (w - 32) * 2 ^ 32" by (simp only:)
      then show ?thesis by (simp only: drop_bit_eq_div less_mult_imp_div_less)
    qed
    have "ucast (of_nat (take_bit 32 (unat v)) :: u32) OR push_bit 32 (ucast (of_nat (drop_bit 32 (unat v)) :: u32)) = v"
      by (rule bit_word_eqI) (auto simp: bit_simps not_less)
    then show ?thesis
      using 3 v(1) e LAGFX_ABBREV_OP_FIXED read_bits_emit[OF _ _ b(1)] read_fixed[OF b(2) _ _ hi]
      by (simp add: decode_one_value_def Let_def w_def[symmetric] bs_bind_def bs_return_def)
  qed
next
  case (LAGFX_ABBREV_OP_VBR vw)
  then show ?thesis
    using assms read_vbr_64_emit[of "unat (ucast vw :: u32)" bs v]
    by (simp add: valid_value_def emit_value_def decode_one_value_def)
next
  case LAGFX_ABBREV_OP_CHAR6
  then obtain c where c: "char6_encode v = Some c" using assms(1) by (auto simp: valid_value_def)
  have "c < 64" "char6_decode (of_nat c) = v" by (rule char6_encode_decode[OF c])+
  then show ?thesis
    using LAGFX_ABBREV_OP_CHAR6 assms(2) c read_fixed[of bs 6 c]
    by (simp add: emit_value_def decode_one_value_def bs_bind_def bs_return_def)
qed (use assms in \<open>simp_all add: valid_value_def emit_value_def decode_one_value_def bs_return_def\<close>)

interpretation abbrev_value: bit_codec "emit_value op" "decode_one_value op" "valid_value op" for op
  by unfold_locales (rule decode_one_value_emit)

primrec push_values :: "u64 list \<Rightarrow> u32 option \<Rightarrow> u64 list \<Rightarrow> u32 option \<times> u64 list" where
  "push_values [] code ops = (code, ops)"
| "push_values (v # vs) code ops =
     (case code of None \<Rightarrow> push_values vs (Some (ucast v)) ops | Some c \<Rightarrow> push_values vs (Some c) (ops @ [v]))"

lemma push_values_Some [simp]: "push_values vs (Some c) ops = (Some c, ops @ vs)"
  by (induction vs arbitrary: ops) auto

lemma array_values_emit:
  "list_all (valid_value elem) vs \<Longrightarrow> before bs (concat (map (emit_value elem) vs)) \<Longrightarrow> length ops + length vs \<le> cap \<Longrightarrow>
     array_values cap elem (length vs) code ops bs =
       Ok (push_values vs code ops) (skip bs (length (concat (map (emit_value elem) vs))))"
proof (induction vs arbitrary: bs code ops)
  case (Cons v vs)
  have b: "before bs (emit_value elem v)" "before (skip bs (length (emit_value elem v))) (concat (map (emit_value elem) vs))"
    using Cons.prems(2) by (simp_all add: before_append)
  have d: "decode_one_value elem bs = Ok v (skip bs (length (emit_value elem v)))"
    using decode_one_value_emit[OF _ b(1)] Cons.prems(1) by simp
  show ?case
    using Cons.prems(1,3) Cons.IH[OF _ b(2), of ops "Some (ucast v)"] Cons.IH[OF _ b(2), of "ops @ [v]"]
    by (simp add: bs_bind_def d split: option.split)
qed (simp add: bs_return_def)

lemma decode_ops_scalar:
  assumes "valid_value op v"
  shows "decode_ops cap (op # rest) code ops blob = bs_bind (decode_one_value op) (\<lambda>v.
       case code of
         None \<Rightarrow> decode_ops cap rest (Some (ucast v)) ops blob
       | Some c \<Rightarrow> if length ops \<ge> cap then bs_fail else decode_ops cap rest (Some c) (ops @ [v]) blob)"
  using assms by (cases op) (auto simp: valid_value_def)

lemma decode_ops_emit:
  "valid_record pat vs \<Longrightarrow> before bs (emit_record pat vs) \<Longrightarrow> length ops + length vs \<le> cap \<Longrightarrow> cap < 2 ^ 31 \<Longrightarrow>
     decode_ops cap pat code ops blob bs =
       Ok (case push_values vs code ops of (c, os) \<Rightarrow> (c, os, blob)) (skip bs (length (emit_record pat vs)))"
proof (induction pat arbitrary: vs bs code ops)
  case (Cons op rest)
  show ?case
  proof (cases "op = LAGFX_ABBREV_OP_ARRAY")
    case True
    then obtain elem where r: "rest = [elem]" "list_all (valid_value elem) vs"
      using Cons.prems(1) by (auto split: list.splits)
    have u: "unat (of_nat (length vs) :: u32) = length vs" using Cons.prems by (simp add: unat_of_nat_small)
    have b: "before bs (emit_vbr 6 (length vs))"
      "before (skip bs (length (emit_vbr 6 (length vs)))) (concat (map (emit_value elem) vs))"
      using Cons.prems(2) True r(1) by (simp_all add: before_append)
    have "unat (of_nat (length ops) + of_nat (length vs) :: u32) = length ops + length vs" "unat (of_nat cap :: u32) = cap"
      using Cons.prems(3,4) by (simp_all add: unat_of_nat_small flip: of_nat_add)
    then have "\<not> (of_nat cap :: u32) < of_nat (length ops) + of_nat (length vs)"
      using Cons.prems(3) by (simp add: word_less_nat_alt)
    then show ?thesis
      using read_vbr_emit[of 6 bs "of_nat (length vs)"] u b(1) True r
        array_values_emit[OF r(2) b(2) Cons.prems(3), of code]
      by (simp add: bs_bind_def bs_return_def split: prod.split)
  next
    case False
    then obtain v vs' where v: "vs = v # vs'" "valid_value op v" "valid_record rest vs'"
      using Cons.prems(1) by (auto split: list.splits)
    have b: "before bs (emit_value op v)" "before (skip bs (length (emit_value op v))) (emit_record rest vs')"
      using Cons.prems(2) False v(1) by (simp_all add: before_append)
    show ?thesis
      using Cons.IH[OF v(3) b(2), of ops "Some (ucast v)"] Cons.IH[OF v(3) b(2), of "ops @ [v]"] Cons.prems(3,4) False v(1)
        decode_one_value_emit[OF v(2) b(1)]
      by (simp add: decode_ops_scalar[OF v(2)] bs_bind_def split: option.split)
  qed
qed (simp add: bs_return_def)

lemma decode_record_emit:
  assumes "4 \<le> abbrev_id" "unat abbrev_id < length table + 4"
    and "valid_record (table ! (unat abbrev_id - 4)) (ucast (code :: u32) # vs)" "length vs < cap" "cap < 2 ^ 31"
    and "before bs (emit_record (table ! (unat abbrev_id - 4)) (ucast code # vs))"
  shows "lagfx_abbrev_decode_record table abbrev_id cap bs =
     Ok (code, vs, None) (skip bs (length (emit_record (table ! (unat abbrev_id - 4)) (ucast code # vs))))"
proof -
  have "ucast (ucast code :: u64) = code" by (rule bit_word_eqI) (simp add: bit_simps)
  moreover have "unat (abbrev_id - 4) = unat abbrev_id - 4" using assms(1) by (simp add: unat_sub)
  moreover have "\<not> abbrev_id < 4" "unat abbrev_id - 4 < length table"
    using assms(1,2) by (auto simp: word_le_nat_alt word_less_nat_alt)
  ultimately show ?thesis
    using assms(4) decode_ops_emit[OF assms(3,6) _ assms(5), of "[]" None None]
    by (simp add: lagfx_abbrev_decode_record_def Let_def bs_bind_def bs_return_def word_le_nat_alt)
qed

text \<open>An abbreviation that has just been defined is usable: the record written with it is read
  back.\<close>

lemma define_then_decode:
  assumes "length table < 64" "pat \<noteq> []" "length pat \<le> 64" "list_all valid_abbrev_op pat"
    and "valid_record pat (ucast (code :: u32) # vs)" "length vs < cap" "cap < 2 ^ 31"
    and "before bs (emit_define pat @ emit_record pat (ucast code # vs))"
  shows "lagfx_abbrev_table_define table bs = Ok (table @ [pat]) (skip bs (length (emit_define pat)))"
    and "lagfx_abbrev_decode_record (table @ [pat]) (4 + of_nat (length table)) cap (skip bs (length (emit_define pat))) =
      Ok (code, vs, None) (skip bs (length (emit_define pat @ emit_record pat (ucast code # vs))))"
proof -
  have b: "before bs (emit_define pat)" "before (skip bs (length (emit_define pat))) (emit_record pat (ucast code # vs))"
    using assms(8) by (simp_all add: before_append)
  show "lagfx_abbrev_table_define table bs = Ok (table @ [pat]) (skip bs (length (emit_define pat)))"
    by (rule define_emit[OF assms(1-4) b(1)])
  have "unat (of_nat (4 + length table) :: u32) = 4 + length table" using assms(1) by (intro unat_of_nat_small) simp
  then have u: "unat (4 + of_nat (length table) :: u32) = 4 + length table" by simp
  then show "lagfx_abbrev_decode_record (table @ [pat]) (4 + of_nat (length table)) cap (skip bs (length (emit_define pat))) =
      Ok (code, vs, None) (skip bs (length (emit_define pat @ emit_record pat (ucast code # vs))))"
    using decode_record_emit[of "4 + of_nat (length table)" "table @ [pat]" code vs cap] assms(5-7) b(2)
    by (simp add: word_le_nat_alt)
qed



subsection \<open>Progress\<close>

lemma fwd_bind0: "fwd k m \<Longrightarrow> (\<And>a. fwd 0 (f a)) \<Longrightarrow> fwd k (bs_bind m f)"
  using fwd_bind[of k m 0 f] by simp

lemma fwd_bind_weak: "fwd k m \<Longrightarrow> (\<And>a. fwd 0 (f a)) \<Longrightarrow> fwd 0 (bs_bind m f)"
  by (rule fwd_weaken[OF fwd_bind0]) simp_all

lemmas fwd_intros = fwd_bind_weak fwd_read_bits fwd_read_vbr fwd_align fwd_return fwd_fail

lemma fwd_decode_one_value: "fwd 0 (decode_one_value op)"
  by (cases op) (auto simp: decode_one_value_def Let_def intro!: fwd_intros intro: fwd_weaken[OF fwd_read_vbr(2)])

lemma faultless_decode_one_value: "faultless (decode_one_value op)"
  by (cases op) (auto simp: decode_one_value_def Let_def intro!: faultless_bind)

lemma fwd_read_abbrev_op: "fwd 1 read_abbrev_op" and faultless_read_abbrev_op: "faultless read_abbrev_op"
  unfolding read_abbrev_op_def
  by (rule fwd_bind0[OF fwd_read_bits] faultless_bind; auto intro!: fwd_intros faultless_bind)+

lemma fwd_define: "fwd 5 (lagfx_abbrev_table_define table)"
  unfolding lagfx_abbrev_table_define_def
  by (auto intro!: fwd_bind0 fwd_read_vbr fwd_fail intro: fwd_weaken[OF fwd_fail]
      fwd_weaken[OF fwd_repeat[OF fwd_read_abbrev_op]])

lemma faultless_define: "faultless (lagfx_abbrev_table_define table)"
  unfolding lagfx_abbrev_table_define_def
  by (auto intro!: faultless_bind faultless_repeat faultless_read_abbrev_op)

lemma define_bound:
  "lagfx_abbrev_table_define table bs = Ok table' bs' \<Longrightarrow> length table' = Suc (length table) \<and> length table' \<le> 64"
  by (auto simp: lagfx_abbrev_table_define_def LAGFX_ABBREV_MAX_PER_BLOCK_def bs_bind_def bs_return_def bs_fail_def
      split: if_splits outcome.splits)

lemma copy_bound: "lagfx_abbrev_table_copy dst src = Some t \<Longrightarrow> t = dst @ src \<and> length t \<le> 64"
  by (auto simp: lagfx_abbrev_table_copy_def LAGFX_ABBREV_MAX_PER_BLOCK_def split: if_splits)

text \<open>The bytes of a blob start at a word boundary and end inside the buffer.\<close>

lemma read_blob_cases:
  assumes "lagfx_bs_read_vbr 6 bs = Ok len bs1"
  defines "p \<equiv> align_32 (bit_pos bs1)"
  shows "read_blob bs =
     (if p div 8 + unat len > length (bs_buf bs1) then Fail (bs1\<lparr>bit_pos := p\<rparr>)
      else Ok (take (unat len) (drop (p div 8) (bs_buf bs1))) (bs1\<lparr>bit_pos := align_32 (p + unat len * 8)\<rparr>))"
  unfolding read_blob_def p_def bs_bind_def bs_return_def lagfx_bs_align_32_def Let_def by (simp add: assms(1))

lemma fwd_read_blob: "fwd 0 read_blob"
  unfolding fwd_def
proof
  fix bs
  show "case read_blob bs of Ok _ bs' \<Rightarrow> fwd_to 0 bs bs' | Fail bs' \<Rightarrow> fwd_to 0 bs bs' | Fault \<Rightarrow> True"
  proof (cases "lagfx_bs_read_vbr 6 bs")
    case (Ok len bs1)
    let ?p = "align_32 (bit_pos bs1)"
    have f: "fwd_to 0 bs bs1" by (rule fwd_to_weaken[OF fwdD_Ok[OF fwd_read_vbr(1) Ok]]) simp
    have a: "fwd_to 0 bs1 (bs1\<lparr>bit_pos := ?p\<rparr>)"
      using align_32_mono align_32_ge by (fastforce simp: fwd_to_def bs_inside_def buf_bits_def)
    have b: "fwd_to 0 bs1 (bs1\<lparr>bit_pos := align_32 (?p + unat len * 8)\<rparr>)" if "?p div 8 + unat len \<le> length (bs_buf bs1)"
    proof -
      have "8 dvd ?p" by (simp add: align_32_def)
      then have "?p + unat len * 8 \<le> buf_bits bs1" using that by (auto simp: buf_bits_def)
      then show ?thesis
        using align_32_mono[of "?p + unat len * 8"] align_32_ge[of "bit_pos bs1"] align_32_ge[of "?p + unat len * 8"]
        by (simp add: fwd_to_def bs_inside_def buf_bits_def)
    qed
    show ?thesis
      using fwd_to_trans[OF f a] fwd_to_trans[OF f b] by (auto simp: read_blob_cases[OF Ok])
  next
    case (Fail bs1)
    then show ?thesis using fwdD_Fail[OF fwd_read_vbr(1) Fail] by (simp add: read_blob_def bs_bind_def)
  qed (simp add: read_blob_def bs_bind_def)
qed

lemma faultless_read_blob: "faultless read_blob"
  unfolding faultless_def
proof
  fix bs
  show "read_blob bs \<noteq> Fault"
    using faultless_reads(2)[of 6] unfolding faultless_def
    by (cases "lagfx_bs_read_vbr 6 bs") (auto simp: read_blob_cases, auto simp: read_blob_def bs_bind_def)
qed

lemma fwd_array_values: "fwd 0 (array_values cap elem n code ops)"
proof (induction n arbitrary: code ops)
  case (Suc n)
  have "fwd 0 (\<lambda>_. Fault :: (u32 option \<times> u64 list) outcome)" by (simp add: fwd_def)
  then show ?case
    using Suc.IH by (auto intro!: fwd_bind_weak[OF fwd_decode_one_value] split: option.split)
qed simp

lemma fwd_decode_ops: "fwd 0 (decode_ops cap pat code ops blob)"
  by (induction cap pat code ops blob rule: decode_ops.induct)
     (auto intro!: fwd_bind_weak[OF fwd_decode_one_value] fwd_bind_weak[OF fwd_read_vbr(1)]
        fwd_bind_weak[OF fwd_array_values] fwd_bind_weak[OF fwd_read_blob] split: option.split)

lemma fwd_decode_record: "fwd 0 (lagfx_abbrev_decode_record table abbrev_id cap)"
  unfolding lagfx_abbrev_decode_record_def Let_def
  by (auto intro!: fwd_bind_weak[OF fwd_decode_ops] split: option.split)


subsection \<open>The operand buffer\<close>

lemma bind_FaultE:
  assumes "bs_bind m f bs = Fault"
  obtains "m bs = Fault" | a bs' where "m bs = Ok a bs'" "f a bs' = Fault"
  using assms by (auto simp: bs_bind_def split: outcome.splits)

lemma array_values_length:
  "array_values cap elem n code ops bs = Ok (code', ops') bs' \<Longrightarrow> length ops \<le> cap \<Longrightarrow> length ops' \<le> cap"
  by (induction n arbitrary: code ops bs)
     (auto simp: bs_return_def bs_bind_def split: outcome.splits option.splits if_splits)

lemma array_values_safe: "length ops + n \<le> cap \<Longrightarrow> array_values cap elem n code ops bs \<noteq> Fault"
proof (induction n arbitrary: code ops bs)
  case (Suc n)
  show ?case
  proof
    assume "array_values cap elem (Suc n) code ops bs = Fault"
    then show False
      using faultless_decode_one_value[of elem] Suc.prems Suc.IH
      by (auto simp: faultless_def split: option.splits elim!: bind_FaultE)
  qed
qed (simp add: bs_return_def)

text \<open>Somewhere at or after the cursor an array length is encoded that is within the
  capacity of the buffer of 2^32.\<close>

definition huge_array :: "nat \<Rightarrow> lagfx_bitstream \<Rightarrow> bool" where
  "huge_array cap bs \<longleftrightarrow> (\<exists>p len bs'. bit_pos bs \<le> p \<and>
     lagfx_bs_read_vbr 6 (bs\<lparr>bit_pos := p\<rparr>) = Ok len bs' \<and> 2 ^ 32 \<le> unat len + cap)"

lemma huge_array_later: "huge_array cap bs' \<Longrightarrow> fwd_to k bs bs' \<Longrightarrow> huge_array cap bs"
proof -
  assume h: "huge_array cap bs'" and f: "fwd_to k bs bs'"
  have "bs'\<lparr>bit_pos := p\<rparr> = bs\<lparr>bit_pos := p\<rparr>" for p using f by (simp add: fwd_to_def)
  moreover have "bit_pos bs \<le> bit_pos bs'" using f by (simp add: fwd_to_def)
  ultimately show ?thesis using h unfolding huge_array_def by (metis order_trans)
qed

lemma wrap_of_sum:
  assumes "a \<le> cap" "cap < 2 ^ 32" "\<not> (of_nat a + len :: u32) > of_nat cap" "cap < a + unat len"
  shows "2 ^ 32 \<le> unat len + cap"
proof (rule ccontr)
  assume "\<not> ?thesis"
  then have "a + unat len < 2 ^ 32" using assms(1) by linarith
  then have "unat (of_nat (a + unat len) :: u32) = a + unat len" by (intro unat_of_nat_small) simp
  then have "unat (of_nat a + len) = a + unat len" by simp
  then show False using assms(2-4) by (simp add: word_less_nat_alt unat_of_nat_small)
qed


lemma scalar_fault:
  assumes "bs_bind (decode_one_value op) f bs = Fault" "\<And>v bs'. f v bs' = Fault \<Longrightarrow> huge_array cap bs'"
  shows "huge_array cap bs"
  using assms(1)
proof (rule bind_FaultE)
  fix v bs1 assume "decode_one_value op bs = Ok v bs1" "f v bs1 = Fault"
  then show ?thesis using assms(2) huge_array_later[OF _ fwdD_Ok[OF fwd_decode_one_value]] by blast
qed (use faultless_decode_one_value[of op] in \<open>simp add: faultless_def\<close>)

lemma decode_ops_fault:
  "decode_ops cap pat code ops blob bs = Fault \<Longrightarrow> length ops \<le> cap \<Longrightarrow> cap < 2 ^ 32 \<Longrightarrow> huge_array cap bs"
proof (induction cap pat code ops blob arbitrary: bs rule: decode_ops.induct)
  case (3 cap elem rest code ops blob)
  from "3.prems"(1) obtain len bs1 where l: "lagfx_bs_read_vbr 6 bs = Ok len bs1"
    "\<not> of_nat (length ops) + len > (of_nat cap :: u32)"
    "bs_bind (array_values cap elem (unat len) code ops) (\<lambda>(code', ops'). decode_ops cap rest code' ops' blob) bs1 = Fault"
    using faultless_reads(2)[of 6]
    by (auto simp: faultless_def bs_fail_def elim!: bind_FaultE split: if_splits)
  note f = fwdD_Ok[OF fwd_read_vbr(1) l(1)]
  from l(3) show ?case
  proof (rule bind_FaultE)
    assume "array_values cap elem (unat len) code ops bs1 = Fault"
    then have "cap < length ops + unat len" using array_values_safe by (meson not_le)
    then have "2 ^ 32 \<le> unat len + cap" using wrap_of_sum "3.prems"(2,3) l(2) by blast
    then show ?thesis unfolding huge_array_def using l(1) by (intro exI[of _ "bit_pos bs"]) auto
  next
    fix a bs2
    assume a: "array_values cap elem (unat len) code ops bs1 = Ok a bs2"
      and d: "(case a of (code', ops') \<Rightarrow> decode_ops cap rest code' ops' blob) bs2 = Fault"
    obtain c os where ao: "a = (c, os)" by (cases a)
    have "length os \<le> cap" using array_values_length a "3.prems"(2) ao by blast
    then have "huge_array cap bs2"
      using "3.IH"[OF l(2)] d ao "3.prems"(3) by simp
    then show ?thesis
      using huge_array_later fwd_to_trans[OF f fwdD_Ok[OF fwd_array_values a]] by blast
  qed
next
  case (4 cap rest code ops blob)
  then obtain a bs1 where "read_blob bs = Ok a bs1" "decode_ops cap rest code ops (Some a) bs1 = Fault"
    using faultless_read_blob by (auto simp: faultless_def elim!: bind_FaultE)
  then show ?case using "4.IH" "4.prems"(2,3) huge_array_later[OF _ fwdD_Ok[OF fwd_read_blob]] by blast
qed (auto simp: bs_return_def bs_fail_def elim!: scalar_fault split: option.splits if_splits)

lemma decode_record_fault:
  assumes "lagfx_abbrev_decode_record table abbrev_id cap bs = Fault" "cap < 2 ^ 32"
  shows "huge_array cap bs"
proof -
  have "decode_ops cap (table ! unat (abbrev_id - 4)) None [] None bs = Fault"
    using assms(1) by (auto simp: lagfx_abbrev_decode_record_def Let_def bs_fail_def bs_return_def
        elim!: bind_FaultE split: if_splits option.splits)
  then show ?thesis using decode_ops_fault[of cap _ None "[]"] assms(2) by simp
qed

text \<open>The arrays a decoding run comes to: for each of them the number of operands stored before it
  and the length it reads.  A run leaves the operand buffer only after an array for which
  the sum of the two does not fit into 32 bits, so that the check of the capacity passes.\<close>

fun array_reads :: "nat \<Rightarrow> lagfx_abbrev \<Rightarrow> u32 option \<Rightarrow> u64 list \<Rightarrow> lagfx_bitstream \<Rightarrow> (nat \<times> u32) list" where
  "array_reads cap [] code ops bs = []"
| "array_reads cap [LAGFX_ABBREV_OP_ARRAY] code ops bs = []"
| "array_reads cap (LAGFX_ABBREV_OP_ARRAY # elem # rest) code ops bs =
     (case lagfx_bs_read_vbr 6 bs of
        Ok len bs1 \<Rightarrow> (length ops, len) #
          (if of_nat (length ops) + len > of_nat cap then []
           else case array_values cap elem (unat len) code ops bs1 of
             Ok (code', ops') bs2 \<Rightarrow> array_reads cap rest code' ops' bs2 | _ \<Rightarrow> [])
      | _ \<Rightarrow> [])"
| "array_reads cap (LAGFX_ABBREV_OP_BLOB # rest) code ops bs =
     (case read_blob bs of Ok b bs1 \<Rightarrow> array_reads cap rest code ops bs1 | _ \<Rightarrow> [])"
| "array_reads cap (op # rest) code ops bs =
     (case decode_one_value op bs of
        Ok v bs1 \<Rightarrow>
          (case code of
             None \<Rightarrow> array_reads cap rest (Some (ucast v)) ops bs1
           | Some c \<Rightarrow> if length ops \<ge> cap then [] else array_reads cap rest (Some c) (ops @ [v]) bs1)
      | _ \<Rightarrow> [])"

definition wrapping_array :: "(nat \<times> u32) list \<Rightarrow> bool" where
  "wrapping_array reads \<longleftrightarrow> list_ex (\<lambda>(n, len). 2 ^ 32 \<le> n + unat len) reads"

lemma wrap_exact:
  assumes "a \<le> cap" "cap < 2 ^ 32" "\<not> (of_nat a + len :: u32) > of_nat cap" "cap < a + unat len"
  shows "2 ^ 32 \<le> a + unat len"
proof (rule ccontr)
  assume "\<not> ?thesis"
  then have "unat (of_nat (a + unat len) :: u32) = a + unat len" by (intro unat_of_nat_small) simp
  then show False using assms(2-4) by (simp add: word_less_nat_alt unat_of_nat_small)
qed

lemma decode_one_value_no_fault [simp]: "decode_one_value op bs \<noteq> Fault"
  using faultless_decode_one_value[of op] by (simp add: faultless_def)

lemma decode_ops_fault_wraps:
  "decode_ops cap pat code ops blob bs = Fault \<Longrightarrow> length ops \<le> cap \<Longrightarrow> cap < 2 ^ 32 \<Longrightarrow> wrapping_array (array_reads cap pat code ops bs)"
proof (induction cap pat code ops bs arbitrary: blob rule: array_reads.induct)
  case (3 cap elem rest code ops bs)
  from "3.prems"(1) obtain len bs1 where l: "lagfx_bs_read_vbr 6 bs = Ok len bs1"
    "\<not> of_nat (length ops) + len > (of_nat cap :: u32)"
    "bs_bind (array_values cap elem (unat len) code ops) (\<lambda>(code', ops'). decode_ops cap rest code' ops' blob) bs1 = Fault"
    using faultless_reads(2)[of 6]
    by (auto simp: faultless_def bs_fail_def elim!: bind_FaultE split: if_splits)
  from l(3) show ?case
  proof (rule bind_FaultE)
    assume "array_values cap elem (unat len) code ops bs1 = Fault"
    then have "cap < length ops + unat len" using array_values_safe by (meson not_le)
    then have "2 ^ 32 \<le> length ops + unat len" using wrap_exact "3.prems"(2,3) l(2) by blast
    then show ?thesis by (simp add: wrapping_array_def l(1))
  next
    fix a bs2
    assume a: "array_values cap elem (unat len) code ops bs1 = Ok a bs2"
      and d: "(case a of (code', ops') \<Rightarrow> decode_ops cap rest code' ops' blob) bs2 = Fault"
    obtain c os where ao: "a = (c, os)" by (cases a)
    have "length os \<le> cap" using array_values_length a "3.prems"(2) ao by blast
    then have "wrapping_array (array_reads cap rest c os bs2)"
      using "3.IH"[OF l(1,2) a ao[symmetric]] d ao "3.prems"(3) by simp
    then show ?thesis using l(1,2) a ao by (simp add: wrapping_array_def)
  qed
next
  case (4 cap rest code ops bs)
  then obtain a bs1 where "read_blob bs = Ok a bs1" "decode_ops cap rest code ops (Some a) bs1 = Fault"
    using faultless_read_blob by (auto simp: faultless_def elim!: bind_FaultE)
  then show ?case using "4.IH" "4.prems"(2,3) by simp
qed (auto simp: bs_return_def bs_fail_def bs_bind_def split: option.splits if_splits outcome.splits)

lemma decode_ops_length:
  "decode_ops cap pat code ops blob bs = Ok (code', ops', blob') bs' \<Longrightarrow> length ops \<le> cap \<Longrightarrow> length ops' \<le> cap"
proof (induction cap pat code ops blob arbitrary: bs rule: decode_ops.induct)
  case (3 cap elem rest code ops blob)
  from "3.prems" show ?case
    using "3.IH" array_values_length[of cap elem _ code ops]
    by (fastforce simp: bs_bind_def bs_fail_def split: outcome.splits if_splits)
qed (auto simp: bs_return_def bs_fail_def bs_bind_def split: option.splits if_splits outcome.splits)

lemma decode_record_run:
  "lagfx_abbrev_decode_record table abbrev_id cap bs = Fault \<Longrightarrow> cap < 2 ^ 32 \<Longrightarrow>
     unat (abbrev_id - 4) < length table \<and> wrapping_array (array_reads cap (table ! unat (abbrev_id - 4)) None [] bs)"
  "lagfx_abbrev_decode_record table abbrev_id cap bs = Ok (code, ops, blob) bs' \<Longrightarrow> length ops \<le> cap"
  using decode_ops_fault_wraps[of cap "table ! unat (abbrev_id - 4)" None "[]" None bs]
    decode_ops_length[of cap "table ! unat (abbrev_id - 4)" None "[]" None bs]
  by (auto simp: lagfx_abbrev_decode_record_def Let_def bs_fail_def bs_return_def bs_bind_def
      split: if_splits option.splits outcome.splits)

text \<open>Elements that take no bits of the stream overrun the buffer however short it is.\<close>

lemma array_literal_overrun:
  "length ops \<le> cap \<Longrightarrow> cap < length ops + n \<Longrightarrow>
     array_values cap (LAGFX_ABBREV_OP_LITERAL v) n (Some c) ops bs = Fault"
  by (induction n arbitrary: ops) (auto simp: decode_one_value_def bs_bind_def bs_return_def)

end
