(* ===== verification/BlockReader.thy ===== *)
theory BlockReader
  imports Abbrev
begin

text \<open>
  The block layer of \<^verbatim>\<open>src/air/block_reader.h\<close> and \<^verbatim>\<open>src/air/block_reader.c\<close>: entering
  and skipping blocks and reading the next record of a block.  The pointer from a block to
  its cursor is the cursor argument, which every function returns.

  \<^verbatim>\<open>walk_records\<close> is the loop the bitcode reader writes around
  \<^verbatim>\<open>lagfx_block_next_record\<close> for each kind of block: it skips nested blocks, ignores the
  result of the skip, and leaves at the first failure.  The theory shows that the loop ends
  on every input, and that it visits exactly the records an encoder wrote.
\<close>

unbundle bit_operations_syntax

subsection \<open>Blocks\<close>

record lagfx_block =
  abbrev_width :: nat
  block_id :: u32
  end_pos :: nat
  blk_abbrevs :: lagfx_abbrev_table

record lagfx_record =
  rec_code :: u32
  rec_ops :: "u64 list"
  rec_blob :: "bytes option"

definition LAGFX_RECORD_MAX_OPS :: nat where "LAGFX_RECORD_MAX_OPS = 1024"
definition LAGFX_BS_MAX_ABBREV_WIDTH :: nat where "LAGFX_BS_MAX_ABBREV_WIDTH = 8"

text \<open>One abbreviation table per block id; the C array has 32 of them.\<close>

type_synonym lagfx_blockinfo = "lagfx_abbrev_table list"

definition lagfx_blockinfo_init :: lagfx_blockinfo where
  "lagfx_blockinfo_init = replicate 32 []"

definition read_enter_subblock_payload :: "lagfx_block bsr" where
  "read_enter_subblock_payload =
     bs_bind (lagfx_bs_read_vbr 8) (\<lambda>blockid.
     bs_bind (lagfx_bs_read_vbr 4) (\<lambda>new_abbrev_width.
     if new_abbrev_width = 0 \<or> new_abbrev_width > of_nat LAGFX_BS_MAX_ABBREV_WIDTH then bs_fail
     else bs_bind lagfx_bs_align_32 (\<lambda>_.
          bs_bind (lagfx_bs_read_bits 32) (\<lambda>block_size_words bs.
            Ok \<lparr>abbrev_width = unat new_abbrev_width, block_id = blockid,
                end_pos = bit_pos bs + unat block_size_words * 32, blk_abbrevs = []\<rparr> bs))))"

definition lagfx_block_enter :: "nat \<Rightarrow> lagfx_blockinfo option \<Rightarrow> lagfx_block bsr" where
  "lagfx_block_enter parent_abbrev_width blockinfo =
     bs_bind (lagfx_bs_read_bits parent_abbrev_width) (\<lambda>code.
     if code \<noteq> 1 then bs_fail
     else bs_bind read_enter_subblock_payload (\<lambda>blk.
       case blockinfo of
         None \<Rightarrow> bs_return blk
       | Some bi \<Rightarrow>
           if unat (block_id blk) < length bi
           then (case lagfx_abbrev_table_copy (blk_abbrevs blk) (bi ! unat (block_id blk)) of
                   None \<Rightarrow> bs_fail | Some t \<Rightarrow> bs_return (blk\<lparr>blk_abbrevs := t\<rparr>))
           else bs_return blk))"

definition lagfx_block_skip :: "nat \<Rightarrow> unit bsr" where
  "lagfx_block_skip parent_abbrev_width =
     bs_bind (lagfx_block_enter parent_abbrev_width None) (\<lambda>blk. lagfx_bs_seek (end_pos blk))"

subsection \<open>Records\<close>

datatype block_event = Is_end | Is_subblock u32 | Is_define_abbrev | Is_record lagfx_record

definition read_unabbrev :: "lagfx_record bsr" where
  "read_unabbrev =
     bs_bind (lagfx_bs_read_vbr 6) (\<lambda>record_code.
     bs_bind (lagfx_bs_read_vbr 6) (\<lambda>num_ops.
     if num_ops > of_nat LAGFX_RECORD_MAX_OPS then bs_fail
     else bs_bind (bs_repeat (unat num_ops) (lagfx_bs_read_vbr_64 6)) (\<lambda>ops.
          bs_return \<lparr>rec_code = record_code, rec_ops = ops, rec_blob = None\<rparr>)))"

text \<open>The block id of a nested block is read and the cursor put back before the code, so
  that the caller can enter or skip the block.\<close>

definition peek_subblock :: "nat \<Rightarrow> u32 bsr" where
  "peek_subblock width = (\<lambda>bs. let save_pos = bit_pos bs in
     bs_bind (lagfx_bs_read_vbr 8) (\<lambda>blockid.
     bs_bind (lagfx_bs_seek (save_pos - width)) (\<lambda>_. bs_return blockid)) bs)"

definition lagfx_block_next_record :: "lagfx_block \<Rightarrow> (block_event \<times> lagfx_block) bsr" where
  "lagfx_block_next_record block = (\<lambda>bs.
     if bit_pos bs \<ge> end_pos block then Ok (Is_end, block) bs
     else bs_bind (lagfx_bs_read_bits (abbrev_width block)) (\<lambda>code.
       if code = 0 then bs_bind lagfx_bs_align_32 (\<lambda>_. bs_return (Is_end, block))
       else if code = 1 then bs_bind (peek_subblock (abbrev_width block)) (\<lambda>i. bs_return (Is_subblock i, block))
       else if code = 2 then
         bs_bind (lagfx_abbrev_table_define (blk_abbrevs block)) (\<lambda>t. bs_return (Is_define_abbrev, block\<lparr>blk_abbrevs := t\<rparr>))
       else if code = 3 then bs_bind read_unabbrev (\<lambda>r. bs_return (Is_record r, block))
       else bs_bind (lagfx_abbrev_decode_record (blk_abbrevs block) code LAGFX_RECORD_MAX_OPS) (\<lambda>(c, ops, blob).
              bs_return (Is_record \<lparr>rec_code = c, rec_ops = ops, rec_blob = blob\<rparr>, block))) bs)"

subsection \<open>Progress\<close>

lemma fwd_read_unabbrev: "fwd 0 read_unabbrev"
  unfolding read_unabbrev_def
  by (auto intro!: fwd_bind_weak[OF fwd_read_vbr(1)] fwd_bind_weak[OF fwd_repeat[OF fwd_read_vbr(2)]])

lemma fwd_enter_payload: "fwd 0 read_enter_subblock_payload"
proof -
  have "fwd 0 (\<lambda>bs. Ok (g bs) bs)" for g :: "lagfx_bitstream \<Rightarrow> lagfx_block" by (simp add: fwd_def)
  then show ?thesis
    unfolding read_enter_subblock_payload_def
    by (auto intro!: fwd_bind_weak[OF fwd_read_vbr(1)] fwd_bind_weak[OF fwd_align] fwd_bind_weak[OF fwd_read_bits])
qed

lemma fwd_enter: "fwd w (lagfx_block_enter w blockinfo)"
  unfolding lagfx_block_enter_def
  by (rule fwd_bind0[OF fwd_read_bits]) (auto intro!: fwd_bind_weak[OF fwd_enter_payload] split: option.split)

lemma enter_end_pos: "lagfx_block_enter w blockinfo bs = Ok blk bs' \<Longrightarrow> bit_pos bs' \<le> end_pos blk"
  by (auto simp: lagfx_block_enter_def read_enter_subblock_payload_def bs_bind_def bs_return_def bs_fail_def
      split: outcome.splits if_splits option.splits)

lemma enter_width: "lagfx_block_enter w blockinfo bs = Ok blk bs' \<Longrightarrow> 1 \<le> abbrev_width blk \<and> abbrev_width blk \<le> 8"
  by (auto simp: lagfx_block_enter_def read_enter_subblock_payload_def bs_bind_def bs_return_def bs_fail_def
      LAGFX_BS_MAX_ABBREV_WIDTH_def word_less_nat_alt unat_gt_0 Suc_le_eq
      split: outcome.splits if_splits option.splits)


lemma faultless_enter: "faultless (lagfx_block_enter w blockinfo)"
proof -
  have "faultless (\<lambda>bs. Ok (g bs) bs)" for g :: "lagfx_bitstream \<Rightarrow> lagfx_block" by (simp add: faultless_def)
  then show ?thesis
    unfolding lagfx_block_enter_def read_enter_subblock_payload_def
    by (auto intro!: faultless_bind split: option.split)
qed

lemma faultless_skip: "faultless (lagfx_block_skip w)"
  unfolding lagfx_block_skip_def by (intro faultless_bind faultless_enter) simp

lemma seek_from_end:
  "bit_pos bs \<le> end_pos blk \<Longrightarrow> lagfx_bs_seek (end_pos blk) bs = Ok u bs' \<Longrightarrow> fwd_to 0 bs bs'"
  using align_32_ge[of "buf_bits bs"]
  by (auto simp: lagfx_bs_seek_def fwd_to_def bs_inside_def buf_bits_def split: if_splits)

lemma skip_Ok: "lagfx_block_skip w bs = Ok u bs' \<Longrightarrow> fwd_to w bs bs'"
proof -
  assume "lagfx_block_skip w bs = Ok u bs'"
  then obtain blk bs1 where e: "lagfx_block_enter w None bs = Ok blk bs1" "lagfx_bs_seek (end_pos blk) bs1 = Ok u bs'"
    by (auto simp: lagfx_block_skip_def bs_bind_def split: outcome.splits)
  show ?thesis
    using fwd_to_trans[OF fwdD_Ok[OF fwd_enter e(1)] seek_from_end[OF enter_end_pos[OF e(1)] e(2)]] by simp
qed

text \<open>Once the code of a nested block could be read, skipping moves the cursor forward even
  if it fails later.\<close>

lemma skip_Fail:
  assumes "lagfx_bs_read_bits w bs = Ok code bs0" "lagfx_block_skip w bs = Fail bs'"
  shows "fwd_to w bs bs'"
proof -
  have r: "fwd_to w bs bs0" using fwdD_Ok[OF fwd_read_bits assms(1)] .
  have z: "fwd_to w bs b" if "fwd_to 0 bs0 b" for b using fwd_to_trans[OF r that] by simp
  consider "lagfx_block_enter w None bs = Fail bs'"
    | blk where "lagfx_block_enter w None bs = Ok blk bs'"
    using assms(2) by (auto simp: lagfx_block_skip_def bs_bind_def lagfx_bs_seek_def split: outcome.splits if_splits)
  then show ?thesis
  proof cases
    case 1
    then consider "bs' = bs0" | "read_enter_subblock_payload bs0 = Fail bs'"
      using assms(1) by (auto simp: lagfx_block_enter_def bs_bind_def bs_fail_def bs_return_def split: if_splits outcome.splits)
    then show ?thesis
      using r z fwdD_Fail[OF fwd_enter_payload] by cases auto
  next
    case 2
    then show ?thesis using fwdD_Ok[OF fwd_enter] by blast
  qed
qed

lemma next_record_fwd:
  assumes "lagfx_block_next_record blk bs = Ok (ev, blk') bs'"
  shows "ev = Is_end \<and> blk' = blk \<and> fwd_to 0 bs bs' \<or>
    (\<exists>i code bs0. ev = Is_subblock i \<and> blk' = blk \<and> bs' = bs \<and> lagfx_bs_read_bits (abbrev_width blk) bs = Ok code bs0) \<or>
    (\<exists>code bs0. ev \<noteq> Is_end \<and> (\<forall>i. ev \<noteq> Is_subblock i) \<and> abbrev_width blk' = abbrev_width blk \<and> end_pos blk' = end_pos blk \<and>
       lagfx_bs_read_bits (abbrev_width blk) bs = Ok code bs0 \<and> fwd_to (abbrev_width blk) bs bs')"
proof (cases "bit_pos bs \<ge> end_pos blk")
  case True
  then show ?thesis using assms by (simp add: lagfx_block_next_record_def)
next
  case False
  let ?w = "abbrev_width blk"
  obtain code bs0 where c: "lagfx_bs_read_bits ?w bs = Ok code bs0"
    using assms False by (auto simp: lagfx_block_next_record_def bs_bind_def split: outcome.splits)
  note r = fwdD_Ok[OF fwd_read_bits c]
  have adv: "bs0 = bs\<lparr>bit_pos := bit_pos bs + ?w\<rparr>" using read_bits_advances[OF c] by simp
  have z: "fwd_to ?w bs b" if "fwd_to 0 bs0 b" for b using fwd_to_trans[OF r that] by simp
  consider "code = 0" | "code = 1" | "code = 2" | "code = 3" | "code \<notin> {0, 1, 2, 3}" by blast
  then show ?thesis
  proof cases
    case 1
    then have "ev = Is_end" "blk' = blk" "lagfx_bs_align_32 bs0 = Ok () bs'"
      using assms False c by (auto simp: lagfx_block_next_record_def bs_bind_def bs_return_def split: outcome.splits)
    then show ?thesis using z[OF fwdD_Ok[OF fwd_align]] fwd_to_weaken by blast
  next
    case 2
    obtain i where "ev = Is_subblock i" "blk' = blk" "peek_subblock ?w bs0 = Ok i bs'"
      using 2 assms False c by (auto simp: lagfx_block_next_record_def bs_bind_def bs_return_def split: outcome.splits)
    moreover have "bs' = bs"
    proof -
      obtain b1 where "lagfx_bs_read_vbr 8 bs0 = Ok i b1" "lagfx_bs_seek (bit_pos bs0 - ?w) b1 = Ok () bs'"
        using calculation(3) by (auto simp: peek_subblock_def Let_def bs_bind_def bs_return_def split: outcome.splits)
      then show ?thesis
        using fwdD_Ok[OF fwd_read_vbr(1)] adv
        by (auto simp: lagfx_bs_seek_def fwd_to_def split: if_splits intro: lagfx_bitstream.equality)
    qed
    ultimately show ?thesis using c by blast
  next
    case 3
    then obtain t where "ev = Is_define_abbrev" "blk' = blk\<lparr>blk_abbrevs := t\<rparr>" "lagfx_abbrev_table_define (blk_abbrevs blk) bs0 = Ok t bs'"
      using assms False c by (auto simp: lagfx_block_next_record_def bs_bind_def bs_return_def split: outcome.splits)
    then show ?thesis using c z[OF fwd_to_weaken[OF fwdD_Ok[OF fwd_define]]] by auto
  next
    case 4
    then obtain rc where "ev = Is_record rc" "blk' = blk" "read_unabbrev bs0 = Ok rc bs'"
      using assms False c by (auto simp: lagfx_block_next_record_def bs_bind_def bs_return_def split: outcome.splits)
    then show ?thesis using c z[OF fwdD_Ok[OF fwd_read_unabbrev]] by auto
  next
    case 5
    then obtain rc x where "ev = Is_record rc" "blk' = blk"
      "lagfx_abbrev_decode_record (blk_abbrevs blk) code LAGFX_RECORD_MAX_OPS bs0 = Ok x bs'"
      using assms False c by (auto simp: lagfx_block_next_record_def bs_bind_def bs_return_def split: outcome.splits prod.splits)
    then show ?thesis using c z[OF fwdD_Ok[OF fwd_decode_record]] by auto
  qed
qed

subsection \<open>Walking a block\<close>

lemma read_progress:
  "lagfx_bs_read_bits w bs = Ok code bs0 \<Longrightarrow> fwd_to w bs bs' \<Longrightarrow> buf_bits bs' - bit_pos bs' < buf_bits bs - bit_pos bs"
  by (drule read_bits_advances) (auto simp: fwd_to_def buf_bits_def)

text \<open>The loop body \<open>f\<close> sees definitions and records; it goes on with a new state, leaves the
  loop, or accesses memory it must not.\<close>

datatype 'st loop_step = Continue 'st | Break | Crash

function walk_records ::
  "(block_event \<Rightarrow> lagfx_block \<Rightarrow> 'st \<Rightarrow> 'st loop_step) \<Rightarrow> lagfx_block \<Rightarrow> 'st \<Rightarrow> lagfx_bitstream \<Rightarrow> 'st outcome" where
  "walk_records f blk st bs =
     (if bit_pos bs < end_pos blk then
        case lagfx_block_next_record blk bs of
          Fault \<Rightarrow> Fault
        | Fail bs1 \<Rightarrow> Ok st bs1
        | Ok (Is_end, _) bs1 \<Rightarrow> Ok st bs1
        | Ok (Is_subblock _, blk1) bs1 \<Rightarrow>
            (case lagfx_block_skip (abbrev_width blk) bs1 of
               Fault \<Rightarrow> Fault
             | Fail bs2 \<Rightarrow> walk_records f blk1 st bs2
             | Ok _ bs2 \<Rightarrow> walk_records f blk1 st bs2)
        | Ok (ev, blk1) bs1 \<Rightarrow>
            (case f ev blk1 st of
               Crash \<Rightarrow> Fault | Break \<Rightarrow> Ok st bs1 | Continue st1 \<Rightarrow> walk_records f blk1 st1 bs1)
      else Ok st bs)"
  by pat_completeness auto

termination
  by (relation "measure (\<lambda>(_, _, _, bs). buf_bits bs - bit_pos bs)")
     (auto dest!: next_record_fwd intro: read_progress dest: skip_Ok skip_Fail)


declare walk_records.simps [simp del]

lemma next_record_Fail:
  assumes "lagfx_block_next_record blk bs = Fail bs'"
  shows "fwd_to 0 bs bs'"
proof -
  let ?w = "abbrev_width blk"
  have p: "\<not> end_pos blk \<le> bit_pos bs" using assms by (auto simp: lagfx_block_next_record_def)
  show ?thesis
  proof (cases "lagfx_bs_read_bits ?w bs")
    case (Ok code bs0)
    note r = fwd_to_weaken[OF fwdD_Ok[OF fwd_read_bits Ok], of 0]
    have z: "fwd_to 0 bs b" if "fwd_to 0 bs0 b" for b using fwd_to_trans[OF r that] by simp
    have pk: "fwd_to 0 bs0 bs'" if "peek_subblock ?w bs0 = Fail bs'"
      using that fwdD_Fail[OF fwd_read_vbr(1)] fwd_to_weaken[OF fwdD_Ok[OF fwd_read_vbr(1)], of 8 bs0 _ _ 0]
      by (auto simp: peek_subblock_def Let_def bs_bind_def bs_return_def lagfx_bs_seek_def split: outcome.splits if_splits)
    consider "peek_subblock ?w bs0 = Fail bs'" | "lagfx_abbrev_table_define (blk_abbrevs blk) bs0 = Fail bs'"
      | "read_unabbrev bs0 = Fail bs'" | "lagfx_abbrev_decode_record (blk_abbrevs blk) code LAGFX_RECORD_MAX_OPS bs0 = Fail bs'"
      using assms p Ok by (auto simp: lagfx_block_next_record_def bs_bind_def bs_return_def lagfx_bs_align_32_def
          split: outcome.splits if_splits)
    then show ?thesis
      using z pk fwdD_Fail[OF fwd_define] fwdD_Fail[OF fwd_read_unabbrev] fwdD_Fail[OF fwd_decode_record] by cases blast+
  next
    case (Fail b)
    then show ?thesis
      using assms p fwdD_Fail[OF fwd_read_bits Fail] by (simp add: lagfx_block_next_record_def bs_bind_def)
  qed (use assms p in \<open>simp add: lagfx_block_next_record_def bs_bind_def\<close>)
qed

lemma next_record_fwd0: "lagfx_block_next_record blk bs = Ok (ev, blk') bs' \<Longrightarrow> fwd_to 0 bs bs'"
  using next_record_fwd[of blk bs ev blk' bs'] fwd_to_weaken by auto

lemma skip_fwd0: "lagfx_block_skip w bs = Ok u bs' \<or> lagfx_block_skip w bs = Fail bs' \<Longrightarrow> fwd_to 0 bs bs'"
proof (elim disjE)
  show "fwd_to 0 bs bs'" if "lagfx_block_skip w bs = Ok u bs'" using fwd_to_weaken[OF skip_Ok[OF that]] by simp
  show "fwd_to 0 bs bs'" if "lagfx_block_skip w bs = Fail bs'"
  proof -
    have "lagfx_block_enter w None bs = Fail bs' \<or> (\<exists>blk. lagfx_block_enter w None bs = Ok blk bs')"
      using that by (auto simp: lagfx_block_skip_def bs_bind_def lagfx_bs_seek_def split: outcome.splits if_splits)
    then show ?thesis using fwdD_Fail[OF fwd_enter] fwd_to_weaken[OF fwdD_Ok[OF fwd_enter]] by blast
  qed
qed

lemma walk_fwd: "walk_records f blk st bs = Ok st' bs' \<Longrightarrow> fwd_to 0 bs bs'"
proof (induction f blk st bs rule: walk_records.induct)
  case (1 f blk st bs)
  show ?case
  proof (cases "bit_pos bs < end_pos blk")
    case True
    show ?thesis
    proof (cases "lagfx_block_next_record blk bs")
      case (Ok p bs1)
      obtain ev blk1 where p: "p = (ev, blk1)" by (cases p)
      note f1 = next_record_fwd0[OF Ok[unfolded p]]
      have "fwd_to 0 bs c" if "lagfx_block_skip (abbrev_width blk) bs1 = Ok () b \<or> lagfx_block_skip (abbrev_width blk) bs1 = Fail b"
        "fwd_to 0 b c" for b c
        using fwd_to_trans[OF f1 fwd_to_trans[OF skip_fwd0[OF that(1)] that(2)]] by simp
      then show ?thesis
        using "1.prems" "1.IH"[OF True Ok p[symmetric]] fwd_to_trans[OF f1] True Ok p f1
        by (auto simp: walk_records.simps[of f blk st bs] split: block_event.splits loop_step.splits outcome.splits)
    qed (use "1.prems" True next_record_Fail in \<open>auto simp: walk_records.simps[of f blk st bs]\<close>)
  qed (use "1.prems" in \<open>simp add: walk_records.simps[of f blk st bs]\<close>)
qed

subsection \<open>What an encoder wrote is visited in order\<close>

datatype block_item =
    Define lagfx_abbrev
  | Unabbreviated u32 "u64 list"
  | Abbreviated u32 u32 "u64 list"

fun emit_item :: "nat \<Rightarrow> lagfx_abbrev_table \<Rightarrow> block_item \<Rightarrow> bool list" where
  "emit_item w t (Define ops) = emit_fixed w 2 @ emit_define ops"
| "emit_item w t (Unabbreviated code ops) =
     emit_fixed w 3 @ emit_vbr 6 (unat code) @ emit_vbr 6 (length ops) @ concat (map (\<lambda>v. emit_vbr 6 (unat v)) ops)"
| "emit_item w t (Abbreviated i code ops) = emit_fixed w (unat i) @ emit_record (t ! (unat i - 4)) (ucast code # ops)"

fun valid_item :: "nat \<Rightarrow> lagfx_abbrev_table \<Rightarrow> block_item \<Rightarrow> bool" where
  "valid_item w t (Define ops) \<longleftrightarrow> 2 \<le> w \<and> length t < 64 \<and> ops \<noteq> [] \<and> length ops \<le> 64 \<and> list_all valid_abbrev_op ops"
| "valid_item w t (Unabbreviated code ops) \<longleftrightarrow> 2 \<le> w \<and> length ops \<le> 1024"
| "valid_item w t (Abbreviated i code ops) \<longleftrightarrow>
     4 \<le> i \<and> unat i < length t + 4 \<and> unat i < 2 ^ w \<and> length ops < 1024 \<and> valid_record (t ! (unat i - 4)) (ucast code # ops)"

fun item_event :: "block_item \<Rightarrow> block_event" where
  "item_event (Define ops) = Is_define_abbrev"
| "item_event (Unabbreviated code ops) = Is_record \<lparr>rec_code = code, rec_ops = ops, rec_blob = None\<rparr>"
| "item_event (Abbreviated i code ops) = Is_record \<lparr>rec_code = code, rec_ops = ops, rec_blob = None\<rparr>"

fun item_table :: "lagfx_abbrev_table \<Rightarrow> block_item \<Rightarrow> lagfx_abbrev_table" where
  "item_table t (Define ops) = t @ [ops]"
| "item_table t _ = t"

primrec emit_items :: "nat \<Rightarrow> lagfx_abbrev_table \<Rightarrow> block_item list \<Rightarrow> bool list" where
  "emit_items w t [] = emit_fixed w 0"
| "emit_items w t (x # xs) = emit_item w t x @ emit_items w (item_table t x) xs"

primrec valid_items :: "nat \<Rightarrow> lagfx_abbrev_table \<Rightarrow> block_item list \<Rightarrow> bool" where
  "valid_items w t [] \<longleftrightarrow> True"
| "valid_items w t (x # xs) \<longleftrightarrow> valid_item w t x \<and> valid_items w (item_table t x) xs"

primrec run_items :: "(block_event \<Rightarrow> lagfx_block \<Rightarrow> 'st \<Rightarrow> 'st loop_step) \<Rightarrow> lagfx_block \<Rightarrow> 'st \<Rightarrow> block_item list \<Rightarrow> 'st option" where
  "run_items f blk st [] = Some st"
| "run_items f blk st (x # xs) =
     (let blk1 = blk\<lparr>blk_abbrevs := item_table (blk_abbrevs blk) x\<rparr> in
      case f (item_event x) blk1 st of
        Crash \<Rightarrow> None | Break \<Rightarrow> Some st | Continue st1 \<Rightarrow> run_items f blk1 st1 xs)"

lemma two_bits: "2 \<le> w \<Longrightarrow> c < 4 \<Longrightarrow> c < (2 :: nat) ^ w"
  using power_increasing[of 2 w "2 :: nat"] by simp

lemma next_record_item:
  assumes "valid_item (abbrev_width blk) (blk_abbrevs blk) x" "before bs (emit_item (abbrev_width blk) (blk_abbrevs blk) x)"
    and "0 < abbrev_width blk" "abbrev_width blk \<le> 8" "bit_pos bs < end_pos blk"
  shows "lagfx_block_next_record blk bs =
     Ok (item_event x, blk\<lparr>blk_abbrevs := item_table (blk_abbrevs blk) x\<rparr>)
        (skip bs (length (emit_item (abbrev_width blk) (blk_abbrevs blk) x)))"
proof (cases x)
  case (Define ops)
  let ?w = "abbrev_width blk"
  have v: "2 \<le> ?w" "length (blk_abbrevs blk) < 64" "ops \<noteq> []" "length ops \<le> 64" "list_all valid_abbrev_op ops"
    using assms(1) Define by simp_all
  have b: "before bs (emit_fixed ?w 2)" "before (skip bs ?w) (emit_define ops)"
    using assms(2) Define by (simp_all add: before_append)
  show ?thesis
    using read_fixed[OF b(1)] assms(3-5) two_bits[OF v(1)] define_emit[OF v(2-5) b(2)] Define
    by (simp add: lagfx_block_next_record_def bs_bind_def bs_return_def)
next
  case (Unabbreviated code ops)
  let ?w = "abbrev_width blk" and ?c = "emit_vbr 6 (unat code)" and ?n = "emit_vbr 6 (length ops)"
  let ?o = "concat (map (\<lambda>v. emit_vbr 6 (unat v)) ops)"
  have v: "2 \<le> ?w" "length ops \<le> 1024" using assms(1) Unabbreviated by simp_all
  have u: "unat (of_nat (length ops) :: u32) = length ops" using v(2) by (simp add: unat_of_nat_small)
  have b: "before bs (emit_fixed ?w 3)" "before (skip bs ?w) ?c" "before (skip bs (?w + length ?c)) ?n"
    "before (skip bs (?w + length ?c + length ?n)) ?o"
    using assms(2) Unabbreviated by (simp_all add: before_append)
  have "\<not> (1024 :: u32) < of_nat (length ops)" using v(2) u by (simp add: word_less_nat_alt)
  then have "read_unabbrev (skip bs ?w) = Ok \<lparr>rec_code = code, rec_ops = ops, rec_blob = None\<rparr>
      (skip bs (?w + length ?c + length ?n + length ?o))"
    using read_vbr_emit[OF _ _ b(2)] read_vbr_emit[of 6 "skip bs (?w + length ?c)" "of_nat (length ops)"] b(3) u
      vbr64.repeat_roundtrip[OF _ b(4)]
    by (simp add: read_unabbrev_def bs_bind_def bs_return_def LAGFX_RECORD_MAX_OPS_def list_all_iff)
  then show ?thesis
    using read_fixed[OF b(1)] assms(3-5) two_bits[OF v(1)] Unabbreviated
    by (simp add: lagfx_block_next_record_def bs_bind_def bs_return_def add.assoc)
next
  case (Abbreviated i code ops)
  let ?w = "abbrev_width blk" and ?r = "emit_record (blk_abbrevs blk ! (unat i - 4)) (ucast code # ops)"
  have v: "4 \<le> i" "unat i < length (blk_abbrevs blk) + 4" "unat i < 2 ^ ?w" "length ops < 1024"
    "valid_record (blk_abbrevs blk ! (unat i - 4)) (ucast code # ops)"
    using assms(1) Abbreviated by simp_all
  have b: "before bs (emit_fixed ?w (unat i))" "before (skip bs ?w) ?r"
    using assms(2) Abbreviated by (simp_all add: before_append)
  have ne: "i \<noteq> 0" "i \<noteq> 1" "i \<noteq> 2" "i \<noteq> 3" using v(1) by (auto simp: word_le_nat_alt)
  show ?thesis
    using read_fixed[OF b(1)] assms(3-5) v(3) decode_record_emit[OF v(1,2,5) v(4) _ b(2)] Abbreviated ne
    by (simp add: lagfx_block_next_record_def bs_bind_def bs_return_def LAGFX_RECORD_MAX_OPS_def)
qed

lemma item_event_shape: "item_event x = Is_define_abbrev \<or> (\<exists>r. item_event x = Is_record r)"
  by (cases x) auto

lemma walk_items:
  assumes "valid_items (abbrev_width blk) (blk_abbrevs blk) xs" "before bs (emit_items (abbrev_width blk) (blk_abbrevs blk) xs)"
    and "0 < abbrev_width blk" "abbrev_width blk \<le> 8"
    and "bit_pos bs + length (emit_items (abbrev_width blk) (blk_abbrevs blk) xs) \<le> end_pos blk"
  shows "\<exists>bs'. walk_records f blk st bs = (case run_items f blk st xs of None \<Rightarrow> Fault | Some st' \<Rightarrow> Ok st' bs')"
  using assms
proof (induction xs arbitrary: blk st bs)
  case Nil
  then have "lagfx_bs_read_bits (abbrev_width blk) bs = Ok 0 (skip bs (abbrev_width blk))" "bit_pos bs < end_pos blk"
    using read_fixed[of bs "abbrev_width blk" 0] by simp_all
  then show ?case
    by (simp add: walk_records.simps[of f blk] lagfx_block_next_record_def bs_bind_def lagfx_bs_align_32_def bs_return_def)
next
  case (Cons x xs)
  let ?e = "emit_item (abbrev_width blk) (blk_abbrevs blk) x"
  let ?blk = "blk\<lparr>blk_abbrevs := item_table (blk_abbrevs blk) x\<rparr>"
  have ne: "0 < length ?e" using Cons.prems(3) by (cases x) simp_all
  have b: "before bs ?e" "before (skip bs (length ?e)) (emit_items (abbrev_width blk) (item_table (blk_abbrevs blk) x) xs)"
    using Cons.prems(2) by (simp_all add: before_append)
  have p: "bit_pos bs < end_pos blk" using Cons.prems(5) ne by (simp only: emit_items.simps length_append)
  have n: "lagfx_block_next_record blk bs = Ok (item_event x, ?blk) (skip bs (length ?e))"
    using next_record_item[OF _ b(1) Cons.prems(3,4) p] Cons.prems(1) by simp
  have ih: "\<exists>bs'. walk_records f ?blk st1 (skip bs (length ?e)) = (case run_items f ?blk st1 xs of None \<Rightarrow> Fault | Some st' \<Rightarrow> Ok st' bs')" for st1
    using Cons.IH[of ?blk "skip bs (length ?e)" st1] Cons.prems b(2) by (simp add: add.assoc)
  have "walk_records f blk st bs = (case f (item_event x) ?blk st of Crash \<Rightarrow> Fault | Break \<Rightarrow> Ok st (skip bs (length ?e))
      | Continue st1 \<Rightarrow> walk_records f ?blk st1 (skip bs (length ?e)))"
    using item_event_shape[of x] by (auto simp: walk_records.simps[of f blk] p n)
  then show ?case using ih by (simp add: Let_def split: loop_step.split)
qed

end
