(* ===== verification/AirModule.thy ===== *)
theory AirModule
  imports BlockReader LittleEndian
begin

text \<open>
  The module structure of \<^verbatim>\<open>src/air/bitcode_reader.h\<close> and the arena of
  \<^verbatim>\<open>src/air/bitcode_reader.c\<close>.  All tables, strings and operand arrays of a module lie in
  one growing arena.  Offsets into the arena are natural numbers; what is stored at them is
  kept in the module record: strings and operand arrays by offset, function entries by
  offset, and the other tables, each reserved in one piece, as lists.  Growing the arena
  moves it, which leaves every pointer taken before dangling: the arena counts its moves,
  and a pointer that the code keeps across reservations carries the count it was taken at.
  Allocation is taken to succeed, and struct sizes are those of a 64-bit target.
\<close>

subsection \<open>The arena\<close>

record lagfx_arena =
  ar_moves :: nat
  ar_capacity :: nat
  ar_used :: nat

definition arena_init :: "nat \<Rightarrow> lagfx_arena" where
  "arena_init capacity = \<lparr>ar_moves = 0, ar_capacity = capacity, ar_used = 1\<rparr>"

function grow_capacity :: "nat \<Rightarrow> nat \<Rightarrow> nat" where
  "grow_capacity new_cap need = (if new_cap < need \<and> 0 < new_cap then grow_capacity (new_cap * 2) need else new_cap)"
  by pat_completeness auto
termination by (relation "measure (\<lambda>(c, n). n - c)") auto

declare grow_capacity.simps [simp del]

definition arena_reserve :: "nat \<Rightarrow> lagfx_arena \<Rightarrow> nat \<times> lagfx_arena" where
  "arena_reserve n a =
     (let aligned = (ar_used a + 7) div 8 * 8;
          a1 = (if aligned + n > ar_capacity a
                then a\<lparr>ar_capacity := grow_capacity (ar_capacity a * 2) (aligned + n), ar_moves := ar_moves a + 1\<rparr>
                else a)
      in (aligned, a1\<lparr>ar_used := aligned + n\<rparr>))"

definition wf_arena :: "lagfx_arena \<Rightarrow> bool" where
  "wf_arena a \<longleftrightarrow> 0 < ar_used a \<and> ar_used a \<le> ar_capacity a"

lemma grow_capacity_enough: "0 < c \<Longrightarrow> need \<le> grow_capacity c need"
  by (induction c need rule: grow_capacity.induct) (subst grow_capacity.simps, auto)

lemma wf_arena_init: "0 < n \<Longrightarrow> wf_arena (arena_init n)"
  by (simp add: wf_arena_def arena_init_def)

text \<open>A reservation is aligned, lies behind everything reserved before and inside the
  grown arena, and moves the arena exactly when it did not fit.\<close>

lemma arena_reserve_spec:
  assumes "wf_arena a" "arena_reserve n a = (off, a')"
  shows "wf_arena a'" "8 dvd off" "0 < off" "ar_used a \<le> off" "ar_used a' = off + n"
    "ar_moves a' = ar_moves a + (if off + n > ar_capacity a then 1 else 0)"
proof -
  have off: "off = (ar_used a + 7) div 8 * 8" "ar_used a' = off + n"
    using assms(2) by (auto simp: arena_reserve_def Let_def)
  show "8 dvd off" "ar_used a' = off + n" using off by simp_all
  show "ar_used a \<le> off" unfolding off(1) by linarith
  then show "0 < off" using assms(1) by (simp add: wf_arena_def)
  show "wf_arena a'" "ar_moves a' = ar_moves a + (if off + n > ar_capacity a then 1 else 0)"
    using assms grow_capacity_enough[of "ar_capacity a * 2" "off + n"] \<open>0 < off\<close>
    by (auto simp: arena_reserve_def Let_def wf_arena_def off(1))
qed

subsection \<open>Tables\<close>

datatype air_type_kind =
    LAGFX_AIR_TYPE_VOID | LAGFX_AIR_TYPE_INTEGER | LAGFX_AIR_TYPE_FLOAT | LAGFX_AIR_TYPE_DOUBLE
  | LAGFX_AIR_TYPE_HALF | LAGFX_AIR_TYPE_VECTOR | LAGFX_AIR_TYPE_POINTER | LAGFX_AIR_TYPE_STRUCT_ANON
  | LAGFX_AIR_TYPE_STRUCT_NAMED | LAGFX_AIR_TYPE_ARRAY | LAGFX_AIR_TYPE_FUNCTION | LAGFX_AIR_TYPE_METADATA
  | LAGFX_AIR_TYPE_LABEL | LAGFX_AIR_TYPE_UNKNOWN

record lagfx_air_type =
  ty_kind :: air_type_kind
  ty_op :: "u32 list"
  ty_name_offset :: nat

datatype air_constant_kind =
    LAGFX_AIR_CONST_NULL | LAGFX_AIR_CONST_INTEGER | LAGFX_AIR_CONST_FLOAT | LAGFX_AIR_CONST_AGGREGATE
  | LAGFX_AIR_CONST_STRING | LAGFX_AIR_CONST_DATA | LAGFX_AIR_CONST_UNDEF | LAGFX_AIR_CONST_UNKNOWN

text \<open>The union of a constant: signed and floating values as their 64 bits.\<close>

datatype air_payload = Pay_i64 u64 | Pay_f64 u64 | Pay_bytes nat nat

record lagfx_air_constant =
  cst_kind :: air_constant_kind
  cst_type_index :: u32
  cst_payload :: air_payload

record lagfx_air_function =
  fn_name_offset :: nat
  fn_name_length :: nat
  fn_type_index :: u32
  fn_param_attr_index :: u32
  fn_linkage :: u32
  fn_visibility :: u32
  fn_is_proto :: bool
  fn_body_offset :: nat
  fn_body_length :: nat

datatype air_md_kind = LAGFX_AIR_MD_VALUE | LAGFX_AIR_MD_NODE | LAGFX_AIR_MD_NAMED_NODE | LAGFX_AIR_MD_UNKNOWN

text \<open>The operand pointer of a metadata record is kept as it was taken.\<close>

record lagfx_air_metadata =
  md_kind :: air_md_kind
  md_name_offset :: nat
  md_operands :: "u32 list"
  md_moves :: nat

record lagfx_air_param_attr_group =
  pg_group_id :: u32
  pg_raw :: "u32 list"

record lagfx_symtab_entry =
  sy_value_id :: u32
  sy_body_offset :: u32
  sy_name_offset :: nat

text \<open>What lies in an arena: strings and operand arrays by their offset.  A module and a
  decoded function body each have an arena of their own.\<close>

record lagfx_store =
  m_arena :: lagfx_arena
  m_strings :: "nat \<Rightarrow> bytes option"
  m_words :: "nat \<Rightarrow> u32 list option"

record lagfx_air_module = lagfx_store +
  m_bitstream :: bytes
  m_blockinfo :: lagfx_blockinfo
  m_triple_offset :: nat
  m_datalayout_offset :: nat
  m_source_filename_offset :: nat
  m_strtab :: bytes
  m_types :: "lagfx_air_type list"
  m_constants :: "lagfx_air_constant list"
  m_fn_cells :: "nat \<Rightarrow> lagfx_air_function option"
  m_functions_off :: nat
  m_functions_moves :: nat
  m_num_functions :: nat
  m_num_globalvars :: nat
  m_metadata :: "lagfx_air_metadata list"
  m_md_strings :: "nat list"
  m_param_attr_groups :: "lagfx_air_param_attr_group list"
  m_symtab :: "lagfx_symtab_entry list"

definition air_module_new :: "bytes \<Rightarrow> lagfx_air_module" where
  "air_module_new body =
     \<lparr>m_arena = snd (arena_reserve (length body) (arena_init 16384)), m_strings = (\<lambda>_. None), m_words = (\<lambda>_. None),
      m_bitstream = body, m_blockinfo = lagfx_blockinfo_init, m_triple_offset = 0, m_datalayout_offset = 0,
      m_source_filename_offset = 0, m_strtab = [], m_types = [], m_constants = [], m_fn_cells = (\<lambda>_. None),
      m_functions_off = 0, m_functions_moves = 0, m_num_functions = 0, m_num_globalvars = 0, m_metadata = [],
      m_md_strings = [], m_param_attr_groups = [], m_symtab = []\<rparr>"

subsection \<open>Reserving, interning and looking up\<close>

definition m_reserve :: "nat \<Rightarrow> 'a lagfx_store_scheme \<Rightarrow> nat \<times> 'a lagfx_store_scheme" where
  "m_reserve n m = (let (off, a) = arena_reserve n (m_arena m) in (off, m\<lparr>m_arena := a\<rparr>))"

definition m_table :: "nat \<Rightarrow> 'a lagfx_store_scheme \<Rightarrow> 'a lagfx_store_scheme" where
  "m_table n m = snd (m_reserve n m)"

text \<open>A string given as one character per operand, stored with a final NUL.\<close>

definition intern_chars :: "u64 list \<Rightarrow> 'a lagfx_store_scheme \<Rightarrow> nat \<times> 'a lagfx_store_scheme" where
  "intern_chars ops m =
     (let (off, m1) = m_reserve (length ops + 1) m
      in (off, m1\<lparr>m_strings := (m_strings m1)(off \<mapsto> map ucast ops)\<rparr>))"

definition arena_intern_string :: "bytes \<Rightarrow> 'a lagfx_store_scheme \<Rightarrow> nat \<times> 'a lagfx_store_scheme" where
  "arena_intern_string str m =
     (let (off, m1) = m_reserve (length str + 1) m in (off, m1\<lparr>m_strings := (m_strings m1)(off \<mapsto> str)\<rparr>))"

definition arena_intern_u32_array :: "u64 list \<Rightarrow> 'a lagfx_store_scheme \<Rightarrow> nat \<times> 'a lagfx_store_scheme" where
  "arena_intern_u32_array ops m =
     (let (off, m1) = m_reserve (length ops * 4) m in (off, m1\<lparr>m_words := (m_words m1)(off \<mapsto> map ucast ops)\<rparr>))"

definition sizeof_function :: nat where "sizeof_function = 48"

text \<open>The code indexes the function table from the first entry on, although every entry is
  a reservation of its own; \<^const>\<open>None\<close> is an index where no entry lies.\<close>

definition m_function :: "lagfx_air_module \<Rightarrow> nat \<Rightarrow> lagfx_air_function option" where
  "m_function m i = m_fn_cells m (m_functions_off m + sizeof_function * i)"

definition m_set_function :: "nat \<Rightarrow> lagfx_air_function \<Rightarrow> lagfx_air_module \<Rightarrow> lagfx_air_module" where
  "m_set_function i f m = m\<lparr>m_fn_cells := (m_fn_cells m)(m_functions_off m + sizeof_function * i \<mapsto> f)\<rparr>"

definition derive_table_ptrs :: "lagfx_air_module \<Rightarrow> lagfx_air_module" where
  "derive_table_ptrs m =
     (if m_functions_off m \<noteq> 0 then m\<lparr>m_functions_moves := ar_moves (m_arena m)\<rparr> else m)"

definition lagfx_air_module_string :: "lagfx_air_module \<Rightarrow> nat \<Rightarrow> bytes option" where
  "lagfx_air_module_string m off = (if off = 0 \<or> off \<ge> ar_used (m_arena m) then None else m_strings m off)"

definition lagfx_air_module_metadata_string_by_id :: "lagfx_air_module \<Rightarrow> nat \<Rightarrow> bytes option" where
  "lagfx_air_module_metadata_string_by_id m i =
     (if i \<ge> length (m_md_strings m) then None else m_strings m (m_md_strings m ! i))"

text \<open>\<^verbatim>\<open>strcmp\<close> sees a string up to its first NUL.\<close>

definition c_string :: "bytes \<Rightarrow> bytes" where
  "c_string b = takeWhile (\<lambda>x. x \<noteq> 0) b"

definition lagfx_air_module_named_metadata :: "lagfx_air_module \<Rightarrow> bytes \<Rightarrow> lagfx_air_metadata option" where
  "lagfx_air_module_named_metadata m name =
     find (\<lambda>md. md_kind md = LAGFX_AIR_MD_NAMED_NODE \<and> md_name_offset md \<noteq> 0 \<and>
                map_option c_string (m_strings m (md_name_offset md)) = Some (c_string name)) (m_metadata m)"

end
