(* ===== verification/AirBlocks.thy ===== *)
theory AirBlocks
  imports AirModule
begin

text \<open>
  The decoders for the blocks inside a module block, from the body of
  \<^verbatim>\<open>lagfx_air_module_open\<close> in \<^verbatim>\<open>src/air/bitcode_reader.c\<close>: block info, constants,
  metadata, parameter attributes, types, function bodies, the symbol table and the string
  table, and the records of the module itself.
\<close>

unbundle bit_operations_syntax

subsection \<open>The common frame\<close>

definition on_record :: "(lagfx_record \<Rightarrow> 'st \<Rightarrow> 'st loop_step) \<Rightarrow> block_event \<Rightarrow> lagfx_block \<Rightarrow> 'st \<Rightarrow> 'st loop_step" where
  "on_record g = (\<lambda>ev blk st. case ev of Is_record r \<Rightarrow> g r st | _ \<Rightarrow> Continue st)"

text \<open>A seek whose result is ignored.\<close>

definition try_seek :: "nat \<Rightarrow> lagfx_bitstream \<Rightarrow> lagfx_bitstream" where
  "try_seek p bs = (case lagfx_bs_seek p bs of Ok _ bs' \<Rightarrow> bs' | _ \<Rightarrow> bs)"

text \<open>Enter a block, walk its records, go to its end.  The flag says whether the walk of the
  module goes on; it stops when the block cannot be entered.\<close>

definition in_block ::
  "nat \<Rightarrow> lagfx_blockinfo option \<Rightarrow> (block_event \<Rightarrow> lagfx_block \<Rightarrow> 'st \<Rightarrow> 'st loop_step) \<Rightarrow> ('m \<Rightarrow> 'st) \<Rightarrow>
   ('st \<Rightarrow> 'm) \<Rightarrow> bool \<Rightarrow> 'm \<Rightarrow> lagfx_bitstream \<Rightarrow> ('m \<times> bool) outcome" where
  "in_block w bi f init fin seek m bs =
     (case lagfx_block_enter w bi bs of
        Fault \<Rightarrow> Fault
      | Fail bs1 \<Rightarrow> Ok (m, False) bs1
      | Ok blk bs1 \<Rightarrow>
          (case walk_records f blk (init m) bs1 of
             Fault \<Rightarrow> Fault
           | Fail bs2 \<Rightarrow> Fail bs2
           | Ok st bs2 \<Rightarrow> Ok (fin st, True) (if seek then try_seek (end_pos blk) bs2 else bs2)))"

subsection \<open>Block info\<close>

text \<open>The state is the module and the target block id.\<close>

definition blockinfo_step :: "block_event \<Rightarrow> lagfx_block \<Rightarrow> lagfx_air_module \<times> u32 \<Rightarrow> (lagfx_air_module \<times> u32) loop_step" where
  "blockinfo_step ev bi st = (let (m, target) = st in case ev of
       Is_define_abbrev \<Rightarrow>
         if unat target < 32 \<and> blk_abbrevs bi \<noteq> [] \<and> length (m_blockinfo m ! unat target) < LAGFX_ABBREV_MAX_PER_BLOCK
         then Continue (m\<lparr>m_blockinfo := (m_blockinfo m)[unat target := m_blockinfo m ! unat target @ [last (blk_abbrevs bi)]]\<rparr>, target)
         else Continue st
     | Is_record r \<Rightarrow>
         if rec_code r = 1 \<and> rec_ops r \<noteq> [] then Continue (m, ucast (hd (rec_ops r))) else Continue st
     | _ \<Rightarrow> Continue st)"

definition decode_blockinfo :: "nat \<Rightarrow> lagfx_air_module \<Rightarrow> lagfx_bitstream \<Rightarrow> (lagfx_air_module \<times> bool) outcome" where
  "decode_blockinfo w = in_block w None blockinfo_step (\<lambda>m. (m, 0xFFFFFFFF)) fst False"

subsection \<open>Constants\<close>

text \<open>Sign and magnitude: the lowest bit is the sign.\<close>

definition sign_rotated :: "u64 \<Rightarrow> u64" where
  "sign_rotated raw = (if raw AND 1 \<noteq> 0 then - drop_bit 1 raw else drop_bit 1 raw)"

type_synonym 'm const_state = "'m \<times> lagfx_air_constant list \<times> u32"

definition add_constant :: "'m const_state \<Rightarrow> air_constant_kind \<Rightarrow> air_payload \<Rightarrow> 'm const_state loop_step" where
  "add_constant st k p = (case st of (m, cs, ty) \<Rightarrow>
     Continue (m, cs @ [\<lparr>cst_kind = k, cst_type_index = ty, cst_payload = p\<rparr>], ty))"

definition constant_step :: "nat \<Rightarrow> bool \<Rightarrow> lagfx_record \<Rightarrow> ('a lagfx_store_scheme) const_state \<Rightarrow> ('a lagfx_store_scheme) const_state loop_step" where
  "constant_step cap strings r st = (case st of (m, cs, ty) \<Rightarrow>
     let ops = rec_ops r; none = Pay_bytes 0 0 in
     if length cs \<ge> cap then Break
     else if rec_code r = 1 then Continue (m, cs, if ops \<noteq> [] then ucast (hd ops) else ty)
     else if rec_code r = 2 then add_constant st LAGFX_AIR_CONST_NULL none
     else if rec_code r = 3 then add_constant st LAGFX_AIR_CONST_UNDEF none
     else if rec_code r = 4 then
       add_constant st LAGFX_AIR_CONST_INTEGER (if ops \<noteq> [] then Pay_i64 (sign_rotated (hd ops)) else none)
     else if rec_code r = 6 then
       add_constant st LAGFX_AIR_CONST_FLOAT (if ops \<noteq> [] then Pay_f64 (hd ops) else none)
     else if strings \<and> (rec_code r = 8 \<or> rec_code r = 9) then
       (let (off, m1) = intern_chars ops m in add_constant (m1, cs, ty) LAGFX_AIR_CONST_STRING (Pay_bytes off (length ops)))
     else if rec_code r = 22 then
       (let (off, m1) = arena_intern_u32_array ops m in add_constant (m1, cs, ty) LAGFX_AIR_CONST_DATA (Pay_bytes off (length ops * 4)))
     else if rec_code r = 7 then
       (let (off, m1) = arena_intern_u32_array ops m in add_constant (m1, cs, ty) LAGFX_AIR_CONST_AGGREGATE (Pay_bytes off (length ops * 4)))
     else add_constant st LAGFX_AIR_CONST_UNKNOWN none)"

definition decode_constants :: "nat \<Rightarrow> lagfx_air_module \<Rightarrow> lagfx_bitstream \<Rightarrow> (lagfx_air_module \<times> bool) outcome" where
  "decode_constants w m = in_block w (Some (m_blockinfo m)) (on_record (constant_step 4096 True))
     (\<lambda>m. (m_table (16 * 4096) m, [], 0)) (\<lambda>(m1, cs, _). m1\<lparr>m_constants := cs\<rparr>) True m"

subsection \<open>Metadata\<close>

text \<open>The size table of the string pool: variable bit-rate numbers of 6-bit chunks.  The
  shift is not bounded by the code; from 32 on it is undefined.\<close>

datatype size_entry = Size u32 nat | Truncated | Bad_shift

definition md_chunk :: "bytes \<Rightarrow> nat \<Rightarrow> u32" where
  "md_chunk st bitpos =
     foldl (\<lambda>chunk bi. chunk OR push_bit bi (ucast (drop_bit ((bitpos + bi) mod 8) (st ! ((bitpos + bi) div 8)) AND 1))) 0 [0..<6]"

function md_size :: "bytes \<Rightarrow> nat \<Rightarrow> nat \<Rightarrow> nat \<Rightarrow> u32 \<Rightarrow> size_entry" where
  "md_size st total_bits bitpos shift v =
     (if bitpos + 6 > total_bits then Truncated
      else let chunk = md_chunk st bitpos in
      if shift \<ge> 32 then Bad_shift
      else let v1 = v OR push_bit shift (chunk AND 0x1F) in
      if chunk AND 0x20 = 0 then Size v1 (bitpos + 6) else md_size st total_bits (bitpos + 6) (shift + 5) v1)"
  by pat_completeness auto
termination by (relation "measure (\<lambda>(_, total_bits, bitpos, _, _). total_bits - bitpos)") auto

declare md_size.simps [simp del]

primrec md_strings :: "nat \<Rightarrow> bytes \<Rightarrow> nat \<Rightarrow> nat \<Rightarrow> bytes \<Rightarrow> nat list \<Rightarrow> lagfx_air_module \<Rightarrow> (nat list \<times> lagfx_air_module) option" where
  "md_strings 0 st total_bits bitpos sd offs m = Some (offs, m)"
| "md_strings (Suc n) st total_bits bitpos sd offs m =
     (if length offs \<ge> 4096 then Some (offs, m)
      else case md_size st total_bits bitpos 0 0 of
             Truncated \<Rightarrow> Some (offs, m)
           | Bad_shift \<Rightarrow> None
           | Size slen bitpos1 \<Rightarrow>
               if unat slen > length sd then Some (offs, m)
               else let (off, m1) = arena_intern_string (take (unat slen) sd) m
                    in md_strings n st total_bits bitpos1 (drop (unat slen) sd) (offs @ [off]) m1)"

text \<open>The state: module, string offsets, records, pending name.\<close>

type_synonym md_state = "lagfx_air_module \<times> nat list \<times> lagfx_air_metadata list \<times> nat"

definition md_record :: "lagfx_record \<Rightarrow> air_md_kind \<Rightarrow> nat \<Rightarrow> lagfx_air_module \<Rightarrow> lagfx_air_metadata \<times> lagfx_air_module" where
  "md_record r k name m =
     (let m1 = (if rec_ops r = [] then m else snd (arena_intern_u32_array (rec_ops r) m))
      in (\<lparr>md_kind = k, md_name_offset = name, md_operands = map ucast (rec_ops r), md_moves = ar_moves (m_arena m1)\<rparr>, m1))"

definition metadata_step :: "lagfx_record \<Rightarrow> md_state \<Rightarrow> md_state loop_step" where
  "metadata_step r st = (case st of (m, offs, recs, pending) \<Rightarrow>
     let ops = rec_ops r in
     if rec_code r = 35 then
       (case rec_blob r of
          None \<Rightarrow> Continue st
        | Some blob \<Rightarrow>
            if length ops < 2 \<or> blob = [] then Continue st
            else let batch_num = unat (ucast (ops ! 0) :: u32); size_table_bytes = unat (ucast (ops ! 1) :: u32) in
            if size_table_bytes > length blob then Continue st
            else (case md_strings batch_num (take size_table_bytes blob) (size_table_bytes * 8) 0 (drop size_table_bytes blob) offs m of
                    None \<Rightarrow> Crash
                  | Some (offs1, m1) \<Rightarrow> Continue (m1, offs1, recs, pending)))
     else if rec_code r = 1 then
       if length offs \<ge> 4096 then Continue st
       else (let (off, m1) = intern_chars ops m in Continue (m1, offs @ [off], recs, pending))
     else if rec_code r = 4 then (let (off, m1) = intern_chars ops m in Continue (m1, offs, recs, off))
     else if rec_code r \<in> {38, 39} then Continue st
     else if length recs \<ge> 4096 then Continue st
     else if rec_code r = 10 then
       (let (md, m1) = md_record r LAGFX_AIR_MD_NAMED_NODE pending m in Continue (m1, offs, recs @ [md], 0))
     else (let k = (if rec_code r = 2 then LAGFX_AIR_MD_VALUE
                    else if rec_code r \<in> {3, 5, 8} then LAGFX_AIR_MD_NODE else LAGFX_AIR_MD_UNKNOWN);
               (md, m1) = md_record r k 0 m in Continue (m1, offs, recs @ [md], pending)))"

definition decode_metadata :: "nat \<Rightarrow> lagfx_air_module \<Rightarrow> lagfx_bitstream \<Rightarrow> (lagfx_air_module \<times> bool) outcome" where
  "decode_metadata w m = in_block w (Some (m_blockinfo m)) (on_record metadata_step)
     (\<lambda>m. (m_table (24 * 4096) (m_table (4 * 4096) m), [], [], 0))
     (\<lambda>(m1, offs, recs, _). m1\<lparr>m_md_strings := offs, m_metadata := recs\<rparr>) True m"

definition walk_past :: "nat \<Rightarrow> lagfx_air_module \<Rightarrow> lagfx_bitstream \<Rightarrow> (lagfx_air_module \<times> bool) outcome" where
  "walk_past w m = in_block w (Some (m_blockinfo m)) (\<lambda>_ _ st. Continue st) (\<lambda>m. m) (\<lambda>m. m) True m"

subsection \<open>Parameter attributes\<close>

definition group_step :: "lagfx_record \<Rightarrow> lagfx_air_module \<times> lagfx_air_param_attr_group list \<Rightarrow>
    (lagfx_air_module \<times> lagfx_air_param_attr_group list) loop_step" where
  "group_step r st = (case st of (m, gs) \<Rightarrow>
     if length gs \<ge> 64 then Break
     else (let (off, m1) = arena_intern_u32_array (rec_ops r) m
           in Continue (m1, gs @ [\<lparr>pg_group_id = (if rec_ops r \<noteq> [] then ucast (hd (rec_ops r)) else 0),
                                  pg_raw = map ucast (rec_ops r)\<rparr>])))"

definition decode_paramattr_group :: "nat \<Rightarrow> lagfx_air_module \<Rightarrow> lagfx_bitstream \<Rightarrow> (lagfx_air_module \<times> bool) outcome" where
  "decode_paramattr_group w m = in_block w (Some (m_blockinfo m)) (on_record group_step)
     (\<lambda>m. (m_table (24 * 64) m, [])) (\<lambda>(m1, gs). m1\<lparr>m_param_attr_groups := gs\<rparr>) True m"

subsection \<open>Types\<close>

definition operand_type_kind :: "u32 \<Rightarrow> air_type_kind option" where
  "operand_type_kind c =
     (if c = 7 then Some LAGFX_AIR_TYPE_INTEGER else if c = 8 then Some LAGFX_AIR_TYPE_POINTER
      else if c = 12 then Some LAGFX_AIR_TYPE_VECTOR else if c = 11 then Some LAGFX_AIR_TYPE_ARRAY
      else if c = 21 then Some LAGFX_AIR_TYPE_FUNCTION else if c = 18 then Some LAGFX_AIR_TYPE_STRUCT_ANON
      else if c = 20 then Some LAGFX_AIR_TYPE_STRUCT_NAMED else None)"

definition simple_type_kind :: "u32 \<Rightarrow> air_type_kind" where
  "simple_type_kind c =
     (if c = 2 then LAGFX_AIR_TYPE_VOID else if c = 3 then LAGFX_AIR_TYPE_FLOAT
      else if c = 4 then LAGFX_AIR_TYPE_DOUBLE else if c = 10 then LAGFX_AIR_TYPE_HALF
      else if c = 5 then LAGFX_AIR_TYPE_LABEL else if c = 16 then LAGFX_AIR_TYPE_METADATA
      else LAGFX_AIR_TYPE_UNKNOWN)"

type_synonym type_state = "lagfx_air_module \<times> lagfx_air_type list \<times> nat"

definition type_step :: "lagfx_record \<Rightarrow> type_state \<Rightarrow> type_state loop_step" where
  "type_step r st = (case st of (m, ts, pending) \<Rightarrow>
     if rec_code r = 1 then Continue st
     else if length ts \<ge> 4096 then Break
     else case operand_type_kind (rec_code r) of
       Some k \<Rightarrow>
         (let (off, m1) = arena_intern_u32_array (rec_ops r) m; named = (rec_code r = 20)
          in Continue (m1, ts @ [\<lparr>ty_kind = k, ty_op = map ucast (rec_ops r), ty_name_offset = (if named then pending else 0)\<rparr>],
                       if named then 0 else pending))
     | None \<Rightarrow>
         if rec_code r = 19 then (let (off, m1) = intern_chars (rec_ops r) m in Continue (m1, ts, off))
         else Continue (m, ts @ [\<lparr>ty_kind = simple_type_kind (rec_code r), ty_op = [], ty_name_offset = 0\<rparr>], pending))"

definition decode_types :: "nat \<Rightarrow> lagfx_air_module \<Rightarrow> lagfx_bitstream \<Rightarrow> (lagfx_air_module \<times> bool) outcome" where
  "decode_types w m = in_block w (Some (m_blockinfo m)) (on_record type_step)
     (\<lambda>m. (m_table (32 * 4096) m, [], 0)) (\<lambda>(m1, ts, _). m1\<lparr>m_types := ts\<rparr>) True m"

subsection \<open>Function bodies\<close>

function skip_protos :: "lagfx_air_module \<Rightarrow> nat \<Rightarrow> nat option" where
  "skip_protos m i =
     (if i < m_num_functions m then
        case m_function m i of None \<Rightarrow> None | Some f \<Rightarrow> if fn_is_proto f then skip_protos m (i + 1) else Some i
      else Some i)"
  by pat_completeness auto
termination by (relation "measure (\<lambda>(m, i). m_num_functions m - i)") auto

declare skip_protos.simps [simp del]

text \<open>The body of the next function that is not a prototype: the bits from the code that
  opens the block to its end.  The counter of assigned bodies is part of the state.\<close>

definition function_block :: "nat \<Rightarrow> lagfx_air_module \<times> nat \<Rightarrow> lagfx_bitstream \<Rightarrow> ((lagfx_air_module \<times> nat) \<times> bool) outcome" where
  "function_block w st bs = (case st of (m, next_body_fn) \<Rightarrow>
     (case lagfx_block_skip w bs of
        Fault \<Rightarrow> Fault
      | Fail bs1 \<Rightarrow> Ok (st, False) bs1
      | Ok _ bs1 \<Rightarrow>
          let m1 = derive_table_ptrs m in
          case skip_protos m1 next_body_fn of
            None \<Rightarrow> Fault
          | Some i \<Rightarrow>
              if i < m_num_functions m1 then
                (case m_function m1 i of
                   None \<Rightarrow> Fault
                 | Some f \<Rightarrow>
                     Ok ((m_set_function i (f\<lparr>fn_body_offset := bit_pos bs, fn_body_length := bit_pos bs1 - bit_pos bs\<rparr>) m1, i + 1), True) bs1)
              else Ok ((m1, i), True) bs1))"

subsection \<open>The symbol table\<close>

text \<open>The loop of this block does not skip nested blocks: it goes on with the cursor where it
  was.  \<^const>\<open>None\<close> is a loop that does not end.  The entries are written through a pointer
  that is not refreshed after a reservation.\<close>

type_synonym symtab_state = "lagfx_air_module \<times> lagfx_symtab_entry list"

definition symtab_entry :: "nat \<Rightarrow> u32 \<Rightarrow> u32 \<Rightarrow> u64 list \<Rightarrow> symtab_state \<Rightarrow> symtab_state loop_step" where
  "symtab_entry moves value_id body_offset chars st = (case st of (m, es) \<Rightarrow>
     (let (off, m1) = intern_chars chars m in
      if ar_moves (m_arena m1) \<noteq> moves then Crash
      else Continue (m1, es @ [\<lparr>sy_value_id = value_id, sy_body_offset = body_offset, sy_name_offset = off\<rparr>])))"

definition symtab_step :: "nat \<Rightarrow> lagfx_record \<Rightarrow> symtab_state \<Rightarrow> symtab_state loop_step" where
  "symtab_step moves r st = (case st of (m, es) \<Rightarrow>
     let ops = rec_ops r in
     if rec_code r = 2 then Continue st
     else if length es \<ge> 4096 then Break
     else if rec_code r = 1 \<and> length ops \<ge> 1 then symtab_entry moves (ucast (ops ! 0)) 0 (drop 1 ops) st
     else if rec_code r = 3 \<and> length ops \<ge> 2 then symtab_entry moves (ucast (ops ! 0)) (ucast (ops ! 1)) (drop 2 ops) st
     else Continue (m, es @ [\<lparr>sy_value_id = 0, sy_body_offset = 0, sy_name_offset = 0\<rparr>]))"

partial_function (option) walk_symtab ::
  "nat \<Rightarrow> lagfx_block \<Rightarrow> symtab_state \<Rightarrow> lagfx_bitstream \<Rightarrow> symtab_state outcome option" where
  "walk_symtab moves blk st bs =
     (if bit_pos bs < end_pos blk then
        case lagfx_block_next_record blk bs of
          Fault \<Rightarrow> Some Fault
        | Fail bs1 \<Rightarrow> Some (Ok st bs1)
        | Ok (ev, blk1) bs1 \<Rightarrow>
            (case ev of
               Is_end \<Rightarrow> Some (Ok st bs1)
             | Is_subblock _ \<Rightarrow> walk_symtab moves blk1 st bs1
             | Is_define_abbrev \<Rightarrow> walk_symtab moves blk1 st bs1
             | Is_record r \<Rightarrow>
                 (case symtab_step moves r st of
                    Crash \<Rightarrow> Some Fault | Break \<Rightarrow> Some (Ok st bs1) | Continue st1 \<Rightarrow> walk_symtab moves blk1 st1 bs1))
      else Some (Ok st bs))"

definition decode_symtab :: "nat \<Rightarrow> lagfx_air_module \<Rightarrow> lagfx_bitstream \<Rightarrow> (lagfx_air_module \<times> bool) outcome option" where
  "decode_symtab w m bs =
     (case lagfx_block_enter w (Some (m_blockinfo m)) bs of
        Fault \<Rightarrow> Some Fault
      | Fail bs1 \<Rightarrow> Some (Ok (m, False) bs1)
      | Ok vs bs1 \<Rightarrow>
          let m1 = m_table (12 * 4096) m in
          (case walk_symtab (ar_moves (m_arena m1)) vs (m1, []) bs1 of
             None \<Rightarrow> None
           | Some Fault \<Rightarrow> Some Fault
           | Some (Fail bs2) \<Rightarrow> Some (Fail bs2)
           | Some (Ok (m2, es) bs2) \<Rightarrow> Some (Ok (m2\<lparr>m_symtab := es\<rparr>, True) (try_seek (end_pos vs) bs2))))"

subsection \<open>Module records\<close>

definition function_entry :: "u64 list \<Rightarrow> lagfx_air_function" where
  "function_entry ops =
     (let opt = (\<lambda>i. if length ops > i then ucast (ops ! i) else 0)
      in \<lparr>fn_name_offset = unat (ucast (ops ! 0) :: u32), fn_name_length = unat (ucast (ops ! 1) :: u32),
          fn_type_index = ucast (ops ! 2), fn_param_attr_index = opt 6, fn_linkage = opt 5,
          fn_visibility = opt 9, fn_is_proto = (ops ! 4 \<noteq> 0), fn_body_offset = 0, fn_body_length = 0\<rparr>)"

definition function_record :: "u64 list \<Rightarrow> lagfx_air_module \<Rightarrow> lagfx_air_module" where
  "function_record ops m =
     (if length ops < 5 then m
      else let (off, m1) = m_reserve sizeof_function m;
               m2 = (if m_num_functions m1 = 0
                     then m1\<lparr>m_functions_off := off, m_functions_moves := ar_moves (m_arena m1)\<rparr> else m1)
           in m2\<lparr>m_fn_cells := (m_fn_cells m2)(off \<mapsto> function_entry ops), m_num_functions := m_num_functions m2 + 1\<rparr>)"

definition module_record :: "lagfx_record \<Rightarrow> lagfx_air_module \<Rightarrow> lagfx_air_module" where
  "module_record r m =
     (if rec_code r \<in> {2, 3, 16} then
        (let (off, m1) = intern_chars (rec_ops r) m in
         if rec_code r = 2 then m1\<lparr>m_triple_offset := off\<rparr>
         else if rec_code r = 3 then m1\<lparr>m_datalayout_offset := off\<rparr>
         else m1\<lparr>m_source_filename_offset := off\<rparr>)
      else if rec_code r = 8 then function_record (rec_ops r) m
      else if rec_code r = 7 then m\<lparr>m_num_globalvars := m_num_globalvars m + 1\<rparr>
      else m)"

subsection \<open>The string table\<close>

definition strtab_step :: "lagfx_record \<Rightarrow> lagfx_air_module \<Rightarrow> lagfx_air_module loop_step" where
  "strtab_step r m = (case rec_blob r of
       Some blob \<Rightarrow> Continue (if blob \<noteq> [] then (m_table (length blob) m)\<lparr>m_strtab := blob\<rparr> else m)
     | None \<Rightarrow> Continue m)"

end
