(* ===== verification/AirReader.thy ===== *)
theory AirReader
  imports AirBlocks
begin

text \<open>
  The entry points of \<^verbatim>\<open>src/air/bitcode_reader.c\<close>: the bitcode wrapper, the walk of the
  module block, the walk of the root level, the resolution of function names and the
  decoder of a function body.  A result of \<^const>\<open>None\<close> is a call that does not return.
\<close>

unbundle bit_operations_syntax

subsection \<open>The blocks of a module\<close>

type_synonym walk_state = "lagfx_air_module \<times> nat"

definition with_next :: "nat \<Rightarrow> (lagfx_air_module \<times> bool) outcome \<Rightarrow> (walk_state \<times> bool) outcome" where
  "with_next n r = (case r of Ok (m, go) bs \<Rightarrow> Ok ((m, n), go) bs | Fail bs \<Rightarrow> Fail bs | Fault \<Rightarrow> Fault)"

definition skip_block :: "nat \<Rightarrow> 'st \<Rightarrow> lagfx_bitstream \<Rightarrow> ('st \<times> bool) outcome" where
  "skip_block w st bs = (case lagfx_block_skip w bs of
       Fault \<Rightarrow> Fault | Fail bs1 \<Rightarrow> Ok (st, False) bs1 | Ok _ bs1 \<Rightarrow> Ok (st, True) bs1)"

definition sub_block :: "u32 \<Rightarrow> nat \<Rightarrow> walk_state \<Rightarrow> lagfx_bitstream \<Rightarrow> (walk_state \<times> bool) outcome option" where
  "sub_block sub_id w st bs = (case st of (m, n) \<Rightarrow>
     if sub_id = 0 then Some (with_next n (decode_blockinfo w m bs))
     else if sub_id = 11 then Some (with_next n (decode_constants w m bs))
     else if sub_id = 22 \<or> sub_id = 16 then Some (with_next n (walk_past w m bs))
     else if sub_id = 15 then Some (with_next n (decode_metadata w m bs))
     else if sub_id = 10 then Some (with_next n (decode_paramattr_group w m bs))
     else if sub_id = 9 then Some (with_next n (walk_past w m bs))
     else if sub_id = 21 then Some (skip_block w st bs)
     else if sub_id = 17 then Some (with_next n (decode_types w m bs))
     else if sub_id = 12 then Some (function_block w st bs)
     else if sub_id = 14 then map_option (with_next n) (decode_symtab w m bs)
     else Some (skip_block w st bs))"

subsection \<open>Blocks move the cursor forward\<close>

lemma try_seek_fwd: "bit_pos bs1 \<le> p \<Longrightarrow> fwd_to 0 bs1 bs2 \<Longrightarrow> fwd_to 0 bs1 (try_seek p bs2)"
  using align_32_ge[of "buf_bits bs2"]
  by (auto simp: try_seek_def lagfx_bs_seek_def fwd_to_def bs_inside_def buf_bits_def)

text \<open>A block that is decoded moves the cursor by at least its opening code.\<close>

definition sub_fwd :: "nat \<Rightarrow> lagfx_bitstream \<Rightarrow> ('st \<times> bool) outcome \<Rightarrow> bool" where
  "sub_fwd w bs r \<longleftrightarrow> (case r of Ok (_, go) bs' \<Rightarrow> fwd_to (if go then w else 0) bs bs' | _ \<Rightarrow> True)"

lemma in_block_fwd: "sub_fwd w bs (in_block w bi f init fin seek m bs)"
proof (cases "lagfx_block_enter w bi bs")
  case (Ok blk bs1)
  note e = fwdD_Ok[OF fwd_enter Ok]
  show ?thesis
  proof (cases "walk_records f blk (init m) bs1")
    case (Ok st bs2)
    let ?b = "if seek then try_seek (end_pos blk) bs2 else bs2"
    have "fwd_to 0 bs1 ?b"
      using walk_fwd[OF Ok] try_seek_fwd[OF enter_end_pos[OF \<open>lagfx_block_enter w bi bs = _\<close>] walk_fwd[OF Ok]] by simp
    from fwd_to_trans[OF e this] show ?thesis
      using Ok \<open>lagfx_block_enter w bi bs = _\<close> by (simp add: in_block_def sub_fwd_def)
  qed (use Ok in \<open>simp_all add: in_block_def sub_fwd_def\<close>)
qed (use fwdD_Fail[OF fwd_enter] in \<open>simp_all add: in_block_def sub_fwd_def\<close>)

lemma walk_symtab_fwd:
  assumes "walk_symtab moves blk st bs = Some (Ok st' bs')"
  shows "fwd_to 0 bs bs'"
proof -
  have "\<forall>st' bs'. r = Ok st' bs' \<longrightarrow> fwd_to 0 bs bs'" if "walk_symtab moves blk st bs = Some r" for r
    using that
  proof (rule walk_symtab.raw_induct[rotated], intro allI impI)
    fix ws moves blk st bs r st' bs'
    assume ih: "\<And>moves blk st bs r. ws moves blk st bs = Some r \<Longrightarrow> \<forall>st' bs'. r = Ok st' bs' \<longrightarrow> fwd_to 0 bs bs'"
      and b: "(if bit_pos bs < end_pos blk then
        case lagfx_block_next_record blk bs of
          Fault \<Rightarrow> Some Fault
        | Fail bs1 \<Rightarrow> Some (Ok st bs1)
        | Ok (ev, blk1) bs1 \<Rightarrow>
            (case ev of
               Is_end \<Rightarrow> Some (Ok st bs1)
             | Is_subblock _ \<Rightarrow> ws moves blk1 st bs1
             | Is_define_abbrev \<Rightarrow> ws moves blk1 st bs1
             | Is_record r \<Rightarrow>
                 (case symtab_step moves r st of
                    Crash \<Rightarrow> Some Fault | Break \<Rightarrow> Some (Ok st bs1) | Continue st1 \<Rightarrow> ws moves blk1 st1 bs1))
      else Some (Ok st bs)) = Some r"
      and r: "r = Ok st' bs'"
    have rec: "fwd_to 0 a bs'" if "ws moves blk2 st2 a = Some r" for blk2 st2 a
      using ih[OF that] r by blast
    show "fwd_to 0 bs bs'"
    proof (cases "bit_pos bs < end_pos blk")
      case True
      show ?thesis
      proof (cases "lagfx_block_next_record blk bs")
        case (Ok p bs1)
        obtain ev blk1 where p: "p = (ev, blk1)" by (cases p)
        note f1 = next_record_fwd0[OF Ok[unfolded p]]
        have "fwd_to 0 bs bs'" if "fwd_to 0 bs1 bs'" using fwd_to_trans[OF f1 that] by simp
        then show ?thesis
          using b r rec f1 True Ok p by (cases ev) (auto split: loop_step.splits)
      qed (use b r True next_record_Fail in auto)
    qed (use b r in auto)
  qed
  then show ?thesis using assms by blast
qed


lemma decode_symtab_fwd: "decode_symtab w m bs = Some r \<Longrightarrow> sub_fwd w bs r"
proof (cases "lagfx_block_enter w (Some (m_blockinfo m)) bs")
  case (Ok vs bs1)
  assume d: "decode_symtab w m bs = Some r"
  let ?m = "m_table (12 * 4096) m"
  note e = fwdD_Ok[OF fwd_enter Ok]
  show ?thesis
  proof (cases "\<exists>st bs2. walk_symtab (ar_moves (m_arena ?m)) vs (?m, []) bs1 = Some (Ok st bs2)")
    case True
    then obtain st bs2 where s: "walk_symtab (ar_moves (m_arena ?m)) vs (?m, []) bs1 = Some (Ok st bs2)" by blast
    show ?thesis
      using d fwd_to_trans[OF e try_seek_fwd[OF enter_end_pos[OF Ok] walk_symtab_fwd[OF s]]] s Ok
      by (auto simp: decode_symtab_def sub_fwd_def Let_def split: prod.splits)
  next
    case False
    then show ?thesis using d Ok by (auto simp: decode_symtab_def sub_fwd_def Let_def split: option.splits outcome.splits)
  qed
qed (use fwdD_Fail[OF fwd_enter] in \<open>auto simp: decode_symtab_def sub_fwd_def\<close>)

lemma with_next_fwd: "sub_fwd w bs r \<Longrightarrow> sub_fwd w bs (with_next n r)"
  by (auto simp: sub_fwd_def with_next_def split: outcome.splits)

lemma skip_block_fwd: "sub_fwd w bs (skip_block w st bs)"
  using skip_Ok[of w bs] skip_fwd0[of w bs] by (auto simp: sub_fwd_def skip_block_def split: outcome.splits)

lemma function_block_fwd: "sub_fwd w bs (function_block w st bs)"
  using skip_Ok[of w bs] skip_fwd0[of w bs]
  by (auto simp: sub_fwd_def function_block_def Let_def split: outcome.splits option.splits prod.splits)

lemma sub_block_fwd:
  assumes "sub_block i w st bs = Some r"
  shows "sub_fwd w bs r"
proof -
  obtain m n where st: "st = (m, n)" by (cases st)
  note blocks = decode_blockinfo_def decode_constants_def walk_past_def decode_metadata_def decode_paramattr_group_def decode_types_def
  show ?thesis
  proof (cases "i = 14")
    case True
    then obtain q where "decode_symtab w m bs = Some q" "r = with_next n q"
      using assms by (auto simp: sub_block_def st)
    then show ?thesis using with_next_fwd[OF decode_symtab_fwd] by simp
  next
    case False
    then show ?thesis
      using assms unfolding sub_block_def st prod.case blocks
      by (auto intro!: with_next_fwd in_block_fwd skip_block_fwd function_block_fwd split: if_splits)
  qed
qed

lemma sub_block_go: "sub_block i w st bs = Some (Ok (st', True) bs') \<Longrightarrow> fwd_to w bs bs'"
  by (drule sub_block_fwd) (simp add: sub_fwd_def)

lemma sub_block_fwd0: "sub_block i w st bs = Some (Ok x bs') \<Longrightarrow> fwd_to 0 bs bs'"
  by (drule sub_block_fwd) (auto simp: sub_fwd_def intro: fwd_to_weaken split: prod.splits if_splits)

subsection \<open>The module block\<close>

text \<open>The flag of the result says whether the end of the block was read.\<close>

function walk_module :: "lagfx_block \<Rightarrow> walk_state \<Rightarrow> lagfx_bitstream \<Rightarrow> (walk_state \<times> bool) outcome option" where
  "walk_module blk st bs =
     (if bit_pos bs < end_pos blk then
        case lagfx_block_next_record blk bs of
          Fault \<Rightarrow> Some Fault
        | Fail bs1 \<Rightarrow> Some (Ok (st, False) bs1)
        | Ok (Is_end, _) bs1 \<Rightarrow> Some (Ok (st, True) bs1)
        | Ok (Is_subblock i, blk1) bs1 \<Rightarrow>
            (case sub_block i (abbrev_width blk) st bs1 of
               None \<Rightarrow> None
             | Some Fault \<Rightarrow> Some Fault
             | Some (Fail bs2) \<Rightarrow> Some (Fail bs2)
             | Some (Ok (st1, go) bs2) \<Rightarrow> if go then walk_module blk1 st1 bs2 else Some (Ok (st1, False) bs2))
        | Ok (Is_define_abbrev, blk1) bs1 \<Rightarrow> walk_module blk1 st bs1
        | Ok (Is_record r, blk1) bs1 \<Rightarrow> walk_module blk1 (module_record r (fst st), snd st) bs1
      else Some (Ok (st, False) bs))"
  by pat_completeness auto
termination
  by (relation "measure (\<lambda>(_, _, bs). buf_bits bs - bit_pos bs)")
     (auto dest!: next_record_fwd intro: read_progress dest: sub_block_go)

declare walk_module.simps [simp del]

subsection \<open>The root level\<close>

text \<open>The module, or an error; a fault is an access the code must not make.\<close>

datatype 'a air_result = Air_ok 'a | Air_error lagfx_status | Air_fault

lemma walk_module_fwd: "walk_module blk st bs = Some (Ok r bs') \<Longrightarrow> fwd_to 0 bs bs'"
proof (induction blk st bs rule: walk_module.induct)
  case (1 blk st bs)
  show ?case
  proof (cases "bit_pos bs < end_pos blk")
    case True
    show ?thesis
    proof (cases "lagfx_block_next_record blk bs")
      case (Ok p bs1)
      obtain ev blk1 where p: "p = (ev, blk1)" by (cases p)
      note f1 = next_record_fwd0[OF Ok[unfolded p]]
      have t: "fwd_to 0 bs bs'" if "fwd_to 0 bs1 bs'" using fwd_to_trans[OF f1 that] by simp
      have u: "fwd_to 0 bs bs'" if "fwd_to 0 bs1 a" "fwd_to 0 a bs'" for a
        using fwd_to_trans[OF f1 fwd_to_trans[OF that]] by simp
      show ?thesis
      proof (cases ev)
        case (Is_subblock i)
        then obtain st1 go bs2 where s: "sub_block i (abbrev_width blk) st bs1 = Some (Ok (st1, go) bs2)"
          using "1.prems" True Ok p by (auto simp: walk_module.simps[of blk] split: option.splits outcome.splits)
        show ?thesis
        proof (cases go)
          case True
          then have "fwd_to 0 bs2 bs'"
            using "1.prems" "1.IH"(1)[OF \<open>bit_pos bs < _\<close> Ok p[symmetric] Is_subblock s refl refl True] Ok p s Is_subblock \<open>bit_pos bs < _\<close>
            by (simp add: walk_module.simps[of blk])
          then show ?thesis using u[OF sub_block_fwd0[OF s]] by simp
        next
          case False
          then have "bs2 = bs'" using "1.prems" Ok p s Is_subblock True by (simp add: walk_module.simps[of blk])
          then show ?thesis using t[OF sub_block_fwd0[OF s[unfolded \<open>bs2 = bs'\<close>]]] by simp
        qed
      qed (use "1.prems" "1.IH"(2,3)[OF True Ok p[symmetric]] True Ok p t f1 in \<open>auto simp: walk_module.simps[of blk]\<close>)
    qed (use "1.prems" True next_record_Fail in \<open>auto simp: walk_module.simps[of blk]\<close>)
  qed (use "1.prems" in \<open>simp add: walk_module.simps[of blk]\<close>)
qed


text \<open>The loop reads the 2-bit code, puts the cursor back and enters the block.\<close>

definition enter_root :: "lagfx_bitstream \<Rightarrow> lagfx_block option outcome" where
  "enter_root bs = (case lagfx_bs_read_bits 2 bs of
       Fault \<Rightarrow> Fault
     | Fail bs1 \<Rightarrow> Ok None bs1
     | Ok code bs1 \<Rightarrow>
         if code \<noteq> 1 then Ok None bs1
         else bs_bind (lagfx_bs_seek (bit_pos bs)) (\<lambda>_. bs_bind (lagfx_block_enter 2 None) (\<lambda>blk. bs_return (Some blk))) bs1)"

lemma enter_root_Some:
  assumes "enter_root bs = Ok (Some blk) bs1"
  shows "lagfx_block_enter 2 None bs = Ok blk bs1" "\<exists>code bs0. lagfx_bs_read_bits 2 bs = Ok code bs0"
proof -
  obtain code bs0 where c: "lagfx_bs_read_bits 2 bs = Ok code bs0"
    using assms by (auto simp: enter_root_def split: outcome.splits)
  then show "\<exists>code bs0. lagfx_bs_read_bits 2 bs = Ok code bs0" by blast
  have "bs0\<lparr>bit_pos := bit_pos bs\<rparr> = bs" using read_bits_advances[OF c] by simp
  then show "lagfx_block_enter 2 None bs = Ok blk bs1"
    using assms c by (auto simp: enter_root_def bs_bind_def bs_return_def lagfx_bs_seek_def split: outcome.splits if_splits)
qed

lemma root_end_pos: "enter_root bs = Ok (Some blk) bs1 \<Longrightarrow> bit_pos bs1 \<le> end_pos blk"
  by (rule enter_end_pos[OF enter_root_Some(1)])

lemma root_progress:
  assumes "enter_root bs = Ok (Some blk) bs1" "fwd_to 0 bs1 bs2"
  shows "buf_bits bs2 - bit_pos bs2 < buf_bits bs - bit_pos bs"
  using read_progress[of 2 bs _ _ bs2] enter_root_Some[OF assms(1)] fwd_to_trans[OF fwdD_Ok[OF fwd_enter enter_root_Some(1)[OF assms(1)]] assms(2)]
  by auto

function walk_root :: "lagfx_air_module \<Rightarrow> lagfx_bitstream \<Rightarrow> lagfx_air_module air_result option" where
  "walk_root m bs =
     (if lagfx_bs_at_end bs then Some (Air_ok m)
      else case enter_root bs of
        Fault \<Rightarrow> Some Air_fault
      | Fail _ \<Rightarrow> Some (Air_error LAGFX_ERR_PROTOCOL)
      | Ok None _ \<Rightarrow> Some (Air_ok m)
      | Ok (Some blk) bs1 \<Rightarrow>
          if block_id blk = 23 then
            (case walk_records (on_record strtab_step) blk m bs1 of
               Fault \<Rightarrow> Some Air_fault
             | Fail _ \<Rightarrow> Some Air_fault
             | Ok m1 bs2 \<Rightarrow> walk_root m1 (try_seek (end_pos blk) bs2))
          else if block_id blk = 8 then
            (case walk_module blk (m, 0) bs1 of
               None \<Rightarrow> None
             | Some Fault \<Rightarrow> Some Air_fault
             | Some (Fail _) \<Rightarrow> Some Air_fault
             | Some (Ok (st, clean) bs2) \<Rightarrow>
                 if \<not> clean \<and> bit_pos bs2 < end_pos blk then Some (Air_ok (fst st)) else walk_root (fst st) bs2)
          else
            (case lagfx_bs_seek (end_pos blk) bs1 of
               Ok _ bs2 \<Rightarrow> walk_root m bs2
             | _ \<Rightarrow> Some (Air_ok m)))"
  by pat_completeness auto
termination
proof (relation "measure (\<lambda>(_, bs). buf_bits bs - bit_pos bs)", goal_cases)
  case (2 m bs o1 bs1 blk m1 bs2)
  then have e: "enter_root bs = Ok (Some blk) bs1" and w: "walk_records (on_record strtab_step) blk m bs1 = Ok m1 bs2" by simp_all
  show ?case using root_progress[OF e try_seek_fwd[OF root_end_pos[OF e] walk_fwd[OF w]]] by simp
next
  case (3 m bs o1 bs1 blk r x bs2 st clean)
  then show ?case using root_progress[OF _ walk_module_fwd] by auto
next
  case (4 m bs o1 bs1 blk u bs2)
  then have e: "enter_root bs = Ok (Some blk) bs1" and k: "lagfx_bs_seek (end_pos blk) bs1 = Ok u bs2" by simp_all
  show ?case using root_progress[OF e seek_from_end[OF root_end_pos[OF e] k]] by simp
qed simp

declare walk_root.simps [simp del]


subsection \<open>Function names\<close>

text \<open>With a string table every name is copied out of it; without one the names are cleared,
  through a table pointer that is not refreshed first.\<close>

primrec resolve_names :: "nat \<Rightarrow> nat \<Rightarrow> lagfx_air_module \<Rightarrow> lagfx_air_module option" where
  "resolve_names 0 i m = Some m"
| "resolve_names (Suc n) i m =
     (case m_function m i of
        None \<Rightarrow> None
      | Some f \<Rightarrow>
          let st_off = fn_name_offset f; st_len = fn_name_length f in
          if st_len = 0 \<or> st_off + st_len > length (m_strtab m)
          then resolve_names n (i + 1) (m_set_function i (f\<lparr>fn_name_offset := 0\<rparr>) m)
          else let (off, m1) = arena_intern_string (take st_len (drop st_off (m_strtab m))) m
               in resolve_names n (i + 1) (m_set_function i (f\<lparr>fn_name_offset := off\<rparr>) (derive_table_ptrs m1)))"

primrec clear_names :: "nat \<Rightarrow> nat \<Rightarrow> lagfx_air_module \<Rightarrow> lagfx_air_module option" where
  "clear_names 0 i m = Some m"
| "clear_names (Suc n) i m =
     (if m_functions_moves m \<noteq> ar_moves (m_arena m) then None
      else case m_function m i of
        None \<Rightarrow> None
      | Some f \<Rightarrow> clear_names n (i + 1) (m_set_function i (f\<lparr>fn_name_offset := 0\<rparr>) m))"

definition finish_module :: "lagfx_air_module \<Rightarrow> lagfx_air_module option" where
  "finish_module m = do {
     m1 \<leftarrow> (if m_strtab m \<noteq> [] then resolve_names (m_num_functions m) 0 (derive_table_ptrs m)
           else clear_names (m_num_functions m) 0 m);
     let m2 = (if m_md_strings m1 \<noteq> [] then m_table (8 * length (m_md_strings m1)) m1 else m1);
     Some (derive_table_ptrs m2) }"

subsection \<open>Opening a module\<close>

definition kLlvmBitcodeWrapperMagic :: bytes where "kLlvmBitcodeWrapperMagic = [0xDE, 0xC0, 0x17, 0x0B]"
definition kLlvmBitstreamMagic :: bytes where "kLlvmBitstreamMagic = [0x42, 0x43, 0xC0, 0xDE]"

definition parse_wrapper :: "bytes \<Rightarrow> (nat \<times> nat) option" where
  "parse_wrapper blob =
     (if length blob < 20 then None
      else if take 4 blob \<noteq> kLlvmBitcodeWrapperMagic then None
      else do {
        body_off \<leftarrow> lagfx_le32 blob 8;
        body_len \<leftarrow> lagfx_le32 blob 12;
        if unat body_off > length blob \<or> unat body_off + unat body_len > length blob then None
        else if unat body_len < 4 \<or> take 4 (drop (unat body_off) blob) \<noteq> kLlvmBitstreamMagic then None
        else Some (unat body_off + 4, unat body_len - 4) })"

definition lagfx_air_module_open :: "bytes \<Rightarrow> lagfx_air_module air_result option" where
  "lagfx_air_module_open blob =
     (if blob = [] then Some (Air_error LAGFX_ERR_INVALID_ARG)
      else case parse_wrapper blob of
        None \<Rightarrow> Some (Air_error LAGFX_ERR_PROTOCOL)
      | Some (body_off, body_len) \<Rightarrow>
          let body = take body_len (drop body_off blob) in
          (case walk_root (air_module_new body) (lagfx_bs_init body) of
             None \<Rightarrow> None
           | Some (Air_ok m) \<Rightarrow> Some (case finish_module m of None \<Rightarrow> Air_fault | Some m1 \<Rightarrow> Air_ok m1)
           | Some r \<Rightarrow> Some r))"

subsection \<open>Function bodies\<close>

datatype air_inst_code =
    LAGFX_AIR_INST_UNKNOWN | LAGFX_AIR_INST_DECLAREBLOCKS | LAGFX_AIR_INST_BINOP | LAGFX_AIR_INST_CAST
  | LAGFX_AIR_INST_GEP_OLD | LAGFX_AIR_INST_SELECT | LAGFX_AIR_INST_EXTRACTELT | LAGFX_AIR_INST_INSERTELT
  | LAGFX_AIR_INST_SHUFFLEVEC | LAGFX_AIR_INST_CMP | LAGFX_AIR_INST_RET | LAGFX_AIR_INST_BR
  | LAGFX_AIR_INST_SWITCH | LAGFX_AIR_INST_UNREACHABLE | LAGFX_AIR_INST_PHI | LAGFX_AIR_INST_ALLOCA
  | LAGFX_AIR_INST_LOAD | LAGFX_AIR_INST_STORE_OLD | LAGFX_AIR_INST_EXTRACTVAL | LAGFX_AIR_INST_INSERTVAL
  | LAGFX_AIR_INST_CMP2 | LAGFX_AIR_INST_VSELECT | LAGFX_AIR_INST_INDIRECTBR | LAGFX_AIR_INST_DEBUG_LOC_AGAIN
  | LAGFX_AIR_INST_CALL | LAGFX_AIR_INST_DEBUG_LOC | LAGFX_AIR_INST_FENCE | LAGFX_AIR_INST_GEP
  | LAGFX_AIR_INST_STORE | LAGFX_AIR_INST_CMPXCHG | LAGFX_AIR_INST_UNOP

definition inst_codes :: "(u32 \<times> air_inst_code) list" where
  "inst_codes =
     [(1, LAGFX_AIR_INST_DECLAREBLOCKS), (2, LAGFX_AIR_INST_BINOP), (3, LAGFX_AIR_INST_CAST), (4, LAGFX_AIR_INST_GEP_OLD),
      (5, LAGFX_AIR_INST_SELECT), (6, LAGFX_AIR_INST_EXTRACTELT), (7, LAGFX_AIR_INST_INSERTELT),
      (8, LAGFX_AIR_INST_SHUFFLEVEC), (9, LAGFX_AIR_INST_CMP), (10, LAGFX_AIR_INST_RET), (11, LAGFX_AIR_INST_BR),
      (12, LAGFX_AIR_INST_SWITCH), (15, LAGFX_AIR_INST_UNREACHABLE), (16, LAGFX_AIR_INST_PHI),
      (19, LAGFX_AIR_INST_ALLOCA), (20, LAGFX_AIR_INST_LOAD), (24, LAGFX_AIR_INST_STORE_OLD),
      (26, LAGFX_AIR_INST_EXTRACTVAL), (27, LAGFX_AIR_INST_INSERTVAL), (28, LAGFX_AIR_INST_CMP2),
      (29, LAGFX_AIR_INST_VSELECT), (31, LAGFX_AIR_INST_INDIRECTBR), (33, LAGFX_AIR_INST_DEBUG_LOC_AGAIN),
      (34, LAGFX_AIR_INST_CALL), (35, LAGFX_AIR_INST_DEBUG_LOC), (36, LAGFX_AIR_INST_FENCE), (43, LAGFX_AIR_INST_GEP),
      (44, LAGFX_AIR_INST_STORE), (46, LAGFX_AIR_INST_CMPXCHG), (56, LAGFX_AIR_INST_UNOP)]"

definition classify_inst :: "u32 \<Rightarrow> air_inst_code" where
  "classify_inst raw = (case map_of inst_codes raw of None \<Rightarrow> LAGFX_AIR_INST_UNKNOWN | Some c \<Rightarrow> c)"

record lagfx_air_inst =
  inst_code :: air_inst_code
  inst_raw_code :: u32
  inst_ops :: "u64 list"

record lagfx_air_function_body = lagfx_store +
  fb_num_blocks :: u32
  fb_instructions :: "lagfx_air_inst list"
  fb_local_constants :: "lagfx_air_constant list"

definition body_constants :: "lagfx_blockinfo \<Rightarrow> nat \<Rightarrow> lagfx_air_function_body \<Rightarrow> lagfx_bitstream \<Rightarrow> (lagfx_air_function_body \<times> bool) outcome" where
  "body_constants bi w = in_block w (Some bi) (on_record (constant_step 256 False))
     (\<lambda>b. (m_table (16 * 256) b, [], 0)) (\<lambda>(b1, cs, _). b1\<lparr>fb_local_constants := cs\<rparr>) True"

definition body_record :: "lagfx_record \<Rightarrow> lagfx_air_function_body \<Rightarrow> lagfx_air_function_body" where
  "body_record r b =
     (let ops = rec_ops r; code = classify_inst (rec_code r);
          b1 = (if ops \<noteq> [] then m_table (8 * length ops) b else b);
          b2 = b1\<lparr>fb_instructions := fb_instructions b1 @ [\<lparr>inst_code = code, inst_raw_code = rec_code r, inst_ops = ops\<rparr>]\<rparr>
      in if code = LAGFX_AIR_INST_DECLAREBLOCKS \<and> ops \<noteq> [] then b2\<lparr>fb_num_blocks := ucast (hd ops)\<rparr> else b2)"

definition body_sub :: "lagfx_blockinfo \<Rightarrow> u32 \<Rightarrow> nat \<Rightarrow> lagfx_air_function_body \<Rightarrow> lagfx_bitstream \<Rightarrow> (lagfx_air_function_body \<times> bool) outcome" where
  "body_sub bi sub_id w b bs = (if sub_id = 11 then body_constants bi w b bs else skip_block w b bs)"

lemma body_sub_fwd: "sub_fwd w bs (body_sub bi i w b bs)"
  by (simp add: body_sub_def body_constants_def in_block_fwd skip_block_fwd)

lemma body_sub_go: "body_sub bi i w b bs = Ok (b', True) bs' \<Longrightarrow> fwd_to w bs bs'"
  using body_sub_fwd[of w bs bi i b] by (simp add: sub_fwd_def)

function walk_body :: "lagfx_blockinfo \<Rightarrow> lagfx_block \<Rightarrow> lagfx_air_function_body \<Rightarrow> lagfx_bitstream \<Rightarrow> lagfx_air_function_body outcome" where
  "walk_body bi blk b bs =
     (if bit_pos bs < end_pos blk then
        case lagfx_block_next_record blk bs of
          Fault \<Rightarrow> Fault
        | Fail bs1 \<Rightarrow> Ok b bs1
        | Ok (Is_end, _) bs1 \<Rightarrow> Ok b bs1
        | Ok (Is_subblock i, blk1) bs1 \<Rightarrow>
            (case body_sub bi i (abbrev_width blk) b bs1 of
               Fault \<Rightarrow> Fault
             | Fail bs2 \<Rightarrow> Fail bs2
             | Ok (b1, go) bs2 \<Rightarrow> if go then walk_body bi blk1 b1 bs2 else Ok b1 bs2)
        | Ok (Is_define_abbrev, blk1) bs1 \<Rightarrow> walk_body bi blk1 b bs1
        | Ok (Is_record r, blk1) bs1 \<Rightarrow>
            if length (fb_instructions b) \<ge> 4096 then Ok b bs1 else walk_body bi blk1 (body_record r b) bs1
      else Ok b bs)"
  by pat_completeness auto
termination
  by (relation "measure (\<lambda>(_, _, _, bs). buf_bits bs - bit_pos bs)")
     (auto dest!: next_record_fwd intro: read_progress dest: body_sub_go)

declare walk_body.simps [simp del]

definition body_new :: lagfx_air_function_body where
  "body_new = m_table (24 * 4096)
     \<lparr>m_arena = arena_init 4096, m_strings = (\<lambda>_. None), m_words = (\<lambda>_. None),
      fb_num_blocks = 0, fb_instructions = [], fb_local_constants = []\<rparr>"

text \<open>The width of the code that opens the block is fixed to three bits here; the block was
  found with the width of the module block.\<close>

definition lagfx_air_function_body_open :: "lagfx_air_module \<Rightarrow> nat \<Rightarrow> lagfx_air_function_body air_result" where
  "lagfx_air_function_body_open m fn_idx =
     (if fn_idx \<ge> m_num_functions m then Air_error LAGFX_ERR_INVALID_ARG
      else case m_function m fn_idx of
        None \<Rightarrow> Air_fault
      | Some f \<Rightarrow>
          if fn_is_proto f \<or> fn_body_offset f = 0 \<or> fn_body_length f = 0 then Air_error LAGFX_ERR_INVALID_ARG
          else case lagfx_bs_seek (fn_body_offset f) (lagfx_bs_init (m_bitstream m)) of
            Ok _ bs \<Rightarrow>
              (case lagfx_block_enter 3 (Some (m_blockinfo m)) bs of
                 Ok fb bs1 \<Rightarrow>
                   if block_id fb \<noteq> 12 then Air_error LAGFX_ERR_PROTOCOL
                   else (case walk_body (m_blockinfo m) fb body_new bs1 of
                           Ok b _ \<Rightarrow> Air_ok b | _ \<Rightarrow> Air_fault)
               | Fail _ \<Rightarrow> Air_error LAGFX_ERR_PROTOCOL
               | Fault \<Rightarrow> Air_fault)
          | _ \<Rightarrow> Air_error LAGFX_ERR_PROTOCOL)"

end
