(* ===== verification/AirFacts.thy ===== *)
theory AirFacts
  imports AirReader
begin

text \<open>
  What the bitcode reader guarantees, and where it does not: which inputs make it hang,
  when the function table can be indexed, where function bodies and names are found, and
  which pointers survive the growth of the arena.
\<close>

unbundle bit_operations_syntax

subsection \<open>Termination\<close>

text \<open>A nested block stands at the cursor: reading it leaves cursor and block as they are.\<close>

definition nested_at :: "lagfx_block \<Rightarrow> lagfx_bitstream \<Rightarrow> bool" where
  "nested_at blk bs \<longleftrightarrow> bit_pos bs < end_pos blk \<and> (\<exists>i. lagfx_block_next_record blk bs = Ok (Is_subblock i, blk) bs)"

lemma walk_symtab_nested:
  assumes "nested_at blk bs"
  shows "walk_symtab moves blk st bs = None"
proof -
  have "\<not> nested_at blk bs" if "walk_symtab moves blk st bs = Some r" for r
    using that
  proof (rule walk_symtab.raw_induct[rotated], goal_cases)
    case (1 ws moves blk st bs r)
    show ?case
    proof
      assume n: "nested_at blk bs"
      then have "ws moves blk st bs = Some r" using 1(2) by (auto simp: nested_at_def)
      then show False using 1(1) n by blast
    qed
  qed
  then show ?thesis using assms by (metis not_None_eq)
qed

text \<open>Conversely, the walk of a symbol table only hangs at a nested block.\<close>

lemma walk_symtab_None:
  "walk_symtab moves blk st bs = None \<Longrightarrow> \<exists>blk' bs'. nested_at blk' bs' \<and> fwd_to 0 bs bs' \<and>
     abbrev_width blk' = abbrev_width blk \<and> end_pos blk' = end_pos blk"
proof (induction "buf_bits bs - bit_pos bs" arbitrary: blk st bs rule: less_induct)
  case less
  have p: "bit_pos bs < end_pos blk" using less.prems by (subst (asm) walk_symtab.simps) (auto split: if_splits)
  then obtain ev blk1 bs1 where o: "lagfx_block_next_record blk bs = Ok (ev, blk1) bs1"
    using less.prems by (subst (asm) walk_symtab.simps) (auto split: outcome.splits)
  show ?case
  proof (cases "\<exists>i. ev = Is_subblock i")
    case True
    then have "nested_at blk bs" using next_record_fwd[OF o] o p by (auto simp: nested_at_def)
    then show ?thesis using fwd_to_refl by blast
  next
    case False
    then have m: "buf_bits bs1 - bit_pos bs1 < buf_bits bs - bit_pos bs" if "ev \<noteq> Is_end"
      using next_record_fwd[OF o] read_progress that by blast
    have "\<exists>st1. walk_symtab moves blk1 st1 bs1 = None \<and> ev \<noteq> Is_end"
      using less.prems p o False
      by (subst (asm) walk_symtab.simps) (cases ev; cases st; fastforce split: loop_step.splits)
    then obtain st1 where "walk_symtab moves blk1 st1 bs1 = None" "ev \<noteq> Is_end" by blast
    moreover have "abbrev_width blk1 = abbrev_width blk" "end_pos blk1 = end_pos blk"
      using next_record_fwd[OF o] by auto
    ultimately obtain blk' bs' where "nested_at blk' bs'" "fwd_to 0 bs1 bs'"
      "abbrev_width blk' = abbrev_width blk" "end_pos blk' = end_pos blk" using less.hyps[OF m] by metis
    then show ?thesis using fwd_to_trans[OF next_record_fwd0[OF o]] by fastforce
  qed
qed

text \<open>A buffer in which a block that can be entered as a symbol table contains a nested block.\<close>

definition symtab_nested :: "bytes \<Rightarrow> bool" where
  "symtab_nested buf \<longleftrightarrow> (\<exists>w bi bs vs bs1 blk bs2. bs_buf bs = buf \<and>
     lagfx_block_enter w bi bs = Ok vs bs1 \<and> block_id vs = 14 \<and>
     abbrev_width blk = abbrev_width vs \<and> end_pos blk = end_pos vs \<and> fwd_to 0 bs1 bs2 \<and> nested_at blk bs2)"

text \<open>The block id seen by the record reader is the id of the block that is entered.\<close>

lemma peek_enter:
  assumes "lagfx_block_next_record blk bs = Ok (Is_subblock i, blk') bs'" "lagfx_block_enter (abbrev_width blk) bi bs = Ok vs bs1"
  shows "block_id vs = i"
proof -
  obtain code bs0 where c: "lagfx_bs_read_bits (abbrev_width blk) bs = Ok code bs0"
    using assms(2) by (auto simp: lagfx_block_enter_def bs_bind_def split: outcome.splits)
  have p: "\<not> end_pos blk \<le> bit_pos bs" using assms(1) by (auto simp: lagfx_block_next_record_def)
  have "code = 1" using assms(2) c by (auto simp: lagfx_block_enter_def bs_bind_def bs_fail_def split: if_splits)
  then obtain b1 where "lagfx_bs_read_vbr 8 bs0 = Ok i b1"
    using assms(1) c p by (auto simp: lagfx_block_next_record_def peek_subblock_def Let_def bs_bind_def bs_return_def
        split: outcome.splits)
  then show ?thesis
    using assms(2) c \<open>code = 1\<close>
    by (auto simp: lagfx_block_enter_def read_enter_subblock_payload_def bs_bind_def bs_return_def bs_fail_def
        split: outcome.splits if_splits option.splits)
qed

lemma decode_symtab_None:
  assumes "decode_symtab (abbrev_width blk) m bs = None" "lagfx_block_next_record blk bs = Ok (Is_subblock 14, blk') bs'"
  shows "symtab_nested (bs_buf bs)"
proof -
  obtain vs bs1 where e: "lagfx_block_enter (abbrev_width blk) (Some (m_blockinfo m)) bs = Ok vs bs1"
    using assms(1) by (auto simp: decode_symtab_def split: outcome.splits)
  let ?m = "m_table (12 * 4096) m"
  have "walk_symtab (ar_moves (m_arena ?m)) vs (?m, []) bs1 = None"
    using assms(1) e by (auto simp: decode_symtab_def Let_def split: option.splits outcome.splits)
  then show ?thesis
    using walk_symtab_None e peek_enter[OF assms(2) e] unfolding symtab_nested_def by blast
qed

lemma fwd_to_buf: "fwd_to k bs bs' \<Longrightarrow> bs_buf bs' = bs_buf bs"
  by (simp add: fwd_to_def)

lemma walk_module_None: "walk_module blk st bs = None \<Longrightarrow> symtab_nested (bs_buf bs)"
proof (induction blk st bs rule: walk_module.induct)
  case (1 blk st bs)
  have p: "bit_pos bs < end_pos blk" using "1.prems" by (auto simp: walk_module.simps[of blk] split: if_splits)
  then obtain ev blk1 bs1 where o: "lagfx_block_next_record blk bs = Ok (ev, blk1) bs1"
    using "1.prems" by (auto simp: walk_module.simps[of blk] split: outcome.splits)
  note f1 = fwd_to_buf[OF next_record_fwd0[OF o]]
  show ?case
  proof (cases ev)
    case (Is_subblock i)
    have "bs1 = bs" using next_record_fwd[OF o] Is_subblock by auto
    show ?thesis
    proof (cases "sub_block i (abbrev_width blk) st bs1")
      case None
      then have "decode_symtab (abbrev_width blk) (fst st) bs1 = None" "i = 14"
        by (auto simp: sub_block_def split: prod.splits if_splits)
      then show ?thesis using decode_symtab_None o \<open>bs1 = bs\<close> Is_subblock by blast
    next
      case (Some r)
      then obtain st1 bs2 where r: "r = Ok (st1, True) bs2" "walk_module blk1 st1 bs2 = None"
        using "1.prems" p o Is_subblock by (auto simp: walk_module.simps[of blk] split: outcome.splits if_splits)
      have "symtab_nested (bs_buf bs2)"
        using "1.IH"(1)[OF p o refl Is_subblock Some r(1) refl TrueI r(2)] .
      then show ?thesis using fwd_to_buf[OF sub_block_fwd0[OF Some[unfolded r(1)]]] \<open>bs1 = bs\<close> by simp
    qed
  qed (use "1.prems" "1.IH"(2,3)[OF p o refl] p o f1 in \<open>auto simp: walk_module.simps[of blk]\<close>)
qed

lemma walk_root_None: "walk_root m bs = None \<Longrightarrow> symtab_nested (bs_buf bs)"
proof (induction m bs rule: walk_root.induct)
  case (1 m bs)
  have ne: "\<not> lagfx_bs_at_end bs" using "1.prems" by (auto simp: walk_root.simps[of m] split: if_splits)
  then obtain blk bs1 where e: "enter_root bs = Ok (Some blk) bs1"
    using "1.prems" by (auto simp: walk_root.simps[of m] split: outcome.splits option.splits)
  have b1: "bs_buf bs1 = bs_buf bs" using fwd_to_buf[OF fwdD_Ok[OF fwd_enter enter_root_Some(1)[OF e]]] .
  consider "block_id blk = 23" | "block_id blk = 8" | "block_id blk \<noteq> 23" "block_id blk \<noteq> 8" by blast
  then show ?case
  proof cases
    case 1
    then obtain m1 bs2 where w: "walk_records (on_record strtab_step) blk m bs1 = Ok m1 bs2"
      "walk_root m1 (try_seek (end_pos blk) bs2) = None"
      using "1.prems" ne e by (auto simp: walk_root.simps[of m] split: outcome.splits)
    have "bs_buf (try_seek (end_pos blk) bs2) = bs_buf bs"
      using fwd_to_buf[OF try_seek_fwd[OF root_end_pos[OF e] walk_fwd[OF w(1)]]] b1 by simp
    then show ?thesis using "1.IH"(1)[OF ne e refl 1 w(1) w(2)] by simp
  next
    case 2
    show ?thesis
    proof (cases "walk_module blk (m, 0) bs1")
      case None
      then show ?thesis using walk_module_None b1 by metis
    next
      case (Some r)
      then obtain st clean bs2 where w: "r = Ok (st, clean) bs2" "\<not> (\<not> clean \<and> bit_pos bs2 < end_pos blk)" "walk_root (fst st) bs2 = None"
        using "1.prems" ne e 2 by (auto simp: walk_root.simps[of m] split: outcome.splits if_splits)
      have "bs_buf bs2 = bs_buf bs" using fwd_to_buf[OF walk_module_fwd[OF Some[unfolded w(1)]]] b1 by simp
      moreover have "block_id blk \<noteq> 23" using 2 by simp
      ultimately show ?thesis using "1.IH"(2)[OF ne e refl _ 2 Some w(1) refl w(2,3)] by simp
    qed
  next
    case 3
    then obtain u bs2 where w: "lagfx_bs_seek (end_pos blk) bs1 = Ok u bs2" "walk_root m bs2 = None"
      using "1.prems" ne e by (auto simp: walk_root.simps[of m] split: outcome.splits)
    then show ?thesis
      using "1.IH"(3)[OF ne e refl 3 w] fwd_to_buf[OF seek_from_end[OF root_end_pos[OF e] w(1)]] b1 by simp
  qed
qed

lemma module_open_None:
  assumes "lagfx_air_module_open blob = None"
  shows "\<exists>off len. parse_wrapper blob = Some (off, len) \<and> symtab_nested (take len (drop off blob))"
proof -
  obtain off len where "parse_wrapper blob = Some (off, len)"
    "walk_root (air_module_new (take len (drop off blob))) (lagfx_bs_init (take len (drop off blob))) = None"
    using assms by (auto simp: lagfx_air_module_open_def Let_def split: if_splits option.splits air_result.splits)
  then show ?thesis using walk_root_None[of _ "lagfx_bs_init (take len (drop off blob))"] by (auto simp: lagfx_bs_init_def)
qed


subsection \<open>The function table\<close>

text \<open>The first \<open>length fs\<close> indices of the function table hold \<open>fs\<close>, and nothing was reserved since.\<close>

definition fn_table :: "lagfx_air_module \<Rightarrow> lagfx_air_function list \<Rightarrow> bool" where
  "fn_table m fs \<longleftrightarrow> wf_arena (m_arena m) \<and> m_num_functions m = length fs \<and>
     (\<forall>i < length fs. m_function m i = Some (fs ! i)) \<and>
     (fs \<noteq> [] \<longrightarrow> 8 dvd m_functions_off m \<and> ar_used (m_arena m) = m_functions_off m + sizeof_function * length fs)"

lemma m_reserve_arena:
  assumes "wf_arena (m_arena m)" "m_reserve n m = (off, m1)"
  shows "wf_arena (m_arena m1)" "8 dvd off" "0 < off" "ar_used (m_arena m) \<le> off" "ar_used (m_arena m1) = off + n"
    "m1 = m\<lparr>m_arena := m_arena m1\<rparr>"
proof -
  obtain a where a: "arena_reserve n (m_arena m) = (off, a)" "m1 = m\<lparr>m_arena := a\<rparr>"
    using assms(2) by (auto simp: m_reserve_def split: prod.splits)
  note r = arena_reserve_spec[OF assms(1) a(1)]
  show "wf_arena (m_arena m1)" "8 dvd off" "0 < off" "ar_used (m_arena m) \<le> off" "ar_used (m_arena m1) = off + n"
    "m1 = m\<lparr>m_arena := m_arena m1\<rparr>"
    using r(1-5) a(2) by simp_all
qed

lemma m_reserve_aligned: "8 dvd ar_used (m_arena m) \<Longrightarrow> m_reserve n m = (off, m1) \<Longrightarrow> off = ar_used (m_arena m)"
proof -
  assume d: "8 dvd ar_used (m_arena m)" and r: "m_reserve n m = (off, m1)"
  have "off = (ar_used (m_arena m) + 7) div 8 * 8"
    using r by (auto simp: m_reserve_def arena_reserve_def Let_def)
  then show ?thesis using d by (auto elim: dvdE)
qed

text \<open>Function records that follow each other fill the table in order.\<close>

lemma fn_table_record:
  assumes "fn_table m fs" "5 \<le> length ops"
  shows "fn_table (function_record ops m) (fs @ [function_entry ops])"
proof -
  obtain off m1 where r: "m_reserve sizeof_function m = (off, m1)" by (cases "m_reserve sizeof_function m")
  have wf: "wf_arena (m_arena m)" and num: "m_num_functions m = length fs"
    and fs: "\<And>i. i < length fs \<Longrightarrow> m_fn_cells m (m_functions_off m + sizeof_function * i) = Some (fs ! i)"
    and al: "fs \<noteq> [] \<Longrightarrow> 8 dvd m_functions_off m \<and> ar_used (m_arena m) = m_functions_off m + sizeof_function * length fs"
    using assms(1) by (auto simp: fn_table_def m_function_def)
  note a = m_reserve_arena[OF wf r]
  have m1: "m_num_functions m1 = m_num_functions m" "m_fn_cells m1 = m_fn_cells m" "m_functions_off m1 = m_functions_off m"
    by (subst a(6), simp)+
  show ?thesis
  proof (cases "fs = []")
    case True
    then show ?thesis
      using assms(2) r a m1 num by (simp add: fn_table_def function_record_def Let_def m_function_def)
  next
    case False
    have off: "off = m_functions_off m + sizeof_function * length fs"
      using m_reserve_aligned[OF _ r] al[OF False] by (simp add: sizeof_function_def dvd_add)
    show ?thesis
      using False assms(2) r a m1 num al[OF False] fs off
      by (auto simp: fn_table_def function_record_def Let_def m_function_def nth_append less_Suc_eq sizeof_function_def)
  qed
qed

lemma fn_table_records:
  "fn_table m fs \<Longrightarrow> \<forall>ops \<in> set opss. 5 \<le> length ops \<Longrightarrow>
     fn_table (foldl (\<lambda>m ops. function_record ops m) m opss) (fs @ map function_entry opss)"
proof (induction opss arbitrary: m fs)
  case (Cons ops opss)
  then show ?case using Cons.IH[OF fn_table_record[OF Cons.prems(1)]] by simp
qed simp

lemma fn_table_new: "fn_table (air_module_new body) []"
proof -
  obtain off a where "arena_reserve (length body) (arena_init 16384) = (off, a)"
    by (cases "arena_reserve (length body) (arena_init 16384)")
  then show ?thesis
    using arena_reserve_spec(1)[OF wf_arena_init, of 16384] by (auto simp: fn_table_def air_module_new_def)
qed

text \<open>A record in between that reserves arena space breaks the table.\<close>

lemma fn_table_gap:
  fixes chars :: "u64 list"
  assumes "fn_table m []" "5 \<le> length ops1" "5 \<le> length ops2"
  defines "m2 \<equiv> function_record ops2 (module_record \<lparr>rec_code = 16, rec_ops = chars, rec_blob = None\<rparr> (function_record ops1 m))"
  assumes "m_fn_cells m = (\<lambda>_. None)"
  shows "m_num_functions m2 = 2 \<and> m_function m2 1 = None"
proof -
  let ?m1 = "function_record ops1 m"
  have t1: "fn_table ?m1 [function_entry ops1]" using fn_table_record[OF assms(1,2)] by simp
  obtain o1 n1 where r1: "m_reserve sizeof_function m = (o1, n1)" by (cases "m_reserve sizeof_function m")
  have w: "wf_arena (m_arena m)" "m_num_functions m = 0" using assms(1) by (simp_all add: fn_table_def)
  note a1 = m_reserve_arena[OF w(1) r1]
  have n1: "m_num_functions n1 = 0" "m_fn_cells n1 = (\<lambda>_. None)" by (subst a1(6), simp add: w assms(5))+
  have c1: "m_fn_cells ?m1 = [o1 \<mapsto> function_entry ops1]" "m_functions_off ?m1 = o1" "m_num_functions ?m1 = 1"
    "m_arena ?m1 = m_arena n1"
    using r1 assms(2) n1 by (simp_all add: function_record_def Let_def)
  obtain o2 n2 where r2: "m_reserve (length chars + 1) ?m1 = (o2, n2)" by (cases "m_reserve (length chars + 1) ?m1")
  have "wf_arena (m_arena ?m1)" using t1 by (simp add: fn_table_def)
  note a2 = m_reserve_arena[OF this r2]
  let ?m2 = "module_record \<lparr>rec_code = 16, rec_ops = chars, rec_blob = None\<rparr> ?m1"
  have c2: "m_fn_cells ?m2 = m_fn_cells n2" "m_functions_off ?m2 = m_functions_off n2" "m_num_functions ?m2 = m_num_functions n2"
    "m_arena ?m2 = m_arena n2"
    using r2 by (simp_all add: module_record_def intern_chars_def Let_def)
  have n2: "m_fn_cells n2 = m_fn_cells ?m1" "m_functions_off n2 = o1" "m_num_functions n2 = 1"
    by (subst a2(6), simp add: c1)+
  obtain o3 n3 where r3: "m_reserve sizeof_function ?m2 = (o3, n3)" by (cases "m_reserve sizeof_function ?m2")
  have "wf_arena (m_arena ?m2)" using a2(1) c2(4) by simp
  note a3 = m_reserve_arena[OF this r3]
  have n3: "m_fn_cells n3 = m_fn_cells ?m1" "m_functions_off n3 = o1" "m_num_functions n3 = 1"
    by (subst a3(6), simp add: c2 n2)+
  have "o1 + sizeof_function < o3"
    using a1(5) a2(4,5) a3(4) c1(4) c2(4) by simp
  moreover have "0 < sizeof_function" by (simp add: sizeof_function_def)
  ultimately show ?thesis
    unfolding m2_def using r3 assms(3) n3 c1(1)
    by (simp add: function_record_def[of ops2] Let_def m_function_def)
qed


subsection \<open>Names\<close>

text \<open>Everything interned lies below the end of the arena.\<close>

definition wf_strings :: "lagfx_air_module \<Rightarrow> bool" where
  "wf_strings m \<longleftrightarrow> wf_arena (m_arena m) \<and> (\<forall>off. m_strings m off \<noteq> None \<longrightarrow> off < ar_used (m_arena m))"

lemma intern_string_spec:
  assumes "wf_strings m" "arena_intern_string b m = (off, m1)"
  shows "wf_strings m1" "0 < off" "lagfx_air_module_string m1 off = Some b"
    "\<And>o'. m_strings m o' \<noteq> None \<Longrightarrow> m_strings m1 o' = m_strings m o'"
    "ar_used (m_arena m) \<le> ar_used (m_arena m1)"
    "m_fn_cells m1 = m_fn_cells m" "m_functions_off m1 = m_functions_off m" "m_strtab m1 = m_strtab m"
    "m_num_functions m1 = m_num_functions m"
proof -
  obtain m0 where r: "m_reserve (length b + 1) m = (off, m0)" "m1 = m0\<lparr>m_strings := (m_strings m0)(off \<mapsto> b)\<rparr>"
    using assms(2) by (auto simp: arena_intern_string_def split: prod.splits)
  have w: "wf_arena (m_arena m)" and s: "\<And>o'. m_strings m o' \<noteq> None \<Longrightarrow> o' < ar_used (m_arena m)"
    using assms(1) by (auto simp: wf_strings_def)
  note a = m_reserve_arena[OF w r(1)]
  have m0: "m_strings m0 = m_strings m" "m_fn_cells m0 = m_fn_cells m" "m_functions_off m0 = m_functions_off m"
    "m_strtab m0 = m_strtab m" "m_num_functions m0 = m_num_functions m"
    by (subst a(6), simp)+
  show "0 < off" by (rule a(3))
  show "wf_strings m1" using a s r(2) m0(1) by (fastforce simp: wf_strings_def)
  show "lagfx_air_module_string m1 off = Some b" using a r(2) by (simp add: lagfx_air_module_string_def)
  show "m_strings m1 o' = m_strings m o'" if "m_strings m o' \<noteq> None" for o'
    using s[OF that] a(4) r(2) m0(1) by auto
  show "ar_used (m_arena m) \<le> ar_used (m_arena m1)" using a(4,5) r(2) by simp
  show "m_fn_cells m1 = m_fn_cells m" "m_functions_off m1 = m_functions_off m" "m_strtab m1 = m_strtab m"
    "m_num_functions m1 = m_num_functions m"
    using r(2) m0 by simp_all
qed

text \<open>What the name pass leaves of an entry: the slice of the string table, or no name.\<close>

definition named :: "bytes \<Rightarrow> lagfx_air_module \<Rightarrow> lagfx_air_function \<Rightarrow> lagfx_air_function \<Rightarrow> bool" where
  "named strtab m f f' \<longleftrightarrow> f' = f\<lparr>fn_name_offset := fn_name_offset f'\<rparr> \<and>
     lagfx_air_module_string m (fn_name_offset f') =
       (if fn_name_length f = 0 \<or> fn_name_offset f + fn_name_length f > length strtab then None
        else Some (take (fn_name_length f) (drop (fn_name_offset f) strtab)))"

lemma m_function_set:
  "m_function (m_set_function i f m) j = (if i = j then Some f else m_function m j)"
  by (auto simp: m_function_def m_set_function_def sizeof_function_def)

lemma derive_simps [simp]:
  "m_strings (derive_table_ptrs m) = m_strings m" "m_arena (derive_table_ptrs m) = m_arena m"
  "m_strtab (derive_table_ptrs m) = m_strtab m" "m_num_functions (derive_table_ptrs m) = m_num_functions m"
  "m_function (derive_table_ptrs m) i = m_function m i" "wf_strings (derive_table_ptrs m) = wf_strings m"
  by (simp_all add: derive_table_ptrs_def m_function_def wf_strings_def)

lemma set_function_simps [simp]:
  "m_strings (m_set_function i f m) = m_strings m" "m_arena (m_set_function i f m) = m_arena m"
  "m_strtab (m_set_function i f m) = m_strtab m" "m_num_functions (m_set_function i f m) = m_num_functions m"
  "wf_strings (m_set_function i f m) = wf_strings m"
  by (simp_all add: m_set_function_def wf_strings_def)

lemma string_kept:
  assumes "wf_strings m" "\<And>o'. m_strings m o' \<noteq> None \<Longrightarrow> m_strings m1 o' = m_strings m o'"
    and "ar_used (m_arena m) \<le> ar_used (m_arena m1)" "lagfx_air_module_string m off = Some b"
  shows "lagfx_air_module_string m1 off = Some b"
  using assms by (auto simp: lagfx_air_module_string_def wf_strings_def split: if_splits)

lemma resolve_names_spec:
  assumes "wf_strings m" "\<And>j. j < i + n \<Longrightarrow> m_function m j \<noteq> None"
  shows "\<exists>m'. resolve_names n i m = Some m' \<and> wf_strings m' \<and> m_strtab m' = m_strtab m \<and>
     (\<forall>o'. m_strings m o' \<noteq> None \<longrightarrow> m_strings m' o' = m_strings m o') \<and> ar_used (m_arena m) \<le> ar_used (m_arena m') \<and>
     (\<forall>j. j < i \<or> i + n \<le> j \<longrightarrow> m_function m' j = m_function m j) \<and>
     (\<forall>j. i \<le> j \<and> j < i + n \<longrightarrow> (\<exists>f'. m_function m' j = Some f' \<and> named (m_strtab m) m' (the (m_function m j)) f'))"
  using assms
proof (induction n arbitrary: i m)
  case (Suc n)
  obtain f where f: "m_function m i = Some f" using Suc.prems(2)[of i] by auto
  let ?l = "fn_name_length f" and ?o = "fn_name_offset f"
  define off m1 where "off = (if ?l = 0 \<or> ?o + ?l > length (m_strtab m) then 0 else fst (arena_intern_string (take ?l (drop ?o (m_strtab m))) m))"
    and "m1 = (if ?l = 0 \<or> ?o + ?l > length (m_strtab m) then m else derive_table_ptrs (snd (arena_intern_string (take ?l (drop ?o (m_strtab m))) m)))"
  let ?m2 = "m_set_function i (f\<lparr>fn_name_offset := off\<rparr>) m1"
  have step: "resolve_names (Suc n) i m = resolve_names n (i + 1) ?m2"
    using f by (simp add: off_def m1_def Let_def split: prod.splits)
  have sp: "wf_strings m1" "m_strtab m1 = m_strtab m" "\<And>o'. m_strings m o' \<noteq> None \<Longrightarrow> m_strings m1 o' = m_strings m o'"
    "ar_used (m_arena m) \<le> ar_used (m_arena m1)" "\<And>j. m_function m1 j = m_function m j"
    "lagfx_air_module_string m1 off = (if ?l = 0 \<or> ?o + ?l > length (m_strtab m) then None else Some (take ?l (drop ?o (m_strtab m))))"
  proof -
    let ?none = "?l = 0 \<or> ?o + ?l > length (m_strtab m)"
    obtain off0 m0 where i: "arena_intern_string (take ?l (drop ?o (m_strtab m))) m = (off0, m0)"
      by (cases "arena_intern_string (take ?l (drop ?o (m_strtab m))) m")
    note sp0 = intern_string_spec[OF Suc.prems(1) i]
    have e: "off = (if ?none then 0 else off0)" "m1 = (if ?none then m else derive_table_ptrs m0)"
      using i by (simp_all add: off_def m1_def)
    have fn: "m_function m0 j = m_function m j" for j using sp0(6,7) by (simp add: m_function_def)
    have str: "lagfx_air_module_string (derive_table_ptrs m0) off0 = lagfx_air_module_string m0 off0"
      by (simp add: lagfx_air_module_string_def)
    show "wf_strings m1" "m_strtab m1 = m_strtab m" "ar_used (m_arena m) \<le> ar_used (m_arena m1)"
      "\<And>j. m_function m1 j = m_function m j" "\<And>o'. m_strings m o' \<noteq> None \<Longrightarrow> m_strings m1 o' = m_strings m o'"
      using Suc.prems(1) sp0 fn unfolding e(2) by auto
    show "lagfx_air_module_string m1 off = (if ?none then None else Some (take ?l (drop ?o (m_strtab m))))"
      unfolding e using sp0(3) str by (auto simp: lagfx_air_module_string_def)
  qed
  have "m_function ?m2 j \<noteq> None" if "j < i + 1 + n" for j
    using Suc.prems(2)[of j] that sp(5) by (auto simp: m_function_set)
  note ih = Suc.IH[of ?m2 "i + 1", OF _ this, unfolded set_function_simps, OF sp(1)]
  obtain m' where m': "resolve_names n (i + 1) ?m2 = Some m'" "wf_strings m'" "m_strtab m' = m_strtab m1"
    "\<And>o'. m_strings m1 o' \<noteq> None \<Longrightarrow> m_strings m' o' = m_strings m1 o'" "ar_used (m_arena m1) \<le> ar_used (m_arena m')"
    "\<And>j. j < i + 1 \<or> i + 1 + n \<le> j \<Longrightarrow> m_function m' j = m_function ?m2 j"
    "\<And>j. i + 1 \<le> j \<and> j < i + 1 + n \<Longrightarrow> \<exists>f'. m_function m' j = Some f' \<and> named (m_strtab m1) m' (the (m_function ?m2 j)) f'"
    using ih by blast
  have here: "named (m_strtab m) m' f (f\<lparr>fn_name_offset := off\<rparr>)"
  proof -
    have "lagfx_air_module_string m' off = lagfx_air_module_string m1 off"
    proof (cases "lagfx_air_module_string m1 off")
      case None
      then have "?l = 0 \<or> ?o + ?l > length (m_strtab m)" using sp(6) by (auto split: if_splits)
      then have "off = 0" by (simp add: off_def)
      then show ?thesis by (simp add: lagfx_air_module_string_def)
    next
      case (Some b)
      then show ?thesis using string_kept[OF sp(1) m'(4,5) Some] by simp
    qed
    then show ?thesis using sp(6) by (simp add: named_def)
  qed
  have "\<exists>f'. m_function m' j = Some f' \<and> named (m_strtab m) m' (the (m_function m j)) f'" if "i \<le> j" "j < i + Suc n" for j
  proof (cases "j = i")
    case True
    then show ?thesis using m'(6)[of i] here f by (simp add: m_function_set)
  next
    case False
    then show ?thesis using m'(7)[of j] that sp(2,5) by (simp add: m_function_set)
  qed
  moreover have "m_function m' j = m_function m j" if "j < i \<or> i + Suc n \<le> j" for j
    using m'(6)[of j] that sp(5) by (auto simp: m_function_set)
  moreover have "m_strings m' o' = m_strings m o'" if "m_strings m o' \<noteq> None" for o'
    using sp(3)[OF that] m'(4)[of o'] that by simp
  ultimately show ?case
    using m'(1-3,5) sp(2,4) step by (intro exI[of _ m']) auto
qed auto


subsection \<open>Faults of the block layer\<close>

lemma faultless_read_unabbrev: "faultless read_unabbrev"
  unfolding read_unabbrev_def by (auto intro!: faultless_bind faultless_repeat)

lemma faultless_peek: "faultless (peek_subblock w)"
  unfolding faultless_def peek_subblock_def Let_def
proof
  fix bs
  show "bs_bind (lagfx_bs_read_vbr 8) (\<lambda>blockid. bs_bind (lagfx_bs_seek (bit_pos bs - w)) (\<lambda>_. bs_return blockid)) bs \<noteq> Fault"
    using faultless_reads(2)[of 8]
    by (simp add: faultless_def bs_bind_def bs_return_def lagfx_bs_seek_def split: outcome.split)
qed

lemma next_record_fault:
  assumes "lagfx_block_next_record blk bs = Fault"
  shows "huge_array LAGFX_RECORD_MAX_OPS bs"
proof -
  have p: "\<not> end_pos blk \<le> bit_pos bs" using assms by (auto simp: lagfx_block_next_record_def)
  obtain code bs0 where c: "lagfx_bs_read_bits (abbrev_width blk) bs = Ok code bs0"
    using assms p faultless_reads(1)[of "abbrev_width blk"]
    by (auto simp: lagfx_block_next_record_def faultless_def elim!: bind_FaultE)
  have nf: "bs_bind m (\<lambda>x. bs_return (g x)) bs0 \<noteq> Fault" if "faultless m" for m :: "'x bsr" and g :: "'x \<Rightarrow> block_event \<times> lagfx_block"
    using faultless_bind[OF that faultless_basic(1)] unfolding faultless_def by blast
  have "lagfx_abbrev_decode_record (blk_abbrevs blk) code LAGFX_RECORD_MAX_OPS bs0 = Fault"
  proof (rule ccontr)
    assume d: "\<not> ?thesis"
    have "bs_bind (lagfx_abbrev_decode_record (blk_abbrevs blk) code LAGFX_RECORD_MAX_OPS) (\<lambda>(c, ops, blob).
              bs_return (Is_record \<lparr>rec_code = c, rec_ops = ops, rec_blob = blob\<rparr>, blk)) bs0 \<noteq> Fault"
      using d by (auto simp: bs_bind_def bs_return_def split: outcome.split prod.split)
    then show False
      using assms p c nf[OF faultless_basic(3), of "\<lambda>_. (Is_end, blk)"] nf[OF faultless_peek] nf[OF faultless_define] nf[OF faultless_read_unabbrev]
      by (auto simp: lagfx_block_next_record_def bs_bind_def[of "lagfx_bs_read_bits _"] split: if_splits)
  qed
  from decode_record_fault[OF this] have "huge_array LAGFX_RECORD_MAX_OPS bs0" by (simp add: LAGFX_RECORD_MAX_OPS_def)
  then show ?thesis using huge_array_later[OF _ fwdD_Ok[OF fwd_read_bits c]] by blast
qed

lemma walk_records_fault:
  "walk_records f blk st bs = Fault \<Longrightarrow> (\<And>ev blk st. f ev blk st \<noteq> Crash) \<Longrightarrow> huge_array LAGFX_RECORD_MAX_OPS bs"
proof (induction f blk st bs rule: walk_records.induct)
  case (1 f blk st bs)
  have p: "bit_pos bs < end_pos blk" using "1.prems"(1) by (auto simp: walk_records.simps[of f blk] split: if_splits)
  show ?case
  proof (cases "lagfx_block_next_record blk bs")
    case (Ok q bs1)
    obtain ev blk1 where q: "q = (ev, blk1)" by (cases q)
    note later = huge_array_later[OF _ next_record_fwd0[OF Ok[unfolded q]]]
    show ?thesis
    proof (cases ev)
      case (Is_subblock i)
      obtain bs2 where "lagfx_block_skip (abbrev_width blk) bs1 = Ok () bs2 \<or> lagfx_block_skip (abbrev_width blk) bs1 = Fail bs2"
        "walk_records f blk1 st bs2 = Fault"
        using "1.prems"(1) p Ok q Is_subblock faultless_skip[of "abbrev_width blk"]
        by (auto simp: walk_records.simps[of f blk] faultless_def split: outcome.splits)
      then show ?thesis
        using "1.IH"(1,2)[OF p Ok q[symmetric] Is_subblock] "1.prems"(2) huge_array_later[OF _ skip_fwd0] later by metis
    qed (use "1.prems" "1.IH"(3,4)[OF p Ok q[symmetric]] p Ok q later in
          \<open>auto simp: walk_records.simps[of f blk] split: loop_step.splits\<close>)
  qed (use "1.prems"(1) p next_record_fault in \<open>auto simp: walk_records.simps[of f blk]\<close>)
qed


lemma walk_records_no_fail: "walk_records f blk st bs \<noteq> Fail x"
proof (induction f blk st bs rule: walk_records.induct)
  case (1 f blk st bs)
  then show ?case
    by (subst walk_records.simps) (auto split: outcome.splits prod.splits block_event.splits loop_step.splits)
qed

lemma constant_step_safe: "on_record (constant_step cap strings) ev blk st \<noteq> Crash"
  by (cases st; cases ev) (auto simp: on_record_def constant_step_def add_constant_def Let_def split: prod.splits)

lemma body_sub_fault: "body_sub bi i w b bs = Fault \<Longrightarrow> huge_array LAGFX_RECORD_MAX_OPS bs"
proof -
  assume f: "body_sub bi i w b bs = Fault"
  have "lagfx_block_skip w bs \<noteq> Fault" "lagfx_block_enter w (Some bi) bs \<noteq> Fault"
    using faultless_skip faultless_enter by (simp_all add: faultless_def)
  then obtain blk bs1 where e: "lagfx_block_enter w (Some bi) bs = Ok blk bs1"
    "walk_records (on_record (constant_step 256 False)) blk (m_table (16 * 256) b, [], 0) bs1 = Fault"
    using f by (auto simp: body_sub_def body_constants_def in_block_def skip_block_def split: if_splits outcome.splits)
  show "huge_array LAGFX_RECORD_MAX_OPS bs"
    using walk_records_fault[OF e(2) constant_step_safe] huge_array_later[OF _ fwdD_Ok[OF fwd_enter e(1)]] by blast
qed

lemma walk_body_total:
  "(\<exists>b' bs'. walk_body bi blk b bs = Ok b' bs') \<or> walk_body bi blk b bs = Fault \<and> huge_array LAGFX_RECORD_MAX_OPS bs"
proof (induction bi blk b bs rule: walk_body.induct)
  case (1 bi blk b bs)
  show ?case
  proof (cases "bit_pos bs < end_pos blk")
    case True
    show ?thesis
    proof (cases "lagfx_block_next_record blk bs")
      case (Ok q bs1)
      obtain ev blk1 where q: "q = (ev, blk1)" by (cases q)
      note later = huge_array_later[OF _ next_record_fwd0[OF Ok[unfolded q]]]
      show ?thesis
      proof (cases ev)
        case (Is_subblock i)
        have nf: "body_sub bi i (abbrev_width blk) b bs1 \<noteq> Fail x" for x
          by (auto simp: body_sub_def body_constants_def in_block_def skip_block_def walk_records_no_fail split: outcome.splits)
        show ?thesis
        proof (cases "body_sub bi i (abbrev_width blk) b bs1")
          case (Ok r bs2)
          obtain b1 go where r: "r = (b1, go)" by (cases r)
          have s: "fwd_to 0 bs1 bs2"
            using body_sub_fwd[of "abbrev_width blk" bs1 bi i b] Ok r by (auto simp: sub_fwd_def intro: fwd_to_weaken split: if_splits)
          show ?thesis
            using "1.IH"(1)[OF True \<open>lagfx_block_next_record blk bs = _\<close> q[symmetric] Is_subblock Ok r[symmetric]]
              True \<open>lagfx_block_next_record blk bs = _\<close> q Is_subblock Ok r later[OF huge_array_later[OF _ s]]
            by (cases go) (auto simp: walk_body.simps[of bi blk b bs])
        next
          case Fault
          then show ?thesis
            using body_sub_fault later True Ok q Is_subblock by (auto simp: walk_body.simps[of bi blk b bs])
        qed (use nf in blast)
      qed (use "1.IH"(2,3)[OF True Ok q[symmetric]] True Ok q later in \<open>auto simp: walk_body.simps[of bi blk b bs]\<close>)
    qed (use True next_record_fault in \<open>auto simp: walk_body.simps[of bi blk b bs]\<close>)
  qed (simp add: walk_body.simps[of bi blk b bs])
qed


subsection \<open>Recorded function bodies can be reopened\<close>

lemma payload_no_abbrevs: "read_enter_subblock_payload bs = Ok blk bs' \<Longrightarrow> blk_abbrevs blk = []"
  by (auto simp: read_enter_subblock_payload_def bs_bind_def bs_fail_def split: outcome.splits if_splits)

lemma enter_with_info:
  assumes "lagfx_block_enter w None bs = Ok blk bs1" "list_all (\<lambda>t. length t \<le> 64) bi"
  shows "\<exists>t. lagfx_block_enter w (Some bi) bs = Ok (blk\<lparr>blk_abbrevs := t\<rparr>) bs1"
proof -
  have e: "blk_abbrevs blk = []"
    using assms(1) payload_no_abbrevs by (auto simp: lagfx_block_enter_def bs_bind_def bs_return_def bs_fail_def split: outcome.splits if_splits)
  have "length (bi ! unat (block_id blk)) \<le> 64" if "unat (block_id blk) < length bi"
    using assms(2) that by (simp add: list_all_length)
  then have "(case Some bi of
         None \<Rightarrow> bs_return blk
       | Some bi \<Rightarrow>
           if unat (block_id blk) < length bi
           then (case lagfx_abbrev_table_copy (blk_abbrevs blk) (bi ! unat (block_id blk)) of
                   None \<Rightarrow> bs_fail | Some t \<Rightarrow> bs_return (blk\<lparr>blk_abbrevs := t\<rparr>))
           else bs_return blk) bs1 =
      Ok (blk\<lparr>blk_abbrevs := if unat (block_id blk) < length bi then bi ! unat (block_id blk) else []\<rparr>) bs1"
    using e by (auto simp: lagfx_abbrev_table_copy_def LAGFX_ABBREV_MAX_PER_BLOCK_def bs_return_def)
  then show ?thesis
    using assms(1) by (auto simp: lagfx_block_enter_def bs_bind_def bs_return_def bs_fail_def split: outcome.splits if_splits)
qed

lemma skip_protos_sound:
  "skip_protos m n = Some i \<Longrightarrow> i < m_num_functions m \<Longrightarrow> \<exists>f. m_function m i = Some f \<and> \<not> fn_is_proto f"
proof (induction m n rule: skip_protos.induct)
  case (1 m n)
  show ?case
  proof (cases "n < m_num_functions m")
    case True
    then obtain f where f: "m_function m n = Some f"
      using "1.prems"(1) by (subst (asm) skip_protos.simps) (auto split: option.splits)
    then show ?thesis
      using "1.prems" "1.IH"[OF True f] True by (subst (asm) skip_protos.simps) (auto split: if_splits)
  next
    case False
    then have "n = i" using "1.prems"(1) by (subst (asm) skip_protos.simps) simp
    then show ?thesis using False "1.prems"(2) by simp
  qed
qed

lemma function_body_reopens:
  assumes "lagfx_block_next_record blk bs = Ok (Is_subblock 12, blk) bs" "abbrev_width blk = 3"
    and "function_block 3 (m, n) bs = Ok ((m', n'), True) bs'"
    and "skip_protos (derive_table_ptrs m) n = Some i" "i < m_num_functions m"
    and "bs_buf bs = m_bitstream m" "0 < bit_pos bs" "list_all (\<lambda>t. length t \<le> 64) (m_blockinfo m)"
  shows "\<exists>f. m_function m' i = Some f \<and> fn_body_offset f = bit_pos bs \<and> fn_body_offset f + fn_body_length f = bit_pos bs' \<and>
     ((\<exists>b. lagfx_air_function_body_open m' i = Air_ok b) \<or> huge_array LAGFX_RECORD_MAX_OPS bs)"
proof -
  obtain f where f: "m_function m i = Some f" "\<not> fn_is_proto f" using skip_protos_sound[OF assms(4)] assms(5) by auto
  let ?m = "derive_table_ptrs m" and ?f = "f\<lparr>fn_body_offset := bit_pos bs, fn_body_length := bit_pos bs' - bit_pos bs\<rparr>"
  have sk: "lagfx_block_skip 3 bs = Ok () bs'" and m': "m' = m_set_function i ?f ?m"
    using assms(3) assms(4,5) f(1) unfolding function_block_def Let_def prod.case
    by (cases "lagfx_block_skip 3 bs"; simp)+
  have len: "bit_pos bs + 3 \<le> bit_pos bs'" using skip_Ok[OF sk] by (simp add: fwd_to_def)
  obtain fb bs1 where e: "lagfx_block_enter 3 None bs = Ok fb bs1"
    using sk by (auto simp: lagfx_block_skip_def bs_bind_def split: outcome.splits)
  have i12: "block_id fb = 12" using peek_enter[OF assms(1), of None fb bs1] assms(2) e by simp
  obtain t where t: "lagfx_block_enter 3 (Some (m_blockinfo m)) bs = Ok (fb\<lparr>blk_abbrevs := t\<rparr>) bs1"
    using enter_with_info[OF e assms(8)] by blast
  have mm: "m_function m' i = Some ?f" "m_bitstream m' = m_bitstream m" "m_blockinfo m' = m_blockinfo m"
    "m_num_functions m' = m_num_functions m"
    by (simp_all add: m' m_function_set) (simp_all add: m_set_function_def derive_table_ptrs_def)
  have "bit_pos bs \<le> buf_bits bs"
    using e by (auto simp: lagfx_block_enter_def bs_bind_def dest!: read_bits_advances split: outcome.splits)
  then have seek: "lagfx_bs_seek (bit_pos bs) (lagfx_bs_init (m_bitstream m)) = Ok () bs"
    using assms(6) by (simp add: lagfx_bs_seek_def lagfx_bs_init_def buf_bits_def)
  have open_eq: "lagfx_air_function_body_open m' i =
      (case walk_body (m_blockinfo m) (fb\<lparr>blk_abbrevs := t\<rparr>) body_new bs1 of Ok b _ \<Rightarrow> Air_ok b | _ \<Rightarrow> Air_fault)"
    using mm f(2) assms(5,7) len i12 t seek by (simp add: lagfx_air_function_body_open_def)
  have "(\<exists>b. lagfx_air_function_body_open m' i = Air_ok b) \<or> huge_array LAGFX_RECORD_MAX_OPS bs"
    using walk_body_total[of "m_blockinfo m" "fb\<lparr>blk_abbrevs := t\<rparr>" body_new bs1]
  proof (elim disjE exE conjE)
    assume "huge_array LAGFX_RECORD_MAX_OPS bs1"
    then show ?thesis using huge_array_later[OF _ fwdD_Ok[OF fwd_enter e]] by blast
  qed (simp add: open_eq)
  then show ?thesis using mm(1) len by (intro exI[of _ ?f]) simp
qed

subsection \<open>Pointers that do not survive\<close>

text \<open>The operand pointer of a metadata record is valid while the arena stays where it was.\<close>

definition md_valid :: "lagfx_air_module \<Rightarrow> lagfx_air_metadata \<Rightarrow> bool" where
  "md_valid m md \<longleftrightarrow> md_operands md = [] \<or> md_moves md = ar_moves (m_arena m)"

lemma finish_dangles:
  assumes "wf_arena (m_arena m)" "m_strtab m = []" "m_num_functions m = 0" "m_md_strings m \<noteq> []"
    and "md \<in> set (m_metadata m)" "md_valid m md" "md_operands md \<noteq> []"
    and "ar_capacity (m_arena m) < (ar_used (m_arena m) + 7) div 8 * 8 + 8 * length (m_md_strings m)"
  shows "\<exists>m'. finish_module m = Some m' \<and> md \<in> set (m_metadata m') \<and> \<not> md_valid m' md"
proof -
  obtain off a where a: "arena_reserve (8 * length (m_md_strings m)) (m_arena m) = (off, a)"
    by (cases "arena_reserve (8 * length (m_md_strings m)) (m_arena m)")
  have "off = (ar_used (m_arena m) + 7) div 8 * 8" using a by (auto simp: arena_reserve_def Let_def)
  then have "ar_moves a = ar_moves (m_arena m) + 1"
    using arena_reserve_spec(6)[OF assms(1) a] assms(8) by simp
  moreover have "finish_module m = Some (derive_table_ptrs (m\<lparr>m_arena := a\<rparr>))"
    using a assms(2-4) by (simp add: finish_module_def m_table_def m_reserve_def)
  ultimately show ?thesis
    using assms(5-7) by (simp add: md_valid_def derive_table_ptrs_def)
qed

subsection \<open>Signed constants\<close>

text \<open>The encoding of signed numbers: the sign goes to the lowest bit.\<close>

definition sign_rotate :: "u64 \<Rightarrow> u64" where
  "sign_rotate v = (if bit v 63 then push_bit 1 (- v) OR 1 else push_bit 1 v)"

lemma top_bit: "bit (w :: u64) 63 \<longleftrightarrow> 2 ^ 63 \<le> unat w"
proof -
  have "unat w < 2 ^ 64" using unat_bound[of w] by simp
  then consider "unat w < 2 ^ 63" | "2 ^ 63 \<le> unat w" "unat w - 2 ^ 63 < 2 ^ 63"
    by (cases "unat w < 2 ^ 63") auto
  moreover have "bit w 63 \<longleftrightarrow> odd (unat w div 2 ^ 63)"
    unfolding bit_iff_odd[of "unat w", symmetric] by (simp add: bit_unsigned_iff)
  ultimately show ?thesis
  proof cases
    case 2
    then have "unat w div 2 ^ 63 = 1" by (simp add: le_div_geq)
    then show ?thesis using 2 \<open>bit w 63 \<longleftrightarrow> _\<close> by simp
  qed simp
qed

lemma rotate_drop:
  fixes x :: u64
  assumes "\<not> bit x 63"
  shows "drop_bit 1 (push_bit 1 x OR 1) = x" "drop_bit 1 (push_bit 1 x) = x"
proof -
  have "bit (drop_bit 1 (push_bit 1 x OR 1)) j = bit x j" "bit (drop_bit 1 (push_bit 1 x)) j = bit x j" if "j < LENGTH(64)" for j
    using assms that by (cases "j = 63"; auto simp: bit_drop_bit_eq bit_or_iff bit_push_bit_iff bit_1_iff
        simp del: push_bit_Suc dest: bit_imp_le_length)+
  then show "drop_bit 1 (push_bit 1 x OR 1) = x" "drop_bit 1 (push_bit 1 x) = x" by (auto intro: bit_word_eqI)
qed

lemma rotate_sign: "(push_bit 1 x OR 1) AND 1 = (1 :: u64)" "push_bit 1 x AND 1 = (0 :: u64)"
  by (rule bit_word_eqI; simp only: bit_and_iff bit_or_iff bit_push_bit_iff bit_1_iff; auto)+

lemma sign_rotated_inverse:
  assumes "v \<noteq> push_bit 63 1"
  shows "sign_rotated (sign_rotate v) = v"
proof (cases "bit v 63")
  case True
  have "unat v \<noteq> 2 ^ 63" using assms by (auto simp: word_unat_eq_iff)
  then have g: "2 ^ 63 < unat v" using True by (auto simp: top_bit)
  have "of_nat (2 ^ 64 - unat v) = (of_nat (2 ^ 64) - of_nat (unat v) :: u64)"
    using unat_bound[of v] by (intro of_nat_diff) simp
  then have "- v = of_nat (2 ^ 64 - unat v)" by simp
  then have "unat (- v) = 2 ^ 64 - unat v" using g by (simp only:) (rule unat_of_nat_small, simp)
  then have n: "\<not> bit (- v) 63" using g by (simp add: top_bit)
  show ?thesis
    using True unfolding sign_rotated_def sign_rotate_def rotate_sign rotate_drop(1)[OF n] by (simp only: if_True rotate_sign rotate_drop(1)[OF n]) simp
next
  case False
  then show ?thesis
    unfolding sign_rotated_def sign_rotate_def by (simp only: if_False rotate_sign rotate_drop(2)[OF False]) simp
qed

text \<open>The most negative number, which the format writes as minus zero, is read as zero.\<close>

lemma sign_rotated_min: "sign_rotated 1 = 0"
  by (simp add: sign_rotated_def)

end
