(* ===== verification/SpvValid.thy ===== *)
theory SpvValid
  imports SpvFacts
begin

text \<open>
  The rules of the SPIR-V specification for the instructions the reference shaders use: a type
  checker over the decoded instructions, the order of the logical layout, the structure of
  functions and blocks, and the decorations Vulkan asks of interface variables.  It is the
  specification against which \<open>ReferenceShaders\<close> checks the modules the library emits.
\<close>

unbundle bit_operations_syntax

subsection \<open>Types and identifiers\<close>

datatype spv_type =
    Ty_void
  | Ty_bool
  | Ty_int bool
  | Ty_float
  | Ty_vector spv_type nat
  | Ty_image spv_type u32
  | Ty_sampler
  | Ty_sampled_image spv_type
  | Ty_struct "spv_type list"
  | Ty_pointer u32 spv_type
  | Ty_function spv_type

text \<open>What an id stands for; a scalar constant carries its value.\<close>

datatype spv_entity = Type_id spv_type | Value_id spv_type "u32 option" | Label_id | Function_id | Ext_set_id

type_synonym spv_env = "(u32 \<times> spv_entity) list"

definition type_at :: "spv_env \<Rightarrow> u32 \<Rightarrow> spv_type option" where
  "type_at env i = (case map_of env i of Some (Type_id t) \<Rightarrow> Some t | _ \<Rightarrow> None)"

definition value_at :: "spv_env \<Rightarrow> u32 \<Rightarrow> spv_type option" where
  "value_at env i = (case map_of env i of Some (Value_id t _) \<Rightarrow> Some t | _ \<Rightarrow> None)"

definition const_at :: "spv_env \<Rightarrow> u32 \<Rightarrow> u32 option" where
  "const_at env i = (case map_of env i of Some (Value_id _ v) \<Rightarrow> v | _ \<Rightarrow> None)"

text \<open>Ids are positive, below the bound and defined once.\<close>

definition define_id :: "u32 \<Rightarrow> spv_env \<Rightarrow> u32 \<times> spv_entity \<Rightarrow> spv_env option" where
  "define_id bound env x = (if fst x \<noteq> 0 \<and> fst x < bound \<and> map_of env (fst x) = None then Some (x # env) else None)"

fun is_scalar :: "spv_type \<Rightarrow> bool" where
  "is_scalar Ty_bool = True" | "is_scalar (Ty_int _) = True" | "is_scalar Ty_float = True" | "is_scalar _ = False"

fun is_float :: "spv_type \<Rightarrow> bool" where
  "is_float Ty_float = True" | "is_float (Ty_vector t _) = (t = Ty_float)" | "is_float _ = False"

fun is_int :: "spv_type \<Rightarrow> bool" where
  "is_int (Ty_int _) = True" | "is_int _ = False"

subsection \<open>Declarations\<close>

definition type_def :: "spv_env \<Rightarrow> u32 \<Rightarrow> words \<Rightarrow> (u32 \<times> spv_type) option" where
  "type_def env opc args =
     (if opc = 19 then (case args of [r] \<Rightarrow> Some (r, Ty_void) | _ \<Rightarrow> None)
      else if opc = 20 then (case args of [r] \<Rightarrow> Some (r, Ty_bool) | _ \<Rightarrow> None)
      else if opc = 21 then (case args of [r, w, s] \<Rightarrow> if w = 32 \<and> s \<le> 1 then Some (r, Ty_int (s = 1)) else None | _ \<Rightarrow> None)
      else if opc = 22 then (case args of [r, w] \<Rightarrow> if w = 32 then Some (r, Ty_float) else None | _ \<Rightarrow> None)
      else if opc = 23 then (case args of [r, c, n] \<Rightarrow>
        (case type_at env c of Some t \<Rightarrow> if is_scalar t \<and> 2 \<le> n \<and> n \<le> 4 then Some (r, Ty_vector t (unat n)) else None | None \<Rightarrow> None)
        | _ \<Rightarrow> None)
      else if opc = 25 then (case args of [r, t, dim, depth, arrayed, ms, sampled, fmt] \<Rightarrow>
        (case type_at env t of Some s \<Rightarrow> if is_scalar s \<and> sampled \<le> 2 \<and> (sampled = 2 \<longrightarrow> fmt \<noteq> 0) then Some (r, Ty_image s sampled) else None
         | None \<Rightarrow> None)
        | _ \<Rightarrow> None)
      else if opc = 26 then (case args of [r] \<Rightarrow> Some (r, Ty_sampler) | _ \<Rightarrow> None)
      else if opc = 27 then (case args of [r, i] \<Rightarrow>
        (case type_at env i of Some (Ty_image s m) \<Rightarrow> if m \<noteq> 2 then Some (r, Ty_sampled_image (Ty_image s m)) else None | _ \<Rightarrow> None)
        | _ \<Rightarrow> None)
      else if opc = 30 then (case args of r # ms \<Rightarrow> map_option (\<lambda>ts. (r, Ty_struct ts)) (those (map (type_at env) ms)) | _ \<Rightarrow> None)
      else if opc = 32 then (case args of [r, sc, t] \<Rightarrow> map_option (\<lambda>ty. (r, Ty_pointer sc ty)) (type_at env t) | _ \<Rightarrow> None)
      else if opc = 33 then (case args of [r, t] \<Rightarrow> map_option (\<lambda>ty. (r, Ty_function ty)) (type_at env t) | _ \<Rightarrow> None)
      else None)"

definition const_def :: "spv_env \<Rightarrow> u32 \<Rightarrow> words \<Rightarrow> (u32 \<times> spv_entity) option" where
  "const_def env opc args =
     (if opc = 43 then (case args of [t, r, v] \<Rightarrow>
        (case type_at env t of Some ty \<Rightarrow> if is_int ty \<or> ty = Ty_float then Some (r, Value_id ty (Some v)) else None | None \<Rightarrow> None)
        | _ \<Rightarrow> None)
      else if opc = 44 then (case args of t # r # cs \<Rightarrow>
        (case type_at env t of Some (Ty_vector e n) \<Rightarrow>
           if length cs = n \<and> list_all (\<lambda>c. value_at env c = Some e \<and> const_at env c \<noteq> None) cs
           then Some (r, Value_id (Ty_vector e n) None) else None
         | _ \<Rightarrow> None)
        | _ \<Rightarrow> None)
      else None)"

text \<open>A variable of a storage class, 7 being that of functions.\<close>

definition var_def :: "spv_env \<Rightarrow> words \<Rightarrow> (u32 \<times> u32 \<times> spv_entity) option" where
  "var_def env args = (case args of [t, r, sc] \<Rightarrow>
     (case type_at env t of Some (Ty_pointer s ty) \<Rightarrow> if s = sc then Some (r, sc, Value_id (Ty_pointer s ty) None) else None | _ \<Rightarrow> None)
     | _ \<Rightarrow> None)"

subsection \<open>Instructions with a result\<close>

fun chain_type :: "spv_env \<Rightarrow> spv_type \<Rightarrow> words \<Rightarrow> spv_type option" where
  "chain_type env t [] = Some t"
| "chain_type env (Ty_struct ts) (i # is) =
     (case const_at env i of Some v \<Rightarrow> if unat v < length ts then chain_type env (ts ! unat v) is else None | None \<Rightarrow> None)"
| "chain_type env (Ty_vector t n) (i # is) =
     (case value_at env i of Some ty \<Rightarrow> if is_int ty then chain_type env t is else None | None \<Rightarrow> None)"
| "chain_type env _ _ = None"

text \<open>The type of the result; an operation on values of one type, or on an image.\<close>

definition binary_type :: "spv_env \<Rightarrow> (spv_type \<Rightarrow> bool) \<Rightarrow> words \<Rightarrow> spv_type option" where
  "binary_type env ok xs = (case xs of [a, b] \<Rightarrow>
     (case (value_at env a, value_at env b) of (Some s, Some t) \<Rightarrow> if s = t \<and> ok s then Some s else None | _ \<Rightarrow> None)
     | _ \<Rightarrow> None)"

definition image_type :: "spv_env \<Rightarrow> u32 \<Rightarrow> words \<Rightarrow> spv_type option" where
  "image_type env opc xs = (case xs of [a, b] \<Rightarrow>
     (case (value_at env a, value_at env b) of
        (Some (Ty_image s m), Some Ty_sampler) \<Rightarrow> if opc = 86 \<and> m \<noteq> 2 then Some (Ty_sampled_image (Ty_image s m)) else None
      | (Some (Ty_sampled_image (Ty_image s m)), Some (Ty_vector Ty_float n)) \<Rightarrow> if opc = 87 then Some (Ty_vector s 4) else None
      | (Some (Ty_image s m), Some (Ty_vector (Ty_int sg) n)) \<Rightarrow> if opc = 98 \<and> m = 2 then Some (Ty_vector s 4) else None
      | _ \<Rightarrow> None)
     | _ \<Rightarrow> None)"

definition vector_type :: "spv_env \<Rightarrow> spv_type \<Rightarrow> u32 \<Rightarrow> words \<Rightarrow> spv_type option" where
  "vector_type env t opc xs =
     (if opc = 79 then (case xs of a # b # ns \<Rightarrow>
        (case (value_at env a, value_at env b) of (Some (Ty_vector s n), Some (Ty_vector s' m)) \<Rightarrow>
           if s = s' \<and> list_all (\<lambda>i. unat i < n + m) ns then Some (Ty_vector s (length ns)) else None
         | _ \<Rightarrow> None)
        | _ \<Rightarrow> None)
      else if opc = 80 then (case t of Ty_vector s n \<Rightarrow>
        if length xs = n \<and> list_all (\<lambda>x. value_at env x = Some s) xs then Some t else None | _ \<Rightarrow> None)
      else if opc = 81 then (case xs of [c, i] \<Rightarrow>
        (case value_at env c of Some (Ty_vector s n) \<Rightarrow> if unat i < n then Some s else None | _ \<Rightarrow> None)
        | _ \<Rightarrow> None)
      else None)"

definition result_type :: "spv_env \<Rightarrow> spv_type \<Rightarrow> u32 \<Rightarrow> words \<Rightarrow> spv_type option" where
  "result_type env t opc xs =
     (if opc = 61 then (case xs of [p] \<Rightarrow> (case value_at env p of Some (Ty_pointer _ ty) \<Rightarrow> Some ty | _ \<Rightarrow> None) | _ \<Rightarrow> None)
      else if opc = 65 then (case xs of p # is \<Rightarrow>
        (case value_at env p of Some (Ty_pointer sc ty) \<Rightarrow> map_option (Ty_pointer sc) (chain_type env ty is) | _ \<Rightarrow> None)
        | _ \<Rightarrow> None)
      else if opc \<in> {79, 80, 81} then vector_type env t opc xs
      else if opc \<in> {86, 87, 98} then image_type env opc xs
      else if opc = 112 then (case xs of [x] \<Rightarrow> (case value_at env x of Some (Ty_int _) \<Rightarrow> Some Ty_float | _ \<Rightarrow> None) | _ \<Rightarrow> None)
      else if opc = 127 then (case xs of [x] \<Rightarrow>
        (case value_at env x of Some ty \<Rightarrow> if is_float ty then Some ty else None | None \<Rightarrow> None) | _ \<Rightarrow> None)
      else if opc = 128 then binary_type env is_int xs
      else if opc \<in> {129, 131, 133, 136} then binary_type env is_float xs
      else if opc = 148 then
        (case binary_type env is_float xs of Some (Ty_vector _ _) \<Rightarrow> Some Ty_float | _ \<Rightarrow> None)
      else if opc = 177 then (case binary_type env is_int xs of Some _ \<Rightarrow> Some Ty_bool | None \<Rightarrow> None)
      else if opc = 186 then (case binary_type env (\<lambda>ty. ty = Ty_float) xs of Some _ \<Rightarrow> Some Ty_bool | None \<Rightarrow> None)
      else if opc = 12 then (case xs of set_id # inst # ys \<Rightarrow>
        if map_of env set_id = Some Ext_set_id \<and> inst \<in> {4, 31} \<and> is_float t \<and> map (value_at env) ys = [Some t] then Some t else None
        | _ \<Rightarrow> None)
      else None)"

definition result_def :: "spv_env \<Rightarrow> u32 \<Rightarrow> words \<Rightarrow> (u32 \<times> spv_entity) option" where
  "result_def env opc args = (case args of t # r # xs \<Rightarrow>
     (case type_at env t of Some ty \<Rightarrow> if result_type env ty opc xs = Some ty then Some (r, Value_id ty None) else None | None \<Rightarrow> None)
     | _ \<Rightarrow> None)"

text \<open>Stores, into memory that may be written.\<close>

definition effect_ok :: "spv_env \<Rightarrow> u32 \<Rightarrow> words \<Rightarrow> bool" where
  "effect_ok env opc args =
     (if opc = 62 then (case args of [p, v] \<Rightarrow>
        (case value_at env p of Some (Ty_pointer sc ty) \<Rightarrow> sc \<notin> {0, 1, 2} \<and> value_at env v = Some ty | _ \<Rightarrow> False) | _ \<Rightarrow> False)
      else if opc = 99 then (case args of [i, c, x] \<Rightarrow>
        (case (value_at env i, value_at env c) of
           (Some (Ty_image s m), Some (Ty_vector (Ty_int sg) n)) \<Rightarrow> m = 2 \<and> value_at env x = Some (Ty_vector s 4)
         | _ \<Rightarrow> False) | _ \<Rightarrow> False)
      else False)"

subsection \<open>The part before the functions\<close>

definition globals_step :: "u32 \<Rightarrow> u32 \<times> words \<Rightarrow> spv_env \<Rightarrow> spv_env option" where
  "globals_step bound = (\<lambda>(opc, args) env.
     if opc \<in> {14, 15, 16, 17, 71, 72} then Some env
     else if opc = 11 then (case args of r # _ \<Rightarrow> define_id bound env (r, Ext_set_id) | _ \<Rightarrow> None)
     else if opc = 59 then (case var_def env args of Some (r, sc, e) \<Rightarrow> if sc \<noteq> 7 then define_id bound env (r, e) else None | None \<Rightarrow> None)
     else if opc \<in> {43, 44} then Option.bind (const_def env opc args) (define_id bound env)
     else Option.bind (type_def env opc args) (\<lambda>(r, t). define_id bound env (r, Type_id t)))"

text \<open>The position of an instruction in the logical layout.\<close>

definition layout_rank :: "u32 \<Rightarrow> nat" where
  "layout_rank opc =
     (if opc = 17 then 0 else if opc = 11 then 1 else if opc = 14 then 2 else if opc = 15 then 3
      else if opc = 16 then 4 else if opc \<in> {71, 72} then 5 else 6)"

subsection \<open>Functions and blocks\<close>

text \<open>Inside a block: may local variables or phis still come; behind a merge instruction only a
  branch may come.\<close>

datatype block_state = Outside | Expect_label bool | In_block bool bool | After_merge

definition terminator_ok :: "spv_env \<Rightarrow> u32 \<Rightarrow> words \<Rightarrow> bool" where
  "terminator_ok env opc args =
     (opc = 249 \<and> length args = 1 \<or>
      opc = 250 \<and> length args = 3 \<and> value_at env (args ! 0) = Some Ty_bool \<or> opc = 253 \<and> args = [])"

definition block_step :: "u32 \<Rightarrow> u32 \<times> words \<Rightarrow> spv_env \<times> block_state \<Rightarrow> (spv_env \<times> block_state) option" where
  "block_step bound = (\<lambda>(opc, args) (env, st).
     case st of
       Outside \<Rightarrow>
         (if opc = 54 then (case args of [t, r, ctl, ft] \<Rightarrow>
            (case (type_at env t, type_at env ft) of
               (Some ty, Some (Ty_function ret)) \<Rightarrow>
                 if ty = ret then map_option (\<lambda>e. (e, Expect_label True)) (define_id bound env (r, Function_id)) else None
             | _ \<Rightarrow> None)
            | _ \<Rightarrow> None)
          else None)
     | Expect_label first \<Rightarrow>
         (if opc = 248 then (case args of [r] \<Rightarrow> map_option (\<lambda>e. (e, In_block first (\<not> first))) (define_id bound env (r, Label_id)) | _ \<Rightarrow> None)
          else if opc = 56 \<and> args = [] \<and> \<not> first then Some (env, Outside) else None)
     | After_merge \<Rightarrow> if opc \<in> {249, 250} \<and> terminator_ok env opc args then Some (env, Expect_label False) else None
     | In_block vars phis \<Rightarrow>
         (if opc \<in> {249, 250, 253} then if terminator_ok env opc args then Some (env, Expect_label False) else None
          else if opc = 246 then if length args = 3 then Some (env, After_merge) else None
          else if opc = 247 then if length args = 2 then Some (env, After_merge) else None
          else if opc \<in> {62, 99} then if effect_ok env opc args then Some (env, In_block False False) else None
          else if opc = 59 then (case var_def env args of Some (r, sc, e) \<Rightarrow>
            if sc = 7 \<and> vars then map_option (\<lambda>x. (x, In_block vars phis)) (define_id bound env (r, e)) else None | None \<Rightarrow> None)
          else if opc = 245 then (case args of t # r # ps \<Rightarrow>
            (case type_at env t of Some ty \<Rightarrow>
               if phis then map_option (\<lambda>x. (x, In_block False phis)) (define_id bound env (r, Value_id ty None)) else None
             | None \<Rightarrow> None) | _ \<Rightarrow> None)
          else Option.bind (result_def env opc args) (\<lambda>x. map_option (\<lambda>e. (e, In_block False False)) (define_id bound env x))))"

fun walk_all :: "('i \<Rightarrow> 's \<Rightarrow> 's option) \<Rightarrow> 'i list \<Rightarrow> 's \<Rightarrow> 's option" where
  "walk_all f [] s = Some s"
| "walk_all f (x # xs) s = Option.bind (f x s) (walk_all f xs)"

subsection \<open>References checked at the end\<close>

fun pairs :: "'a list \<Rightarrow> ('a \<times> 'a) list" where
  "pairs (a # b # xs) = (a, b) # pairs xs"
| "pairs _ = []"

text \<open>Labels of branches and merges, incoming values of phis, targets of decorations.\<close>

definition refs_ok :: "spv_env \<Rightarrow> u32 \<times> words \<Rightarrow> bool" where
  "refs_ok env = (\<lambda>(opc, args).
     let label = (\<lambda>l. map_of env l = Some Label_id) in
     if opc = 249 then list_all label args
     else if opc = 250 then list_all label (drop 1 args)
     else if opc = 246 then list_all label (take 2 args)
     else if opc = 247 then list_all label (take 1 args)
     else if opc = 245 then even (length args) \<and>
       list_all (\<lambda>(v, l). value_at env v \<noteq> None \<and> value_at env v = type_at env (args ! 0) \<and> label l) (pairs (drop 2 args))
     else if opc \<in> {71, 72} then args \<noteq> [] \<and> map_of env (args ! 0) \<noteq> None
     else if opc = 16 then args \<noteq> [] \<and> map_of env (args ! 0) = Some Function_id
     else True)"

text \<open>The operands behind the name of an entry point: the name ends in the word with a zero byte.\<close>

definition has_zero_byte :: "u32 \<Rightarrow> bool" where
  "has_zero_byte w \<longleftrightarrow> 0 \<in> set (le_bytes32 w)"

definition entry_interface :: "words \<Rightarrow> words" where
  "entry_interface args = drop 1 (dropWhile (\<lambda>w. \<not> has_zero_byte w) (drop 2 args))"

definition instrs_with :: "u32 \<Rightarrow> (u32 \<times> words) list \<Rightarrow> words list" where
  "instrs_with opc is = map snd (filter (\<lambda>x. fst x = opc) is)"

definition decorated :: "(u32 \<times> words) list \<Rightarrow> u32 \<Rightarrow> u32 \<Rightarrow> bool" where
  "decorated is target dec = list_ex (\<lambda>args. 2 \<le> length args \<and> args ! 0 = target \<and> args ! 1 = dec) (instrs_with 71 is)"

text \<open>Inputs and outputs have a location or are built in, resources have a set and a binding.\<close>

definition var_decorated :: "(u32 \<times> words) list \<Rightarrow> words \<Rightarrow> bool" where
  "var_decorated is args =
     (if args ! 2 \<in> {1, 3} then decorated is (args ! 1) 30 \<or> decorated is (args ! 1) 11
      else decorated is (args ! 1) 34 \<and> decorated is (args ! 1) 33)"

definition entry_ok :: "spv_env \<Rightarrow> (u32 \<times> words) list \<Rightarrow> words list \<Rightarrow> words \<Rightarrow> bool" where
  "entry_ok env is vars args =
     (2 \<le> length args \<and> map_of env (args ! 1) = Some Function_id \<and>
      list_all (\<lambda>v. v ! 1 \<in> set (entry_interface args) \<and> var_decorated is v) vars \<and>
      list_all (\<lambda>i. i \<in> set (map (\<lambda>v. v ! 1) vars)) (entry_interface args) \<and>
      distinct (entry_interface args) \<and>
      (args ! 0 = 4 \<longrightarrow> list_ex (\<lambda>m. m = [args ! 1, 7]) (instrs_with 16 is)) \<and>
      (args ! 0 = 5 \<longrightarrow> list_ex (\<lambda>m. take 2 m = [args ! 1, 17] \<and> length m = 5) (instrs_with 16 is)))"

subsection \<open>Valid modules\<close>

definition spirv_valid :: "u32 \<Rightarrow> (u32 \<times> words) list \<Rightarrow> bool" where
  "spirv_valid bound is =
     (let pre = takeWhile (\<lambda>x. fst x \<noteq> 54) is; vars = instrs_with 59 pre in
      sorted (map (\<lambda>x. layout_rank (fst x)) pre) \<and>
      [1] \<in> set (instrs_with 17 pre) \<and> instrs_with 14 pre = [[0, 1]] \<and>
      (case Option.bind (walk_all (globals_step bound) pre [])
              (\<lambda>env. walk_all (block_step bound) (dropWhile (\<lambda>x. fst x \<noteq> 54) is) (env, Outside)) of
         Some (env, Outside) \<Rightarrow>
           list_all (refs_ok env) is \<and> length (instrs_with 15 pre) = 1 \<and> list_all (entry_ok env is vars) (instrs_with 15 pre)
       | _ \<Rightarrow> False))"

end
