(* ===== verification/ReferenceShaders.thy ===== *)
theory ReferenceShaders
  imports SpvValid EntryRewrite Metallib
begin

text \<open>
  The reference shaders of \<^verbatim>\<open>src/air2spv/emit_*.c\<close>: each function writes one fixed module with the
  builder, instruction by instruction.  A shader is the optional byte string it returns;
  \<^const>\<open>None\<close> is a builder call that does not return or stores outside its allocation.  The
  theory shows that every one of them returns a module that satisfies the rules of \<open>SpvValid\<close>.
\<close>

unbundle bit_operations_syntax

subsection \<open>Constants of the instruction set\<close>

text \<open>Opcodes, enumerants and the bit patterns of the single-precision literals.\<close>

abbreviation (input) f32_0 :: u32 where "f32_0 \<equiv> 0x00000000"
abbreviation (input) f32_0_1 :: u32 where "f32_0_1 \<equiv> 0x3dcccccd"
abbreviation (input) f32_0_2 :: u32 where "f32_0_2 \<equiv> 0x3e4ccccd"
abbreviation (input) f32_0_3 :: u32 where "f32_0_3 \<equiv> 0x3e99999a"
abbreviation (input) f32_0_5 :: u32 where "f32_0_5 \<equiv> 0x3f000000"
abbreviation (input) f32_0_6 :: u32 where "f32_0_6 \<equiv> 0x3f19999a"
abbreviation (input) f32_0_8 :: u32 where "f32_0_8 \<equiv> 0x3f4ccccd"
abbreviation (input) f32_1 :: u32 where "f32_1 \<equiv> 0x3f800000"
abbreviation (input) f32_2 :: u32 where "f32_2 \<equiv> 0x40000000"
abbreviation (input) f32_4 :: u32 where "f32_4 \<equiv> 0x40800000"
abbreviation (input) f32_9 :: u32 where "f32_9 \<equiv> 0x41100000"
abbreviation (input) f32_16 :: u32 where "f32_16 \<equiv> 0x41800000"
abbreviation (input) f32_minus_0_2 :: u32 where "f32_minus_0_2 \<equiv> 0xbe4ccccd"
abbreviation (input) f32_minus_0_4 :: u32 where "f32_minus_0_4 \<equiv> 0xbecccccd"
abbreviation (input) LAGFX_SPV_CAPABILITY_SHADER :: u32 where "LAGFX_SPV_CAPABILITY_SHADER \<equiv> 1"
abbreviation (input) LAGFX_SPV_OP_CAPABILITY :: u32 where "LAGFX_SPV_OP_CAPABILITY \<equiv> 17"
abbreviation (input) LAGFX_SPV_ADDRESSING_MODEL_LOGICAL :: u32 where "LAGFX_SPV_ADDRESSING_MODEL_LOGICAL \<equiv> 0"
abbreviation (input) LAGFX_SPV_MEMORY_MODEL_GLSL450 :: u32 where "LAGFX_SPV_MEMORY_MODEL_GLSL450 \<equiv> 1"
abbreviation (input) LAGFX_SPV_OP_MEMORY_MODEL :: u32 where "LAGFX_SPV_OP_MEMORY_MODEL \<equiv> 14"
abbreviation (input) LAGFX_SPV_EXECUTION_MODEL_FRAGMENT :: u32 where "LAGFX_SPV_EXECUTION_MODEL_FRAGMENT \<equiv> 4"
abbreviation (input) LAGFX_SPV_OP_ENTRY_POINT :: u32 where "LAGFX_SPV_OP_ENTRY_POINT \<equiv> 15"
abbreviation (input) LAGFX_SPV_EXECUTION_MODE_ORIGIN_UPPER_LEFT :: u32 where "LAGFX_SPV_EXECUTION_MODE_ORIGIN_UPPER_LEFT \<equiv> 7"
abbreviation (input) LAGFX_SPV_OP_EXECUTION_MODE :: u32 where "LAGFX_SPV_OP_EXECUTION_MODE \<equiv> 16"
abbreviation (input) LAGFX_SPV_DECORATION_LOCATION :: u32 where "LAGFX_SPV_DECORATION_LOCATION \<equiv> 30"
abbreviation (input) LAGFX_SPV_OP_DECORATE :: u32 where "LAGFX_SPV_OP_DECORATE \<equiv> 71"
abbreviation (input) LAGFX_SPV_OP_TYPE_VOID :: u32 where "LAGFX_SPV_OP_TYPE_VOID \<equiv> 19"
abbreviation (input) LAGFX_SPV_OP_TYPE_FLOAT :: u32 where "LAGFX_SPV_OP_TYPE_FLOAT \<equiv> 22"
abbreviation (input) LAGFX_SPV_OP_TYPE_VECTOR :: u32 where "LAGFX_SPV_OP_TYPE_VECTOR \<equiv> 23"
abbreviation (input) LAGFX_SPV_STORAGE_OUTPUT :: u32 where "LAGFX_SPV_STORAGE_OUTPUT \<equiv> 3"
abbreviation (input) LAGFX_SPV_OP_TYPE_POINTER :: u32 where "LAGFX_SPV_OP_TYPE_POINTER \<equiv> 32"
abbreviation (input) LAGFX_SPV_OP_TYPE_FUNCTION :: u32 where "LAGFX_SPV_OP_TYPE_FUNCTION \<equiv> 33"
abbreviation (input) LAGFX_SPV_OP_CONSTANT :: u32 where "LAGFX_SPV_OP_CONSTANT \<equiv> 43"
abbreviation (input) LAGFX_SPV_OP_CONSTANT_COMPOSITE :: u32 where "LAGFX_SPV_OP_CONSTANT_COMPOSITE \<equiv> 44"
abbreviation (input) LAGFX_SPV_OP_VARIABLE :: u32 where "LAGFX_SPV_OP_VARIABLE \<equiv> 59"
abbreviation (input) LAGFX_SPV_FUNCTION_CONTROL_NONE :: u32 where "LAGFX_SPV_FUNCTION_CONTROL_NONE \<equiv> 0"
abbreviation (input) LAGFX_SPV_OP_FUNCTION :: u32 where "LAGFX_SPV_OP_FUNCTION \<equiv> 54"
abbreviation (input) LAGFX_SPV_OP_LABEL :: u32 where "LAGFX_SPV_OP_LABEL \<equiv> 248"
abbreviation (input) LAGFX_SPV_OP_FADD :: u32 where "LAGFX_SPV_OP_FADD \<equiv> 129"
abbreviation (input) LAGFX_SPV_OP_FSUB :: u32 where "LAGFX_SPV_OP_FSUB \<equiv> 131"
abbreviation (input) LAGFX_SPV_OP_FDIV :: u32 where "LAGFX_SPV_OP_FDIV \<equiv> 136"
abbreviation (input) LAGFX_SPV_OP_DOT :: u32 where "LAGFX_SPV_OP_DOT \<equiv> 148"
abbreviation (input) LAGFX_SPV_OP_STORE :: u32 where "LAGFX_SPV_OP_STORE \<equiv> 62"
abbreviation (input) LAGFX_SPV_OP_RETURN :: u32 where "LAGFX_SPV_OP_RETURN \<equiv> 253"
abbreviation (input) LAGFX_SPV_OP_FUNCTION_END :: u32 where "LAGFX_SPV_OP_FUNCTION_END \<equiv> 56"
abbreviation (input) LAGFX_SPV_EXECUTION_MODEL_VERTEX :: u32 where "LAGFX_SPV_EXECUTION_MODEL_VERTEX \<equiv> 0"
abbreviation (input) LAGFX_SPV_DECORATION_BLOCK :: u32 where "LAGFX_SPV_DECORATION_BLOCK \<equiv> 2"
abbreviation (input) LAGFX_SPV_DECORATION_OFFSET :: u32 where "LAGFX_SPV_DECORATION_OFFSET \<equiv> 35"
abbreviation (input) LAGFX_SPV_OP_MEMBER_DECORATE :: u32 where "LAGFX_SPV_OP_MEMBER_DECORATE \<equiv> 72"
abbreviation (input) LAGFX_SPV_DECORATION_DESCRIPTOR_SET :: u32 where "LAGFX_SPV_DECORATION_DESCRIPTOR_SET \<equiv> 34"
abbreviation (input) LAGFX_SPV_DECORATION_BINDING :: u32 where "LAGFX_SPV_DECORATION_BINDING \<equiv> 33"
abbreviation (input) LAGFX_SPV_DECORATION_BUILTIN :: u32 where "LAGFX_SPV_DECORATION_BUILTIN \<equiv> 11"
abbreviation (input) LAGFX_SPV_BUILTIN_POSITION :: u32 where "LAGFX_SPV_BUILTIN_POSITION \<equiv> 0"
abbreviation (input) LAGFX_SPV_OP_TYPE_INT :: u32 where "LAGFX_SPV_OP_TYPE_INT \<equiv> 21"
abbreviation (input) LAGFX_SPV_OP_TYPE_STRUCT :: u32 where "LAGFX_SPV_OP_TYPE_STRUCT \<equiv> 30"
abbreviation (input) LAGFX_SPV_STORAGE_UNIFORM :: u32 where "LAGFX_SPV_STORAGE_UNIFORM \<equiv> 2"
abbreviation (input) LAGFX_SPV_OP_ACCESS_CHAIN :: u32 where "LAGFX_SPV_OP_ACCESS_CHAIN \<equiv> 65"
abbreviation (input) LAGFX_SPV_OP_LOAD :: u32 where "LAGFX_SPV_OP_LOAD \<equiv> 61"
abbreviation (input) LAGFX_SPV_OP_FMUL :: u32 where "LAGFX_SPV_OP_FMUL \<equiv> 133"
abbreviation (input) LAGFX_SPV_OP_TYPE_BOOL :: u32 where "LAGFX_SPV_OP_TYPE_BOOL \<equiv> 20"
abbreviation (input) LAGFX_SPV_STORAGE_INPUT :: u32 where "LAGFX_SPV_STORAGE_INPUT \<equiv> 1"
abbreviation (input) LAGFX_SPV_OP_COMPOSITE_EXTRACT :: u32 where "LAGFX_SPV_OP_COMPOSITE_EXTRACT \<equiv> 81"
abbreviation (input) LAGFX_SPV_OP_FORD_GREATER_THAN :: u32 where "LAGFX_SPV_OP_FORD_GREATER_THAN \<equiv> 186"
abbreviation (input) LAGFX_SPV_SELECTION_CONTROL_NONE :: u32 where "LAGFX_SPV_SELECTION_CONTROL_NONE \<equiv> 0"
abbreviation (input) LAGFX_SPV_OP_SELECTION_MERGE :: u32 where "LAGFX_SPV_OP_SELECTION_MERGE \<equiv> 247"
abbreviation (input) LAGFX_SPV_OP_BRANCH_CONDITIONAL :: u32 where "LAGFX_SPV_OP_BRANCH_CONDITIONAL \<equiv> 250"
abbreviation (input) LAGFX_SPV_OP_BRANCH :: u32 where "LAGFX_SPV_OP_BRANCH \<equiv> 249"
abbreviation (input) LAGFX_SPV_OP_PHI :: u32 where "LAGFX_SPV_OP_PHI \<equiv> 245"
abbreviation (input) LAGFX_SPV_OP_EXT_INST_IMPORT :: u32 where "LAGFX_SPV_OP_EXT_INST_IMPORT \<equiv> 11"
abbreviation (input) LAGFX_SPV_GLSL_SQRT :: u32 where "LAGFX_SPV_GLSL_SQRT \<equiv> 31"
abbreviation (input) LAGFX_SPV_OP_EXT_INST :: u32 where "LAGFX_SPV_OP_EXT_INST \<equiv> 12"
abbreviation (input) LAGFX_SPV_OP_COMPOSITE_CONSTRUCT :: u32 where "LAGFX_SPV_OP_COMPOSITE_CONSTRUCT \<equiv> 80"
abbreviation (input) LAGFX_SPV_STORAGE_FUNCTION :: u32 where "LAGFX_SPV_STORAGE_FUNCTION \<equiv> 7"
abbreviation (input) LAGFX_SPV_LOOP_CONTROL_NONE :: u32 where "LAGFX_SPV_LOOP_CONTROL_NONE \<equiv> 0"
abbreviation (input) LAGFX_SPV_OP_LOOP_MERGE :: u32 where "LAGFX_SPV_OP_LOOP_MERGE \<equiv> 246"
abbreviation (input) LAGFX_SPV_OP_SLESS_THAN :: u32 where "LAGFX_SPV_OP_SLESS_THAN \<equiv> 177"
abbreviation (input) LAGFX_SPV_OP_IADD :: u32 where "LAGFX_SPV_OP_IADD \<equiv> 128"
abbreviation (input) LAGFX_SPV_CAPABILITY_STORAGE_IMAGE_EXTENDED_FORMATS :: u32 where "LAGFX_SPV_CAPABILITY_STORAGE_IMAGE_EXTENDED_FORMATS \<equiv> 49"
abbreviation (input) LAGFX_SPV_EXECUTION_MODEL_GLCOMPUTE :: u32 where "LAGFX_SPV_EXECUTION_MODEL_GLCOMPUTE \<equiv> 5"
abbreviation (input) LAGFX_SPV_EXECUTION_MODE_LOCAL_SIZE :: u32 where "LAGFX_SPV_EXECUTION_MODE_LOCAL_SIZE \<equiv> 17"
abbreviation (input) LAGFX_SPV_DIM_2D :: u32 where "LAGFX_SPV_DIM_2D \<equiv> 1"
abbreviation (input) LAGFX_SPV_IMAGE_FORMAT_RGBA8 :: u32 where "LAGFX_SPV_IMAGE_FORMAT_RGBA8 \<equiv> 4"
abbreviation (input) LAGFX_SPV_OP_TYPE_IMAGE :: u32 where "LAGFX_SPV_OP_TYPE_IMAGE \<equiv> 25"
abbreviation (input) LAGFX_SPV_STORAGE_UNIFORM_CONSTANT :: u32 where "LAGFX_SPV_STORAGE_UNIFORM_CONSTANT \<equiv> 0"
abbreviation (input) LAGFX_SPV_OP_IMAGE_READ :: u32 where "LAGFX_SPV_OP_IMAGE_READ \<equiv> 98"
abbreviation (input) LAGFX_SPV_OP_IMAGE_WRITE :: u32 where "LAGFX_SPV_OP_IMAGE_WRITE \<equiv> 99"
abbreviation (input) LAGFX_SPV_IMAGE_FORMAT_UNKNOWN :: u32 where "LAGFX_SPV_IMAGE_FORMAT_UNKNOWN \<equiv> 0"
abbreviation (input) LAGFX_SPV_OP_TYPE_SAMPLER :: u32 where "LAGFX_SPV_OP_TYPE_SAMPLER \<equiv> 26"
abbreviation (input) LAGFX_SPV_OP_TYPE_SAMPLED_IMAGE :: u32 where "LAGFX_SPV_OP_TYPE_SAMPLED_IMAGE \<equiv> 27"
abbreviation (input) LAGFX_SPV_OP_SAMPLED_IMAGE :: u32 where "LAGFX_SPV_OP_SAMPLED_IMAGE \<equiv> 86"
abbreviation (input) LAGFX_SPV_OP_IMAGE_SAMPLE_IMPLICIT_LOD :: u32 where "LAGFX_SPV_OP_IMAGE_SAMPLE_IMPLICIT_LOD \<equiv> 87"
abbreviation (input) LAGFX_SPV_OP_FNEGATE :: u32 where "LAGFX_SPV_OP_FNEGATE \<equiv> 127"
abbreviation (input) LAGFX_SPV_GLSL_FABS :: u32 where "LAGFX_SPV_GLSL_FABS \<equiv> 4"
abbreviation (input) LAGFX_SPV_OP_VECTOR_SHUFFLE :: u32 where "LAGFX_SPV_OP_VECTOR_SHUFFLE \<equiv> 79"
abbreviation (input) LAGFX_SPV_BUILTIN_VERTEX_INDEX :: u32 where "LAGFX_SPV_BUILTIN_VERTEX_INDEX \<equiv> 42"
abbreviation (input) LAGFX_SPV_OP_CONVERT_U_TO_F :: u32 where "LAGFX_SPV_OP_CONVERT_U_TO_F \<equiv> 112"

subsection \<open>The shaders\<close>

definition lagfx_air2spv_emit_alu_binops_stub :: "bytes option" where
  "lagfx_air2spv_emit_alu_binops_stub = do {
     let b = lagfx_spv_builder_create 128;
     b \<leftarrow> lagfx_spv_builder_emit_op LAGFX_SPV_OP_CAPABILITY [LAGFX_SPV_CAPABILITY_SHADER] b;
     b \<leftarrow> lagfx_spv_builder_emit_op LAGFX_SPV_OP_MEMORY_MODEL [LAGFX_SPV_ADDRESSING_MODEL_LOGICAL, LAGFX_SPV_MEMORY_MODEL_GLSL450] b;
     let (id_void, b) = lagfx_spv_builder_alloc_id b;
     let (id_float, b) = lagfx_spv_builder_alloc_id b;
     let (id_v4float, b) = lagfx_spv_builder_alloc_id b;
     let (id_ptr_out, b) = lagfx_spv_builder_alloc_id b;
     let (id_fn_void, b) = lagfx_spv_builder_alloc_id b;
     let (id_c_0, b) = lagfx_spv_builder_alloc_id b;
     let (id_c_06, b) = lagfx_spv_builder_alloc_id b;
     let (id_c_02, b) = lagfx_spv_builder_alloc_id b;
     let (id_c_01, b) = lagfx_spv_builder_alloc_id b;
     let (id_c_20, b) = lagfx_spv_builder_alloc_id b;
     let (id_c_1, b) = lagfx_spv_builder_alloc_id b;
     let (id_a, b) = lagfx_spv_builder_alloc_id b;
     let (id_b, b) = lagfx_spv_builder_alloc_id b;
     let (id_c, b) = lagfx_spv_builder_alloc_id b;
     let (id_d, b) = lagfx_spv_builder_alloc_id b;
     let (id_sum, b) = lagfx_spv_builder_alloc_id b;
     let (id_diff, b) = lagfx_spv_builder_alloc_id b;
     let (id_quot, b) = lagfx_spv_builder_alloc_id b;
     let (id_dotv, b) = lagfx_spv_builder_alloc_id b;
     let (id_color, b) = lagfx_spv_builder_alloc_id b;
     let (id_main, b) = lagfx_spv_builder_alloc_id b;
     let (id_entry, b) = lagfx_spv_builder_alloc_id b;
     b \<leftarrow> lagfx_spv_builder_emit_op_string LAGFX_SPV_OP_ENTRY_POINT [LAGFX_SPV_EXECUTION_MODEL_FRAGMENT, id_main] (ascii ''main'') [id_color] b;
     b \<leftarrow> lagfx_spv_builder_emit_op LAGFX_SPV_OP_EXECUTION_MODE [id_main, LAGFX_SPV_EXECUTION_MODE_ORIGIN_UPPER_LEFT] b;
     b \<leftarrow> lagfx_spv_builder_emit_op LAGFX_SPV_OP_DECORATE [id_color, LAGFX_SPV_DECORATION_LOCATION, 0] b;
     b \<leftarrow> lagfx_spv_builder_emit_op LAGFX_SPV_OP_TYPE_VOID [id_void] b;
     b \<leftarrow> lagfx_spv_builder_emit_op LAGFX_SPV_OP_TYPE_FLOAT [id_float, 32] b;
     b \<leftarrow> lagfx_spv_builder_emit_op LAGFX_SPV_OP_TYPE_VECTOR [id_v4float, id_float, 4] b;
     b \<leftarrow> lagfx_spv_builder_emit_op LAGFX_SPV_OP_TYPE_POINTER [id_ptr_out, LAGFX_SPV_STORAGE_OUTPUT, id_v4float] b;
     b \<leftarrow> lagfx_spv_builder_emit_op LAGFX_SPV_OP_TYPE_FUNCTION [id_fn_void, id_void] b;
     b \<leftarrow> lagfx_spv_builder_emit_op LAGFX_SPV_OP_CONSTANT [id_float, id_c_0, f32_0] b;
     b \<leftarrow> lagfx_spv_builder_emit_op LAGFX_SPV_OP_CONSTANT [id_float, id_c_06, f32_0_6] b;
     b \<leftarrow> lagfx_spv_builder_emit_op LAGFX_SPV_OP_CONSTANT [id_float, id_c_02, f32_0_2] b;
     b \<leftarrow> lagfx_spv_builder_emit_op LAGFX_SPV_OP_CONSTANT [id_float, id_c_01, f32_0_1] b;
     b \<leftarrow> lagfx_spv_builder_emit_op LAGFX_SPV_OP_CONSTANT [id_float, id_c_20, f32_2] b;
     b \<leftarrow> lagfx_spv_builder_emit_op LAGFX_SPV_OP_CONSTANT [id_float, id_c_1, f32_1] b;
     b \<leftarrow> lagfx_spv_builder_emit_op LAGFX_SPV_OP_CONSTANT_COMPOSITE [id_v4float, id_a, id_c_06, id_c_06, id_c_06, id_c_1] b;
     b \<leftarrow> lagfx_spv_builder_emit_op LAGFX_SPV_OP_CONSTANT_COMPOSITE [id_v4float, id_b, id_c_02, id_c_02, id_c_02, id_c_0] b;
     b \<leftarrow> lagfx_spv_builder_emit_op LAGFX_SPV_OP_CONSTANT_COMPOSITE [id_v4float, id_c, id_c_01, id_c_01, id_c_01, id_c_0] b;
     b \<leftarrow> lagfx_spv_builder_emit_op LAGFX_SPV_OP_CONSTANT_COMPOSITE [id_v4float, id_d, id_c_20, id_c_20, id_c_20, id_c_1] b;
     b \<leftarrow> lagfx_spv_builder_emit_op LAGFX_SPV_OP_VARIABLE [id_ptr_out, id_color, LAGFX_SPV_STORAGE_OUTPUT] b;
     b \<leftarrow> lagfx_spv_builder_emit_op LAGFX_SPV_OP_FUNCTION [id_void, id_main, LAGFX_SPV_FUNCTION_CONTROL_NONE, id_fn_void] b;
     b \<leftarrow> lagfx_spv_builder_emit_op LAGFX_SPV_OP_LABEL [id_entry] b;
     b \<leftarrow> lagfx_spv_builder_emit_op LAGFX_SPV_OP_FADD [id_v4float, id_sum, id_a, id_b] b;
     b \<leftarrow> lagfx_spv_builder_emit_op LAGFX_SPV_OP_FSUB [id_v4float, id_diff, id_sum, id_c] b;
     b \<leftarrow> lagfx_spv_builder_emit_op LAGFX_SPV_OP_FDIV [id_v4float, id_quot, id_diff, id_d] b;
     b \<leftarrow> lagfx_spv_builder_emit_op LAGFX_SPV_OP_DOT [id_float, id_dotv, id_a, id_a] b;
     b \<leftarrow> lagfx_spv_builder_emit_op LAGFX_SPV_OP_STORE [id_color, id_quot] b;
     b \<leftarrow> lagfx_spv_builder_emit_op LAGFX_SPV_OP_RETURN [] b;
     b \<leftarrow> lagfx_spv_builder_emit_op LAGFX_SPV_OP_FUNCTION_END [] b;
     lagfx_spv_builder_finish b }"

definition lagfx_air2spv_emit_buffer_load_stub :: "bytes option" where
  "lagfx_air2spv_emit_buffer_load_stub = do {
     let b = lagfx_spv_builder_create 96;
     b \<leftarrow> lagfx_spv_builder_emit_op LAGFX_SPV_OP_CAPABILITY [LAGFX_SPV_CAPABILITY_SHADER] b;
     b \<leftarrow> lagfx_spv_builder_emit_op LAGFX_SPV_OP_MEMORY_MODEL [LAGFX_SPV_ADDRESSING_MODEL_LOGICAL, LAGFX_SPV_MEMORY_MODEL_GLSL450] b;
     let (id_void, b) = lagfx_spv_builder_alloc_id b;
     let (id_float, b) = lagfx_spv_builder_alloc_id b;
     let (id_v4float, b) = lagfx_spv_builder_alloc_id b;
     let (id_int, b) = lagfx_spv_builder_alloc_id b;
     let (id_ubo_struct, b) = lagfx_spv_builder_alloc_id b;
     let (id_ptr_uni_ubo, b) = lagfx_spv_builder_alloc_id b;
     let (id_ptr_uni_v4, b) = lagfx_spv_builder_alloc_id b;
     let (id_ptr_out_v4, b) = lagfx_spv_builder_alloc_id b;
     let (id_fn_void, b) = lagfx_spv_builder_alloc_id b;
     let (id_c_int_0, b) = lagfx_spv_builder_alloc_id b;
     let (id_c_f_0, b) = lagfx_spv_builder_alloc_id b;
     let (id_c_f_1, b) = lagfx_spv_builder_alloc_id b;
     let (id_const_pos, b) = lagfx_spv_builder_alloc_id b;
     let (id_ubo_var, b) = lagfx_spv_builder_alloc_id b;
     let (id_pos, b) = lagfx_spv_builder_alloc_id b;
     let (id_main, b) = lagfx_spv_builder_alloc_id b;
     let (id_entry, b) = lagfx_spv_builder_alloc_id b;
     let (id_ptr_factor, b) = lagfx_spv_builder_alloc_id b;
     let (id_factor, b) = lagfx_spv_builder_alloc_id b;
     let (id_result, b) = lagfx_spv_builder_alloc_id b;
     b \<leftarrow> lagfx_spv_builder_emit_op_string LAGFX_SPV_OP_ENTRY_POINT [LAGFX_SPV_EXECUTION_MODEL_VERTEX, id_main] (ascii ''main'') [id_ubo_var, id_pos] b;
     b \<leftarrow> lagfx_spv_builder_emit_op LAGFX_SPV_OP_DECORATE [id_ubo_struct, LAGFX_SPV_DECORATION_BLOCK] b;
     b \<leftarrow> lagfx_spv_builder_emit_op LAGFX_SPV_OP_MEMBER_DECORATE [id_ubo_struct, 0, LAGFX_SPV_DECORATION_OFFSET, 0] b;
     b \<leftarrow> lagfx_spv_builder_emit_op LAGFX_SPV_OP_DECORATE [id_ubo_var, LAGFX_SPV_DECORATION_DESCRIPTOR_SET, 0] b;
     b \<leftarrow> lagfx_spv_builder_emit_op LAGFX_SPV_OP_DECORATE [id_ubo_var, LAGFX_SPV_DECORATION_BINDING, 0] b;
     b \<leftarrow> lagfx_spv_builder_emit_op LAGFX_SPV_OP_DECORATE [id_pos, LAGFX_SPV_DECORATION_BUILTIN, LAGFX_SPV_BUILTIN_POSITION] b;
     b \<leftarrow> lagfx_spv_builder_emit_op LAGFX_SPV_OP_TYPE_VOID [id_void] b;
     b \<leftarrow> lagfx_spv_builder_emit_op LAGFX_SPV_OP_TYPE_FLOAT [id_float, 32] b;
     b \<leftarrow> lagfx_spv_builder_emit_op LAGFX_SPV_OP_TYPE_VECTOR [id_v4float, id_float, 4] b;
     b \<leftarrow> lagfx_spv_builder_emit_op LAGFX_SPV_OP_TYPE_INT [id_int, 32, 1] b;
     b \<leftarrow> lagfx_spv_builder_emit_op LAGFX_SPV_OP_TYPE_STRUCT [id_ubo_struct, id_v4float] b;
     b \<leftarrow> lagfx_spv_builder_emit_op LAGFX_SPV_OP_TYPE_POINTER [id_ptr_uni_ubo, LAGFX_SPV_STORAGE_UNIFORM, id_ubo_struct] b;
     b \<leftarrow> lagfx_spv_builder_emit_op LAGFX_SPV_OP_TYPE_POINTER [id_ptr_uni_v4, LAGFX_SPV_STORAGE_UNIFORM, id_v4float] b;
     b \<leftarrow> lagfx_spv_builder_emit_op LAGFX_SPV_OP_TYPE_POINTER [id_ptr_out_v4, LAGFX_SPV_STORAGE_OUTPUT, id_v4float] b;
     b \<leftarrow> lagfx_spv_builder_emit_op LAGFX_SPV_OP_TYPE_FUNCTION [id_fn_void, id_void] b;
     b \<leftarrow> lagfx_spv_builder_emit_op LAGFX_SPV_OP_CONSTANT [id_int, id_c_int_0, 0] b;
     b \<leftarrow> lagfx_spv_builder_emit_op LAGFX_SPV_OP_CONSTANT [id_float, id_c_f_0, f32_0] b;
     b \<leftarrow> lagfx_spv_builder_emit_op LAGFX_SPV_OP_CONSTANT [id_float, id_c_f_1, f32_1] b;
     b \<leftarrow> lagfx_spv_builder_emit_op LAGFX_SPV_OP_CONSTANT_COMPOSITE [id_v4float, id_const_pos, id_c_f_0, id_c_f_0, id_c_f_0, id_c_f_1] b;
     b \<leftarrow> lagfx_spv_builder_emit_op LAGFX_SPV_OP_VARIABLE [id_ptr_uni_ubo, id_ubo_var, LAGFX_SPV_STORAGE_UNIFORM] b;
     b \<leftarrow> lagfx_spv_builder_emit_op LAGFX_SPV_OP_VARIABLE [id_ptr_out_v4, id_pos, LAGFX_SPV_STORAGE_OUTPUT] b;
     b \<leftarrow> lagfx_spv_builder_emit_op LAGFX_SPV_OP_FUNCTION [id_void, id_main, LAGFX_SPV_FUNCTION_CONTROL_NONE, id_fn_void] b;
     b \<leftarrow> lagfx_spv_builder_emit_op LAGFX_SPV_OP_LABEL [id_entry] b;
     b \<leftarrow> lagfx_spv_builder_emit_op LAGFX_SPV_OP_ACCESS_CHAIN [id_ptr_uni_v4, id_ptr_factor, id_ubo_var, id_c_int_0] b;
     b \<leftarrow> lagfx_spv_builder_emit_op LAGFX_SPV_OP_LOAD [id_v4float, id_factor, id_ptr_factor] b;
     b \<leftarrow> lagfx_spv_builder_emit_op LAGFX_SPV_OP_FMUL [id_v4float, id_result, id_const_pos, id_factor] b;
     b \<leftarrow> lagfx_spv_builder_emit_op LAGFX_SPV_OP_STORE [id_pos, id_result] b;
     b \<leftarrow> lagfx_spv_builder_emit_op LAGFX_SPV_OP_RETURN [] b;
     b \<leftarrow> lagfx_spv_builder_emit_op LAGFX_SPV_OP_FUNCTION_END [] b;
     lagfx_spv_builder_finish b }"

definition lagfx_air2spv_emit_constant_float_stub :: "bytes option" where
  "lagfx_air2spv_emit_constant_float_stub = do {
     let b = lagfx_spv_builder_create 64;
     b \<leftarrow> lagfx_spv_builder_emit_op LAGFX_SPV_OP_CAPABILITY [LAGFX_SPV_CAPABILITY_SHADER] b;
     b \<leftarrow> lagfx_spv_builder_emit_op LAGFX_SPV_OP_MEMORY_MODEL [LAGFX_SPV_ADDRESSING_MODEL_LOGICAL, LAGFX_SPV_MEMORY_MODEL_GLSL450] b;
     let (id_void, b) = lagfx_spv_builder_alloc_id b;
     let (id_float, b) = lagfx_spv_builder_alloc_id b;
     let (id_v4float, b) = lagfx_spv_builder_alloc_id b;
     let (id_ptr_out, b) = lagfx_spv_builder_alloc_id b;
     let (id_fn_void, b) = lagfx_spv_builder_alloc_id b;
     let (id_c_r, b) = lagfx_spv_builder_alloc_id b;
     let (id_c_g, b) = lagfx_spv_builder_alloc_id b;
     let (id_c_b, b) = lagfx_spv_builder_alloc_id b;
     let (id_c_a, b) = lagfx_spv_builder_alloc_id b;
     let (id_color_v, b) = lagfx_spv_builder_alloc_id b;
     let (id_color, b) = lagfx_spv_builder_alloc_id b;
     let (id_main, b) = lagfx_spv_builder_alloc_id b;
     let (id_entry, b) = lagfx_spv_builder_alloc_id b;
     b \<leftarrow> lagfx_spv_builder_emit_op_string LAGFX_SPV_OP_ENTRY_POINT [LAGFX_SPV_EXECUTION_MODEL_FRAGMENT, id_main] (ascii ''main'') [id_color] b;
     b \<leftarrow> lagfx_spv_builder_emit_op LAGFX_SPV_OP_EXECUTION_MODE [id_main, LAGFX_SPV_EXECUTION_MODE_ORIGIN_UPPER_LEFT] b;
     b \<leftarrow> lagfx_spv_builder_emit_op LAGFX_SPV_OP_DECORATE [id_color, LAGFX_SPV_DECORATION_LOCATION, 0] b;
     b \<leftarrow> lagfx_spv_builder_emit_op LAGFX_SPV_OP_TYPE_VOID [id_void] b;
     b \<leftarrow> lagfx_spv_builder_emit_op LAGFX_SPV_OP_TYPE_FLOAT [id_float, 32] b;
     b \<leftarrow> lagfx_spv_builder_emit_op LAGFX_SPV_OP_TYPE_VECTOR [id_v4float, id_float, 4] b;
     b \<leftarrow> lagfx_spv_builder_emit_op LAGFX_SPV_OP_TYPE_POINTER [id_ptr_out, LAGFX_SPV_STORAGE_OUTPUT, id_v4float] b;
     b \<leftarrow> lagfx_spv_builder_emit_op LAGFX_SPV_OP_TYPE_FUNCTION [id_fn_void, id_void] b;
     b \<leftarrow> lagfx_spv_builder_emit_op LAGFX_SPV_OP_CONSTANT [id_float, id_c_r, f32_0_2] b;
     b \<leftarrow> lagfx_spv_builder_emit_op LAGFX_SPV_OP_CONSTANT [id_float, id_c_g, f32_0_5] b;
     b \<leftarrow> lagfx_spv_builder_emit_op LAGFX_SPV_OP_CONSTANT [id_float, id_c_b, f32_0_8] b;
     b \<leftarrow> lagfx_spv_builder_emit_op LAGFX_SPV_OP_CONSTANT [id_float, id_c_a, f32_1] b;
     b \<leftarrow> lagfx_spv_builder_emit_op LAGFX_SPV_OP_CONSTANT_COMPOSITE [id_v4float, id_color_v, id_c_r, id_c_g, id_c_b, id_c_a] b;
     b \<leftarrow> lagfx_spv_builder_emit_op LAGFX_SPV_OP_VARIABLE [id_ptr_out, id_color, LAGFX_SPV_STORAGE_OUTPUT] b;
     b \<leftarrow> lagfx_spv_builder_emit_op LAGFX_SPV_OP_FUNCTION [id_void, id_main, LAGFX_SPV_FUNCTION_CONTROL_NONE, id_fn_void] b;
     b \<leftarrow> lagfx_spv_builder_emit_op LAGFX_SPV_OP_LABEL [id_entry] b;
     b \<leftarrow> lagfx_spv_builder_emit_op LAGFX_SPV_OP_STORE [id_color, id_color_v] b;
     b \<leftarrow> lagfx_spv_builder_emit_op LAGFX_SPV_OP_RETURN [] b;
     b \<leftarrow> lagfx_spv_builder_emit_op LAGFX_SPV_OP_FUNCTION_END [] b;
     lagfx_spv_builder_finish b }"

definition lagfx_air2spv_emit_control_flow_stub :: "bytes option" where
  "lagfx_air2spv_emit_control_flow_stub = do {
     let b = lagfx_spv_builder_create 128;
     b \<leftarrow> lagfx_spv_builder_emit_op LAGFX_SPV_OP_CAPABILITY [LAGFX_SPV_CAPABILITY_SHADER] b;
     b \<leftarrow> lagfx_spv_builder_emit_op LAGFX_SPV_OP_MEMORY_MODEL [LAGFX_SPV_ADDRESSING_MODEL_LOGICAL, LAGFX_SPV_MEMORY_MODEL_GLSL450] b;
     let (id_void, b) = lagfx_spv_builder_alloc_id b;
     let (id_bool, b) = lagfx_spv_builder_alloc_id b;
     let (id_float, b) = lagfx_spv_builder_alloc_id b;
     let (id_v2f, b) = lagfx_spv_builder_alloc_id b;
     let (id_v4f, b) = lagfx_spv_builder_alloc_id b;
     let (id_ptr_in_v2, b) = lagfx_spv_builder_alloc_id b;
     let (id_ptr_out_v4, b) = lagfx_spv_builder_alloc_id b;
     let (id_fn_void, b) = lagfx_spv_builder_alloc_id b;
     let (id_c_0, b) = lagfx_spv_builder_alloc_id b;
     let (id_c_1, b) = lagfx_spv_builder_alloc_id b;
     let (id_c_half, b) = lagfx_spv_builder_alloc_id b;
     let (id_red, b) = lagfx_spv_builder_alloc_id b;
     let (id_blue, b) = lagfx_spv_builder_alloc_id b;
     let (id_uv_in, b) = lagfx_spv_builder_alloc_id b;
     let (id_color_out, b) = lagfx_spv_builder_alloc_id b;
     let (id_main, b) = lagfx_spv_builder_alloc_id b;
     let (id_entry, b) = lagfx_spv_builder_alloc_id b;
     let (id_lbl_true, b) = lagfx_spv_builder_alloc_id b;
     let (id_lbl_false, b) = lagfx_spv_builder_alloc_id b;
     let (id_lbl_merge, b) = lagfx_spv_builder_alloc_id b;
     let (id_uv_val, b) = lagfx_spv_builder_alloc_id b;
     let (id_x, b) = lagfx_spv_builder_alloc_id b;
     let (id_cond, b) = lagfx_spv_builder_alloc_id b;
     let (id_picked, b) = lagfx_spv_builder_alloc_id b;
     b \<leftarrow> lagfx_spv_builder_emit_op_string LAGFX_SPV_OP_ENTRY_POINT [LAGFX_SPV_EXECUTION_MODEL_FRAGMENT, id_main] (ascii ''main'') [id_uv_in, id_color_out] b;
     b \<leftarrow> lagfx_spv_builder_emit_op LAGFX_SPV_OP_EXECUTION_MODE [id_main, LAGFX_SPV_EXECUTION_MODE_ORIGIN_UPPER_LEFT] b;
     b \<leftarrow> lagfx_spv_builder_emit_op LAGFX_SPV_OP_DECORATE [id_uv_in, LAGFX_SPV_DECORATION_LOCATION, 0] b;
     b \<leftarrow> lagfx_spv_builder_emit_op LAGFX_SPV_OP_DECORATE [id_color_out, LAGFX_SPV_DECORATION_LOCATION, 0] b;
     b \<leftarrow> lagfx_spv_builder_emit_op LAGFX_SPV_OP_TYPE_VOID [id_void] b;
     b \<leftarrow> lagfx_spv_builder_emit_op LAGFX_SPV_OP_TYPE_BOOL [id_bool] b;
     b \<leftarrow> lagfx_spv_builder_emit_op LAGFX_SPV_OP_TYPE_FLOAT [id_float, 32] b;
     b \<leftarrow> lagfx_spv_builder_emit_op LAGFX_SPV_OP_TYPE_VECTOR [id_v2f, id_float, 2] b;
     b \<leftarrow> lagfx_spv_builder_emit_op LAGFX_SPV_OP_TYPE_VECTOR [id_v4f, id_float, 4] b;
     b \<leftarrow> lagfx_spv_builder_emit_op LAGFX_SPV_OP_TYPE_POINTER [id_ptr_in_v2, LAGFX_SPV_STORAGE_INPUT, id_v2f] b;
     b \<leftarrow> lagfx_spv_builder_emit_op LAGFX_SPV_OP_TYPE_POINTER [id_ptr_out_v4, LAGFX_SPV_STORAGE_OUTPUT, id_v4f] b;
     b \<leftarrow> lagfx_spv_builder_emit_op LAGFX_SPV_OP_TYPE_FUNCTION [id_fn_void, id_void] b;
     b \<leftarrow> lagfx_spv_builder_emit_op LAGFX_SPV_OP_CONSTANT [id_float, id_c_0, f32_0] b;
     b \<leftarrow> lagfx_spv_builder_emit_op LAGFX_SPV_OP_CONSTANT [id_float, id_c_1, f32_1] b;
     b \<leftarrow> lagfx_spv_builder_emit_op LAGFX_SPV_OP_CONSTANT [id_float, id_c_half, f32_0_5] b;
     b \<leftarrow> lagfx_spv_builder_emit_op LAGFX_SPV_OP_CONSTANT_COMPOSITE [id_v4f, id_red, id_c_1, id_c_0, id_c_0, id_c_1] b;
     b \<leftarrow> lagfx_spv_builder_emit_op LAGFX_SPV_OP_CONSTANT_COMPOSITE [id_v4f, id_blue, id_c_0, id_c_0, id_c_1, id_c_1] b;
     b \<leftarrow> lagfx_spv_builder_emit_op LAGFX_SPV_OP_VARIABLE [id_ptr_in_v2, id_uv_in, LAGFX_SPV_STORAGE_INPUT] b;
     b \<leftarrow> lagfx_spv_builder_emit_op LAGFX_SPV_OP_VARIABLE [id_ptr_out_v4, id_color_out, LAGFX_SPV_STORAGE_OUTPUT] b;
     b \<leftarrow> lagfx_spv_builder_emit_op LAGFX_SPV_OP_FUNCTION [id_void, id_main, LAGFX_SPV_FUNCTION_CONTROL_NONE, id_fn_void] b;
     b \<leftarrow> lagfx_spv_builder_emit_op LAGFX_SPV_OP_LABEL [id_entry] b;
     b \<leftarrow> lagfx_spv_builder_emit_op LAGFX_SPV_OP_LOAD [id_v2f, id_uv_val, id_uv_in] b;
     b \<leftarrow> lagfx_spv_builder_emit_op LAGFX_SPV_OP_COMPOSITE_EXTRACT [id_float, id_x, id_uv_val, 0] b;
     b \<leftarrow> lagfx_spv_builder_emit_op LAGFX_SPV_OP_FORD_GREATER_THAN [id_bool, id_cond, id_x, id_c_half] b;
     b \<leftarrow> lagfx_spv_builder_emit_op LAGFX_SPV_OP_SELECTION_MERGE [id_lbl_merge, LAGFX_SPV_SELECTION_CONTROL_NONE] b;
     b \<leftarrow> lagfx_spv_builder_emit_op LAGFX_SPV_OP_BRANCH_CONDITIONAL [id_cond, id_lbl_true, id_lbl_false] b;
     b \<leftarrow> lagfx_spv_builder_emit_op LAGFX_SPV_OP_LABEL [id_lbl_true] b;
     b \<leftarrow> lagfx_spv_builder_emit_op LAGFX_SPV_OP_BRANCH [id_lbl_merge] b;
     b \<leftarrow> lagfx_spv_builder_emit_op LAGFX_SPV_OP_LABEL [id_lbl_false] b;
     b \<leftarrow> lagfx_spv_builder_emit_op LAGFX_SPV_OP_BRANCH [id_lbl_merge] b;
     b \<leftarrow> lagfx_spv_builder_emit_op LAGFX_SPV_OP_LABEL [id_lbl_merge] b;
     b \<leftarrow> lagfx_spv_builder_emit_op LAGFX_SPV_OP_PHI [id_v4f, id_picked, id_red, id_lbl_true, id_blue, id_lbl_false] b;
     b \<leftarrow> lagfx_spv_builder_emit_op LAGFX_SPV_OP_STORE [id_color_out, id_picked] b;
     b \<leftarrow> lagfx_spv_builder_emit_op LAGFX_SPV_OP_RETURN [] b;
     b \<leftarrow> lagfx_spv_builder_emit_op LAGFX_SPV_OP_FUNCTION_END [] b;
     lagfx_spv_builder_finish b }"

definition lagfx_air2spv_emit_extinst_glsl_stub :: "bytes option" where
  "lagfx_air2spv_emit_extinst_glsl_stub = do {
     let b = lagfx_spv_builder_create 96;
     let (id_glsl, b) = lagfx_spv_builder_alloc_id b;
     b \<leftarrow> lagfx_spv_builder_emit_op LAGFX_SPV_OP_CAPABILITY [LAGFX_SPV_CAPABILITY_SHADER] b;
     b \<leftarrow> lagfx_spv_builder_emit_op_string LAGFX_SPV_OP_EXT_INST_IMPORT [id_glsl] (ascii ''GLSL.std.450'') [] b;
     b \<leftarrow> lagfx_spv_builder_emit_op LAGFX_SPV_OP_MEMORY_MODEL [LAGFX_SPV_ADDRESSING_MODEL_LOGICAL, LAGFX_SPV_MEMORY_MODEL_GLSL450] b;
     let (id_void, b) = lagfx_spv_builder_alloc_id b;
     let (id_float, b) = lagfx_spv_builder_alloc_id b;
     let (id_v4float, b) = lagfx_spv_builder_alloc_id b;
     let (id_ptr_out, b) = lagfx_spv_builder_alloc_id b;
     let (id_fn_void, b) = lagfx_spv_builder_alloc_id b;
     let (id_c_4, b) = lagfx_spv_builder_alloc_id b;
     let (id_c_9, b) = lagfx_spv_builder_alloc_id b;
     let (id_c_16, b) = lagfx_spv_builder_alloc_id b;
     let (id_c_1, b) = lagfx_spv_builder_alloc_id b;
     let (id_input_vec, b) = lagfx_spv_builder_alloc_id b;
     let (id_pos, b) = lagfx_spv_builder_alloc_id b;
     let (id_main, b) = lagfx_spv_builder_alloc_id b;
     let (id_entry, b) = lagfx_spv_builder_alloc_id b;
     let (id_sqrt_res, b) = lagfx_spv_builder_alloc_id b;
     b \<leftarrow> lagfx_spv_builder_emit_op_string LAGFX_SPV_OP_ENTRY_POINT [LAGFX_SPV_EXECUTION_MODEL_VERTEX, id_main] (ascii ''main'') [id_pos] b;
     b \<leftarrow> lagfx_spv_builder_emit_op LAGFX_SPV_OP_DECORATE [id_pos, LAGFX_SPV_DECORATION_BUILTIN, LAGFX_SPV_BUILTIN_POSITION] b;
     b \<leftarrow> lagfx_spv_builder_emit_op LAGFX_SPV_OP_TYPE_VOID [id_void] b;
     b \<leftarrow> lagfx_spv_builder_emit_op LAGFX_SPV_OP_TYPE_FLOAT [id_float, 32] b;
     b \<leftarrow> lagfx_spv_builder_emit_op LAGFX_SPV_OP_TYPE_VECTOR [id_v4float, id_float, 4] b;
     b \<leftarrow> lagfx_spv_builder_emit_op LAGFX_SPV_OP_TYPE_POINTER [id_ptr_out, LAGFX_SPV_STORAGE_OUTPUT, id_v4float] b;
     b \<leftarrow> lagfx_spv_builder_emit_op LAGFX_SPV_OP_TYPE_FUNCTION [id_fn_void, id_void] b;
     b \<leftarrow> lagfx_spv_builder_emit_op LAGFX_SPV_OP_CONSTANT [id_float, id_c_4, f32_4] b;
     b \<leftarrow> lagfx_spv_builder_emit_op LAGFX_SPV_OP_CONSTANT [id_float, id_c_9, f32_9] b;
     b \<leftarrow> lagfx_spv_builder_emit_op LAGFX_SPV_OP_CONSTANT [id_float, id_c_16, f32_16] b;
     b \<leftarrow> lagfx_spv_builder_emit_op LAGFX_SPV_OP_CONSTANT [id_float, id_c_1, f32_1] b;
     b \<leftarrow> lagfx_spv_builder_emit_op LAGFX_SPV_OP_CONSTANT_COMPOSITE [id_v4float, id_input_vec, id_c_4, id_c_9, id_c_16, id_c_1] b;
     b \<leftarrow> lagfx_spv_builder_emit_op LAGFX_SPV_OP_VARIABLE [id_ptr_out, id_pos, LAGFX_SPV_STORAGE_OUTPUT] b;
     b \<leftarrow> lagfx_spv_builder_emit_op LAGFX_SPV_OP_FUNCTION [id_void, id_main, LAGFX_SPV_FUNCTION_CONTROL_NONE, id_fn_void] b;
     b \<leftarrow> lagfx_spv_builder_emit_op LAGFX_SPV_OP_LABEL [id_entry] b;
     b \<leftarrow> lagfx_spv_builder_emit_op LAGFX_SPV_OP_EXT_INST [id_v4float, id_sqrt_res, id_glsl, LAGFX_SPV_GLSL_SQRT, id_input_vec] b;
     b \<leftarrow> lagfx_spv_builder_emit_op LAGFX_SPV_OP_STORE [id_pos, id_sqrt_res] b;
     b \<leftarrow> lagfx_spv_builder_emit_op LAGFX_SPV_OP_RETURN [] b;
     b \<leftarrow> lagfx_spv_builder_emit_op LAGFX_SPV_OP_FUNCTION_END [] b;
     lagfx_spv_builder_finish b }"

definition lagfx_air2spv_emit_fragment_input_stub :: "bytes option" where
  "lagfx_air2spv_emit_fragment_input_stub = do {
     let b = lagfx_spv_builder_create 96;
     b \<leftarrow> lagfx_spv_builder_emit_op LAGFX_SPV_OP_CAPABILITY [LAGFX_SPV_CAPABILITY_SHADER] b;
     b \<leftarrow> lagfx_spv_builder_emit_op LAGFX_SPV_OP_MEMORY_MODEL [LAGFX_SPV_ADDRESSING_MODEL_LOGICAL, LAGFX_SPV_MEMORY_MODEL_GLSL450] b;
     let (id_void, b) = lagfx_spv_builder_alloc_id b;
     let (id_float, b) = lagfx_spv_builder_alloc_id b;
     let (id_v2float, b) = lagfx_spv_builder_alloc_id b;
     let (id_v4float, b) = lagfx_spv_builder_alloc_id b;
     let (id_ptr_in, b) = lagfx_spv_builder_alloc_id b;
     let (id_ptr_out, b) = lagfx_spv_builder_alloc_id b;
     let (id_fn_void, b) = lagfx_spv_builder_alloc_id b;
     let (id_c0, b) = lagfx_spv_builder_alloc_id b;
     let (id_c1, b) = lagfx_spv_builder_alloc_id b;
     let (id_uv_var, b) = lagfx_spv_builder_alloc_id b;
     let (id_color_var, b) = lagfx_spv_builder_alloc_id b;
     let (id_main, b) = lagfx_spv_builder_alloc_id b;
     let (id_entry, b) = lagfx_spv_builder_alloc_id b;
     let (id_loaded, b) = lagfx_spv_builder_alloc_id b;
     let (id_uv_x, b) = lagfx_spv_builder_alloc_id b;
     let (id_uv_y, b) = lagfx_spv_builder_alloc_id b;
     let (id_out_vec, b) = lagfx_spv_builder_alloc_id b;
     b \<leftarrow> lagfx_spv_builder_emit_op_string LAGFX_SPV_OP_ENTRY_POINT [LAGFX_SPV_EXECUTION_MODEL_FRAGMENT, id_main] (ascii ''main'') [id_uv_var, id_color_var] b;
     b \<leftarrow> lagfx_spv_builder_emit_op LAGFX_SPV_OP_EXECUTION_MODE [id_main, LAGFX_SPV_EXECUTION_MODE_ORIGIN_UPPER_LEFT] b;
     b \<leftarrow> lagfx_spv_builder_emit_op LAGFX_SPV_OP_DECORATE [id_uv_var, LAGFX_SPV_DECORATION_LOCATION, 0] b;
     b \<leftarrow> lagfx_spv_builder_emit_op LAGFX_SPV_OP_DECORATE [id_color_var, LAGFX_SPV_DECORATION_LOCATION, 0] b;
     b \<leftarrow> lagfx_spv_builder_emit_op LAGFX_SPV_OP_TYPE_VOID [id_void] b;
     b \<leftarrow> lagfx_spv_builder_emit_op LAGFX_SPV_OP_TYPE_FLOAT [id_float, 32] b;
     b \<leftarrow> lagfx_spv_builder_emit_op LAGFX_SPV_OP_TYPE_VECTOR [id_v2float, id_float, 2] b;
     b \<leftarrow> lagfx_spv_builder_emit_op LAGFX_SPV_OP_TYPE_VECTOR [id_v4float, id_float, 4] b;
     b \<leftarrow> lagfx_spv_builder_emit_op LAGFX_SPV_OP_TYPE_POINTER [id_ptr_in, LAGFX_SPV_STORAGE_INPUT, id_v2float] b;
     b \<leftarrow> lagfx_spv_builder_emit_op LAGFX_SPV_OP_TYPE_POINTER [id_ptr_out, LAGFX_SPV_STORAGE_OUTPUT, id_v4float] b;
     b \<leftarrow> lagfx_spv_builder_emit_op LAGFX_SPV_OP_TYPE_FUNCTION [id_fn_void, id_void] b;
     b \<leftarrow> lagfx_spv_builder_emit_op LAGFX_SPV_OP_CONSTANT [id_float, id_c0, f32_0] b;
     b \<leftarrow> lagfx_spv_builder_emit_op LAGFX_SPV_OP_CONSTANT [id_float, id_c1, f32_1] b;
     b \<leftarrow> lagfx_spv_builder_emit_op LAGFX_SPV_OP_VARIABLE [id_ptr_in, id_uv_var, LAGFX_SPV_STORAGE_INPUT] b;
     b \<leftarrow> lagfx_spv_builder_emit_op LAGFX_SPV_OP_VARIABLE [id_ptr_out, id_color_var, LAGFX_SPV_STORAGE_OUTPUT] b;
     b \<leftarrow> lagfx_spv_builder_emit_op LAGFX_SPV_OP_FUNCTION [id_void, id_main, LAGFX_SPV_FUNCTION_CONTROL_NONE, id_fn_void] b;
     b \<leftarrow> lagfx_spv_builder_emit_op LAGFX_SPV_OP_LABEL [id_entry] b;
     b \<leftarrow> lagfx_spv_builder_emit_op LAGFX_SPV_OP_LOAD [id_v2float, id_loaded, id_uv_var] b;
     b \<leftarrow> lagfx_spv_builder_emit_op LAGFX_SPV_OP_COMPOSITE_EXTRACT [id_float, id_uv_x, id_loaded, 0] b;
     b \<leftarrow> lagfx_spv_builder_emit_op LAGFX_SPV_OP_COMPOSITE_EXTRACT [id_float, id_uv_y, id_loaded, 1] b;
     b \<leftarrow> lagfx_spv_builder_emit_op LAGFX_SPV_OP_COMPOSITE_CONSTRUCT [id_v4float, id_out_vec, id_uv_x, id_uv_y, id_c0, id_c1] b;
     b \<leftarrow> lagfx_spv_builder_emit_op LAGFX_SPV_OP_STORE [id_color_var, id_out_vec] b;
     b \<leftarrow> lagfx_spv_builder_emit_op LAGFX_SPV_OP_RETURN [] b;
     b \<leftarrow> lagfx_spv_builder_emit_op LAGFX_SPV_OP_FUNCTION_END [] b;
     lagfx_spv_builder_finish b }"

definition lagfx_air2spv_emit_loop_stub :: "bytes option" where
  "lagfx_air2spv_emit_loop_stub = do {
     let b = lagfx_spv_builder_create 128;
     b \<leftarrow> lagfx_spv_builder_emit_op LAGFX_SPV_OP_CAPABILITY [LAGFX_SPV_CAPABILITY_SHADER] b;
     b \<leftarrow> lagfx_spv_builder_emit_op LAGFX_SPV_OP_MEMORY_MODEL [LAGFX_SPV_ADDRESSING_MODEL_LOGICAL, LAGFX_SPV_MEMORY_MODEL_GLSL450] b;
     let (id_void, b) = lagfx_spv_builder_alloc_id b;
     let (id_bool, b) = lagfx_spv_builder_alloc_id b;
     let (id_int, b) = lagfx_spv_builder_alloc_id b;
     let (id_float, b) = lagfx_spv_builder_alloc_id b;
     let (id_v4f, b) = lagfx_spv_builder_alloc_id b;
     let (id_ptr_fn_int, b) = lagfx_spv_builder_alloc_id b;
     let (id_ptr_out_v4, b) = lagfx_spv_builder_alloc_id b;
     let (id_fn_void, b) = lagfx_spv_builder_alloc_id b;
     let (id_c_int_0, b) = lagfx_spv_builder_alloc_id b;
     let (id_c_int_1, b) = lagfx_spv_builder_alloc_id b;
     let (id_c_int_4, b) = lagfx_spv_builder_alloc_id b;
     let (id_c_f_0, b) = lagfx_spv_builder_alloc_id b;
     let (id_c_f_1, b) = lagfx_spv_builder_alloc_id b;
     let (id_red, b) = lagfx_spv_builder_alloc_id b;
     let (id_color_out, b) = lagfx_spv_builder_alloc_id b;
     let (id_main, b) = lagfx_spv_builder_alloc_id b;
     let (id_entry, b) = lagfx_spv_builder_alloc_id b;
     let (id_header, b) = lagfx_spv_builder_alloc_id b;
     let (id_body, b) = lagfx_spv_builder_alloc_id b;
     let (id_inner, b) = lagfx_spv_builder_alloc_id b;
     let (id_cont, b) = lagfx_spv_builder_alloc_id b;
     let (id_merge, b) = lagfx_spv_builder_alloc_id b;
     let (id_i_var, b) = lagfx_spv_builder_alloc_id b;
     let (id_cur, b) = lagfx_spv_builder_alloc_id b;
     let (id_next, b) = lagfx_spv_builder_alloc_id b;
     let (id_cond, b) = lagfx_spv_builder_alloc_id b;
     b \<leftarrow> lagfx_spv_builder_emit_op_string LAGFX_SPV_OP_ENTRY_POINT [LAGFX_SPV_EXECUTION_MODEL_FRAGMENT, id_main] (ascii ''main'') [id_color_out] b;
     b \<leftarrow> lagfx_spv_builder_emit_op LAGFX_SPV_OP_EXECUTION_MODE [id_main, LAGFX_SPV_EXECUTION_MODE_ORIGIN_UPPER_LEFT] b;
     b \<leftarrow> lagfx_spv_builder_emit_op LAGFX_SPV_OP_DECORATE [id_color_out, LAGFX_SPV_DECORATION_LOCATION, 0] b;
     b \<leftarrow> lagfx_spv_builder_emit_op LAGFX_SPV_OP_TYPE_VOID [id_void] b;
     b \<leftarrow> lagfx_spv_builder_emit_op LAGFX_SPV_OP_TYPE_BOOL [id_bool] b;
     b \<leftarrow> lagfx_spv_builder_emit_op LAGFX_SPV_OP_TYPE_INT [id_int, 32, 1] b;
     b \<leftarrow> lagfx_spv_builder_emit_op LAGFX_SPV_OP_TYPE_FLOAT [id_float, 32] b;
     b \<leftarrow> lagfx_spv_builder_emit_op LAGFX_SPV_OP_TYPE_VECTOR [id_v4f, id_float, 4] b;
     b \<leftarrow> lagfx_spv_builder_emit_op LAGFX_SPV_OP_TYPE_POINTER [id_ptr_fn_int, LAGFX_SPV_STORAGE_FUNCTION, id_int] b;
     b \<leftarrow> lagfx_spv_builder_emit_op LAGFX_SPV_OP_TYPE_POINTER [id_ptr_out_v4, LAGFX_SPV_STORAGE_OUTPUT, id_v4f] b;
     b \<leftarrow> lagfx_spv_builder_emit_op LAGFX_SPV_OP_TYPE_FUNCTION [id_fn_void, id_void] b;
     b \<leftarrow> lagfx_spv_builder_emit_op LAGFX_SPV_OP_CONSTANT [id_int, id_c_int_0, 0] b;
     b \<leftarrow> lagfx_spv_builder_emit_op LAGFX_SPV_OP_CONSTANT [id_int, id_c_int_1, 1] b;
     b \<leftarrow> lagfx_spv_builder_emit_op LAGFX_SPV_OP_CONSTANT [id_int, id_c_int_4, 4] b;
     b \<leftarrow> lagfx_spv_builder_emit_op LAGFX_SPV_OP_CONSTANT [id_float, id_c_f_0, f32_0] b;
     b \<leftarrow> lagfx_spv_builder_emit_op LAGFX_SPV_OP_CONSTANT [id_float, id_c_f_1, f32_1] b;
     b \<leftarrow> lagfx_spv_builder_emit_op LAGFX_SPV_OP_CONSTANT_COMPOSITE [id_v4f, id_red, id_c_f_1, id_c_f_0, id_c_f_0, id_c_f_1] b;
     b \<leftarrow> lagfx_spv_builder_emit_op LAGFX_SPV_OP_VARIABLE [id_ptr_out_v4, id_color_out, LAGFX_SPV_STORAGE_OUTPUT] b;
     b \<leftarrow> lagfx_spv_builder_emit_op LAGFX_SPV_OP_FUNCTION [id_void, id_main, LAGFX_SPV_FUNCTION_CONTROL_NONE, id_fn_void] b;
     b \<leftarrow> lagfx_spv_builder_emit_op LAGFX_SPV_OP_LABEL [id_entry] b;
     b \<leftarrow> lagfx_spv_builder_emit_op LAGFX_SPV_OP_VARIABLE [id_ptr_fn_int, id_i_var, LAGFX_SPV_STORAGE_FUNCTION] b;
     b \<leftarrow> lagfx_spv_builder_emit_op LAGFX_SPV_OP_STORE [id_i_var, id_c_int_0] b;
     b \<leftarrow> lagfx_spv_builder_emit_op LAGFX_SPV_OP_BRANCH [id_header] b;
     b \<leftarrow> lagfx_spv_builder_emit_op LAGFX_SPV_OP_LABEL [id_header] b;
     b \<leftarrow> lagfx_spv_builder_emit_op LAGFX_SPV_OP_LOOP_MERGE [id_merge, id_cont, LAGFX_SPV_LOOP_CONTROL_NONE] b;
     b \<leftarrow> lagfx_spv_builder_emit_op LAGFX_SPV_OP_BRANCH [id_body] b;
     b \<leftarrow> lagfx_spv_builder_emit_op LAGFX_SPV_OP_LABEL [id_body] b;
     b \<leftarrow> lagfx_spv_builder_emit_op LAGFX_SPV_OP_LOAD [id_int, id_cur, id_i_var] b;
     b \<leftarrow> lagfx_spv_builder_emit_op LAGFX_SPV_OP_SLESS_THAN [id_bool, id_cond, id_cur, id_c_int_4] b;
     b \<leftarrow> lagfx_spv_builder_emit_op LAGFX_SPV_OP_BRANCH_CONDITIONAL [id_cond, id_inner, id_merge] b;
     b \<leftarrow> lagfx_spv_builder_emit_op LAGFX_SPV_OP_LABEL [id_inner] b;
     b \<leftarrow> lagfx_spv_builder_emit_op LAGFX_SPV_OP_IADD [id_int, id_next, id_cur, id_c_int_1] b;
     b \<leftarrow> lagfx_spv_builder_emit_op LAGFX_SPV_OP_STORE [id_i_var, id_next] b;
     b \<leftarrow> lagfx_spv_builder_emit_op LAGFX_SPV_OP_BRANCH [id_cont] b;
     b \<leftarrow> lagfx_spv_builder_emit_op LAGFX_SPV_OP_LABEL [id_cont] b;
     b \<leftarrow> lagfx_spv_builder_emit_op LAGFX_SPV_OP_BRANCH [id_header] b;
     b \<leftarrow> lagfx_spv_builder_emit_op LAGFX_SPV_OP_LABEL [id_merge] b;
     b \<leftarrow> lagfx_spv_builder_emit_op LAGFX_SPV_OP_STORE [id_color_out, id_red] b;
     b \<leftarrow> lagfx_spv_builder_emit_op LAGFX_SPV_OP_RETURN [] b;
     b \<leftarrow> lagfx_spv_builder_emit_op LAGFX_SPV_OP_FUNCTION_END [] b;
     lagfx_spv_builder_finish b }"

definition lagfx_air2spv_emit_position_stub :: "bytes option" where
  "lagfx_air2spv_emit_position_stub = do {
     let b = lagfx_spv_builder_create 64;
     b \<leftarrow> lagfx_spv_builder_emit_op LAGFX_SPV_OP_CAPABILITY [LAGFX_SPV_CAPABILITY_SHADER] b;
     b \<leftarrow> lagfx_spv_builder_emit_op LAGFX_SPV_OP_MEMORY_MODEL [LAGFX_SPV_ADDRESSING_MODEL_LOGICAL, LAGFX_SPV_MEMORY_MODEL_GLSL450] b;
     let (id_void, b) = lagfx_spv_builder_alloc_id b;
     let (id_float, b) = lagfx_spv_builder_alloc_id b;
     let (id_v4float, b) = lagfx_spv_builder_alloc_id b;
     let (id_ptr_out, b) = lagfx_spv_builder_alloc_id b;
     let (id_fn_void, b) = lagfx_spv_builder_alloc_id b;
     let (id_c0, b) = lagfx_spv_builder_alloc_id b;
     let (id_c1, b) = lagfx_spv_builder_alloc_id b;
     let (id_const, b) = lagfx_spv_builder_alloc_id b;
     let (id_pos, b) = lagfx_spv_builder_alloc_id b;
     let (id_main, b) = lagfx_spv_builder_alloc_id b;
     let (id_entry, b) = lagfx_spv_builder_alloc_id b;
     b \<leftarrow> lagfx_spv_builder_emit_op_string LAGFX_SPV_OP_ENTRY_POINT [LAGFX_SPV_EXECUTION_MODEL_VERTEX, id_main] (ascii ''main'') [id_pos] b;
     b \<leftarrow> lagfx_spv_builder_emit_op LAGFX_SPV_OP_DECORATE [id_pos, LAGFX_SPV_DECORATION_BUILTIN, LAGFX_SPV_BUILTIN_POSITION] b;
     b \<leftarrow> lagfx_spv_builder_emit_op LAGFX_SPV_OP_TYPE_VOID [id_void] b;
     b \<leftarrow> lagfx_spv_builder_emit_op LAGFX_SPV_OP_TYPE_FLOAT [id_float, 32] b;
     b \<leftarrow> lagfx_spv_builder_emit_op LAGFX_SPV_OP_TYPE_VECTOR [id_v4float, id_float, 4] b;
     b \<leftarrow> lagfx_spv_builder_emit_op LAGFX_SPV_OP_TYPE_POINTER [id_ptr_out, LAGFX_SPV_STORAGE_OUTPUT, id_v4float] b;
     b \<leftarrow> lagfx_spv_builder_emit_op LAGFX_SPV_OP_TYPE_FUNCTION [id_fn_void, id_void] b;
     b \<leftarrow> lagfx_spv_builder_emit_op LAGFX_SPV_OP_CONSTANT [id_float, id_c0, f32_0] b;
     b \<leftarrow> lagfx_spv_builder_emit_op LAGFX_SPV_OP_CONSTANT [id_float, id_c1, f32_1] b;
     b \<leftarrow> lagfx_spv_builder_emit_op LAGFX_SPV_OP_CONSTANT_COMPOSITE [id_v4float, id_const, id_c0, id_c0, id_c0, id_c1] b;
     b \<leftarrow> lagfx_spv_builder_emit_op LAGFX_SPV_OP_VARIABLE [id_ptr_out, id_pos, LAGFX_SPV_STORAGE_OUTPUT] b;
     b \<leftarrow> lagfx_spv_builder_emit_op LAGFX_SPV_OP_FUNCTION [id_void, id_main, LAGFX_SPV_FUNCTION_CONTROL_NONE, id_fn_void] b;
     b \<leftarrow> lagfx_spv_builder_emit_op LAGFX_SPV_OP_LABEL [id_entry] b;
     b \<leftarrow> lagfx_spv_builder_emit_op LAGFX_SPV_OP_STORE [id_pos, id_const] b;
     b \<leftarrow> lagfx_spv_builder_emit_op LAGFX_SPV_OP_RETURN [] b;
     b \<leftarrow> lagfx_spv_builder_emit_op LAGFX_SPV_OP_FUNCTION_END [] b;
     lagfx_spv_builder_finish b }"

definition lagfx_air2spv_emit_render_target_stub :: "bytes option" where
  "lagfx_air2spv_emit_render_target_stub = do {
     let b = lagfx_spv_builder_create 64;
     b \<leftarrow> lagfx_spv_builder_emit_op LAGFX_SPV_OP_CAPABILITY [LAGFX_SPV_CAPABILITY_SHADER] b;
     b \<leftarrow> lagfx_spv_builder_emit_op LAGFX_SPV_OP_MEMORY_MODEL [LAGFX_SPV_ADDRESSING_MODEL_LOGICAL, LAGFX_SPV_MEMORY_MODEL_GLSL450] b;
     let (id_void, b) = lagfx_spv_builder_alloc_id b;
     let (id_float, b) = lagfx_spv_builder_alloc_id b;
     let (id_v4float, b) = lagfx_spv_builder_alloc_id b;
     let (id_ptr_out, b) = lagfx_spv_builder_alloc_id b;
     let (id_fn_void, b) = lagfx_spv_builder_alloc_id b;
     let (id_c0, b) = lagfx_spv_builder_alloc_id b;
     let (id_c1, b) = lagfx_spv_builder_alloc_id b;
     let (id_red_vec, b) = lagfx_spv_builder_alloc_id b;
     let (id_color, b) = lagfx_spv_builder_alloc_id b;
     let (id_main, b) = lagfx_spv_builder_alloc_id b;
     let (id_entry, b) = lagfx_spv_builder_alloc_id b;
     b \<leftarrow> lagfx_spv_builder_emit_op_string LAGFX_SPV_OP_ENTRY_POINT [LAGFX_SPV_EXECUTION_MODEL_FRAGMENT, id_main] (ascii ''main'') [id_color] b;
     b \<leftarrow> lagfx_spv_builder_emit_op LAGFX_SPV_OP_EXECUTION_MODE [id_main, LAGFX_SPV_EXECUTION_MODE_ORIGIN_UPPER_LEFT] b;
     b \<leftarrow> lagfx_spv_builder_emit_op LAGFX_SPV_OP_DECORATE [id_color, LAGFX_SPV_DECORATION_LOCATION, 0] b;
     b \<leftarrow> lagfx_spv_builder_emit_op LAGFX_SPV_OP_TYPE_VOID [id_void] b;
     b \<leftarrow> lagfx_spv_builder_emit_op LAGFX_SPV_OP_TYPE_FLOAT [id_float, 32] b;
     b \<leftarrow> lagfx_spv_builder_emit_op LAGFX_SPV_OP_TYPE_VECTOR [id_v4float, id_float, 4] b;
     b \<leftarrow> lagfx_spv_builder_emit_op LAGFX_SPV_OP_TYPE_POINTER [id_ptr_out, LAGFX_SPV_STORAGE_OUTPUT, id_v4float] b;
     b \<leftarrow> lagfx_spv_builder_emit_op LAGFX_SPV_OP_TYPE_FUNCTION [id_fn_void, id_void] b;
     b \<leftarrow> lagfx_spv_builder_emit_op LAGFX_SPV_OP_CONSTANT [id_float, id_c0, f32_0] b;
     b \<leftarrow> lagfx_spv_builder_emit_op LAGFX_SPV_OP_CONSTANT [id_float, id_c1, f32_1] b;
     b \<leftarrow> lagfx_spv_builder_emit_op LAGFX_SPV_OP_CONSTANT_COMPOSITE [id_v4float, id_red_vec, id_c1, id_c0, id_c0, id_c1] b;
     b \<leftarrow> lagfx_spv_builder_emit_op LAGFX_SPV_OP_VARIABLE [id_ptr_out, id_color, LAGFX_SPV_STORAGE_OUTPUT] b;
     b \<leftarrow> lagfx_spv_builder_emit_op LAGFX_SPV_OP_FUNCTION [id_void, id_main, LAGFX_SPV_FUNCTION_CONTROL_NONE, id_fn_void] b;
     b \<leftarrow> lagfx_spv_builder_emit_op LAGFX_SPV_OP_LABEL [id_entry] b;
     b \<leftarrow> lagfx_spv_builder_emit_op LAGFX_SPV_OP_STORE [id_color, id_red_vec] b;
     b \<leftarrow> lagfx_spv_builder_emit_op LAGFX_SPV_OP_RETURN [] b;
     b \<leftarrow> lagfx_spv_builder_emit_op LAGFX_SPV_OP_FUNCTION_END [] b;
     lagfx_spv_builder_finish b }"

definition lagfx_air2spv_emit_storage_image_stub :: "bytes option" where
  "lagfx_air2spv_emit_storage_image_stub = do {
     let b = lagfx_spv_builder_create 256;
     b \<leftarrow> lagfx_spv_builder_emit_op LAGFX_SPV_OP_CAPABILITY [LAGFX_SPV_CAPABILITY_SHADER] b;
     b \<leftarrow> lagfx_spv_builder_emit_op LAGFX_SPV_OP_CAPABILITY [LAGFX_SPV_CAPABILITY_STORAGE_IMAGE_EXTENDED_FORMATS] b;
     b \<leftarrow> lagfx_spv_builder_emit_op LAGFX_SPV_OP_MEMORY_MODEL [LAGFX_SPV_ADDRESSING_MODEL_LOGICAL, LAGFX_SPV_MEMORY_MODEL_GLSL450] b;
     let (id_void, b) = lagfx_spv_builder_alloc_id b;
     let (id_float, b) = lagfx_spv_builder_alloc_id b;
     let (id_int, b) = lagfx_spv_builder_alloc_id b;
     let (id_v4f, b) = lagfx_spv_builder_alloc_id b;
     let (id_v2i, b) = lagfx_spv_builder_alloc_id b;
     let (id_image_t, b) = lagfx_spv_builder_alloc_id b;
     let (id_ptr_uc_img, b) = lagfx_spv_builder_alloc_id b;
     let (id_fn_void, b) = lagfx_spv_builder_alloc_id b;
     let (id_in_img, b) = lagfx_spv_builder_alloc_id b;
     let (id_out_img, b) = lagfx_spv_builder_alloc_id b;
     let (id_main, b) = lagfx_spv_builder_alloc_id b;
     let (id_entry, b) = lagfx_spv_builder_alloc_id b;
     let (id_int_0, b) = lagfx_spv_builder_alloc_id b;
     let (id_coord_const, b) = lagfx_spv_builder_alloc_id b;
     let (id_img_val, b) = lagfx_spv_builder_alloc_id b;
     let (id_texel, b) = lagfx_spv_builder_alloc_id b;
     let (id_out_img_val, b) = lagfx_spv_builder_alloc_id b;
     b \<leftarrow> lagfx_spv_builder_emit_op_string LAGFX_SPV_OP_ENTRY_POINT [LAGFX_SPV_EXECUTION_MODEL_GLCOMPUTE, id_main] (ascii ''main'') [id_in_img, id_out_img] b;
     b \<leftarrow> lagfx_spv_builder_emit_op LAGFX_SPV_OP_EXECUTION_MODE [id_main, LAGFX_SPV_EXECUTION_MODE_LOCAL_SIZE, 1, 1, 1] b;
     b \<leftarrow> lagfx_spv_builder_emit_op LAGFX_SPV_OP_DECORATE [id_in_img, LAGFX_SPV_DECORATION_DESCRIPTOR_SET, 0] b;
     b \<leftarrow> lagfx_spv_builder_emit_op LAGFX_SPV_OP_DECORATE [id_in_img, LAGFX_SPV_DECORATION_BINDING, 0] b;
     b \<leftarrow> lagfx_spv_builder_emit_op LAGFX_SPV_OP_DECORATE [id_out_img, LAGFX_SPV_DECORATION_DESCRIPTOR_SET, 0] b;
     b \<leftarrow> lagfx_spv_builder_emit_op LAGFX_SPV_OP_DECORATE [id_out_img, LAGFX_SPV_DECORATION_BINDING, 1] b;
     b \<leftarrow> lagfx_spv_builder_emit_op LAGFX_SPV_OP_TYPE_VOID [id_void] b;
     b \<leftarrow> lagfx_spv_builder_emit_op LAGFX_SPV_OP_TYPE_FLOAT [id_float, 32] b;
     b \<leftarrow> lagfx_spv_builder_emit_op LAGFX_SPV_OP_TYPE_INT [id_int, 32, 1] b;
     b \<leftarrow> lagfx_spv_builder_emit_op LAGFX_SPV_OP_TYPE_VECTOR [id_v4f, id_float, 4] b;
     b \<leftarrow> lagfx_spv_builder_emit_op LAGFX_SPV_OP_TYPE_VECTOR [id_v2i, id_int, 2] b;
     b \<leftarrow> lagfx_spv_builder_emit_op LAGFX_SPV_OP_TYPE_IMAGE [id_image_t, id_float, LAGFX_SPV_DIM_2D, 0, 0, 0, 2, LAGFX_SPV_IMAGE_FORMAT_RGBA8] b;
     b \<leftarrow> lagfx_spv_builder_emit_op LAGFX_SPV_OP_TYPE_POINTER [id_ptr_uc_img, LAGFX_SPV_STORAGE_UNIFORM_CONSTANT, id_image_t] b;
     b \<leftarrow> lagfx_spv_builder_emit_op LAGFX_SPV_OP_TYPE_FUNCTION [id_fn_void, id_void] b;
     b \<leftarrow> lagfx_spv_builder_emit_op LAGFX_SPV_OP_CONSTANT [id_int, id_int_0, 0] b;
     b \<leftarrow> lagfx_spv_builder_emit_op LAGFX_SPV_OP_CONSTANT_COMPOSITE [id_v2i, id_coord_const, id_int_0, id_int_0] b;
     b \<leftarrow> lagfx_spv_builder_emit_op LAGFX_SPV_OP_VARIABLE [id_ptr_uc_img, id_in_img, LAGFX_SPV_STORAGE_UNIFORM_CONSTANT] b;
     b \<leftarrow> lagfx_spv_builder_emit_op LAGFX_SPV_OP_VARIABLE [id_ptr_uc_img, id_out_img, LAGFX_SPV_STORAGE_UNIFORM_CONSTANT] b;
     b \<leftarrow> lagfx_spv_builder_emit_op LAGFX_SPV_OP_FUNCTION [id_void, id_main, LAGFX_SPV_FUNCTION_CONTROL_NONE, id_fn_void] b;
     b \<leftarrow> lagfx_spv_builder_emit_op LAGFX_SPV_OP_LABEL [id_entry] b;
     b \<leftarrow> lagfx_spv_builder_emit_op LAGFX_SPV_OP_LOAD [id_image_t, id_img_val, id_in_img] b;
     b \<leftarrow> lagfx_spv_builder_emit_op LAGFX_SPV_OP_IMAGE_READ [id_v4f, id_texel, id_img_val, id_coord_const] b;
     b \<leftarrow> lagfx_spv_builder_emit_op LAGFX_SPV_OP_LOAD [id_image_t, id_out_img_val, id_out_img] b;
     b \<leftarrow> lagfx_spv_builder_emit_op LAGFX_SPV_OP_IMAGE_WRITE [id_out_img_val, id_coord_const, id_texel] b;
     b \<leftarrow> lagfx_spv_builder_emit_op LAGFX_SPV_OP_RETURN [] b;
     b \<leftarrow> lagfx_spv_builder_emit_op LAGFX_SPV_OP_FUNCTION_END [] b;
     lagfx_spv_builder_finish b }"

definition lagfx_air2spv_emit_texture_sample_stub :: "bytes option" where
  "lagfx_air2spv_emit_texture_sample_stub = do {
     let b = lagfx_spv_builder_create 128;
     b \<leftarrow> lagfx_spv_builder_emit_op LAGFX_SPV_OP_CAPABILITY [LAGFX_SPV_CAPABILITY_SHADER] b;
     b \<leftarrow> lagfx_spv_builder_emit_op LAGFX_SPV_OP_MEMORY_MODEL [LAGFX_SPV_ADDRESSING_MODEL_LOGICAL, LAGFX_SPV_MEMORY_MODEL_GLSL450] b;
     let (id_void, b) = lagfx_spv_builder_alloc_id b;
     let (id_float, b) = lagfx_spv_builder_alloc_id b;
     let (id_v2f, b) = lagfx_spv_builder_alloc_id b;
     let (id_v4f, b) = lagfx_spv_builder_alloc_id b;
     let (id_image_t, b) = lagfx_spv_builder_alloc_id b;
     let (id_sampler_t, b) = lagfx_spv_builder_alloc_id b;
     let (id_sampimg_t, b) = lagfx_spv_builder_alloc_id b;
     let (id_ptr_uc_img, b) = lagfx_spv_builder_alloc_id b;
     let (id_ptr_uc_samp, b) = lagfx_spv_builder_alloc_id b;
     let (id_ptr_in_v2f, b) = lagfx_spv_builder_alloc_id b;
     let (id_ptr_out_v4f, b) = lagfx_spv_builder_alloc_id b;
     let (id_fn_void, b) = lagfx_spv_builder_alloc_id b;
     let (id_tex, b) = lagfx_spv_builder_alloc_id b;
     let (id_samp, b) = lagfx_spv_builder_alloc_id b;
     let (id_uv_in, b) = lagfx_spv_builder_alloc_id b;
     let (id_color_out, b) = lagfx_spv_builder_alloc_id b;
     let (id_main, b) = lagfx_spv_builder_alloc_id b;
     let (id_entry, b) = lagfx_spv_builder_alloc_id b;
     let (id_uv_val, b) = lagfx_spv_builder_alloc_id b;
     let (id_img_val, b) = lagfx_spv_builder_alloc_id b;
     let (id_samp_val, b) = lagfx_spv_builder_alloc_id b;
     let (id_sampled, b) = lagfx_spv_builder_alloc_id b;
     let (id_rgba, b) = lagfx_spv_builder_alloc_id b;
     b \<leftarrow> lagfx_spv_builder_emit_op_string LAGFX_SPV_OP_ENTRY_POINT [LAGFX_SPV_EXECUTION_MODEL_FRAGMENT, id_main] (ascii ''main'') [id_uv_in, id_color_out, id_tex, id_samp] b;
     b \<leftarrow> lagfx_spv_builder_emit_op LAGFX_SPV_OP_EXECUTION_MODE [id_main, LAGFX_SPV_EXECUTION_MODE_ORIGIN_UPPER_LEFT] b;
     b \<leftarrow> lagfx_spv_builder_emit_op LAGFX_SPV_OP_DECORATE [id_tex, LAGFX_SPV_DECORATION_DESCRIPTOR_SET, 0] b;
     b \<leftarrow> lagfx_spv_builder_emit_op LAGFX_SPV_OP_DECORATE [id_tex, LAGFX_SPV_DECORATION_BINDING, 0] b;
     b \<leftarrow> lagfx_spv_builder_emit_op LAGFX_SPV_OP_DECORATE [id_samp, LAGFX_SPV_DECORATION_DESCRIPTOR_SET, 0] b;
     b \<leftarrow> lagfx_spv_builder_emit_op LAGFX_SPV_OP_DECORATE [id_samp, LAGFX_SPV_DECORATION_BINDING, 1] b;
     b \<leftarrow> lagfx_spv_builder_emit_op LAGFX_SPV_OP_DECORATE [id_uv_in, LAGFX_SPV_DECORATION_LOCATION, 0] b;
     b \<leftarrow> lagfx_spv_builder_emit_op LAGFX_SPV_OP_DECORATE [id_color_out, LAGFX_SPV_DECORATION_LOCATION, 0] b;
     b \<leftarrow> lagfx_spv_builder_emit_op LAGFX_SPV_OP_TYPE_VOID [id_void] b;
     b \<leftarrow> lagfx_spv_builder_emit_op LAGFX_SPV_OP_TYPE_FLOAT [id_float, 32] b;
     b \<leftarrow> lagfx_spv_builder_emit_op LAGFX_SPV_OP_TYPE_VECTOR [id_v2f, id_float, 2] b;
     b \<leftarrow> lagfx_spv_builder_emit_op LAGFX_SPV_OP_TYPE_VECTOR [id_v4f, id_float, 4] b;
     b \<leftarrow> lagfx_spv_builder_emit_op LAGFX_SPV_OP_TYPE_IMAGE [id_image_t, id_float, LAGFX_SPV_DIM_2D, 0, 0, 0, 1, LAGFX_SPV_IMAGE_FORMAT_UNKNOWN] b;
     b \<leftarrow> lagfx_spv_builder_emit_op LAGFX_SPV_OP_TYPE_SAMPLER [id_sampler_t] b;
     b \<leftarrow> lagfx_spv_builder_emit_op LAGFX_SPV_OP_TYPE_SAMPLED_IMAGE [id_sampimg_t, id_image_t] b;
     b \<leftarrow> lagfx_spv_builder_emit_op LAGFX_SPV_OP_TYPE_POINTER [id_ptr_uc_img, LAGFX_SPV_STORAGE_UNIFORM_CONSTANT, id_image_t] b;
     b \<leftarrow> lagfx_spv_builder_emit_op LAGFX_SPV_OP_TYPE_POINTER [id_ptr_uc_samp, LAGFX_SPV_STORAGE_UNIFORM_CONSTANT, id_sampler_t] b;
     b \<leftarrow> lagfx_spv_builder_emit_op LAGFX_SPV_OP_TYPE_POINTER [id_ptr_in_v2f, LAGFX_SPV_STORAGE_INPUT, id_v2f] b;
     b \<leftarrow> lagfx_spv_builder_emit_op LAGFX_SPV_OP_TYPE_POINTER [id_ptr_out_v4f, LAGFX_SPV_STORAGE_OUTPUT, id_v4f] b;
     b \<leftarrow> lagfx_spv_builder_emit_op LAGFX_SPV_OP_TYPE_FUNCTION [id_fn_void, id_void] b;
     b \<leftarrow> lagfx_spv_builder_emit_op LAGFX_SPV_OP_VARIABLE [id_ptr_uc_img, id_tex, LAGFX_SPV_STORAGE_UNIFORM_CONSTANT] b;
     b \<leftarrow> lagfx_spv_builder_emit_op LAGFX_SPV_OP_VARIABLE [id_ptr_uc_samp, id_samp, LAGFX_SPV_STORAGE_UNIFORM_CONSTANT] b;
     b \<leftarrow> lagfx_spv_builder_emit_op LAGFX_SPV_OP_VARIABLE [id_ptr_in_v2f, id_uv_in, LAGFX_SPV_STORAGE_INPUT] b;
     b \<leftarrow> lagfx_spv_builder_emit_op LAGFX_SPV_OP_VARIABLE [id_ptr_out_v4f, id_color_out, LAGFX_SPV_STORAGE_OUTPUT] b;
     b \<leftarrow> lagfx_spv_builder_emit_op LAGFX_SPV_OP_FUNCTION [id_void, id_main, LAGFX_SPV_FUNCTION_CONTROL_NONE, id_fn_void] b;
     b \<leftarrow> lagfx_spv_builder_emit_op LAGFX_SPV_OP_LABEL [id_entry] b;
     b \<leftarrow> lagfx_spv_builder_emit_op LAGFX_SPV_OP_LOAD [id_v2f, id_uv_val, id_uv_in] b;
     b \<leftarrow> lagfx_spv_builder_emit_op LAGFX_SPV_OP_LOAD [id_image_t, id_img_val, id_tex] b;
     b \<leftarrow> lagfx_spv_builder_emit_op LAGFX_SPV_OP_LOAD [id_sampler_t, id_samp_val, id_samp] b;
     b \<leftarrow> lagfx_spv_builder_emit_op LAGFX_SPV_OP_SAMPLED_IMAGE [id_sampimg_t, id_sampled, id_img_val, id_samp_val] b;
     b \<leftarrow> lagfx_spv_builder_emit_op LAGFX_SPV_OP_IMAGE_SAMPLE_IMPLICIT_LOD [id_v4f, id_rgba, id_sampled, id_uv_val] b;
     b \<leftarrow> lagfx_spv_builder_emit_op LAGFX_SPV_OP_STORE [id_color_out, id_rgba] b;
     b \<leftarrow> lagfx_spv_builder_emit_op LAGFX_SPV_OP_RETURN [] b;
     b \<leftarrow> lagfx_spv_builder_emit_op LAGFX_SPV_OP_FUNCTION_END [] b;
     lagfx_spv_builder_finish b }"

definition lagfx_air2spv_emit_unop_stub :: "bytes option" where
  "lagfx_air2spv_emit_unop_stub = do {
     let b = lagfx_spv_builder_create 96;
     let (id_glsl, b) = lagfx_spv_builder_alloc_id b;
     b \<leftarrow> lagfx_spv_builder_emit_op LAGFX_SPV_OP_CAPABILITY [LAGFX_SPV_CAPABILITY_SHADER] b;
     b \<leftarrow> lagfx_spv_builder_emit_op_string LAGFX_SPV_OP_EXT_INST_IMPORT [id_glsl] (ascii ''GLSL.std.450'') [] b;
     b \<leftarrow> lagfx_spv_builder_emit_op LAGFX_SPV_OP_MEMORY_MODEL [LAGFX_SPV_ADDRESSING_MODEL_LOGICAL, LAGFX_SPV_MEMORY_MODEL_GLSL450] b;
     let (id_void, b) = lagfx_spv_builder_alloc_id b;
     let (id_float, b) = lagfx_spv_builder_alloc_id b;
     let (id_v4float, b) = lagfx_spv_builder_alloc_id b;
     let (id_ptr_out, b) = lagfx_spv_builder_alloc_id b;
     let (id_fn_void, b) = lagfx_spv_builder_alloc_id b;
     let (id_c_n4, b) = lagfx_spv_builder_alloc_id b;
     let (id_c_3, b) = lagfx_spv_builder_alloc_id b;
     let (id_c_n2, b) = lagfx_spv_builder_alloc_id b;
     let (id_c_1, b) = lagfx_spv_builder_alloc_id b;
     let (id_input, b) = lagfx_spv_builder_alloc_id b;
     let (id_color_out, b) = lagfx_spv_builder_alloc_id b;
     let (id_neg, b) = lagfx_spv_builder_alloc_id b;
     let (id_abs, b) = lagfx_spv_builder_alloc_id b;
     let (id_sum, b) = lagfx_spv_builder_alloc_id b;
     let (id_main, b) = lagfx_spv_builder_alloc_id b;
     let (id_entry, b) = lagfx_spv_builder_alloc_id b;
     b \<leftarrow> lagfx_spv_builder_emit_op_string LAGFX_SPV_OP_ENTRY_POINT [LAGFX_SPV_EXECUTION_MODEL_FRAGMENT, id_main] (ascii ''main'') [id_color_out] b;
     b \<leftarrow> lagfx_spv_builder_emit_op LAGFX_SPV_OP_EXECUTION_MODE [id_main, LAGFX_SPV_EXECUTION_MODE_ORIGIN_UPPER_LEFT] b;
     b \<leftarrow> lagfx_spv_builder_emit_op LAGFX_SPV_OP_DECORATE [id_color_out, LAGFX_SPV_DECORATION_LOCATION, 0] b;
     b \<leftarrow> lagfx_spv_builder_emit_op LAGFX_SPV_OP_TYPE_VOID [id_void] b;
     b \<leftarrow> lagfx_spv_builder_emit_op LAGFX_SPV_OP_TYPE_FLOAT [id_float, 32] b;
     b \<leftarrow> lagfx_spv_builder_emit_op LAGFX_SPV_OP_TYPE_VECTOR [id_v4float, id_float, 4] b;
     b \<leftarrow> lagfx_spv_builder_emit_op LAGFX_SPV_OP_TYPE_POINTER [id_ptr_out, LAGFX_SPV_STORAGE_OUTPUT, id_v4float] b;
     b \<leftarrow> lagfx_spv_builder_emit_op LAGFX_SPV_OP_TYPE_FUNCTION [id_fn_void, id_void] b;
     b \<leftarrow> lagfx_spv_builder_emit_op LAGFX_SPV_OP_CONSTANT [id_float, id_c_n4, f32_minus_0_4] b;
     b \<leftarrow> lagfx_spv_builder_emit_op LAGFX_SPV_OP_CONSTANT [id_float, id_c_3, f32_0_3] b;
     b \<leftarrow> lagfx_spv_builder_emit_op LAGFX_SPV_OP_CONSTANT [id_float, id_c_n2, f32_minus_0_2] b;
     b \<leftarrow> lagfx_spv_builder_emit_op LAGFX_SPV_OP_CONSTANT [id_float, id_c_1, f32_1] b;
     b \<leftarrow> lagfx_spv_builder_emit_op LAGFX_SPV_OP_CONSTANT_COMPOSITE [id_v4float, id_input, id_c_n4, id_c_3, id_c_n2, id_c_1] b;
     b \<leftarrow> lagfx_spv_builder_emit_op LAGFX_SPV_OP_VARIABLE [id_ptr_out, id_color_out, LAGFX_SPV_STORAGE_OUTPUT] b;
     b \<leftarrow> lagfx_spv_builder_emit_op LAGFX_SPV_OP_FUNCTION [id_void, id_main, LAGFX_SPV_FUNCTION_CONTROL_NONE, id_fn_void] b;
     b \<leftarrow> lagfx_spv_builder_emit_op LAGFX_SPV_OP_LABEL [id_entry] b;
     b \<leftarrow> lagfx_spv_builder_emit_op LAGFX_SPV_OP_FNEGATE [id_v4float, id_neg, id_input] b;
     b \<leftarrow> lagfx_spv_builder_emit_op LAGFX_SPV_OP_EXT_INST [id_v4float, id_abs, id_glsl, LAGFX_SPV_GLSL_FABS, id_input] b;
     b \<leftarrow> lagfx_spv_builder_emit_op LAGFX_SPV_OP_FADD [id_v4float, id_sum, id_neg, id_abs] b;
     b \<leftarrow> lagfx_spv_builder_emit_op LAGFX_SPV_OP_STORE [id_color_out, id_sum] b;
     b \<leftarrow> lagfx_spv_builder_emit_op LAGFX_SPV_OP_RETURN [] b;
     b \<leftarrow> lagfx_spv_builder_emit_op LAGFX_SPV_OP_FUNCTION_END [] b;
     lagfx_spv_builder_finish b }"

definition lagfx_air2spv_emit_vector_shuffle_stub :: "bytes option" where
  "lagfx_air2spv_emit_vector_shuffle_stub = do {
     let b = lagfx_spv_builder_create 80;
     b \<leftarrow> lagfx_spv_builder_emit_op LAGFX_SPV_OP_CAPABILITY [LAGFX_SPV_CAPABILITY_SHADER] b;
     b \<leftarrow> lagfx_spv_builder_emit_op LAGFX_SPV_OP_MEMORY_MODEL [LAGFX_SPV_ADDRESSING_MODEL_LOGICAL, LAGFX_SPV_MEMORY_MODEL_GLSL450] b;
     let (id_void, b) = lagfx_spv_builder_alloc_id b;
     let (id_float, b) = lagfx_spv_builder_alloc_id b;
     let (id_v4float, b) = lagfx_spv_builder_alloc_id b;
     let (id_ptr_out, b) = lagfx_spv_builder_alloc_id b;
     let (id_fn_void, b) = lagfx_spv_builder_alloc_id b;
     let (id_c_r, b) = lagfx_spv_builder_alloc_id b;
     let (id_c_g, b) = lagfx_spv_builder_alloc_id b;
     let (id_c_b, b) = lagfx_spv_builder_alloc_id b;
     let (id_c_a, b) = lagfx_spv_builder_alloc_id b;
     let (id_input_vec, b) = lagfx_spv_builder_alloc_id b;
     let (id_color_out, b) = lagfx_spv_builder_alloc_id b;
     let (id_main, b) = lagfx_spv_builder_alloc_id b;
     let (id_entry, b) = lagfx_spv_builder_alloc_id b;
     let (id_shuffled, b) = lagfx_spv_builder_alloc_id b;
     b \<leftarrow> lagfx_spv_builder_emit_op_string LAGFX_SPV_OP_ENTRY_POINT [LAGFX_SPV_EXECUTION_MODEL_FRAGMENT, id_main] (ascii ''main'') [id_color_out] b;
     b \<leftarrow> lagfx_spv_builder_emit_op LAGFX_SPV_OP_EXECUTION_MODE [id_main, LAGFX_SPV_EXECUTION_MODE_ORIGIN_UPPER_LEFT] b;
     b \<leftarrow> lagfx_spv_builder_emit_op LAGFX_SPV_OP_DECORATE [id_color_out, LAGFX_SPV_DECORATION_LOCATION, 0] b;
     b \<leftarrow> lagfx_spv_builder_emit_op LAGFX_SPV_OP_TYPE_VOID [id_void] b;
     b \<leftarrow> lagfx_spv_builder_emit_op LAGFX_SPV_OP_TYPE_FLOAT [id_float, 32] b;
     b \<leftarrow> lagfx_spv_builder_emit_op LAGFX_SPV_OP_TYPE_VECTOR [id_v4float, id_float, 4] b;
     b \<leftarrow> lagfx_spv_builder_emit_op LAGFX_SPV_OP_TYPE_POINTER [id_ptr_out, LAGFX_SPV_STORAGE_OUTPUT, id_v4float] b;
     b \<leftarrow> lagfx_spv_builder_emit_op LAGFX_SPV_OP_TYPE_FUNCTION [id_fn_void, id_void] b;
     b \<leftarrow> lagfx_spv_builder_emit_op LAGFX_SPV_OP_CONSTANT [id_float, id_c_r, f32_0_2] b;
     b \<leftarrow> lagfx_spv_builder_emit_op LAGFX_SPV_OP_CONSTANT [id_float, id_c_g, f32_0_5] b;
     b \<leftarrow> lagfx_spv_builder_emit_op LAGFX_SPV_OP_CONSTANT [id_float, id_c_b, f32_0_8] b;
     b \<leftarrow> lagfx_spv_builder_emit_op LAGFX_SPV_OP_CONSTANT [id_float, id_c_a, f32_1] b;
     b \<leftarrow> lagfx_spv_builder_emit_op LAGFX_SPV_OP_CONSTANT_COMPOSITE [id_v4float, id_input_vec, id_c_r, id_c_g, id_c_b, id_c_a] b;
     b \<leftarrow> lagfx_spv_builder_emit_op LAGFX_SPV_OP_VARIABLE [id_ptr_out, id_color_out, LAGFX_SPV_STORAGE_OUTPUT] b;
     b \<leftarrow> lagfx_spv_builder_emit_op LAGFX_SPV_OP_FUNCTION [id_void, id_main, LAGFX_SPV_FUNCTION_CONTROL_NONE, id_fn_void] b;
     b \<leftarrow> lagfx_spv_builder_emit_op LAGFX_SPV_OP_LABEL [id_entry] b;
     b \<leftarrow> lagfx_spv_builder_emit_op LAGFX_SPV_OP_VECTOR_SHUFFLE [id_v4float, id_shuffled, id_input_vec, id_input_vec, 3, 2, 1, 0] b;
     b \<leftarrow> lagfx_spv_builder_emit_op LAGFX_SPV_OP_STORE [id_color_out, id_shuffled] b;
     b \<leftarrow> lagfx_spv_builder_emit_op LAGFX_SPV_OP_RETURN [] b;
     b \<leftarrow> lagfx_spv_builder_emit_op LAGFX_SPV_OP_FUNCTION_END [] b;
     lagfx_spv_builder_finish b }"

definition lagfx_air2spv_emit_vertex_id_stub :: "bytes option" where
  "lagfx_air2spv_emit_vertex_id_stub = do {
     let b = lagfx_spv_builder_create 96;
     b \<leftarrow> lagfx_spv_builder_emit_op LAGFX_SPV_OP_CAPABILITY [LAGFX_SPV_CAPABILITY_SHADER] b;
     b \<leftarrow> lagfx_spv_builder_emit_op LAGFX_SPV_OP_MEMORY_MODEL [LAGFX_SPV_ADDRESSING_MODEL_LOGICAL, LAGFX_SPV_MEMORY_MODEL_GLSL450] b;
     let (id_void, b) = lagfx_spv_builder_alloc_id b;
     let (id_uint, b) = lagfx_spv_builder_alloc_id b;
     let (id_float, b) = lagfx_spv_builder_alloc_id b;
     let (id_v4float, b) = lagfx_spv_builder_alloc_id b;
     let (id_ptr_in_u, b) = lagfx_spv_builder_alloc_id b;
     let (id_ptr_out_v, b) = lagfx_spv_builder_alloc_id b;
     let (id_fn_void, b) = lagfx_spv_builder_alloc_id b;
     let (id_c0, b) = lagfx_spv_builder_alloc_id b;
     let (id_c1, b) = lagfx_spv_builder_alloc_id b;
     let (id_vid_var, b) = lagfx_spv_builder_alloc_id b;
     let (id_pos_var, b) = lagfx_spv_builder_alloc_id b;
     let (id_main, b) = lagfx_spv_builder_alloc_id b;
     let (id_entry, b) = lagfx_spv_builder_alloc_id b;
     let (id_loaded, b) = lagfx_spv_builder_alloc_id b;
     let (id_vid_f, b) = lagfx_spv_builder_alloc_id b;
     let (id_out_vec, b) = lagfx_spv_builder_alloc_id b;
     b \<leftarrow> lagfx_spv_builder_emit_op_string LAGFX_SPV_OP_ENTRY_POINT [LAGFX_SPV_EXECUTION_MODEL_VERTEX, id_main] (ascii ''main'') [id_vid_var, id_pos_var] b;
     b \<leftarrow> lagfx_spv_builder_emit_op LAGFX_SPV_OP_DECORATE [id_vid_var, LAGFX_SPV_DECORATION_BUILTIN, LAGFX_SPV_BUILTIN_VERTEX_INDEX] b;
     b \<leftarrow> lagfx_spv_builder_emit_op LAGFX_SPV_OP_DECORATE [id_pos_var, LAGFX_SPV_DECORATION_BUILTIN, LAGFX_SPV_BUILTIN_POSITION] b;
     b \<leftarrow> lagfx_spv_builder_emit_op LAGFX_SPV_OP_TYPE_VOID [id_void] b;
     b \<leftarrow> lagfx_spv_builder_emit_op LAGFX_SPV_OP_TYPE_INT [id_uint, 32, 0] b;
     b \<leftarrow> lagfx_spv_builder_emit_op LAGFX_SPV_OP_TYPE_FLOAT [id_float, 32] b;
     b \<leftarrow> lagfx_spv_builder_emit_op LAGFX_SPV_OP_TYPE_VECTOR [id_v4float, id_float, 4] b;
     b \<leftarrow> lagfx_spv_builder_emit_op LAGFX_SPV_OP_TYPE_POINTER [id_ptr_in_u, LAGFX_SPV_STORAGE_INPUT, id_uint] b;
     b \<leftarrow> lagfx_spv_builder_emit_op LAGFX_SPV_OP_TYPE_POINTER [id_ptr_out_v, LAGFX_SPV_STORAGE_OUTPUT, id_v4float] b;
     b \<leftarrow> lagfx_spv_builder_emit_op LAGFX_SPV_OP_TYPE_FUNCTION [id_fn_void, id_void] b;
     b \<leftarrow> lagfx_spv_builder_emit_op LAGFX_SPV_OP_CONSTANT [id_float, id_c0, f32_0] b;
     b \<leftarrow> lagfx_spv_builder_emit_op LAGFX_SPV_OP_CONSTANT [id_float, id_c1, f32_1] b;
     b \<leftarrow> lagfx_spv_builder_emit_op LAGFX_SPV_OP_VARIABLE [id_ptr_in_u, id_vid_var, LAGFX_SPV_STORAGE_INPUT] b;
     b \<leftarrow> lagfx_spv_builder_emit_op LAGFX_SPV_OP_VARIABLE [id_ptr_out_v, id_pos_var, LAGFX_SPV_STORAGE_OUTPUT] b;
     b \<leftarrow> lagfx_spv_builder_emit_op LAGFX_SPV_OP_FUNCTION [id_void, id_main, LAGFX_SPV_FUNCTION_CONTROL_NONE, id_fn_void] b;
     b \<leftarrow> lagfx_spv_builder_emit_op LAGFX_SPV_OP_LABEL [id_entry] b;
     b \<leftarrow> lagfx_spv_builder_emit_op LAGFX_SPV_OP_LOAD [id_uint, id_loaded, id_vid_var] b;
     b \<leftarrow> lagfx_spv_builder_emit_op LAGFX_SPV_OP_CONVERT_U_TO_F [id_float, id_vid_f, id_loaded] b;
     b \<leftarrow> lagfx_spv_builder_emit_op LAGFX_SPV_OP_COMPOSITE_CONSTRUCT [id_v4float, id_out_vec, id_vid_f, id_c0, id_c0, id_c1] b;
     b \<leftarrow> lagfx_spv_builder_emit_op LAGFX_SPV_OP_STORE [id_pos_var, id_out_vec] b;
     b \<leftarrow> lagfx_spv_builder_emit_op LAGFX_SPV_OP_RETURN [] b;
     b \<leftarrow> lagfx_spv_builder_emit_op LAGFX_SPV_OP_FUNCTION_END [] b;
     lagfx_spv_builder_finish b }"

subsection \<open>Running the builder\<close>

text \<open>The instructions of the five sections so far, and the number of ids taken.\<close>

type_synonym spv_sections = "spv_sec \<Rightarrow> (u32 \<times> words) list"

definition sections_of :: "spv_op list \<Rightarrow> spv_sections" where
  "sections_of ops k = map op_instr (section_ops k ops)"

definition built :: "spv_sections \<Rightarrow> nat \<Rightarrow> u32 \<Rightarrow> lagfx_spv_builder \<Rightarrow> bool" where
  "built secs m k b \<longleftrightarrow> next_id b = k \<and>
     (\<exists>ops n. run_ops ops (lagfx_spv_builder_create n) = Some (b\<lparr>next_id := 1\<rparr>) \<and> sections_of ops = secs \<and> length ops \<le> m \<and>
        list_all (\<lambda>x. length (op_words x) < 100 \<and> op_section x \<noteq> None) ops)"

definition emits_valid :: "bytes option \<Rightarrow> bool" where
  "emits_valid r \<longleftrightarrow> (\<exists>spv. r = Some spv \<and> spv_module spv \<and> spirv_valid (spv_words spv ! 3) (instrs_of spv))"

lemma set_sec_next_id: "set_sec k s (b\<lparr>next_id := j\<rparr>) = (set_sec k s b)\<lparr>next_id := j\<rparr>"
  by (simp add: set_sec_def)

lemma emit_next_id:
  "lagfx_spv_builder_emit_op opc args (b\<lparr>next_id := j\<rparr>) =
     map_option (next_id_update (\<lambda>_. j)) (lagfx_spv_builder_emit_op opc args b)"
  "lagfx_spv_builder_emit_op_string opc pre str suf (b\<lparr>next_id := j\<rparr>) =
     map_option (next_id_update (\<lambda>_. j)) (lagfx_spv_builder_emit_op_string opc pre str suf b)"
  unfolding lagfx_spv_builder_emit_op_def lagfx_spv_builder_emit_op_string_def
  by (auto simp: Let_def set_sec_next_id map_option_bind bind_map_option o_def intro!: Option.bind_cong)

lemma emit_keeps_id:
  "lagfx_spv_builder_emit_op opc args b = Some b' \<Longrightarrow> next_id b' = next_id b"
  "lagfx_spv_builder_emit_op_string opc pre str suf b = Some b' \<Longrightarrow> next_id b' = next_id b"
  unfolding lagfx_spv_builder_emit_op_def lagfx_spv_builder_emit_op_string_def
  by (auto simp: Let_def set_sec_def bind_eq_Some_conv)

lemma run_ops_snoc: "run_ops (ops @ [x]) b = Option.bind (run_ops ops b) (run_op x)"
proof (induction ops arbitrary: b)
  case Nil
  show ?case by (cases "run_op x b") simp_all
next
  case (Cons y ops)
  then show ?case by (cases "run_op y b") simp_all
qed

lemma small_ops_size: "list_all (\<lambda>x. length (op_words x) < 100 \<and> P x) ops \<Longrightarrow> length (concat (map op_words ops)) \<le> 100 * length ops"
  by (induction ops) auto

lemma built_step:
  assumes "built secs m k b" "m < 1000" "length (op_words x) < 100" "op_section x = Some s"
    and r: "\<And>b j. run_op x (b\<lparr>next_id := j\<rparr>) = map_option (next_id_update (\<lambda>_. j)) (run_op x b)"
    and i: "\<And>b b'. run_op x b = Some b' \<Longrightarrow> next_id b' = next_id b"
  shows "\<exists>b'. run_op x b = Some b' \<and> built (secs(s := secs s @ [op_instr x])) (m + 1) k b'"
proof -
  obtain ops n where n: "run_ops ops (lagfx_spv_builder_create n) = Some (b\<lparr>next_id := 1\<rparr>)"
      "sections_of ops = secs" "length ops \<le> m" "list_all (\<lambda>x. length (op_words x) < 100 \<and> op_section x \<noteq> None) ops"
    using assms(1) by (auto simp: built_def)
  have l: "list_all (\<lambda>x. length (op_words x) < 100 \<and> op_section x \<noteq> None) (ops @ [x])" using n(4) assms(3,4) by simp
  have "length (concat (map op_words (ops @ [x]))) \<le> 2 ^ 31" using small_ops_size[OF l] assms(2) n(3) by simp
  then obtain b1 where b1: "run_ops (ops @ [x]) (lagfx_spv_builder_create n) = Some b1"
    using run_ops_returns[OF wf_create, of n "ops @ [x]"] locals_marked_none[of "ops @ [x]" False] l
    by (auto simp: body_words_def lagfx_spv_builder_create_def list_all_iff)
  then have "run_op x (b\<lparr>next_id := 1\<rparr>) = Some b1" by (simp add: run_ops_snoc n(1))
  then obtain b' where b': "run_op x b = Some b'" "b1 = b'\<lparr>next_id := 1\<rparr>" by (auto simp: r)
  have "sections_of (ops @ [x]) = secs(s := secs s @ [op_instr x])"
    unfolding n(2)[symmetric] using assms(4) by (auto simp: sections_of_def section_ops_def fun_eq_iff)
  then have "built (secs(s := secs s @ [op_instr x])) (m + 1) k b'"
    using b1 b'(2) l n(3) i[OF b'(1)] assms(1) unfolding built_def by (auto intro!: exI[of _ "ops @ [x]"])
  then show ?thesis using b'(1) by blast
qed

text \<open>The sections as a tuple of lists, so that a rule updates one of them.\<close>

fun sections :: "(u32 \<times> words) list \<Rightarrow> (u32 \<times> words) list \<Rightarrow> (u32 \<times> words) list \<Rightarrow> (u32 \<times> words) list \<Rightarrow> (u32 \<times> words) list \<Rightarrow> spv_sections" where
  "sections c p a t f SEC_CAPS = c"
| "sections c p a t f SEC_PREAMBLE = p"
| "sections c p a t f SEC_ANNOT = a"
| "sections c p a t f SEC_TYPES = t"
| "sections c p a t f SEC_FUNCS = f"

lemma sections_upd:
  "(sections c p a t f)(SEC_CAPS := c') = sections c' p a t f" "(sections c p a t f)(SEC_PREAMBLE := p') = sections c p' a t f"
  "(sections c p a t f)(SEC_ANNOT := a') = sections c p a' t f" "(sections c p a t f)(SEC_TYPES := t') = sections c p a t' f"
  "(sections c p a t f)(SEC_FUNCS := f') = sections c p a t f'"
  by (rule ext, rename_tac s, case_tac s, simp_all)+

lemma start_rule:
  "(\<And>b. built (sections [] [] [] [] []) 0 1 b \<Longrightarrow> emits_valid (f b)) \<Longrightarrow> emits_valid (Let (lagfx_spv_builder_create n) f)"
proof -
  assume f: "\<And>b. built (sections [] [] [] [] []) 0 1 b \<Longrightarrow> emits_valid (f b)"
  have "sections_of [] = sections [] [] [] [] []"
    by (rule ext, rename_tac s, case_tac s, simp_all add: sections_of_def section_ops_def)
  then have "built (sections [] [] [] [] []) 0 1 (lagfx_spv_builder_create n)"
    unfolding built_def by (auto simp: lagfx_spv_builder_create_def intro!: exI[of _ "[]"] exI[of _ n])
  then show ?thesis using f by simp
qed

lemma emit_rule:
  assumes "built secs m k b" "section_of opc args = s" "secs(s := secs s @ [(opc AND 0xFFFF, args)]) = secs'"
    and "m < 1000" "length args < 99" "m + 1 = m'"
    and "\<And>b'. built secs' m' k b' \<Longrightarrow> emits_valid (f b')"
  shows "emits_valid (Option.bind (lagfx_spv_builder_emit_op opc args b) f)"
proof -
  have "\<exists>b'. run_op (Emit_op opc args) b = Some b' \<and> built (secs(s := secs s @ [op_instr (Emit_op opc args)])) (m + 1) k b'"
    by (rule built_step[OF assms(1,4)]) (use assms(2,5) emit_next_id emit_keeps_id in auto)
  then show ?thesis using assms(3,6,7) by auto
qed

lemma emit_string_rule:
  assumes "built secs m k b" "section_of opc pre = s" "secs(s := secs s @ [(opc AND 0xFFFF, pre @ pack_string str @ suf)]) = secs'"
    and "m < 1000" "length pre + length str div 4 + length suf < 98" "m + 1 = m'"
    and "\<And>b'. built secs' m' k b' \<Longrightarrow> emits_valid (f b')"
  shows "emits_valid (Option.bind (lagfx_spv_builder_emit_op_string opc pre str suf b) f)"
proof -
  have "\<exists>b'. run_op (Emit_string opc pre str suf) b = Some b' \<and>
      built (secs(s := secs s @ [op_instr (Emit_string opc pre str suf)])) (m + 1) k b'"
    by (rule built_step[OF assms(1,4)]) (use assms(2,5) emit_next_id emit_keeps_id in \<open>auto simp: pack_string_def\<close>)
  then show ?thesis using assms(3,6,7) by auto
qed

lemma alloc_rule:
  assumes "built secs m k b" "k + 1 = k'" "\<And>b'. built secs m k' b' \<Longrightarrow> emits_valid (f k b')"
  shows "emits_valid (Let (lagfx_spv_builder_alloc_id b) (\<lambda>(x, b). f x b))"
  using assms by (auto simp: built_def lagfx_spv_builder_alloc_id_def)

lemma layout_ops_funcs: "list_all (\<lambda>x. op_section x \<noteq> None) ops \<Longrightarrow> layout_ops ops = section_ops SEC_FUNCS ops"
proof (induction ops)
  case (Cons x ops)
  then show ?case by (cases x) (simp_all add: section_ops_def)
qed (simp add: section_ops_def)

lemma finish_rule:
  assumes "built (sections c p a t f) m k b" "spirv_valid k (c @ p @ a @ t @ f)"
  shows "emits_valid (lagfx_spv_builder_finish b)"
proof -
  obtain ops n where n: "run_ops ops (lagfx_spv_builder_create n) = Some (b\<lparr>next_id := 1\<rparr>)"
      "sections_of ops = sections c p a t f" "list_all (\<lambda>x. length (op_words x) < 100 \<and> op_section x \<noteq> None) ops"
    using assms(1) by (auto simp: built_def)
  have ar: "map op_instr (arrange ops) = c @ p @ a @ t @ f"
    using n(2,3) layout_ops_funcs[of ops] by (simp add: arrange_def sections_of_def fun_eq_iff list_all_iff)
  have "finish_words (b\<lparr>next_id := 1\<rparr>) = Some (module_header 1 @ concat (map op_words (arrange ops)))"
    by (rule finish_arrange[OF n(1)])
  then have "finish_words b = Some (module_header k @ concat (map op_words (arrange ops)))"
    using assms(1) by (auto simp: finish_words_def built_def bind_eq_Some_conv Let_def module_header_def body_words_def split: if_splits)
  then have fin: "lagfx_spv_builder_finish b = Some (words_bytes (module_header k @ concat (map op_words (arrange ops))))"
    by (simp add: lagfx_spv_builder_finish_def words_bytes_def)
  define spv where "spv = words_bytes (module_header k @ concat (map op_words (arrange ops)))"
  have w: "spv_words spv = module_header k @ concat (map op_words (arrange ops))"
    unfolding spv_def words_bytes_def by (rule spv_words_bytes)
  have "list_all (\<lambda>x. length (op_words x) < 65536 \<and> x \<noteq> Mark_locals) (arrange ops)"
    using n(3) arrange_set[of ops] by (fastforce simp: list_all_iff)
  then have "instrs_of spv = c @ p @ a @ t @ f" unfolding instrs_of_def w by (simp add: module_header_def decode_ops ar)
  moreover have "spv_module spv" "spv_words spv ! 3 = k"
    unfolding spv_module_def w by (simp_all add: spv_def module_header_def LAGFX_SPV_MAGIC_def SPV_MAGIC_def)
  ultimately show ?thesis using assms(2) fin[folded spv_def] unfolding emits_valid_def by simp
qed

lemmas emit_simps = section_of_def LAGFX_SPV_STORAGE_FUNCTION_def sections_upd

subsection \<open>The shaders are valid\<close>

lemma valid_alu_binops: "emits_valid lagfx_air2spv_emit_alu_binops_stub"
  unfolding lagfx_air2spv_emit_alu_binops_stub_def
  by (rule start_rule,
      (erule emit_rule, simp add: emit_simps, simp add: emit_simps, simp, simp, simp |
       erule emit_string_rule, simp add: emit_simps, simp add: emit_simps, simp, simp, simp | erule alloc_rule, simp)+,
      erule finish_rule, code_simp)

lemma valid_buffer_load: "emits_valid lagfx_air2spv_emit_buffer_load_stub"
  unfolding lagfx_air2spv_emit_buffer_load_stub_def
  by (rule start_rule,
      (erule emit_rule, simp add: emit_simps, simp add: emit_simps, simp, simp, simp |
       erule emit_string_rule, simp add: emit_simps, simp add: emit_simps, simp, simp, simp | erule alloc_rule, simp)+,
      erule finish_rule, code_simp)

lemma valid_constant_float: "emits_valid lagfx_air2spv_emit_constant_float_stub"
  unfolding lagfx_air2spv_emit_constant_float_stub_def
  by (rule start_rule,
      (erule emit_rule, simp add: emit_simps, simp add: emit_simps, simp, simp, simp |
       erule emit_string_rule, simp add: emit_simps, simp add: emit_simps, simp, simp, simp | erule alloc_rule, simp)+,
      erule finish_rule, code_simp)

lemma valid_control_flow: "emits_valid lagfx_air2spv_emit_control_flow_stub"
  unfolding lagfx_air2spv_emit_control_flow_stub_def
  by (rule start_rule,
      (erule emit_rule, simp add: emit_simps, simp add: emit_simps, simp, simp, simp |
       erule emit_string_rule, simp add: emit_simps, simp add: emit_simps, simp, simp, simp | erule alloc_rule, simp)+,
      erule finish_rule, code_simp)

lemma valid_extinst_glsl: "emits_valid lagfx_air2spv_emit_extinst_glsl_stub"
  unfolding lagfx_air2spv_emit_extinst_glsl_stub_def
  by (rule start_rule,
      (erule emit_rule, simp add: emit_simps, simp add: emit_simps, simp, simp, simp |
       erule emit_string_rule, simp add: emit_simps, simp add: emit_simps, simp, simp, simp | erule alloc_rule, simp)+,
      erule finish_rule, code_simp)

lemma valid_fragment_input: "emits_valid lagfx_air2spv_emit_fragment_input_stub"
  unfolding lagfx_air2spv_emit_fragment_input_stub_def
  by (rule start_rule,
      (erule emit_rule, simp add: emit_simps, simp add: emit_simps, simp, simp, simp |
       erule emit_string_rule, simp add: emit_simps, simp add: emit_simps, simp, simp, simp | erule alloc_rule, simp)+,
      erule finish_rule, code_simp)

lemma valid_loop: "emits_valid lagfx_air2spv_emit_loop_stub"
  unfolding lagfx_air2spv_emit_loop_stub_def
  by (rule start_rule,
      (erule emit_rule, simp add: emit_simps, simp add: emit_simps, simp, simp, simp |
       erule emit_string_rule, simp add: emit_simps, simp add: emit_simps, simp, simp, simp | erule alloc_rule, simp)+,
      erule finish_rule, code_simp)

lemma valid_position: "emits_valid lagfx_air2spv_emit_position_stub"
  unfolding lagfx_air2spv_emit_position_stub_def
  by (rule start_rule,
      (erule emit_rule, simp add: emit_simps, simp add: emit_simps, simp, simp, simp |
       erule emit_string_rule, simp add: emit_simps, simp add: emit_simps, simp, simp, simp | erule alloc_rule, simp)+,
      erule finish_rule, code_simp)

lemma valid_render_target: "emits_valid lagfx_air2spv_emit_render_target_stub"
  unfolding lagfx_air2spv_emit_render_target_stub_def
  by (rule start_rule,
      (erule emit_rule, simp add: emit_simps, simp add: emit_simps, simp, simp, simp |
       erule emit_string_rule, simp add: emit_simps, simp add: emit_simps, simp, simp, simp | erule alloc_rule, simp)+,
      erule finish_rule, code_simp)

lemma valid_storage_image: "emits_valid lagfx_air2spv_emit_storage_image_stub"
  unfolding lagfx_air2spv_emit_storage_image_stub_def
  by (rule start_rule,
      (erule emit_rule, simp add: emit_simps, simp add: emit_simps, simp, simp, simp |
       erule emit_string_rule, simp add: emit_simps, simp add: emit_simps, simp, simp, simp | erule alloc_rule, simp)+,
      erule finish_rule, code_simp)

lemma valid_texture_sample: "emits_valid lagfx_air2spv_emit_texture_sample_stub"
  unfolding lagfx_air2spv_emit_texture_sample_stub_def
  by (rule start_rule,
      (erule emit_rule, simp add: emit_simps, simp add: emit_simps, simp, simp, simp |
       erule emit_string_rule, simp add: emit_simps, simp add: emit_simps, simp, simp, simp | erule alloc_rule, simp)+,
      erule finish_rule, code_simp)

lemma valid_unop: "emits_valid lagfx_air2spv_emit_unop_stub"
  unfolding lagfx_air2spv_emit_unop_stub_def
  by (rule start_rule,
      (erule emit_rule, simp add: emit_simps, simp add: emit_simps, simp, simp, simp |
       erule emit_string_rule, simp add: emit_simps, simp add: emit_simps, simp, simp, simp | erule alloc_rule, simp)+,
      erule finish_rule, code_simp)

lemma valid_vector_shuffle: "emits_valid lagfx_air2spv_emit_vector_shuffle_stub"
  unfolding lagfx_air2spv_emit_vector_shuffle_stub_def
  by (rule start_rule,
      (erule emit_rule, simp add: emit_simps, simp add: emit_simps, simp, simp, simp |
       erule emit_string_rule, simp add: emit_simps, simp add: emit_simps, simp, simp, simp | erule alloc_rule, simp)+,
      erule finish_rule, code_simp)

lemma valid_vertex_id: "emits_valid lagfx_air2spv_emit_vertex_id_stub"
  unfolding lagfx_air2spv_emit_vertex_id_stub_def
  by (rule start_rule,
      (erule emit_rule, simp add: emit_simps, simp add: emit_simps, simp, simp, simp |
       erule emit_string_rule, simp add: emit_simps, simp add: emit_simps, simp, simp, simp | erule alloc_rule, simp)+,
      erule finish_rule, code_simp)

end
