(* ===== verification/AirTranslate.thy ===== *)
theory AirTranslate
  imports AirFacts ReferenceShaders "HOL-Library.Sublist"
begin

text \<open>
  The module translator \<^verbatim>\<open>src/air2spv/translate.c\<close>: the stage of a shader from its named metadata,
  the bindings of its arguments from the metadata graph, and the choice between the
  translation of a function body, which is an argument here, and the reference shaders.
  Operands of a metadata record are read through the pointer the record keeps, so \<^const>\<open>None\<close>
  is a read through a pointer the arena has left, or of a function entry that does not exist.
\<close>

subsection \<open>Metadata\<close>

datatype lagfx_translate_stage = LAGFX_TRANS_STAGE_UNKNOWN | LAGFX_TRANS_STAGE_VERTEX | LAGFX_TRANS_STAGE_FRAGMENT

definition discover_stage :: "lagfx_air_module \<Rightarrow> lagfx_translate_stage" where
  "discover_stage m =
     (if lagfx_air_module_named_metadata m (ascii ''air.vertex'') \<noteq> None then LAGFX_TRANS_STAGE_VERTEX
      else if lagfx_air_module_named_metadata m (ascii ''air.fragment'') \<noteq> None then LAGFX_TRANS_STAGE_FRAGMENT
      else LAGFX_TRANS_STAGE_UNKNOWN)"

definition md_record_of :: "lagfx_air_module \<Rightarrow> u32 \<Rightarrow> lagfx_air_metadata option" where
  "md_record_of m global_id =
     (let nms = length (m_md_strings m) in
      if unat global_id < nms \<or> length (m_metadata m) \<le> unat global_id - nms then None
      else Some (m_metadata m ! (unat global_id - nms)))"

definition md_string :: "lagfx_air_module \<Rightarrow> u32 \<Rightarrow> bytes option" where
  "md_string m global_id = lagfx_air_module_metadata_string_by_id m (unat global_id)"

text \<open>Operand \<open>j\<close> of a record.\<close>

definition md_operand :: "lagfx_air_module \<Rightarrow> lagfx_air_metadata \<Rightarrow> nat \<Rightarrow> u32 option" where
  "md_operand m md j = (if md_valid m md \<and> j < length (md_operands md) then Some (md_operands md ! j) else None)"

definition md_value_int :: "lagfx_air_module \<Rightarrow> lagfx_air_metadata option \<Rightarrow> int option" where
  "md_value_int m v =
     (case v of
        None \<Rightarrow> Some (- 1)
      | Some md \<Rightarrow>
          if md_kind md \<noteq> LAGFX_AIR_MD_VALUE \<or> length (md_operands md) < 2 then Some (- 1)
          else do {
            value_id \<leftarrow> md_operand m md 1;
            let base = (of_nat (m_num_globalvars m) + of_nat (m_num_functions m) :: u32);
            if value_id < base then Some (- 1)
            else if length (m_constants m) \<le> unat (value_id - base) then Some (- 1)
            else let c = m_constants m ! unat (value_id - base) in
              (case (cst_kind c, cst_payload c) of
                 (LAGFX_AIR_CONST_INTEGER, Pay_i64 x) \<Rightarrow> Some (sint x)
               | (LAGFX_AIR_CONST_NULL, _) \<Rightarrow> Some 0
               | _ \<Rightarrow> Some (- 1)) })"

subsection \<open>Argument bindings\<close>

record arg_scan =
  as_kind :: nat
  as_loc :: int
  as_stagein :: bool

definition scan_operand :: "lagfx_air_module \<Rightarrow> lagfx_air_metadata \<Rightarrow> nat \<Rightarrow> arg_scan \<Rightarrow> arg_scan option" where
  "scan_operand m arg j st = do {
     x \<leftarrow> md_operand m arg j;
     if x = 0 then Some st
     else case md_string m (x - 1) of
       None \<Rightarrow> Some st
     | Some s0 \<Rightarrow>
         (let s = c_string s0; first = (\<lambda>k. if as_kind st \<noteq> 0 then as_kind st else k) in
          if s = ascii ''air.buffer'' then Some (st\<lparr>as_kind := first 1\<rparr>)
          else if s = ascii ''air.texture'' then Some (st\<lparr>as_kind := first 2\<rparr>)
          else if s = ascii ''air.sampler'' then Some (st\<lparr>as_kind := first 3\<rparr>)
          else if s \<in> {ascii ''air.vertex_input'', ascii ''air.position'', ascii ''air.vertex_id'', ascii ''air.fragment_input''}
          then Some (st\<lparr>as_stagein := True\<rparr>)
          else if s = ascii ''air.location_index'' \<and> j + 1 < length (md_operands arg) then do {
            y \<leftarrow> md_operand m arg (j + 1);
            if y \<noteq> 0 then do { loc \<leftarrow> md_value_int m (md_record_of m (y - 1)); Some (st\<lparr>as_loc := loc\<rparr>) } else Some st }
          else Some st) }"

fun scan_operands :: "lagfx_air_module \<Rightarrow> lagfx_air_metadata \<Rightarrow> nat list \<Rightarrow> arg_scan \<Rightarrow> arg_scan option" where
  "scan_operands m arg [] st = Some st"
| "scan_operands m arg (j # js) st = do { st' \<leftarrow> scan_operand m arg j st; scan_operands m arg js st' }"

record lagfx_air_arg_binding =
  ab_kind :: nat
  ab_metal_index :: int

definition arg_binding :: "lagfx_air_module \<Rightarrow> u32 \<Rightarrow> lagfx_air_arg_binding option option" where
  "arg_binding m op =
     (if op = 0 then Some None
      else case md_record_of m (op - 1) of
        None \<Rightarrow> Some None
      | Some arg \<Rightarrow>
          if md_kind arg \<noteq> LAGFX_AIR_MD_NODE then Some None
          else do {
            st \<leftarrow> scan_operands m arg [0..<length (md_operands arg)] \<lparr>as_kind = 0, as_loc = - 1, as_stagein = False\<rparr>;
            Some (if as_stagein st \<or> as_kind st = 0 then None
                  else Some \<lparr>ab_kind = as_kind st,
                    ab_metal_index = (if 0 \<le> as_loc st \<and> as_loc st < 0x7fff then as_loc st else - 1)\<rparr>) })"

fun bindings_of :: "lagfx_air_module \<Rightarrow> lagfx_air_metadata \<Rightarrow> nat list \<Rightarrow> nat \<Rightarrow> lagfx_air_arg_binding list option" where
  "bindings_of m args [] room = Some []"
| "bindings_of m args (a # as) room =
     (if room = 0 then Some []
      else do {
        op \<leftarrow> md_operand m args a;
        b \<leftarrow> arg_binding m op;
        case b of
          None \<Rightarrow> bindings_of m args as room
        | Some x \<Rightarrow> do { rest \<leftarrow> bindings_of m args as (room - 1); Some (x # rest) } })"

definition lagfx_air_arg_bindings :: "lagfx_air_module \<Rightarrow> nat \<Rightarrow> lagfx_air_arg_binding list option" where
  "lagfx_air_arg_bindings m cap =
     (if cap = 0 then Some []
      else
        let named = (case lagfx_air_module_named_metadata m (ascii ''air.vertex'') of
                       Some n \<Rightarrow> Some n | None \<Rightarrow> lagfx_air_module_named_metadata m (ascii ''air.fragment'')) in
        case named of
          None \<Rightarrow> Some []
        | Some nd \<Rightarrow>
            if md_operands nd = [] then Some []
            else do {
              ep_id \<leftarrow> md_operand m nd 0;
              case md_record_of m ep_id of
                None \<Rightarrow> Some []
              | Some ep \<Rightarrow>
                  if md_kind ep \<noteq> LAGFX_AIR_MD_NODE \<or> length (md_operands ep) < 3 then Some []
                  else do {
                    args_id \<leftarrow> md_operand m ep 2;
                    if args_id = 0 then Some []
                    else case md_record_of m (args_id - 1) of
                      None \<Rightarrow> Some []
                    | Some args \<Rightarrow>
                        if md_kind args \<noteq> LAGFX_AIR_MD_NODE then Some []
                        else bindings_of m args [0..<length (md_operands args)] cap }})"

subsection \<open>Translation\<close>

definition is_static_init :: "bytes \<Rightarrow> bool" where
  "is_static_init nm \<longleftrightarrow> sublist (ascii ''_GLOBAL__sub_I'') nm \<or> sublist (ascii ''global_ctors'') nm \<or> sublist (ascii ''.static_init'') nm"

text \<open>The first function with a body that is not a static initialiser.\<close>

fun body_loop :: "lagfx_air_module \<Rightarrow> nat list \<Rightarrow> nat option option" where
  "body_loop m [] = Some None"
| "body_loop m (i # is) = do {
     f \<leftarrow> m_function m i;
     if fn_is_proto f \<or> fn_body_offset f = 0 then body_loop m is
     else case lagfx_air_module_string m (fn_name_offset f) of
       None \<Rightarrow> Some (Some i)
     | Some nm \<Rightarrow> if is_static_init (c_string nm) then body_loop m is else Some (Some i) }"

text \<open>The translation of a body either gives a module or a status.\<close>

definition lagfx_air2spv_translate_module ::
    "(lagfx_air_module \<Rightarrow> nat \<Rightarrow> lagfx_translate_stage \<Rightarrow> lagfx_status + bytes) \<Rightarrow> lagfx_air_module \<Rightarrow> (lagfx_status + bytes) option" where
  "lagfx_air2spv_translate_module translate_function m = do {
     let stage = discover_stage m;
     body_fn \<leftarrow> body_loop m [0..<m_num_functions m];
     let done = (case body_fn of
       Some i \<Rightarrow> if stage \<noteq> LAGFX_TRANS_STAGE_UNKNOWN then
                   (case translate_function m i stage of Inr spv \<Rightarrow> Some spv | Inl _ \<Rightarrow> None) else None
     | None \<Rightarrow> None);
     case done of
       Some spv \<Rightarrow> Some (Inr spv)
     | None \<Rightarrow>
         (case stage of
            LAGFX_TRANS_STAGE_VERTEX \<Rightarrow> map_option Inr lagfx_air2spv_emit_position_stub
          | LAGFX_TRANS_STAGE_FRAGMENT \<Rightarrow> map_option Inr lagfx_air2spv_emit_render_target_stub
          | LAGFX_TRANS_STAGE_UNKNOWN \<Rightarrow> Some (Inl LAGFX_ERR_PROTOCOL)) }"

subsection \<open>Reading the metadata\<close>

text \<open>With valid operand pointers no read fails and the result is described without them.\<close>

definition md_all_valid :: "lagfx_air_module \<Rightarrow> bool" where
  "md_all_valid m \<longleftrightarrow> list_all (md_valid m) (m_metadata m)"

lemma md_operand_in: "md_valid m md \<Longrightarrow> j < length (md_operands md) \<Longrightarrow> md_operand m md j = Some (md_operands md ! j)"
  by (simp add: md_operand_def)

lemma md_record_valid: "md_all_valid m \<Longrightarrow> md_record_of m i = Some md \<Longrightarrow> md_valid m md"
  by (auto simp: md_all_valid_def md_record_of_def list_all_iff Let_def split: if_splits)

lemma md_value_int_total:
  assumes "md_all_valid m" "v = md_record_of m i"
  shows "\<exists>x. md_value_int m v = Some x"
proof (cases v)
  case (Some md)
  have "md_valid m md" using md_record_valid[OF assms(1)] assms(2) Some by simp
  then show ?thesis using Some by (auto simp: md_value_int_def md_operand_def Let_def split: air_constant_kind.split air_payload.split)
qed (simp add: md_value_int_def)

lemma scan_operand_total:
  assumes "md_all_valid m" "md_valid m arg" "j < length (md_operands arg)"
  shows "\<exists>st'. scan_operand m arg j st = Some st'"
proof -
  obtain x where "md_value_int m (md_record_of m (md_operands arg ! (j + 1) - 1)) = Some x"
    using md_value_int_total[OF assms(1) refl] by blast
  then show ?thesis using assms(2,3) by (auto simp: scan_operand_def md_operand_def Let_def split: option.splits)
qed

lemma scan_operands_total:
  assumes "md_all_valid m" "md_valid m arg"
  shows "list_all (\<lambda>j. j < length (md_operands arg)) js \<Longrightarrow> \<exists>st'. scan_operands m arg js st = Some st'"
proof (induction js arbitrary: st)
  case (Cons j js)
  then show ?case using scan_operand_total[OF assms, of j st] by auto
qed simp

lemma arg_binding_total:
  assumes "md_all_valid m"
  shows "\<exists>b. arg_binding m op = Some b"
proof (cases "op = 0 \<or> md_record_of m (op - 1) = None")
  case False
  then obtain arg where arg: "md_record_of m (op - 1) = Some arg" by auto
  obtain st' where "scan_operands m arg [0..<length (md_operands arg)] \<lparr>as_kind = 0, as_loc = - 1, as_stagein = False\<rparr> = Some st'"
    using scan_operands_total[OF assms md_record_valid[OF assms arg], of "[0..<length (md_operands arg)]"] by (auto simp: list_all_iff)
  then show ?thesis using arg False by (simp add: arg_binding_def)
qed (auto simp: arg_binding_def)

text \<open>The binding each operand of the argument list stands for.\<close>

definition binding_list :: "lagfx_air_module \<Rightarrow> u32 list \<Rightarrow> lagfx_air_arg_binding list" where
  "binding_list m ops = List.map_filter (\<lambda>op. the (arg_binding m op)) ops"

lemma bindings_of_eq:
  assumes "md_all_valid m" "md_valid m args"
  shows "i \<le> length (md_operands args) \<Longrightarrow>
    bindings_of m args [i..<length (md_operands args)] room = Some (take room (binding_list m (drop i (md_operands args))))"
proof (induction "length (md_operands args) - i" arbitrary: i room)
  case 0
  then show ?case by (simp add: binding_list_def List.map_filter_simps)
next
  case (Suc n)
  then have i: "i < length (md_operands args)" by simp
  have u: "[i..<length (md_operands args)] = i # [i + 1..<length (md_operands args)]" using i by (simp add: upt_conv_Cons)
  have d: "drop i (md_operands args) = md_operands args ! i # drop (i + 1) (md_operands args)" using i by (simp add: Cons_nth_drop_Suc)
  obtain b where b: "arg_binding m (md_operands args ! i) = Some b" using arg_binding_total[OF assms(1)] by blast
  have ih: "bindings_of m args [i + 1..<length (md_operands args)] r = Some (take r (binding_list m (drop (i + 1) (md_operands args))))" for r
    using Suc by (intro Suc.hyps(1)) auto
  show ?case using md_operand_in[OF assms(2) i] b ih
    by (cases room) (auto simp: u d binding_list_def List.map_filter_simps split: option.split)
qed

text \<open>The list of arguments of the entry point, as its metadata names it.\<close>

definition entry_args :: "lagfx_air_module \<Rightarrow> u32 list" where
  "entry_args m =
     (case (case lagfx_air_module_named_metadata m (ascii ''air.vertex'') of
              Some n \<Rightarrow> Some n | None \<Rightarrow> lagfx_air_module_named_metadata m (ascii ''air.fragment'')) of
        None \<Rightarrow> []
      | Some nd \<Rightarrow>
          if md_operands nd = [] then []
          else case md_record_of m (md_operands nd ! 0) of
            None \<Rightarrow> []
          | Some ep \<Rightarrow>
              if md_kind ep \<noteq> LAGFX_AIR_MD_NODE \<or> length (md_operands ep) < 3 \<or> md_operands ep ! 2 = 0 then []
              else case md_record_of m (md_operands ep ! 2 - 1) of
                None \<Rightarrow> []
              | Some args \<Rightarrow> if md_kind args \<noteq> LAGFX_AIR_MD_NODE then [] else md_operands args)"

lemma named_in: "lagfx_air_module_named_metadata m n = Some md \<Longrightarrow> md \<in> set (m_metadata m)"
  by (auto simp: lagfx_air_module_named_metadata_def find_Some_iff)

lemma arg_bindings_eq:
  assumes "md_all_valid m"
  shows "lagfx_air_arg_bindings m cap = Some (take cap (binding_list m (entry_args m)))"
proof -
  have e: "binding_list m [] = []" by (simp add: binding_list_def List.map_filter_simps)
  have nv: "md_valid m nd" if "lagfx_air_module_named_metadata m n = Some nd" for n nd
    using named_in[OF that] assms by (simp add: md_all_valid_def list_all_iff)
  have body: "bindings_of m args [0..<length (md_operands args)] cap = Some (take cap (binding_list m (md_operands args)))"
    if "md_record_of m i = Some args" for i args
    using bindings_of_eq[OF assms md_record_valid[OF assms that], of 0] by simp
  show ?thesis
    unfolding lagfx_air_arg_bindings_def entry_args_def
    using nv md_record_valid[OF assms] body
    by (auto simp: Let_def e md_operand_def split: option.splits)
qed

subsection \<open>The translator returns a valid module\<close>

lemma body_loop_total:
  assumes "\<And>i. i \<in> set is \<Longrightarrow> m_function m i \<noteq> None"
  shows "\<exists>r. body_loop m is = Some r"
  using assms
proof (induction "is")
  case (Cons i "is")
  obtain f where "m_function m i = Some f" using Cons.prems[of i] by auto
  then show ?case using Cons by (auto split: option.splits)
qed simp

lemma translate_module_falls_back:
  assumes "\<And>i. i < m_num_functions m \<Longrightarrow> m_function m i \<noteq> None"
    and "\<And>i. \<exists>e. xlate m i (discover_stage m) = Inl e"
  shows "lagfx_air2spv_translate_module xlate m =
     (case discover_stage m of
        LAGFX_TRANS_STAGE_VERTEX \<Rightarrow> map_option Inr lagfx_air2spv_emit_position_stub
      | LAGFX_TRANS_STAGE_FRAGMENT \<Rightarrow> map_option Inr lagfx_air2spv_emit_render_target_stub
      | LAGFX_TRANS_STAGE_UNKNOWN \<Rightarrow> Some (Inl LAGFX_ERR_PROTOCOL))"
proof -
  obtain r where r: "body_loop m [0..<m_num_functions m] = Some r"
    using body_loop_total[of "[0..<m_num_functions m]" m] assms(1) by auto
  have "(case xlate m i (discover_stage m) of Inl _ \<Rightarrow> None | Inr spv \<Rightarrow> Some spv) = None" for i
    using assms(2)[of i] by auto
  then show ?thesis by (simp add: lagfx_air2spv_translate_module_def r Let_def split: option.split)
qed

lemma translate_module_valid:
  assumes fns: "\<And>i. i < m_num_functions m \<Longrightarrow> m_function m i \<noteq> None"
    and body: "\<And>i spv. xlate m i (discover_stage m) = Inr spv \<Longrightarrow> emits_valid (Some spv)"
  shows "\<exists>r. lagfx_air2spv_translate_module xlate m = Some r \<and>
     (case r of Inl e \<Rightarrow> e = LAGFX_ERR_PROTOCOL \<and> discover_stage m = LAGFX_TRANS_STAGE_UNKNOWN
              | Inr spv \<Rightarrow> emits_valid (Some spv) \<and> discover_stage m \<noteq> LAGFX_TRANS_STAGE_UNKNOWN)"
proof -
  obtain r where r: "body_loop m [0..<m_num_functions m] = Some r"
    using body_loop_total[of "[0..<m_num_functions m]" m] fns by auto
  obtain p q where pq: "lagfx_air2spv_emit_position_stub = Some p" "lagfx_air2spv_emit_render_target_stub = Some q"
    "emits_valid (Some p)" "emits_valid (Some q)"
    using valid_position valid_render_target by (auto simp: emits_valid_def)
  have b: "emits_valid (Some spv)" if "xlate m i (discover_stage m) = Inr spv" for i spv using body[OF that] .
  show ?thesis using b
    by (cases "discover_stage m"; cases r) (auto simp: lagfx_air2spv_translate_module_def r pq split: sum.split)
qed

end
