(* ===== verification/SigFacts.thy ===== *)
theory SigFacts
  imports SigTransform
begin

text \<open>
  The steps of the signature transform: no pass reads outside the module, each step is one of
  a few cases, and the output is the concatenation of what the single steps emit as long as it
  fits the buffer.
\<close>

unbundle bit_operations_syntax

subsection \<open>Walks over instruction lists\<close>

fun walk_list :: "(u32 \<Rightarrow> words \<Rightarrow> 's \<Rightarrow> ('s \<times> bool) option) \<Rightarrow> insn list \<Rightarrow> 's \<Rightarrow> 's option" where
  "walk_list step [] st = Some st"
| "walk_list step ((opc, args) # xs) st = do { (st', go) \<leftarrow> step opc args st; if go then walk_list step xs st' else Some st' }"

lemma insn_walk_eq:
  assumes "stream_ok (drop i ws)"
  shows "insn_walk ws step i st = map_option Some (walk_list step (decode_instrs (drop i ws)) st)"
  using assms
proof (induction "length ws - i" arbitrary: i st rule: less_induct)
  case less
  show ?case
  proof (cases "i < length ws")
    case True
    define n where "n = unat (drop_bit 16 (ws ! i))"
    have wc: "n \<noteq> 0" "i + n \<le> length ws" using less.prems stream_bad[OF True] by (fastforce simp: n_def)+
    note at = insn_at[OF True wc[unfolded n_def], folded n_def]
    have r: "rd_word ws i = Some (ws ! i)" using True by (simp add: rd_word_def)
    have a: "rd_words ws (i + 1) (n - 1) = Some (take (n - 1) (drop (i + 1) ws))" using wc by (auto simp: rd_words_def)
    have nz: "drop_bit 16 (ws ! i) \<noteq> 0" using wc(1) by (auto simp: n_def)
    have lt: "length ws - (i + n) < length ws - i" using True wc(1) by linarith
    have ih: "insn_walk ws step (i + n) s = map_option Some (walk_list step (decode_instrs (drop (i + n) ws)) s)" for s
      by (rule less.hyps[OF lt]) (use less.prems at(5) in simp)
    show ?thesis using True wc nz r a unfolding at(4)
      by (subst insn_walk.simps, cases "step (ws ! i AND 0xFFFF) (take (n - 1) (drop (i + 1) ws)) st")
         (auto simp: unpack_eq n_def[symmetric] ih Let_def simp del: One_nat_def)
  next
    case False
    then show ?thesis by (subst insn_walk.simps) simp
  qed
qed

lemma insn_walk_bad:
  assumes "\<not> stream_ok (drop i ws)" "\<And>opc args s. \<exists>s'. step opc args s = Some (s', True)"
  shows "insn_walk ws step i st = Some None"
  using assms(1)
proof (induction "length ws - i" arbitrary: i st rule: less_induct)
  case less
  have True: "i < length ws" using less.prems by (rule_tac ccontr) simp
  define n where "n = unat (drop_bit 16 (ws ! i))"
  have r: "rd_word ws i = Some (ws ! i)" using True by (simp add: rd_word_def)
  show ?case
  proof (cases "n = 0 \<or> length ws < i + n")
    case bad: True
    then show ?thesis using True r
      by (subst insn_walk.simps) (simp add: unpack_eq n_def unat_eq_0[symmetric] del: unat_eq_0)
  next
    case False
    then have wc: "n \<noteq> 0" "i + n \<le> length ws" by auto
    note at = insn_at[OF True wc[unfolded n_def], folded n_def]
    have a: "rd_words ws (i + 1) (n - 1) = Some (take (n - 1) (drop (i + 1) ws))" using wc by (auto simp: rd_words_def)
    have nz: "drop_bit 16 (ws ! i) \<noteq> 0" using wc(1) by (auto simp: n_def)
    have lt: "length ws - (i + n) < length ws - i" using True wc(1) by linarith
    obtain s' where s': "step (ws ! i AND 0xFFFF) (take (n - 1) (drop (i + 1) ws)) st = Some (s', True)" using assms(2) by blast
    have "insn_walk ws step (i + n) s' = Some None" by (rule less.hyps[OF lt]) (use less.prems at(5) in simp)
    then show ?thesis using True wc nz r a s'
      by (subst insn_walk.simps) (simp add: unpack_eq n_def[symmetric] Let_def del: One_nat_def)
  qed
qed

lemma walk_unchecked_eq:
  "stream_ok (drop 5 ws) \<Longrightarrow> insn_walk_unchecked ws step st = walk_list step (decode_instrs (drop 5 ws)) st"
  by (simp add: insn_walk_unchecked_def insn_walk_eq) (cases "walk_list step (decode_instrs (drop 5 ws)) st"; simp)

lemma walk_list_total:
  assumes "I st" "\<And>opc args s. (opc, args) \<in> set xs \<Longrightarrow> I s \<Longrightarrow> \<exists>s' go. step opc args s = Some (s', go) \<and> I s'"
  shows "\<exists>st'. walk_list step xs st = Some st' \<and> I st'"
  using assms
proof (induction xs arbitrary: st)
  case (Cons x xs)
  obtain opc args where x: "x = (opc, args)" by (cases x)
  obtain s' go where "step opc args st = Some (s', go)" "I s'" using Cons.prems(2)[of opc args st] Cons.prems(1) x by auto
  then show ?case using Cons.IH[of s'] Cons.prems(2) x by auto
qed auto

subsection \<open>Reads of an instruction\<close>

lemma iw_in:
  "1 \<le> length args \<Longrightarrow> iw args 1 = Some (args ! 0)" "2 \<le> length args \<Longrightarrow> iw args 2 = Some (args ! 1)"
  "3 \<le> length args \<Longrightarrow> iw args 3 = Some (args ! 2)" "4 \<le> length args \<Longrightarrow> iw args 4 = Some (args ! 3)"
  by (auto simp: iw_def rd_word_def)

lemma iw_is_in:
  "1 \<le> length args \<Longrightarrow> iw_is args 1 v = Some (args ! 0 = v)" "2 \<le> length args \<Longrightarrow> iw_is args 2 v = Some (args ! 1 = v)"
  "3 \<le> length args \<Longrightarrow> iw_is args 3 v = Some (args ! 2 = v)"
  by (simp_all add: iw_is_def iw_in del: One_nat_def)

text \<open>The guards of the code on the word count.\<close>

lemma word_count_le:
  "2 \<le> word_count args \<longleftrightarrow> 1 \<le> length args" "3 \<le> word_count args \<longleftrightarrow> 2 \<le> length args"
  "4 \<le> word_count args \<longleftrightarrow> 3 \<le> length args" "5 \<le> word_count args \<longleftrightarrow> 4 \<le> length args"
  by (auto simp: word_count_def)

lemmas reads = iw_in iw_is_in word_count_le

lemma name_step_total:
  assumes "0 \<notin> set name"
  shows "\<exists>s'. name_step name opc args s = Some (s', True) \<and> sg_bound s' = sg_bound s"
proof -
  have "spv_str_eq args 1 (word_count args - 2) name = Some (holds_string (take (word_count args - 2) (drop 1 args)) name)"
    if "3 \<le> word_count args"
    using spv_str_eq_eq[of 1 "word_count args - 2" args name] assms that by (simp add: word_count_def)
  then show ?thesis unfolding name_step_def Let_def by (auto simp: reads simp del: One_nat_def)
qed

definition scan_ok :: "words \<Rightarrow> sig_scan \<Rightarrow> bool" where
  "scan_ok ws s \<longleftrightarrow> stream_ok (drop 5 ws) \<and> sg_bound s = ws ! 3 \<and> length (sg_param_types s) \<le> MAX_PARAMS \<and>
     length (sg_ret_member_types s) \<le> MAX_STRUCT_MEMBERS \<and> (sg_ret_is_struct s \<or> length (sg_ret_member_types s) = 1) \<and>
     33 \<in> fst ` set (decode_instrs (drop 5 ws)) \<and>
     (\<exists>args. (54, args) \<in> set (decode_instrs (drop 5 ws)) \<and> 4 \<le> length args \<and> args ! 1 = sg_fn_id s)"

lemma function_step_eq:
  "function_step fn opc args st =
     Some (if opc = 54 \<and> 4 \<le> length args \<and> args ! 1 = fn then ((args ! 0, args ! 3), False) else (st, True))"
  unfolding function_step_def by (simp add: reads del: One_nat_def)

lemma walk_function:
  "\<exists>st. walk_list (function_step fn) is (0, 0) = Some st \<and>
     (st = (0, 0) \<or> (\<exists>args. (54, args) \<in> set is \<and> 4 \<le> length args \<and> args ! 1 = fn))"
proof (induction "is")
  case (Cons x "is")
  obtain opc args where "x = (opc, args)" by (cases x)
  then show ?case using Cons.IH by (cases "opc = 54 \<and> 4 \<le> length args \<and> args ! 1 = fn") (auto simp: function_step_eq)
qed simp

lemma fn_type_step_eq:
  "fn_type_step ty ret opc args st =
     Some (if opc = 33 \<and> 2 \<le> length args \<and> args ! 0 = ty
           then (Some (if args ! 1 \<noteq> ret \<or> MAX_PARAMS < length args - 2 then Inl LAGFX_ERR_PROTOCOL else Inr (drop 2 args)), False)
           else (st, True))"
  unfolding fn_type_step_def by (simp add: reads del: One_nat_def) (simp add: word_count_def)

lemma ret_type_step_eq:
  "ret_type_step ret opc args st =
     Some (if 1 \<le> length args \<and> args ! 0 = ret \<and> opc = 30
           then (Some (if MAX_STRUCT_MEMBERS < length args - 1 then Inl LAGFX_ERR_PROTOCOL else Inr (True, drop 1 args)), False)
           else if 1 \<le> length args \<and> args ! 0 = ret \<and> opc \<in> {21, 22, 23} then (Some (Inr (False, [ret])), False)
           else (st, True))"
  unfolding ret_type_step_def by (auto simp add: reads simp del: One_nat_def) (simp_all add: word_count_def)

lemma walk_fn_type:
  "\<exists>ps. walk_list (fn_type_step ty ret) is None = Some ps \<and>
     (\<forall>xs. ps = Some (Inr xs) \<longrightarrow> length xs \<le> MAX_PARAMS \<and> 33 \<in> fst ` set is)"
proof (induction "is")
  case (Cons x "is")
  obtain opc args where "x = (opc, args)" by (cases x)
  then show ?case using Cons.IH by (cases "opc = 33 \<and> 2 \<le> length args \<and> args ! 0 = ty") (auto simp: fn_type_step_eq)
qed simp

lemma walk_ret_type:
  "\<exists>rt. walk_list (ret_type_step ret) is None = Some rt \<and>
     (\<forall>b ms. rt = Some (Inr (b, ms)) \<longrightarrow> length ms \<le> MAX_STRUCT_MEMBERS \<and> (b \<or> length ms = 1))"
proof (induction "is")
  case (Cons x "is")
  obtain opc args where x: "x = (opc, args)" by (cases x)
  show ?case
  proof (cases "1 \<le> length args \<and> args ! 0 = ret \<and> opc \<in> {30, 21, 22, 23}")
    case True
    then show ?thesis using x by (auto simp: ret_type_step_eq MAX_STRUCT_MEMBERS_def)
  next
    case False
    then have "ret_type_step ret opc args None = Some (None, True)" by (auto simp: ret_type_step_eq)
    then show ?thesis using Cons.IH x by simp
  qed
qed simp

lemma scan_module_total:
  assumes "0 \<notin> set name" "5 \<le> length ws"
  shows "\<exists>r. scan_module ws name = Some r \<and> (stream_ok (drop 5 ws) \<or> r = Inl LAGFX_ERR_PROTOCOL) \<and>
     (\<forall>s. r = Inr s \<longrightarrow> scan_ok ws s)"
proof -
  have b: "rd_word ws 3 = Some (ws ! 3)" using assms(2) by (simp add: rd_word_def)
  show ?thesis
  proof (cases "stream_ok (drop 5 ws)")
    case False
    have "insn_walk ws (name_step name) 5 (sig_scan_new (ws ! 3)) = Some None"
      by (rule insn_walk_bad[OF False]) (use name_step_total[OF assms(1)] in blast)
    then show ?thesis using b by (simp add: scan_module_def)
  next
    case ok: True
    let ?is = "decode_instrs (drop 5 ws)"
    obtain s where s: "walk_list (name_step name) ?is (sig_scan_new (ws ! 3)) = Some s" "sg_bound s = ws ! 3"
      using walk_list_total[of "\<lambda>s. sg_bound s = ws ! 3" "sig_scan_new (ws ! 3)" ?is "name_step name"] name_step_total[OF assms(1)]
      by (fastforce simp: sig_scan_new_def)
    obtain st where f: "walk_list (function_step (sg_fn_id s)) ?is (0, 0) = Some st"
        "st = (0, 0) \<or> (\<exists>args. (54, args) \<in> set ?is \<and> 4 \<le> length args \<and> args ! 1 = sg_fn_id s)"
      using walk_function by blast
    obtain ret ty where st: "st = (ret, ty)" by (cases st)
    obtain ps where p: "walk_list (fn_type_step ty ret) ?is None = Some ps"
        "\<forall>xs. ps = Some (Inr xs) \<longrightarrow> length xs \<le> MAX_PARAMS \<and> 33 \<in> fst ` set ?is"
      using walk_fn_type by blast
    obtain rt where r: "walk_list (ret_type_step ret) ?is None = Some rt"
        "\<forall>b ms. rt = Some (Inr (b, ms)) \<longrightarrow> length ms \<le> MAX_STRUCT_MEMBERS \<and> (b \<or> length ms = 1)"
      using walk_ret_type by blast
    note w = insn_walk_eq[OF ok] walk_unchecked_eq[OF ok] s(1) f(1) st p(1) r(1)
    have "(\<forall>ret' ty'. st = (ret', ty') \<longrightarrow> ret' = 0) \<or> scan_ok ws (s\<lparr>sg_fn_ret_type_id := a, sg_fn_type_id := c, sg_param_types := ps',
        sg_ret_is_struct := by_member, sg_ret_member_types := ms\<rparr>)"
      if "ps = Some (Inr ps')" "rt = Some (Inr (by_member, ms))" for ps' by_member ms a c
      using ok s(2) f(2) st p(2) r(2) that by (auto simp: scan_ok_def)
    then show ?thesis using ok b st by (auto simp: scan_module_def w split: option.split sum.split)
  qed
qed

subsection \<open>Steps\<close>

text \<open>What Vulkan refuses: kernel capabilities, kernel decorations and lifetime markers.\<close>

definition kernel_decoration :: "words \<Rightarrow> bool" where
  "kernel_decoration ds \<longleftrightarrow> ds ! 0 \<in> {10, 40, 41, 45} \<or> ds ! 0 = 38 \<and> 2 \<le> length ds \<and> ds ! 1 \<in> {5, 6, 7}"

definition kernel_only :: "insn \<Rightarrow> bool" where
  "kernel_only = (\<lambda>(opc, args).
     opc = 17 \<and> 1 \<le> length args \<and> args ! 0 \<in> {5, 6} \<or>
     opc = 71 \<and> 2 \<le> length args \<and> kernel_decoration (drop 1 args) \<or>
     opc = 72 \<and> 3 \<le> length args \<and> kernel_decoration (drop 2 args) \<or> opc = 256 \<or> opc = 257)"

lemma drop_decoration_eq:
  assumes "0 < k" "k \<le> length args"
  shows "drop_decoration args k = Some (kernel_decoration (drop (k - 1) args))"
proof -
  have "iw args k = Some (drop (k - 1) args ! 0)" using assms by (simp add: iw_def rd_word_def)
  moreover have "iw args (k + 1) = Some (drop (k - 1) args ! 1)" if "k + 2 \<le> word_count args"
    using assms that by (auto simp: iw_def rd_word_def word_count_def)
  moreover have "(k + 2 \<le> word_count args) = (2 \<le> length (drop (k - 1) args))" using assms by (auto simp: word_count_def)
  ultimately show ?thesis
    by (auto simp: drop_decoration_def kernel_decoration_def func_param_attr_is_kernel_only_def)
qed

lemma sig_drop_eq: "sig_drop t opc args = Some (kernel_only (opc, args) \<or> opc = 55 \<and> t)"
  unfolding sig_drop_def Let_def kernel_only_def
  by (auto simp: reads drop_decoration_eq simp del: One_nat_def) simp_all

lemma load_step_eq:
  "load_step s ids opc args (found, loads) =
     Some (if \<not> found then ((opc = 54 \<and> 2 \<le> length args \<and> args ! 1 = sg_fn_id s, loads), True)
           else if length loads < length (sg_param_types s) \<and> opc = 55 \<and> 2 \<le> length args
           then ((True, loads @ [emit_load (sg_param_types s ! length loads) (args ! 1) (snd (sy_ins ids ! length loads))]), True)
           else ((True, loads), False))"
  unfolding load_step_def by (auto simp: reads Let_def)

definition is_load :: "insn \<Rightarrow> bool" where
  "is_load x \<longleftrightarrow> (\<exists>t r p. x = emit_load t r p)"

lemma param_loads_total:
  assumes "stream_ok (drop 5 ws)"
  shows "\<exists>ls. param_loads ws s ids = Some ls \<and> length ls \<le> length (sg_param_types s) \<and> list_all is_load ls"
proof -
  let ?I = "\<lambda>(b, ls). length ls \<le> length (sg_param_types s) \<and> list_all is_load ls"
  have "\<exists>st'. walk_list (load_step s ids) (decode_instrs (drop 5 ws)) (False, []) = Some st' \<and> ?I st'"
  proof (rule walk_list_total)
    fix opc args and st :: "bool \<times> insn list" assume "?I st"
    then show "\<exists>st' go. load_step s ids opc args st = Some (st', go) \<and> ?I st'"
      by (cases st) (auto simp: load_step_eq is_load_def)
  qed simp
  then show ?thesis by (auto simp: param_loads_def walk_unchecked_eq[OF assms])
qed

lemma body_step_total:
  assumes "stream_ok (drop 5 ws)"
  shows "\<exists>is st'. body_step ws s ids d opc args st = Some (is, st')"
proof -
  obtain ls where "param_loads ws s ids = Some ls" using param_loads_total[OF assms] by blast
  then show ?thesis by (auto simp: body_step_def reads Let_def case_prod_beta simp del: One_nat_def)
qed

lemma sig_step_total:
  assumes "stream_ok (drop 5 ws)"
  shows "\<exists>is st'. sig_step ws name stage s ids opc args st = Some (is, st')"
proof -
  have e: "is_entry_function s opc args = Some (opc = 54 \<and> 4 \<le> length args \<and> args ! 1 = sg_fn_id s)"
    unfolding is_entry_function_def by (auto simp: reads)
  define f where "f d st' = the (body_step ws s ids d opc args st')" for d st'
  have b: "body_step ws s ids d opc args st' = Some (f d st')" for d st'
    using body_step_total[OF assms, of s ids d opc args st'] by (auto simp: f_def)
  show ?thesis unfolding sig_step_def Let_def sig_drop_eq bind.simps e b
    by (auto simp: reads case_prod_beta simp del: One_nat_def)
qed

subsection \<open>The cases of a step\<close>

definition is_store_seq :: "insn list \<Rightarrow> bool" where
  "is_store_seq is \<longleftrightarrow> list_all (\<lambda>(opc, args). opc = 81 \<and> length args = 4 \<or> opc = 62 \<and> length args = 2) is"

lemma member_stores_seq:
  assumes "member_stores retval k ts vs f = (is, f')"
  shows "is_store_seq is \<and> sum_list (map (\<lambda>x. 1 + length (snd x)) is) = 8 * min (length ts) (length vs) \<and>
     f' = f + of_nat (min (length ts) (length vs))"
  using assms
proof (induction retval k ts vs f arbitrary: "is" f' rule: member_stores.induct)
  case (1 retval k t ts u v vs f)
  obtain is1 f1 where r: "member_stores retval (k + 1) ts vs (f + 1) = (is1, f1)" by force
  have "(f, f + 1) = fresh f" by (simp add: fresh_def)
  from 1(1)[OF this refl r] 1(2) r show ?case
    by (auto simp: fresh_def is_store_seq_def emit_composite_extract_def emit_store_def algebra_simps)
qed (simp_all add: is_store_seq_def)

lemma body_step_cases:
  assumes "stream_ok (drop 5 ws)" "body_step ws s ids d opc args st = Some (is, st')"
  obtains (skip) "is = []" "d" "st' = st"
  | (copy) "is = [(opc, args)]" "\<not> d" "\<not> ss_in_target st \<or> opc = 248" "st' = st"
  | (inner) ls where "is = ls @ [(opc, args)]" "\<not> d" "ss_in_target st" "opc \<noteq> 254 \<or> args = []" "list_all is_load ls"
      "length ls \<le> (if ss_loads st then 0 else length (sg_param_types s))" "st' = st \<or> st' = st\<lparr>ss_loads := True\<rparr>"
      "ls = [] \<or> ss_loads st'"
  | (ret) ls rs f where "is = ls @ rs @ [emit_return]" "\<not> d" "ss_in_target st" "opc = 254" "1 \<le> length args" "list_all is_load ls"
      "length ls \<le> (if ss_loads st then 0 else length (sg_param_types s))" "is_store_seq rs"
      "sum_list (map (\<lambda>x. 1 + length (snd x)) rs) \<le> max 3 (8 * length (sg_ret_member_types s))"
      "st' = st\<lparr>ss_loads := True, ss_next := f\<rparr>" "\<exists>j \<le> length (sg_ret_member_types s). f = ss_next st + of_nat j"
proof -
  obtain pl where pl: "param_loads ws s ids = Some pl" "length pl \<le> length (sg_param_types s)" "list_all is_load pl"
    using param_loads_total[OF assms(1)] by blast
  define ls where "ls = (if \<not> ss_loads st \<and> opc \<noteq> 59 then pl else [])"
  have ls: "list_all is_load ls" "length ls \<le> (if ss_loads st then 0 else length (sg_param_types s))" using pl by (auto simp: ls_def)
  consider (a) "\<not> ss_in_target st \<or> d \<or> opc = 248"
    | (b) "ss_in_target st" "\<not> d" "opc \<noteq> 248" "opc \<noteq> 254 \<or> args = []"
    | (c) "ss_in_target st" "\<not> d" "opc = 254" "1 \<le> length args" by (cases args) auto
  then show thesis
  proof cases
    case a
    then show thesis using assms(2) that(1,2) by (auto simp: body_step_def split: if_splits)
  next
    case b
    have "opc = 254 \<Longrightarrow> \<not> 2 \<le> word_count args" using b by (auto simp: word_count_def)
    then have "is = ls @ [(opc, args)]" "st' = (if opc \<noteq> 59 then st\<lparr>ss_loads := True\<rparr> else st)"
      using assms(2) b pl(1) by (auto simp: body_step_def Let_def ls_def split: if_splits)
    then show thesis using that(3)[of ls] b ls by (auto simp: ls_def split: if_splits)
  next
    case c
    define st1 where "st1 = st\<lparr>ss_loads := True\<rparr>"
    obtain rs f where m: "member_stores (args ! 0) 0 (sg_ret_member_types s) (sy_outs ids) (ss_next st1) = (rs, f)" by force
    note ms = member_stores_seq[OF m]
    have r: "iw args 1 = Some (args ! 0)" using c(4) by (rule iw_in)
    have e: "body_step ws s ids d opc args st =
        Some (if sg_ret_is_struct s then (ls @ rs @ [emit_return], st1\<lparr>ss_next := f\<rparr>)
              else (ls @ [emit_store (snd (sy_outs ids ! 0)) (args ! 0)] @ [emit_return], st1))"
      using c pl(1) m r by (simp add: body_step_def Let_def ls_def st1_def reads del: One_nat_def)
    show thesis
    proof (cases "sg_ret_is_struct s")
      case True
      have "\<exists>j \<le> length (sg_ret_member_types s). f = ss_next st + of_nat j"
        using ms by (intro exI[of _ "min (length (sg_ret_member_types s)) (length (sy_outs ids))"]) (simp add: st1_def)
      then show thesis using that(4)[of ls rs f] True assms(2) e c ls ms by (auto simp: st1_def)
    next
      case False
      have "\<exists>j \<le> length (sg_ret_member_types s). ss_next st = ss_next st + of_nat j" by (rule exI[of _ 0]) simp
      then show thesis using that(4)[of ls "[emit_store (snd (sy_outs ids ! 0)) (args ! 0)]" "ss_next st"] False assms(2) e c ls
        by (auto simp: st1_def is_store_seq_def emit_store_def)
    qed
  qed
qed

definition splices :: "u32 \<Rightarrow> sig_scan \<Rightarrow> synth_ids \<Rightarrow> u32 \<Rightarrow> sig_state \<Rightarrow> insn list" where
  "splices stage s ids opc st =
     (if \<not> ss_pre_types st \<and> is_type_op opc then emit_output_decorations stage ids @ emit_input_decorations stage ids else []) @
     (if \<not> ss_pre_function st \<and> opc = 54 then pre_function s ids else [])"

definition spliced_state :: "u32 \<Rightarrow> sig_state \<Rightarrow> sig_state" where
  "spliced_state opc st =
     st\<lparr>ss_pre_types := ss_pre_types st \<or> is_type_op opc, ss_pre_function := ss_pre_function st \<or> opc = 54\<rparr>"

lemma sig_step_cases:
  assumes "stream_ok (drop 5 ws)" "sig_step ws name stage s ids opc args st = Some (is, st')"
  obtains (undef) t r where "opc = 52" "3 \<le> length args" "is = [(1, [t, r])]" "st' = st"
  | (cast) "opc = 124" "3 \<le> length args" "is = [] \<or> (\<exists>t r p. is = [(65, [t, r, p, sy_uint_zero_id ids])])" "st' = st"
  | (model) "opc = 14" "\<not> ss_zone_a st" "is = (opc, args) # zone_a stage name s ids" "st' = st\<lparr>ss_zone_a := True\<rparr>"
  | (entry) "opc = 54" "4 \<le> length args" "args ! 1 = sg_fn_id s"
      "is = splices stage s ids opc st @ [(54, [sy_void_id ids, sg_fn_id s, 0, sy_void_fn_type_id ids])]"
      "st' = (spliced_state opc st)\<lparr>ss_in_target := True, ss_loads := False\<rparr>"
  | (body) bs st2 where "st2 = (spliced_state opc st)\<lparr>ss_in_target := ss_in_target st \<and> opc \<noteq> 56\<rparr>"
      "body_step ws s ids (kernel_only (opc, args) \<or> opc = 55 \<and> ss_in_target st) opc args st2 = Some (bs, st')"
      "is = splices stage s ids opc st @ bs" "opc \<noteq> 14 \<or> ss_zone_a st"
      "\<not> (opc = 54 \<and> 4 \<le> length args \<and> args ! 1 = sg_fn_id s)"
proof -
  let ?entry = "opc = 54 \<and> 4 \<le> length args \<and> args ! 1 = sg_fn_id s"
  have e: "is_entry_function s opc args = Some ?entry" unfolding is_entry_function_def by (auto simp: reads)
  have sp: "spliced_state opc st = st\<lparr>ss_pre_types := ss_pre_types st \<or> \<not> ss_pre_types st \<and> is_type_op opc,
      ss_pre_function := ss_pre_function st \<or> \<not> ss_pre_function st \<and> opc = 54\<rparr>"
    by (auto simp: spliced_state_def intro!: arg_cong2[where f = "\<lambda>a b. st\<lparr>ss_pre_types := a, ss_pre_function := b\<rparr>"])
  have st2: "(if opc = 56 then (spliced_state opc st)\<lparr>ss_in_target := False\<rparr> else spliced_state opc st) =
      (spliced_state opc st)\<lparr>ss_in_target := ss_in_target st \<and> opc \<noteq> 56\<rparr>"
    by (simp add: spliced_state_def)
  consider (u) "opc = 52 \<and> 3 \<le> length args \<and> args ! 2 = 124"
    | (c) "opc = 124 \<and> 3 \<le> length args \<and> args ! 0 \<in> set (sg_pointer_type_ids s)"
    | (m) "opc = 14" "\<not> ss_zone_a st"
    | (r) "\<not> (opc = 52 \<and> 3 \<le> length args \<and> args ! 2 = 124)" "\<not> (opc = 124 \<and> 3 \<le> length args \<and> args ! 0 \<in> set (sg_pointer_type_ids s))"
      "\<not> (opc = 14 \<and> \<not> ss_zone_a st)" by blast
  then show thesis
  proof cases
    case u
    then have "is = [(1, [args ! 0, args ! 1])]" "st' = st"
      using assms(2) by (simp_all add: sig_step_def sig_drop_eq reads Let_def del: One_nat_def)
    then show thesis using that(1) u by blast
  next
    case c
    then have "is = (if args ! 1 \<in> set (sg_lifetime_operand_ids s) then [] else [(65, [args ! 0, args ! 1, args ! 2, sy_uint_zero_id ids])])" "st' = st"
      using assms(2) by (auto simp add: sig_step_def sig_drop_eq reads Let_def simp del: One_nat_def)
    then show thesis using that(2) c by auto
  next
    case m
    then show thesis using that(3) assms(2) by (simp add: sig_step_def sig_drop_eq Let_def)
  next
    case r
    have sb: "(if opc = 52 \<and> 4 \<le> word_count args then iw_is args 3 124 else Some False) = Some False"
      "(if opc = 124 \<and> 4 \<le> word_count args then map_option (\<lambda>t. t \<in> set (sg_pointer_type_ids s)) (iw args 1) else Some False) = Some False"
      using r(1,2) by (auto simp: reads simp del: One_nat_def)
    have zm: "(\<not> ss_zone_a st \<and> opc = 14) = False" using r(3) by auto
    note step = assms(2)[unfolded sig_step_def Let_def sig_drop_eq sb zm bind.simps if_False e, folded sp splices_def, unfolded st2]
    show thesis
    proof (cases ?entry)
      case True
      then show thesis using that(4) step by simp
    next
      case False
      then obtain bs st3 where "body_step ws s ids (kernel_only (opc, args) \<or> opc = 55 \<and> ss_in_target st) opc args
          ((spliced_state opc st)\<lparr>ss_in_target := ss_in_target st \<and> opc \<noteq> 56\<rparr>) = Some (bs, st3)" "is = splices stage s ids opc st @ bs" "st' = st3"
        using step by (auto simp: bind_eq_Some_conv)
      then show thesis using that(5)[OF refl] False r(3) by auto
    qed
  qed
qed

subsection \<open>The second pass\<close>

text \<open>The steps one after the other, without the buffer.\<close>

definition sig_instr :: "words \<Rightarrow> bytes \<Rightarrow> u32 \<Rightarrow> sig_scan \<Rightarrow> synth_ids \<Rightarrow> insn \<Rightarrow> sig_state \<Rightarrow> insn list \<times> sig_state" where
  "sig_instr ws name stage s ids x st = the (sig_step ws name stage s ids (fst x) (snd x) st)"

fun sig_run :: "(insn \<Rightarrow> sig_state \<Rightarrow> insn list \<times> sig_state) \<Rightarrow> insn list \<Rightarrow> sig_state \<Rightarrow> insn list \<times> sig_state" where
  "sig_run g [] st = ([], st)"
| "sig_run g (x # xs) st = (let (is, st1) = g x st; (js, st2) = sig_run g xs st1 in (is @ js, st2))"

definition insn_words :: "insn list \<Rightarrow> words" where
  "insn_words is = concat (map instr_words is)"

lemma insn_words_append [simp]: "insn_words (xs @ ys) = insn_words xs @ insn_words ys"
  by (simp add: insn_words_def)

lemma sig_instr_step:
  assumes "stream_ok (drop 5 ws)"
  shows "sig_step ws name stage s ids opc args st = Some (sig_instr ws name stage s ids (opc, args) st)"
  using sig_step_total[OF assms, of name stage s ids opc args st] by (auto simp: sig_instr_def)

lemma sig_run_induct [consumes 2, case_names Nil step]:
  assumes "stream_ok (drop 5 ws)" "sig_run (sig_instr ws name stage s ids) xs st = (is, st')" "\<And>st. P [] st [] st"
    and "\<And>opc args xs st is1 st1 is2 st2. sig_step ws name stage s ids opc args st = Some (is1, st1) \<Longrightarrow>
      P xs st1 is2 st2 \<Longrightarrow> P ((opc, args) # xs) st (is1 @ is2) st2"
  shows "P xs st is st'"
  using assms(2)
proof (induction xs arbitrary: st "is")
  case Nil
  then show ?case using assms(3) by simp
next
  case (Cons x xs)
  obtain opc args where x: "x = (opc, args)" by (cases x)
  obtain is1 st1 where g: "sig_instr ws name stage s ids (opc, args) st = (is1, st1)" by force
  obtain is2 where r: "sig_run (sig_instr ws name stage s ids) xs st1 = (is2, st')" "is = is1 @ is2"
    using Cons.prems g x by (auto simp: Let_def split: prod.splits)
  have "sig_step ws name stage s ids opc args st = Some (is1, st1)" by (simp add: sig_instr_step[OF assms(1)] g)
  from assms(4)[OF this Cons.IH[OF r(1)]] show ?case by (simp add: r(2) x)
qed

lemma emit_step_eq:
  assumes "stream_ok (drop 5 ws)" "sig_instr ws name stage s ids (opc, args) st = (is, st')"
  shows "emit_step ws name stage s ids m opc args (st, out) =
     (if length out + length (insn_words is) \<le> m then Some ((st', out @ insn_words is), True) else None)"
proof -
  have "(\<lambda>(opc, args). spv_pack_insn (of_nat (word_count args)) opc # args) = instr_words"
    by (auto simp: fun_eq_iff instr_words_def pack_insn_eq word_count_def add.commute)
  then show ?thesis using sig_instr_step[OF assms(1)] assms(2) by (simp add: emit_step_def spv_emit_words_def insn_words_def)
qed

lemma emit_walk_eq:
  assumes "stream_ok (drop 5 ws)" "sig_run (sig_instr ws name stage s ids) xs st = (is, st')"
  shows "length out \<le> m \<Longrightarrow> walk_list (emit_step ws name stage s ids m) xs (st, out) =
     (if length out + length (insn_words is) \<le> m then Some (st', out @ insn_words is) else None)"
  using assms(2)
proof (induction xs arbitrary: st out "is")
  case Nil
  then show ?case by (simp add: insn_words_def)
next
  case (Cons x xs)
  obtain opc args where x: "x = (opc, args)" by (cases x)
  obtain is1 st1 where g: "sig_instr ws name stage s ids (opc, args) st = (is1, st1)" by force
  obtain is2 where r: "sig_run (sig_instr ws name stage s ids) xs st1 = (is2, st')" "is = is1 @ is2"
    using Cons.prems(2) g x by (auto simp: Let_def split: prod.splits)
  show ?case using Cons.IH[of "out @ insn_words is1", OF _ r(1)] r(2) x by (auto simp: emit_step_eq[OF assms(1) g])
qed

definition sig_start :: "u32 \<Rightarrow> sig_state" where
  "sig_start f = \<lparr>ss_zone_a = False, ss_pre_types = False, ss_pre_function = False, ss_in_target = False, ss_loads = False, ss_next = f\<rparr>"

text \<open>The instructions of the result and the state at the end.\<close>

definition sig_result :: "bytes \<Rightarrow> bytes \<Rightarrow> u32 \<Rightarrow> sig_scan \<Rightarrow> insn list \<times> sig_state" where
  "sig_result buf name stage s =
     (case plan_synth_ids s (sg_bound s) of (ids, f) \<Rightarrow>
        sig_run (sig_instr (spv_words buf) name stage s ids) (instrs_of buf) (sig_start f))"

lemma transform_eq:
  assumes "spv_module buf" "length buf mod 4 = 0" "name \<noteq> []" "0 \<notin> set name"
  shows "(\<exists>e. scan_module (spv_words buf) name = Some (Inl e) \<and> lagfx_spv_signature_transform buf name stage = Some (Inl e)) \<or>
    (\<exists>s is st. scan_module (spv_words buf) name = Some (Inr s) \<and> scan_ok (spv_words buf) s \<and> sig_result buf name stage s = (is, st) \<and>
       lagfx_spv_signature_transform buf name stage =
         (if 5 + length (insn_words is) > length (spv_words buf) + sig_slack name then None
          else if \<not> ss_zone_a st then Some (Inl LAGFX_ERR_PROTOCOL)
          else Some (Inr (words_bytes ((take 5 (spv_words buf))[3 := ss_next st] @ insn_words is)))))"
proof -
  let ?ws = "spv_words buf"
  have l: "20 \<le> length buf" using assms(1) by (simp add: spv_module_def)
  then have w: "5 \<le> length ?ws" by simp
  have h: "rd_words ?ws 0 5 = Some (take 5 ?ws)" using w by (simp add: rd_words_def)
  have start: "lagfx_spv_signature_transform buf name stage = (do {
      r \<leftarrow> scan_module ?ws name;
      case r of Inl e \<Rightarrow> Some (Inl e)
      | Inr s \<Rightarrow> (case plan_synth_ids s (sg_bound s) of (ids, f) \<Rightarrow> do {
          r2 \<leftarrow> insn_walk ?ws (emit_step ?ws name stage s ids (length ?ws + sig_slack name)) 5 (sig_start f, (take 5 ?ws)[3 := f]);
          case r2 of None \<Rightarrow> Some (Inl LAGFX_ERR_PROTOCOL)
          | Some (st, out) \<Rightarrow> if \<not> ss_zone_a st then Some (Inl LAGFX_ERR_PROTOCOL)
              else Some (Inr (concat (map le_bytes32 (out[3 := ss_next st])))) }) })"
    unfolding lagfx_spv_signature_transform_def Let_def sig_start_def magic_word[OF l] h
    using l assms by (simp del: length_spv_words)
  obtain r where r: "scan_module ?ws name = Some r" "\<And>s. r = Inr s \<Longrightarrow> scan_ok ?ws s"
    using scan_module_total[OF assms(4) w] by blast
  show ?thesis
  proof (cases r)
    case (Inl e)
    then show ?thesis using start r(1) by simp
  next
    case (Inr s)
    obtain ids f where ids: "plan_synth_ids s (sg_bound s) = (ids, f)" by force
    have ok: "stream_ok (drop 5 ?ws)" using r(2)[OF Inr] by (simp add: scan_ok_def)
    obtain js st where run: "sig_run (sig_instr ?ws name stage s ids) (instrs_of buf) (sig_start f) = (js, st)" by force
    have len: "length ((take 5 ?ws)[3 := f]) = 5" using w by simp
    have fit: "length ((take 5 ?ws)[3 := f]) \<le> length ?ws + sig_slack name" using w unfolding len by linarith
    note e = emit_walk_eq[OF ok run[unfolded instrs_of_def] fit, unfolded len]
    have upd: "((take 5 ?ws)[3 := f] @ xs)[3 := v] = (take 5 ?ws)[3 := v] @ xs" for v xs using w by (simp add: list_update_append)
    have "lagfx_spv_signature_transform buf name stage =
         (if 5 + length (insn_words js) > length ?ws + sig_slack name then None
          else if \<not> ss_zone_a st then Some (Inl LAGFX_ERR_PROTOCOL)
          else Some (Inr (words_bytes ((take 5 ?ws)[3 := ss_next st] @ insn_words js))))"
      unfolding start r(1) Inr bind.simps sum.case ids prod.case insn_walk_eq[OF ok] e
      by (simp add: upd words_bytes_def)
    moreover have "sig_result buf name stage s = (js, st)" using ids run by (simp add: sig_result_def)
    ultimately show ?thesis using r Inr by blast
  qed
qed

end
