(* ===== verification/SigOutput.thy ===== *)
theory SigOutput
  imports SigFacts
begin

text \<open>
  The output of the signature transform: how long it gets, that it decodes, and what shape it
  has.
\<close>

unbundle bit_operations_syntax

subsection \<open>Length\<close>

definition size_of :: "insn list \<Rightarrow> nat" where
  "size_of is = sum_list (map (\<lambda>x. 1 + length (snd x)) is)"

lemma size_of_simps [simp]: "size_of [] = 0" "size_of (x # xs) = 1 + length (snd x) + size_of xs" "size_of (xs @ ys) = size_of xs + size_of ys"
  by (simp_all add: size_of_def)

lemma length_insn_words: "length (insn_words is) = size_of is"
  by (induction "is") (simp_all add: insn_words_def instr_words_def)

lemma size_loads: "list_all is_load ls \<Longrightarrow> size_of ls = 4 * length ls"
  by (induction ls) (auto simp: is_load_def emit_load_def)

lemma fresh_pairs_length: "length (fst (fresh_pairs n f)) = n"
  by (induction n arbitrary: f) (auto simp: Let_def fresh_def split: prod.splits, metis fst_conv)

lemma plan_lengths:
  assumes "plan_synth_ids s f = (ids, f')"
  shows "length (sy_outs ids) = length (sg_ret_member_types s)" "length (sy_ins ids) = length (sg_param_types s)"
  using assms fresh_pairs_length by (auto simp: plan_synth_ids_def Let_def split: prod.splits, metis fst_conv, metis fst_conv)

lemma size_iface_vars: "size_of (iface_vars st ps ts) = 8 * min (length ps) (length ts)"
proof (induction ps arbitrary: ts)
  case (Cons p ps)
  then show ?case by (cases ts; cases p) (auto simp: iface_vars_def emit_type_pointer_def emit_variable_def)
qed (simp add: iface_vars_def)

lemma size_decorations:
  "size_of (emit_output_decorations stage ids) = 4 * length (sy_outs ids)"
  "size_of (emit_input_decorations stage ids) = 4 * length (sy_ins ids)"
proof -
  have m: "size_of (map f xs) = 4 * length xs" if "\<And>x. length (snd (f x)) = 3" for f :: "'a \<Rightarrow> insn" and xs
    using that by (induction xs) simp_all
  show "size_of (emit_output_decorations stage ids) = 4 * length (sy_outs ids)"
    "size_of (emit_input_decorations stage ids) = 4 * length (sy_ins ids)"
    unfolding emit_output_decorations_def emit_input_decorations_def
    by (subst m; auto simp: emit_decorate_builtin_def emit_decorate_location_def)+
qed

text \<open>What is still to be put in, and what an instruction can add beside its own words.\<close>

definition iface_size :: "sig_scan \<Rightarrow> nat" where
  "iface_size s = length (sg_ret_member_types s) + length (sg_param_types s)"

definition to_splice :: "bytes \<Rightarrow> sig_scan \<Rightarrow> sig_state \<Rightarrow> nat" where
  "to_splice name s st =
     (if ss_zone_a st then 0 else 8 + (length name + 4) div 4 + iface_size s) +
     (if ss_pre_types st then 0 else 4 * iface_size s) +
     (if ss_pre_function st then 0 else 13 + 8 * iface_size s) +
     (if ss_in_target st \<and> \<not> ss_loads st then 4 * length (sg_param_types s) else 0)"

definition sig_cost :: "insn \<Rightarrow> nat" where
  "sig_cost x = (if fst x = 54 then 32 else if fst x = 254 then 63 else if fst x = 124 then 1 else 0)"

lemma size_zone_a:
  assumes "plan_synth_ids s f = (ids, f')"
  shows "size_of (zone_a stage name s ids) \<le> 8 + (length name + 4) div 4 + iface_size s"
  using plan_lengths[OF assms]
  by (simp add: zone_a_def emit_capability_def emit_entry_point_def emit_execution_mode_origin_upper_left_def sig_iface_def iface_size_def)

lemma size_pre_function:
  assumes "plan_synth_ids s f = (ids, f')"
  shows "size_of (pre_function s ids) \<le> 13 + 8 * iface_size s"
  using plan_lengths[OF assms]
  by (simp add: pre_function_def emit_type_void_def emit_type_function_void_def size_iface_vars iface_size_def)

lemma splices_size:
  assumes "plan_synth_ids s f = (ids, f')"
  shows "size_of (splices stage s ids opc st) + to_splice name s (spliced_state opc st) \<le> to_splice name s st"
  using size_pre_function[OF assms] plan_lengths[OF assms]
  by (auto simp: splices_def spliced_state_def to_splice_def size_decorations iface_size_def)

lemma loads_size:
  assumes "ss_in_target st" "list_all is_load ls" "length ls \<le> (if ss_loads st then 0 else length (sg_param_types s))"
  shows "size_of ls + to_splice name s (st\<lparr>ss_loads := True, ss_next := g\<rparr>) \<le> to_splice name s st"
  using assms(1,3) by (simp add: size_loads[OF assms(2)] to_splice_def split: if_splits)

lemma body_size:
  assumes "stream_ok (drop 5 ws)" "length (sg_ret_member_types s) \<le> 8" "body_step ws s ids d opc args st = Some (is, st')"
  shows "size_of is + to_splice name s st' \<le> 1 + length args + to_splice name s st + sig_cost (opc, args)"
  using assms(1,3)
proof (cases rule: body_step_cases)
  case (inner ls)
  have "size_of ls + to_splice name s st' \<le> to_splice name s st"
  proof (cases "st' = st")
    case True
    then have "ls = []" using inner(6,8) by (auto split: if_splits)
    then show ?thesis using True by simp
  next
    case False
    then have "st' = st\<lparr>ss_loads := True, ss_next := ss_next st\<rparr>" using inner(7) by simp
    then show ?thesis using loads_size[OF inner(3,5,6), of name "ss_next st"] by simp
  qed
  then show ?thesis using inner(1) by simp
next
  case (ret ls rs f)
  have "size_of ls + to_splice name s st' \<le> to_splice name s st"
    unfolding ret(10) by (rule loads_size[OF ret(3,6,7)])
  moreover have "size_of rs \<le> 64" using ret(9) assms(2) by (simp add: size_of_def)
  ultimately show ?thesis using ret(1,4,5) by (simp add: emit_return_def sig_cost_def)
qed (simp_all add: sig_cost_def)

lemma step_size:
  assumes "stream_ok (drop 5 ws)" "plan_synth_ids s f = (ids, f')" "length (sg_ret_member_types s) \<le> 8" "length (sg_param_types s) \<le> 8"
    and "sig_step ws name stage s ids opc args st = Some (is, st')"
  shows "size_of is + to_splice name s st' \<le> 1 + length args + to_splice name s st + sig_cost (opc, args)"
  using assms(1,5)
proof (cases rule: sig_step_cases)
  case model
  then show ?thesis using size_zone_a[OF assms(2), of stage name] by (simp add: to_splice_def)
next
  case entry
  have "to_splice name s st' \<le> to_splice name s (spliced_state opc st) + 32"
    using entry(5) assms(4) by (auto simp: to_splice_def)
  then show ?thesis using entry(1,2,4) splices_size[OF assms(2), of stage opc st name] by (simp add: sig_cost_def)
next
  case (body bs st2)
  have "to_splice name s st2 \<le> to_splice name s (spliced_state opc st)"
    using body(1) by (auto simp: to_splice_def spliced_state_def)
  then show ?thesis
    using body(3) body_size[OF assms(1,3) body(2), of name] splices_size[OF assms(2), of stage opc st name] by simp
qed (auto simp: sig_cost_def)

lemma run_size:
  assumes "stream_ok (drop 5 ws)" "sig_run (sig_instr ws name stage s ids) xs st = (is, st')"
    and "plan_synth_ids s f = (ids, f')" "length (sg_ret_member_types s) \<le> 8" "length (sg_param_types s) \<le> 8"
  shows "size_of is + to_splice name s st' \<le> size_of xs + to_splice name s st + sum_list (map sig_cost xs)"
  using assms(1,2)
proof (induction rule: sig_run_induct)
  case (step opc args xs st is1 st1 is2 st2)
  then show ?case using step_size[OF assms(1,3-5) step(1)] by simp
qed simp

text \<open>The instructions of a stream have the length of the stream.\<close>

lemma size_decoded: "stream_ok ws \<Longrightarrow> size_of (decode_instrs ws) = length ws"
proof (induction ws rule: decode_instrs.induct)
  case (2 h ws)
  then show ?case by (auto simp: Let_def)
qed simp

definition growth :: "bytes \<Rightarrow> nat" where
  "growth buf = sum_list (map sig_cost (instrs_of buf))"

lemma result_fits:
  assumes "scan_ok (spv_words buf) s" "5 \<le> length (spv_words buf)" "sig_result buf name stage s = (is, st)" "growth buf \<le> 539"
  shows "5 + length (insn_words is) \<le> length (spv_words buf) + sig_slack name"
proof -
  let ?ws = "spv_words buf"
  obtain ids f where ids: "plan_synth_ids s (sg_bound s) = (ids, f)" by force
  have ok: "stream_ok (drop 5 ?ws)" "length (sg_ret_member_types s) \<le> 8" "length (sg_param_types s) \<le> 8"
    using assms(1) by (simp_all add: scan_ok_def MAX_PARAMS_def MAX_STRUCT_MEMBERS_def)
  have "size_of is + to_splice name s st \<le> size_of (instrs_of buf) + to_splice name s (sig_start f) + growth buf"
    using run_size[OF ok(1) _ ids ok(2,3)] assms(3) ids by (simp add: sig_result_def growth_def)
  moreover have "size_of (instrs_of buf) = length ?ws - 5" by (simp only: instrs_of_def size_decoded[OF ok(1)] length_drop)
  moreover have "to_splice name s (sig_start f) \<le> 229 + (length name + 4) div 4"
    using ok(2,3) by (simp add: to_splice_def sig_start_def iface_size_def)
  ultimately show ?thesis
    using assms(2,4) by (simp add: length_insn_words sig_slack_def MAX_PARAMS_def MAX_STRUCT_MEMBERS_def del: length_spv_words)
qed

subsection \<open>What the output consists of\<close>

definition injected :: "u32 \<Rightarrow> bytes \<Rightarrow> sig_scan \<Rightarrow> synth_ids \<Rightarrow> insn \<Rightarrow> bool" where
  "injected stage name s ids y \<longleftrightarrow>
     y \<in> set (zone_a stage name s ids) \<or> y \<in> set (emit_output_decorations stage ids) \<or> y \<in> set (emit_input_decorations stage ids) \<or>
     y \<in> set (pre_function s ids) \<or> is_load y \<or> is_store_seq [y] \<or> y = emit_return \<or>
     y = (54, [sy_void_id ids, sg_fn_id s, 0, sy_void_fn_type_id ids]) \<or>
     (\<exists>t r. y = (1, [t, r])) \<or> (\<exists>t r p z. y = (65, [t, r, p, z]))"

lemma store_seq_mem: "is_store_seq rs \<Longrightarrow> y \<in> set rs \<Longrightarrow> is_store_seq [y]"
  by (auto simp: is_store_seq_def list_all_iff)

lemma splices_injected: "y \<in> set (splices stage s ids opc st) \<Longrightarrow> injected stage name s ids y"
  by (auto simp: splices_def injected_def split: if_splits)

lemma body_output:
  assumes "stream_ok (drop 5 ws)" "body_step ws s ids d opc args st = Some (is, st')" "y \<in> set is"
  shows "y = (opc, args) \<and> \<not> d \<or> injected stage name s ids y"
  using assms(1,2)
proof (cases rule: body_step_cases)
  case (inner ls)
  then show ?thesis using assms(3) by (auto simp: injected_def list_all_iff)
next
  case (ret ls rs f)
  then show ?thesis using assms(3) store_seq_mem[OF ret(8), of y] by (auto simp: injected_def list_all_iff)
qed (use assms(3) in auto)

lemma step_output:
  assumes "stream_ok (drop 5 ws)" "sig_step ws name stage s ids opc args st = Some (is, st')" "y \<in> set is"
  shows "y = (opc, args) \<and> \<not> kernel_only y \<or> injected stage name s ids y"
  using assms(1,2)
proof (cases rule: sig_step_cases)
  case model
  then show ?thesis using assms(3) by (auto simp: injected_def kernel_only_def)
next
  case entry
  then show ?thesis using assms(3) splices_injected[of y stage s ids opc st name] by (auto simp: injected_def)
next
  case (body bs st2)
  then show ?thesis using assms(3) splices_injected[of y stage s ids opc st name] body_output[OF assms(1) body(2), of y stage name] by auto
qed (use assms(3) in \<open>auto simp: injected_def\<close>)

lemma run_output:
  assumes "stream_ok (drop 5 ws)" "sig_run (sig_instr ws name stage s ids) xs st = (is, st')"
  shows "y \<in> set is \<Longrightarrow> y \<in> set xs \<and> \<not> kernel_only y \<or> injected stage name s ids y"
  using assms
proof (induction rule: sig_run_induct)
  case (step opc args xs st is1 st1 is2 st2)
  then show ?case using step_output[OF assms(1) step(1), of y] by auto
qed simp

lemmas emit_defs = emit_capability_def emit_decorate_builtin_def emit_decorate_location_def emit_type_void_def
  emit_type_function_void_def emit_type_pointer_def emit_variable_def emit_load_def emit_store_def emit_return_def
  emit_entry_point_def emit_execution_mode_origin_upper_left_def

lemma iface_vars_mem: "y \<in> set (iface_vars k ps ts) \<Longrightarrow> (\<exists>p t. y = (32, [p, k, t])) \<or> (\<exists>p v. y = (59, [p, v, k]))"
  by (auto simp: iface_vars_def emit_defs)

lemma decorations_mem:
  "y \<in> set (emit_output_decorations stage ids) \<Longrightarrow> \<exists>v d k. y = (71, [v, d, k]) \<and> d \<in> {11, 30}"
  "y \<in> set (emit_input_decorations stage ids) \<Longrightarrow> \<exists>v d k. y = (71, [v, d, k]) \<and> d \<in> {11, 30}"
  by (auto simp: emit_output_decorations_def emit_input_decorations_def emit_defs split: if_splits)

lemma pre_function_mem:
  "y \<in> set (pre_function s ids) \<Longrightarrow> fst y \<in> {19, 21, 43, 33, 32, 59} \<and> length (snd y) \<le> 3"
  by (auto simp: pre_function_def emit_defs split: if_splits dest!: iface_vars_mem)

lemma zone_a_mem:
  "y \<in> set (zone_a stage name s ids) \<Longrightarrow> y = (17, [1]) \<or> y = emit_entry_point stage (sg_fn_id s) name (sig_iface ids) \<or> y = (16, [sg_fn_id s, 7])"
  by (auto simp: zone_a_def emit_defs split: if_splits)

lemma injected_clean:
  assumes "injected stage name s ids y"
  shows "\<not> kernel_only y \<and> (small_instr y \<or> y = emit_entry_point stage (sg_fn_id s) name (sig_iface ids)) \<and>
     (fst y \<notin> {54, 55, 56, 254} \<or> y = (54, [sy_void_id ids, sg_fn_id s, 0, sy_void_fn_type_id ids]))"
proof -
  have k: "\<not> kernel_only y" if "fst y \<notin> {17, 71, 72, 256, 257}" for y using that by (auto simp: kernel_only_def)
  have sm: "small_instr y" if "fst y \<in> {1, 16, 17, 19, 21, 32, 33, 43, 54, 59, 61, 62, 65, 71, 81, 253}" "length (snd y) \<le> 4" for y
    using that by (auto simp: small_instr_def)
  from assms[unfolded injected_def] show ?thesis
  proof (elim disjE)
    assume "y \<in> set (zone_a stage name s ids)"
    then have "y = (17, [1]) \<or> y = emit_entry_point stage (sg_fn_id s) name (sig_iface ids) \<or> y = (16, [sg_fn_id s, 7])"
      by (rule zone_a_mem)
    then show ?thesis by (auto simp: kernel_only_def emit_entry_point_def small_instr_def)
  next
    assume "y \<in> set (emit_output_decorations stage ids)"
    then show ?thesis by (auto dest!: decorations_mem intro!: sm simp: kernel_only_def kernel_decoration_def)
  next
    assume "y \<in> set (emit_input_decorations stage ids)"
    then show ?thesis by (auto dest!: decorations_mem intro!: sm simp: kernel_only_def kernel_decoration_def)
  next
    assume "y \<in> set (pre_function s ids)"
    then show ?thesis using pre_function_mem[of y s ids] by (auto intro!: k sm)
  qed (auto simp: is_load_def is_store_seq_def emit_defs intro!: k sm)
qed

end
