(* ===== verification/SigShape.thy ===== *)
theory SigShape
  imports SigOutput
begin

text \<open>
  The shape of a module the signature transform produced: it decodes, its entry function is void
  and without parameters, its interface variables are new and declared, and its outputs are
  decorated.
\<close>

unbundle bit_operations_syntax

subsection \<open>The entry function\<close>

text \<open>Function \<open>fn\<close> has the given type, no parameters, and returns no value.\<close>

fun entry_void :: "u32 \<Rightarrow> u32 \<Rightarrow> u32 \<Rightarrow> bool \<Rightarrow> insn list \<Rightarrow> bool" where
  "entry_void fn void void_fn within [] = True"
| "entry_void fn void void_fn within ((opc, args) # xs) =
     (if opc = 54 \<and> 4 \<le> length args \<and> args ! 1 = fn then args = [void, fn, 0, void_fn] \<and> entry_void fn void void_fn True xs
      else if opc = 56 then entry_void fn void void_fn False xs
      else (within \<longrightarrow> opc \<noteq> 55 \<and> (opc = 254 \<longrightarrow> args = [])) \<and> entry_void fn void void_fn within xs)"

lemma entry_void_neutral:
  "\<forall>x \<in> set xs. fst x \<notin> {54, 55, 56, 254} \<Longrightarrow> entry_void fn void void_fn b (xs @ ys) = entry_void fn void void_fn b ys"
  by (induction xs) auto

lemma splices_neutral: "x \<in> set (splices stage s ids opc st) \<Longrightarrow> fst x \<notin> {54, 55, 56, 254}"
  by (auto simp: splices_def split: if_splits dest!: pre_function_mem decorations_mem)

lemma loads_neutral: "list_all is_load ls \<Longrightarrow> x \<in> set ls \<Longrightarrow> fst x \<notin> {54, 55, 56, 254}"
  by (auto simp: list_all_iff is_load_def emit_load_def)

lemma stores_neutral: "is_store_seq rs \<Longrightarrow> x \<in> set rs \<Longrightarrow> fst x \<notin> {54, 55, 56, 254}"
  by (auto simp: list_all_iff is_store_seq_def)

lemma zone_a_neutral: "x \<in> set (zone_a stage name s ids) \<Longrightarrow> fst x \<notin> {54, 55, 56, 254}"
  by (drule zone_a_mem) (auto simp: emit_entry_point_def)

lemma body_entry_void:
  assumes "stream_ok (drop 5 ws)" "body_step ws s ids d opc args st = Some (is, st')" "opc = 55 \<and> ss_in_target st \<Longrightarrow> d"
    and "\<not> (opc = 54 \<and> 4 \<le> length args \<and> args ! 1 = fn)" "opc = 56 \<Longrightarrow> \<not> ss_in_target st" "d \<Longrightarrow> opc \<noteq> 56"
    and "entry_void fn void void_fn (ss_in_target st') ys" "opc = 56 \<or> b = ss_in_target st"
  shows "entry_void fn void void_fn b (is @ ys)"
  using assms(1,2)
proof (cases rule: body_step_cases)
  case (inner ls)
  have "ss_in_target st' = ss_in_target st" using inner(7) by auto
  then show ?thesis using inner(1-4) assms(3-8) loads_neutral[OF inner(5)] by (auto simp: entry_void_neutral)
next
  case (ret ls rs f)
  have n: "\<forall>x \<in> set (ls @ rs @ [emit_return]). fst x \<notin> {54, 55, 56, 254}"
    using loads_neutral[OF ret(6)] stores_neutral[OF ret(8)] by (auto simp: emit_return_def)
  show ?thesis unfolding ret(1) entry_void_neutral[OF n] using assms(7,8) ret(3,4,10) by simp
qed (use assms(3-8) in auto)

lemma step_entry_void:
  assumes "stream_ok (drop 5 ws)" "sig_step ws name stage s ids opc args st = Some (is, st')"
    and "entry_void (sg_fn_id s) (sy_void_id ids) (sy_void_fn_type_id ids) (ss_in_target st') ys"
  shows "entry_void (sg_fn_id s) (sy_void_id ids) (sy_void_fn_type_id ids) (ss_in_target st) (is @ ys)"
  using assms(1,2)
proof (cases rule: sig_step_cases)
  case model
  then show ?thesis using assms(3) zone_a_neutral by (auto simp: entry_void_neutral)
next
  case entry
  have "\<forall>x \<in> set (splices stage s ids opc st). fst x \<notin> {54, 55, 56, 254}" using splices_neutral by blast
  then show ?thesis using entry(4,5) assms(3) by (simp add: entry_void_neutral)
next
  case (body bs st2)
  have n: "\<forall>x \<in> set (splices stage s ids opc st). fst x \<notin> {54, 55, 56, 254}" using splices_neutral by blast
  have t: "ss_in_target st2 = (ss_in_target st \<and> opc \<noteq> 56)" by (simp add: body(1))
  have "entry_void (sg_fn_id s) (sy_void_id ids) (sy_void_fn_type_id ids) (ss_in_target st) (bs @ ys)"
    by (rule body_entry_void[OF assms(1) body(2)]) (use body(5) assms(3) t in \<open>auto simp: kernel_only_def\<close>)
  then show ?thesis by (simp add: body(3) entry_void_neutral[OF n])
qed (use assms(3) in auto)

lemma run_entry_void:
  assumes "stream_ok (drop 5 ws)" "sig_run (sig_instr ws name stage s ids) xs st = (is, st')"
  shows "entry_void (sg_fn_id s) (sy_void_id ids) (sy_void_fn_type_id ids) (ss_in_target st) is"
  using assms
proof (induction rule: sig_run_induct)
  case (step opc args xs st is1 st1 is2 st2)
  then show ?case using step_entry_void[OF assms(1) step(1)] by simp
qed simp

subsection \<open>What is spliced in\<close>

definition decorations :: "u32 \<Rightarrow> synth_ids \<Rightarrow> insn list" where
  "decorations stage ids = emit_output_decorations stage ids @ emit_input_decorations stage ids"

lemma body_flags:
  assumes "stream_ok (drop 5 ws)" "body_step ws s ids d opc args st = Some (is, st')"
  shows "ss_zone_a st' = ss_zone_a st" "ss_pre_types st' = ss_pre_types st" "ss_pre_function st' = ss_pre_function st"
    "\<exists>j \<le> (if opc = 254 then length (sg_ret_member_types s) else 0). ss_next st' = ss_next st + of_nat j"
  using assms by (cases rule: body_step_cases; auto)+

lemma step_flags:
  assumes "stream_ok (drop 5 ws)" "sig_step ws name stage s ids opc args st = Some (is, st')"
  shows "(ss_zone_a st' \<longleftrightarrow> ss_zone_a st \<or> opc = 14) \<and> (\<not> ss_zone_a st \<and> opc = 14 \<longrightarrow> set (zone_a stage name s ids) \<subseteq> set is) \<and>
     (ss_pre_types st' \<longleftrightarrow> ss_pre_types st \<or> is_type_op opc) \<and>
     (\<not> ss_pre_types st \<and> is_type_op opc \<longrightarrow> set (decorations stage ids) \<subseteq> set is) \<and>
     (ss_pre_function st' \<longleftrightarrow> ss_pre_function st \<or> opc = 54) \<and>
     (\<not> ss_pre_function st \<and> opc = 54 \<longrightarrow> set (pre_function s ids) \<subseteq> set is)"
    and "\<exists>j \<le> (if opc = 254 then length (sg_ret_member_types s) else 0). ss_next st' = ss_next st + of_nat j"
proof -
  show "\<exists>j \<le> (if opc = 254 then length (sg_ret_member_types s) else 0). ss_next st' = ss_next st + of_nat j"
    using assms
  proof (cases rule: sig_step_cases)
    case (body bs st2)
    then show ?thesis using body_flags(4)[OF assms(1) body(2)] by (simp add: spliced_state_def)
  qed (auto simp: spliced_state_def)
qed (use assms in \<open>cases rule: sig_step_cases;
       auto simp: is_type_op_def splices_def decorations_def spliced_state_def body_flags\<close>)

lemma run_flags:
  assumes "stream_ok (drop 5 ws)" "sig_run (sig_instr ws name stage s ids) xs st = (is, st')"
  shows "(ss_zone_a st' \<longleftrightarrow> ss_zone_a st \<or> 14 \<in> fst ` set xs) \<and>
     (\<not> ss_zone_a st \<and> 14 \<in> fst ` set xs \<longrightarrow> set (zone_a stage name s ids) \<subseteq> set is) \<and>
     (\<not> ss_pre_types st \<and> (\<exists>x \<in> set xs. is_type_op (fst x)) \<longrightarrow> set (decorations stage ids) \<subseteq> set is) \<and>
     (\<not> ss_pre_function st \<and> 54 \<in> fst ` set xs \<longrightarrow> set (pre_function s ids) \<subseteq> set is)"
  using assms
proof (induction rule: sig_run_induct)
  case (step opc args xs st is1 st1 is2 st2)
  show ?case using step(2) step_flags(1)[OF assms(1) step(1)] by (cases "opc = 14"; cases "opc = 54"; cases "is_type_op opc") auto
qed simp

definition value_returns :: "insn list \<Rightarrow> nat" where
  "value_returns xs = length (filter (\<lambda>x. fst x = 254) xs)"

lemma run_next:
  assumes "stream_ok (drop 5 ws)" "sig_run (sig_instr ws name stage s ids) xs st = (is, st')"
  shows "\<exists>j \<le> length (sg_ret_member_types s) * value_returns xs. ss_next st' = ss_next st + of_nat j"
  using assms
proof (induction rule: sig_run_induct)
  case (step opc args xs st is1 st1 is2 st2)
  obtain j where j: "j \<le> (if opc = 254 then length (sg_ret_member_types s) else 0)" "ss_next st1 = ss_next st + of_nat j"
    using step_flags(2)[OF assms(1) step(1)] by blast
  obtain k where k: "k \<le> length (sg_ret_member_types s) * value_returns xs" "ss_next st2 = ss_next st1 + of_nat k" using step(2) by blast
  show ?case using j k by (intro exI[of _ "j + k"]) (auto simp: value_returns_def)
qed (auto intro: exI[of _ 0])

subsection \<open>Interface variables\<close>

lemma fresh_pairs_eq:
  "fresh_pairs n f = (map (\<lambda>i. (f + of_nat (2 * i), f + of_nat (2 * i + 1))) [0..<n], f + of_nat (2 * n))"
proof (induction n arbitrary: f)
  case (Suc n)
  have "[0..<Suc n] = 0 # map Suc [0..<n]" by (simp add: upt_conv_Cons map_Suc_upt del: upt_Suc)
  then show ?case by (simp add: Suc fresh_def o_def algebra_simps)
qed simp

text \<open>The variables are every second id behind the first ones that are handed out.\<close>

lemma plan_iface:
  assumes "plan_synth_ids s f = (ids, f')"
  shows "\<exists>a b. a \<le> 2 \<and> b \<le> 2 \<and> sig_iface ids = map (\<lambda>i. f + of_nat (a + 2 * i + 1)) [0..<iface_size s] \<and>
     f' = f + of_nat (a + 2 * iface_size s + b)"
proof -
  let ?n = "length (sg_ret_member_types s)" and ?m = "length (sg_param_types s)"
  define a :: nat where "a = (if sg_void_id s \<noteq> 0 then 1 else 2)"
  define b :: nat where "b = (if sg_uint_type_id s \<noteq> 0 then 0 else 1) + (if sg_uint_zero_id s \<noteq> 0 then 0 else 1)"
  have outs: "sy_outs ids = fst (fresh_pairs ?n (f + of_nat a))" "sy_ins ids = fst (fresh_pairs ?m (f + of_nat (a + 2 * ?n)))"
    and f': "f' = f + of_nat (a + 2 * iface_size s + b)"
    using assms by (auto simp: plan_synth_ids_def Let_def reuse_def fresh_def fresh_pairs_eq a_def b_def iface_size_def algebra_simps split: if_splits)
  have "[0..<iface_size s] = [0..<?n] @ map (\<lambda>i. i + ?n) [0..<?m]"
    using upt_add_eq_append[of 0 ?n ?m] by (simp add: iface_size_def map_add_upt add.commute)
  then have "sig_iface ids = map (\<lambda>i. f + of_nat (a + 2 * i + 1)) [0..<iface_size s]"
    by (simp add: sig_iface_def outs fresh_pairs_eq o_def algebra_simps)
  moreover have "a \<le> 2" "b \<le> 2" by (simp_all add: a_def b_def)
  ultimately show ?thesis using f' by blast
qed

lemma unat_offset: "unat (f::u32) + n < 2 ^ 32 \<Longrightarrow> unat (f + of_nat n) = unat f + n"
  by (simp add: unat_word_ariths unat_of_nat)

text \<open>Each variable of the interface is declared with a pointer type of its storage class and the
  type of its member or parameter; an output is decorated as the position or with its location.\<close>

definition declared_as :: "insn list \<Rightarrow> u32 \<Rightarrow> u32 \<Rightarrow> u32 \<Rightarrow> bool" where
  "declared_as is storage t v \<longleftrightarrow> (\<exists>p. (32, [p, storage, t]) \<in> set is \<and> (59, [p, v, storage]) \<in> set is)"

definition output_decoration :: "u32 \<Rightarrow> nat \<Rightarrow> u32 \<Rightarrow> insn" where
  "output_decoration stage k v =
     (71, v # (if stage = 0 then if k = 0 then [11, 0] else [30, of_nat (k - 1)] else [30, of_nat k]))"

lemma iface_vars_declare:
  assumes "length ps = length ts" "i < length ps"
  shows "declared_as (iface_vars k ps ts) k (ts ! i) (map snd ps ! i)"
proof -
  have "(ps ! i, ts ! i) \<in> set (zip ps ts)" using assms by (auto simp: set_zip)
  then show ?thesis using assms(2) unfolding declared_as_def
    by (cases "ps ! i") (intro exI[of _ "fst (ps ! i)"], force simp: iface_vars_def emit_defs)
qed

lemma output_decorated:
  assumes "k < length (sy_outs ids)"
  shows "output_decoration stage k (map snd (sy_outs ids) ! k) \<in> set (decorations stage ids)"
proof -
  obtain p v where pv: "sy_outs ids ! k = (p, v)" by force
  have "(k, (p, v)) \<in> set (enumerate 0 (sy_outs ids))" using assms pv by (simp add: in_set_enumerate_eq)
  then have "(if stage = 0 \<and> k = 0 then emit_decorate_builtin v 0 else if stage = 0 then emit_decorate_location v (of_nat (k - 1))
      else emit_decorate_location v (of_nat k)) \<in> set (emit_output_decorations stage ids)"
    unfolding emit_output_decorations_def set_map by (rule image_eqI[rotated]) simp
  then show ?thesis using assms pv
    by (auto simp: decorations_def output_decoration_def emit_decorate_builtin_def emit_decorate_location_def split: if_splits)
qed

lemma declared_mono: "declared_as is k t v \<Longrightarrow> set is \<subseteq> set js \<Longrightarrow> declared_as js k t v"
  unfolding declared_as_def by blast

lemma iface_declared:
  assumes "plan_synth_ids s f = (ids, f')" "set (pre_function s ids) \<subseteq> set is" "set (decorations stage ids) \<subseteq> set is"
  shows "k < length (sg_ret_member_types s) \<Longrightarrow> declared_as is 3 (sg_ret_member_types s ! k) (map snd (sy_outs ids) ! k) \<and>
      output_decoration stage k (map snd (sy_outs ids) ! k) \<in> set is"
    and "k < length (sg_param_types s) \<Longrightarrow> declared_as is 1 (sg_param_types s ! k) (map snd (sy_ins ids) ! k)"
proof -
  note l = plan_lengths[OF assms(1)]
  have sub: "set (iface_vars 3 (sy_outs ids) (sg_ret_member_types s)) \<subseteq> set is" "set (iface_vars 1 (sy_ins ids) (sg_param_types s)) \<subseteq> set is"
    using assms(2) by (auto simp: pre_function_def)
  show "declared_as is 3 (sg_ret_member_types s ! k) (map snd (sy_outs ids) ! k) \<and>
      output_decoration stage k (map snd (sy_outs ids) ! k) \<in> set is" if "k < length (sg_ret_member_types s)"
    using that l assms(3) output_decorated[of k ids stage] declared_mono[OF iface_vars_declare[OF l(1)] sub(1)] by auto
  show "declared_as is 1 (sg_param_types s ! k) (map snd (sy_ins ids) ! k)" if "k < length (sg_param_types s)"
    using that l declared_mono[OF iface_vars_declare[OF l(2)] sub(2)] by simp
qed

subsection \<open>The module that is produced\<close>

lemma result_small:
  assumes "scan_ok (spv_words buf) s" "sig_result buf name stage s = (is, st)" "length name < 65536"
  shows "list_all small_instr is"
proof -
  obtain ids f where ids: "plan_synth_ids s (sg_bound s) = (ids, f)" by force
  have ok: "stream_ok (drop 5 (spv_words buf))" "length (sig_iface ids) \<le> 16"
    using assms(1) plan_lengths[OF ids] by (simp_all add: scan_ok_def MAX_PARAMS_def MAX_STRUCT_MEMBERS_def sig_iface_def)
  have run: "sig_run (sig_instr (spv_words buf) name stage s ids) (instrs_of buf) (sig_start f) = (is, st)"
    using assms(2) ids by (simp add: sig_result_def)
  have "small_instr (emit_entry_point stage (sg_fn_id s) name (sig_iface ids))"
    using ok(2) assms(3) by (simp add: small_instr_def emit_entry_point_def)
  then show ?thesis
    using run_output[OF ok(1) run] injected_clean decode_small[of "drop 5 (spv_words buf)"]
    unfolding list_all_iff instrs_of_def by blast
qed

lemma result_decodes:
  assumes "spv_module buf" "list_all small_instr is" "out = words_bytes ((take 5 (spv_words buf))[3 := b] @ insn_words is)"
  shows "spv_module out" "instrs_of out = is" "spv_words out ! 3 = b"
proof -
  have w: "spv_words out = (take 5 (spv_words buf))[3 := b] @ insn_words is" unfolding assms(3) words_bytes_def by (rule spv_words_bytes)
  have "5 \<le> length (spv_words buf)" using assms(1) div_le_mono[of 20 "length buf" 4] by (simp add: spv_module_def)
  then have l5: "length ((take 5 (spv_words buf))[3 := b]) = 5" by simp
  then show "instrs_of out = is" using assms(2) by (simp add: instrs_of_def w insn_words_def decode_instr_words)
  show "spv_words out ! 3 = b" using l5 by (simp add: w nth_append)
  have "length out = 4 * length (spv_words out)" unfolding w unfolding assms(3) by (rule length_words_bytes)
  moreover have "spv_words out ! 0 = spv_words buf ! 0" using l5 by (simp add: w nth_append)
  moreover have "5 \<le> length (spv_words out)" using l5 by (simp add: w)
  ultimately show "spv_module out" using assms(1) by (simp add: spv_module_def)
qed

text \<open>A module that was produced, with the scan and the ids it rests on.\<close>

lemma transform_output:
  assumes "lagfx_spv_signature_transform buf name stage = Some (Inr out)" "spv_module buf" "0 \<notin> set name" "length name < 65536"
  obtains s ids f st where "scan_module (spv_words buf) name = Some (Inr s)" "scan_ok (spv_words buf) s"
    "plan_synth_ids s (sg_bound s) = (ids, f)" "spv_module out" "spv_words out ! 3 = ss_next st"
    "sig_run (sig_instr (spv_words buf) name stage s ids) (instrs_of buf) (sig_start f) = (instrs_of out, st)" "ss_zone_a st"
proof -
  have n: "name \<noteq> []" using assms(1) by (auto simp: lagfx_spv_signature_transform_def)
  have m: "length buf mod 4 = 0" using assms(1,2) n
    by (auto simp: lagfx_spv_signature_transform_def magic_word spv_module_def split: if_splits)
  obtain s "is" st where s: "scan_module (spv_words buf) name = Some (Inr s)" "scan_ok (spv_words buf) s"
      "sig_result buf name stage s = (is, st)" "ss_zone_a st" "out = words_bytes ((take 5 (spv_words buf))[3 := ss_next st] @ insn_words is)"
    using transform_eq[OF assms(2) m n assms(3), of stage] assms(1) by (auto split: if_splits)
  obtain ids f where ids: "plan_synth_ids s (sg_bound s) = (ids, f)" by force
  note d = result_decodes[OF assms(2) result_small[OF s(2,3) assms(4)] s(5)]
  have "sig_run (sig_instr (spv_words buf) name stage s ids) (instrs_of buf) (sig_start f) = (instrs_of out, st)"
    using s(3) ids d(2) by (simp add: sig_result_def)
  then show thesis using that s d ids by blast
qed

lemma output_spliced:
  assumes "scan_ok ws s" "ws = spv_words buf" "sig_run (sig_instr ws name stage s ids) (instrs_of buf) (sig_start f) = (is, st)" "ss_zone_a st"
  shows "set (zone_a stage name s ids) \<subseteq> set is \<and> set (decorations stage ids) \<subseteq> set is \<and> set (pre_function s ids) \<subseteq> set is"
proof -
  have ok: "stream_ok (drop 5 ws)" "33 \<in> fst ` set (instrs_of buf)" "54 \<in> fst ` set (instrs_of buf)"
    using assms(1,2) by (force simp: scan_ok_def instrs_of_def)+
  have "\<exists>x \<in> set (instrs_of buf). is_type_op (fst x)" using ok(2) by (force simp: is_type_op_def)
  then show ?thesis using run_flags[OF ok(1) assms(3)] assms(4) ok(3) by (simp add: sig_start_def)
qed

lemma iface_fresh:
  assumes "scan_ok (spv_words buf) s" "plan_synth_ids s (sg_bound s) = (ids, f)"
    and "sig_run (sig_instr (spv_words buf) name stage s ids) (instrs_of buf) (sig_start f) = (is, st)"
    and "unat (spv_words buf ! 3) + 36 + 8 * value_returns (instrs_of buf) < 2 ^ 32"
  shows "distinct (sig_iface ids) \<and> (\<forall>v \<in> set (sig_iface ids). spv_words buf ! 3 \<le> v \<and> v < ss_next st)"
proof -
  let ?b = "spv_words buf ! 3" and ?n = "iface_size s"
  have ok: "stream_ok (drop 5 (spv_words buf))" "sg_bound s = ?b" "?n \<le> 16" "length (sg_ret_member_types s) \<le> 8"
    using assms(1) by (simp_all add: scan_ok_def iface_size_def MAX_PARAMS_def MAX_STRUCT_MEMBERS_def)
  obtain a c where a: "a \<le> 2" "c \<le> 2" "sig_iface ids = map (\<lambda>i. ?b + of_nat (a + 2 * i + 1)) [0..<?n]" "f = ?b + of_nat (a + 2 * ?n + c)"
    using plan_iface[OF assms(2)] ok(2) by auto
  obtain j where j: "j \<le> length (sg_ret_member_types s) * value_returns (instrs_of buf)" "ss_next st = f + of_nat j"
    using run_next[OF ok(1) assms(3)] by (auto simp: sig_start_def)
  have j8: "j \<le> 8 * value_returns (instrs_of buf)" using j(1) mult_le_mono1[OF ok(4)] le_trans by blast
  have u: "unat (?b + of_nat (a + 2 * i + 1)) = unat ?b + (a + 2 * i + 1)" if "i < ?n" for i
    by (rule unat_offset) (use that a(1) ok(3) assms(4) in simp)
  have "ss_next st = ?b + of_nat (a + 2 * ?n + c + j)" using j(2) a(4) by simp
  then have next': "unat (ss_next st) = unat ?b + (a + 2 * ?n + c + j)"
    using unat_offset[of ?b "a + 2 * ?n + c + j"] a(1,2) ok(3) j8 assms(4) by simp
  have "inj_on (\<lambda>i. ?b + of_nat (a + 2 * i + 1)) {0..<?n}"
  proof (rule inj_onI)
    fix x y assume xy: "x \<in> {0..<?n}" "y \<in> {0..<?n}" "?b + of_nat (a + 2 * x + 1) = ?b + of_nat (a + 2 * y + 1)"
    then have "unat ?b + (a + 2 * x + 1) = unat ?b + (a + 2 * y + 1)" using u[of x] u[of y] by (metis atLeastLessThan_iff)
    then show "x = y" by simp
  qed
  then have "distinct (sig_iface ids)" unfolding a(3) by (simp add: distinct_map del: of_nat_add of_nat_Suc)
  moreover have "?b \<le> v \<and> v < ss_next st" if vs: "v \<in> set (sig_iface ids)" for v
  proof -
    obtain i where "i < ?n" "v = ?b + of_nat (a + 2 * i + 1)" using vs a(3) by (auto simp del: of_nat_add of_nat_Suc)
    then show ?thesis using u[of i] next' by (simp add: word_le_nat_alt word_less_nat_alt del: of_nat_add of_nat_Suc)
  qed
  ultimately show ?thesis by blast
qed

text \<open>The entry function itself is in the output.\<close>

lemma run_entry_kept:
  assumes "stream_ok (drop 5 ws)" "sig_run (sig_instr ws name stage s ids) xs st = (is, st')"
  shows "(54, args) \<in> set xs \<Longrightarrow> 4 \<le> length args \<Longrightarrow> args ! 1 = sg_fn_id s \<Longrightarrow>
     (54, [sy_void_id ids, sg_fn_id s, 0, sy_void_fn_type_id ids]) \<in> set is"
  using assms
proof (induction rule: sig_run_induct)
  case (step opc args' xs st is1 st1 is2 st2)
  show ?case
  proof (cases "opc = 54 \<and> args' = args")
    case True
    from assms(1) step(1) show ?thesis by (cases rule: sig_step_cases) (use True step.prems in auto)
  qed (use step in auto)
qed simp

end
