(* ===== verification/ShaderExamples.thy ===== *)
theory ShaderExamples
  imports ShaderTranslate AirTranslate SigShape
begin

text \<open>
  Concrete inputs of the shader half on which the properties are instantiated: a module with
  one function and an argument list in its metadata, a library with one function, and an
  operating system that follows the documented rule for temporary files.
\<close>

definition sample_air :: lagfx_air_module where
  "sample_air =
     \<lparr>m_arena = \<lparr>ar_moves = 0, ar_capacity = 8, ar_used = 8\<rparr>,
      m_strings = [1 \<mapsto> ascii ''air.vertex'', 2 \<mapsto> ascii ''air.buffer''], m_words = (\<lambda>_. None),
      m_bitstream = [], m_blockinfo = lagfx_blockinfo_init, m_triple_offset = 0, m_datalayout_offset = 0,
      m_source_filename_offset = 0, m_strtab = [], m_types = [], m_constants = [],
      m_fn_cells = [0 \<mapsto> \<lparr>fn_name_offset = 0, fn_name_length = 0, fn_type_index = 0, fn_param_attr_index = 0, fn_linkage = 0,
        fn_visibility = 0, fn_is_proto = False, fn_body_offset = 4, fn_body_length = 8\<rparr>],
      m_functions_off = 0, m_functions_moves = 0, m_num_functions = 1, m_num_globalvars = 0,
      m_metadata = [\<lparr>md_kind = LAGFX_AIR_MD_NAMED_NODE, md_name_offset = 1, md_operands = [2], md_moves = 0\<rparr>,
        \<lparr>md_kind = LAGFX_AIR_MD_NODE, md_name_offset = 0, md_operands = [0, 0, 4], md_moves = 0\<rparr>,
        \<lparr>md_kind = LAGFX_AIR_MD_NODE, md_name_offset = 0, md_operands = [5], md_moves = 0\<rparr>,
        \<lparr>md_kind = LAGFX_AIR_MD_NODE, md_name_offset = 0, md_operands = [1], md_moves = 0\<rparr>],
      m_md_strings = [2], m_param_attr_groups = [], m_symtab = []\<rparr>"

definition sample_os :: "unit translate_os" where
  "sample_os = \<lparr>os_regular = (\<lambda>p _. p = ''/usr/bin/llc''), os_which = (\<lambda>_. None), os_mkstemp = (\<lambda>t _. (if suffix ''XXXXXX'' t then Some t else None, ())),
     os_write = (\<lambda>_ bs _. (int (length bs), ())), os_spawn = (\<lambda>_ _. (Exited 0, ())), os_unlink = (\<lambda>_ _. ()), os_size = (\<lambda>_ _. Some 20),
     os_read = (\<lambda>_ n _. Some (replicate n 0))\<rparr>"

definition sample_lib :: bytes where
  "sample_lib = lib_bytes [\<lparr>lf_name = ascii ''main'', lf_stage = 1,
     lf_code = kLlvmBitcodeWrapperMagic @ ascii ''air64-apple-macosx14.0.0'', lf_extra = []\<rparr>]"

lemma sample_air_facts:
  "md_all_valid sample_air" "discover_stage sample_air = LAGFX_TRANS_STAGE_VERTEX" "m_function sample_air 0 \<noteq> None"
  "m_num_functions sample_air = 1"
  "binding_list sample_air (entry_args sample_air) = [\<lparr>ab_kind = 1, ab_metal_index = - 1\<rparr>]"
  by code_simp+

lemma sample_run: "lagfx_shader_translate_run sample_os sample_lib (ascii ''main'') LAGFX_SHADER_STAGE_VERTEX () =
  Some (Inl LAGFX_ERR_OUT_OF_MEMORY, ())"
  by code_simp

lemma sample_os_law: "mkstemp_law sample_os"
  by (simp add: mkstemp_law_def sample_os_def)

text \<open>A kernel function with one parameter that returns it, and a function that returns a structure
  of eight members at twelve places.\<close>

definition sample_sig :: words where
  "sample_sig = [SPV_MAGIC, 0x10000, 0, 7, 0, 0x20011, 6, 0x3000E, 1, 2, 0x30005, 4, 0x76, 0x30016, 1, 32,
     0x40021, 2, 1, 1, 0x50036, 1, 4, 0, 2, 0x30037, 1, 5, 0x200F8, 6, 0x200FE, 5, 0x10038]"

definition many_returns :: words where
  "many_returns = [SPV_MAGIC, 0x10000, 0, 7, 0, 0x3000E, 1, 2, 0x30005, 4, 0x76, 0x30016, 1, 32,
     0xA001E, 2, 1, 1, 1, 1, 1, 1, 1, 1, 0x30021, 3, 2, 0x50036, 2, 4, 0, 3] @ concat (replicate 12 [0x200F8, 6, 0x200FE, 5]) @ [0x10038]"

definition sample_scan :: sig_scan where
  "sample_scan = \<lparr>sg_fn_id = 4, sg_found_fn = True, sg_fn_type_id = 2, sg_fn_ret_type_id = 1, sg_ret_is_struct = False,
     sg_ret_member_types = [1], sg_param_types = [1], sg_void_id = 0, sg_uint_type_id = 0, sg_uint_zero_id = 0,
     sg_pointer_type_ids = [], sg_lifetime_operand_ids = [], sg_bound = 7, sg_has_shader_cap = False\<rparr>"

definition many_scan :: sig_scan where
  "many_scan = \<lparr>sg_fn_id = 4, sg_found_fn = True, sg_fn_type_id = 3, sg_fn_ret_type_id = 2, sg_ret_is_struct = True,
     sg_ret_member_types = replicate 8 1, sg_param_types = [], sg_void_id = 0, sg_uint_type_id = 0, sg_uint_zero_id = 0,
     sg_pointer_type_ids = [], sg_lifetime_operand_ids = [], sg_bound = 7, sg_has_shader_cap = False\<rparr>"

lemma sample_sig_facts:
  "scan_module sample_sig [0x76] = Some (Inr sample_scan)" "scan_module many_returns [0x76] = Some (Inr many_scan)"
  "14 \<in> fst ` set (decode_instrs (drop 5 sample_sig))" "sum_list (map sig_cost (decode_instrs (drop 5 sample_sig))) = 95"
  "value_returns (decode_instrs (drop 5 sample_sig)) = 1" "value_returns (decode_instrs (drop 5 many_returns)) = 12"
  "sample_sig ! 0 = SPV_MAGIC" "many_returns ! 0 = SPV_MAGIC" "length sample_sig = 33" "length many_returns = 81"
  by code_simp+

lemma many_returns_run:
  "case plan_synth_ids many_scan 7 of (ids, f) \<Rightarrow>
     850 < 5 + length (insn_words (fst (sig_run (sig_instr many_returns [0x76] 0 many_scan ids) (decode_instrs (drop 5 many_returns)) (sig_start f))))"
  by code_simp

lemma words_module:
  assumes "ws ! 0 = SPV_MAGIC" "5 \<le> length ws"
  shows "spv_module (words_bytes ws)" "length (words_bytes ws) mod 4 = 0" "spv_words (words_bytes ws) = ws"
proof -
  show w: "spv_words (words_bytes ws) = ws" unfolding words_bytes_def by (rule spv_words_bytes)
  show "length (words_bytes ws) mod 4 = 0" by simp
  show "spv_module (words_bytes ws)" using assms by (simp add: spv_module_def w)
qed

lemma sample_sig_returns: "\<exists>out. lagfx_spv_signature_transform (words_bytes sample_sig) [0x76] 0 = Some (Inr out)"
proof -
  let ?b = "words_bytes sample_sig"
  have w: "spv_module ?b" "length ?b mod 4 = 0" "spv_words ?b = sample_sig" by (intro words_module; simp add: sample_sig_facts)+
  have g: "growth ?b \<le> 539" by (simp add: growth_def instrs_of_def w(3) sample_sig_facts(4))
  obtain "is" st where s: "scan_ok sample_sig sample_scan" "sig_result ?b [0x76] 0 sample_scan = (is, st)"
      "lagfx_spv_signature_transform ?b [0x76] 0 =
         (if 5 + length (insn_words is) > length sample_sig + sig_slack [0x76] then None
          else if \<not> ss_zone_a st then Some (Inl LAGFX_ERR_PROTOCOL)
          else Some (Inr (words_bytes ((take 5 sample_sig)[3 := ss_next st] @ insn_words is))))"
    using transform_eq[OF w(1,2), of "[0x76]" 0] by (auto simp: w(3) sample_sig_facts(1))
  have ok: "stream_ok (drop 5 sample_sig)" using s(1) by (simp add: scan_ok_def)
  obtain ids f where "plan_synth_ids sample_scan (sg_bound sample_scan) = (ids, f)" by force
  then have "ss_zone_a st"
    using run_flags[OF ok, of "[0x76]" 0 sample_scan ids "instrs_of ?b" "sig_start f"] s(2) sample_sig_facts(3)
    by (simp add: sig_result_def w(3) instrs_of_def)
  then show ?thesis using s(3) result_fits[of ?b sample_scan "[0x76]" 0 "is" st] s(1,2) g sample_sig_facts(9) by (simp add: w(3))
qed

end
