(* ===== verification/FnFlow.thy ===== *)
theory FnFlow
  imports AirReader
begin

text \<open>
  The analysis of a function body in \<^verbatim>\<open>src/air2spv/translate_function.c\<close>: the numbering of values,
  the partition into basic blocks and the recognition of the two loop shapes that are emitted
  as structured loops.  Instructions are the records the body reader returns.  \<^const>\<open>None\<close> is a
  read outside the instructions, the operands or the blocks.  The theory shows that the
  partition is the unique one into blocks that end in their only terminator, that every read of
  the recognition is in range, and that a recognised plan describes the branches of the body.
\<close>

unbundle bit_operations_syntax

definition elem_at :: "'a list \<Rightarrow> nat \<Rightarrow> 'a option" where
  "elem_at xs i = (if i < length xs then Some (xs ! i) else None)"

lemma elem_at_in [simp]: "i < length xs \<Longrightarrow> elem_at xs i = Some (xs ! i)"
  by (simp add: elem_at_def)

subsection \<open>Values\<close>

definition LAGFX_AIR_TYPE_NONE :: u32 where "LAGFX_AIR_TYPE_NONE = 0xFFFFFFFF"
definition LAGFX_AIR_TYPE_BOOL :: u32 where "LAGFX_AIR_TYPE_BOOL = 0xFFFFFFFE"

definition resolve_relative :: "u32 \<Rightarrow> u32 \<Rightarrow> u32" where
  "resolve_relative encoded next_val_id = (if encoded \<le> next_val_id then next_val_id - encoded else encoded)"

definition decode_sign_rotated :: "u64 \<Rightarrow> u64" where
  "decode_sign_rotated v = (if v AND 1 = 0 then drop_bit 1 v else if v \<noteq> 1 then - drop_bit 1 v else 0x8000000000000000)"

text \<open>The return type of a call: the explicit function type behind the optional fast-math flags.\<close>

definition call_return_air_type :: "lagfx_air_type list \<Rightarrow> lagfx_air_inst \<Rightarrow> u32 option" where
  "call_return_air_type ts i =
     (let ops = inst_ops i in
      if length ops < 3 then Some LAGFX_AIR_TYPE_NONE
      else do {
        cc \<leftarrow> elem_at ops 1;
        let ccinfo = (ucast cc :: u32);
        if ccinfo AND 0x8000 = 0 then Some LAGFX_AIR_TYPE_NONE
        else do {
          let fnty_slot = 2 + (if ccinfo AND push_bit 17 1 \<noteq> 0 then 1 else 0);
          if length ops \<le> fnty_slot then Some LAGFX_AIR_TYPE_NONE
          else do {
            op \<leftarrow> elem_at ops fnty_slot;
            let fn_ty_idx = unat (ucast op :: u32);
            if length ts \<le> fn_ty_idx then Some LAGFX_AIR_TYPE_NONE
            else do {
              t \<leftarrow> elem_at ts fn_ty_idx;
              if ty_kind t \<noteq> LAGFX_AIR_TYPE_FUNCTION \<or> length (ty_op t) < 2 then Some LAGFX_AIR_TYPE_NONE
              else elem_at (ty_op t) 1 }}}})"

definition air_type_is_void :: "lagfx_air_type list \<Rightarrow> u32 \<Rightarrow> bool option" where
  "air_type_is_void ts ty_idx =
     (if length ts \<le> unat ty_idx then Some True
      else map_option (\<lambda>t. ty_kind t = LAGFX_AIR_TYPE_VOID) (elem_at ts (unat ty_idx)))"

definition inst_produces_value :: "lagfx_air_type list \<Rightarrow> lagfx_air_inst \<Rightarrow> bool option" where
  "inst_produces_value ts i =
     (if inst_code i \<in> {LAGFX_AIR_INST_DECLAREBLOCKS, LAGFX_AIR_INST_STORE, LAGFX_AIR_INST_STORE_OLD, LAGFX_AIR_INST_RET,
           LAGFX_AIR_INST_BR, LAGFX_AIR_INST_SWITCH, LAGFX_AIR_INST_UNREACHABLE} then Some False
      else if inst_code i = LAGFX_AIR_INST_CALL then do {
        ret \<leftarrow> call_return_air_type ts i;
        if ret \<noteq> LAGFX_AIR_TYPE_NONE then map_option Not (air_type_is_void ts ret) else Some False }
      else Some True)"

fun value_id_loop :: "lagfx_air_type list \<Rightarrow> lagfx_air_inst list \<Rightarrow> nat \<Rightarrow> u32 \<Rightarrow> u32 option" where
  "value_id_loop ts (i # is) (Suc n) v = do { p \<leftarrow> inst_produces_value ts i; value_id_loop ts is n (if p then v + 1 else v) }"
| "value_id_loop ts _ _ v = Some v"

definition value_id_at_inst :: "lagfx_air_type list \<Rightarrow> lagfx_air_inst list \<Rightarrow> u32 \<Rightarrow> nat \<Rightarrow> u32 option" where
  "value_id_at_inst ts insts inst_id_base inst_idx = value_id_loop ts insts inst_idx inst_id_base"

text \<open>The function a call names, as an index into the function table.\<close>

definition call_callee_fn_index :: "nat \<Rightarrow> nat \<Rightarrow> lagfx_air_inst \<Rightarrow> u32 \<Rightarrow> nat option option" where
  "call_callee_fn_index n_globalvars n_fns inst next_val_id =
     (let ops = inst_ops inst in
      if length ops < 2 then Some None
      else do {
        cc \<leftarrow> elem_at ops 1;
        let ccinfo = (ucast cc :: u32);
        let callee_slot = 2 + (if ccinfo AND push_bit 17 1 \<noteq> 0 then 1 else 0) + (if ccinfo AND 0x8000 \<noteq> 0 then 1 else 0);
        if length ops \<le> callee_slot then Some None
        else do {
          op \<leftarrow> elem_at ops callee_slot;
          let callee_id = unat (resolve_relative (ucast op) next_val_id);
          Some (if callee_id < n_globalvars \<or> n_fns \<le> callee_id - n_globalvars then None else Some (callee_id - n_globalvars)) }})"

subsection \<open>Basic blocks\<close>

record lagfx_bb =
  bb_index :: nat
  bb_first_inst :: nat
  bb_last_inst :: nat

definition inst_is_terminator :: "air_inst_code \<Rightarrow> bool" where
  "inst_is_terminator code \<longleftrightarrow> code = LAGFX_AIR_INST_RET \<or> code = LAGFX_AIR_INST_BR \<or> code = LAGFX_AIR_INST_SWITCH \<or>
     code = LAGFX_AIR_INST_UNREACHABLE \<or> code = LAGFX_AIR_INST_INDIRECTBR"

fun partition_loop :: "nat \<Rightarrow> lagfx_air_inst list \<Rightarrow> nat \<Rightarrow> nat \<Rightarrow> lagfx_bb list \<Rightarrow> (nat \<times> lagfx_bb list) option" where
  "partition_loop max_bbs [] i start bbs = Some (start, bbs)"
| "partition_loop max_bbs (x # xs) i start bbs =
     (if inst_is_terminator (inst_code x) then
        if max_bbs \<le> length bbs then None
        else partition_loop max_bbs xs (i + 1) (i + 1) (bbs @ [\<lparr>bb_index = length bbs, bb_first_inst = start, bb_last_inst = i\<rparr>])
      else partition_loop max_bbs xs (i + 1) start bbs)"

text \<open>The blocks; none stands for the count 0.\<close>

definition partition_basic_blocks :: "lagfx_air_inst list \<Rightarrow> nat \<Rightarrow> lagfx_bb list" where
  "partition_basic_blocks insts max_bbs =
     (case partition_loop max_bbs insts 0 0 [] of
        None \<Rightarrow> []
      | Some (start, bbs) \<Rightarrow> if start \<noteq> length insts then [] else bbs)"

subsection \<open>Loop shapes\<close>

record lagfx_loop_plan =
  lp_valid :: bool
  lp_entry_bb :: nat
  lp_header_bb :: nat
  lp_merge_bb :: nat
  lp_cond_true_is_exit :: bool

definition no_loop :: lagfx_loop_plan where
  "no_loop = \<lparr>lp_valid = False, lp_entry_bb = 0, lp_header_bb = 0, lp_merge_bb = 0, lp_cond_true_is_exit = False\<rparr>"

text \<open>First and last instruction of block \<open>b\<close>, and a branch target, which is cut to 32 bits.\<close>

definition bb_first :: "lagfx_air_inst list \<Rightarrow> lagfx_bb list \<Rightarrow> nat \<Rightarrow> lagfx_air_inst option" where
  "bb_first insts bbs b = do { bb \<leftarrow> elem_at bbs b; elem_at insts (bb_first_inst bb) }"

definition bb_last :: "lagfx_air_inst list \<Rightarrow> lagfx_bb list \<Rightarrow> nat \<Rightarrow> lagfx_air_inst option" where
  "bb_last insts bbs b = do { bb \<leftarrow> elem_at bbs b; elem_at insts (bb_last_inst bb) }"

definition br_target :: "lagfx_air_inst \<Rightarrow> nat \<Rightarrow> nat option" where
  "br_target i k = map_option (\<lambda>op. unat (ucast op :: u32)) (elem_at (inst_ops i) k)"

definition detect_simple_loop :: "lagfx_air_inst list \<Rightarrow> lagfx_loop_plan option" where
  "detect_simple_loop insts =
     (let bbs = partition_basic_blocks insts 8; nbb = length bbs in
      if nbb \<noteq> 3 then Some no_loop
      else do {
        t0 \<leftarrow> bb_last insts bbs 0;
        if inst_code t0 \<noteq> LAGFX_AIR_INST_BR \<or> length (inst_ops t0) \<noteq> 1 then Some no_loop
        else do {
          header \<leftarrow> br_target t0 0;
          if nbb \<le> header then Some no_loop
          else do {
            hfirst \<leftarrow> bb_first insts bbs header;
            if inst_code hfirst \<noteq> LAGFX_AIR_INST_PHI then Some no_loop
            else do {
              th \<leftarrow> bb_last insts bbs header;
              if inst_code th \<noteq> LAGFX_AIR_INST_BR \<or> length (inst_ops th) \<noteq> 3 then Some no_loop
              else do {
                t_true \<leftarrow> br_target th 0;
                t_false \<leftarrow> br_target th 1;
                if \<not> (t_false = header \<and> t_true \<noteq> header \<or> t_true = header \<and> t_false \<noteq> header) then Some no_loop
                else do {
                  let cond_true_is_exit = (t_false = header);
                  let exit_bb = (if cond_true_is_exit then t_true else t_false);
                  if nbb \<le> exit_bb then Some no_loop
                  else do {
                    te \<leftarrow> bb_last insts bbs exit_bb;
                    if inst_code te \<noteq> LAGFX_AIR_INST_RET then Some no_loop
                    else if header = 0 \<or> exit_bb = 0 then Some no_loop
                    else Some \<lparr>lp_valid = True, lp_entry_bb = 0, lp_header_bb = header, lp_merge_bb = exit_bb,
                      lp_cond_true_is_exit = cond_true_is_exit\<rparr> }}}}}}})"

record lagfx_guarded_loop_plan =
  gp_valid :: bool
  gp_entry_bb :: nat
  gp_header_bb :: nat
  gp_merge_bb :: nat
  gp_guard_true_is_header :: bool
  gp_latch_true_is_header :: bool

definition no_guarded_loop :: lagfx_guarded_loop_plan where
  "no_guarded_loop = \<lparr>gp_valid = False, gp_entry_bb = 0, gp_header_bb = 0, gp_merge_bb = 0,
     gp_guard_true_is_header = False, gp_latch_true_is_header = False\<rparr>"

text \<open>One assignment of header and merge to the targets of the guard; \<open>Some None\<close> goes on.\<close>

definition guarded_attempt ::
    "lagfx_air_inst list \<Rightarrow> lagfx_bb list \<Rightarrow> nat \<Rightarrow> nat \<Rightarrow> bool \<Rightarrow> lagfx_guarded_loop_plan option option" where
  "guarded_attempt insts bbs header merge guard_true_is_header = do {
     hfirst \<leftarrow> bb_first insts bbs header;
     if inst_code hfirst \<noteq> LAGFX_AIR_INST_PHI then Some None
     else do {
       th \<leftarrow> bb_last insts bbs header;
       if inst_code th \<noteq> LAGFX_AIR_INST_BR \<or> length (inst_ops th) \<noteq> 3 then Some None
       else do {
         l_true \<leftarrow> br_target th 0;
         l_false \<leftarrow> br_target th 1;
         if \<not> (l_true = header \<and> l_false = merge \<or> l_false = header \<and> l_true = merge) then Some None
         else do {
           tm \<leftarrow> bb_last insts bbs merge;
           if inst_code tm \<noteq> LAGFX_AIR_INST_RET then Some None
           else do {
             mfirst \<leftarrow> bb_first insts bbs merge;
             if inst_code mfirst \<noteq> LAGFX_AIR_INST_PHI then Some None
             else Some (Some \<lparr>gp_valid = True, gp_entry_bb = 0, gp_header_bb = header, gp_merge_bb = merge,
               gp_guard_true_is_header = guard_true_is_header,
               gp_latch_true_is_header = (l_true = header \<and> l_false = merge)\<rparr>) }}}}}"

definition detect_guarded_loop :: "lagfx_air_inst list \<Rightarrow> lagfx_guarded_loop_plan option" where
  "detect_guarded_loop insts =
     (let bbs = partition_basic_blocks insts 8; nbb = length bbs in
      if nbb \<noteq> 3 then Some no_guarded_loop
      else do {
        t0 \<leftarrow> bb_last insts bbs 0;
        if inst_code t0 \<noteq> LAGFX_AIR_INST_BR \<or> length (inst_ops t0) \<noteq> 3 then Some no_guarded_loop
        else do {
          g_true \<leftarrow> br_target t0 0;
          g_false \<leftarrow> br_target t0 1;
          if nbb \<le> g_true \<or> nbb \<le> g_false then Some no_guarded_loop
          else if g_true = 0 \<or> g_false = 0 then Some no_guarded_loop
          else if g_true = g_false then Some no_guarded_loop
          else do {
            a \<leftarrow> guarded_attempt insts bbs g_true g_false True;
            case a of
              Some p \<Rightarrow> Some p
            | None \<Rightarrow> do {
                b \<leftarrow> guarded_attempt insts bbs g_false g_true False;
                case b of Some p \<Rightarrow> Some p | None \<Rightarrow> Some no_guarded_loop }}}})"

subsection \<open>The partition\<close>

text \<open>Blocks that follow each other from \<open>s\<close> to \<open>e\<close>, each with its only terminator at its end.\<close>

fun bb_chain :: "lagfx_air_inst list \<Rightarrow> nat \<Rightarrow> lagfx_bb list \<Rightarrow> nat \<Rightarrow> bool" where
  "bb_chain insts s [] e \<longleftrightarrow> s = e"
| "bb_chain insts s (b # bs) e \<longleftrightarrow>
     bb_first_inst b = s \<and> s \<le> bb_last_inst b \<and> bb_last_inst b < length insts \<and>
     inst_is_terminator (inst_code (insts ! bb_last_inst b)) \<and>
     (\<forall>i. s \<le> i \<and> i < bb_last_inst b \<longrightarrow> \<not> inst_is_terminator (inst_code (insts ! i))) \<and>
     bb_chain insts (bb_last_inst b + 1) bs e"

definition terminators :: "lagfx_air_inst list \<Rightarrow> nat" where
  "terminators insts = length (filter (\<lambda>x. inst_is_terminator (inst_code x)) insts)"

lemma bb_chain_snoc:
  "bb_chain insts s (bs @ [b]) e \<longleftrightarrow>
     (\<exists>m. bb_chain insts s bs m \<and> bb_chain insts m [b] e)"
  by (induction bs arbitrary: s) auto

lemma bb_chain_unique:
  "bb_chain insts s bs e \<Longrightarrow> bb_chain insts s cs e \<Longrightarrow> e \<le> length insts \<Longrightarrow> map bb_index bs = [k..<k + length bs] \<Longrightarrow>
     map bb_index cs = [k..<k + length cs] \<Longrightarrow> bs = cs"
proof (induction bs arbitrary: s cs k)
  case Nil
  have le: "bb_chain insts x xs e \<Longrightarrow> x \<le> e" for x xs by (induction xs arbitrary: x) fastforce+
  show ?case
  proof (cases cs)
    case (Cons c cs')
    then show ?thesis using Nil le[of "bb_last_inst c + 1" cs'] by auto
  qed simp
next
  case (Cons b bs)
  have le: "bb_chain insts x xs e \<Longrightarrow> x \<le> e" for x xs by (induction xs arbitrary: x) fastforce+
  obtain c cs' where cs: "cs = c # cs'" using Cons.prems(1,2) le[of "bb_last_inst b + 1" bs] by (cases cs) auto
  have "bb_last_inst b = bb_last_inst c"
    using Cons.prems(1,2) cs by (metis bb_chain.simps(2) linorder_neqE_nat)
  moreover have "bb_index b = k" "bb_index c = k" "map bb_index bs = [k + 1..<k + 1 + length bs]" "map bb_index cs' = [k + 1..<k + 1 + length cs']"
    using Cons.prems(4,5) cs by (auto simp: upt_conv_Cons simp del: upt_Suc)
  moreover have "bb_first_inst b = bb_first_inst c" using Cons.prems(1,2) cs by simp
  ultimately show ?case using Cons.IH[of "bb_last_inst b + 1" cs' "k + 1"] Cons.prems(1-3) cs by simp
qed

lemma partition_loop_chain:
  assumes "insts = pre @ xs" "bb_chain insts 0 bbs start" "start \<le> length pre"
    and "\<forall>i. start \<le> i \<and> i < length pre \<longrightarrow> \<not> inst_is_terminator (inst_code (insts ! i))"
    and "map bb_index bbs = [0..<length bbs]" "length bbs = terminators pre" "length bbs \<le> m"
  shows "case partition_loop m xs (length pre) start bbs of
      None \<Rightarrow> m < terminators insts
    | Some (s, bs) \<Rightarrow> bb_chain insts 0 bs s \<and> s \<le> length insts \<and>
        (\<forall>i. s \<le> i \<and> i < length insts \<longrightarrow> \<not> inst_is_terminator (inst_code (insts ! i))) \<and>
        map bb_index bs = [0..<length bs] \<and> length bs = terminators insts \<and> length bs \<le> m"
  using assms
proof (induction xs arbitrary: pre start bbs)
  case (Cons x xs)
  have x: "insts ! length pre = x" "length pre < length insts" using Cons.prems(1) by auto
  show ?case
  proof (cases "inst_is_terminator (inst_code x)")
    case True
    let ?b = "\<lparr>bb_index = length bbs, bb_first_inst = start, bb_last_inst = length pre\<rparr>"
    show ?thesis
    proof (cases "m \<le> length bbs")
      case False
      have "bb_chain insts 0 (bbs @ [?b]) (length (pre @ [x]))"
        using Cons.prems(2-4) True x by (auto simp: bb_chain_snoc)
      then show ?thesis using Cons.IH[of "pre @ [x]" "bbs @ [?b]" "length pre + 1"] Cons.prems True False by (simp add: terminators_def)
    qed (use Cons.prems True in \<open>simp add: terminators_def\<close>)
  next
    case False
    have "\<not> inst_is_terminator (inst_code (insts ! i))" if "start \<le> i" "i < length (pre @ [x])" for i
      using Cons.prems(4) that False x(1) by (cases "i = length pre") auto
    then show ?thesis using Cons.IH[of "pre @ [x]" bbs start] Cons.prems False by (simp add: terminators_def)
  qed
qed (auto simp: terminators_def)

lemma partition_cases:
  "partition_basic_blocks insts m \<noteq> [] \<longleftrightarrow> insts \<noteq> [] \<and> inst_is_terminator (inst_code (last insts)) \<and> terminators insts \<le> m"
  "partition_basic_blocks insts m \<noteq> [] \<Longrightarrow> bb_chain insts 0 (partition_basic_blocks insts m) (length insts) \<and>
     map bb_index (partition_basic_blocks insts m) = [0..<terminators insts]"
proof -
  note p = partition_loop_chain[of insts "[]" insts "[]" 0 m, simplified, unfolded terminators_def[of "[]"], simplified]
  have t: "0 < terminators insts" if "insts \<noteq> []" "inst_is_terminator (inst_code (last insts))"
    using that last_in_set by (fastforce simp: terminators_def filter_empty_conv)
  have e: "s = length insts \<longleftrightarrow> insts = [] \<or> inst_is_terminator (inst_code (last insts))"
    if c: "bb_chain insts 0 bs s" "s \<le> length insts" "\<forall>i. s \<le> i \<and> i < length insts \<longrightarrow> \<not> inst_is_terminator (inst_code (insts ! i))" for bs s
  proof (cases bs rule: rev_cases)
    case Nil
    then show ?thesis using c by (cases "insts = []") (auto simp: last_conv_nth)
  next
    case (snoc bs' b)
    then have "s = bb_last_inst b + 1" "inst_is_terminator (inst_code (insts ! bb_last_inst b))" "bb_last_inst b < length insts"
      using c(1) by (auto simp: bb_chain_snoc)
    then have b: "s = bb_last_inst b + 1" "inst_is_terminator (inst_code (insts ! bb_last_inst b))" "insts \<noteq> []" by auto
    show ?thesis
    proof (cases "s = length insts")
      case True
      then have "length insts - 1 = bb_last_inst b" using b(1) by simp
      then have "last insts = insts ! bb_last_inst b" using last_conv_nth[OF b(3)] by simp
      then show ?thesis using True b by simp
    next
      case False
      then have "s \<le> length insts - 1" "length insts - 1 < length insts" using c(2) b(3) by (auto simp: Suc_le_eq)
      then have "\<not> inst_is_terminator (inst_code (last insts))" using c(3) last_conv_nth[OF b(3)] by metis
      then show ?thesis using False b(3) by simp
    qed
  qed
  show "partition_basic_blocks insts m \<noteq> [] \<longleftrightarrow> insts \<noteq> [] \<and> inst_is_terminator (inst_code (last insts)) \<and> terminators insts \<le> m"
  proof (cases "partition_loop m insts 0 0 []")
    case (Some r)
    obtain s bs where r: "r = (s, bs)" by (cases r)
    have q: "bb_chain insts 0 bs s" "s \<le> length insts" "\<forall>i. s \<le> i \<and> i < length insts \<longrightarrow> \<not> inst_is_terminator (inst_code (insts ! i))"
      "length bs = terminators insts" "length bs \<le> m" using p Some r by auto
    have "insts = [] \<Longrightarrow> terminators insts = 0" by (simp add: terminators_def)
    then show ?thesis using e[OF q(1-3)] q(4,5) t Some r by (cases "insts = []") (auto simp: partition_basic_blocks_def)
  qed (use p in \<open>simp add: partition_basic_blocks_def\<close>)
  show "partition_basic_blocks insts m \<noteq> [] \<Longrightarrow> bb_chain insts 0 (partition_basic_blocks insts m) (length insts) \<and>
     map bb_index (partition_basic_blocks insts m) = [0..<terminators insts]"
    using p by (auto simp: partition_basic_blocks_def split: option.splits prod.splits if_splits)
qed

subsection \<open>Loop plans\<close>

lemma bb_chain_mem: "bb_chain insts s bbs e \<Longrightarrow> b < length bbs \<Longrightarrow> bb_first_inst (bbs ! b) \<le> bb_last_inst (bbs ! b) \<and> bb_last_inst (bbs ! b) < length insts"
proof (induction bbs arbitrary: s b)
  case (Cons x xs)
  then show ?case by (cases b) auto
qed simp

definition first_of :: "lagfx_air_inst list \<Rightarrow> lagfx_bb list \<Rightarrow> nat \<Rightarrow> lagfx_air_inst" where
  "first_of insts bbs b = insts ! bb_first_inst (bbs ! b)"

definition last_of :: "lagfx_air_inst list \<Rightarrow> lagfx_bb list \<Rightarrow> nat \<Rightarrow> lagfx_air_inst" where
  "last_of insts bbs b = insts ! bb_last_inst (bbs ! b)"

text \<open>The blocks a branch goes to.\<close>

definition targets :: "lagfx_air_inst \<Rightarrow> nat list" where
  "targets i = map (\<lambda>op. unat (ucast op :: u32)) (if length (inst_ops i) = 3 then take 2 (inst_ops i) else inst_ops i)"

lemma block_reads:
  assumes "bbs = partition_basic_blocks insts m" "b < length bbs"
  shows "bb_first insts bbs b = Some (first_of insts bbs b)" "bb_last insts bbs b = Some (last_of insts bbs b)"
proof -
  have "bbs \<noteq> []" using assms(2) by auto
  then have "bb_chain insts 0 bbs (length insts)" using partition_cases(2) assms(1) by blast
  from bb_chain_mem[OF this assms(2)] show "bb_first insts bbs b = Some (first_of insts bbs b)" "bb_last insts bbs b = Some (last_of insts bbs b)"
    using assms(2) by (simp_all add: bb_first_def bb_last_def first_of_def last_of_def)
qed

lemma br_target_eq:
  "length (inst_ops i) = 1 \<Longrightarrow> br_target i 0 = Some (targets i ! 0) \<and> targets i = [targets i ! 0]"
  "length (inst_ops i) = 3 \<Longrightarrow> br_target i 0 = Some (targets i ! 0) \<and> br_target i 1 = Some (targets i ! 1) \<and> targets i = [targets i ! 0, targets i ! 1]"
  by (auto simp: br_target_def targets_def length_Suc_conv numeral_3_eq_3)

definition simple_loop :: "lagfx_air_inst list \<Rightarrow> lagfx_bb list \<Rightarrow> lagfx_loop_plan \<Rightarrow> bool" where
  "simple_loop insts bbs p \<longleftrightarrow> length bbs = 3 \<and> lp_entry_bb p = 0 \<and> {lp_header_bb p, lp_merge_bb p} = {1, 2} \<and>
     inst_code (last_of insts bbs 0) = LAGFX_AIR_INST_BR \<and> targets (last_of insts bbs 0) = [lp_header_bb p] \<and>
     inst_code (first_of insts bbs (lp_header_bb p)) = LAGFX_AIR_INST_PHI \<and>
     inst_code (last_of insts bbs (lp_header_bb p)) = LAGFX_AIR_INST_BR \<and>
     targets (last_of insts bbs (lp_header_bb p)) =
       (if lp_cond_true_is_exit p then [lp_merge_bb p, lp_header_bb p] else [lp_header_bb p, lp_merge_bb p]) \<and>
     inst_code (last_of insts bbs (lp_merge_bb p)) = LAGFX_AIR_INST_RET"

definition guarded_loop :: "lagfx_air_inst list \<Rightarrow> lagfx_bb list \<Rightarrow> lagfx_guarded_loop_plan \<Rightarrow> bool" where
  "guarded_loop insts bbs p \<longleftrightarrow> length bbs = 3 \<and> gp_entry_bb p = 0 \<and> {gp_header_bb p, gp_merge_bb p} = {1, 2} \<and>
     inst_code (last_of insts bbs 0) = LAGFX_AIR_INST_BR \<and>
     targets (last_of insts bbs 0) =
       (if gp_guard_true_is_header p then [gp_header_bb p, gp_merge_bb p] else [gp_merge_bb p, gp_header_bb p]) \<and>
     inst_code (first_of insts bbs (gp_header_bb p)) = LAGFX_AIR_INST_PHI \<and>
     inst_code (last_of insts bbs (gp_header_bb p)) = LAGFX_AIR_INST_BR \<and>
     targets (last_of insts bbs (gp_header_bb p)) =
       (if gp_latch_true_is_header p then [gp_header_bb p, gp_merge_bb p] else [gp_merge_bb p, gp_header_bb p]) \<and>
     inst_code (first_of insts bbs (gp_merge_bb p)) = LAGFX_AIR_INST_PHI \<and>
     inst_code (last_of insts bbs (gp_merge_bb p)) = LAGFX_AIR_INST_RET"

lemma two_of_three: "a < 3 \<Longrightarrow> b < 3 \<Longrightarrow> a \<noteq> 0 \<Longrightarrow> b \<noteq> 0 \<Longrightarrow> a \<noteq> b \<Longrightarrow> {a, b} = {1, 2::nat}"
  by auto

definition simple_plan :: "nat \<Rightarrow> nat \<Rightarrow> bool \<Rightarrow> lagfx_loop_plan" where
  "simple_plan h x d = \<lparr>lp_valid = True, lp_entry_bb = 0, lp_header_bb = h, lp_merge_bb = x, lp_cond_true_is_exit = d\<rparr>"

lemma detect_simple_sound:
  "\<exists>p. detect_simple_loop insts = Some p \<and> (lp_valid p \<longrightarrow> simple_loop insts (partition_basic_blocks insts 8) p)"
proof -
  define bbs where "bbs = partition_basic_blocks insts 8"
  define t0 where "t0 = last_of insts bbs 0"
  define h where "h = targets t0 ! 0"
  define th where "th = last_of insts bbs h"
  define a b where "a = targets th ! 0" and "b = targets th ! 1"
  define x where "x = (if b = h then a else b)"
  have r: "c < length bbs \<Longrightarrow> bb_first insts bbs c = Some (first_of insts bbs c)" "c < length bbs \<Longrightarrow> bb_last insts bbs c = Some (last_of insts bbs c)" for c
    using block_reads[OF bbs_def] by blast+
  have r0: "length bbs = 3 \<Longrightarrow> bb_last insts bbs 0 = Some t0" using r(2)[of 0] by (simp add: t0_def)
  note d = detect_simple_loop_def[of insts, folded bbs_def simple_plan_def, unfolded Let_def]
  have no: "\<not> lp_valid no_loop" by (simp add: no_loop_def)
  show ?thesis
  proof (cases "length bbs = 3 \<and> inst_code t0 = LAGFX_AIR_INST_BR \<and> length (inst_ops t0) = 1 \<and> h < 3")
    case False
    have "br_target t0 0 = Some h" if "length (inst_ops t0) = 1" using br_target_eq(1)[OF that] by (simp add: h_def)
    then have "detect_simple_loop insts = Some no_loop" unfolding d using False r0 by auto
    then show ?thesis using no by simp
  next
    case o: True
    have b0: "br_target t0 0 = Some h" "targets t0 = [h]" using br_target_eq(1)[of t0] o by (simp_all add: h_def)
    have d1: "detect_simple_loop insts =
        (if inst_code (first_of insts bbs h) \<noteq> LAGFX_AIR_INST_PHI then Some no_loop
         else if inst_code th \<noteq> LAGFX_AIR_INST_BR \<or> length (inst_ops th) \<noteq> 3 then Some no_loop
         else if \<not> (b = h \<and> a \<noteq> h \<or> a = h \<and> b \<noteq> h) then Some no_loop
         else if 3 \<le> x then Some no_loop
         else if inst_code (last_of insts bbs x) \<noteq> LAGFX_AIR_INST_RET then Some no_loop
         else if h = 0 \<or> x = 0 then Some no_loop else Some (simple_plan h x (b = h)))"
    proof (cases "length (inst_ops th) = 3")
      case True
      have b1: "br_target th 0 = Some a" "br_target th 1 = Some b" using br_target_eq(2)[OF True] by (simp_all add: a_def b_def)
      show ?thesis unfolding d using o r0 r[of h] r(2)[of x] b0(1) b1
        by (simp add: th_def[symmetric] x_def[symmetric] split del: if_split cong: if_cong)
    next
      case False
      then show ?thesis unfolding d using o r0 r[of h] b0(1) by (simp add: th_def[symmetric])
    qed
    have "simple_loop insts bbs (simple_plan h x (b = h))"
      if c: "inst_code (first_of insts bbs h) = LAGFX_AIR_INST_PHI" "inst_code th = LAGFX_AIR_INST_BR" "length (inst_ops th) = 3"
        "b = h \<and> a \<noteq> h \<or> a = h \<and> b \<noteq> h" "x < 3" "inst_code (last_of insts bbs x) = LAGFX_AIR_INST_RET" "h \<noteq> 0" "x \<noteq> 0"
    proof -
      have "h \<noteq> x" using c(4) by (auto simp: x_def)
      then have "{h, x} = {1, 2}" using two_of_three[of h x] o c by simp
      moreover have "targets th = [a, b]" using br_target_eq(2)[OF c(3)] unfolding a_def b_def by blast
      then have "targets th = (if b = h then [x, h] else [h, x])" using c(4) by (auto simp: x_def)
      ultimately show ?thesis using c o b0 by (simp add: simple_loop_def simple_plan_def t0_def[symmetric] th_def[symmetric])
    qed
    moreover have "detect_simple_loop insts = Some no_loop \<or>
        detect_simple_loop insts = Some (simple_plan h x (b = h)) \<and> inst_code (first_of insts bbs h) = LAGFX_AIR_INST_PHI \<and>
        inst_code th = LAGFX_AIR_INST_BR \<and> length (inst_ops th) = 3 \<and> (b = h \<and> a \<noteq> h \<or> a = h \<and> b \<noteq> h) \<and> \<not> 3 \<le> x \<and>
        inst_code (last_of insts bbs x) = LAGFX_AIR_INST_RET \<and> h \<noteq> 0 \<and> x \<noteq> 0"
      unfolding d1 by auto
    ultimately show ?thesis unfolding bbs_def[symmetric] using no by (metis not_le)
  qed
qed

lemma guarded_attempt_eq:
  assumes "bbs = partition_basic_blocks insts 8" "length bbs = 3" "h < 3" "g < 3"
  shows "guarded_attempt insts bbs h g d = Some (
     if inst_code (first_of insts bbs h) = LAGFX_AIR_INST_PHI \<and> inst_code (last_of insts bbs h) = LAGFX_AIR_INST_BR \<and>
        length (inst_ops (last_of insts bbs h)) = 3 \<and> (targets (last_of insts bbs h) = [h, g] \<or> targets (last_of insts bbs h) = [g, h]) \<and>
        inst_code (last_of insts bbs g) = LAGFX_AIR_INST_RET \<and> inst_code (first_of insts bbs g) = LAGFX_AIR_INST_PHI
     then Some \<lparr>gp_valid = True, gp_entry_bb = 0, gp_header_bb = h, gp_merge_bb = g, gp_guard_true_is_header = d,
       gp_latch_true_is_header = (targets (last_of insts bbs h) = [h, g])\<rparr>
     else None)"
proof -
  have r: "bb_first insts bbs h = Some (first_of insts bbs h)" "bb_last insts bbs h = Some (last_of insts bbs h)"
    "bb_first insts bbs g = Some (first_of insts bbs g)" "bb_last insts bbs g = Some (last_of insts bbs g)"
    using block_reads[OF assms(1)] assms(2-4) by simp_all
  show ?thesis
  proof (cases "length (inst_ops (last_of insts bbs h)) = 3")
    case True
    define a b where "a = targets (last_of insts bbs h) ! 0" and "b = targets (last_of insts bbs h) ! 1"
    have t: "br_target (last_of insts bbs h) 0 = Some a" "br_target (last_of insts bbs h) 1 = Some b" "targets (last_of insts bbs h) = [a, b]"
      using br_target_eq(2)[OF True] by (simp_all add: a_def b_def)
    show ?thesis unfolding guarded_attempt_def r bind.simps Let_def t using True by auto
  next
    case False
    then show ?thesis unfolding guarded_attempt_def r bind.simps Let_def by simp
  qed
qed

lemma detect_guarded_sound:
  "\<exists>p. detect_guarded_loop insts = Some p \<and> (gp_valid p \<longrightarrow> guarded_loop insts (partition_basic_blocks insts 8) p)"
proof -
  define bbs where "bbs = partition_basic_blocks insts 8"
  define t0 where "t0 = last_of insts bbs 0"
  define a b where "a = targets t0 ! 0" and "b = targets t0 ! 1"
  have r: "length bbs = 3 \<Longrightarrow> bb_last insts bbs 0 = Some t0" using block_reads[OF bbs_def] by (simp add: t0_def)
  have b1: "br_target t0 0 = Some a" "br_target t0 1 = Some b" "targets t0 = [a, b]" if "length (inst_ops t0) = 3"
    using br_target_eq(2)[OF that] by (simp_all add: a_def b_def)
  have no: "\<not> gp_valid no_guarded_loop" by (simp add: no_guarded_loop_def)
  note d = detect_guarded_loop_def[of insts, folded bbs_def, unfolded Let_def]
  show ?thesis
  proof (cases "length bbs = 3 \<and> inst_code t0 = LAGFX_AIR_INST_BR \<and> length (inst_ops t0) = 3 \<and> a < 3 \<and> b < 3 \<and> a \<noteq> 0 \<and> b \<noteq> 0 \<and> a \<noteq> b")
    case False
    have "detect_guarded_loop insts = Some no_guarded_loop"
    proof (cases "length bbs = 3 \<and> length (inst_ops t0) = 3")
      case l: True
      show ?thesis using False l r b1(1,2) unfolding d by auto
    qed (use r in \<open>auto simp: d\<close>)
    then show ?thesis using no by simp
  next
    case o: True
    have g: "\<exists>q. guarded_attempt insts bbs h x d = Some q \<and> (\<forall>p. q = Some p \<longrightarrow> guarded_loop insts bbs p)"
      if hx: "{h, x} = {a, b}" "h \<noteq> x" "d \<longleftrightarrow> h = a" for h x d
    proof -
      have l: "h < 3" "x < 3" "{h, x} = {1, 2}" "targets t0 = (if d then [h, x] else [x, h])"
        using hx o two_of_three[of a b] b1(3) by (auto simp: doubleton_eq_iff)
      let ?L = "last_of insts bbs h"
      let ?P = "\<lparr>gp_valid = True, gp_entry_bb = 0, gp_header_bb = h, gp_merge_bb = x, gp_guard_true_is_header = d,
          gp_latch_true_is_header = (targets ?L = [h, x])\<rparr>"
      let ?C = "inst_code (first_of insts bbs h) = LAGFX_AIR_INST_PHI \<and> inst_code ?L = LAGFX_AIR_INST_BR \<and>
          length (inst_ops ?L) = 3 \<and> (targets ?L = [h, x] \<or> targets ?L = [x, h]) \<and>
          inst_code (last_of insts bbs x) = LAGFX_AIR_INST_RET \<and> inst_code (first_of insts bbs x) = LAGFX_AIR_INST_PHI"
      have "guarded_loop insts bbs ?P" if ?C
        unfolding guarded_loop_def t0_def[symmetric] lagfx_guarded_loop_plan.select_convs using that l(3,4) o
        by (cases d; cases "targets ?L = [h, x]"; simp only: if_True if_False simp_thms)
      moreover have "guarded_attempt insts bbs h x d = Some (if ?C then Some ?P else None)"
        by (rule guarded_attempt_eq[OF bbs_def _ l(1,2)]) (use o in blast)
      ultimately show ?thesis by (cases ?C) (simp_all only: if_True if_False option.inject simp_thms, blast+)
    qed
    have "a \<noteq> b" using o by blast
    then obtain q1 where q1: "guarded_attempt insts bbs a b True = Some q1" "\<forall>p. q1 = Some p \<longrightarrow> guarded_loop insts bbs p"
      using g[of a b True, OF refl] by blast
    obtain q2 where q2: "guarded_attempt insts bbs b a False = Some q2" "\<forall>p. q2 = Some p \<longrightarrow> guarded_loop insts bbs p"
      using g[of b a False, OF insert_commute] \<open>a \<noteq> b\<close> by blast
    have "detect_guarded_loop insts = Some (case q1 of Some p \<Rightarrow> p | None \<Rightarrow> (case q2 of Some p \<Rightarrow> p | None \<Rightarrow> no_guarded_loop))"
      using o r b1(1,2) q1(1) q2(1) unfolding d by (simp split: option.split)
    then show ?thesis unfolding bbs_def[symmetric] using no q1(2) q2(2) by (cases q1; cases q2) (simp_all only: option.case, blast+)
  qed
qed

text \<open>A body has at most one of the two shapes.\<close>

lemma loop_shapes_disjoint: "\<not> (simple_loop insts bbs p \<and> guarded_loop insts bbs q)"
  by (auto simp: simple_loop_def guarded_loop_def split: if_splits)

text \<open>The terminators that take a value number.\<close>

lemma terminator_values:
  "inst_is_terminator (inst_code i) \<Longrightarrow> inst_produces_value ts i = Some (inst_code i = LAGFX_AIR_INST_INDIRECTBR)"
  by (auto simp: inst_is_terminator_def inst_produces_value_def)

end
