(* ===== verification/FnLayout.thy ===== *)
theory FnLayout
  imports FnFlow AirTranslate
begin

text \<open>
  The type side of \<^verbatim>\<open>src/air2spv/translate_function.c\<close>: size and alignment of types, the offsets of
  the members of a buffer block, and the classification of arguments, results and helper
  parameters.  The recursion over the type table is not guarded in the code, so it is a
  partial function and the outer \<^const>\<open>None\<close> means that it does not return.  The theory shows when
  it returns, that the members of a block do not overlap, and that entry functions and helpers
  see the same resources.
\<close>

unbundle bit_operations_syntax

subsection \<open>Size and alignment\<close>

definition lagfx_round_up :: "u32 \<Rightarrow> u32 \<Rightarrow> u32" where
  "lagfx_round_up x a = (if a = 0 then x else ((x + a - 1) div a) * a)"

abbreviation is_struct_kind :: "air_type_kind \<Rightarrow> bool" where
  "is_struct_kind k \<equiv> k = LAGFX_AIR_TYPE_STRUCT_ANON \<or> k = LAGFX_AIR_TYPE_STRUCT_NAMED"

definition op_or :: "lagfx_air_type \<Rightarrow> nat \<Rightarrow> u32 \<Rightarrow> u32" where
  "op_or t k d = (if k < length (ty_op t) then ty_op t ! k else d)"

text \<open>A query is a type, or the rest of the members of a structure with the loop variables.\<close>

partial_function (option) size_align_rec ::
    "lagfx_air_type list \<Rightarrow> u32 + u32 list \<times> u32 \<times> u32 \<Rightarrow> (u32 \<times> u32) option option" where
  "size_align_rec ts q = (case q of
     Inl ty \<Rightarrow>
       (if length ts \<le> unat ty then Some None
        else let t = ts ! unat ty in
          if ty_kind t = LAGFX_AIR_TYPE_FLOAT then Some (Some (4, 4))
          else if ty_kind t = LAGFX_AIR_TYPE_HALF then Some (Some (2, 2))
          else if ty_kind t = LAGFX_AIR_TYPE_DOUBLE then Some (Some (8, 8))
          else if ty_kind t = LAGFX_AIR_TYPE_INTEGER then
            let b = op_or t 0 32 div 8; b' = (if b = 0 then 1 else b) in Some (Some (b', b'))
          else if ty_kind t = LAGFX_AIR_TYPE_VECTOR then
            Option.bind (size_align_rec ts (Inl (op_or t 1 0))) (\<lambda>r. Some (
              map_option (\<lambda>(es, ea). (es * op_or t 0 4, if op_or t 0 4 = 2 then es * 2 else es * 4)) r))
          else if ty_kind t = LAGFX_AIR_TYPE_ARRAY then
            Option.bind (size_align_rec ts (Inl (op_or t 1 0))) (\<lambda>r. Some (
              map_option (\<lambda>(es, ea). (lagfx_round_up es ea * op_or t 0 0, ea)) r))
          else if is_struct_kind (ty_kind t) then size_align_rec ts (Inr (drop 1 (ty_op t), 0, 1))
          else Some None)
   | Inr (fs, off, maxa) \<Rightarrow>
       (case fs of
          [] \<Rightarrow> Some (Some (lagfx_round_up off maxa, maxa))
        | f # fs' \<Rightarrow>
            Option.bind (size_align_rec ts (Inl f)) (\<lambda>r. case r of
              None \<Rightarrow> Some None
            | Some (ms, ma) \<Rightarrow> size_align_rec ts (Inr (fs', lagfx_round_up off ma + ms, if maxa < ma then ma else maxa)))))"

declare size_align_rec.simps [code]

definition air_type_size_align :: "lagfx_air_type list \<Rightarrow> u32 \<Rightarrow> (u32 \<times> u32) option option" where
  "air_type_size_align ts ty = size_align_rec ts (Inl ty)"

definition is_data_kind :: "air_type_kind \<Rightarrow> bool" where
  "is_data_kind k \<longleftrightarrow> k \<in> {LAGFX_AIR_TYPE_ARRAY, LAGFX_AIR_TYPE_VECTOR, LAGFX_AIR_TYPE_FLOAT, LAGFX_AIR_TYPE_HALF,
     LAGFX_AIR_TYPE_DOUBLE, LAGFX_AIR_TYPE_INTEGER}"

definition buffer_arg_nonstruct_pointee :: "lagfx_air_type list \<Rightarrow> u32 \<Rightarrow> u32 option" where
  "buffer_arg_nonstruct_pointee ts pointee_ty =
     (if length ts \<le> unat pointee_ty then Some 0
      else if is_data_kind (ty_kind (ts ! unat pointee_ty)) then do {
        r \<leftarrow> air_type_size_align ts pointee_ty;
        Some (if r \<noteq> None then pointee_ty else 0) }
      else Some 0)"

text \<open>The members of a block one after the other, as far as they can be laid out.\<close>

fun member_offsets :: "lagfx_air_type list \<Rightarrow> u32 list \<Rightarrow> u32 \<Rightarrow> u32 list option option" where
  "member_offsets ts [] off = Some (Some [])"
| "member_offsets ts (f # fs) off = do {
     r \<leftarrow> air_type_size_align ts f;
     case r of
       None \<Rightarrow> Some None
     | Some (ms, ma) \<Rightarrow> do {
         let o1 = lagfx_round_up off ma;
         rest \<leftarrow> member_offsets ts fs (o1 + ms);
         Some (map_option (Cons o1) rest) }}"

definition block_struct_handleable :: "lagfx_air_type list \<Rightarrow> u32 \<Rightarrow> bool option" where
  "block_struct_handleable ts struct_ty =
     (if length ts \<le> unat struct_ty then Some False
      else let t = ts ! unat struct_ty in
        if \<not> is_struct_kind (ty_kind t) then map_option (\<lambda>p. p \<noteq> 0) (buffer_arg_nonstruct_pointee ts struct_ty)
        else let fs = drop 1 (ty_op t) in
          if length fs = 0 \<or> 32 < length fs then Some False
          else map_option (\<lambda>r. r \<noteq> None) (member_offsets ts fs 0))"

subsection \<open>Capabilities\<close>

function air_type_requires_extra_cap :: "lagfx_air_type list \<Rightarrow> u32 \<Rightarrow> nat \<Rightarrow> bool" where
  "air_type_requires_extra_cap ts ty depth =
     (if 8 < depth then False
      else if length ts \<le> unat ty then False
      else let t = ts ! unat ty in
        if ty_kind t = LAGFX_AIR_TYPE_INTEGER then op_or t 0 32 \<notin> {8, 16, 32, 64}
        else if ty_kind t \<in> {LAGFX_AIR_TYPE_VECTOR, LAGFX_AIR_TYPE_ARRAY, LAGFX_AIR_TYPE_POINTER} then
          if ty_kind t = LAGFX_AIR_TYPE_ARRAY \<and> 1 \<le> length (ty_op t) \<and> ty_op t ! 0 = 0 then True
          else air_type_requires_extra_cap ts (op_or t 1 0) (depth + 1)
        else if is_struct_kind (ty_kind t) then list_ex (\<lambda>f. air_type_requires_extra_cap ts f (depth + 1)) (drop 1 (ty_op t))
        else False)"
  by pat_completeness auto
termination
  by (relation "measure (\<lambda>(_, _, d). 9 - d)") auto

declare air_type_requires_extra_cap.simps [simp del]

subsection \<open>Arguments and results\<close>

datatype lagfx_xlate_stage = LAGFX_XLATE_STAGE_VERTEX | LAGFX_XLATE_STAGE_FRAGMENT

datatype lagfx_varg_kind = LAGFX_VARG_VID | LAGFX_VARG_ATTR | LAGFX_VARG_SKIP

definition LAGFX_MAX_VERTEX_ARGS :: nat where "LAGFX_MAX_VERTEX_ARGS = 32"

definition vertex_arg_kind :: "lagfx_air_type list \<Rightarrow> lagfx_xlate_stage \<Rightarrow> u32 list \<Rightarrow> nat \<Rightarrow> lagfx_varg_kind" where
  "vertex_arg_kind ts stage arg_air_type_ids arg_idx =
     (if length arg_air_type_ids \<le> arg_idx then LAGFX_VARG_SKIP
      else let ty = unat (arg_air_type_ids ! arg_idx) in
        if length ts \<le> ty then LAGFX_VARG_SKIP
        else if ty_kind (ts ! ty) = LAGFX_AIR_TYPE_INTEGER then
          if stage = LAGFX_XLATE_STAGE_VERTEX then LAGFX_VARG_VID else LAGFX_VARG_SKIP
        else if ty_kind (ts ! ty) = LAGFX_AIR_TYPE_FLOAT \<or> ty_kind (ts ! ty) = LAGFX_AIR_TYPE_VECTOR then LAGFX_VARG_ATTR
        else LAGFX_VARG_SKIP)"

text \<open>The resource a named structure stands for: 1 is a texture, 2 a sampler, 0 neither.\<close>

definition resource_name :: "bytes \<Rightarrow> nat" where
  "resource_name nm =
     (let p = (if prefix (ascii ''struct.'') nm then drop 7 nm else nm) in
      if sublist (ascii ''_texture'') p \<or> sublist (ascii ''_depth'') p then 1
      else if sublist (ascii ''_sampler'') p then 2 else 0)"

definition pointee_name :: "lagfx_air_module \<Rightarrow> lagfx_air_type \<Rightarrow> nat" where
  "pointee_name m t = (case lagfx_air_module_string m (ty_name_offset t) of None \<Rightarrow> 0 | Some nm \<Rightarrow> resource_name (c_string nm))"

definition frag_resource_kind :: "lagfx_air_module \<Rightarrow> u32 list \<Rightarrow> nat \<Rightarrow> nat" where
  "frag_resource_kind m arg_air_type_ids arg_idx =
     (let ts = m_types m in
      if length arg_air_type_ids \<le> arg_idx then 0
      else let ty = unat (arg_air_type_ids ! arg_idx) in
        if length ts \<le> ty \<or> ty_kind (ts ! ty) \<noteq> LAGFX_AIR_TYPE_POINTER \<or> length (ty_op (ts ! ty)) < 2 then 0
        else let pointee = unat (ty_op (ts ! ty) ! 0); addrspace = ty_op (ts ! ty) ! 1; known = pointee < length ts in
          if known \<and> ty_kind (ts ! pointee) = LAGFX_AIR_TYPE_STRUCT_NAMED then
            if pointee_name m (ts ! pointee) \<noteq> 0 then pointee_name m (ts ! pointee) else 3
          else if known \<and> ty_kind (ts ! pointee) = LAGFX_AIR_TYPE_STRUCT_ANON then 3
          else if known \<and> is_data_kind (ty_kind (ts ! pointee)) then 3
          else if addrspace = 1 then 1
          else if addrspace = 2 then 2
          else 0)"

definition needs_default_sampler :: "lagfx_air_module \<Rightarrow> u32 list \<Rightarrow> bool" where
  "needs_default_sampler m arg_air_type_ids \<longleftrightarrow>
     list_ex (\<lambda>i. frag_resource_kind m arg_air_type_ids i = 1) [0..<min (length arg_air_type_ids) LAGFX_MAX_VERTEX_ARGS]"

definition fragment_return_air_type :: "lagfx_air_type list \<Rightarrow> u32 \<Rightarrow> u32" where
  "fragment_return_air_type ts fn_ty =
     (if unat fn_ty < length ts \<and> ty_kind (ts ! unat fn_ty) = LAGFX_AIR_TYPE_FUNCTION \<and> 2 \<le> length (ty_op (ts ! unat fn_ty))
      then ty_op (ts ! unat fn_ty) ! 1 else LAGFX_AIR_TYPE_NONE)"

definition fragment_output_count :: "lagfx_air_type list \<Rightarrow> u32 \<Rightarrow> nat" where
  "fragment_output_count ts fn_ty =
     (let ret_ty = unat (fragment_return_air_type ts fn_ty) in
      if ret_ty < length ts \<and> is_struct_kind (ty_kind (ts ! ret_ty)) then
        let nf = length (ty_op (ts ! ret_ty)) - 1; nf1 = (if nf = 0 then 1 else nf) in
        if LAGFX_MAX_VERTEX_ARGS < nf1 then LAGFX_MAX_VERTEX_ARGS else nf1
      else 1)"

definition fragment_output_member_air_type :: "lagfx_air_type list \<Rightarrow> u32 \<Rightarrow> nat \<Rightarrow> u32" where
  "fragment_output_member_air_type ts fn_ty idx =
     (let ret = fragment_return_air_type ts fn_ty; ret_ty = unat ret in
      if ret_ty < length ts \<and> is_struct_kind (ty_kind (ts ! ret_ty)) \<and> idx < length (ty_op (ts ! ret_ty)) - 1
      then ty_op (ts ! ret_ty) ! (1 + idx) else ret)"

definition vertex_output_count :: "lagfx_air_type list \<Rightarrow> u32 \<Rightarrow> nat" where
  "vertex_output_count ts fn_ty =
     (if unat fn_ty < length ts \<and> ty_kind (ts ! unat fn_ty) = LAGFX_AIR_TYPE_FUNCTION \<and> 2 \<le> length (ty_op (ts ! unat fn_ty)) then
        let ret_ty = unat (ty_op (ts ! unat fn_ty) ! 1) in
        if ret_ty < length ts \<and> is_struct_kind (ty_kind (ts ! ret_ty)) then
          min (length (ty_op (ts ! ret_ty)) - 1) LAGFX_MAX_VERTEX_ARGS
        else 0
      else 0)"

subsection \<open>Helper parameters\<close>

datatype helper_param = LAGFX_HPARAM_VALUE | LAGFX_HPARAM_TEX | LAGFX_HPARAM_SAMP | LAGFX_HPARAM_THREADPTR
  | LAGFX_HPARAM_DATABUF | LAGFX_HPARAM_STRUCTBUF

definition helper_scalar_ok :: "lagfx_air_type \<Rightarrow> bool" where
  "helper_scalar_ok t \<longleftrightarrow> ty_kind t = LAGFX_AIR_TYPE_FLOAT \<or> ty_kind t = LAGFX_AIR_TYPE_HALF \<or>
     ty_kind t = LAGFX_AIR_TYPE_INTEGER \<and> 1 \<le> length (ty_op t) \<and> ty_op t ! 0 \<le> 64"

definition helper_value_type_ok :: "lagfx_air_type list \<Rightarrow> u32 \<Rightarrow> bool" where
  "helper_value_type_ok ts ty \<longleftrightarrow> unat ty < length ts \<and>
     (let t = ts ! unat ty in
      if ty_kind t = LAGFX_AIR_TYPE_VECTOR then
        2 \<le> length (ty_op t) \<and> 2 \<le> ty_op t ! 0 \<and> ty_op t ! 0 \<le> 4 \<and> unat (ty_op t ! 1) < length ts \<and>
        helper_scalar_ok (ts ! unat (ty_op t ! 1))
      else helper_scalar_ok t)"

text \<open>The kind with the pointee it reports; none is an unsupported parameter.\<close>

definition classify_helper_param :: "lagfx_air_module \<Rightarrow> u32 \<Rightarrow> (helper_param \<times> u32 option) option" where
  "classify_helper_param m air_ty =
     (let ts = m_types m; ty = unat air_ty in
      if length ts \<le> ty then None
      else if ty_kind (ts ! ty) \<noteq> LAGFX_AIR_TYPE_POINTER then
        if helper_value_type_ok ts air_ty then Some (LAGFX_HPARAM_VALUE, None) else None
      else if length (ty_op (ts ! ty)) < 2 then None
      else let ptr = ty_op (ts ! ty) ! 0; pointee = unat ptr; addrspace = ty_op (ts ! ty) ! 1; known = pointee < length ts in
        if known \<and> ty_kind (ts ! pointee) = LAGFX_AIR_TYPE_STRUCT_NAMED then
          if pointee_name m (ts ! pointee) = 1 then Some (LAGFX_HPARAM_TEX, None)
          else if pointee_name m (ts ! pointee) = 2 then Some (LAGFX_HPARAM_SAMP, None)
          else if addrspace = 1 \<or> addrspace = 2 then Some (LAGFX_HPARAM_STRUCTBUF, Some ptr)
          else None
        else if known \<and> ty_kind (ts ! pointee) = LAGFX_AIR_TYPE_UNKNOWN then
          if addrspace = 1 then Some (LAGFX_HPARAM_TEX, None)
          else if addrspace = 2 then Some (LAGFX_HPARAM_SAMP, None) else None
        else if addrspace = 0 \<and> helper_value_type_ok ts ptr then Some (LAGFX_HPARAM_THREADPTR, Some ptr)
        else if (addrspace = 1 \<or> addrspace = 2) \<and> helper_value_type_ok ts ptr then Some (LAGFX_HPARAM_DATABUF, Some ptr)
        else None)"

definition find_air_float_vec_type :: "lagfx_air_type list \<Rightarrow> u32 \<Rightarrow> u32" where
  "find_air_float_vec_type ts lanes =
     (case List.find (\<lambda>i. ty_kind (ts ! i) = LAGFX_AIR_TYPE_VECTOR \<and> 2 \<le> length (ty_op (ts ! i)) \<and> ty_op (ts ! i) ! 0 = lanes \<and>
         unat (ty_op (ts ! i) ! 1) < length ts \<and> ty_kind (ts ! unat (ty_op (ts ! i) ! 1)) = LAGFX_AIR_TYPE_FLOAT) [0..<length ts] of
        None \<Rightarrow> LAGFX_AIR_TYPE_NONE
      | Some i \<Rightarrow> of_nat i)"

subsection \<open>When the recursion returns\<close>

definition parts_of :: "lagfx_air_type \<Rightarrow> u32 list" where
  "parts_of t = (if ty_kind t = LAGFX_AIR_TYPE_VECTOR \<or> ty_kind t = LAGFX_AIR_TYPE_ARRAY then [op_or t 1 0]
     else if is_struct_kind (ty_kind t) then drop 1 (ty_op t) else [])"

definition contained :: "lagfx_air_type list \<Rightarrow> (u32 \<times> u32) set" where
  "contained ts = {(c, p). unat p < length ts \<and> c \<in> set (parts_of (ts ! unat p))}"

lemma members_return:
  "(\<And>f. f \<in> set fs \<Longrightarrow> size_align_rec ts (Inl f) \<noteq> None) \<Longrightarrow> size_align_rec ts (Inr (fs, off, maxa)) \<noteq> None"
proof (induction fs arbitrary: off maxa)
  case Nil
  show ?case by (subst size_align_rec.simps) simp
next
  case (Cons f fs)
  obtain r where "size_align_rec ts (Inl f) = Some r" using Cons.prems[of f] by auto
  then show ?case using Cons by (subst size_align_rec.simps) (auto split: option.splits)
qed

lemma size_align_returns:
  assumes "wf (contained ts)"
  shows "air_type_size_align ts ty \<noteq> None"
  using assms
proof (induction ty rule: wf_induct_rule)
  case (less ty)
  show ?case
  proof (cases "length ts \<le> unat ty")
    case True
    then show ?thesis unfolding air_type_size_align_def by (subst size_align_rec.simps) simp
  next
    case False
    define t where "t = ts ! unat ty"
    have ih: "size_align_rec ts (Inl f) \<noteq> None" if "f \<in> set (parts_of t)" for f
      using less[of f] that False by (auto simp: contained_def t_def air_type_size_align_def)
    have m: "size_align_rec ts (Inr (drop 1 (ty_op t), 0, 1)) \<noteq> None" if "is_struct_kind (ty_kind t)"
      by (rule members_return, rule ih) (use that in \<open>auto simp: parts_of_def\<close>)
    have e: "size_align_rec ts (Inl (op_or t 1 0)) \<noteq> None" if "ty_kind t = LAGFX_AIR_TYPE_VECTOR \<or> ty_kind t = LAGFX_AIR_TYPE_ARRAY"
      by (rule ih) (use that in \<open>simp add: parts_of_def\<close>)
    show ?thesis unfolding air_type_size_align_def
      using False m e by (subst size_align_rec.simps) (auto simp: t_def[symmetric] Let_def)
  qed
qed

text \<open>A cycle through elements and first members is followed forever.\<close>

definition type_cycle :: "lagfx_air_type list \<Rightarrow> u32 set \<Rightarrow> bool" where
  "type_cycle ts S \<longleftrightarrow> (\<forall>ty \<in> S. unat ty < length ts \<and> parts_of (ts ! unat ty) \<noteq> [] \<and> hd (parts_of (ts ! unat ty)) \<in> S)"

lemma size_align_diverges:
  assumes "type_cycle ts S" "ty \<in> S"
  shows "air_type_size_align ts ty = None"
proof -
  have "type_cycle ts S \<longrightarrow> (case q of Inl ty \<Rightarrow> ty \<notin> S | Inr (fs, _) \<Rightarrow> fs = [] \<or> hd fs \<notin> S)" if "size_align_rec ts q = Some r" for ts q r
    using that
  proof (rule size_align_rec.raw_induct[rotated], goal_cases)
    case (1 rec ts q r)
    show ?case
    proof
      assume c: "type_cycle ts S"
      show "case q of Inl ty \<Rightarrow> ty \<notin> S | Inr (fs, _) \<Rightarrow> fs = [] \<or> hd fs \<notin> S"
      proof (cases q)
        case (Inl ty)
        have False if "ty \<in> S"
        proof -
          have "unat ty < length ts" "parts_of (ts ! unat ty) \<noteq> []" "hd (parts_of (ts ! unat ty)) \<in> S"
            using c that by (auto simp: type_cycle_def)
          then show False using 1(1)[of ts "Inl (op_or (ts ! unat ty) 1 0)"] 1(1)[of ts "Inr (drop 1 (ty_op (ts ! unat ty)), 0, 1)"] 1(2) Inl c
            by (auto simp: parts_of_def Let_def bind_eq_Some_conv split: if_splits)
        qed
        then show ?thesis using Inl by auto
      next
        case (Inr m)
        obtain fs off maxa where m: "m = (fs, off, maxa)" by (cases m)
        show ?thesis
        proof (cases fs)
          case (Cons f fs')
          then obtain r1 where "rec ts (Inl f) = Some r1" using 1(2) Inr m by (auto simp: bind_eq_Some_conv)
          then show ?thesis using 1(1)[of ts "Inl f" r1] Inr m Cons c by simp
        qed (use Inr m in simp)
      qed
    qed
  qed
  then show ?thesis using assms by (cases "size_align_rec ts (Inl ty)") (fastforce simp: air_type_size_align_def)+
qed

subsection \<open>Members do not overlap\<close>

lemma round_up_unat:
  assumes "unat x + unat a < 2 ^ 32"
  shows "unat x \<le> unat (lagfx_round_up x a)" "unat (lagfx_round_up x a) \<le> unat x + unat a" "a \<noteq> 0 \<Longrightarrow> unat a dvd unat (lagfx_round_up x a)"
proof -
  have "unat x \<le> unat (lagfx_round_up x a) \<and> unat (lagfx_round_up x a) \<le> unat x + unat a \<and> (a \<noteq> 0 \<longrightarrow> unat a dvd unat (lagfx_round_up x a))"
  proof (cases "a = 0")
    case False
    then have a: "0 < unat a" by (simp add: unat_gt_0)
    have s: "unat (x + a) = unat x + unat a" using assms by (simp add: unat_word_ariths)
    have m: "unat (x + a - 1) = unat x + unat a - 1" using a s by (subst unat_sub) (auto simp: word_le_nat_alt)
    define q where "q = (unat x + unat a - 1) div unat a"
    have le: "q * unat a \<le> unat x + unat a - 1" by (simp add: q_def)
    have "unat x + unat a - 1 < (q + 1) * unat a" unfolding q_def using a by (metis dividend_less_div_times mult.commute add.commute mult_Suc Suc_eq_plus1)
    then have ge: "unat x \<le> q * unat a" using a by simp
    have "unat ((x + a - 1) div a) = q" by (simp add: unat_div m q_def)
    then have "unat (lagfx_round_up x a) = q * unat a"
      using False le assms by (simp add: lagfx_round_up_def unat_word_ariths)
    then show ?thesis using le ge by simp
  qed (simp add: lagfx_round_up_def)
  then show "unat x \<le> unat (lagfx_round_up x a)" "unat (lagfx_round_up x a) \<le> unat x + unat a" "a \<noteq> 0 \<Longrightarrow> unat a dvd unat (lagfx_round_up x a)"
    by auto
qed

text \<open>The offsets for members of given sizes and alignments, and the end of the last member.\<close>

fun place :: "(u32 \<times> u32) list \<Rightarrow> u32 \<Rightarrow> u32 list \<times> u32" where
  "place [] off = ([], off)"
| "place ((ms, ma) # ps) off = (let o1 = lagfx_round_up off ma; (os, e) = place ps (o1 + ms) in (o1 # os, e))"

text \<open>Offsets from \<open>s\<close> on: each member is aligned and ends before the next one starts.\<close>

fun laid_out :: "nat \<Rightarrow> (u32 \<times> u32) list \<Rightarrow> u32 list \<Rightarrow> nat \<Rightarrow> bool" where
  "laid_out s [] [] e \<longleftrightarrow> s \<le> e"
| "laid_out s ((ms, ma) # ps) (off # os) e \<longleftrightarrow>
     s \<le> unat off \<and> (ma \<noteq> 0 \<longrightarrow> unat ma dvd unat off) \<and> laid_out (unat off + unat ms) ps os e"
| "laid_out s _ _ e \<longleftrightarrow> False"

definition room :: "(u32 \<times> u32) list \<Rightarrow> nat" where
  "room ps = sum_list (map (\<lambda>(ms, ma). unat ms + unat ma) ps)"

lemma place_laid_out:
  assumes "place ps off = (os, e)" "unat off + room ps < 2 ^ 32"
  shows "laid_out (unat off) ps os (unat e) \<and> unat e \<le> unat off + room ps"
  using assms
proof (induction ps arbitrary: off os)
  case (Cons p ps)
  obtain ms ma where p: "p = (ms, ma)" by (cases p)
  define o1 where "o1 = lagfx_round_up off ma"
  obtain os' where os: "place ps (o1 + ms) = (os', e)" "os = o1 # os'"
    using Cons.prems(1) p by (auto simp: Let_def o1_def split: prod.splits)
  have r: "room (p # ps) = unat ms + unat ma + room ps" by (simp add: room_def p)
  have b: "unat off + unat ma < 2 ^ 32" using Cons.prems(2) r by linarith
  note u = round_up_unat[OF b, folded o1_def]
  have s: "unat (o1 + ms) = unat o1 + unat ms" using u(2) Cons.prems(2) r by (simp add: unat_word_ariths)
  have "laid_out (unat (o1 + ms)) ps os' (unat e) \<and> unat e \<le> unat (o1 + ms) + room ps"
    by (rule Cons.IH[OF os(1)]) (use s u(2) Cons.prems(2) r in linarith)
  then show ?case using p os(2) u s r by simp
qed simp

lemma laid_out_mono: "laid_out s ps os e \<Longrightarrow> e \<le> e' \<Longrightarrow> laid_out s ps os e'"
  by (induction s ps os e rule: laid_out.induct) auto

lemma member_offsets_place:
  assumes "list_all2 (\<lambda>f p. air_type_size_align ts f = Some (Some p)) fs ps"
  shows "member_offsets ts fs off = Some (Some (fst (place ps off)))"
  using assms by (induction fs ps arbitrary: off rule: list_all2_induct) (auto simp: Let_def split: prod.splits)

lemma member_offsets_layouts:
  "member_offsets ts fs off = Some (Some os) \<Longrightarrow> \<exists>ps. list_all2 (\<lambda>f p. air_type_size_align ts f = Some (Some p)) fs ps"
proof (induction fs arbitrary: off os)
  case (Cons f fs)
  then obtain p os' o1 where "air_type_size_align ts f = Some (Some p)" "member_offsets ts fs o1 = Some (Some os')"
    by (auto simp: bind_eq_Some_conv Let_def split: option.splits)
  then show ?case using Cons.IH by (meson list_all2_Cons1)
qed (auto intro: exI[of _ "[]"])

text \<open>The size the type itself reports has room for the members.\<close>

lemma struct_size:
  assumes "list_all2 (\<lambda>f p. air_type_size_align ts f = Some (Some p)) fs ps"
  shows "\<exists>a. size_align_rec ts (Inr (fs, off, maxa)) = Some (Some (lagfx_round_up (snd (place ps off)) a, a)) \<and>
     unat a \<le> max (unat maxa) (room ps)"
  using assms
proof (induction fs ps arbitrary: off maxa rule: list_all2_induct)
  case Nil
  show ?case by (subst size_align_rec.simps) simp
next
  case (Cons f fs p ps)
  obtain ms ma where p: "p = (ms, ma)" by (cases p)
  have f: "size_align_rec ts (Inl f) = Some (Some (ms, ma))" using Cons(1) p by (simp add: air_type_size_align_def)
  obtain a where a: "size_align_rec ts (Inr (fs, lagfx_round_up off ma + ms, if maxa < ma then ma else maxa)) =
      Some (Some (lagfx_round_up (snd (place ps (lagfx_round_up off ma + ms))) a, a))"
      "unat a \<le> max (unat (if maxa < ma then ma else maxa)) (room ps)"
    using Cons.IH by blast
  have "size_align_rec ts (Inr (f # fs, off, maxa)) = Some (Some (lagfx_round_up (snd (place (p # ps) off)) a, a))"
    by (subst size_align_rec.simps) (simp add: f a(1) p Let_def case_prod_beta)
  moreover have "room (p # ps) = unat ms + unat ma + room ps" by (simp add: room_def p)
  ultimately show ?case using a(2) by (intro exI[of _ a]) (auto split: if_splits simp: word_less_nat_alt)
qed

subsection \<open>Resources\<close>

text \<open>A pointer argument that an entry function takes for a texture or sampler is the same to a helper.\<close>

lemma resource_kinds_agree:
  assumes "i < length args" "unat (args ! i) < length (m_types m)" "length (ty_op (m_types m ! unat (args ! i))) \<ge> 2"
    and "ty_kind (m_types m ! unat (args ! i)) = LAGFX_AIR_TYPE_POINTER"
    and "unat (ty_op (m_types m ! unat (args ! i)) ! 0) < length (m_types m)"
    and "ty_kind (m_types m ! unat (ty_op (m_types m ! unat (args ! i)) ! 0)) \<in> {LAGFX_AIR_TYPE_STRUCT_NAMED, LAGFX_AIR_TYPE_UNKNOWN}"
  shows "(frag_resource_kind m args i = 1 \<longleftrightarrow> classify_helper_param m (args ! i) = Some (LAGFX_HPARAM_TEX, None)) \<and>
    (frag_resource_kind m args i = 2 \<longleftrightarrow> classify_helper_param m (args ! i) = Some (LAGFX_HPARAM_SAMP, None))"
  using assms by (auto simp: frag_resource_kind_def classify_helper_param_def Let_def is_data_kind_def)

subsection \<open>Samples\<close>

text \<open>A body with a rotated loop, and a table with float, a vector of three, an array and a structure.\<close>

definition sample_inst :: "air_inst_code \<Rightarrow> u64 list \<Rightarrow> lagfx_air_inst" where
  "sample_inst c ops = \<lparr>inst_code = c, inst_raw_code = 0, inst_ops = ops\<rparr>"

definition loop_body :: "lagfx_air_inst list" where
  "loop_body = [sample_inst LAGFX_AIR_INST_BR [1], sample_inst LAGFX_AIR_INST_PHI [0, 2, 0], sample_inst LAGFX_AIR_INST_CMP2 [1, 2, 32],
     sample_inst LAGFX_AIR_INST_BR [2, 1, 1], sample_inst LAGFX_AIR_INST_RET []]"

definition sample_types :: "lagfx_air_type list" where
  "sample_types = [\<lparr>ty_kind = LAGFX_AIR_TYPE_FLOAT, ty_op = [], ty_name_offset = 0\<rparr>,
     \<lparr>ty_kind = LAGFX_AIR_TYPE_VECTOR, ty_op = [3, 0], ty_name_offset = 0\<rparr>,
     \<lparr>ty_kind = LAGFX_AIR_TYPE_ARRAY, ty_op = [2, 0], ty_name_offset = 0\<rparr>,
     \<lparr>ty_kind = LAGFX_AIR_TYPE_STRUCT_ANON, ty_op = [0, 0, 1, 2], ty_name_offset = 0\<rparr>]"

lemma sample_sizes:
  "air_type_size_align sample_types 0 = Some (Some (4, 4))" "air_type_size_align sample_types 1 = Some (Some (12, 16))"
  "air_type_size_align sample_types 2 = Some (Some (8, 4))"
proof -
  have f: "size_align_rec sample_types (Inl 0) = Some (Some (4, 4))"
    by (subst size_align_rec.simps) (simp add: sample_types_def)
  show "air_type_size_align sample_types 0 = Some (Some (4, 4))" by (simp add: air_type_size_align_def f)
  have t: "sample_types ! 1 = \<lparr>ty_kind = LAGFX_AIR_TYPE_VECTOR, ty_op = [3, 0], ty_name_offset = 0\<rparr>"
    "sample_types ! 2 = \<lparr>ty_kind = LAGFX_AIR_TYPE_ARRAY, ty_op = [2, 0], ty_name_offset = 0\<rparr>" "length sample_types = 4"
    by (simp_all add: sample_types_def)
  have r: "lagfx_round_up 4 4 = 4" by code_simp
  show "air_type_size_align sample_types 1 = Some (Some (12, 16))" unfolding air_type_size_align_def
    by (subst size_align_rec.simps) (simp add: t[simplified] op_or_def f)
  show "air_type_size_align sample_types 2 = Some (Some (8, 4))" unfolding air_type_size_align_def
    by (subst size_align_rec.simps) (simp add: t op_or_def f r)
qed

lemma sample_offsets: "member_offsets sample_types [0, 1, 2] 0 = Some (Some [0, 16, 28])"
proof -
  have "lagfx_round_up 0 4 = 0" "lagfx_round_up 4 16 = 16" "lagfx_round_up 28 4 = 28" by code_simp+
  then show ?thesis by (simp add: sample_sizes)
qed

lemma loop_body_facts:
  "partition_basic_blocks loop_body 8 \<noteq> []" "terminators loop_body = 3" "length loop_body = 5"
  "detect_simple_loop loop_body = Some \<lparr>lp_valid = True, lp_entry_bb = 0, lp_header_bb = 1, lp_merge_bb = 2, lp_cond_true_is_exit = True\<rparr>"
  by code_simp+

end
