(* ===== verification/Timer.thy ===== *)
theory Timer
  imports DisplayOps
begin

text \<open>
  The vertical-blank timer \<^verbatim>\<open>src/timer/timer.c\<close>: on every tick it looks at the shared-state page of
  each display and announces, once, that a display has come online.  The theory shows which
  words of guest memory a tick writes, when the interrupt is raised, that the next tick is silent, and that a failed write loses the
  announcement for good.
\<close>

unbundle bit_operations_syntax

definition LAGFX_TIMER_DISPLAYS :: nat where "LAGFX_TIMER_DISPLAYS = 8"

definition tick_display :: "'g shell \<Rightarrow> nat \<Rightarrow> device \<times> 'g \<times> bool \<Rightarrow> device \<times> 'g \<times> bool" where
  "tick_display sh i = (\<lambda>(d, g, irq_raised).
     let ss_gpa = display_ss_gpa d ! i in
     if ss_gpa = 0 \<or> \<not> bit (display_ss_installed d) i then (d, g, irq_raised)
     else case dma_read sh g (ss_gpa + 0x104) 4 of
       None \<Rightarrow> (d, g, irq_raised)
     | Some b \<Rightarrow>
         if le32_at b 0 = 0xC \<and> \<not> bit (display_ss_enabled d) i then
           (case dma_write sh g (ss_gpa + 0x100) (le_bytes32 4) of (ok, g') \<Rightarrow>
              (d\<lparr>display_ss_enabled := display_ss_enabled d OR push_bit i 1\<rparr>, g', irq_raised \<or> ok))
         else (d, g, irq_raised))"

definition lagfx_timer_tick_vblank :: "'g shell \<Rightarrow> 'g sys \<Rightarrow> bool \<times> 'g sys" where
  "lagfx_timer_tick_vblank sh s =
     (case dev s of
        None \<Rightarrow> (False, s)
      | Some d0 \<Rightarrow>
          if write_memory sh = None \<or> read_memory sh = None then (False, s)
          else case fold (tick_display sh) [0..<LAGFX_TIMER_DISPLAYS] (d0, ext s, False) of (d, g, irq_raised) \<Rightarrow>
            (irq_raised,
             s\<lparr>dev := Some d,
               ext := (case raise_interrupt sh of Some irq \<Rightarrow> if irq_raised then irq g 0 else g | None \<Rightarrow> g)\<rparr>))"

subsection \<open>What a tick does\<close>

text \<open>The enable word of a display, and the displays a tick announces.\<close>

definition enable_word :: "('g \<Rightarrow> u64 \<Rightarrow> u8) \<Rightarrow> 'g \<Rightarrow> u64 \<Rightarrow> u32" where
  "enable_word ram g ss = ram32 ram g (ss + 0x104)"

definition comes_online :: "('g \<Rightarrow> u64 \<Rightarrow> u8) \<Rightarrow> 'g \<Rightarrow> device \<Rightarrow> nat \<Rightarrow> bool" where
  "comes_online ram g d i \<longleftrightarrow> display_ss_gpa d ! i \<noteq> 0 \<and> bit (display_ss_installed d) i \<and> \<not> bit (display_ss_enabled d) i \<and>
     enable_word ram g (display_ss_gpa d ! i) = 0xC"

definition aligned_pages :: "device \<Rightarrow> bool" where
  "aligned_pages d \<longleftrightarrow> (\<forall>i < LAGFX_TIMER_DISPLAYS. display_ss_gpa d ! i AND 0xfff = 0)"

text \<open>Distances between words of aligned pages: a write to the pending word of one page does
  not reach the enable word of another, and two pending words are equal or disjoint.\<close>

lemma page_distance:
  fixes a b :: u64
  assumes "a AND 0xfff = 0" "b AND 0xfff = 0"
  obtains m where "uint (a - b + word_of_int x) = 4096 * m + x"
proof -
  have "4096 dvd unat a" "4096 dvd unat b" using word_and_fff[of a] word_and_fff[of b] assms by (auto simp: dvd_eq_mod_eq_0)
  then obtain p q :: nat where pq: "unat a = 4096 * p" "unat b = 4096 * q" by (auto simp: dvd_def)
  let ?x = "4096 * int p - 4096 * int q + x"
  have "a = word_of_int (4096 * int p)" "b = word_of_int (4096 * int q)"
    using arg_cong[OF pq(1), of "of_nat :: nat \<Rightarrow> u64"] arg_cong[OF pq(2), of "of_nat :: nat \<Rightarrow> u64"] by simp_all
  then have "a - b + word_of_int x = word_of_int ?x" by simp
  then have "uint (a - b + word_of_int x) = ?x mod 2 ^ 64" by (simp only: uint_word_of_int) simp
  then obtain t where "uint (a - b + word_of_int x) = ?x - 2 ^ 64 * t" by (metis minus_mult_div_eq_mod)
  then show thesis by (rule_tac that[of "int p - int q - 2 ^ 52 * t"]) simp
qed

lemma words_apart:
  fixes a b :: u64
  assumes "a AND 0xfff = 0" "b AND 0xfff = 0" "k < 4"
  shows "4 \<le> unat ((a + 0x104 + of_nat k) - (b + 0x100))"
proof -
  let ?w = "(a + 0x104 + of_nat k) - (b + 0x100) :: u64"
  have "?w = a - b + word_of_int (4 + int k)" by simp
  then obtain m where m: "uint ?w = 4096 * m + (4 + int k)" by (metis page_distance[OF assms(1,2)])
  have "0 \<le> uint ?w" by simp
  then have "0 \<le> m" using m assms(3) by (cases "m \<le> - 1") linarith+
  then have "4 \<le> uint ?w" using m by linarith
  then show ?thesis by (simp only: unat_eq_nat_uint)
qed

lemma pending_same_or_apart:
  fixes a b :: u64
  assumes "a AND 0xfff = 0" "b AND 0xfff = 0" "k < 4"
  shows "unat ((a + 0x100 + of_nat k) - (b + 0x100)) < 4 \<longleftrightarrow> a = b"
proof
  assume l: "unat ((a + 0x100 + of_nat k) - (b + 0x100)) < 4"
  let ?w = "(a + 0x100 + of_nat k) - (b + 0x100) :: u64"
  have w: "?w = a - b + word_of_int (int k)" by simp
  obtain m where m: "uint (a - b + word_of_int (int k)) = 4096 * m + int k" by (rule page_distance[OF assms(1,2)])
  have "uint ?w < 4" using l by (simp only: unat_eq_nat_uint)
  moreover have "0 \<le> uint ?w" by simp
  ultimately have "m = 0" using m assms(3) unfolding w by linarith
  then have "uint (a - b + word_of_int (int k)) = int k" using m by simp
  from arg_cong[OF this, of "word_of_int :: int \<Rightarrow> u64"] show "a = b" by simp
next
  assume "a = b"
  then show "unat ((a + 0x100 + of_nat k) - (b + 0x100)) < 4" using assms(3) by (simp add: unat_of_nat_small)
qed

lemma pending_written:
  assumes "ram_law sh ram" "a AND 0xfff = 0" "b AND 0xfff = 0"
  shows "ram32 ram (snd (dma_write sh g (b + 0x100) (le_bytes32 4))) (a + 0x100) = (if a = b then 4 else ram32 ram g (a + 0x100))"
proof -
  have e: "ram (snd (dma_write sh g (b + 0x100) (le_bytes32 4))) (a + 0x100 + of_nat k) =
      (if a = b then le_bytes32 4 ! k else ram g (a + 0x100 + of_nat k))" if "k < 4" for k
    using ram_law_write[OF assms(1), of "le_bytes32 4" g "b + 0x100" "a + 0x100 + of_nat k"]
      pending_same_or_apart[OF assms(2,3) that] that by (auto simp: unat_of_nat_small)
  have "map (\<lambda>i. ram (snd (dma_write sh g (b + 0x100) (le_bytes32 4))) (a + 0x100 + of_nat i)) [0..<4] =
      (if a = b then le_bytes32 4 else map (\<lambda>i. ram g (a + 0x100 + of_nat i)) [0..<4])"
    using e by (auto intro!: nth_equalityI)
  then show ?thesis by (simp add: ram32_def)
qed

lemma tick_display_eq:
  assumes "ram_law sh ram"
  shows "tick_display sh i (d, g, r) =
     (if comes_online ram g d i
      then (d\<lparr>display_ss_enabled := display_ss_enabled d OR push_bit i 1\<rparr>,
            snd (dma_write sh g (display_ss_gpa d ! i + 0x100) (le_bytes32 4)), True)
      else (d, g, r))"
  using ram_law_read[OF assms, of g "display_ss_gpa d ! i + 0x104" 4]
    ram_law_write_ok[OF assms, of "le_bytes32 4" g "display_ss_gpa d ! i + 0x100"]
  by (auto simp: tick_display_def comes_online_def enable_word_def ram32_def Let_def split: prod.split)

text \<open>After the displays in \<open>js\<close>: the announced ones are marked, their pending word is 4, and
  nothing else has changed against the start, neither in the device nor in guest memory.\<close>

definition ticked :: "('g \<Rightarrow> u64 \<Rightarrow> u8) \<Rightarrow> nat set \<Rightarrow> device \<Rightarrow> 'g \<Rightarrow> device \<Rightarrow> 'g \<Rightarrow> bool" where
  "ticked ram js d g d' g' \<longleftrightarrow>
     d' = d\<lparr>display_ss_enabled := display_ss_enabled d'\<rparr> \<and>
     (\<forall>k < 32. bit (display_ss_enabled d') k \<longleftrightarrow> bit (display_ss_enabled d) k \<or> k \<in> js \<and> comes_online ram g d k) \<and>
     (\<forall>k \<in> js. comes_online ram g d k \<longrightarrow> ram32 ram g' (display_ss_gpa d ! k + 0x100) = 4) \<and>
     (\<forall>a. (\<forall>k \<in> js. comes_online ram g d k \<longrightarrow> 4 \<le> unat (a - (display_ss_gpa d ! k + 0x100))) \<longrightarrow> ram g' a = ram g a)"

lemma ticked_enable_word:
  assumes "ticked ram js d g d' g'" "aligned_pages d" "js \<subseteq> {..<LAGFX_TIMER_DISPLAYS}" "k < LAGFX_TIMER_DISPLAYS"
  shows "enable_word ram g' (display_ss_gpa d ! k) = enable_word ram g (display_ss_gpa d ! k)"
proof -
  have "ram g' (display_ss_gpa d ! k + 0x104 + of_nat i) = ram g (display_ss_gpa d ! k + 0x104 + of_nat i)" if "i < 4" for i
  proof -
    have "4 \<le> unat (display_ss_gpa d ! k + 0x104 + of_nat i - (display_ss_gpa d ! l + 0x100))" if "l \<in> js" for l
      using assms that \<open>i < 4\<close> by (intro words_apart) (auto simp: aligned_pages_def)
    then show ?thesis using assms(1) by (auto simp: ticked_def)
  qed
  then show ?thesis unfolding enable_word_def ram32_def by (intro arg_cong[where f = "\<lambda>x. le32_at x 0"] map_cong) auto
qed

lemma ticked_step:
  assumes law: "ram_law sh ram" and al: "aligned_pages d0"
    and t: "ticked ram done d0 g0 d g" "done \<subseteq> {..<LAGFX_TIMER_DISPLAYS}" and j: "j < LAGFX_TIMER_DISPLAYS" "j \<notin> done"
  shows "\<exists>d1 g1. tick_display sh j (d, g, r) = (d1, g1, r \<or> comes_online ram g0 d0 j) \<and> ticked ram (insert j done) d0 g0 d1 g1"
proof -
  note ew = ticked_enable_word[OF t(1) al t(2)] and td = t(1)[unfolded ticked_def]
  have ss: "display_ss_gpa d = display_ss_gpa d0" "display_ss_installed d = display_ss_installed d0" by (subst td[THEN conjunct1], simp)+
  have j32: "j < 32" using j(1) by (simp add: LAGFX_TIMER_DISPLAYS_def)
  then have on: "comes_online ram g d j \<longleftrightarrow> comes_online ram g0 d0 j" using td j ew[OF j(1)] by (auto simp: comes_online_def ss)
  show ?thesis
  proof (cases "comes_online ram g0 d0 j")
    case False
    then have "tick_display sh j (d, g, r) = (d, g, r)" unfolding tick_display_eq[OF law] on by simp
    moreover have "ticked ram (insert j done) d0 g0 d g" using t(1) False by (auto simp: ticked_def)
    ultimately show ?thesis using False by auto
  next
    case True
    let ?d1 = "d\<lparr>display_ss_enabled := display_ss_enabled d OR push_bit j 1\<rparr>"
    let ?g1 = "snd (dma_write sh g (display_ss_gpa d0 ! j + 0x100) (le_bytes32 4))"
    have "tick_display sh j (d, g, r) = (?d1, ?g1, True)" unfolding tick_display_eq[OF law] on ss using True by simp
    moreover have "ticked ram (insert j done) d0 g0 ?d1 ?g1" unfolding ticked_def
    proof (intro conjI ballI allI impI)
      show "?d1 = d0\<lparr>display_ss_enabled := display_ss_enabled ?d1\<rparr>" using td[THEN conjunct1] by (cases d, cases d0) auto
      show "bit (display_ss_enabled ?d1) k \<longleftrightarrow> bit (display_ss_enabled d0) k \<or> k \<in> insert j done \<and> comes_online ram g0 d0 k" if "k < 32" for k
        using td that j True j32 by (auto simp: bit_simps)
      show "ram32 ram ?g1 (display_ss_gpa d0 ! k + 0x100) = 4" if "k \<in> insert j done" "comes_online ram g0 d0 k" for k
      proof -
        have "display_ss_gpa d0 ! k AND 0xfff = 0" "display_ss_gpa d0 ! j AND 0xfff = 0" using al that(1) j(1) t(2) by (auto simp: aligned_pages_def)
        from pending_written[OF law this] show ?thesis using td that by auto
      qed
      show "ram ?g1 a = ram g0 a"
        if "\<forall>k \<in> insert j done. comes_online ram g0 d0 k \<longrightarrow> 4 \<le> unat (a - (display_ss_gpa d0 ! k + 0x100))" for a
        using that True td ram_law_write[OF law, of "le_bytes32 4" g "display_ss_gpa d0 ! j + 0x100" a] by auto
    qed
    ultimately show ?thesis using True by auto
  qed
qed

lemma tick_loop:
  assumes law: "ram_law sh ram" and al: "aligned_pages d0"
    and "distinct js" "set js \<subseteq> {..<LAGFX_TIMER_DISPLAYS}" "ticked ram done d0 g0 d g" "set js \<inter> done = {}" "done \<subseteq> {..<LAGFX_TIMER_DISPLAYS}"
  shows "\<exists>d' g'. fold (tick_display sh) js (d, g, r) = (d', g', r \<or> (\<exists>k \<in> set js. comes_online ram g0 d0 k)) \<and>
     ticked ram (set js \<union> done) d0 g0 d' g'"
  using assms(3-7)
proof (induction js arbitrary: d g r "done")
  case Nil
  then show ?case by simp
next
  case (Cons j js)
  obtain d1 g1 where st: "tick_display sh j (d, g, r) = (d1, g1, r \<or> comes_online ram g0 d0 j)" "ticked ram (insert j done) d0 g0 d1 g1"
    using ticked_step[OF law al Cons.prems(3,5), of j r] Cons.prems by auto
  from Cons.IH[OF _ _ this(2), of "r \<or> comes_online ram g0 d0 j"] show ?case using Cons.prems st(1) by auto
qed

definition raised :: "'g shell \<Rightarrow> 'g \<Rightarrow> 'g" where
  "raised sh g = (case raise_interrupt sh of Some irq \<Rightarrow> irq g 0 | None \<Rightarrow> g)"

lemma ticked_raised: "ram_law sh ram \<Longrightarrow> ticked ram js d g d' g' \<Longrightarrow> ticked ram js d g d' (raised sh g')"
  using ram_law_irq[of sh ram] by (auto simp: raised_def ticked_def ram32_def split: option.split)

text \<open>A tick that found nothing new leaves the system as it was; after a tick there is
  nothing new, as long as the enable words stay.\<close>

lemma tick_silent:
  assumes "ram_law sh ram" "dev s = Some d" "\<forall>k < LAGFX_TIMER_DISPLAYS. \<not> comes_online ram (ext s) d k"
  shows "lagfx_timer_tick_vblank sh s = (False, s)"
proof -
  have "fold (tick_display sh) js (d, ext s, False) = (d, ext s, False)" if "\<forall>k \<in> set js. k < LAGFX_TIMER_DISPLAYS" for js
    using that assms(3) by (induction js) (simp_all add: tick_display_eq[OF assms(1)])
  from this[of "[0..<LAGFX_TIMER_DISPLAYS]"] have "fold (tick_display sh) [0..<LAGFX_TIMER_DISPLAYS] (d, ext s, False) = (d, ext s, False)"
    by simp
  then show ?thesis using assms(2) by (auto simp: lagfx_timer_tick_vblank_def split: option.split)
qed

lemma tick_vblank_eq:
  assumes "ram_law sh ram" "dev s = Some d" "aligned_pages d"
  shows "\<exists>d' g'. lagfx_timer_tick_vblank sh s =
       (if \<exists>k < LAGFX_TIMER_DISPLAYS. comes_online ram (ext s) d k
        then (True, s\<lparr>dev := Some d', ext := raised sh g'\<rparr>) else (False, s)) \<and>
     ticked ram {..<LAGFX_TIMER_DISPLAYS} d (ext s) d' g'"
proof (cases "\<exists>k < LAGFX_TIMER_DISPLAYS. comes_online ram (ext s) d k")
  case False
  then have "ticked ram {..<LAGFX_TIMER_DISPLAYS} d (ext s) d (ext s)" by (auto simp: ticked_def)
  then show ?thesis using tick_silent[OF assms(1,2)] False by auto
next
  case True
  have st: "set [0..<LAGFX_TIMER_DISPLAYS] = {..<LAGFX_TIMER_DISPLAYS}" by auto
  have "ticked ram {} d (ext s) d (ext s)" by (simp add: ticked_def)
  moreover have "(\<exists>k \<in> {..<LAGFX_TIMER_DISPLAYS}. comes_online ram (ext s) d k) = True" using True by blast
  ultimately
  obtain d' g' where f: "fold (tick_display sh) [0..<LAGFX_TIMER_DISPLAYS] (d, ext s, False) = (d', g', True)"
      "ticked ram {..<LAGFX_TIMER_DISPLAYS} d (ext s) d' g'"
    using tick_loop[OF assms(1,3), of "[0..<LAGFX_TIMER_DISPLAYS]" "{}" "ext s" d "ext s" False] unfolding st by auto
  obtain wr rd where "write_memory sh = Some wr" "read_memory sh = Some rd"
    using ram_law_has_write[OF assms(1)] ram_law_has_read[OF assms(1)] by blast
  then have "lagfx_timer_tick_vblank sh s = (True, s\<lparr>dev := Some d', ext := raised sh g'\<rparr>)"
    using f(1) assms(2) by (simp add: lagfx_timer_tick_vblank_def raised_def split: option.split)
  then show ?thesis using f(2) True by auto
qed

lemma tick_twice:
  assumes "ram_law sh ram" "dev s = Some d" "aligned_pages d"
  shows "lagfx_timer_tick_vblank sh (snd (lagfx_timer_tick_vblank sh s)) = (False, snd (lagfx_timer_tick_vblank sh s))"
proof (cases "\<exists>k < LAGFX_TIMER_DISPLAYS. comes_online ram (ext s) d k")
  case False
  then show ?thesis using tick_silent[OF assms(1,2)] by auto
next
  case True
  obtain d' g' where t: "snd (lagfx_timer_tick_vblank sh s) = s\<lparr>dev := Some d', ext := raised sh g'\<rparr>"
      "ticked ram {..<LAGFX_TIMER_DISPLAYS} d (ext s) d' g'"
    using tick_vblank_eq[OF assms] True by auto
  note t' = ticked_raised[OF assms(1) t(2)]
  have ss: "display_ss_gpa d' = display_ss_gpa d" "display_ss_installed d' = display_ss_installed d"
    by (subst t'[unfolded ticked_def, THEN conjunct1], simp)+
  have "\<not> comes_online ram (raised sh g') d' k" if k: "k < LAGFX_TIMER_DISPLAYS" for k
  proof -
    have "k < 32" using k by (simp add: LAGFX_TIMER_DISPLAYS_def)
    then have "bit (display_ss_enabled d') k \<longleftrightarrow> bit (display_ss_enabled d) k \<or> comes_online ram (ext s) d k"
      using t' k by (auto simp: ticked_def)
    then show ?thesis using ticked_enable_word[OF t' assms(3) _ k] by (auto simp: comes_online_def ss)
  qed
  then show ?thesis unfolding t(1) by (intro tick_silent[OF assms(1), of _ d']) auto
qed

text \<open>When the write of the pending word fails, the display counts as announced all the same.\<close>

lemma tick_lost:
  assumes "display_ss_gpa d ! i \<noteq> 0" "bit (display_ss_installed d) i" "\<not> bit (display_ss_enabled d) i" "i < 32"
    and "dma_read sh g (display_ss_gpa d ! i + 0x104) 4 = Some (le_bytes32 0xC)"
    and "dma_write sh g (display_ss_gpa d ! i + 0x100) (le_bytes32 4) = (False, g)"
  shows "\<exists>d'. tick_display sh i (d, g, False) = (d', g, False) \<and> bit (display_ss_enabled d') i \<and>
     (\<forall>g' r. tick_display sh i (d', g', r) = (d', g', r))"
proof -
  have l: "le32_at (le_bytes32 0xC) 0 = 0xC" using le32_bytes[of 0 "[]" "0xC" "[]"] by (simp add: le32_at_def)
  define d' where "d' = d\<lparr>display_ss_enabled := display_ss_enabled d OR push_bit i 1\<rparr>"
  have "tick_display sh i (d, g, False) = (d', g, False)" using assms l by (simp add: tick_display_def Let_def d'_def)
  moreover have "bit (display_ss_enabled d') i" using assms(4) by (simp add: d'_def bit_simps)
  ultimately show ?thesis by (auto simp: tick_display_def Let_def split: option.split)
qed

end
