(* ===== verification/TaskSpace.thy ===== *)
theory TaskSpace
  imports Prelude
begin

text \<open>
  The address space of a task on the host, \<^verbatim>\<open>src/memory/task.c\<close>, in its Linux form: a reserved range
  of addresses into which host memory is mapped, by aliasing or, when the kernel refuses that,
  by copying.  The kernel's answers to the calls are an argument; what the calls do to the
  mappings of the process is modelled.  The theory shows that an aliased range follows later
  writes of the host, a copied one does not, that in-range calls on whole pages stay in the reservation,
  and that the range check lets a wrapping offset out of it.
\<close>

unbundle bit_operations_syntax

subsection \<open>Mappings\<close>

text \<open>What an address of the process shows: a reservation, a byte of the backing file, or the
  memory at another address.\<close>

datatype vm_map = Map_reserved | Map_file u64 bool | Map_alias u64 bool

record vm_world =
  vm_maps :: "u64 \<Rightarrow> vm_map option"
  vm_file :: "u64 \<Rightarrow> u8"
  vm_host :: "u64 \<Rightarrow> u8"

record lagfx_task =
  reserved_base :: u64
  reserved_size :: u64
  memfd_open :: bool

text \<open>The answers of the kernel: \<open>False\<close> or \<^const>\<open>None\<close> is a failure.\<close>

record vm_kernel =
  k_reserve :: "u64 \<Rightarrow> u64 option"
  k_memfd :: bool
  k_mmap_file :: bool
  k_mmap_none :: bool
  k_munmap :: bool
  k_mremap :: bool
  k_mprotect :: bool

definition set_range :: "u64 \<Rightarrow> u64 \<Rightarrow> (u64 \<Rightarrow> vm_map option) \<Rightarrow> vm_world \<Rightarrow> vm_world" where
  "set_range target len f w = w\<lparr>vm_maps := (\<lambda>a. if a - target < len then f (a - target) else vm_maps w a)\<rparr>"

definition set_prot :: "bool \<Rightarrow> vm_map option \<Rightarrow> vm_map option" where
  "set_prot writable m = (case m of
     Some (Map_file off _) \<Rightarrow> Some (Map_file off writable)
   | Some (Map_alias h _) \<Rightarrow> Some (Map_alias h writable)
   | _ \<Rightarrow> m)"

definition protect_range :: "u64 \<Rightarrow> u64 \<Rightarrow> bool \<Rightarrow> vm_world \<Rightarrow> vm_world" where
  "protect_range target len writable w = set_range target len (\<lambda>i. set_prot writable (vm_maps w (target + i))) w"

text \<open>The kernel changes whole pages: a length is rounded up.\<close>

definition page_up :: "u64 \<Rightarrow> u64" where
  "page_up len = (len + 0xFFF) AND NOT 0xFFF"

text \<open>The byte an address shows.\<close>

definition task_byte :: "vm_world \<Rightarrow> u64 \<Rightarrow> u8 option" where
  "task_byte w a = (case vm_maps w a of
     Some (Map_file off _) \<Rightarrow> Some (vm_file w off)
   | Some (Map_alias h _) \<Rightarrow> Some (vm_host w h)
   | _ \<Rightarrow> None)"

subsection \<open>Operations\<close>

definition lagfx_task_create :: "vm_kernel \<Rightarrow> u64 \<Rightarrow> vm_world \<Rightarrow> (lagfx_task \<times> vm_world) option" where
  "lagfx_task_create k vm_size w =
     (if vm_size = 0 then None
      else case k_reserve k vm_size of
        None \<Rightarrow> None
      | Some base \<Rightarrow>
          Some (\<lparr>reserved_base = base, reserved_size = vm_size, memfd_open = False\<rparr>,
                set_range base (page_up vm_size) (\<lambda>_. Some Map_reserved) w))"

definition lagfx_task_destroy :: "lagfx_task \<Rightarrow> vm_world \<Rightarrow> vm_world" where
  "lagfx_task_destroy t w = (if reserved_base t \<noteq> 0 then set_range (reserved_base t) (page_up (reserved_size t)) (\<lambda>_. None) w else w)"

text \<open>A fresh backing file is empty; the copy goes to the bytes of the file behind the range.\<close>

definition task_map_via_copy ::
    "vm_kernel \<Rightarrow> lagfx_task \<Rightarrow> u64 \<Rightarrow> u64 \<Rightarrow> u64 option \<Rightarrow> u64 \<Rightarrow> bool \<Rightarrow> vm_world \<Rightarrow> bool \<times> lagfx_task \<times> vm_world" where
  "task_map_via_copy k t vm_offset target host_addr len writable w =
     (if \<not> memfd_open t \<and> \<not> k_memfd k then (False, t, w)
      else
        let w1 = (if memfd_open t then w else w\<lparr>vm_file := (\<lambda>_. 0)\<rparr>); t1 = t\<lparr>memfd_open := True\<rparr> in
        if \<not> k_mmap_file k then (False, t1, w1)
        else
          let w2 = set_range target (page_up len) (\<lambda>i. Some (Map_file (vm_offset + i) True)) w1;
              w3 = (case host_addr of
                      None \<Rightarrow> w2
                    | Some h \<Rightarrow> w2\<lparr>vm_file := (\<lambda>a. if a - vm_offset < len then vm_host w (h + (a - vm_offset)) else vm_file w2 a)\<rparr>) in
          if writable then (True, t1, w3)
          else if k_mprotect k then (True, t1, protect_range target (page_up len) writable w3) else (False, t1, w3))"

definition lagfx_task_map_host_memory ::
    "vm_kernel \<Rightarrow> lagfx_task \<Rightarrow> u64 \<Rightarrow> u64 option \<Rightarrow> u64 \<Rightarrow> bool \<Rightarrow> vm_world \<Rightarrow> bool \<times> lagfx_task \<times> vm_world" where
  "lagfx_task_map_host_memory k t vm_offset host_addr len read_only w =
     (if vm_offset + len > reserved_size t \<or> len = 0 then (False, t, w)
      else
        let target = reserved_base t + vm_offset; writable = (\<not> read_only) in
        case host_addr of
          None \<Rightarrow> task_map_via_copy k t vm_offset target None len writable w
        | Some h \<Rightarrow>
            if \<not> k_munmap k then (False, t, w)
            else
              let w1 = set_range target (page_up len) (\<lambda>_. None) w in
              if k_mremap k then
                let w2 = set_range target (page_up len) (\<lambda>i. Some (Map_alias (h + i) True)) w1 in
                (True, t, if k_mprotect k then protect_range target (page_up len) writable w2 else w2)
              else if \<not> k_mmap_none k then (False, t, w1)
              else task_map_via_copy k t vm_offset target (Some h) len writable (set_range target (page_up len) (\<lambda>_. Some Map_reserved) w1))"

definition lagfx_task_unmap :: "vm_kernel \<Rightarrow> lagfx_task \<Rightarrow> u64 \<Rightarrow> u64 \<Rightarrow> vm_world \<Rightarrow> bool \<times> vm_world" where
  "lagfx_task_unmap k t vm_offset len w =
     (if vm_offset + len > reserved_size t \<or> len = 0 then (False, w)
      else if \<not> k_mmap_none k then (False, w)
      else (True, set_range (reserved_base t + vm_offset) (page_up len) (\<lambda>_. Some Map_reserved) w))"

definition lagfx_task_get_base_ptr :: "lagfx_task \<Rightarrow> u64" where
  "lagfx_task_get_base_ptr t = reserved_base t"

subsection \<open>Outside the range nothing changes\<close>

definition same_outside :: "u64 \<Rightarrow> u64 \<Rightarrow> vm_world \<Rightarrow> vm_world \<Rightarrow> bool" where
  "same_outside target len w w' \<longleftrightarrow> (\<forall>a. len \<le> a - target \<longrightarrow> vm_maps w' a = vm_maps w a) \<and> vm_host w' = vm_host w"

lemma same_outside_simps [simp]:
  "same_outside target len w w"
  "same_outside target len w0 (set_range target len f w) = same_outside target len w0 w"
  "same_outside target len w0 (w\<lparr>vm_file := c\<rparr>) = same_outside target len w0 w"
proof -
  show "same_outside target len w0 (set_range target len f w) = same_outside target len w0 w"
    unfolding same_outside_def set_range_def by (simp add: not_less[symmetric])
qed (simp_all add: same_outside_def)

lemma same_outside_protect [simp]: "same_outside target len w0 (protect_range target len p w) = same_outside target len w0 w"
  by (simp add: protect_range_def)

lemma map_via_copy_outside:
  "same_outside target (page_up len) w0 w \<Longrightarrow> task_map_via_copy k t off target h len p w = (ok, t', w') \<Longrightarrow>
   same_outside target (page_up len) w0 w'"
  by (auto simp: task_map_via_copy_def Let_def split: if_splits option.splits)

lemma map_outside:
  assumes "lagfx_task_map_host_memory k t off h len ro w = (ok, t', w')"
  shows "same_outside (reserved_base t + off) (page_up len) w w'"
proof (cases "off + len > reserved_size t \<or> len = 0")
  case False
  then show ?thesis
    using assms unfolding lagfx_task_map_host_memory_def
    by (auto simp: Let_def split: option.splits if_splits dest!: map_via_copy_outside[where ?w0.0 = w, rotated])
qed (use assms in \<open>auto simp: lagfx_task_map_host_memory_def\<close>)

text \<open>An offset and length that do not wrap stay in the reservation.\<close>

lemma range_inside:
  fixes a base off len size :: u64
  assumes "unat off + unat len < 2 ^ 64" "off + len \<le> size" "size \<le> a - base"
  shows "len \<le> a - (base + off)"
proof -
  have s: "unat (off + len) = unat off + unat len" using assms(1) by (simp add: unat_add_small)
  then have "unat off + unat len \<le> unat (a - base)" using assms(2,3) by (simp add: word_le_nat_alt)
  moreover have "unat ((a - base) - off) = unat (a - base) - unat off"
    using calculation by (intro unat_sub) (simp add: word_le_nat_alt)
  moreover have "a - (base + off) = (a - base) - off" by (simp add: algebra_simps)
  ultimately show ?thesis unfolding word_le_nat_alt by (simp only:)
qed

lemma map_stays_inside:
  assumes "lagfx_task_map_host_memory k t off h len ro w = (ok, t', w')" "unat off + unat len < 2 ^ 64" "page_up len = len"
    and "reserved_size t \<le> a - reserved_base t"
  shows "vm_maps w' a = vm_maps w a"
proof (cases "off + len > reserved_size t \<or> len = 0")
  case True
  then show ?thesis using assms(1) by (auto simp: lagfx_task_map_host_memory_def)
next
  case False
  then have "len \<le> a - (reserved_base t + off)" by (intro range_inside[OF assms(2) _ assms(4)]) (simp add: not_less)
  then show ?thesis using map_outside[OF assms(1)] assms(3) by (simp add: same_outside_def)
qed

subsection \<open>Aliases are coherent, copies are not\<close>

lemma task_byte_prot: "vm_maps w a = set_prot p m \<Longrightarrow> task_byte w a =
   (case m of Some (Map_file off _) \<Rightarrow> Some (vm_file w off) | Some (Map_alias h _) \<Rightarrow> Some (vm_host w h) | _ \<Rightarrow> None)"
  by (auto simp: task_byte_def set_prot_def split: option.splits vm_map.splits)

lemma map_alias_coherent:
  assumes "lagfx_task_map_host_memory k t off (Some h) len ro w = (True, t', w')" "k_mremap k" "i < len" "page_up len = len"
  shows "task_byte (w'\<lparr>vm_host := host'\<rparr>) (reserved_base t + off + i) = Some (host' (h + i))"
  using assms
  by (auto simp: lagfx_task_map_host_memory_def Let_def set_range_def protect_range_def task_byte_def set_prot_def split: if_splits)

lemma map_copy_snapshot:
  assumes "lagfx_task_map_host_memory k t off (Some h) len ro w = (True, t', w')" "\<not> k_mremap k" "i < len" "page_up len = len"
  shows "task_byte (w'\<lparr>vm_host := host'\<rparr>) (reserved_base t + off + i) = Some (vm_host w (h + i))"
  using assms
  by (auto simp: lagfx_task_map_host_memory_def task_map_via_copy_def Let_def set_range_def protect_range_def task_byte_def
      set_prot_def split: if_splits)

text \<open>A sum that wraps passes the check, and addresses below the reservation are remapped.\<close>

lemma page_up_page [simp]: "page_up 0x1000 = 0x1000" "page_up 0x2000 = 0x2000"
  by code_simp+

lemma map_wraps_below:
  assumes "reserved_size t = 0x1000" "k_munmap k" "k_mremap k"
  shows "\<exists>w'. lagfx_task_map_host_memory k t (- 0x1000) (Some h) 0x2000 False w = (True, t, w') \<and>
     task_byte w' (reserved_base t - 0x1000) = Some (vm_host w h)"
  using assms
  by (auto simp: lagfx_task_map_host_memory_def Let_def set_range_def protect_range_def task_byte_def set_prot_def)

lemma unmap_reserves:
  assumes "lagfx_task_unmap k t off len w = (True, w')" "page_up len = len"
  shows "i < len \<Longrightarrow> vm_maps w' (reserved_base t + off + i) = Some Map_reserved"
    "same_outside (reserved_base t + off) len w w'"
  using assms by (auto simp: lagfx_task_unmap_def set_range_def same_outside_def split: if_splits)

end
