(* ===== verification/Spec2Isabelle.thy ===== *)
theory Spec2Isabelle
  imports Examples PsoDescriptor ShaderExamples FnLayout Timer TaskSpace
begin

text \<open>
  \<^bold>\<open>libapplegfx-vulkan\<close> is the host side of a paravirtual GPU: a device model in which a
  guest driver writes doorbell registers and puts commands into rings in its memory, and the
  library decodes and executes them.  A second half of the library reads the shaders the
  guest sends: Metal library containers with LLVM bitcode, which become SPIR-V.

  \<^bold>\<open>Parts and how they interact.\<close>  A register write (\<^verbatim>\<open>doorbell.c\<close>, \<^verbatim>\<open>device.c\<close>) stores a shadow
  register, recomputes the ring geometry and rings a door (\<^verbatim>\<open>dispatchers/*_door_dispatcher.c\<close>).
  A door drains a ring (\<^verbatim>\<open>dispatchers/channel_*_dispatcher.c\<close>): it reads commands through the
  ring's page array (\<^verbatim>\<open>ring_common.c\<close>), calls one handler per command (\<^verbatim>\<open>handlers/\<close>,
  \<^verbatim>\<open>protocol/ops_misc.c\<close>), completes the command's stamp in guest memory (\<^verbatim>\<open>protocol/stamp.c\<close>) and
  publishes the read pointer.  Handlers work on the protocol state (\<^verbatim>\<open>protocol/state.h\<close>) with its
  tables of tasks, channels and resources (\<^verbatim>\<open>resource_registry.c\<close>).  The execution handler
  (\<^verbatim>\<open>handlers/compute/exec_cmdbuf.c\<close>) translates task addresses by walking the guest's page
  tables, copies a command buffer and walks its segments, whose operations are decoded by
  \<^verbatim>\<open>compute_inner_ops.c\<close>, \<^verbatim>\<open>render_inner_ops.c\<close> and \<^verbatim>\<open>blit_inner_ops.c\<close>; descriptors are resolved by
  \<^verbatim>\<open>protocol/object_resolver.c\<close>.  The embedding program supplies memory access and interrupts
  as callbacks; they are the parameter \<^typ>\<open>'x shell\<close>.

  \<^bold>\<open>Theories.\<close>
  \<^item> \<open>Prelude\<close>, \<open>LittleEndian\<close>: types, collections, generic lemmas; \<^verbatim>\<open>common/le.h\<close> with checked
    accesses, round trips and bounds.
  \<^item> \<open>Shell\<close>, \<open>ProtoState\<close>: the callbacks with the law \<open>ram_law\<close> of guest memory, the
    protocol and device records, creation, reset and table lookups.
  \<^item> \<open>Registry\<close>: the resource table, refined to a map by the locale \<open>resource_map\<close>.
  \<^item> \<open>Stamp\<close>, \<open>Ring\<close>: stamp cells; ring descriptors and the chunked read, refined to a
    byte-wise walk of the page array through the locale \<open>paged\<close>.
  \<^item> \<open>HandlerSpec\<close>: the contract of command handlers as the locales \<open>command_handler\<close> and
    \<open>safe_handler\<close>, interpreted on every handler in \<open>TaskMemory\<close>, \<open>DeviceInfo\<close>,
    \<open>IOSurface\<close>, \<open>DisplayOps\<close>, \<open>InfoReplies\<close> and \<open>ExecCmdbuf\<close>.
  \<^item> \<open>Translate\<close>, \<open>ObjectResolver\<close>, \<open>PsoDescriptor\<close>: page-table walks, virtual reads and the
    scans of pipeline descriptors, each equal to a reference definition.
  \<^item> \<open>RenderPass\<close>, \<open>InnerSpec\<close>, \<open>RenderInner\<close>, \<open>Float64\<close>, \<open>ComputeInner\<close>, \<open>ExecCmdbuf\<close>: the
    operations inside command buffers (locale \<open>inner_op\<close>) and the segment walk.
  \<^item> \<open>Drain\<close>: the two drain loops over an arbitrary dispatcher (locales \<open>dispatcher\<close> and
    \<open>total_dispatcher\<close>), interpreted in \<open>Channel0\<close>, \<open>ChannelCompute\<close>, \<open>ChannelDisplay\<close>.
  \<^item> \<open>Doorbell\<close>: registers, doors and the transition relation of the guest with its invariant.
    \<open>Examples\<close>: concrete guest memories for the witnesses.
  \<^item> \<open>Bitstream\<close>, \<open>Abbrev\<close>, \<open>BlockReader\<close>: the LLVM bitstream container (\<^verbatim>\<open>air/bitstream.c\<close>,
    \<^verbatim>\<open>abbrev.c\<close>, \<^verbatim>\<open>block_reader.c\<close>) as readers with three outcomes, with an encoder and the locale
    \<open>bit_codec\<close> for round trips.  \<open>AirModule\<close>, \<open>AirBlocks\<close>, \<open>AirReader\<close>: the module reader
    \<^verbatim>\<open>air/bitcode_reader.c\<close> with its arena; \<open>AirFacts\<close>: what it guarantees.
  \<^item> \<open>Metallib\<close>: the container \<^verbatim>\<open>air2spirv/metallib_extract.c\<close>.  \<open>ShaderCache\<close>: the cache
    \<^verbatim>\<open>air2spirv/shader_cache.c\<close>, refined to a recency list.
  \<^item> \<open>Retarget\<close>: the triple rewriter \<^verbatim>\<open>air2spirv/bitcode_retarget.c\<close>, equal to a substitution of the
    triples it finds.  \<open>ShaderTranslate\<close>: the runner \<^verbatim>\<open>air2spirv/shader_translate.c\<close> around the
    external compiler.
  \<^item> \<open>SpvBuilder\<close>, \<open>SpvReflect\<close>: \<^verbatim>\<open>air2spv/spv_builder.c\<close> and \<^verbatim>\<open>air2spv/spv_reflect.c\<close>; \<open>SpvFacts\<close>:
    both in terms of decoded instructions.  \<open>EntryRewrite\<close>: \<^verbatim>\<open>air2spirv/spv_entrypoint_rewrite.c\<close>.
  \<^item> \<open>SigTransform\<close>: \<^verbatim>\<open>air2spirv/spv_signature_transform.c\<close>, its scans and its second pass with the
    output buffer of the size the code allocates.  \<open>SigFacts\<close>: no pass leaves the module and
    the result is the concatenation of what the steps emit; \<open>SigOutput\<close>: how long it gets;
    \<open>SigShape\<close>: the entry function and the interface of the result.
  \<^item> \<open>SpvValid\<close>: a type checker for the SPIR-V subset the emitters use, a specification taken
    from the SPIR-V rules and not from the sources.  \<open>ReferenceShaders\<close>: the fourteen emitters
    \<^verbatim>\<open>air2spv/emit_*.c\<close>, call by call, with rules that carry the checker along the calls.
    \<open>AirTranslate\<close>: \<^verbatim>\<open>air2spv/translate.c\<close>.  \<open>ShaderExamples\<close>: inputs for the witnesses.
  \<^item> \<open>FnFlow\<close>, \<open>FnLayout\<close>: the analyses of \<^verbatim>\<open>air2spv/translate_function.c\<close>: value numbers, basic
    blocks and loop shapes; sizes, alignments and offsets, and the kinds of arguments.
  \<^item> \<open>Timer\<close>: the vblank tick \<^verbatim>\<open>timer/timer.c\<close>.  \<open>TaskSpace\<close>: the host side of task memory,
    \<^verbatim>\<open>memory/task.c\<close>, over the mappings of the process, which the kernel changes by whole pages.

  \<^bold>\<open>Conventions and bounds.\<close>  The build without \<^verbatim>\<open>LAGFX_HAVE_VULKAN\<close> on a little-endian 64-bit
  host is modelled, with the diagnostic environment variables unset.  Machine integers are
  words, except \<^verbatim>\<open>size_t\<close> positions in buffers, which are natural numbers bounded by the
  buffers.  C pointers into tables are indices.  A handler returns an optional pair of status
  and state, and \<^const>\<open>None\<close> is an access outside a buffer.  Allocation succeeds.  Drains are
  limited to 128 commands by the code itself, so their loops need no fuel of the model; the
  other loops are functions with termination proofs, and
  three recursions that need not end (symbol tables of a bitcode module, the growth of a
  section of the SPIR-V builder, the size of a type) are partial functions whose value \<^const>\<open>None\<close>
  is characterised.
  What the shader half takes from outside the sources or from code that is not modelled is a
  parameter: the answers of the operating system and of the kernel, and the translation of a
  function body.

  \<^bold>\<open>What the properties show.\<close>  Invariance of the protocol state under everything the guest
  does; boundedness, safety and functional behaviour of drains and handlers, with the inputs
  outside the safe range as error properties; refinement of chunked and table-driven code to
  abstract specifications; round trips of the wire formats; and for the shader half, round
  trips of the abbreviation layer and of the container, memory behaviour of record decoding and
  container parsing, the contracts of cache, triple rewriter, builder, binding relocation,
  entry-point rewriter and signature transform, typing of the reference shaders, the analyses
  of function bodies, and the contract of the vblank tick.  Theorems without a number hold too:
  among them the round trip of whole blocks, the return of the module reader, the conditional
  validity of translated modules, the overrun of the signature transform by many returns, the
  failure of the external translation and the contract of task memory.  Where a comment or a
  header describes another behaviour than the code, a numbered property is restricted to inputs
  on which the two agree: the triples of \<open>regular_triples\<close>, modules with the Shader
  capability for the entry-point rewriter, device-info buffers of at least 84 units.

  \<^bold>\<open>Not modelled.\<close>  Code compiled only with Vulkan (\<^verbatim>\<open>vulkan/\<close>, \<^verbatim>\<open>translate/\<close>,
  \<^verbatim>\<open>handlers/compute/draw_*.c\<close>), since it drives an API that is not part of the sources;
  logging, hex dumps and counters and lookups used only for them (the flag of the first dumped
  draw, the pipeline lookup of a state change, the count of returns in the signature
  transform); shifts by 32 or more, which no caller reaches; the instruction emission of
  \<^verbatim>\<open>air2spv/translate_function.c\<close>; the external compiler; test entry points and static data.
\<close>

section \<open>The doors and the drains\<close>

text \<open>C1. Whatever registers the guest writes and reads and whatever it puts into its
  memory, every state it can reach is well formed: the tables have their sizes, live task
  and channel ids and registry keys are unique, the ring base is what the geometry
  registers say, and a ring with a base has a size.\<close>

theorem mmio_invariant: "reachable sh s \<Longrightarrow> mmio_ok s"
  by (rule reachable_ok)

theorem mmio_invariant_witness:
  "\<exists>s. reachable ram_shell s \<and> ring_base_gpa (proto s) = 0x5000 \<and> mmio_ok s"
proof -
  let ?s = "lagfx_device_new (\<lambda>_. 0, []) :: ram_state sys"
  let ?s' = "the (lagfx_mmio_write ram_shell 0x1030 5 ?s)"
  have w: "lagfx_mmio_write ram_shell 0x1030 5 ?s = Some ?s'" "ring_base_gpa (proto ?s') = 0x5000"
    by (simp_all add: lagfx_mmio_write_def doorbell_handle_write_def lagfx_device_is_valid_def lagfx_device_new_def
        new_device_def Let_def shadow_write_def doorbell_reg_index_def doorbell_init_def lagfx_protocol_new_def)
  have r: "reachable ram_shell ?s'"
    by (rule reachable.step[OF reachable.new guest_step.Write[OF w(1)]])
  show ?thesis using r mmio_invariant[OF r] w(2) by blast
qed

text \<open>C2. A drain of the root ring processes at most 128 commands, advances the command
  counter by that number, changes no register and no ring geometry but the read
  pointer, and keeps the state well formed.  When at least one command was processed, the
  read pointer is left inside the ring; when none was, the state is unchanged.\<close>

theorem root_drain_bounded:
  assumes "wf_sys s" "channel_0_dispatcher_drain sh s = Some (n, s')"
  shows "n \<le> 128 \<and> drained s n s' \<and> (if n = 0 then s' = s else read_ptr (proto s') < ring_size (proto s))"
  using ch0.ch0_drain_drained[OF assms(1)] assms(2) by (simp add: channel_0_dispatcher_drain_def)

theorem root_drain_bounded_witness:
  "\<exists>s'. channel_0_dispatcher_drain ram_shell root_ring = Some (1, s') \<and> drained root_ring 1 s' \<and> read_ptr (proto s') < 0x1000"
proof -
  obtain s' where s': "channel_0_dispatcher_drain ram_shell root_ring = Some (1, s')"
    using root_ring_drain by blast
  have "ring_size (proto root_ring) = 0x1000" by (simp add: root_ring_def)
  then show ?thesis using root_drain_bounded[OF root_ring_wf s'] s' by auto
qed

text \<open>C40. The same for a compute or display channel, whose read pointer lives in the
  channel's descriptor.\<close>

theorem vchan_drain_bounded:
  assumes "wf_sys s"
    and "channel_compute_dispatcher_drain sh chan s = Some (n, s') \<or> channel_display_dispatcher_drain sh chan s = Some (n, s')"
  shows "n \<le> 128 \<and> drained s n s'"
  using assms(2) compute.vchan_drain_drained[OF assms(1)] display.vchan_drain_drained[OF assms(1)]
  unfolding channel_compute_dispatcher_drain_def channel_display_dispatcher_drain_def by blast

theorem vchan_drain_bounded_witness:
  "\<exists>s'. channel_display_dispatcher_drain ram_shell 5 channel_ring = Some (1, s') \<and> drained channel_ring 1 s'"
proof -
  obtain s' where s': "channel_display_dispatcher_drain ram_shell 5 channel_ring = Some (1, s')"
    using channel_ring_drain by blast
  then show ?thesis using vchan_drain_bounded[OF channel_ring_wf disjI2[OF s']] by blast
qed

text \<open>C3. Ringing the primary door on a ring that holds one command, possibly wrapped
  around the ring's end, runs exactly that command, completes exactly its stamp, counts
  it once and leaves the read pointer at the write pointer.\<close>

theorem root_door_single_command:
  assumes "ram_law sh ram" "dev s \<noteq> None" "lagfx_protocol_is_valid (proto s)" "ring_armed (proto s)"
    and "ring_base_gpa (proto s) \<noteq> 0" "read_ptr (proto s) < ring_size (proto s)"
    and "length payload \<le> 4084" "12 + length payload \<le> unat (ring_size (proto s))"
    and wp: "wp = (read_ptr (proto s) + of_nat (12 + length payload)) mod ring_size (proto s)" "wp \<noteq> read_ptr (proto s)"
    and "cyclic_bytes ram (ext s) (ring_base_gpa (proto s)) (ring_size (proto s)) (read_ptr (proto s)) (12 + length payload)
           = encode_command opcode argc stamp payload"
  shows "primary_ring_door_dispatcher_dispatch sh wp s =
     map_option (\<lambda>s1. let s2 = count_cmd (lagfx_protocol_complete_stamp sh stamp s1)
                      in s2\<lparr>proto := (proto s2)\<lparr>read_ptr := wp\<rparr>\<rparr>)
       (ch0_dispatch_command sh (command_header opcode argc stamp payload)
          (s\<lparr>proto := (proto s)\<lparr>write_ptr := wp, current_chan_id := 0\<rparr>\<rparr>))"
proof -
  let ?s = "s\<lparr>proto := (proto s)\<lparr>write_ptr := wp, current_chan_id := 0\<rparr>\<rparr>"
  have "channel_0_dispatcher_drain sh ?s = map_option (\<lambda>s1. let s2 = count_cmd (lagfx_protocol_complete_stamp sh stamp s1)
                      in (1, s2\<lparr>proto := (proto s2)\<lparr>read_ptr := wp\<rparr>\<rparr>))
       (ch0_dispatch_command sh (command_header opcode argc stamp payload) ?s)"
    using ch0_drain_single[OF assms(1), of ?s payload opcode argc stamp ch0_dispatch_command] assms(2-)
    by (simp add: channel_0_dispatcher_drain_def lagfx_protocol_is_valid_def)
  then show ?thesis
    using assms(3) by (simp add: primary_ring_door_dispatcher_dispatch_def Let_def option.map_comp comp_def)
qed

theorem root_door_single_command_witness:
  "\<exists>s'. primary_ring_door_dispatcher_dispatch ram_shell 4 root_ring = Some s' \<and>
     read_ptr (proto s') = 4 \<and> total_cmds_seen (proto s') = 1 \<and> last_completed_stamp (proto s') = 5"
proof -
  have b: "cyclic_bytes fst (ext root_ring) 0x1000 0x1000 0xff8 (12 + length ([] :: bytes)) = encode_command 0x0e 0 5 []"
    using root_ring_bytes by (simp add: nop_command_def)
  have g: "ring_base_gpa (proto root_ring) = 0x1000" "ring_size (proto root_ring) = 0x1000"
    "read_ptr (proto root_ring) = 0xff8" "ring_armed (proto root_ring)" "dev root_ring \<noteq> None"
    "magic (proto root_ring) = LAGFX_PROTOCOL_MAGIC" "total_cmds_seen (proto root_ring) = 0"
    by (simp_all add: root_ring_def)
  have "primary_ring_door_dispatcher_dispatch ram_shell 4 root_ring =
     map_option (\<lambda>s1. let s2 = count_cmd (lagfx_protocol_complete_stamp ram_shell 5 s1)
                      in s2\<lparr>proto := (proto s2)\<lparr>read_ptr := 4\<rparr>\<rparr>)
       (ch0_dispatch_command ram_shell (command_header 0x0e 0 5 [])
          (root_ring\<lparr>proto := (proto root_ring)\<lparr>write_ptr := 4, current_chan_id := 0\<rparr>\<rparr>))"
    using b by (intro root_door_single_command[OF ram_shell_law]) (simp_all add: g lagfx_protocol_is_valid_def)
  then show ?thesis
    using g by (simp add: ch0_dispatch_command_def command_header_def arm_def lagfx_util_nop_def Let_def
        count_cmd_def lagfx_protocol_complete_stamp_def complete_slot_proto lagfx_protocol_is_valid_def)
qed

text \<open>C4. Draining a compute channel whose ring holds one command, however its bytes are
  spread over the ring's pages, runs exactly that command, completes its stamp in the
  channel's own slot, counts it and publishes the new read pointer.\<close>

theorem compute_channel_single_command:
  assumes "ram_law sh ram" "dev s \<noteq> None" "lagfx_protocol_is_valid (proto s)"
    and "lagfx_ring_fifo_descriptor_read sh chan s = Some (desc_gpa, rp + of_nat (12 + length payload), rp, page0_gpa)"
    and "length payload \<le> 4084"
    and "ring_bytes ram (ext s) page0_gpa LAGFX_COMPUTE_RING_SIZE rp (12 + length payload) =
           Some (encode_command opcode argc stamp payload)"
  shows "channel_compute_dispatcher_drain sh chan s =
     map_option (\<lambda>s1. (1, lagfx_ring_publish_read_ptr sh desc_gpa (rp + of_nat (12 + length payload))
                             (count_cmd (lagfx_protocol_complete_stamp_slot sh chan stamp s1))))
       (compute_dispatch_command sh (command_header opcode argc stamp payload) s)"
  unfolding channel_compute_dispatcher_drain_def
  by (rule vchan_drain_single[OF assms(1-3) _ _ assms(4,5) _ assms(6)])
     (use assms(5) in \<open>simp_all add: LAGFX_COMPUTE_RING_SIZE_def\<close>)

theorem compute_channel_single_command_witness:
  "channel_compute_dispatcher_drain ram_shell 5 channel_ring =
     Some (1, lagfx_ring_publish_read_ptr ram_shell 0x2450 12
       (count_cmd (lagfx_protocol_complete_stamp_slot ram_shell 5 7 (count_unknown channel_ring))))"
proof -
  have b: "ring_bytes fst (ext channel_ring) 0x3000 LAGFX_COMPUTE_RING_SIZE 0 (12 + length ([] :: bytes)) =
      Some (encode_command 0x11 0 7 [])"
    using channel_ring_bytes(3) by (simp add: ack_command_def LAGFX_COMPUTE_RING_SIZE_def)
  have g: "dev channel_ring \<noteq> None" "lagfx_protocol_is_valid (proto channel_ring)"
    by (simp_all add: channel_ring_def lagfx_protocol_is_valid_def)
  have d: "lagfx_ring_fifo_descriptor_read ram_shell 5 channel_ring = Some (0x2450, 0 + of_nat (12 + length ([] :: bytes)), 0, 0x3000)"
    using channel_ring_bytes(1) by simp
  show ?thesis
    using compute_channel_single_command[OF ram_shell_law g d _ b]
    by (simp add: compute_dispatch_command_def command_header_def)
qed

text \<open>C5. A display channel never gets stuck and never leaves a buffer: whatever its ring
  and the payloads in it hold, ringing the channel door for channel 5 and above returns.\<close>

theorem display_door_returns:
  assumes "wf_sys s" "5 \<le> v AND 0xff"
  shows "\<exists>s'. channel_door_dispatcher_dispatch sh v s = Some s'"
  using display_door_total[OF assms] by simp

theorem display_door_returns_witness: "\<exists>s'. channel_door_dispatcher_dispatch ram_shell 5 channel_ring = Some s'"
  by (rule display_door_returns[OF channel_ring_wf]) simp

text \<open>C6. Every root-channel command stays inside its payload, keeps the tables well formed
  and changes neither ring geometry nor ring pointers, provided a command-buffer
  execution (opcode 0x20) does not have a payload of 9 to 11 bytes or counts whose size
  computation wraps around 32 bits.\<close>

theorem root_dispatch_safe:
  assumes "wf_hdr hdr" "wf_sys s"
    and "hdr_opcode hdr = 0x20 \<Longrightarrow> exec_payload_ok hdr"
  shows "\<exists>s'. ch0_dispatch_command sh hdr s = Some s' \<and> wf_sys s' \<and> frame s s'"
proof (cases "hdr_opcode hdr = 0x20")
  case True
  then show ?thesis using exec_arm_total[OF assms(1,2) assms(3)[OF True]] by (simp add: ch0_dispatch_exec)
next
  case False
  then show ?thesis using ch0_dispatch_total[OF assms(1,2)] by (auto simp: keeps_sys_def)
qed

theorem root_dispatch_safe_witness:
  "\<exists>s'. ch0_dispatch_command ram_shell (sample_hdr 0x20 1 (replicate 12 0)) root_ring = Some s' \<and> wf_sys s' \<and> frame root_ring s'"
proof (rule root_dispatch_safe)
  show "exec_payload_ok (sample_hdr 0x20 1 (replicate 12 0))"
    by (simp add: exec_payload_ok_def sample_hdr_def exec_no_wrap_def le32_at_def zero_read)
qed (simp_all add: root_ring_wf)

text \<open>C32. The same for the commands of the compute channels, where opcode 0x37 executes
  command buffers too.\<close>

theorem compute_dispatch_safe:
  assumes "wf_hdr hdr" "wf_sys s"
    and "hdr_opcode hdr \<in> {0x20, 0x37} \<Longrightarrow> exec_payload_ok hdr"
  shows "\<exists>s'. compute_dispatch_command sh hdr s = Some s' \<and> wf_sys s' \<and> frame s s'"
proof (cases "hdr_opcode hdr \<in> {0x20, 0x37}")
  case True
  then show ?thesis using exec_arm_total[OF assms(1,2) assms(3)[OF True]] by (auto simp: compute_dispatch_exec)
next
  case False
  then show ?thesis using compute_dispatch_total[OF assms(1,2)] by (auto simp: keeps_sys_def)
qed

theorem compute_dispatch_safe_witness:
  "\<exists>s'. compute_dispatch_command ram_shell (sample_hdr 0x3b 1 (replicate 24 0)) root_ring = Some s' \<and> wf_sys s' \<and> frame root_ring s'"
  by (rule compute_dispatch_safe) (simp_all add: root_ring_wf sample_hdr_def wf_hdr_def)

text \<open>C38. Outside that condition the handler does leave its payload: with 9, 10 or 11 bytes
  it reads the resource count past the end.\<close>

theorem exec_short_payload_oob:
  assumes "hdr_payload hdr = Some b" "length b \<in> {9, 10, 11}" "hdr_payload_size hdr = of_nat (length b)"
  shows "lagfx_compute_exec_cmdbuf sh hdr s = None"
proof -
  have "unat (hdr_payload_size hdr) = length b" using assms(2,3) by (auto simp: unat_of_nat_small)
  moreover have "lagfx_le32 b 8 = None" using assms(2) by (auto simp: le32_None_iff)
  moreover have "hdr_payload_size hdr \<noteq> 8" using assms(2,3) by auto
  moreover have "8 \<le> length b" using assms(2) by auto
  ultimately show ?thesis
    using assms(1) by (simp add: lagfx_compute_exec_cmdbuf_def payload_at_least_def chk_simps)
qed

theorem exec_short_payload_oob_witness:
  "lagfx_compute_exec_cmdbuf ram_shell (sample_hdr 0x20 1 (replicate 9 0)) root_ring = None"
  by (rule exec_short_payload_oob[where b = "replicate 9 0"]) (simp_all add: sample_hdr_def)

text \<open>Counts whose size wraps pass the size check: a 12-byte payload with 0x0aaaaaa0
  descriptors and 16 resources has the minimal size 12 modulo 2 ^ 32, and the resource table
  is then read almost 4 GiB past it.\<close>

theorem exec_count_wrap_oob:
  "exec_min_payload 0x0aaaaaa0 16 = 12 \<and>
   lagfx_compute_exec_cmdbuf sh (sample_hdr 0x20 stamp (le_bytes32 task @ le_bytes32 0x0aaaaaa0 @ le_bytes32 16)) s = None"
proof -
  let ?b = "le_bytes32 task @ le_bytes32 0x0aaaaaa0 @ le_bytes32 16"
  have r: "lagfx_le32 ?b 0 = Some task" "lagfx_le32 ?b 4 = Some 0x0aaaaaa0" "lagfx_le32 ?b 8 = Some 16"
    by (simp_all add: le_append_left le_append_right le_bytes_read)
  have m: "exec_min_payload 0x0aaaaaa0 16 = 12" "unat (24 * 0x0aaaaaa0 :: u32) = 4294967040"
    by (simp_all add: exec_min_payload_def)
  have "exec_resources sh ?b (12 + 4294967040) 16 t 0 16 s = None" for t
  proof -
    have "lagfx_le64 ?b (12 + 4294967040) = None" by (simp add: le64_None_iff)
    then have "exec_resources sh ?b (12 + 4294967040) 16 t 0 (Suc 15) s = None"
      unfolding exec_resources.simps by simp
    moreover have "(16 :: nat) = Suc 15" by simp
    ultimately show ?thesis by (simp only:)
  qed
  then show ?thesis
    using r m by (simp add: lagfx_compute_exec_cmdbuf_def payload_at_least_def sample_hdr_def)
qed

section \<open>Rings and address translation\<close>

text \<open>C7. The chunked ring read returns exactly the bytes a byte-at-a-time walk of the
  ring's page array finds from the offset on, wherever page and ring ends fall, and
  fails exactly when one of the pages involved is missing.\<close>

theorem ring_read_refines:
  assumes "ram_law sh ram" "dev s \<noteq> None" "4096 dvd unat rsize" "rsize \<noteq> 0" "len \<noteq> 0"
  shows "lagfx_ring_read_bytes sh page0_gpa rsize off len s =
         those (map (\<lambda>i. map_option (ram (ext s)) (ring_addr ram (ext s) page0_gpa rsize (off + of_nat i))) [0..<unat len])"
  using ring_read_bytes_ram[OF assms] by (simp add: ring_bytes_def)

theorem ring_read_refines_witness:
  "lagfx_ring_read_bytes ram_shell 0x3000 0x1000 0 12 channel_ring = Some ack_command"
  using ring_read_refines[OF ram_shell_law, of channel_ring "0x1000" 12 "0x3000" 0] channel_ring_bytes(2)
  by (simp add: ring_bytes_def channel_ring_def)

text \<open>C8. Address translation implements the abstract page table that lies in guest memory
  at the task's root page: a mapped page goes to its frame, with the offset within the
  page kept; an unmapped page has no translation.\<close>

theorem translate_refines_page_table:
  assumes "ram_law sh ram" "dev s \<noteq> None" "t_root_page_pfn task \<noteq> 0"
    and "ram32 ram (ext s) (push_bit 12 (t_root_page_pfn task)) = l1_pfn"
    and "ram32 ram (ext s) (push_bit 12 (t_root_page_pfn task) + 4) = of_nat (Suc k)"
    and "l1_pfn \<noteq> 0" "k < 4" "pt_in_ram ram (ext s) k l1_pfn es"
  shows "lagfx_task_translate sh s task va =
     map_option (\<lambda>f. push_bit 12 f OR take_bit 12 va) (pt_lookup k es (drop_bit 12 va))"
  by (rule translate_page_table[OF assms])

theorem translate_refines_page_table_witness:
  "lagfx_task_translate ram_shell paged_sys paged_task 0x5123 = Some 0x7123"
proof -
  have "lagfx_task_translate ram_shell paged_sys paged_task 0x5123 =
     map_option (\<lambda>f. push_bit 12 f OR take_bit 12 0x5123) (pt_lookup 0 (replicate 1024 (Frame 7)) (drop_bit 12 0x5123))"
    by (rule translate_refines_page_table[OF ram_shell_law, where l1_pfn = 9])
       (use paged_table in \<open>simp_all add: paged_task_def paged_sys_def\<close>)
  then show ?thesis by (simp add: take10_bound)
qed

text \<open>C9. Reading a range of a task's address space in page-sized chunks returns exactly the
  bytes at the translated addresses, and fails exactly when one of them does not translate.\<close>

theorem read_virtual_refines:
  assumes "ram_law sh ram" "dev s \<noteq> None"
  shows "lagfx_task_read_virtual sh s task va len =
     those (map (\<lambda>i. map_option (ram (ext s)) (lagfx_task_translate sh s task (va + of_nat i))) [0..<unat len])"
  using task_read_virtual_ram[OF assms] by (simp add: vbytes_def)

theorem read_virtual_refines_witness:
  "lagfx_task_read_virtual ram_shell paged_sys paged_task 0x5ffe 4 = Some [1, 2, 0, 0]"
proof -
  have "lagfx_task_read_virtual ram_shell paged_sys paged_task 0x5ffe 4 =
     those (map (\<lambda>i. Some (paged_mem (push_bit 12 7 OR take_bit 12 (0x5ffe + of_nat i)))) [0..<4])"
    using read_virtual_refines[OF ram_shell_law, of paged_sys paged_task "0x5ffe" 4]
    by (simp only: paged_translate) (simp add: paged_sys_def)
  also have "\<dots> = Some [1, 2, 0, 0]" by (simp add: upt_rec paged_mem_def mem_at_def)
  finally show ?thesis .
qed

text \<open>C16. A command buffer is read from the addresses its task maps, page by page, and from
  the untranslated address where the task maps none; the bytes come out in order and the
  buffer is filled completely.\<close>

theorem exec_read_complete:
  assumes "ram_law sh ram" "dev s \<noteq> None"
  shows "exec_read_loop sh s task va len 0 [] = map (\<lambda>i. ram (ext s) (exec_gpa sh s task (va + of_nat i))) [0..<unat len]"
  by (rule exec_read_ram[OF assms])

theorem exec_read_complete_witness: "exec_read_loop ram_shell paged_sys None 0x8000 4 0 [] = le_bytes32 9"
proof -
  have "exec_read_loop ram_shell paged_sys None 0x8000 4 0 [] = map (\<lambda>i. fst (ext paged_sys) (0x8000 + of_nat i)) [0..<4]"
    using exec_read_complete[OF ram_shell_law, of paged_sys None "0x8000" 4] by (simp add: paged_sys_def exec_gpa_def task_ptr_def)
  also have "\<dots> = le_bytes32 9" by (simp add: paged_sys_def, code_simp)
  finally show ?thesis .
qed

section \<open>Resources, stamps and tasks\<close>

text \<open>C10. Registering a resource makes it visible under its (reference, task) key and
  leaves every other key alone; a full table refuses new keys but still refreshes old
  ones, and a refresh keeps the host handle.\<close>

theorem register_lookup:
  assumes "wf_registry r"
  shows "wf_registry (lagfx_resource_register r ref ty t addr sz) \<and>
     reg_get (lagfx_resource_register r ref ty t addr sz) k =
       (if k = (ref, t) \<and> (reg_get r (ref, t) \<noteq> None \<or> rcount r \<noteq> 256)
        then Some (case reg_get r (ref, t) of
               Some e \<Rightarrow> e\<lparr>re_type := ty, re_gpu_addr := addr, re_size := sz\<rparr>
             | None \<Rightarrow> zero_resource\<lparr>re_ref := ref, re_type := ty, re_task_id := t, re_gpu_addr := addr, re_size := sz\<rparr>)
        else reg_get r k)"
  using rr.get_put[OF assms, of "(ref, t)" "(ty, addr, sz)" k] rr.inv_put[OF assms, of "(ref, t)" "(ty, addr, sz)"]
  by (auto simp: reg_entry_def reg_full_def zero_resource_def split: option.split)

theorem register_lookup_witness:
  "reg_get (lagfx_resource_register zero_registry 3 LAGFX_RESOURCE_TYPE_BUFFER 1 0x1000 64) (3, 1) =
     Some (zero_resource\<lparr>re_ref := 3, re_type := LAGFX_RESOURCE_TYPE_BUFFER, re_task_id := 1, re_gpu_addr := 0x1000, re_size := 64\<rparr>)"
  using register_lookup[OF wf_zero_registry, of 3 LAGFX_RESOURCE_TYPE_BUFFER 1 "0x1000" 64 "(3, 1)"] rr.get_empty[of "(3, 1)"]
  by (simp add: zero_registry_def)

text \<open>C11. Unregistering removes exactly the one key, although the implementation fills the
  hole with the last entry, and what was registered and unregistered again is gone.\<close>

theorem unregister_lookup:
  assumes "wf_registry r"
  shows "wf_registry (lagfx_resource_unregister r ref t) \<and>
     reg_get (lagfx_resource_unregister r ref t) k = (if k = (ref, t) then None else reg_get r k)"
  using rr.get_del[OF assms, of "(ref, t)" k] rr.inv_del[OF assms, of "(ref, t)"] by simp

theorem unregister_lookup_witness:
  "reg_get (lagfx_resource_unregister (lagfx_resource_register zero_registry 3 LAGFX_RESOURCE_TYPE_BUFFER 1 0x1000 64) 3 1) (3, 1) = None"
  using unregister_lookup[OF register_wf[OF wf_zero_registry], of 3 LAGFX_RESOURCE_TYPE_BUFFER 1 "0x1000" 64 3 1 "(3, 1)"] by simp

text \<open>C12. Clearing a task removes exactly the task's entries and keeps the others in
  order, and the freed slots are zero.\<close>

theorem clear_task_exact:
  assumes "wf_registry r"
  shows "wf_registry (lagfx_resource_clear_task r t) \<and>
     live (lagfx_resource_clear_task r t) = filter (\<lambda>e. re_task_id e \<noteq> t) (live r) \<and>
     reg_get (lagfx_resource_clear_task r t) k = (if snd k = t then None else reg_get r k)"
  using rr.inv_clear[OF assms] clear_task_live(1)[OF assms] rr.get_clear[OF assms] by simp

theorem clear_task_exact_witness:
  "reg_get (lagfx_resource_clear_task two_resources 1) (3, 1) = None \<and>
   reg_get (lagfx_resource_clear_task two_resources 1) (4, 2) = reg_get two_resources (4, 2) \<and> reg_get two_resources (4, 2) \<noteq> None"
  using clear_task_exact[OF two_resources_wf, of 1 "(3, 1)"] clear_task_exact[OF two_resources_wf, of 1 "(4, 2)"] two_resources_get by simp

text \<open>C13. Completing a stamp makes the channel's stamp cell move forward to at least the
  stamp (unless the cell is at its maximum), touches no other byte of guest memory, sets
  the channel's pending bit and keeps the other bits.\<close>

theorem complete_stamp_advances:
  assumes "ram_law sh ram" "dev s \<noteq> None" "lagfx_protocol_is_valid (proto s)" "ring_base_pfn (proto s) \<noteq> 0"
    and "ram32 ram (ext s) (stamp_cell_addr (proto s) slot) \<noteq> - 1"
  shows "let s' = lagfx_protocol_complete_stamp_slot sh slot stamp s; c = stamp_cell_addr (proto s) slot in
     ram32 ram (ext s) c < ram32 ram (ext s') c \<and> stamp \<le> ram32 ram (ext s') c \<and>
     (\<forall>a. ram (ext s') a \<noteq> ram (ext s) a \<longrightarrow> unat (a - c) < 4) \<and>
     pending_stamps_bitmask (proto s') = pending_stamps_bitmask (proto s) OR push_bit (unat slot) 1 \<and>
     last_completed_stamp (proto s') = stamp"
proof -
  let ?c = "stamp_cell_addr (proto s) slot"
  note c = complete_slot_cell(1)[OF assms(1-4), of slot stamp]
  have "ram (ext (lagfx_protocol_complete_stamp_slot sh slot stamp s)) a \<noteq> ram (ext s) a \<Longrightarrow> unat (a - ?c) < 4" for a
    using complete_slot_cell(2)[OF assms(1-4), of a slot stamp] by (meson not_le)
  then show ?thesis
    using c next_stamp_advances[OF disjI1[OF assms(5)], of stamp] assms(3)
    by (simp add: Let_def complete_slot_proto)
qed

theorem complete_stamp_advances_witness:
  "let s' = lagfx_protocol_complete_stamp_slot ram_shell 0 5 root_ring in
     5 \<le> ram32 fst (ext s') 0x1000 \<and> last_completed_stamp (proto s') = 5"
proof -
  have g: "dev root_ring \<noteq> None" "lagfx_protocol_is_valid (proto root_ring)" "ring_base_pfn (proto root_ring) \<noteq> 0"
    "stamp_cell_addr (proto root_ring) 0 = 0x1000"
    by (simp_all add: root_ring_def lagfx_protocol_is_valid_def stamp_cell_addr_def)
  have "ram32 fst (ext root_ring) (stamp_cell_addr (proto root_ring) 0) \<noteq> - 1"
    unfolding g(4) using root_ring_cell by simp
  from complete_stamp_advances[OF ram_shell_law g(1-3) this, of 5] show ?thesis by (simp add: Let_def g(4))
qed

text \<open>The execution handler completes its stamp itself and the drain completes it again:
  the second completion leaves the cell one past the stamp of the command.\<close>

theorem double_completion_overshoots:
  assumes "ram_law sh ram" "dev s \<noteq> None" "lagfx_protocol_is_valid (proto s)" "ring_base_pfn (proto s) \<noteq> 0"
    and "ram32 ram (ext s) (stamp_cell_addr (proto s) slot) < stamp" "stamp \<noteq> - 1"
  shows "ram32 ram (ext (lagfx_protocol_complete_stamp_slot sh slot stamp
             (lagfx_protocol_complete_stamp_slot sh slot stamp s))) (stamp_cell_addr (proto s) slot) = stamp + 1"
proof -
  let ?c = "stamp_cell_addr (proto s) slot" and ?s1 = "lagfx_protocol_complete_stamp_slot sh slot stamp s"
  have p: "proto ?s1 = (proto s)\<lparr>last_completed_stamp := stamp, total_cmds_completed := total_cmds_completed (proto s) + 1,
      pending_stamps_bitmask := pending_stamps_bitmask (proto s) OR push_bit (unat slot) 1\<rparr>"
    by (rule complete_slot_proto[OF assms(3)])
  have g: "dev ?s1 \<noteq> None" "lagfx_protocol_is_valid (proto ?s1)" "ring_base_pfn (proto ?s1) \<noteq> 0"
    "stamp_cell_addr (proto ?s1) slot = ?c"
    using assms(2-4) by (simp_all add: p lagfx_protocol_is_valid_def stamp_cell_addr_def)
  have "ram32 ram (ext ?s1) ?c = stamp"
    using complete_slot_cell(1)[OF assms(1-4), of slot stamp] assms(5) by (simp add: next_stamp_cases)
  then show ?thesis
    using complete_slot_cell(1)[OF assms(1) g(1-3), of slot stamp] assms(6) g(4) by (simp add: next_stamp_cases)
qed

theorem double_completion_overshoots_witness:
  "ram32 fst (ext (lagfx_protocol_complete_stamp_slot ram_shell 0 9
     (lagfx_protocol_complete_stamp_slot ram_shell 0 9 root_ring))) 0x1000 = 10"
proof -
  have g: "dev root_ring \<noteq> None" "lagfx_protocol_is_valid (proto root_ring)" "ring_base_pfn (proto root_ring) \<noteq> 0"
    "stamp_cell_addr (proto root_ring) 0 = 0x1000"
    by (simp_all add: root_ring_def lagfx_protocol_is_valid_def stamp_cell_addr_def)
  show ?thesis
    using double_completion_overshoots[OF ram_shell_law g(1-3), of 0 9] root_ring_cell by (simp add: g(4))
qed

text \<open>A successful task definition can be looked up under its id, with the length (cut to
  32 bits) and, when the guest names one, the base address of the command.\<close>

theorem define_task_found:
  assumes "wf_sys s" "wf_hdr hdr" "lagfx_protocol_is_valid (proto s)" "payload_at_least hdr 24 = Some b"
    and "lagfx_task_define_task2 sh hdr s = Some (LAGFX_HANDLER_OK, s')"
  shows "\<exists>i. lagfx_protocol_find_task (proto s') (le32_at b 0) = Some i \<and>
     t_length (tasks (proto s') ! i) = ucast (le64_at b 12) \<and>
     (le64_at b 4 \<noteq> 0 \<longrightarrow> t_base_va (tasks (proto s') ! i) = le64_at b 4)"
  by (rule define_task2_found[OF assms])

theorem define_task_found_witness:
  "\<exists>s' i. lagfx_task_define_task2 ram_shell (sample_hdr 0 1 (replicate 24 0)) paged_sys = Some (LAGFX_HANDLER_OK, s') \<and>
     lagfx_protocol_find_task (proto s') 0 = Some i"
proof -
  let ?h = "sample_hdr 0 1 (replicate 24 0)"
  have b: "payload_at_least ?h 24 = Some (replicate 24 0)" by (rule sample_hdr_payload) simp_all
  have z: "le32_at (replicate 24 0) 0 = 0" by (simp add: le32_at_def zero_read)
  have v: "lagfx_protocol_is_valid (proto paged_sys)" by (simp add: paged_sys_def lagfx_protocol_is_valid_def)
  obtain a c g where "shell_create_task ram_shell paged_sys (le64_at (replicate 24 0) 12) = (a, c, g)" by (rule prod_cases3)
  then obtain s' where s': "lagfx_task_define_task2 ram_shell ?h paged_sys = Some (LAGFX_HANDLER_OK, s')"
    using fresh_define[of 0] b by (auto simp: lagfx_task_define_task2_def chk_simps z)
  show ?thesis using define_task_found[OF paged_sys_wf _ v b s'] s' z by auto
qed

text \<open>C14. Deleting a task makes its id free and drops exactly the resources registered for
  it.\<close>

theorem delete_task_exact:
  assumes "wf_sys s" "wf_hdr hdr" "payload_at_least hdr 4 = Some b"
    and "lagfx_task_delete_task sh hdr s = Some (st, s')"
    and "lagfx_protocol_find_task (proto s) (le32_at b 0) \<noteq> None"
  shows "lagfx_protocol_find_task (proto s') (le32_at b 0) = None \<and>
     reg_get (resources (proto s')) k = (if snd k = le32_at b 0 then None else reg_get (resources (proto s)) k)"
  using delete_task_gone[OF assms(1-4)] delete_task_resources[OF assms] by blast

theorem delete_task_exact_witness:
  "\<exists>st s'. lagfx_task_delete_task ram_shell (sample_hdr 1 1 (replicate 4 0)) task_sys = Some (st, s') \<and>
     lagfx_protocol_find_task (proto s') 0 = None"
proof -
  let ?h = "sample_hdr 1 1 (replicate 4 0)"
  have b: "payload_at_least ?h 4 = Some (replicate 4 0)" by (rule sample_hdr_payload) simp_all
  have z: "le32_at (replicate 4 0) 0 = 0" by (simp add: le32_at_def zero_read)
  have w: "wf_hdr ?h" by simp
  obtain st s' where s': "lagfx_task_delete_task ram_shell ?h task_sys = Some (st, s')"
    using delete_task.total[OF w task_sys_wf, of ram_shell] by auto
  show ?thesis
    using delete_task_exact[OF task_sys_wf w b s'] s' task_sys_find z by auto
qed

section \<open>Replies to the guest\<close>

text \<open>C33. The device-info reply reaches the guest's page and decodes to the table of capabilities
  the handler carries, by the documented walk of the guest over tag/value pairs, which ends at
  the zero tag or after half as many entries as the guest's buffer has 8-byte units, whenever
  these are enough for the table and its end mark.\<close>

theorem device_info_decodes:
  assumes "ram_law sh ram" "dev s \<noteq> None" "wf_hdr hdr" "payload_at_least hdr 12 = Some b"
    and "le32_at b 8 \<noteq> 0" "42 \<le> unat (le32_at b 4) div 2"
  shows "\<exists>s'. lagfx_op_get_device_info_2 sh hdr s = Some (LAGFX_HANDLER_OK, s') \<and>
     tlv_parse (unat (le32_at b 4) div 2) (map (\<lambda>i. ram (ext s') (push_bit 12 (ucast (le32_at b 8)) + of_nat i)) [0..<336])
       = butlast device_info_pairs"
  using device_info_2_guest[OF assms(1-5) _ assms(6)] assms(6) by simp

theorem device_info_decodes_witness:
  "\<exists>s'. lagfx_op_get_device_info_2 ram_shell (sample_hdr 0x3a 1 (le_bytes32 0 @ le_bytes32 512 @ le_bytes32 3)) paged_sys = Some (LAGFX_HANDLER_OK, s') \<and>
     tlv_parse 256 (map (\<lambda>i. fst (ext s') (0x3000 + of_nat i)) [0..<336]) = butlast device_info_pairs"
proof -
  let ?b = "le_bytes32 0 @ le_bytes32 512 @ le_bytes32 3"
  have r: "le32_at ?b 4 = 512" "le32_at ?b 8 = 3"
    by (simp_all add: le32_at_def le_append_left le_append_right le_bytes_read)
  have b: "payload_at_least (sample_hdr 0x3a 1 ?b) 12 = Some ?b" by (rule sample_hdr_payload) simp_all
  show ?thesis
    using device_info_decodes[OF ram_shell_law _ _ b, of paged_sys] by (simp add: r paged_sys_def)
qed

text \<open>Installing a display's shared-state page records its address for the display and
  writes a page whose fields announce one 1920 by 1080 mode for that display.\<close>

theorem shared_state_installed:
  assumes "ram_law sh ram" "dev s = Some d" "wf_device d" "wf_hdr hdr" "payload_at_least hdr 8 = Some b"
    and "le32_at b 4 \<noteq> 0" "le32_at b 0 < 16"
  shows "\<exists>s' d' page. lagfx_display_vchan_setup_shared_state sh hdr s = Some (LAGFX_HANDLER_OK, s') \<and> dev s' = Some d' \<and>
     display_ss_gpa d' ! unat (le32_at b 0) = push_bit 12 (ucast (le32_at b 4)) \<and>
     guest_read sh s' (push_bit 12 (ucast (le32_at b 4))) 544 = Some page \<and>
     lagfx_le16 page 0x012 = Some (ucast (le32_at b 0)) \<and>
     lagfx_le16 page 0x014 = Some 1920 \<and> lagfx_le16 page 0x016 = Some 1080 \<and>
     lagfx_le16 page 0x208 = Some 1 \<and> lagfx_le32 page 0x210 = Some 1920 \<and> lagfx_le32 page 0x214 = Some 1080"
  by (rule setup_shared_state_guest[OF assms])

theorem shared_state_installed_witness:
  "\<exists>s'. lagfx_display_vchan_setup_shared_state ram_shell (sample_hdr 1 1 (le_bytes32 2 @ le_bytes32 6)) paged_sys = Some (LAGFX_HANDLER_OK, s')"
proof -
  let ?b = "le_bytes32 2 @ le_bytes32 6"
  have r: "le32_at ?b 0 = 2" "le32_at ?b 4 = 6"
    by (simp_all add: le32_at_def le_append_left le_append_right le_bytes_read)
  have b: "payload_at_least (sample_hdr 1 1 ?b) 8 = Some ?b" by (rule sample_hdr_payload) simp_all
  have d: "dev paged_sys = Some new_device" by (simp add: paged_sys_def)
  show ?thesis
    using shared_state_installed[OF ram_shell_law d wf_fresh(3) _ b] by (auto simp: r)
qed

text \<open>A command header survives the trip over the ring: encoding a command and decoding
  its first twelve bytes gives back opcode, argument count, total length and stamp, and
  the handler sees exactly the payload.\<close>

theorem command_roundtrip:
  assumes "length payload \<le> 4084"
  shows "\<exists>w. parse_header (take 12 (encode_command opcode argc stamp payload)) = Some w \<and>
     \<not> bad_length (w_length w) 0x1000 \<and>
     derive_header w (encode_command opcode argc stamp payload) =
       \<lparr>hdr_opcode = opcode, hdr_arg_count_8b = argc, hdr_length = of_nat (12 + length payload), hdr_stamp = stamp,
        hdr_payload_size = of_nat (length payload), hdr_payload = (if payload = [] then None else Some payload)\<rparr>"
  using parse_encode[of opcode argc stamp payload] derive_encode[OF assms, of opcode argc stamp]
    encode_length_ok(1)[OF assms, of "0x1000"] assms
  by (simp add: command_header_def del: of_nat_add)

theorem command_roundtrip_witness:
  "\<exists>w. parse_header (take 12 (encode_command 0x20 2 7 [1, 2, 3])) = Some w \<and> \<not> bad_length (w_length w) 0x1000"
  using command_roundtrip[of "[1, 2, 3]" "0x20" 2 7] by auto

text \<open>Little-endian stores and loads are inverse at every offset inside a buffer, leave
  all other bytes alone, and are refused exactly when they would leave the buffer.\<close>

theorem put_get_le:
  "(lagfx_put_le32 b off v = None \<longleftrightarrow> length b < off + 4) \<and>
   (\<forall>b'. lagfx_put_le32 b off v = Some b' \<longrightarrow> lagfx_le32 b' off = Some v \<and> length b' = length b \<and>
      (\<forall>i. i < off \<or> off + 4 \<le> i \<longrightarrow> rd8 b' i = rd8 b i)) \<and>
   (\<forall>w. lagfx_le32 b off = Some w \<longrightarrow> lagfx_put_le32 b off w = Some b)"
  by (rule put_get_le32)

theorem put_get_le_witness: "lagfx_put_le32 [1, 2, 3, 4, 5, 6] 1 (the (lagfx_le32 [1, 2, 3, 4, 5, 6] 1)) = Some [1, 2, 3, 4, 5, 6]"
proof -
  have "lagfx_le32 [1, 2, 3, 4, 5, 6] 1 = Some (le32_at [1, 2, 3, 4, 5, 6] 1)" by (simp add: chk_simps)
  from put_get_le[of "[1, 2, 3, 4, 5, 6]" 1 0, THEN conjunct2, THEN conjunct2, rule_format, OF this] this
  show ?thesis by (simp only: option.sel)
qed

text \<open>C34. An info query is answered in the guest's buffer: the reply bytes appear at the
  translated reply address, every other byte of guest memory and the whole device state
  stay as they were.\<close>

theorem info_reply_delivered:
  assumes "ram_law sh ram" "dev s \<noteq> None"
    and "info_decode op body = Some (Some (bid, off, n, r))" "guard_width op n r = Some r'"
    and "bid < rc" "base + 16 * unat rc \<le> length payload"
    and "off + of_nat n \<le> (ucast (le32_at payload (base + unat bid * 16 + 8)) :: u64)"
    and "tr sh s t (le64_at payload (base + unat bid * 16) + off) = Some gpa"
  shows "\<exists>s'. lagfx_info_dispatch sh op body (Some (payload, base)) rc (Some t) tr s = Some s' \<and>
     proto s' = proto s \<and> dev s' = dev s \<and>
     (\<forall>a. ram (ext s') a = (if unat (a - gpa) < n then r' ! unat (a - gpa) else ram (ext s) a))"
  using assms by (rule info_dispatch_reply)

theorem info_reply_delivered_witness:
  "\<exists>s'. lagfx_info_dispatch ram_shell 0x1c4 (replicate 24 0) (Some (le_bytes64 0x6000 @ le_bytes32 64 @ le_bytes32 0, 0)) 1
     (Some paged_task) lagfx_task_translate paged_sys = Some s' \<and> fst (ext s') 0x7000 = 0"
proof -
  let ?p = "le_bytes64 0x6000 @ le_bytes32 64 @ le_bytes32 0"
  have d: "info_decode 0x1c4 (replicate 24 0) = Some (Some (0, 0, 0x14, reply0))"
    by (simp add: info_decode_def triplet_def zero_read zero_read64)
  have r: "le64_at ?p 0 = 0x6000" "le32_at ?p 8 = 64"
    by (simp_all add: le32_at_def le64_at_def le_append_left le_append_right le_bytes_read)
  have t: "lagfx_task_translate ram_shell paged_sys paged_task 0x6000 = Some 0x7000" by (simp add: paged_translate)
  have g: "guard_width 0x1c4 0x14 reply0 = Some reply0" by (simp add: guard_width_def)
  show ?thesis
    using info_reply_delivered[OF ram_shell_law _ d g, of paged_sys 1 0 ?p lagfx_task_translate paged_task "0x7000"] r t
    by (auto simp: paged_sys_def reply0_def)
qed

text \<open>The bound check on the reply range adds in 64 bits and wraps: a reply offset of
  2 ^ 64 - 8 passes it, and the reply is written eight bytes below the guest buffer.\<close>

theorem info_reply_wraps_below_buffer:
  assumes "ram_law sh ram" "dev s \<noteq> None" "length body = 16" "le32_at body 4 = 0" "le64_at body 8 = - 8"
    and "length payload = 16" "20 \<le> le32_at payload 8"
    and "tr sh s t (le64_at payload 0 - 8) = Some gpa"
  shows "\<exists>s'. lagfx_info_dispatch sh 0x1c2 body (Some (payload, 0)) 1 (Some t) tr s = Some s' \<and> ram (ext s') (gpa + 1) = 4"
proof -
  obtain r where d: "info_decode 0x1c2 body = Some (Some (0, - 8, 0x1c, r))" "guard_width 0x1c2 0x1c r = Some r" "r ! 1 = 4"
    using info_decode_1c2[OF assms(3)] assms(4,5) by auto
  have fits: "(- 8 + of_nat 0x1c :: u64) \<le> ucast (le32_at payload (0 + unat (0 :: u32) * 16 + 8))"
    using assms(7) by (simp add: word_le_nat_alt unat_ucast_up)
  have t: "tr sh s t (le64_at payload (0 + unat (0 :: u32) * 16) + - 8) = Some gpa" using assms(8) by simp
  obtain s' where s': "lagfx_info_dispatch sh 0x1c2 body (Some (payload, 0)) 1 (Some t) tr s = Some s'"
    "\<forall>a. ram (ext s') a = (if unat (a - gpa) < 0x1c then r ! unat (a - gpa) else ram (ext s) a)"
    using info_dispatch_reply[where tr = tr and t = t and rc = 1 and base = 0 and gpa = gpa, OF assms(1,2) d(1,2) _ _ fits t]
      assms(6) by auto
  moreover have "unat (gpa + 1 - gpa) = 1" by simp
  ultimately show ?thesis using d(3) by auto
qed

theorem info_reply_wraps_below_buffer_witness:
  "\<exists>s'. lagfx_info_dispatch ram_shell 0x1c2 (le_bytes64 0 @ le_bytes64 (- 8))
     (Some (le_bytes64 0x6000 @ le_bytes32 64 @ le_bytes32 0, 0)) 1 (Some paged_task) lagfx_task_translate paged_sys = Some s' \<and>
     fst (ext s') 0x7ff9 = 4"
proof -
  let ?p = "le_bytes64 0x6000 @ le_bytes32 64 @ le_bytes32 0" and ?b = "le_bytes64 0 @ le_bytes64 (- 8)"
  have r: "le64_at ?p 0 = 0x6000" "le32_at ?p 8 = 64" "le32_at ?b 4 = 0" "le64_at ?b 8 = - 8"
    by (simp_all add: le32_at_def le64_at_def le_append_left le_append_right le_bytes_read) (simp add: le_bytes64_def lagfx_le32_def)
  have t: "lagfx_task_translate ram_shell paged_sys paged_task 0x5ff8 = Some 0x7ff8" by (simp add: paged_translate)
  show ?thesis
    using info_reply_wraps_below_buffer[OF ram_shell_law, of paged_sys ?b ?p lagfx_task_translate paged_task "0x7ff8"] r t
    by (simp add: paged_sys_def)
qed

section \<open>Object descriptors\<close>

text \<open>C35. The list of functions a pipeline descriptor names: the distinct bytes that follow
  a 0x04 tag within the descriptor's declared length and are function objects of the
  task, in the order of their first occurrence, cut to the capacity.  The scan never
  reads outside the descriptor.\<close>

theorem function_ref_list_spec:
  "lagfx_lookup_pipeline_function_ref_list sh s task k cap =
     Some (case pipeline_blob sh s task k 384 of None \<Rightarrow> []
           | Some desc \<Rightarrow> take cap (dedup [] (named_refs (fnref_is_function sh s task) desc 0 (the (blob_limit desc)))))"
proof (cases "pipeline_blob sh s task k 384")
  case (Some desc)
  obtain n where n: "blob_limit desc = Some n" "n \<le> length desc"
    using blob_limit_ok[of desc] pipeline_blob_length[OF Some] by auto
  then show ?thesis
    using Some scan_loop_spec[of n desc "[]" cap "fnref_is_function sh s task" 0]
    by (simp add: lagfx_lookup_pipeline_function_ref_list_def lagfx_scan_descriptor_function_refs_def)
qed (simp add: lagfx_lookup_pipeline_function_ref_list_def)

text \<open>The two-function lookup is the general scan with capacity two: first and second
  distinct function are vertex and fragment function; without a second one the fragment
  reference is 0, without any the lookup fails.\<close>

theorem function_refs_spec:
  "lagfx_lookup_pipeline_function_refs sh s task k =
     Some (case pipeline_blob sh s task k 128 of None \<Rightarrow> None
           | Some desc \<Rightarrow> (case take 2 (dedup [] (named_refs (fnref_is_function sh s task) desc 0 128)) of
                [] \<Rightarrow> None | [v] \<Rightarrow> Some (v, 0) | v # f # _ \<Rightarrow> Some (v, f)))"
  by (simp add: lookup_refs_scan split: option.split)

text \<open>Parsing vertex attributes always returns, with at most the requested number of
  entries, sorted by offset, no two at one offset, each of them an entry the descriptor
  really carries and within the format, offset and buffer ranges.\<close>

theorem vertex_attrs_spec:
  "\<exists>out. lagfx_parse_pso_vertex_attrs sh s task k cap = Some out \<and> length out \<le> cap \<and>
     sorted (map va_off out) \<and> distinct (map va_off out) \<and>
     list_all (\<lambda>a. 0 < va_fmt a \<and> va_fmt a \<le> 64 \<and> va_off a \<le> 240 \<and> va_bufidx a \<le> 30) out \<and>
     (case pipeline_blob sh s task k 512 of None \<Rightarrow> out = []
      | Some blob \<Rightarrow> list_all (\<lambda>a. \<exists>i. attr_at blob i = Some (Some a)) out)"
proof (cases "cap = 0 \<or> pipeline_blob sh s task k 512 = None")
  case True
  then show ?thesis by (auto simp: lagfx_parse_pso_vertex_attrs_def split: option.split)
next
  case False
  then obtain blob where b: "cap \<noteq> 0" "pipeline_blob sh s task k 512 = Some blob" by auto
  obtain n where n: "blob_limit blob = Some n" "n \<le> length blob"
    using blob_limit_ok[of blob] pipeline_blob_length[OF b(2)] by auto
  obtain out where o: "attr_loop blob n cap 16 [] = Some out" "attrs_ok blob cap out"
    using attr_loop_ok[OF n(2), of cap "[]" 16] by (auto simp: attrs_ok_def)
  have "lagfx_parse_pso_vertex_attrs sh s task k cap = Some (sort_attrs out)"
    using b n o by (simp add: lagfx_parse_pso_vertex_attrs_def)
  then show ?thesis
    using o(2) b(2) sort_attrs_props[of out] attr_at_plausible by (fastforce simp: attrs_ok_def list_all_iff)
qed

text \<open>The vertex stride is the most frequent plausible stride token of the descriptor,
  the largest one among equals, and 0 when there is none.\<close>

theorem vertex_stride_spec:
  "\<exists>st. lagfx_parse_pso_vertex_stride sh s task k = Some st \<and>
     (case pipeline_blob sh s task k 512 of None \<Rightarrow> st = 0
      | Some blob \<Rightarrow> let vs = stride_tokens blob (the (blob_limit blob)) 16 in if vs = [] then st = 0 else is_mode vs st)"
proof (cases "pipeline_blob sh s task k 512")
  case (Some blob)
  obtain n where n: "blob_limit blob = Some n"
    using blob_limit_ok[of blob] pipeline_blob_length[OF Some] by auto
  then show ?thesis using parse_stride_mode[OF Some n] Some by simp
qed (simp add: lagfx_parse_pso_vertex_stride_def)

text \<open>C36. A render pass descriptor survives encoding and decoding: every attachment, clear
  value and dimension comes back, whatever follows it in the command.\<close>

theorem render_pass_roundtrip:
  assumes "wf_render_pass d"
  shows "lagfx_parse_render_pass_descriptor (encode_render_pass d @ rest) = Some (Some d)"
  by (rule parse_encode_render_pass[OF assms])

theorem render_pass_roundtrip_witness:
  "\<exists>d. length (rp_colors d) = 1 \<and> lagfx_parse_render_pass_descriptor (encode_render_pass d) = Some (Some d)"
proof -
  let ?d = "\<lparr>rp_depth = None, rp_stencil = None,
    rp_colors = [\<lparr>ca_texture_ref = 3, ca_resolve_texture_ref = 0, ca_load_action = 2, ca_store_action = 1, ca_clear_color = [0, 0, 0, 0]\<rparr>],
    rp_width = 1920, rp_height = 1080, rp_array_length = 1, rp_visibility_ref = 0\<rparr>"
  have "wf_render_pass ?d" by (simp add: wf_render_pass_def wf_color_def)
  from render_pass_roundtrip[OF this, of "[]"] show ?thesis by (intro exI[of _ ?d]) simp
qed

text \<open>Decoding a render pass never reads outside the payload: it fails exactly on payloads
  shorter than the wire size and never yields more than eight colour attachments.\<close>

theorem render_pass_decode_total:
  "\<exists>r. lagfx_parse_render_pass_descriptor payload = Some r \<and> (r = None \<longleftrightarrow> length payload < 584) \<and>
     (case r of None \<Rightarrow> True | Some d \<Rightarrow> length (rp_colors d) \<le> 8)"
  using parse_render_pass_total[of payload] by (auto split: option.split)

section \<open>Command buffers\<close>

text \<open>Every operation of the render table reads inside its body, whatever the opcode and
  the body; the dispatcher reports success and the only state it changes is the counter
  of unknown operations, which it advances for known operations too.\<close>

theorem render_dispatch_reads_inside:
  "lagfx_render_inner_dispatch opcode payload s =
     Some (0, s\<lparr>proto := (proto s)\<lparr>p_diag := (p_diag (proto s))
       \<lparr>unknown_render_ops := unknown_render_ops (p_diag (proto s)) + 1\<rparr>\<rparr>\<rparr>)"
  by (rule render_dispatch_effect)

text \<open>C37. Walking a command segment of any encoder always returns, whatever the guest put
  into it: the state stays well formed, no task is created, destroyed or renamed, and
  the ring geometry is untouched.\<close>

theorem segment_walk_safe:
  assumes "wf_sys s" "table_ok res rc"
  shows "\<exists>m s'. inner_walk_segment sh enc segment res rc task s = Some (m, s') \<and> wf_sys s' \<and> inner_frame s s'"
  using inner_walk_segment_total[OF assms(2,1)] inner_walk_segment_keeps assms(1)
  unfolding keeps_inner_def by blast

theorem segment_walk_safe_witness:
  "\<exists>m s'. inner_walk_segment ram_shell 2 (replicate 64 1) None 0 (Some 0) task_sys = Some (m, s') \<and> wf_sys s' \<and> inner_frame task_sys s'"
  by (rule segment_walk_safe[OF task_sys_wf]) (simp add: table_ok_def)

text \<open>Binding vertex buffers sets exactly the addressed slots of the task to the
  references and offsets of the body and leaves the other slots as they were.\<close>

theorem set_vertex_buffers_binds:
  assumes "wf_sys s" "live_task k s = Some i" "8 + unat (le32_at body 4) * 12 \<le> length body"
    and "unat (le32_at body 0) + unat (le32_at body 4) < 2 ^ 32" "j < 32"
  shows "\<exists>s'. op_set_vertex_buffers sh k body s = Some (0, s') \<and>
     vertex_buffers (t_bindings (tasks (proto s') ! i)) ! j =
       (if unat (le32_at body 0) \<le> j \<and> j < unat (le32_at body 0) + unat (le32_at body 4)
        then let e = 8 + (j - unat (le32_at body 0)) * 12 in
          \<lparr>bs_ref = le32_at body e, bs_offset = le64_at body (e + 4), bs_valid = (le32_at body e \<noteq> 0)\<rparr>
        else vertex_buffers (t_bindings (tasks (proto s) ! i)) ! j)"
proof -
  let ?e = "8 + (j - unat (le32_at body 0)) * 12"
  have "\<exists>s'. set_slots buffer_entry 12 vertex_buffers (\<lambda>l b. b\<lparr>vertex_buffers := l\<rparr>) k body s = Some (0, s') \<and>
     vertex_buffers (t_bindings (tasks (proto s') ! i)) ! j =
       (if unat (le32_at body 0) \<le> j \<and> j < unat (le32_at body 0) + unat (le32_at body 4)
        then entry_slot (the (buffer_entry body ?e)) else vertex_buffers (t_bindings (tasks (proto s) ! i)) ! j)"
    by (rule set_slots_binds[OF assms(1-4) slot_lenses(3) _ entry_readers(1) assms(5)]) simp_all
  moreover have "?e + 12 \<le> length body"
    if "unat (le32_at body 0) \<le> j" "j < unat (le32_at body 0) + unat (le32_at body 4)"
    using that assms(3) by linarith
  ultimately show ?thesis
    by (auto simp: op_set_vertex_buffers_def buffer_entry_def entry_slot_def chk_simps Let_def split: if_splits)
qed

theorem set_vertex_buffers_binds_witness:
  "\<exists>s'. op_set_vertex_buffers ram_shell 0 (le_bytes32 2 @ le_bytes32 1 @ le_bytes32 9 @ le_bytes64 0x40) task_sys = Some (0, s') \<and>
     vertex_buffers (t_bindings (tasks (proto s') ! 0)) ! 2 = \<lparr>bs_ref = 9, bs_offset = 0x40, bs_valid = True\<rparr>"
proof -
  let ?b = "le_bytes32 2 @ le_bytes32 1 @ le_bytes32 9 @ le_bytes64 0x40"
  have r: "le32_at ?b 0 = 2" "le32_at ?b 4 = 1" "le32_at ?b 8 = 9" "le64_at ?b 12 = 0x40"
    by (simp_all add: le32_at_def le64_at_def le_append_left le_append_right le_bytes_read)
  show ?thesis
    using set_vertex_buffers_binds[OF task_sys_wf task_sys_live, of ?b 2] by (simp add: r Let_def)
qed

text \<open>Viewports stay small: whatever doubles the guest sends, including infinities and
  NaNs, the integer viewport a task ends up with is the one it had or has all four
  components at most 16384.\<close>

theorem viewport_bounded:
  assumes "wf_sys s" "op_set_viewport sh k body s = Some (r, s')" "i < 64"
  shows "t_vp (tasks (proto s') ! i) = t_vp (tasks (proto s) ! i) \<or>
     (case t_vp (tasks (proto s') ! i) of (x, y, w, h) \<Rightarrow> x \<le> 16384 \<and> y \<le> 16384 \<and> w \<le> 16384 \<and> h \<le> 16384)"
proof -
  have len: "length (tasks (proto s)) = 64" using assms(1) by (simp add: wf_sys_def wf_tables_def)
  consider "s' = s" | (upd) ox oy w h where "f64_between 1 16384 w" "f64_between 1 16384 h" "f64_between 0 16384 ox" "f64_between 0 16384 oy"
      "s' = s\<lparr>proto := upd_task (unat k) (\<lambda>t. t\<lparr>t_vp := (f64_add_half_u32 ox, f64_add_half_u32 oy,
         f64_add_half_u32 w, f64_add_half_u32 h), t_vp_valid := 1, t_vp_current := 1\<rparr>) (proto s)\<rparr>"
    using assms(2) by (auto simp: op_set_viewport_def on_task_def dest!: live_task_bound split: if_splits option.splits elim!: bind_eq_SomeE)
  then show ?thesis
  proof cases
    case upd
    then show ?thesis
      using f64_add_half_bound[OF upd(1)] f64_add_half_bound[OF upd(2)] f64_add_half_bound[OF upd(3)] f64_add_half_bound[OF upd(4)]
        len assms(3)
      by (cases "i = unat k") (simp_all add: upd_task_def)
  qed simp
qed

theorem viewport_bounded_witness:
  "\<exists>r s'. op_set_viewport ram_shell 0 (replicate 48 255) task_sys = Some (r, s') \<and>
     (t_vp (tasks (proto s') ! 0) = t_vp (tasks (proto task_sys) ! 0) \<or>
      (case t_vp (tasks (proto s') ! 0) of (x, y, w, h) \<Rightarrow> x \<le> 16384 \<and> y \<le> 16384 \<and> w \<le> 16384 \<and> h \<le> 16384))"
proof -
  obtain r s' where s': "op_set_viewport ram_shell 0 (replicate 48 255) task_sys = Some (r, s')"
    using set_viewport.safe[OF task_sys_wf] by blast
  show ?thesis using s' viewport_bounded[OF task_sys_wf s', of 0] by auto
qed

section \<open>Registers\<close>

text \<open>Every register of the file reads back what was last written to it, even when the
  write rang a doorbell and ran commands, and a write changes no other register.\<close>

theorem register_readback:
  assumes "wf_sys s" "doorbell_handle_write sh a v s = Some s'"
    and "doorbell_reg_index a = Some i" "doorbell_reg_index b = Some j" "b \<notin> {0x1014, 0x1018}"
  shows "fst (doorbell_handle_read b s') = (if i = j then v else fst (doorbell_handle_read b s))"
  by (rule shadow_readback[OF assms])

theorem register_readback_witness:
  "\<exists>s'. doorbell_handle_write ram_shell 0x1034 77 root_ring = Some s' \<and> fst (doorbell_handle_read 0x1034 s') = 77"
proof -
  have i: "doorbell_reg_index 0x1034 = Some 13" by (simp add: doorbell_reg_index_def)
  obtain s' where s': "doorbell_handle_write ram_shell 0x1034 77 root_ring = Some s'"
    by (simp add: doorbell_handle_write_def Let_def)
  show ?thesis using register_readback[OF root_ring_wf s' i i] s' by simp
qed

text \<open>A completed stamp is seen exactly once: the next read of the stamp mask has the
  channel's bit, the read after that is empty.\<close>

theorem stamp_seen_once:
  assumes "lagfx_protocol_is_valid (proto s)" "slot < 32"
  shows "case doorbell_handle_read 0x1018 (lagfx_protocol_complete_stamp_slot sh slot stamp s) of
     (v, s') \<Rightarrow> bit v (unat slot) \<and> fst (doorbell_handle_read 0x1018 s') = 0"
proof -
  have "bit (pending_stamps_bitmask (proto s) OR push_bit (unat slot) 1) (unat slot)"
    using assms(2) by (simp add: bit_simps word_less_nat_alt)
  then show ?thesis by (simp add: doorbell_handle_read_def complete_slot_proto[OF assms(1)])
qed

theorem stamp_seen_once_witness:
  "case doorbell_handle_read 0x1018 (lagfx_protocol_complete_stamp_slot ram_shell 3 9 root_ring) of
     (v, s') \<Rightarrow> bit v 3 \<and> fst (doorbell_handle_read 0x1018 s') = 0"
proof -
  have v: "lagfx_protocol_is_valid (proto root_ring)" by (simp add: root_ring_def lagfx_protocol_is_valid_def)
  show ?thesis using stamp_seen_once[OF v, of 3 ram_shell 9] by simp
qed

text \<open>A protocol reset forgets every task and child channel and both ring pointers and
  pending masks, and keeps ring geometry, registers and registered resources.\<close>

theorem reset_forgets:
  assumes "wf_tables p" "lagfx_protocol_is_valid p"
  shows "wf_tables (lagfx_protocol_reset p) \<and> lagfx_protocol_find_task (lagfx_protocol_reset p) k = None \<and>
     lagfx_protocol_find_fifo (lagfx_protocol_reset p) k = None \<and>
     read_ptr (lagfx_protocol_reset p) = 0 \<and> write_ptr (lagfx_protocol_reset p) = 0 \<and>
     pending_stamps_bitmask (lagfx_protocol_reset p) = 0 \<and>
     ring_base_gpa (lagfx_protocol_reset p) = ring_base_gpa p \<and> reg (lagfx_protocol_reset p) = reg p \<and>
     resources (lagfx_protocol_reset p) = resources p"
  using assms
  by (auto simp: lagfx_protocol_reset_def lagfx_protocol_is_valid_def wf_tables_def uniq_by_replicate_dead
      lagfx_protocol_find_task_def lagfx_protocol_find_fifo_def find_index_None_iff)

theorem reset_forgets_witness: "lagfx_protocol_find_task (lagfx_protocol_reset (proto task_sys)) 0 = None"
  using reset_forgets[of "proto task_sys" 0] task_sys_wf
  by (simp add: wf_sys_def task_sys_def lagfx_protocol_is_valid_def upd_task_def)

section \<open>Reading bitcode\<close>

text \<open>C15. Abbreviations work as the bitcode format says: reading the definition of an abbreviation
  written by an encoder appends it to the table, and the record written with its id is read
  back with exactly its code and operands, the cursor standing behind the last bit.\<close>

theorem abbrev_roundtrip:
  assumes "length table < 64" "pat \<noteq> []" "length pat \<le> 64" "list_all valid_abbrev_op pat"
    and "valid_record pat (ucast (code :: u32) # vs)" "length vs < LAGFX_RECORD_MAX_OPS"
    and "before bs (emit_define pat @ emit_record pat (ucast code # vs))"
  shows "\<exists>bs1 bs2. lagfx_abbrev_table_define table bs = Ok (table @ [pat]) bs1 \<and>
     lagfx_abbrev_decode_record (table @ [pat]) (4 + of_nat (length table)) LAGFX_RECORD_MAX_OPS bs1 = Ok (code, vs, None) bs2 \<and>
     bs2 = skip bs (length (emit_define pat @ emit_record pat (ucast code # vs)))"
  using define_then_decode[OF assms(1-6) _ assms(7)] by (auto simp: LAGFX_RECORD_MAX_OPS_def)

theorem abbrev_roundtrip_witness:
  "\<exists>bs1 bs2. lagfx_abbrev_table_define [] (lagfx_bs_init [100, 130, 16, 195, 18, 128, 31]) =
       Ok [[LAGFX_ABBREV_OP_LITERAL 9, LAGFX_ABBREV_OP_FIXED 4, LAGFX_ABBREV_OP_ARRAY, LAGFX_ABBREV_OP_CHAR6]] bs1 \<and>
     lagfx_abbrev_decode_record [[LAGFX_ABBREV_OP_LITERAL 9, LAGFX_ABBREV_OP_FIXED 4, LAGFX_ABBREV_OP_ARRAY, LAGFX_ABBREV_OP_CHAR6]]
       4 LAGFX_RECORD_MAX_OPS bs1 = Ok (9, [5, 97, 95], None) bs2"
proof -
  let ?pat = "[LAGFX_ABBREV_OP_LITERAL 9, LAGFX_ABBREV_OP_FIXED 4, LAGFX_ABBREV_OP_ARRAY, LAGFX_ABBREV_OP_CHAR6]"
  let ?bs = "lagfx_bs_init [100, 130, 16, 195, 18, 128, 31]"
  have "before ?bs (emit_define ?pat @ emit_record ?pat [ucast (9 :: u32), 5, 97, 95])" by code_simp
  moreover have "valid_record ?pat [ucast (9 :: u32), 5, 97, 95]" by code_simp
  moreover have "list_all valid_abbrev_op ?pat" by simp
  moreover have "3 < LAGFX_RECORD_MAX_OPS" by (simp add: LAGFX_RECORD_MAX_OPS_def)
  ultimately show ?thesis using abbrev_roundtrip[of "[]" ?pat 9 "[5, 97, 95]" ?bs] by auto
qed

text \<open>A block of a bitcode module, written by an encoder with abbreviation definitions and
  records of both kinds, is read back item by item: the reader calls its client with exactly
  these events, in order.\<close>

theorem block_roundtrip:
  assumes "valid_items (abbrev_width blk) (blk_abbrevs blk) xs" "before bs (emit_items (abbrev_width blk) (blk_abbrevs blk) xs)"
    and "0 < abbrev_width blk" "abbrev_width blk \<le> 8"
    and "bit_pos bs + length (emit_items (abbrev_width blk) (blk_abbrevs blk) xs) \<le> end_pos blk"
  shows "\<exists>bs'. walk_records f blk st bs = (case run_items f blk st xs of None \<Rightarrow> Fault | Some st' \<Rightarrow> Ok st' bs')"
  by (rule walk_items[OF assms])

theorem block_roundtrip_witness:
  "\<exists>bs'. walk_records (\<lambda>ev _ st. Continue (st @ [ev])) \<lparr>abbrev_width = 3, block_id = 8, end_pos = 24, blk_abbrevs = []\<rparr> []
     (lagfx_bs_init [11, 130, 2]) = Ok [Is_record \<lparr>rec_code = 1, rec_ops = [5], rec_blob = None\<rparr>] bs'"
proof -
  let ?blk = "\<lparr>abbrev_width = 3, block_id = 8, end_pos = 24, blk_abbrevs = []\<rparr> :: lagfx_block"
  have "before (lagfx_bs_init [11, 130, 2]) (emit_items (abbrev_width ?blk) (blk_abbrevs ?blk) [Unabbreviated 1 [5]])" by code_simp
  moreover have "length (emit_items (abbrev_width ?blk) (blk_abbrevs ?blk) [Unabbreviated 1 [5]]) = 24" by code_simp
  ultimately show ?thesis
    using block_roundtrip[of ?blk "[Unabbreviated 1 [5]]" "lagfx_bs_init [11, 130, 2]" "\<lambda>ev _ st. Continue (st @ [ev])" "[]"]
    by (simp add: lagfx_bs_init_def)
qed

text \<open>C17. Decoding an abbreviated record into the 1024 operands of a record returns an error, or a
  record with at most 1024 operands, and the cursor never moves back.  The operand buffer is
  left only when the run comes to an array whose length, added to the number of operands
  already stored, does not fit into 32 bits.\<close>

theorem record_decode_safe:
  "case lagfx_abbrev_decode_record table abbrev_id LAGFX_RECORD_MAX_OPS bs of
     Ok (code, ops, blob) bs' \<Rightarrow> length ops \<le> LAGFX_RECORD_MAX_OPS \<and> bs_buf bs' = bs_buf bs \<and> bit_pos bs \<le> bit_pos bs'
   | Fail bs' \<Rightarrow> bs_buf bs' = bs_buf bs \<and> bit_pos bs \<le> bit_pos bs'
   | Fault \<Rightarrow> unat (abbrev_id - 4) < length table \<and>
       list_ex (\<lambda>(n, len). 2 ^ 32 \<le> n + unat len) (array_reads LAGFX_RECORD_MAX_OPS (table ! unat (abbrev_id - 4)) None [] bs)"
  using decode_record_run[of table abbrev_id LAGFX_RECORD_MAX_OPS bs] fwd_decode_record[of table abbrev_id LAGFX_RECORD_MAX_OPS]
  by (auto simp: LAGFX_RECORD_MAX_OPS_def wrapping_array_def fwd_def fwd_to_def split: outcome.splits dest: spec[of _ bs])

text \<open>Opening a module returns for every input but those whose symbol table holds a nested
  block.\<close>

theorem module_open_returns:
  "(\<exists>r. lagfx_air_module_open blob = Some r) \<or>
   (\<exists>off len. parse_wrapper blob = Some (off, len) \<and> symtab_nested (take len (drop off blob)))"
  using module_open_None[of blob] by (cases "lagfx_air_module_open blob") auto

section \<open>Containers and the cache\<close>

text \<open>C18. Extracting the functions of a Metal library never reads outside the file, whatever it
  contains: at most 1024 functions are counted, the output array is filled up to its
  capacity, and every name and bitcode range lies where it must.\<close>

theorem metallib_extract_safe:
  "\<exists>r. lagfx_metallib_extract_functions buf cap = Some r \<and>
     (case r of Inl e \<Rightarrow> True | Inr (fs, n) \<Rightarrow> n \<le> kMaxEntries \<and> length fs = min cap n \<and> list_all (wf_function buf) fs)"
proof -
  obtain r where "lagfx_metallib_extract_functions buf cap = Some r"
      "\<forall>fs n. r = Inr (fs, n) \<longrightarrow> n \<le> kMaxEntries \<and> length fs = min cap n \<and> list_all (wf_function buf) fs"
    using extract_total by blast
  then show ?thesis by (auto split: sum.split)
qed

text \<open>C19. A library written with the tags of the format gives back its functions in order, each
  with its name, the value of its type field and its bitcode inside the file, cut to the
  capacity of the caller.\<close>

theorem metallib_roundtrip:
  assumes "list_all valid_lib_function fs" "length (lib_bytes fs) < 2 ^ 32" "length fs \<le> kMaxEntries"
    and "concat (map lf_code fs) \<noteq> []"
  shows "\<exists>rs. lagfx_metallib_extract_functions (lib_bytes fs) cap = Some (Inr (take cap rs, length fs)) \<and>
     list_all2 (decodes (lib_bytes fs)) fs rs"
  by (rule extract_emit[OF assms])

theorem metallib_roundtrip_witness:
  "\<exists>rs. lagfx_metallib_extract_functions (lib_bytes [\<lparr>lf_name = ascii ''main'', lf_stage = 1, lf_code = [0xDE, 0xC0], lf_extra = []\<rparr>]) 4 =
       Some (Inr (rs, 1)) \<and> map ml_stage_raw rs = [1] \<and> map ml_bitcode_len rs = [2]"
proof -
  let ?f = "\<lparr>lf_name = ascii ''main'', lf_stage = 1, lf_code = [0xDE, 0xC0], lf_extra = []\<rparr> :: lib_function"
  have "length (lib_bytes [?f]) < 2 ^ 32"
    by (simp add: lib_bytes_def lib_entry_def lib_body_def lib_fields_def emit_field_def)
  moreover have "valid_lib_function ?f" by (simp add: valid_lib_function_def LAGFX_METALLIB_NAME_SIZE_def)
  ultimately obtain rs where rs: "lagfx_metallib_extract_functions (lib_bytes [?f]) 4 = Some (Inr (take 4 rs, length [?f]))"
      "list_all2 (decodes (lib_bytes [?f])) [?f] rs"
    using metallib_roundtrip[of "[?f]" 4] by (auto simp: kMaxEntries_def)
  obtain r where "rs = [r]" "decodes (lib_bytes [?f]) ?f r" using rs(2) by (auto simp: list_all2_Cons1)
  then show ?thesis using rs(1) by (auto simp: decodes_def)
qed

text \<open>C20. The shader cache implements a recency list of bounded length: an insertion puts the key in
  front and drops the least recently used entry when the list is full.  No buffer is lost:
  those still owned and those freed are the old ones and the new one.\<close>

theorem cache_put_refines:
  assumes "wf_cache c" "next_lru c \<noteq> - 1" "spv_bytes v \<noteq> 0"
  shows "\<exists>fr c'. lagfx_shader_cache_put data name stage v c = (LAGFX_OK, fr, c') \<and> wf_cache c' \<and>
     cache_abs c' = lru_put (max_entries c) (make_key data name stage) v (cache_abs c) \<and>
     mset (lagfx_shader_cache_close c') + mset fr = mset (lagfx_shader_cache_close c) + {#spv_bytes v#}"
  using put_refines[OF assms] by (cases "lagfx_shader_cache_put data name stage v c") blast

theorem cache_put_refines_witness:
  "\<exists>fr c'. lagfx_shader_cache_put [1, 2] (ascii ''main'') LAGFX_SHADER_STAGE_VERTEX \<lparr>spv_bytes = 7, spv_len = 20, spv_stage = LAGFX_SHADER_STAGE_VERTEX\<rparr>
       (lagfx_shader_cache_new 2) = (LAGFX_OK, fr, c') \<and>
     map snd (cache_abs c') = [\<lparr>spv_bytes = 7, spv_len = 20, spv_stage = LAGFX_SHADER_STAGE_VERTEX\<rparr>]"
proof -
  let ?v = "\<lparr>spv_bytes = 7, spv_len = 20, spv_stage = LAGFX_SHADER_STAGE_VERTEX\<rparr>" and ?c = "lagfx_shader_cache_new 2"
  have c: "wf_cache ?c" "next_lru ?c \<noteq> - 1" "cache_abs ?c = []" "spv_bytes ?v \<noteq> 0"
    by (rule wf_cache_new, simp) (simp_all add: lagfx_shader_cache_new_def cache_abs_def recency_of_def sc_live_def Let_def)
  show ?thesis
    using cache_put_refines[OF c(1,2,4), of "[1, 2]" "ascii ''main''" LAGFX_SHADER_STAGE_VERTEX]
    by (auto simp: c(3) lru_put_def)
qed

text \<open>C27. A lookup returns what the recency list holds and moves the key to the front; a key that is
  not there is reported as not found and changes nothing of the list.\<close>

theorem cache_get_refines:
  assumes "wf_cache c" "next_lru c \<noteq> - 1"
  shows "\<exists>r c'. lagfx_shader_cache_get data name stage c = (r, c') \<and> wf_cache c' \<and>
     cache_abs c' = snd (lru_get (make_key data name stage) (cache_abs c)) \<and>
     r = (case fst (lru_get (make_key data name stage) (cache_abs c)) of None \<Rightarrow> Inl LAGFX_ERR_NOT_FOUND | Some v \<Rightarrow> Inr v)"
  using get_refines(1,3,4)[OF assms] by (cases "lagfx_shader_cache_get data name stage c") blast

theorem cache_get_refines_witness:
  "\<exists>c c'. lagfx_shader_cache_put [1, 2] (ascii ''main'') LAGFX_SHADER_STAGE_VERTEX \<lparr>spv_bytes = 7, spv_len = 20, spv_stage = LAGFX_SHADER_STAGE_VERTEX\<rparr>
       (lagfx_shader_cache_new 2) = (LAGFX_OK, [], c) \<and>
     lagfx_shader_cache_get [1, 2] (ascii ''main'') LAGFX_SHADER_STAGE_VERTEX c =
       (Inr \<lparr>spv_bytes = 7, spv_len = 20, spv_stage = LAGFX_SHADER_STAGE_VERTEX\<rparr>, c')"
proof -
  let ?v = "\<lparr>spv_bytes = 7, spv_len = 20, spv_stage = LAGFX_SHADER_STAGE_VERTEX\<rparr>" and ?n = "lagfx_shader_cache_new 2"
  let ?put = "lagfx_shader_cache_put [1, 2] (ascii ''main'') LAGFX_SHADER_STAGE_VERTEX ?v ?n"
  have n: "wf_cache ?n" "next_lru ?n = 1" "cache_abs ?n = []" "lagfx_shader_cache_close ?n = []" "spv_bytes ?v \<noteq> 0"
    by (rule wf_cache_new, simp)
       (simp_all add: lagfx_shader_cache_new_def cache_abs_def recency_of_def sc_live_def lagfx_shader_cache_close_def Let_def)
  obtain st fr c where p: "?put = (st, fr, c)" by (cases ?put)
  note r = put_refines[OF n(1) _ n(5) p, unfolded n, simplified]
  have fr: "fr = []" using r p
    by (auto simp: lagfx_shader_cache_put_def fill_slot_def find_entry_def lagfx_shader_cache_new_def Let_def split: if_splits)
  have "next_lru c \<noteq> - 1" using r by simp
  then show ?thesis
    using cache_get_refines[of c "[1, 2]" "ascii ''main''" LAGFX_SHADER_STAGE_VERTEX] r p fr
    by (auto simp: lru_put_def lru_get_def)
qed

section \<open>Rewriting bitcode and SPIR-V\<close>

text \<open>C22. In a blob whose matches are regular, the retargeting works on exactly the triples of the
  documented form.  It replaces each of them by the SPIR-V triple and keeps all other bytes;
  when all triples are long enough the size is kept by padding.  It refuses input without
  the wrapper magic and input without a triple; its result contains no triple, so a second
  run refuses it.\<close>

theorem retarget_replaces_triples:
  assumes "regular_triples buf"
  shows "(\<forall>i < length buf. case span_of (drop i buf) of
       None \<Rightarrow> \<forall>n. \<not> documented_triple (drop i buf) n | Some n \<Rightarrow> documented_triple (drop i buf) n) \<and>
     lagfx_bitcode_retarget_to_spirv buf = Some (
       if \<not> has_wrapper buf then Inl LAGFX_ERR_INVALID_ARG
       else if spans buf = [] then Inl LAGFX_ERR_PROTOCOL
       else if list_all (\<lambda>n. 24 \<le> n) (spans buf) then Inr (subst_spans pad_span buf)
       else Inr (subst_spans replace_span buf)) \<and>
     (case lagfx_bitcode_retarget_to_spirv buf of
        Some (Inr out) \<Rightarrow> spans out = [] \<and> lagfx_bitcode_retarget_to_spirv out = Some (Inl LAGFX_ERR_PROTOCOL)
      | _ \<Rightarrow> True)"
proof -
  have "spans out = [] \<and> lagfx_bitcode_retarget_to_spirv out = Some (Inl LAGFX_ERR_PROTOCOL)"
    if "lagfx_bitcode_retarget_to_spirv buf = Some (Inr out)" for out
    using retarget_clean[OF that] retarget_again[OF that] by blast
  then show ?thesis using regular_spans[OF assms]
    by (intro conjI retarget_eq) (auto split: option.split sum.split)
qed

theorem retarget_replaces_triples_witness:
  "lagfx_bitcode_retarget_to_spirv ([0xDE, 0xC0, 0x17, 0x0B] @ ascii ''air64_v28-apple-macosx26.3.0'' @ [0, 7]) =
     Some (Inr ([0xDE, 0xC0, 0x17, 0x0B] @ ascii ''spir64-unknown-vulkan1.3'' @ [0, 0, 0, 0, 0, 7]))"
proof -
  let ?b = "[0xDE, 0xC0, 0x17, 0x0B] @ ascii ''air64_v28-apple-macosx26.3.0'' @ [0, 7]"
  have "regular_triples ?b" "has_wrapper ?b" "spans ?b = [28]" by code_simp+
  moreover have "subst_spans pad_span ?b = [0xDE, 0xC0, 0x17, 0x0B] @ ascii ''spir64-unknown-vulkan1.3'' @ [0, 0, 0, 0, 0, 7]" by code_simp
  ultimately show ?thesis using retarget_replaces_triples[of ?b] by simp
qed

text \<open>C21. A sequence of emissions of bounded size is accepted by the SPIR-V builder exactly when no
  local variable comes before the first mark.  The finished module then decodes to the
  emitted instructions, each of them once, arranged by section, with the local variables of
  each function at its start.\<close>

theorem builder_decodes:
  assumes "list_all (\<lambda>x. length (op_words x) < 65536) ops" "length (concat (map op_words ops)) \<le> 2 ^ 31"
  shows "case run_ops ops (lagfx_spv_builder_create n) of
       None \<Rightarrow> \<not> locals_marked False ops
     | Some b \<Rightarrow> locals_marked False ops \<and>
         (\<exists>spv. lagfx_spv_builder_finish b = Some spv \<and> spv_module spv \<and> instrs_of spv = map op_instr (arrange ops) \<and>
            mset (instrs_of spv) = mset (map op_instr (filter (\<lambda>x. x \<noteq> Mark_locals) ops)))"
proof -
  have z: "body_words (lagfx_spv_builder_create n) = 0" "segs (lagfx_spv_builder_create n) = []"
    by (simp_all add: body_words_def lagfx_spv_builder_create_def)
  show ?thesis
  proof (cases "run_ops ops (lagfx_spv_builder_create n)")
    case None
    then show ?thesis using run_ops_returns[OF wf_create, of n ops] assms(2) z by auto
  next
    case (Some b)
    have m: "locals_marked False ops" using run_ops_marked[OF Some] z(2) by simp
    obtain spv where "lagfx_spv_builder_finish b = Some spv" "spv_module spv" "instrs_of spv = map op_instr (arrange ops)"
      using finish_decodes[OF Some assms(1)] by blast
    then show ?thesis using m arrange_mset[OF m] Some by simp
  qed
qed

theorem builder_decodes_witness:
  "\<exists>b spv. run_ops [Emit_op 54 [2, 4, 0, 3], Mark_locals, Emit_op 56 [], Local_var 7 8, Emit_op 17 [1]] (lagfx_spv_builder_create 0) = Some b \<and>
     lagfx_spv_builder_finish b = Some spv \<and> instrs_of spv = [(17, [1]), (54, [2, 4, 0, 3]), (59, [7, 8, 7]), (56, [])]"
proof -
  let ?ops = "[Emit_op 54 [2, 4, 0, 3], Mark_locals, Emit_op 56 [], Local_var 7 8, Emit_op 17 [1]]"
  have "locals_marked False ?ops" by code_simp
  moreover have "map op_instr (arrange ?ops) = [(17, [1]), (54, [2, 4, 0, 3]), (59, [7, 8, 7]), (56, [])]" by code_simp
  ultimately show ?thesis using builder_decodes[of ?ops 0]
    by (auto simp: local_var_words_def split: option.splits)
qed

text \<open>Rewinding to a snapshot drops the function code and local variables emitted since, and
  keeps the ids, the capabilities, the annotations and the types.\<close>

theorem rewind_drops_body:
  assumes "wf_builder b0" "run_ops ops b0 = Some b" "length (segs b) < 2 ^ 32"
  shows "\<exists>b'. lagfx_spv_builder_funcs_rewind (lagfx_spv_builder_funcs_snapshot b0) b = b' \<and> wf_builder b' \<and>
     fun_abs b' = fun_abs b0 \<and> next_id b' = next_id b \<and>
     sec b' SEC_CAPS = sec b SEC_CAPS \<and> sec b' SEC_PREAMBLE = sec b SEC_PREAMBLE \<and>
     sec b' SEC_ANNOT = sec b SEC_ANNOT \<and> sec b' SEC_TYPES = sec b SEC_TYPES"
proof -
  have "wf_builder b" using run_ops_effect[OF assms(1,2)] by simp
  note r = rewind_restores[OF assms(1) this run_ops_continues[OF assms(2)] assms(3)]
  then show ?thesis by (auto simp: fun_abs_def marks_def)
qed

theorem rewind_drops_body_witness:
  "\<exists>b b'. run_ops [Emit_op 17 [1], Emit_op 248 [9]] (lagfx_spv_builder_create 0) = Some b \<and>
     lagfx_spv_builder_funcs_rewind (lagfx_spv_builder_funcs_snapshot (lagfx_spv_builder_create 0)) b = b' \<and>
     flatten (fun_abs b) = [0x200F8, 9] \<and> flatten (fun_abs b') = []"
proof -
  let ?ops = "[Emit_op 17 [1], Emit_op 248 [9]]" and ?c = "lagfx_spv_builder_create 0"
  obtain b where b: "run_ops ?ops ?c = Some b"
    using run_ops_returns[OF wf_create, of 0 ?ops] by (auto simp: body_words_def lagfx_spv_builder_create_def is_local_def)
  have c: "fun_abs ?c = ([], [])" "segs ?c = []" by (simp_all add: lagfx_spv_builder_create_def fun_abs_def marks_def)
  note e = run_ops_effect[OF wf_create b]
  have "segs b = []" using b by (auto simp: lagfx_spv_builder_emit_op_def Let_def bind_eq_Some_conv set_sec_def lagfx_spv_builder_create_def)
  moreover have "flatten (fold stream_op ?ops ([], [])) = [0x200F8, 9]" by code_simp
  then have "flatten (fun_abs b) = [0x200F8, 9]" using e by (simp only: c)
  ultimately show ?thesis using rewind_drops_body[OF wf_create b] b by (auto simp: c flatten_def)
qed

text \<open>C39. Relocating bindings adds the base to the operand of every Binding decoration and changes
  nothing else of the module.\<close>

theorem offset_bindings_exact:
  assumes "spv_module spv"
  shows "\<exists>spv'. lagfx_spv_offset_bindings base spv = Some spv' \<and> length spv' = length spv \<and>
     take 5 (spv_words spv') = take 5 (spv_words spv) \<and>
     instrs_of spv' = map (\<lambda>(opc, args). (opc, shift_args base opc args)) (instrs_of spv)"
  by (rule offset_bindings_instrs[OF assms])

theorem offset_bindings_exact_witness:
  "\<exists>spv'. lagfx_spv_offset_bindings 16 (words_bytes [SPV_MAGIC, 0x10400, 0, 9, 0, 0x40047, 5, 33, 2, 0x40047, 5, 34, 0]) = Some spv' \<and>
     instrs_of spv' = [(71, [5, 33, 18]), (71, [5, 34, 0])]"
proof -
  let ?spv = "words_bytes [SPV_MAGIC, 0x10400, 0, 9, 0, 0x40047, 5, 33, 2, 0x40047, 5, 34, 0]"
  have w: "spv_words ?spv = [SPV_MAGIC, 0x10400, 0, 9, 0, 0x40047, 5, 33, 2, 0x40047, 5, 34, 0]"
    unfolding words_bytes_def by (rule spv_words_bytes)
  have "length ?spv = 52" unfolding length_words_bytes by simp
  then have "spv_module ?spv" by (simp add: spv_module_def w)
  moreover have "map (\<lambda>(opc, args). (opc, shift_args 16 opc args)) (instrs_of ?spv) = [(71, [5, 33, 18]), (71, [5, 34, 0])]"
    unfolding instrs_of_def w by code_simp
  ultimately show ?thesis using offset_bindings_exact[of ?spv 16] by auto
qed



text \<open>C24. The signature transform refuses what its scan refuses and a module without memory model;
  otherwise, when the module does not grow by more than the room it reserves, it produces a
  module without kernel capabilities, kernel decorations and lifetime markers in which the
  entry function has the void function type, no parameters and no return of a value.\<close>

theorem signature_transform_exact:
  assumes "spv_module buf" "length buf mod 4 = 0" "name \<noteq> []" "0 \<notin> set name" "length name < 65536" "growth buf \<le> 539"
  shows "case lagfx_spv_signature_transform buf name stage of
     None \<Rightarrow> False
   | Some (Inl e) \<Rightarrow>
       (case scan_module (spv_words buf) name of
          Some (Inl e') \<Rightarrow> e = e'
        | _ \<Rightarrow> e = LAGFX_ERR_PROTOCOL \<and> 14 \<notin> fst ` set (instrs_of buf))
   | Some (Inr out) \<Rightarrow> spv_module out \<and> (\<forall>x \<in> set (instrs_of out). \<not> kernel_only x) \<and>
       (\<exists>s void void_fn. scan_module (spv_words buf) name = Some (Inr s) \<and> (33, [void_fn, void]) \<in> set (instrs_of out) \<and>
          (54, [void, sg_fn_id s, 0, void_fn]) \<in> set (instrs_of out) \<and>
          entry_void (sg_fn_id s) void void_fn False (instrs_of out))"
proof (cases "\<exists>out. lagfx_spv_signature_transform buf name stage = Some (Inr out)")
  case True
  then obtain out where out: "lagfx_spv_signature_transform buf name stage = Some (Inr out)" by blast
  obtain s ids f st where
    s: "scan_module (spv_words buf) name = Some (Inr s)" "scan_ok (spv_words buf) s" "plan_synth_ids s (sg_bound s) = (ids, f)"
      "spv_module out" "spv_words out ! 3 = ss_next st"
      and run: "sig_run (sig_instr (spv_words buf) name stage s ids) (instrs_of buf) (sig_start f) = (instrs_of out, st)"
      and z: "ss_zone_a st" by (rule transform_output[OF out assms(1,4,5)])
  have ok: "stream_ok (drop 5 (spv_words buf))" using s(2) by (simp add: scan_ok_def)
  have "\<not> kernel_only x" if "x \<in> set (instrs_of out)" for x using run_output[OF ok run that] injected_clean by blast
  moreover have "(33, [sy_void_fn_type_id ids, sy_void_id ids]) \<in> set (instrs_of out)"
    using output_spliced[OF s(2) refl run z] by (auto simp: pre_function_def emit_type_function_void_def)
  moreover have "entry_void (sg_fn_id s) (sy_void_id ids) (sy_void_fn_type_id ids) False (instrs_of out)"
    using run_entry_void[OF ok run] by (simp add: sig_start_def)
  moreover have "(54, [sy_void_id ids, sg_fn_id s, 0, sy_void_fn_type_id ids]) \<in> set (instrs_of out)"
    using s(2) run_entry_kept[OF ok run] unfolding scan_ok_def instrs_of_def[symmetric] by blast
  ultimately show ?thesis unfolding out option.case sum.case using s(1,4) by blast
next
  case False
  from transform_eq[OF assms(1-4), of stage] show ?thesis
  proof (elim disjE exE conjE)
    fix s "is" st
    assume s: "scan_module (spv_words buf) name = Some (Inr s)" "scan_ok (spv_words buf) s" "sig_result buf name stage s = (is, st)"
      and t: "lagfx_spv_signature_transform buf name stage =
         (if 5 + length (insn_words is) > length (spv_words buf) + sig_slack name then None
          else if \<not> ss_zone_a st then Some (Inl LAGFX_ERR_PROTOCOL)
          else Some (Inr (words_bytes ((take 5 (spv_words buf))[3 := ss_next st] @ insn_words is))))"
    have ok: "stream_ok (drop 5 (spv_words buf))" using s(2) by (simp add: scan_ok_def)
    obtain ids f where "plan_synth_ids s (sg_bound s) = (ids, f)" by force
    then have "ss_zone_a st \<longleftrightarrow> 14 \<in> fst ` set (instrs_of buf)"
      using run_flags[OF ok, of name stage s ids "instrs_of buf" "sig_start f"] s(3) by (simp add: sig_result_def sig_start_def)
    moreover have "5 \<le> length (spv_words buf)" using assms(1) div_le_mono[of 20 "length buf" 4] by (simp add: spv_module_def)
    ultimately show ?thesis using False t s(1) result_fits[OF s(2) _ s(3) assms(6)] by (auto split: if_splits)
  qed simp
qed

theorem signature_transform_exact_witness:
  "\<exists>out. lagfx_spv_signature_transform (words_bytes sample_sig) [0x76] 0 = Some (Inr out) \<and> spv_module out \<and>
     (\<forall>x \<in> set (instrs_of out). \<not> kernel_only x) \<and>
     (\<exists>void void_fn. (54, [void, 4, 0, void_fn]) \<in> set (instrs_of out) \<and> entry_void 4 void void_fn False (instrs_of out))"
proof -
  let ?b = "words_bytes sample_sig"
  have w: "spv_module ?b" "length ?b mod 4 = 0" "spv_words ?b = sample_sig" by (intro words_module; simp add: sample_sig_facts)+
  have g: "growth ?b \<le> 539" by (simp add: growth_def instrs_of_def w(3) sample_sig_facts(4))
  have "14 \<in> fst ` set (instrs_of ?b)" using sample_sig_facts(3) by (simp add: instrs_of_def w(3))
  moreover have "sg_fn_id sample_scan = 4" by (simp add: sample_scan_def)
  ultimately show ?thesis using signature_transform_exact[OF w(1,2) _ _ _ g, of "[0x76]" 0]
    by (cases "lagfx_spv_signature_transform ?b [0x76] 0") (auto simp: w(3) sample_sig_facts(1) split: sum.splits)
qed

text \<open>C25. The entry point that the signature transform declares names, in this order, one output
  variable for each member of the result and one input variable for each parameter of the
  function.  The variables are distinct ids that the module did not use before and lie below
  the new bound; each is declared with a pointer to the type of its member or parameter, of
  storage class Output or Input.  The first output of a vertex shader is decorated as
  BuiltIn Position and the others with the locations from 0 on; the outputs of a fragment
  shader have their index as location.\<close>

theorem signature_interface:
  assumes "lagfx_spv_signature_transform buf name stage = Some (Inr out)" "spv_module buf" "0 \<notin> set name" "length name < 65536"
    and "unat (spv_words buf ! 3) + 36 + 8 * value_returns (instrs_of buf) < 2 ^ 32"
  shows "\<exists>s outs ins. scan_module (spv_words buf) name = Some (Inr s) \<and>
     emit_entry_point stage (sg_fn_id s) name (outs @ ins) \<in> set (instrs_of out) \<and>
     length outs = length (sg_ret_member_types s) \<and> length ins = length (sg_param_types s) \<and> distinct (outs @ ins) \<and>
     (\<forall>v \<in> set (outs @ ins). spv_words buf ! 3 \<le> v \<and> v < spv_words out ! 3) \<and>
     (\<forall>k < length outs. declared_as (instrs_of out) 3 (sg_ret_member_types s ! k) (outs ! k) \<and>
        output_decoration stage k (outs ! k) \<in> set (instrs_of out)) \<and>
     (\<forall>k < length ins. declared_as (instrs_of out) 1 (sg_param_types s ! k) (ins ! k))"
proof -
  obtain s ids f st where
    s: "scan_module (spv_words buf) name = Some (Inr s)" "scan_ok (spv_words buf) s" "plan_synth_ids s (sg_bound s) = (ids, f)"
      "spv_module out" "spv_words out ! 3 = ss_next st"
      and run: "sig_run (sig_instr (spv_words buf) name stage s ids) (instrs_of buf) (sig_start f) = (instrs_of out, st)"
      and z: "ss_zone_a st" by (rule transform_output[OF assms(1-4)])
  have ok: "stream_ok (drop 5 (spv_words buf))" "sg_bound s = spv_words buf ! 3" using s(2) by (simp_all add: scan_ok_def)
  note sp = output_spliced[OF s(2) refl run z] and l = plan_lengths[OF s(3)]
  have e: "emit_entry_point stage (sg_fn_id s) name (sig_iface ids) \<in> set (instrs_of out)" using sp by (auto simp: zone_a_def)
  have "distinct (sig_iface ids) \<and> (\<forall>v \<in> set (sig_iface ids). spv_words buf ! 3 \<le> v \<and> v < ss_next st)"
    by (rule iface_fresh[OF s(2,3) run assms(5)])
  then show ?thesis using s(1,5) e l iface_declared[OF s(3), of "instrs_of out" stage] sp
    by (intro exI[of _ s] exI[of _ "map snd (sy_outs ids)"] exI[of _ "map snd (sy_ins ids)"]) (simp add: sig_iface_def)
qed

theorem signature_interface_witness:
  "\<exists>out v w. lagfx_spv_signature_transform (words_bytes sample_sig) [0x76] 0 = Some (Inr out) \<and>
     emit_entry_point 0 4 [0x76] [v, w] \<in> set (instrs_of out) \<and> v \<noteq> w \<and> 7 \<le> v \<and> 7 \<le> w \<and>
     declared_as (instrs_of out) 3 1 v \<and> (71, [v, 11, 0]) \<in> set (instrs_of out) \<and> declared_as (instrs_of out) 1 1 w"
proof -
  let ?b = "words_bytes sample_sig"
  have w: "spv_module ?b" "length ?b mod 4 = 0" "spv_words ?b = sample_sig" by (intro words_module; simp add: sample_sig_facts)+
  obtain out where o: "lagfx_spv_signature_transform ?b [0x76] 0 = Some (Inr out)" using sample_sig_returns by blast
  have b: "sample_sig ! 3 = 7" by (simp add: sample_sig_def)
  have u: "unat (spv_words ?b ! 3) + 36 + 8 * value_returns (instrs_of ?b) < 2 ^ 32"
    by (simp add: w(3) b instrs_of_def sample_sig_facts(5))
  have s: "sg_fn_id sample_scan = 4" "sg_ret_member_types sample_scan = [1]" "sg_param_types sample_scan = [1]"
    by (simp_all add: sample_scan_def)
  from signature_interface[OF o w(1) _ _ u] obtain outs ins where
    e: "emit_entry_point 0 4 [0x76] (outs @ ins) \<in> set (instrs_of out)" "length outs = 1" "length ins = 1" "distinct (outs @ ins)"
      "\<forall>v \<in> set (outs @ ins). 7 \<le> v" "declared_as (instrs_of out) 3 1 (outs ! 0)" "output_decoration 0 0 (outs ! 0) \<in> set (instrs_of out)"
      "declared_as (instrs_of out) 1 1 (ins ! 0)"
    by (auto simp: w(3) b sample_sig_facts(1) s)
  obtain v x where "outs = [v]" "ins = [x]" using e(2,3) by (auto simp: length_Suc_conv)
  then show ?thesis using o e(1,4-8) by (auto simp: output_decoration_def)
qed

text \<open>The buffer of the signature transform reserves room for one return of each member only: a
  function that returns a structure of eight members at twelve places makes it write behind
  the end.\<close>

theorem signature_overflow:
  "spv_module (words_bytes many_returns) \<and> scan_module (spv_words (words_bytes many_returns)) [0x76] = Some (Inr many_scan) \<and>
   value_returns (instrs_of (words_bytes many_returns)) = 12 \<and>
   lagfx_spv_signature_transform (words_bytes many_returns) [0x76] 0 = None"
proof -
  let ?b = "words_bytes many_returns"
  have w: "spv_module ?b" "length ?b mod 4 = 0" "spv_words ?b = many_returns" by (intro words_module; simp add: sample_sig_facts)+
  obtain ids f where p: "plan_synth_ids many_scan 7 = (ids, f)" by force
  obtain "is" st where r: "sig_run (sig_instr many_returns [0x76] 0 many_scan ids) (decode_instrs (drop 5 many_returns)) (sig_start f) = (is, st)"
    by force
  have "sg_bound many_scan = 7" by (simp add: many_scan_def)
  then have "sig_result ?b [0x76] 0 many_scan = (is, st)" using p r by (simp add: sig_result_def instrs_of_def w(3))
  moreover have "850 < 5 + length (insn_words is)" using many_returns_run p r by simp
  moreover have "length many_returns + sig_slack [0x76] = 850"
    by (simp add: sample_sig_facts sig_slack_def MAX_PARAMS_def MAX_STRUCT_MEMBERS_def)
  ultimately have "lagfx_spv_signature_transform ?b [0x76] 0 = None"
    using transform_eq[OF w(1,2), of "[0x76]" 0] by (auto simp: w(3) sample_sig_facts(2))
  then show ?thesis using w by (simp add: sample_sig_facts instrs_of_def)
qed

section \<open>Translating shaders\<close>

text \<open>C26. Each of the fourteen reference shaders the emitters build is a well-typed SPIR-V module:
  ids are defined before use and below the bound, every instruction fits the types of its
  operands, and blocks and functions are closed.\<close>

theorem reference_shaders_valid:
  "list_all emits_valid
     [lagfx_air2spv_emit_alu_binops_stub, lagfx_air2spv_emit_buffer_load_stub, lagfx_air2spv_emit_constant_float_stub,
      lagfx_air2spv_emit_control_flow_stub, lagfx_air2spv_emit_extinst_glsl_stub, lagfx_air2spv_emit_fragment_input_stub,
      lagfx_air2spv_emit_loop_stub, lagfx_air2spv_emit_position_stub, lagfx_air2spv_emit_render_target_stub,
      lagfx_air2spv_emit_storage_image_stub, lagfx_air2spv_emit_texture_sample_stub, lagfx_air2spv_emit_unop_stub,
      lagfx_air2spv_emit_vector_shuffle_stub, lagfx_air2spv_emit_vertex_id_stub]"
  by (simp add: valid_alu_binops valid_buffer_load valid_constant_float valid_control_flow valid_extinst_glsl valid_fragment_input
      valid_loop valid_position valid_render_target valid_storage_image valid_texture_sample valid_unop valid_vector_shuffle valid_vertex_id)

text \<open>Translating a module whose functions can be read, with a translation of function bodies
  that yields valid modules when it succeeds, returns a valid module for every vertex and
  fragment shader, falling back to a reference shader, and refuses modules of unknown stage.\<close>

theorem translate_module_valid_or_refused:
  assumes "\<And>i. i < m_num_functions m \<Longrightarrow> m_function m i \<noteq> None"
    and "\<And>i spv. translate_function m i (discover_stage m) = Inr spv \<Longrightarrow> emits_valid (Some spv)"
  shows "\<exists>r. lagfx_air2spv_translate_module translate_function m = Some r \<and>
     (case r of Inl e \<Rightarrow> e = LAGFX_ERR_PROTOCOL \<and> discover_stage m = LAGFX_TRANS_STAGE_UNKNOWN
              | Inr spv \<Rightarrow> emits_valid (Some spv) \<and> discover_stage m \<noteq> LAGFX_TRANS_STAGE_UNKNOWN)"
  by (rule translate_module_valid) (fact assms)+

theorem translate_module_valid_or_refused_witness:
  "\<exists>spv. lagfx_air2spv_translate_module (\<lambda>_ _ _. case lagfx_air2spv_emit_vertex_id_stub of None \<Rightarrow> Inl LAGFX_ERR_PROTOCOL | Some spv \<Rightarrow> Inr spv)
       sample_air = Some (Inr spv) \<and> emits_valid (Some spv)"
proof -
  let ?x = "\<lambda>_ _ _. case lagfx_air2spv_emit_vertex_id_stub of None \<Rightarrow> Inl LAGFX_ERR_PROTOCOL | Some spv \<Rightarrow> Inr spv"
  have "m_function sample_air i \<noteq> None" if "i < m_num_functions sample_air" for i using that sample_air_facts(3,4) by simp
  moreover have "emits_valid (Some spv)" if "?x sample_air i (discover_stage sample_air) = Inr spv" for i :: nat and spv
    using that valid_vertex_id by (auto split: option.splits)
  ultimately obtain r where "lagfx_air2spv_translate_module ?x sample_air = Some r"
      "case r of Inl e \<Rightarrow> discover_stage sample_air = LAGFX_TRANS_STAGE_UNKNOWN | Inr spv \<Rightarrow> emits_valid (Some spv)"
    using translate_module_valid_or_refused[of sample_air ?x] by (fastforce split: sum.splits)
  then show ?thesis by (auto simp: sample_air_facts split: sum.splits)
qed

text \<open>The external translation never succeeds: its templates for temporary files do not end in
  six X, which the documented behaviour of mkstemp refuses.\<close>

theorem translate_run_never_succeeds:
  assumes "mkstemp_law os" "lagfx_shader_translate_run os lib name stage w = Some (r, w')"
  shows "\<exists>e. r = Inl e"
  by (rule translate_run_fails[OF assms])

theorem translate_run_never_succeeds_witness:
  "\<exists>e w'. lagfx_shader_translate_run sample_os sample_lib (ascii ''main'') LAGFX_SHADER_STAGE_VERTEX () = Some (Inl e, w')"
proof -
  from translate_run_never_succeeds[OF sample_os_law sample_run] show ?thesis by (auto simp: sample_run)
qed

text \<open>The argument bindings of a module with valid metadata pointers are those of the operands
  of the argument list its entry point names, in order and cut to the capacity.\<close>

theorem arg_bindings_in_order:
  assumes "md_all_valid m"
  shows "lagfx_air_arg_bindings m cap = Some (take cap (binding_list m (entry_args m)))"
  by (rule arg_bindings_eq[OF assms])

theorem arg_bindings_in_order_witness: "lagfx_air_arg_bindings sample_air 8 = Some [\<lparr>ab_kind = 1, ab_metal_index = - 1\<rparr>]"
  using arg_bindings_in_order[OF sample_air_facts(1), of 8] by (simp add: sample_air_facts)

section \<open>Translating function bodies\<close>

text \<open>C28. Cutting a body into basic blocks succeeds exactly when its last instruction is a terminator
  and there are not too many; the result is the only sequence of numbered blocks that covers
  the body and has every terminator at the end of a block.\<close>

theorem basic_blocks_exact:
  "(partition_basic_blocks insts m \<noteq> [] \<longleftrightarrow>
      insts \<noteq> [] \<and> inst_is_terminator (inst_code (last insts)) \<and> terminators insts \<le> m) \<and>
   (partition_basic_blocks insts m \<noteq> [] \<longrightarrow>
      bb_chain insts 0 (partition_basic_blocks insts m) (length insts) \<and>
      map bb_index (partition_basic_blocks insts m) = [0..<terminators insts] \<and>
      (\<forall>bbs. bb_chain insts 0 bbs (length insts) \<and> map bb_index bbs = [0..<length bbs] \<longrightarrow> bbs = partition_basic_blocks insts m))"
proof -
  have "bbs = partition_basic_blocks insts m"
    if "partition_basic_blocks insts m \<noteq> []" "bb_chain insts 0 bbs (length insts)" "map bb_index bbs = [0..<length bbs]" for bbs
  proof -
    note p = partition_cases(2)[OF that(1)]
    have "length (partition_basic_blocks insts m) = terminators insts" using p by (metis length_map length_upt minus_nat.diff_0)
    then show ?thesis using bb_chain_unique[OF that(2) conjunct1[OF p], of 0] that(3) p by simp
  qed
  then show ?thesis using partition_cases by blast
qed

theorem basic_blocks_exact_witness:
  "bb_chain loop_body 0 (partition_basic_blocks loop_body 8) 5 \<and> map bb_index (partition_basic_blocks loop_body 8) = [0, 1, 2]"
proof -
  have "[0..<3] = [0, 1, 2::nat]" by (simp add: upt_rec)
  then show ?thesis using basic_blocks_exact[of loop_body 8] loop_body_facts(1-3) by simp
qed

text \<open>C29. Recognising loops never reads outside the body, and what it recognises is there: three blocks,
  an entry that goes to the header or is guarded, a header that starts with a phi and branches
  to itself or to the block that returns.  No body has both shapes.\<close>

theorem loop_plans_sound:
  "\<exists>p q. detect_simple_loop insts = Some p \<and> detect_guarded_loop insts = Some q \<and>
     (lp_valid p \<longrightarrow> simple_loop insts (partition_basic_blocks insts 8) p) \<and>
     (gp_valid q \<longrightarrow> guarded_loop insts (partition_basic_blocks insts 8) q) \<and> \<not> (lp_valid p \<and> gp_valid q)"
  using detect_simple_sound[of insts] detect_guarded_sound[of insts] loop_shapes_disjoint by metis

theorem loop_plans_sound_witness:
  "\<exists>p. detect_simple_loop loop_body = Some p \<and> simple_loop loop_body (partition_basic_blocks loop_body 8) p \<and> lp_header_bb p = 1 \<and>
     (\<exists>q. detect_guarded_loop loop_body = Some q \<and> \<not> gp_valid q)"
proof -
  obtain p q where "detect_simple_loop loop_body = Some p" "detect_guarded_loop loop_body = Some q"
      "lp_valid p \<longrightarrow> simple_loop loop_body (partition_basic_blocks loop_body 8) p" "\<not> (lp_valid p \<and> gp_valid q)"
    using loop_plans_sound[of loop_body] by blast
  moreover from this(1) have "lp_valid p" "lp_header_bb p = 1" using loop_body_facts(4) by auto
  ultimately show ?thesis by blast
qed

text \<open>C30. The offsets of the members of a buffer block respect the alignment of every member and do not
  overlap, and the size the type reports covers all of them, as long as sizes and alignments
  together fit 31 bits.\<close>

theorem block_members_disjoint:
  assumes "unat ty < length ts" "is_struct_kind (ty_kind (ts ! unat ty))" "member_offsets ts (drop 1 (ty_op (ts ! unat ty))) 0 = Some (Some os)"
    and "list_all2 (\<lambda>f p. air_type_size_align ts f = Some (Some p)) (drop 1 (ty_op (ts ! unat ty))) ps" "room ps < 2 ^ 31"
  shows "\<exists>size align. air_type_size_align ts ty = Some (Some (size, align)) \<and> laid_out 0 ps os (unat size)"
proof -
  define fs where "fs = drop 1 (ty_op (ts ! unat ty))"
  obtain e where e: "place ps 0 = (os, e)" using assms(3) member_offsets_place[OF assms(4), of 0] by (cases "place ps 0") simp
  have l: "laid_out 0 ps os (unat e)" "unat e \<le> room ps" using place_laid_out[OF e] assms(5) by auto
  obtain a where a: "size_align_rec ts (Inr (fs, 0, 1)) = Some (Some (lagfx_round_up e a, a))" "unat a \<le> max 1 (room ps)"
    using struct_size[OF assms(4), of 0 1] e by (auto simp: fs_def)
  have "unat e + unat a < 2 ^ 32" using l(2) a(2) assms(5) by (simp add: max_def split: if_splits)
  then have "laid_out 0 ps os (unat (lagfx_round_up e a))" using laid_out_mono[OF l(1)] round_up_unat(1) by blast
  moreover have "air_type_size_align ts ty = Some (Some (lagfx_round_up e a, a))" unfolding air_type_size_align_def
    using assms(1,2) a(1) by (subst size_align_rec.simps) (auto simp: fs_def Let_def)
  ultimately show ?thesis by blast
qed

theorem block_members_disjoint_witness:
  "\<exists>size align. air_type_size_align sample_types 3 = Some (Some (size, align)) \<and> laid_out 0 [(4, 4), (12, 16), (8, 4)] [0, 16, 28] (unat size)"
proof -
  have t: "sample_types ! unat (3::u32) = \<lparr>ty_kind = LAGFX_AIR_TYPE_STRUCT_ANON, ty_op = [0, 0, 1, 2], ty_name_offset = 0\<rparr>"
    "unat (3::u32) < length sample_types" by (simp_all add: sample_types_def)
  have "room [(4, 4), (12, 16), (8, 4)] < 2 ^ 31" by (simp add: room_def)
  then show ?thesis using block_members_disjoint[of 3 sample_types "[0, 16, 28]" "[(4, 4), (12, 16), (8, 4)]"] t
    by (simp add: sample_offsets sample_sizes del: member_offsets.simps)
qed

text \<open>Computing the size of a type returns when no type contains itself, and does not return for a
  type on a cycle through element types and first members.\<close>

theorem type_size_returns:
  "(wf (contained ts) \<longrightarrow> air_type_size_align ts ty \<noteq> None) \<and> (\<forall>S. type_cycle ts S \<and> ty \<in> S \<longrightarrow> air_type_size_align ts ty = None)"
  using size_align_returns size_align_diverges by blast

section \<open>Host side\<close>



text \<open>Mapping whole pages of host memory into a task touches no address outside the reservation of the task as long as
  offset and length do not wrap; the mapped bytes follow later writes of the host when the
  kernel can alias the memory, and are a snapshot otherwise.\<close>

theorem task_map_contract:
  assumes "lagfx_task_map_host_memory k t off (Some h) len ro w = (True, t', w')" "unat off + unat len < 2 ^ 64" "page_up len = len"
  shows "(reserved_size t \<le> a - reserved_base t \<longrightarrow> vm_maps w' a = vm_maps w a) \<and>
     (i < len \<longrightarrow> task_byte (w'\<lparr>vm_host := host'\<rparr>) (reserved_base t + off + i) =
        Some (if k_mremap k then host' (h + i) else vm_host w (h + i)))"
  using map_stays_inside[OF assms] map_alias_coherent[OF assms(1) _ _ assms(3)] map_copy_snapshot[OF assms(1) _ _ assms(3)] by auto

theorem task_map_contract_witness:
  "\<exists>t' w'. lagfx_task_map_host_memory \<lparr>k_reserve = (\<lambda>_. None), k_memfd = True, k_mmap_file = True, k_mmap_none = True,
         k_munmap = True, k_mremap = False, k_mprotect = True\<rparr>
       \<lparr>reserved_base = 0x10000, reserved_size = 0x4000, memfd_open = False\<rparr> 0x1000 (Some 0x90000) 0x2000 True
       \<lparr>vm_maps = (\<lambda>_. None), vm_file = (\<lambda>_. 0), vm_host = (\<lambda>a. ucast a)\<rparr> = (True, t', w') \<and>
     task_byte (w'\<lparr>vm_host := (\<lambda>_. 1)\<rparr>) 0x11007 = Some 7"
proof -
  let ?k = "\<lparr>k_reserve = (\<lambda>_. None), k_memfd = True, k_mmap_file = True, k_mmap_none = True,
         k_munmap = True, k_mremap = False, k_mprotect = True\<rparr>"
  let ?t = "\<lparr>reserved_base = 0x10000, reserved_size = 0x4000, memfd_open = False\<rparr>"
  let ?w = "\<lparr>vm_maps = (\<lambda>_. None), vm_file = (\<lambda>_. 0), vm_host = (\<lambda>a. ucast a)\<rparr>"
  obtain t' w' where m: "lagfx_task_map_host_memory ?k ?t 0x1000 (Some 0x90000) 0x2000 True ?w = (True, t', w')"
    by (simp add: lagfx_task_map_host_memory_def task_map_via_copy_def Let_def)
  show ?thesis using task_map_contract[OF m, of 0 7 "\<lambda>_. 1"] m by simp
qed

end
